(* ===== verification/Prelude.thy ===== *)
theory Prelude
  imports Main "HOL-Library.Word"
begin

text \<open>
  Shared vocabulary of the development.

  \<^item> Go's \<open>error\<close> result is an \<open>'e option\<close>: \<open>None\<close> is the nil error. A function that
    returns a value and an error is a sum \<open>'e + 'a\<close>. \<open>first_of\<close> is a chain of
    \<open>if err := ...; err != nil { return err }\<close> statements and \<open>first_error\<close> is a
    \<open>for index, x := range xs\<close> loop that returns at the first error.
  \<^item> Go strings and byte slices are lists of bytes (\<open>char list\<close>). The functions of the
    standard library the sources use on them are modelled on bytes: \<open>strings.TrimSpace\<close>
    through the UTF-8 encodings of the white-space runes, the \<open>%d\<close> verb through \<open>decimal\<close>,
    \<open>strings.ToUpper\<close> and \<open>strings.EqualFold\<close> exactly on ASCII, with the Unicode case
    tables as a parameter beyond it.
  \<^item> \<open>transition_invariant\<close> is the contract of a step relation with an inductive invariant.
\<close>

named_theorems check_simps \<open>acceptance of a validator, as an equivalence\<close>
named_theorems kind_simps \<open>case analysis on message kinds\<close>

type_synonym bytes = string

section \<open>Error results\<close>

fun first_of :: "'e option list \<Rightarrow> 'e option" where
  "first_of [] = None"
| "first_of (x # xs) = (case x of Some e \<Rightarrow> Some e | None \<Rightarrow> first_of xs)"

definition fail_if :: "bool \<Rightarrow> 'e \<Rightarrow> 'e option" where
  "fail_if c e = (if c then Some e else None)"

fun first_error :: "(nat \<Rightarrow> 'a \<Rightarrow> 'e option) \<Rightarrow> nat \<Rightarrow> 'a list \<Rightarrow> 'e option" where
  "first_error f i [] = None"
| "first_error f i (x # xs) =
     (case f i x of Some e \<Rightarrow> Some e | None \<Rightarrow> first_error f (Suc i) xs)"

lemma first_of_None [simp]: "first_of xs = None \<longleftrightarrow> (\<forall>x\<in>set xs. x = None)"
  by (induction xs) (auto split: option.splits)

lemma first_of_simps [simp]: "first_of (None # xs) = first_of xs" "first_of (Some e # xs) = Some e"
  by simp_all

declare first_of.simps(2) [simp del]

lemma fail_if_None [simp]: "fail_if c e = None \<longleftrightarrow> \<not> c"
  by (simp add: fail_if_def)

lemma fail_if_Some [simp]: "fail_if c e = Some e' \<longleftrightarrow> c \<and> e = e'"
  by (simp add: fail_if_def)

lemma fail_if_True [simp]: "fail_if True e = Some e" and fail_if_False [simp]: "fail_if False e = None"
  by (simp_all add: fail_if_def)

lemma first_error_cong [fundef_cong]:
  "xs = ys \<Longrightarrow> i = j \<Longrightarrow> (\<And>k x. x \<in> set ys \<Longrightarrow> f k x = g k x) \<Longrightarrow>
   first_error f i xs = first_error g j ys"
  by (induction xs arbitrary: ys i j) (auto split: option.splits)

lemma first_error_None:
  "first_error f i xs = None \<longleftrightarrow> (\<forall>k < length xs. f (i + k) (xs ! k) = None)"
proof (induction xs arbitrary: i)
  case Nil
  then show ?case by simp
next
  case (Cons x xs)
  show ?case
    by (auto simp: Cons.IH All_less_Suc2 nth_Cons' split: option.splits)
qed

lemma list_all2_left: "list_all2 P xs ys \<Longrightarrow> x \<in> set xs \<Longrightarrow> \<exists>y\<in>set ys. P x y"
  by (induction rule: list_all2_induct) auto

lemma first_error_None_all:
  assumes "\<And>k x. f k x = None \<longleftrightarrow> P x"
  shows "first_error f i xs = None \<longleftrightarrow> (\<forall>x\<in>set xs. P x)"
  by (auto simp: first_error_None assms all_set_conv_all_nth)

text \<open>The loop returns the error of the first element that has one.\<close>

lemma first_error_Some:
  "first_error f i xs = Some e \<longleftrightarrow>
     (\<exists>k < length xs. f (i + k) (xs ! k) = Some e \<and> (\<forall>j < k. f (i + j) (xs ! j) = None))"
proof (induction xs arbitrary: i)
  case Nil
  then show ?case by simp
next
  case (Cons x xs)
  show ?case
  proof (cases "f i x")
    case None
    then have "first_error f i (x # xs) = Some e \<longleftrightarrow>
        (\<exists>k < length xs. f (Suc i + k) (xs ! k) = Some e \<and> (\<forall>j < k. f (Suc i + j) (xs ! j) = None))"
      by (simp add: Cons.IH)
    also have "\<dots> \<longleftrightarrow> (\<exists>k < length (x # xs). f (i + k) ((x # xs) ! k) = Some e \<and>
        (\<forall>j < k. f (i + j) ((x # xs) ! j) = None))"
      using None by (auto simp: Ex_less_Suc2 All_less_Suc2)
    finally show ?thesis .
  next
    case (Some e')
    then show ?thesis by (auto simp: Ex_less_Suc2 All_less_Suc2)
  qed
qed

lemma first_error_list_all2:
  assumes "list_all2 R xs ys" and "\<And>i x y. R x y \<Longrightarrow> f i x = g i y"
  shows "first_error f i xs = first_error g i ys"
  using assms(1) by (induction arbitrary: i rule: list_all2_induct) (auto simp: assms(2) split: option.splits)

lemma ex_list_all2: "(\<And>x. x \<in> set xs \<Longrightarrow> \<exists>y. R x y) \<Longrightarrow> \<exists>ys. list_all2 R xs ys"
proof (induction xs)
  case Nil
  then show ?case by (intro exI [of _ "[]"]) simp
next
  case (Cons x xs)
  from Cons.prems [of x] obtain y where "R x y" by auto
  moreover from Cons obtain ys where "list_all2 R xs ys" by auto
  ultimately show ?case by (intro exI [of _ "y # ys"]) simp
qed

text \<open>A loop over a list in which any step may stop without a result.\<close>

lemma those_map_Some:
  "those (map f xs) = Some ys \<longleftrightarrow> list_all2 (\<lambda>x y. f x = Some y) xs ys"
  by (induction xs arbitrary: ys) (auto simp: list_all2_Cons1 split: option.splits)

lemma those_map_total:
  assumes "\<And>x. x \<in> set xs \<Longrightarrow> f x = Some (g x)"
  shows "those (map f xs) = Some (map g xs)"
  using assms by (induction xs) auto

lemma list_ex_cong_set: "(\<And>x. x \<in> set xs \<Longrightarrow> P x = Q x) \<Longrightarrow> list_ex P xs = list_ex Q xs"
  by (induction xs) auto

definition as_error :: "'e + 'a \<Rightarrow> 'e option" where
  "as_error r = (case r of Inl e \<Rightarrow> Some e | Inr _ \<Rightarrow> None)"

definition bind_sum :: "'e + 'a \<Rightarrow> ('a \<Rightarrow> 'e + 'b) \<Rightarrow> 'e + 'b" where
  "bind_sum r f = (case r of Inl e \<Rightarrow> Inl e | Inr x \<Rightarrow> f x)"

lemma bind_sum_simps [simp]: "bind_sum (Inl e) f = Inl e" "bind_sum (Inr x) f = f x"
  by (simp_all add: bind_sum_def)

lemma bind_sum_Inr: "bind_sum r f = Inr y \<longleftrightarrow> (\<exists>x. r = Inr x \<and> f x = Inr y)"
  by (cases r) auto

text \<open>
  A loop that appends a result per element and returns at the first error.
\<close>

fun traverse :: "('a \<Rightarrow> 'e + 'b) \<Rightarrow> 'a list \<Rightarrow> 'e + 'b list" where
  "traverse f [] = Inr []"
| "traverse f (x # xs) =
     (case f x of Inl e \<Rightarrow> Inl e | Inr y \<Rightarrow> (case traverse f xs of Inl e \<Rightarrow> Inl e | Inr ys \<Rightarrow> Inr (y # ys)))"

lemma traverse_cong [fundef_cong]:
  "xs = ys \<Longrightarrow> (\<And>x. x \<in> set ys \<Longrightarrow> f x = g x) \<Longrightarrow> traverse f xs = traverse g ys"
  by (induction xs arbitrary: ys) (auto split: sum.splits)

lemma traverse_Inr: "traverse f xs = Inr ys \<longleftrightarrow> list_all2 (\<lambda>x y. f x = Inr y) xs ys"
proof (induction xs arbitrary: ys)
  case Nil
  then show ?case by auto
next
  case (Cons x xs)
  show ?case
    by (cases "f x"; cases "traverse f xs") (auto simp: list_all2_Cons1 Cons.IH [symmetric])
qed

lemma traverse_Inl: "traverse f xs = Inl e \<Longrightarrow> \<exists>x\<in>set xs. f x = Inl e"
  by (induction xs) (auto split: sum.splits)

lemma traverse_total: "(\<And>x. x \<in> set xs \<Longrightarrow> f x = Inr (g x)) \<Longrightarrow> traverse f xs = Inr (map g xs)"
  by (induction xs) auto

lemma traverse_length: "traverse f xs = Inr ys \<Longrightarrow> length ys = length xs"
  by (auto simp: traverse_Inr dest: list_all2_lengthD)

definition map_error :: "('e \<Rightarrow> 'f) \<Rightarrow> 'e + 'a \<Rightarrow> 'f + 'a" where
  "map_error g r = (case r of Inl e \<Rightarrow> Inl (g e) | Inr x \<Rightarrow> Inr x)"

lemma map_error_simps [simp]: "map_error g (Inl e) = Inl (g e)" "map_error g (Inr x) = Inr x"
  by (simp_all add: map_error_def)

lemma map_error_Inr [simp]: "map_error g r = Inr x \<longleftrightarrow> r = Inr x"
  by (cases r) auto

lemma bind_sum_cong [fundef_cong]:
  "r = s \<Longrightarrow> (\<And>x. s = Inr x \<Longrightarrow> f x = g x) \<Longrightarrow> bind_sum r f = bind_sum s g"
  by (cases r) auto

definition require :: "'e option \<Rightarrow> 'a \<Rightarrow> 'e + 'a" where
  "require c x = (case c of Some e \<Rightarrow> Inl e | None \<Rightarrow> Inr x)"

lemma require_Inr [simp]: "require c x = Inr y \<longleftrightarrow> c = None \<and> x = y"
  by (auto simp: require_def split: option.splits)

section \<open>Step relations\<close>

text \<open>
  A predicate that holds initially and is kept by every step holds in every reachable state.
\<close>

locale transition_invariant =
  fixes init :: "'s \<Rightarrow> bool"
    and step :: "'s \<Rightarrow> 's \<Rightarrow> bool"
    and inv :: "'s \<Rightarrow> bool"
  assumes init_inv: "init s \<Longrightarrow> inv s"
    and step_inv: "inv s \<Longrightarrow> step s s' \<Longrightarrow> inv s'"
begin

lemma reachable_inv:
  assumes "rtranclp step s s'" and "init s"
  shows "inv s'"
  using assms by (induction rule: rtranclp_induct) (auto intro: init_inv step_inv)

lemma run_inv:
  assumes "rtranclp step s s'" and "inv s"
  shows "inv s'"
  using assms by (induction rule: rtranclp_induct) (auto intro: step_inv)

end

end
