(* ===== verification/GoStrings.thy ===== *)
theory GoStrings
  imports Prelude
begin

text \<open>
  The parts of Go's standard library that the sources apply to strings, on byte lists:
  \<open>strings.TrimSpace\<close> (the UTF-8 encodings of the white-space runes stripped on both
  sides), the \<open>%d\<close> verb, \<open>strings.ToUpper\<close>, \<open>strings.ToLower\<close>, \<open>strings.EqualFold\<close>, \<open>strings.Contains\<close>,
  \<open>strings.Join\<close> and \<open>utf8.Valid\<close>. Case mapping beyond ASCII needs the Unicode tables:
  they are an argument of the case functions, which take the ASCII path exactly where
  the library takes it.
\<close>

section \<open>White space\<close>

definition space_encodings :: "string list" where
  "space_encodings =
    [[CHR 0x09], [CHR 0x0A], [CHR 0x0B], [CHR 0x0C], [CHR 0x0D], [CHR 0x20],
     [CHR 0xC2, CHR 0x85], [CHR 0xC2, CHR 0xA0],
     [CHR 0xE1, CHR 0x9A, CHR 0x80],
     [CHR 0xE2, CHR 0x80, CHR 0x80], [CHR 0xE2, CHR 0x80, CHR 0x81],
     [CHR 0xE2, CHR 0x80, CHR 0x82], [CHR 0xE2, CHR 0x80, CHR 0x83],
     [CHR 0xE2, CHR 0x80, CHR 0x84], [CHR 0xE2, CHR 0x80, CHR 0x85],
     [CHR 0xE2, CHR 0x80, CHR 0x86], [CHR 0xE2, CHR 0x80, CHR 0x87],
     [CHR 0xE2, CHR 0x80, CHR 0x88], [CHR 0xE2, CHR 0x80, CHR 0x89],
     [CHR 0xE2, CHR 0x80, CHR 0x8A], [CHR 0xE2, CHR 0x80, CHR 0xA8],
     [CHR 0xE2, CHR 0x80, CHR 0xA9], [CHR 0xE2, CHR 0x80, CHR 0xAF],
     [CHR 0xE2, CHR 0x81, CHR 0x9F], [CHR 0xE3, CHR 0x80, CHR 0x80]]"

fun strip_one :: "string list \<Rightarrow> string \<Rightarrow> string option" where
  "strip_one [] s = None"
| "strip_one (e # es) s =
     (if e \<noteq> [] \<and> take (length e) s = e then Some (drop (length e) s) else strip_one es s)"

lemma strip_one_shorter: "strip_one es s = Some t \<Longrightarrow> length t < length s"
proof (induction es)
  case (Cons e es)
  have "length (drop (length e) s) < length s" if "e \<noteq> []" and "take (length e) s = e"
  proof -
    from that have "s \<noteq> []" by auto
    with \<open>e \<noteq> []\<close> show ?thesis by simp
  qed
  with Cons show ?case by (auto split: if_splits)
qed simp

function strip :: "string list \<Rightarrow> string \<Rightarrow> string" where
  "strip es s = (case strip_one es s of None \<Rightarrow> s | Some t \<Rightarrow> strip es t)"
  by pat_completeness auto
termination
  by (relation "measure (\<lambda>(es, s). length s)") (auto dest: strip_one_shorter)

declare strip.simps [simp del]

lemma strip_None: "strip_one es s = None \<Longrightarrow> strip es s = s"
  by (simp add: strip.simps)

lemma strip_Some: "strip_one es s = Some t \<Longrightarrow> strip es s = strip es t"
  by (simp add: strip.simps)

lemma strip_one_strip: "strip_one es (strip es s) = None"
proof (induction es s rule: strip.induct)
  case (1 es s)
  then show ?case
    by (cases "strip_one es s") (simp_all add: strip_None strip_Some)
qed

lemma strip_idem [simp]: "strip es (strip es s) = strip es s"
  by (rule strip_None) (rule strip_one_strip)

lemma strip_one_suffix: "strip_one es s = Some t \<Longrightarrow> \<exists>u. s = u @ t"
  by (induction es) (auto split: if_splits intro: exI [of _ "take _ s"] append_take_drop_id [symmetric])

lemma strip_suffix: "\<exists>u. s = u @ strip es s"
proof (induction es s rule: strip.induct)
  case (1 es s)
  show ?case
  proof (cases "strip_one es s")
    case None
    then show ?thesis by (simp add: strip_None)
  next
    case (Some t)
    from strip_one_suffix [OF Some] obtain u where u: "s = u @ t" ..
    from "1.IH" [OF Some] obtain v where v: "t = v @ strip es t" ..
    have "s = (u @ v) @ strip es t" using u v by (metis append.assoc)
    then show ?thesis unfolding strip_Some [OF Some] ..
  qed
qed

lemma strip_length: "length (strip es s) \<le> length s"
proof -
  obtain u where "s = u @ strip es s" using strip_suffix by blast
  then have "length s = length u + length (strip es s)" by (metis length_append)
  then show ?thesis by simp
qed

text \<open>A string that does not start with a space encoding keeps that property on prefixes.\<close>

lemma strip_one_None: "strip_one es s = None \<longleftrightarrow> (\<forall>e\<in>set es. e \<noteq> [] \<longrightarrow> take (length e) s \<noteq> e)"
  by (induction es) auto

lemma strip_one_None_prefix:
  assumes "strip_one es (s @ t) = None"
  shows "strip_one es s = None"
  unfolding strip_one_None
proof (intro ballI impI notI)
  fix e assume e: "e \<in> set es" "e \<noteq> []" and eq: "take (length e) s = e"
  then have "length e \<le> length s" by (metis length_take min.cobounded1)
  with eq have "take (length e) (s @ t) = e" by simp
  with e assms show False by (simp add: strip_one_None)
qed

definition trimSpace :: "string \<Rightarrow> string" where
  "trimSpace s = rev (strip (map rev space_encodings) (rev (strip space_encodings s)))"

lemma trimSpace_Nil [simp]: "trimSpace [] = []"
proof -
  have "strip_one es [] = None" for es by (simp add: strip_one_None)
  then show ?thesis by (simp add: trimSpace_def strip_None)
qed

lemma trimSpace_prefix: "\<exists>u. strip space_encodings s = trimSpace s @ u"
proof -
  let ?t = "strip space_encodings s"
  obtain u where "rev ?t = u @ strip (map rev space_encodings) (rev ?t)"
    using strip_suffix by blast
  then have "rev (rev ?t) = rev (u @ strip (map rev space_encodings) (rev ?t))" by (rule arg_cong)
  then have "?t = trimSpace s @ rev u"
    unfolding trimSpace_def by (simp only: rev_rev_ident rev_append)
  then show ?thesis ..
qed

lemma trimSpace_idem [simp]: "trimSpace (trimSpace s) = trimSpace s"
proof -
  obtain u where u: "strip space_encodings s = trimSpace s @ u"
    using trimSpace_prefix [of s] ..
  have "strip_one space_encodings (trimSpace s @ u) = None"
    unfolding u [symmetric] by (rule strip_one_strip)
  then have left: "strip space_encodings (trimSpace s) = trimSpace s"
    by (rule strip_None [OF strip_one_None_prefix])
  have right: "strip (map rev space_encodings) (rev (trimSpace s)) = rev (trimSpace s)"
    unfolding trimSpace_def by (simp only: rev_rev_ident strip_idem)
  show ?thesis
    unfolding trimSpace_def [of "trimSpace s"] left right by (rule rev_rev_ident)
qed

lemma trimSpace_length: "length (trimSpace s) \<le> length s"
proof -
  have "length (trimSpace s) \<le> length (strip space_encodings s)"
    unfolding trimSpace_def using strip_length [of "map rev space_encodings"] by (metis length_rev)
  also have "\<dots> \<le> length s" by (rule strip_length)
  finally show ?thesis .
qed

text \<open>The canonical-identifier test \<open>value == "" || strings.TrimSpace(value) != value\<close>.\<close>

definition canonical :: "string \<Rightarrow> bool" where
  "canonical s \<longleftrightarrow> s \<noteq> [] \<and> trimSpace s = s"

lemma canonical_trimSpace: "trimSpace s \<noteq> [] \<Longrightarrow> canonical (trimSpace s)"
  by (simp add: canonical_def)

section \<open>Decimal numbers\<close>

definition digit :: "nat \<Rightarrow> char" where
  "digit n = char_of (48 + n)"

fun decimal :: "nat \<Rightarrow> string" where
  "decimal n = (if n < 10 then [digit n] else decimal (n div 10) @ [digit (n mod 10)])"

declare decimal.simps [simp del]

definition undecimal :: "string \<Rightarrow> nat" where
  "undecimal s = foldl (\<lambda>a c. 10 * a + (of_char c - 48)) 0 s"

lemma of_char_digit: "n < 10 \<Longrightarrow> of_char (digit n) = 48 + n"
  by (simp add: digit_def)

lemma undecimal_decimal [simp]: "undecimal (decimal n) = n"
proof (induction n rule: decimal.induct)
  case (1 n)
  show ?case
  proof (cases "n < 10")
    case True
    then show ?thesis
      by (subst decimal.simps) (simp add: undecimal_def of_char_digit)
  next
    case False
    then have "undecimal (decimal (n div 10)) = n div 10" by (rule "1.IH")
    moreover have "undecimal (xs @ [digit (n mod 10)]) = 10 * undecimal xs + n mod 10" for xs
      by (simp add: undecimal_def of_char_digit)
    ultimately show ?thesis
      using False by (subst decimal.simps) simp
  qed
qed

lemma decimal_inject [simp]: "decimal m = decimal n \<longleftrightarrow> m = n"
  by (metis undecimal_decimal)

lemma decimal_digits: "c \<in> set (decimal n) \<Longrightarrow> 48 \<le> (of_char c :: nat) \<and> (of_char c :: nat) < 58"
proof (induction n rule: decimal.induct)
  case (1 n)
  show ?case
  proof (cases "n < 10")
    case True
    with "1.prems" show ?thesis
      by (subst (asm) decimal.simps) (simp add: of_char_digit)
  next
    case False
    with "1.prems" have "c \<in> set (decimal (n div 10)) \<or> c = digit (n mod 10)"
      by (subst (asm) decimal.simps) auto
    with False "1.IH" show ?thesis by (auto simp: of_char_digit)
  qed
qed

lemma colon_notin_decimal: "CHR '':'' \<notin> set (decimal n)"
  using decimal_digits [of "CHR '':''" n] by auto

text \<open>
  A length-prefixed field, the \<open>"%d:%s"\<close> format applied to \<open>len(s)\<close> and \<open>s\<close>, followed by
  a rest determines the field and the rest.
\<close>

definition sized :: "string \<Rightarrow> string" where
  "sized s = decimal (length s) @ '':'' @ s"

lemma append_colon_inject:
  assumes "CHR '':'' \<notin> set xs" and "CHR '':'' \<notin> set ys"
    and "xs @ CHR '':'' # us = ys @ CHR '':'' # vs"
  shows "xs = ys \<and> us = vs"
  using assms by (auto simp: append_eq_append_conv2 append_eq_Cons_conv Cons_eq_append_conv)

lemma sized_inject: "sized s @ u = sized t @ v \<longleftrightarrow> s = t \<and> u = v"
proof
  assume "sized s @ u = sized t @ v"
  then have "decimal (length s) @ CHR '':'' # (s @ u) = decimal (length t) @ CHR '':'' # (t @ v)"
    by (simp add: sized_def)
  then have "decimal (length s) = decimal (length t) \<and> s @ u = t @ v"
    by (intro append_colon_inject colon_notin_decimal)
  then have "length s = length t" and "s @ u = t @ v" by auto
  then show "s = t \<and> u = v" by (simp add: append_eq_append_conv)
qed simp

section \<open>Case mapping and searching\<close>

definition ascii :: "char \<Rightarrow> bool" where
  "ascii c \<longleftrightarrow> (of_char c :: nat) < 128"

definition ascii_upper :: "char \<Rightarrow> char" where
  "ascii_upper c =
     (if 97 \<le> (of_char c :: nat) \<and> (of_char c :: nat) \<le> 122 then char_of ((of_char c :: nat) - 32) else c)"

text \<open>
  \<open>strings.ToUpper\<close> takes its fast path when every byte is ASCII; otherwise it maps the
  runes through the Unicode tables, the argument \<open>uni\<close>.
\<close>

definition toUpper :: "(string \<Rightarrow> string) \<Rightarrow> string \<Rightarrow> string" where
  "toUpper uni s = (if list_all ascii s then map ascii_upper s else uni s)"

definition ascii_lower :: "char \<Rightarrow> char" where
  "ascii_lower c =
     (if 65 \<le> (of_char c :: nat) \<and> (of_char c :: nat) \<le> 90 then char_of ((of_char c :: nat) + 32) else c)"

text \<open>\<open>strings.ToLower\<close>, in the same way.\<close>

definition toLower :: "(string \<Rightarrow> string) \<Rightarrow> string \<Rightarrow> string" where
  "toLower uni s = (if list_all ascii s then map ascii_lower s else uni s)"

text \<open>
  \<open>strings.EqualFold\<close> compares byte by byte while both bytes are ASCII and hands the rest
  to Unicode case folding, the argument \<open>uni\<close>, at the first byte that is not.
\<close>

fun equalFold :: "(string \<Rightarrow> string \<Rightarrow> bool) \<Rightarrow> string \<Rightarrow> string \<Rightarrow> bool" where
  "equalFold uni (a # s) (b # t) =
     (if \<not> ascii a \<or> \<not> ascii b then uni (a # s) (b # t)
      else ascii_upper a = ascii_upper b \<and> equalFold uni s t)"
| "equalFold uni s t = (s = [] \<and> t = [])"

lemma equalFold_refl_ascii: "list_all ascii s \<Longrightarrow> equalFold uni s s"
  by (induction s) auto

lemma equalFold_ascii:
  "list_all ascii s \<Longrightarrow> list_all ascii t \<Longrightarrow>
   equalFold uni s t \<longleftrightarrow> map ascii_upper s = map ascii_upper t"
  by (induction uni s t rule: equalFold.induct) auto

fun contains_char :: "char \<Rightarrow> string \<Rightarrow> bool" where
  "contains_char c [] = False"
| "contains_char c (d # s) = (c = d \<or> contains_char c s)"

lemma contains_char_set [simp]: "contains_char c s \<longleftrightarrow> c \<in> set s"
  by (induction s) auto

fun joinPlus :: "string list \<Rightarrow> string" where
  "joinPlus [] = []"
| "joinPlus [s] = s"
| "joinPlus (s # t # ts) = s @ ''+'' @ joinPlus (t # ts)"

lemma joinPlus_Cons: "ts \<noteq> [] \<Longrightarrow> joinPlus (s # ts) = s @ ''+'' @ joinPlus ts"
  by (cases ts) auto

section \<open>UTF-8\<close>

text \<open>
  \<open>utf8.Valid\<close>: a leading byte fixes the length of the encoding and the range of the
  second byte (no overlong forms, no surrogates, nothing above U+10FFFF); further bytes are
  continuation bytes.
\<close>

definition byte_in :: "nat \<Rightarrow> nat \<Rightarrow> char \<Rightarrow> bool" where
  "byte_in lo hi c \<longleftrightarrow> lo \<le> (of_char c :: nat) \<and> (of_char c :: nat) \<le> hi"

definition continuation :: "char \<Rightarrow> bool" where
  "continuation = byte_in 0x80 0xBF"

definition lead2 :: "char \<Rightarrow> char \<Rightarrow> bool" where
  "lead2 a b \<longleftrightarrow> byte_in 0xC2 0xDF a \<and> continuation b"

definition lead3 :: "char \<Rightarrow> char \<Rightarrow> bool" where
  "lead3 a b \<longleftrightarrow>
     byte_in 0xE0 0xE0 a \<and> byte_in 0xA0 0xBF b \<or>
     byte_in 0xE1 0xEC a \<and> continuation b \<or>
     byte_in 0xED 0xED a \<and> byte_in 0x80 0x9F b \<or>
     byte_in 0xEE 0xEF a \<and> continuation b"

definition lead4 :: "char \<Rightarrow> char \<Rightarrow> bool" where
  "lead4 a b \<longleftrightarrow>
     byte_in 0xF0 0xF0 a \<and> byte_in 0x90 0xBF b \<or>
     byte_in 0xF1 0xF3 a \<and> continuation b \<or>
     byte_in 0xF4 0xF4 a \<and> byte_in 0x80 0x8F b"

fun utf8_valid :: "bytes \<Rightarrow> bool" where
  "utf8_valid [] = True"
| "utf8_valid (a # s) =
     (if ascii a then utf8_valid s
      else
        (case s of
           [] \<Rightarrow> False
         | b # t \<Rightarrow>
             if lead2 a b then utf8_valid t
             else
               (case t of
                  [] \<Rightarrow> False
                | c # u \<Rightarrow>
                    if lead3 a b then continuation c \<and> utf8_valid u
                    else
                      (case u of
                         [] \<Rightarrow> False
                       | d # v \<Rightarrow> lead4 a b \<and> continuation c \<and> continuation d \<and> utf8_valid v))))"

lemma utf8_valid_ascii: "list_all ascii s \<Longrightarrow> utf8_valid s"
  by (induction s) auto

end
