(* ===== verification/Messages.thy ===== *)
theory Messages
  imports GoStrings
begin

text \<open>
  The protocol messages the SDK handles, as the generated Go structs have them
  (\<open>src/proto/kubling/provider/v1\<close>, and the value types of \<open>kubling/v1\<close> as the sources use
  them). A nil message pointer is \<open>None\<close>, a repeated field is a list of possibly nil
  pointers, an \<open>optional\<close> scalar is an option. An enum has a constructor per declared
  number and one for numbers the schema does not name. Floating-point payloads are their
  IEEE bit patterns.

  \<open>kind\<close> is the oneof of a value, with the pointers it holds as type parameters, so that
  the same \<open>kind\<close> serves the tree of a decoded message (\<open>value\<close>) and the nodes of a
  pointer graph built in memory. The errors of the SDK are datatypes with one constructor
  per message text and the text's arguments.
\<close>

section \<open>Types and values\<close>

datatype value_type =
    VALUE_TYPE_UNKNOWN
  | VALUE_TYPE_STRING | VALUE_TYPE_VARBINARY | VALUE_TYPE_CHAR | VALUE_TYPE_BOOLEAN
  | VALUE_TYPE_BYTE | VALUE_TYPE_SHORT | VALUE_TYPE_INTEGER | VALUE_TYPE_LONG
  | VALUE_TYPE_BIGINTEGER | VALUE_TYPE_FLOAT | VALUE_TYPE_DOUBLE | VALUE_TYPE_BIGDECIMAL
  | VALUE_TYPE_DATE | VALUE_TYPE_TIME | VALUE_TYPE_TIMESTAMP
  | VALUE_TYPE_BLOB | VALUE_TYPE_CLOB | VALUE_TYPE_XML | VALUE_TYPE_GEOMETRY
  | VALUE_TYPE_GEOGRAPHY | VALUE_TYPE_JSON | VALUE_TYPE_ARRAY
  | VALUE_TYPE_unnamed int

text \<open>\<open>kublingv1.ValueType_name\<close> has the number.\<close>

definition ValueType_known :: "value_type \<Rightarrow> bool" where
  "ValueType_known t \<longleftrightarrow> (case t of VALUE_TYPE_unnamed _ \<Rightarrow> False | _ \<Rightarrow> True)"

datatype type_descriptor =
  TypeDescriptor
    (td_type: value_type)
    (td_element: "type_descriptor option")
    (td_precision: "int option")
    (td_scale: "int option")

record lob_reference =
  lob_id :: string
  lob_type :: value_type
  lob_size_bytes :: "64 word option"
  lob_session_id :: string
  lob_expires_at :: "int option"

record spatial_value =
  sp_wkb :: bytes
  sp_srid :: "int option"
  sp_crs :: "string option"

datatype ('d, 'p) kind =
    NullValue "unit option"
  | StringValue string
  | VarbinaryValue bytes
  | CharValue string
  | BooleanValue bool
  | ByteValue int
  | ShortValue int
  | IntegerValue int
  | LongValue int
  | BigintegerValue string
  | FloatValue "32 word"
  | DoubleValue "64 word"
  | BigdecimalValue string
  | DateValue string
  | TimeValue string
  | TimestampValue string
  | BlobValue "bytes option"
  | ClobValue "string option"
  | XmlValue string
  | GeometryValue bytes
  | GeographyValue bytes
  | JsonValue string
  | ArrayValueNil
  | ArrayValue 'd "'p list"
  | GeometryWithCrs "spatial_value option"
  | GeographyWithCrs "spatial_value option"
  | LobReference "lob_reference option"
  | KindUnset

datatype "value" = Value (kind_of: "(type_descriptor option, value option) kind")

section \<open>Expressions\<close>

datatype comparison_operator =
    COMPARISON_OPERATOR_UNSPECIFIED | COMPARISON_OPERATOR_EQUAL
  | COMPARISON_OPERATOR_NOT_EQUAL | COMPARISON_OPERATOR_LESS_THAN
  | COMPARISON_OPERATOR_LESS_THAN_OR_EQUAL | COMPARISON_OPERATOR_GREATER_THAN
  | COMPARISON_OPERATOR_GREATER_THAN_OR_EQUAL | COMPARISON_OPERATOR_unnamed int

datatype logical_operator =
    LOGICAL_OPERATOR_UNSPECIFIED | LOGICAL_OPERATOR_AND | LOGICAL_OPERATOR_OR
  | LOGICAL_OPERATOR_NOT | LOGICAL_OPERATOR_unnamed int

datatype null_predicate_operator =
    NULL_PREDICATE_OPERATOR_UNSPECIFIED | NULL_PREDICATE_OPERATOR_IS_NULL
  | NULL_PREDICATE_OPERATOR_IS_NOT_NULL | NULL_PREDICATE_OPERATOR_unnamed int

datatype pattern_operator =
    PATTERN_OPERATOR_UNSPECIFIED | PATTERN_OPERATOR_LIKE | PATTERN_OPERATOR_NOT_LIKE
  | PATTERN_OPERATOR_unnamed int

datatype aggregate_function =
    AGGREGATE_FUNCTION_UNSPECIFIED | AGGREGATE_FUNCTION_COUNT_STAR
  | AGGREGATE_FUNCTION_COUNT | AGGREGATE_FUNCTION_COUNT_BIG | AGGREGATE_FUNCTION_MIN
  | AGGREGATE_FUNCTION_MAX | AGGREGATE_FUNCTION_SUM | AGGREGATE_FUNCTION_AVG
  | AGGREGATE_FUNCTION_unnamed int

definition AggregateFunction_known :: "aggregate_function \<Rightarrow> bool" where
  "AggregateFunction_known f \<longleftrightarrow> (case f of AGGREGATE_FUNCTION_unnamed _ \<Rightarrow> False | _ \<Rightarrow> True)"

text \<open>An expression's oneof; a nil payload of a message variant is the \<open>Nil\<close> constructor.\<close>

datatype expression =
    ExprUnset
  | ExprField "string option"
  | ExprLiteralNil
  | ExprLiteral "value option" "type_descriptor option"
  | ExprComparisonNil
  | ExprComparison comparison_operator "expression option" "expression option"
  | ExprLogicalNil
  | ExprLogical logical_operator "expression option list"
  | ExprNullPredicateNil
  | ExprNullPredicate null_predicate_operator "expression option"
  | ExprFunctionCallNil
  | ExprFunctionCall string "expression option list"
  | ExprPatternNil
  | ExprPattern pattern_operator "expression option" "expression option" "string option"
  | ExprAggregateNil
  | ExprAggregate aggregate_function "expression option list" bool "type_descriptor option"

section \<open>Batches, queries and mutations\<close>

record field_msg =
  f_name :: string
  f_type :: value_type
  f_type_descriptor :: "type_descriptor option"

type_synonym tuple_msg = "value option list"

record tuple_batch =
  b_fields :: "field_msg option list"
  b_tuples :: "tuple_msg option list"

record entity_reference =
  er_name :: string
  er_namespace :: string

record projection =
  pr_expression :: "expression option"
  pr_output_name :: string

datatype sort_direction =
    SORT_DIRECTION_UNSPECIFIED | SORT_DIRECTION_ASCENDING | SORT_DIRECTION_DESCENDING
  | SORT_DIRECTION_unnamed int

datatype null_ordering =
    NULL_ORDERING_UNSPECIFIED | NULL_ORDERING_FIRST | NULL_ORDERING_LAST
  | NULL_ORDERING_unnamed int

record order_by =
  ob_expression :: "expression option"
  ob_direction :: sort_direction
  ob_null_ordering :: null_ordering

record query_request =
  q_connection_id :: string
  q_entity :: "entity_reference option"
  q_projections :: "projection option list"
  q_filter :: "expression option"
  q_order_by :: "order_by option list"
  q_limit :: "64 word option"
  q_offset :: "64 word option"
  q_batch_size :: "32 word option"
  q_accepted_features :: "string list"
  q_group_by :: "expression option list"
  q_having :: "expression option"
  q_accept_outcome :: bool
  q_allow_partial_results :: bool

datatype query_completion =
    QUERY_COMPLETION_UNSPECIFIED | QUERY_COMPLETION_COMPLETE | QUERY_COMPLETION_PARTIAL
  | QUERY_COMPLETION_unnamed int

datatype query_diagnostic_role =
    QUERY_DIAGNOSTIC_ROLE_UNSPECIFIED | QUERY_DIAGNOSTIC_ROLE_WARNING
  | QUERY_DIAGNOSTIC_ROLE_PARTIAL_RESULT_CAUSE | QUERY_DIAGNOSTIC_ROLE_unnamed int

record query_warning =
  w_code :: string
  w_message :: string
  w_target :: string
  w_retryable :: bool
  w_role :: query_diagnostic_role

record query_outcome =
  o_completion :: query_completion
  o_warnings :: "query_warning option list"

datatype query_response = BatchResponse tuple_batch | OutcomeResponse query_outcome

record assignment =
  as_field :: string
  as_value :: "expression option"

record insert_request =
  i_connection_id :: string
  i_entity :: "entity_reference option"
  i_rows :: "tuple_batch option"
  i_returning_fields :: "string list"
  i_accepted_features :: "string list"

record insert_response =
  i_affected_rows :: "64 word option"
  i_generated_values :: "tuple_batch option"

record update_request =
  u_connection_id :: string
  u_entity :: "entity_reference option"
  u_assignments :: "assignment option list"
  u_filter :: "expression option"

record update_response =
  u_affected_rows :: "64 word option"

record delete_request =
  d_connection_id :: string
  d_entity :: "entity_reference option"
  d_filter :: "expression option"

record delete_response =
  d_affected_rows :: "64 word option"

section \<open>LOBs and transaction branches\<close>

record read_lob_request =
  rl_connection_id :: string
  rl_lob_id :: string
  rl_offset :: "64 word"
  rl_length :: "64 word option"
  rl_max_chunk_bytes :: "32 word"

record read_lob_response =
  rr_offset :: "64 word"
  rr_data :: bytes
  rr_end_of_read :: bool

record release_lob_request =
  rel_connection_id :: string
  rel_lob_id :: string

datatype branch_state =
    TRANSACTION_BRANCH_STATE_UNSPECIFIED | TRANSACTION_BRANCH_STATE_NOT_FOUND
  | TRANSACTION_BRANCH_STATE_ACTIVE | TRANSACTION_BRANCH_STATE_PREPARED
  | TRANSACTION_BRANCH_STATE_READ_ONLY | TRANSACTION_BRANCH_STATE_COMMITTED
  | TRANSACTION_BRANCH_STATE_ROLLED_BACK | TRANSACTION_BRANCH_STATE_HEURISTIC_COMMIT
  | TRANSACTION_BRANCH_STATE_HEURISTIC_ROLLBACK | TRANSACTION_BRANCH_STATE_HEURISTIC_MIXED
  | TRANSACTION_BRANCH_STATE_HEURISTIC_HAZARD | TRANSACTION_BRANCH_STATE_unnamed int

datatype prepare_outcome =
    TRANSACTION_PREPARE_OUTCOME_UNSPECIFIED | TRANSACTION_PREPARE_OUTCOME_PREPARED
  | TRANSACTION_PREPARE_OUTCOME_READ_ONLY | TRANSACTION_PREPARE_OUTCOME_unnamed int

record branch_id =
  br_resource_manager_id :: string
  br_branch_id :: bytes

record transaction_branch =
  tb_branch :: "branch_id option"
  tb_state :: branch_state

section \<open>Feature names\<close>

text \<open>
  The canonical names of the shared feature registry, as
  \<open>src/proto/kubling/provider/v1/capabilities.proto\<close> documents them.
\<close>

definition ArrayValuesV1 :: string where "ArrayValuesV1 = ''array_values_v1''"
definition SpatialValuesV1 :: string where "SpatialValuesV1 = ''spatial_values_v1''"
definition LobReadV1 :: string where "LobReadV1 = ''lob_read_v1''"

lemma features_distinct [simp]:
  "ArrayValuesV1 \<noteq> SpatialValuesV1" "SpatialValuesV1 \<noteq> ArrayValuesV1"
  "ArrayValuesV1 \<noteq> LobReadV1" "LobReadV1 \<noteq> ArrayValuesV1"
  "SpatialValuesV1 \<noteq> LobReadV1" "LobReadV1 \<noteq> SpatialValuesV1"
  by (simp_all add: ArrayValuesV1_def SpatialValuesV1_def LobReadV1_def)

section \<open>Errors\<close>

text \<open>
  Values and expressions (\<open>sdk-go/provider/value_structure.go\<close>): the messages by the function
  that makes them, and the \<open>%w\<close> wrappings as a path of contexts.
\<close>

datatype desc_err =
    DescriptorRequired
  | DescriptorCycle
  | DescriptorUnknownType
  | DescriptorUnnamedType value_type
  | ArrayNeedsElementType
  | ElementTypeNotAllowed value_type
  | PrecisionNotPositive
  | PrecisionNotAllowed value_type
  | ScaleNotAllowed value_type
  | ScaleNeedsPrecision
  | ScaleExceedsPrecision

datatype value_err =
    ValueNil
  | ValueCycle
  | PayloadNil string
  | LobTypeNotLob
  | KindRequired
  | ValueTypeMismatch value_type value_type
  | ArrayElementTypeMismatch

datatype batch_err =
    FieldNil nat
  | FieldTypeUnknown nat
  | FieldTypeUnnamed nat value_type
  | FieldArrayNeedsDescriptor nat
  | FieldTypeMismatch nat value_type value_type
  | TupleNil nat
  | TupleArity nat nat nat

datatype expr_err =
    LiteralNil
  | AggregateNil
  | AggregateUnspecified
  | AggregateUnnamed aggregate_function
  | CountStarHasArguments
  | CountStarDistinct
  | AggregateArity aggregate_function

datatype value_context =
    InElementType
  | InDeclaredType
  | InArrayElementType
  | InArrayElement nat
  | InFieldDescriptor nat
  | InTupleValue nat nat

datatype expr_context =
    InComparisonLeft
  | InComparisonRight
  | InLogicalOperand nat
  | InFunctionArgument nat
  | InPatternValue
  | InPatternExpression
  | InAggregateArgument nat
  | InAggregateResultType
  | InProjection nat
  | InFilter
  | InOrderBy nat
  | InGroupBy nat
  | InHaving

datatype verr =
    DescErr desc_err
  | ValueErr value_err
  | BatchErr batch_err
  | ExprErr expr_err
  | AtValue value_context verr
  | AtExpr expr_context verr
  | DanglingPointer

text \<open>Output features (\<open>sdk-go/provider/value_features.go\<close>).\<close>

datatype feature_err =
    InStructure verr
  | FeatureNotAccepted string
  | LobTransportRequired
  | LobReferenceNeedsId
  | LobReferenceTypeWrong
  | LobReferenceNeedsExpiry
  | LobReferenceHasSession
  | InField nat feature_err
  | InTupleFeature nat nat feature_err
  | InElementFeature nat feature_err

text \<open>Resource managers and branches (\<open>sdk-go/provider/transaction_recovery.go\<close>).\<close>

datatype manager_err = ManagerIdNotCanonical | ManagerIdTooLong

datatype branch_err =
    BranchRequired
  | BranchManagerInvalid manager_err
  | BranchManagerMismatch string string
  | BranchIdRequired
  | BranchIdTooLong

text \<open>Capabilities (\<open>sdk-go/provider/capability_validation.go\<close>).\<close>

datatype types_err =
    SupportedTypeNil nat
  | SupportedTypeUnknown nat
  | SupportedTypeUnnamed nat value_type
  | SupportedTypeNoDirection nat value_type
  | SupportedTypeDuplicate value_type
  | FeatureNotCanonical nat
  | FeatureDuplicate string

datatype feature_cap_err =
    ArrayDimensionsRequired
  | ArrayTypeRequired
  | SpatialTypeRequired
  | LobChunkBytesRequired
  | LobBytesRequired
  | LobRetentionRequired
  | LobTypeRequired

datatype recovery_cap_err =
    RecoveryIdNotEmpty
  | RecoveryNeedsTransactions
  | RecoveryIdInvalid manager_err
  | ManagerNotAdvertised
  | ManagerMissing
  | ManagerInvalid manager_err
  | ManagerMismatch string string

datatype aggregate_cap_err =
    CapAggregateUnspecified nat
  | CapAggregateUnnamed nat aggregate_function
  | CapAggregateDuplicate aggregate_function

datatype cap_err =
    TypesErr types_err
  | FeatureCapErr feature_cap_err
  | RecoveryCapErr recovery_cap_err
  | AggregateCapErr aggregate_cap_err

text \<open>Query outcomes (\<open>sdk-go/provider/query.go\<close>).\<close>

datatype warning_err =
    WarningNil nat
  | WarningMessageRequired nat
  | WarningCodeBlank nat
  | WarningTargetBlank nat
  | WarningRoleUnspecified nat
  | WarningRoleUnnamed nat query_diagnostic_role

datatype outcome_err =
    CompletionUnspecified
  | CompletionUnnamed query_completion
  | InWarning warning_err
  | CompleteWithCause
  | PartialWithoutCause
  | OutcomeNil
  | PartialForStrictQuery
  | WarningsNotAccepted

text \<open>Semantic fragments (\<open>sdk-go/provider/semantic.go\<close>).\<close>

datatype fragment_err =
    FragmentRequired
  | FragmentEmpty
  | FragmentTooLarge
  | FragmentNotUtf8
  | FragmentVersionEmpty
  | FragmentMediaType string
  | FragmentFileRequired
  | FragmentUrl

text \<open>gRPC status codes the SDK uses, status messages by file and Go error values.\<close>

datatype code =
  Canceled | InvalidArgument | NotFound | AlreadyExists | ResourceExhausted
  | FailedPrecondition | Unimplemented | Internal
  | DeadlineExceeded | PermissionDenied | Unauthenticated | Aborted | Unavailable

datatype server_reason =
    ConnectionIdRequired
  | ConnectionNotFound string
  | NilCapabilities
  | InvalidCapabilities cap_err
  | InvalidRecoveryCapabilities cap_err
  | NilHealth
  | NilConnection
  | RegisterConnection
  | InvalidFragment fragment_err

datatype query_reason =
    PartialNeedsOutcome
  | QueryInvalid verr
  | NilResultStream
  | InvalidOutcome outcome_err
  | NilBatch
  | UnsupportedQueryValue feature_err

datatype mutation_reason =
    InsertInvalid verr
  | UnsupportedGeneratedValue feature_err
  | UpdateAssignmentInvalid nat verr
  | UpdateFilterInvalid verr
  | DeleteFilterInvalid verr

datatype lob_reason =
    LobReadUnsupported
  | LobReleaseUnsupported
  | LobIdRequired
  | NilLobStream
  | LobEndedEarly
  | NilLobResponse
  | LobOffsetMismatch "64 word" "64 word"
  | LobEmptyChunk
  | LobChunkTooLarge "64 word" "32 word"
  | LobLengthExceeded
  | LobOffsetOverflow

datatype branch_reason =
    BranchesUnsupported
  | RecoveryUnsupported
  | InvalidRecoveryManager manager_err
  | BranchInvalid branch_err
  | InvalidPrepareOutcome prepare_outcome
  | OnePhaseNeedsConnection
  | PreparedHasConnection
  | RollbackConnectionEmpty
  | InvalidCommitState branch_state
  | InvalidRollbackState branch_state
  | InvalidBranchState branch_state

datatype recovery_reason =
    ResourceManagerInvalid manager_err
  | ResourceManagerMismatch string string
  | NilRecoveryStream
  | EmptyRecoveryBatch
  | NilRecoveredBranch nat
  | InvalidRecoveryState branch_state
  | InvalidRecoveredBranch branch_err
  | DuplicateRecoveredBranch

datatype cache_reason =
    EntityRequired
  | EntityNameRequired
  | AtLeastOneEntity
  | BuildCacheKey

text \<open>The in-memory provider (\<open>providers/inmemory\<close>), by the function that makes the error.\<close>

datatype im_type_err =
    TypeExpressionRequired
  | TypeFieldRequired
  | TypeUnknownField string string
  | TypeLiteralRequired
  | TypeValueRequired
  | TypeNullLiteral
  | TypeValueKindRequired
  | TypeFunctionUnsupported
  | TypeResultRequired
  | TypeKindRequired

datatype im_number_err = NotNumeric | InvalidNumber string

datatype im_compare_err =
    NumericMismatch
  | NumberInvalid im_number_err
  | StringMismatch
  | BooleanMismatch
  | NotComparable

datatype im_aggregate_err =
    AggregateRequired
  | CountStarArguments
  | AggregateArgument aggregate_function
  | AggregateUnsupported aggregate_function
  | ResultTypeRequired
  | ResultNotIntegral int int
  | ResultOverflow value_type
  | ResultNotNumeric value_type
  | ResultNotConvertible value_type value_type
  | ResultUntyped im_type_err
  | EncodeValue string

datatype im_eval_err =
    ExpressionRequired
  | FieldNameRequired
  | FieldUnavailable string
  | UnknownField string
  | LiteralValueRequired
  | FunctionCallRequired
  | FunctionUnsupported string
  | AggregateInRow
  | ExpressionKindRequired
  | ComparisonRequired
  | ComparisonLeftErr im_eval_err
  | ComparisonRightErr im_eval_err
  | ComparisonOperatorRequired
  | CompareErr im_compare_err
  | LogicalRequired
  | AndNeedsTwo
  | OrNeedsTwo
  | NotNeedsOne
  | LogicalOperatorRequired
  | NullPredicateRequired
  | NullPredicateOperatorRequired
  | PredicateNotBoolean
  | FilterNotBoolean
  | OrderingRequired
  | NumberErr im_number_err
  | AggregateErr im_aggregate_err

datatype im_plan_err =
    ProjectionRequired
  | OutputNameRequired
  | ProjectionUntyped string im_type_err

datatype im_group_err =
    FieldNotGrouped string
  | NestedAggregate
  | GroupedAggregateRequired
  | GroupedComparisonRequired
  | GroupedLogicalRequired
  | GroupedNullPredicateRequired
  | GroupedFunctionRequired
  | GroupedPatternRequired
  | GroupedKindRequired

datatype im_expected =
    ExpectedString | ExpectedBoolean | ExpectedInteger | ExpectedClob | ExpectedFloat | ExpectedTimestamp

datatype im_rows_err =
    RowsRequired
  | RowFieldNameRequired
  | RowFieldUnknown string
  | RowFieldDuplicate string
  | RowTupleRequired nat
  | RowTupleArity nat nat nat
  | RowValue nat string im_expected
  | RowTitleRequired nat

datatype im_assign_err =
    AssignConversion im_expected
  | AssignNotNullable string
  | AssignNotUpdatable string

datatype im_assignments_err =
    AssignmentsEmpty
  | AssignmentFieldRequired
  | AssignmentFieldUnknown string
  | AssignmentToId
  | AssignmentValueRequired string
  | AssignmentDuplicate string

datatype im_reason =
    ImConnectionClosed
  | ImTransactionsUnsupported
  | ImEntityRequired
  | ImEntityNotFound string
  | ImEntityReadOnly string
  | ImPlan im_plan_err
  | ImProjectionNeedsFeature string string
  | ImFilter im_eval_err
  | ImOrdering im_eval_err
  | ImSort im_compare_err
  | ImProjection string im_eval_err
  | ImAggregateNeedsProjections
  | ImAggregateInFilter
  | ImGroupByRequired nat
  | ImGroupByAggregate nat
  | ImProjectionNotGrouped string im_group_err
  | ImHavingNotGrouped im_group_err
  | ImOrderByRequired nat
  | ImOrderByNotGrouped nat im_group_err
  | ImGroupRows im_eval_err
  | ImHaving im_eval_err
  | ImClobNotUtf8
  | ImLobTooLarge
  | ImLobIdentifier
  | ImLobNotFound
  | ImLobOffset
  | ImInsertRows im_rows_err
  | ImReturningFields string
  | ImTaskExists string
  | ImTaskTwice string
  | ImGeneratedValues im_eval_err
  | ImAssignments im_assignments_err
  | ImUpdateFilter im_eval_err
  | ImAssignmentValue string im_eval_err
  | ImAssignmentApply string im_assign_err
  | ImDeleteFilter im_eval_err

text \<open>The host provider (\<open>providers/host\<close>): the registry, the agent gateway, query planning.\<close>

datatype context_err = ContextCanceled | ContextDeadlineExceeded

datatype registry_err =
    RegistryContext context_err
  | FleetNamespaceRequired
  | FleetNamespaceWhitespace
  | AgentIdentifierRequired
  | AgentIdentifierWhitespace
  | AgentVersionRequired
  | ProtocolMajorRequired
  | AgentSchemaRequired
  | MaxConcurrentScansRequired
  | ObservationTimeRequired
  | ExpiryMustFollowObservation
  | SessionIdRequired
  | DisconnectTimeRequired
  | DisconnectPrecedesConnection
  | ObservationMovedBackwards
  | GenerationOverflow
  | RenewalMustAdvance
  | ErrSessionNotFound
  | ErrSessionNotCurrent
  | ErrSessionExpired
  | GenerateSessionId string
  | GeneratedSessionIdEmpty
  | SessionIdCollisions
  | SnapshotTimeRequired
  | PersistAgentSession registry_err
  | IdentityMissing
  | DecodeIdentity string
  | DecodeSession string
  | MarshalFailed string
  | StoreFailed string
  | InvalidGeneration
  | StateDirectoryRequired
  | OpenTimeRequired
  | CreateDirectory string
  | OpenDatabase string
  | UnsupportedRegistrySchema
  | CurrentSessionMissing
  | InitializeRegistry registry_err

datatype gateway_err =
    ErrSessionClosed
  | ErrSessionBusy
  | ErrScanNotActive
  | ErrScanRetired
  | GatewayContext context_err
  | GatewaySend string
  | ScanIdRequired
  | ScanTableRequired
  | ScanAlreadyActive string
  | ScanAlreadyUsed string
  | BatchAndScanIdRequired
  | BatchTooManyRows nat
  | BatchTooManyBytes nat
  | BatchIndexWrong string "64 word" "64 word"
  | CompletionAndScanIdRequired
  | CancelReasonRequired
  | GenerateScanId string
  | ScanDeadlineRequired
  | NotAgentBacked string
  | NoLocalColumns string
  | BindingSessionRequired
  | BindingSessionIdRequired
  | BindingGenerationRequired
  | BindingHostDiffers
  | BindingIdTaken
  | BindingUpdateMismatch

datatype host_plan_err =
    HostEntityRequired
  | HostNamespaceUsed
  | HostNotPushed
  | HostTableUnknown string
  | HostProjectionRequired nat
  | HostProjectionNotField nat
  | HostColumnUnknown string string
  | FilterNotEquality
  | FilterNotFieldLiteral
  | FilterNotAccess string
  | FilterNotConjunction
  | FilterUnsupported

datatype host_value_err =
    HostValueRequired
  | HostNullNotAllowed
  | HostTypeExpected value_type
  | HostNonNegativeInteger
  | HostDecimalInteger
  | HostFiniteNumber
  | HostNonNegativeNumber
  | HostTimestamp
  | HostArrayElementType
  | HostArrayElementRequired nat
  | HostArrayElementString nat
  | HostTypeUnsupported value_type

datatype host_row_err =
    HostRowArity string nat nat
  | AgentTableUnknown string
  | AgentColumnUnknown string string
  | AgentColumnValue string string host_value_err
  | ProjectedValueMissing string

datatype host_reason =
    HostContext context_err
  | HostConnectionClosed
  | HostTransactionsUnsupported
  | HostReadOnly
  | HostPlan host_plan_err
  | HostPartialDisabled
  | HostNeedsFeature string
  | HostTableNotFound string
  | HostList registry_err
  | HostProject host_row_err
  | HostFanoutDisabled
  | HostSnapshot registry_err
  | HostTargetFailed string string
  | HostWarningsNotAccepted

datatype gateway_reason =
    GwContext context_err
  | GwHelloFirst
  | GwAgentId
  | GwRequestedNamespace
  | GwAgentVersion
  | GwProtocol "32 word" "32 word"
  | GwSchema string
  | GwMaxScans
  | GwAuthorization
  | GwInvalidNamespace
  | GwOpenSession registry_err
  | GwBind gateway_err
  | GwCloseSession registry_err
  | GwSuperseded
  | GwLeaseExpired
  | GwHeartbeatSequence
  | GwSessionMissing
  | GwRenewSession registry_err
  | GwUpdateBinding gateway_err
  | GwHelloTwice
  | GwScanNotActive
  | GwScanResponse gateway_err
  | GwPayloadRequired
  | GwPayloadUnknown
  | GwReceiveHello
  | GwReceiveMessage

datatype reason =
    ServerReason server_reason
  | QueryReason query_reason
  | MutationReason mutation_reason
  | LobReason lob_reason
  | BranchReason branch_reason
  | RecoveryReason recovery_reason
  | CacheReason cache_reason
  | InMemoryReason im_reason
  | HostReason host_reason
  | GatewayReason gateway_reason

datatype go_error =
    EOF
  | Status code reason
  | Plain reason
  | Wrapped reason go_error
  | Joined "go_error list"
  | Foreign string
  | ForeignWrap string go_error

text \<open>\<open>errors.Is(err, io.EOF)\<close> looks through wrapping and joining.\<close>

fun errors_Is_EOF :: "go_error \<Rightarrow> bool" where
  "errors_Is_EOF EOF = True"
| "errors_Is_EOF (Wrapped _ e) = errors_Is_EOF e"
| "errors_Is_EOF (ForeignWrap _ e) = errors_Is_EOF e"
| "errors_Is_EOF (Joined es) = list_ex errors_Is_EOF es"
| "errors_Is_EOF _ = False"

text \<open>\<open>errors.Join\<close> drops nil errors and is nil when all are.\<close>

definition errors_Join :: "go_error option list \<Rightarrow> go_error option" where
  "errors_Join es =
     (let present = map the (filter (\<lambda>e. e \<noteq> None) es)
      in if present = [] then None else Some (Joined present))"

lemma errors_Join_None [simp]: "errors_Join es = None \<longleftrightarrow> (\<forall>e\<in>set es. e = None)"
  by (auto simp: errors_Join_def Let_def filter_empty_conv)

end
