(* ===== verification/ValueStructure.thy ===== *)
theory ValueStructure
  imports Messages
begin

text \<open>
  \<open>sdk-go/provider/value_structure.go\<close>: validation of type descriptors, values, batches and
  expressions.

  A message decoded from the wire is a tree. A provider can also hand the SDK values it
  built in memory, whose pointers may form cycles, and the source detects them with a path
  of visited pointers. The traversals with the path are modelled on pointer graphs:
  \<open>validateTypeDescriptorPath\<close> on a heap of descriptor nodes and \<open>validateValuePath\<close> on a
  heap of value nodes, addresses being list indexes. \<open>validateTypeDescriptor\<close> and
  \<open>validateValue\<close> are the same code on trees, where no pointer repeats. The lemmas of the
  last section show that the graph traversals stop on every graph, agree with the tree
  functions on every graph that unfolds to a tree, and reject every other graph.
\<close>

section \<open>Type descriptors\<close>

definition check_dimensions :: "value_type \<Rightarrow> int option \<Rightarrow> int option \<Rightarrow> verr option" where
  "check_dimensions t p s =
     first_of
      [case p of
         None \<Rightarrow> None
       | Some n \<Rightarrow>
           first_of
            [fail_if (n \<le> 0) (DescErr PrecisionNotPositive),
             fail_if (t \<noteq> VALUE_TYPE_BIGINTEGER \<and> t \<noteq> VALUE_TYPE_BIGDECIMAL)
               (DescErr (PrecisionNotAllowed t))],
       case s of
         None \<Rightarrow> None
       | Some k \<Rightarrow>
           first_of
            [fail_if (t \<noteq> VALUE_TYPE_BIGDECIMAL) (DescErr (ScaleNotAllowed t)),
             case p of
               None \<Rightarrow> Some (DescErr ScaleNeedsPrecision)
             | Some n \<Rightarrow> fail_if (k > n) (DescErr ScaleExceedsPrecision)]]"

fun check_descriptor :: "type_descriptor \<Rightarrow> verr option" where
  "check_descriptor (TypeDescriptor t el p s) =
     first_of
      [fail_if (t = VALUE_TYPE_UNKNOWN) (DescErr DescriptorUnknownType),
       fail_if (\<not> ValueType_known t) (DescErr (DescriptorUnnamedType t)),
       if t = VALUE_TYPE_ARRAY
       then (case el of
               None \<Rightarrow> Some (DescErr ArrayNeedsElementType)
             | Some d \<Rightarrow> map_option (AtValue InElementType) (check_descriptor d))
       else fail_if (el \<noteq> None) (DescErr (ElementTypeNotAllowed t)),
       check_dimensions t p s]"

definition validateTypeDescriptor :: "type_descriptor option \<Rightarrow> verr option" where
  "validateTypeDescriptor d =
     (case d of None \<Rightarrow> Some (DescErr DescriptorRequired) | Some d' \<Rightarrow> check_descriptor d')"

subsection \<open>Descriptors as a pointer graph\<close>

datatype td_node =
  TdNode
    (n_type: value_type)
    (n_element: "nat option")
    (n_precision: "int option")
    (n_scale: "int option")

type_synonym td_heap = "td_node list"

text \<open>
  The path is the set of descriptors on the way from the root; the entry of a descriptor is
  deleted when its call returns, so a call sees its ancestors only. An address outside the
  heap stands for no Go pointer; the traversal answers \<open>DanglingPointer\<close> there.
\<close>

function validateTypeDescriptorPath :: "td_heap \<Rightarrow> nat option \<Rightarrow> nat set \<Rightarrow> verr option" where
  "validateTypeDescriptorPath H None path = Some (DescErr DescriptorRequired)"
| "validateTypeDescriptorPath H (Some a) path =
     (if a \<in> path then Some (DescErr DescriptorCycle)
      else if length H \<le> a then Some DanglingPointer
      else
        (let n = H ! a; t = n_type n in
         first_of
          [fail_if (t = VALUE_TYPE_UNKNOWN) (DescErr DescriptorUnknownType),
           fail_if (\<not> ValueType_known t) (DescErr (DescriptorUnnamedType t)),
           if t = VALUE_TYPE_ARRAY
           then (if n_element n = None then Some (DescErr ArrayNeedsElementType)
                 else map_option (AtValue InElementType)
                        (validateTypeDescriptorPath H (n_element n) (insert a path)))
           else fail_if (n_element n \<noteq> None) (DescErr (ElementTypeNotAllowed t)),
           check_dimensions t (n_precision n) (n_scale n)]))"
  by pat_completeness auto

lemma unvisited_decreases:
  "(a::nat) < n \<Longrightarrow> a \<notin> path \<Longrightarrow> card ({..<n} - insert a path) < card ({..<n} - path)"
  by (rule psubset_card_mono) auto

termination validateTypeDescriptorPath
  by (relation "measure (\<lambda>(H, a, path). card ({..<length H} - path))")
    (simp_all add: unvisited_decreases del: card_Diff_insert)

declare validateTypeDescriptorPath.simps(2) [simp del]

text \<open>
  \<open>proto.Equal\<close> on two descriptors is equality of the messages they are; the messages of a
  graph are what it unfolds to.
\<close>

function unfold_desc :: "td_heap \<Rightarrow> nat \<Rightarrow> nat set \<Rightarrow> type_descriptor option" where
  "unfold_desc H a path =
     (if a \<in> path \<or> length H \<le> a then None
      else
        (let n = H ! a in
         case n_element n of
           None \<Rightarrow> Some (TypeDescriptor (n_type n) None (n_precision n) (n_scale n))
         | Some b \<Rightarrow>
             map_option (\<lambda>d. TypeDescriptor (n_type n) (Some d) (n_precision n) (n_scale n))
               (unfold_desc H b (insert a path))))"
  by pat_completeness auto
termination
  by (relation "measure (\<lambda>(H, a, path). card ({..<length H} - path))")
    (simp_all add: unvisited_decreases del: card_Diff_insert)

declare unfold_desc.simps [simp del]

definition desc_equal :: "td_heap \<Rightarrow> nat option \<Rightarrow> nat option \<Rightarrow> bool" where
  "desc_equal H x y =
     (case (x, y) of
        (None, None) \<Rightarrow> True
      | (Some a, Some b) \<Rightarrow> unfold_desc H a {} = unfold_desc H b {}
      | _ \<Rightarrow> False)"

section \<open>Values\<close>

definition is_null :: "('d, 'p) kind \<Rightarrow> bool" where
  "is_null k \<longleftrightarrow> (case k of NullValue (Some _) \<Rightarrow> True | _ \<Rightarrow> False)"

text \<open>The type switch of \<open>validateValuePath\<close>.\<close>

definition actual_type :: "('d, 'p) kind \<Rightarrow> verr + value_type" where
  "actual_type k =
     (case k of
        NullValue None \<Rightarrow> Inl (ValueErr (PayloadNil ''null_value''))
      | NullValue (Some _) \<Rightarrow> Inr VALUE_TYPE_UNKNOWN
      | StringValue _ \<Rightarrow> Inr VALUE_TYPE_STRING
      | VarbinaryValue _ \<Rightarrow> Inr VALUE_TYPE_VARBINARY
      | CharValue _ \<Rightarrow> Inr VALUE_TYPE_CHAR
      | BooleanValue _ \<Rightarrow> Inr VALUE_TYPE_BOOLEAN
      | ByteValue _ \<Rightarrow> Inr VALUE_TYPE_BYTE
      | ShortValue _ \<Rightarrow> Inr VALUE_TYPE_SHORT
      | IntegerValue _ \<Rightarrow> Inr VALUE_TYPE_INTEGER
      | LongValue _ \<Rightarrow> Inr VALUE_TYPE_LONG
      | BigintegerValue _ \<Rightarrow> Inr VALUE_TYPE_BIGINTEGER
      | FloatValue _ \<Rightarrow> Inr VALUE_TYPE_FLOAT
      | DoubleValue _ \<Rightarrow> Inr VALUE_TYPE_DOUBLE
      | BigdecimalValue _ \<Rightarrow> Inr VALUE_TYPE_BIGDECIMAL
      | DateValue _ \<Rightarrow> Inr VALUE_TYPE_DATE
      | TimeValue _ \<Rightarrow> Inr VALUE_TYPE_TIME
      | TimestampValue _ \<Rightarrow> Inr VALUE_TYPE_TIMESTAMP
      | BlobValue b \<Rightarrow> (if b = None then Inl (ValueErr (PayloadNil ''blob_value'')) else Inr VALUE_TYPE_BLOB)
      | ClobValue c \<Rightarrow> (if c = None then Inl (ValueErr (PayloadNil ''clob_value'')) else Inr VALUE_TYPE_CLOB)
      | XmlValue _ \<Rightarrow> Inr VALUE_TYPE_XML
      | GeometryValue _ \<Rightarrow> Inr VALUE_TYPE_GEOMETRY
      | GeographyValue _ \<Rightarrow> Inr VALUE_TYPE_GEOGRAPHY
      | JsonValue _ \<Rightarrow> Inr VALUE_TYPE_JSON
      | ArrayValueNil \<Rightarrow> Inl (ValueErr (PayloadNil ''array_value''))
      | ArrayValue _ _ \<Rightarrow> Inr VALUE_TYPE_ARRAY
      | GeometryWithCrs g \<Rightarrow> (if g = None then Inl (ValueErr (PayloadNil ''geometry_with_crs''))
            else Inr VALUE_TYPE_GEOMETRY)
      | GeographyWithCrs g \<Rightarrow> (if g = None then Inl (ValueErr (PayloadNil ''geography_with_crs''))
            else Inr VALUE_TYPE_GEOGRAPHY)
      | LobReference r \<Rightarrow> (case r of
            None \<Rightarrow> Inl (ValueErr (PayloadNil ''lob_reference''))
            | Some l \<Rightarrow>
            if lob_type l \<noteq> VALUE_TYPE_BLOB \<and> lob_type l \<noteq> VALUE_TYPE_CLOB
            then Inl (ValueErr LobTypeNotLob) else Inr (lob_type l))
      | KindUnset \<Rightarrow> Inl (ValueErr KindRequired))"

text \<open>The assertion \<open>value.GetKind().(*kublingv1.Value_ArrayValue)\<close>.\<close>

definition array_parts :: "('d, 'p) kind \<Rightarrow> ('d \<times> 'p list) option" where
  "array_parts k = (case k of ArrayValue et els \<Rightarrow> Some (et, els) | _ \<Rightarrow> None)"

lemma array_parts_simps [simp]: "array_parts (ArrayValue et els) = Some (et, els)"
  by (simp add: array_parts_def)

lemma array_parts_Some: "array_parts k = Some (et, els) \<longleftrightarrow> k = ArrayValue et els"
  by (auto simp: array_parts_def split: kind.splits)

lemma size_array_element:
  "array_parts k = Some (et, els) \<Longrightarrow> e \<in> set els \<Longrightarrow> size_option size e < size (Value k)"
  by (auto simp: array_parts_Some intro!: le_imp_less_Suc le_SucI size_list_estimation')

function (sequential) validateValue :: "value option \<Rightarrow> type_descriptor option \<Rightarrow> verr option" where
  "validateValue None d = Some (ValueErr ValueNil)"
| "validateValue (Some (Value k)) d =
     (if is_null k then None
      else
        (case actual_type k of
           Inl e \<Rightarrow> Some e
         | Inr t \<Rightarrow>
             first_of
              [case d of
                 None \<Rightarrow> None
               | Some d' \<Rightarrow> fail_if (td_type d' \<noteq> t) (ValueErr (ValueTypeMismatch t (td_type d'))),
               case array_parts k of
                 None \<Rightarrow> None
               | Some (et, els) \<Rightarrow>
                   first_of
                    [map_option (AtValue InArrayElementType) (validateTypeDescriptor et),
                     case d of
                       None \<Rightarrow> None
                     | Some d' \<Rightarrow> fail_if (td_element d' \<noteq> et) (ValueErr ArrayElementTypeMismatch),
                     first_error
                       (\<lambda>i e. map_option (AtValue (InArrayElement i)) (validateValue e et)) 0 els]]))"
  by pat_completeness auto
termination
  by (relation "measure (\<lambda>(v, d). size_option size v)") (auto dest: size_array_element)

declare validateValue.simps(2) [simp del]

definition validateValueAgainstDescriptor ::
  "value option \<Rightarrow> type_descriptor option \<Rightarrow> verr option" where
  "validateValueAgainstDescriptor v d =
     first_of
      [case d of
         None \<Rightarrow> None
       | Some _ \<Rightarrow> map_option (AtValue InDeclaredType) (validateTypeDescriptor d),
       validateValue v d]"

subsection \<open>Values as a pointer graph\<close>

type_synonym value_heap = "(nat option, nat option) kind list"

definition node_at :: "td_heap \<Rightarrow> nat \<Rightarrow> td_node" where
  "node_at H a = (if a < length H then H ! a else TdNode VALUE_TYPE_UNKNOWN None None None)"

function (sequential) validateValuePath ::
  "td_heap \<Rightarrow> value_heap \<Rightarrow> nat option \<Rightarrow> nat option \<Rightarrow> nat set \<Rightarrow> verr option" where
  "validateValuePath H V None d path = Some (ValueErr ValueNil)"
| "validateValuePath H V (Some a) d path =
     (if a \<in> path then Some (ValueErr ValueCycle)
      else if length V \<le> a then Some DanglingPointer
      else
        (let k = V ! a in
         if is_null k then None
         else
           (case actual_type k of
              Inl e \<Rightarrow> Some e
            | Inr t \<Rightarrow>
                first_of
                 [case d of
                    None \<Rightarrow> None
                  | Some x \<Rightarrow>
                      fail_if (n_type (node_at H x) \<noteq> t)
                        (ValueErr (ValueTypeMismatch t (n_type (node_at H x)))),
                  case array_parts k of
                    None \<Rightarrow> None
                  | Some (et, els) \<Rightarrow>
                      first_of
                       [map_option (AtValue InArrayElementType) (validateTypeDescriptorPath H et {}),
                        case d of
                          None \<Rightarrow> None
                        | Some x \<Rightarrow>
                            fail_if (\<not> desc_equal H (n_element (node_at H x)) et)
                              (ValueErr ArrayElementTypeMismatch),
                        first_error
                          (\<lambda>i e. map_option (AtValue (InArrayElement i))
                                  (validateValuePath H V e et (insert a path))) 0 els]])))"
  by pat_completeness auto
termination validateValuePath
  by (relation "measure (\<lambda>(H, V, a, d, path). card ({..<length V} - path))")
    (simp_all add: unvisited_decreases del: card_Diff_insert)

declare validateValuePath.simps(2) [simp del]

definition validateGraphAgainstDescriptor ::
  "td_heap \<Rightarrow> value_heap \<Rightarrow> nat option \<Rightarrow> nat option \<Rightarrow> verr option" where
  "validateGraphAgainstDescriptor H V v d =
     first_of
      [case d of
         None \<Rightarrow> None
       | Some _ \<Rightarrow> map_option (AtValue InDeclaredType) (validateTypeDescriptorPath H d {}),
       validateValuePath H V v d {}]"

section \<open>Batches\<close>

text \<open>
  The descriptor of each output field: an error, or the descriptor its values are checked
  against.
\<close>

definition output_descriptor :: "nat \<Rightarrow> field_msg option \<Rightarrow> verr + type_descriptor option" where
  "output_descriptor i f =
     (case f of
        None \<Rightarrow> Inl (BatchErr (FieldNil i))
      | Some fl \<Rightarrow>
          (let t = f_type fl in
           if t = VALUE_TYPE_UNKNOWN then Inl (BatchErr (FieldTypeUnknown i))
           else if \<not> ValueType_known t then Inl (BatchErr (FieldTypeUnnamed i t))
           else
             (case f_type_descriptor fl of
                None \<Rightarrow>
                  if t = VALUE_TYPE_ARRAY then Inl (BatchErr (FieldArrayNeedsDescriptor i))
                  else Inr (Some (TypeDescriptor t None None None))
              | Some d \<Rightarrow>
                  (case validateTypeDescriptor (Some d) of
                     Some e \<Rightarrow> Inl (AtValue (InFieldDescriptor i) e)
                   | None \<Rightarrow>
                       if td_type d \<noteq> t then Inl (BatchErr (FieldTypeMismatch i t (td_type d)))
                       else Inr (Some d)))))"

definition input_descriptor :: "nat \<Rightarrow> field_msg option \<Rightarrow> verr + type_descriptor option" where
  "input_descriptor i f =
     (case f of
        None \<Rightarrow> Inl (BatchErr (FieldNil i))
      | Some fl \<Rightarrow>
          (case f_type_descriptor fl of
             Some d \<Rightarrow>
               (case validateTypeDescriptor (Some d) of
                  Some e \<Rightarrow> Inl (AtValue (InFieldDescriptor i) e)
                | None \<Rightarrow>
                    if td_type d \<noteq> f_type fl
                    then Inl (BatchErr (FieldTypeMismatch i (f_type fl) (td_type d)))
                    else Inr (Some d))
           | None \<Rightarrow>
               (let t = f_type fl in
                if t = VALUE_TYPE_UNKNOWN then Inr None
                else if \<not> ValueType_known t then Inl (BatchErr (FieldTypeUnnamed i t))
                else if t = VALUE_TYPE_ARRAY then Inl (BatchErr (FieldArrayNeedsDescriptor i))
                else Inr (Some (TypeDescriptor t None None None)))))"

fun collect_descriptors ::
  "(nat \<Rightarrow> field_msg option \<Rightarrow> verr + type_descriptor option) \<Rightarrow> nat \<Rightarrow> field_msg option list \<Rightarrow>
   verr + type_descriptor option list" where
  "collect_descriptors g i [] = Inr []"
| "collect_descriptors g i (f # fs) =
     bind_sum (g i f) (\<lambda>d. bind_sum (collect_descriptors g (Suc i) fs) (\<lambda>ds. Inr (d # ds)))"

definition validateBatchTuples :: "tuple_batch \<Rightarrow> type_descriptor option list \<Rightarrow> verr option" where
  "validateBatchTuples b ds =
     first_error
       (\<lambda>ti tuple.
          case tuple of
            None \<Rightarrow> Some (BatchErr (TupleNil ti))
          | Some vs \<Rightarrow>
              first_of
               [fail_if (length vs \<noteq> length ds) (BatchErr (TupleArity ti (length vs) (length ds))),
                first_error
                  (\<lambda>vi v. map_option (AtValue (InTupleValue ti vi))
                           (validateValueAgainstDescriptor v (ds ! vi))) 0 vs])
       0 (b_tuples b)"

definition validateOutputBatchStructure :: "tuple_batch option \<Rightarrow> verr option" where
  "validateOutputBatchStructure batch =
     (case batch of
        None \<Rightarrow> None
      | Some b \<Rightarrow>
          (case collect_descriptors output_descriptor 0 (b_fields b) of
             Inl e \<Rightarrow> Some e
           | Inr ds \<Rightarrow> validateBatchTuples b ds))"

definition validateInputBatchStructure :: "tuple_batch option \<Rightarrow> verr option" where
  "validateInputBatchStructure batch =
     (case batch of
        None \<Rightarrow> None
      | Some b \<Rightarrow>
          (case collect_descriptors input_descriptor 0 (b_fields b) of
             Inl e \<Rightarrow> Some e
           | Inr ds \<Rightarrow> validateBatchTuples b ds))"

section \<open>Expressions\<close>

definition check_aggregate_shape :: "aggregate_function \<Rightarrow> nat \<Rightarrow> bool \<Rightarrow> verr option" where
  "check_aggregate_shape f n dist =
     first_of
      [fail_if (f = AGGREGATE_FUNCTION_UNSPECIFIED) (ExprErr AggregateUnspecified),
       fail_if (\<not> AggregateFunction_known f) (ExprErr (AggregateUnnamed f)),
       if f = AGGREGATE_FUNCTION_COUNT_STAR
       then first_of
             [fail_if (n \<noteq> 0) (ExprErr CountStarHasArguments),
              fail_if dist (ExprErr CountStarDistinct)]
       else fail_if (n \<noteq> 1) (ExprErr (AggregateArity f))]"

fun check_expression :: "expression \<Rightarrow> verr option" where
  "check_expression ExprUnset = None"
| "check_expression (ExprField _) = None"
| "check_expression ExprLiteralNil = Some (ExprErr LiteralNil)"
| "check_expression (ExprLiteral v d) = validateValueAgainstDescriptor v d"
| "check_expression ExprComparisonNil = None"
| "check_expression (ExprComparison _ l r) =
     first_of
      [case l of None \<Rightarrow> None | Some e \<Rightarrow> map_option (AtExpr InComparisonLeft) (check_expression e),
       case r of None \<Rightarrow> None | Some e \<Rightarrow> map_option (AtExpr InComparisonRight) (check_expression e)]"
| "check_expression ExprLogicalNil = None"
| "check_expression (ExprLogical _ es) =
     first_error
       (\<lambda>i x. case x of None \<Rightarrow> None
              | Some e \<Rightarrow> map_option (AtExpr (InLogicalOperand i)) (check_expression e)) 0 es"
| "check_expression ExprNullPredicateNil = None"
| "check_expression (ExprNullPredicate _ x) =
     (case x of None \<Rightarrow> None | Some e \<Rightarrow> check_expression e)"
| "check_expression ExprFunctionCallNil = None"
| "check_expression (ExprFunctionCall _ es) =
     first_error
       (\<lambda>i x. case x of None \<Rightarrow> None
              | Some e \<Rightarrow> map_option (AtExpr (InFunctionArgument i)) (check_expression e)) 0 es"
| "check_expression ExprPatternNil = None"
| "check_expression (ExprPattern _ v p _) =
     first_of
      [case v of None \<Rightarrow> None | Some e \<Rightarrow> map_option (AtExpr InPatternValue) (check_expression e),
       case p of None \<Rightarrow> None | Some e \<Rightarrow> map_option (AtExpr InPatternExpression) (check_expression e)]"
| "check_expression ExprAggregateNil = Some (ExprErr AggregateNil)"
| "check_expression (ExprAggregate f es dist rt) =
     first_of
      [check_aggregate_shape f (length es) dist,
       first_error
         (\<lambda>i x. case x of None \<Rightarrow> None
                | Some e \<Rightarrow> map_option (AtExpr (InAggregateArgument i)) (check_expression e)) 0 es,
       map_option (AtExpr InAggregateResultType) (validateTypeDescriptor rt)]"

definition validateExpressionValues :: "expression option \<Rightarrow> verr option" where
  "validateExpressionValues x = (case x of None \<Rightarrow> None | Some e \<Rightarrow> check_expression e)"

definition validateQueryRequestValues :: "query_request \<Rightarrow> verr option" where
  "validateQueryRequestValues q =
     first_of
      [first_error
         (\<lambda>i p. case p of None \<Rightarrow> None
                | Some pr \<Rightarrow> map_option (AtExpr (InProjection i))
                               (validateExpressionValues (pr_expression pr))) 0 (q_projections q),
       map_option (AtExpr InFilter) (validateExpressionValues (q_filter q)),
       first_error
         (\<lambda>i p. case p of None \<Rightarrow> None
                | Some ob \<Rightarrow> map_option (AtExpr (InOrderBy i))
                               (validateExpressionValues (ob_expression ob))) 0 (q_order_by q),
       first_error
         (\<lambda>i g. map_option (AtExpr (InGroupBy i)) (validateExpressionValues g)) 0 (q_group_by q),
       map_option (AtExpr InHaving) (validateExpressionValues (q_having q))]"

end
