(* ===== verification/ValueTyping.thy ===== *)
theory ValueTyping
  imports ValueStructure
begin

text \<open>
  What the validators of \<open>ValueStructure\<close> decide. \<open>wf_descriptor\<close> is well-formedness of a
  type descriptor, \<open>has_type\<close> the typing relation between descriptors and values, and
  \<open>well_formed_expression\<close> the literals and aggregates of an expression. Each validator
  accepts exactly what the relation allows.
\<close>

section \<open>Contracts\<close>

lemma first_error_skip_nil:
  "first_error (\<lambda>i x. case x of None \<Rightarrow> None | Some y \<Rightarrow> map_option (w i) (check y)) k xs = None \<longleftrightarrow>
   (\<forall>y. Some y \<in> set xs \<longrightarrow> check y = None)"
proof -
  have "first_error (\<lambda>i x. case x of None \<Rightarrow> None | Some y \<Rightarrow> map_option (w i) (check y)) k xs = None \<longleftrightarrow>
     (\<forall>x\<in>set xs. case x of None \<Rightarrow> True | Some y \<Rightarrow> check y = None)"
    by (rule first_error_None_all) (simp split: option.splits)
  also have "\<dots> \<longleftrightarrow> (\<forall>y. Some y \<in> set xs \<longrightarrow> check y = None)"
    by (auto split: option.splits)
  finally show ?thesis .
qed

text \<open>
  A checker that reports an error exactly where a predicate fails, and what that gives for
  a checker lifted over a list of possibly nil elements, with any wrapping of the error.
\<close>

locale decides =
  fixes check :: "'a \<Rightarrow> 'e option"
    and holds :: "'a \<Rightarrow> bool"
  assumes check_iff: "check x = None \<longleftrightarrow> holds x"
begin

lemma each: "first_error (\<lambda>i x. map_option (w i) (check x)) k xs = None \<longleftrightarrow> (\<forall>x\<in>set xs. holds x)"
  by (rule first_error_None_all) (simp add: check_iff)

lemma each_skipping_nil:
  "first_error (\<lambda>i x. case x of None \<Rightarrow> None | Some y \<Rightarrow> map_option (w i) (check y)) k xs = None \<longleftrightarrow>
   (\<forall>y. Some y \<in> set xs \<longrightarrow> holds y)"
  unfolding first_error_skip_nil by (simp add: check_iff)

end

section \<open>Descriptors\<close>

definition dimensions_ok :: "value_type \<Rightarrow> int option \<Rightarrow> int option \<Rightarrow> bool" where
  "dimensions_ok t p s \<longleftrightarrow>
     (\<forall>n. p = Some n \<longrightarrow> 0 < n \<and> (t = VALUE_TYPE_BIGINTEGER \<or> t = VALUE_TYPE_BIGDECIMAL)) \<and>
     (\<forall>k. s = Some k \<longrightarrow> t = VALUE_TYPE_BIGDECIMAL \<and> (\<exists>n. p = Some n \<and> k \<le> n))"

fun wf_descriptor :: "type_descriptor \<Rightarrow> bool" where
  "wf_descriptor (TypeDescriptor t el p s) \<longleftrightarrow>
     t \<noteq> VALUE_TYPE_UNKNOWN \<and> ValueType_known t \<and>
     (case el of None \<Rightarrow> t \<noteq> VALUE_TYPE_ARRAY | Some d \<Rightarrow> t = VALUE_TYPE_ARRAY \<and> wf_descriptor d) \<and>
     dimensions_ok t p s"

lemma check_dimensions_None: "check_dimensions t p s = None \<longleftrightarrow> dimensions_ok t p s"
  by (cases p; cases s) (auto simp: check_dimensions_def dimensions_ok_def)

lemma check_descriptor_None: "check_descriptor d = None \<longleftrightarrow> wf_descriptor d"
proof (induction d)
  case (TypeDescriptor t el p s)
  then show ?case
    by (cases el) (auto simp: check_dimensions_None)
qed

interpretation descriptor_check: decides check_descriptor wf_descriptor
  by unfold_locales (rule check_descriptor_None)

lemma validateTypeDescriptor_None [check_simps]:
  "validateTypeDescriptor x = None \<longleftrightarrow> (\<exists>d. x = Some d \<and> wf_descriptor d)"
  by (auto simp: validateTypeDescriptor_def check_descriptor_None split: option.splits)

section \<open>Values\<close>

text \<open>
  SQL NULL has every type. A scalar has the type of its kind. An array carries the
  element type of its descriptor, and its elements are present and have that type.
\<close>

inductive has_type :: "type_descriptor \<Rightarrow> value \<Rightarrow> bool" where
  null: "is_null k \<Longrightarrow> has_type d (Value k)"
| scalar: "array_parts k = None \<Longrightarrow> actual_type k = Inr (td_type d) \<Longrightarrow> has_type d (Value k)"
| array: "td_type d = VALUE_TYPE_ARRAY \<Longrightarrow> td_element d = Some ed \<Longrightarrow> wf_descriptor ed \<Longrightarrow>
    (\<forall>e\<in>set els. \<exists>v. e = Some v \<and> has_type ed v) \<Longrightarrow>
    has_type d (Value (ArrayValue (Some ed) els))"

inductive_simps has_type_Value: "has_type d (Value k)"

lemma is_null_array_parts: "is_null k \<Longrightarrow> array_parts k = None"
  by (cases k) (auto simp: is_null_def array_parts_def)

lemma is_null_ArrayValue [simp]: "\<not> is_null (ArrayValue et els)"
  by (simp add: is_null_def)

lemma actual_type_ArrayValue [simp]: "actual_type (ArrayValue et els) = Inr VALUE_TYPE_ARRAY"
  by (simp add: actual_type_def)

lemma has_type_non_array:
  "array_parts k = None \<Longrightarrow> has_type d (Value k) \<longleftrightarrow> is_null k \<or> actual_type k = Inr (td_type d)"
  by (subst has_type_Value) (auto simp: array_parts_def)

lemma has_type_ArrayValue:
  "has_type d (Value (ArrayValue et els)) \<longleftrightarrow>
     td_type d = VALUE_TYPE_ARRAY \<and> td_element d = et \<and>
     (\<exists>ed. et = Some ed \<and> wf_descriptor ed \<and> (\<forall>e\<in>set els. \<exists>v. e = Some v \<and> has_type ed v))"
  by (subst has_type_Value) auto

lemma array_parts_cases:
  obtains "array_parts k = None" | et els where "k = ArrayValue et els"
  by (cases "array_parts k") (auto simp: array_parts_Some)

text \<open>The elements of an array, checked against its element type.\<close>

definition elements_ok :: "type_descriptor option \<Rightarrow> value option list \<Rightarrow> bool" where
  "elements_ok et els \<longleftrightarrow>
     (\<exists>ed. et = Some ed \<and> wf_descriptor ed \<and> (\<forall>e\<in>set els. \<exists>v. e = Some v \<and> has_type ed v))"

lemma validateValue_scalar:
  "array_parts k = None \<Longrightarrow>
   validateValue (Some (Value k)) d = None \<longleftrightarrow>
     is_null k \<or> (\<exists>t. actual_type k = Inr t \<and> (\<forall>d'. d = Some d' \<longrightarrow> td_type d' = t))"
  by (cases "actual_type k") (auto simp: validateValue.simps split: option.splits)

lemma validateValue_array:
  "validateValue (Some (Value (ArrayValue et els))) d = None \<longleftrightarrow>
     (\<forall>d'. d = Some d' \<longrightarrow> td_type d' = VALUE_TYPE_ARRAY \<and> td_element d' = et) \<and>
     (\<exists>ed. et = Some ed \<and> wf_descriptor ed) \<and> (\<forall>e\<in>set els. validateValue e et = None)"
  by (auto simp: validateValue.simps(2) validateTypeDescriptor_None first_error_None_all
      split: option.splits)

lemma validateValue_has_type:
  "validateValue x (Some d) = None \<longleftrightarrow> (\<exists>v. x = Some v \<and> has_type d v)"
proof (induction x "Some d" arbitrary: d rule: validateValue.induct)
  case 1
  then show ?case by simp
next
  case (2 k)
  note hyps = "2.hyps"
  show ?case
  proof (cases rule: array_parts_cases [of k])
    case 1
    then show ?thesis by (simp add: validateValue_scalar has_type_non_array)
  next
    case (2 et els)
    have IH: "validateValue e (Some ed) = None \<longleftrightarrow> (\<exists>v. e = Some v \<and> has_type ed v)"
      if "e \<in> set els" "et = Some ed" for e ed
      using hyps that 2 by simp
    show ?thesis
      unfolding 2 validateValue_array using IH by (auto simp: has_type_ArrayValue)
  qed
qed

lemma validateValue_untyped:
  "validateValue x None = None \<longleftrightarrow> (\<exists>v d. x = Some v \<and> has_type d v)"
proof (cases x)
  case None
  then show ?thesis by simp
next
  case (Some v)
  obtain k where v: "v = Value k" by (cases v)
  show ?thesis
  proof (cases rule: array_parts_cases [of k])
    case 1
    have "\<exists>d. td_type d = t" for t by (rule exI [of _ "TypeDescriptor t None None None"]) simp
    with 1 show ?thesis
      unfolding Some v validateValue_scalar [OF 1] by (auto simp: has_type_non_array) metis
  next
    case (2 et els)
    have "validateValue (Some v) None = None \<longleftrightarrow> elements_ok et els"
      unfolding v 2 validateValue_array elements_ok_def by (auto simp: validateValue_has_type)
    also have "\<dots> \<longleftrightarrow> (\<exists>d. has_type d v)"
    proof
      assume "elements_ok et els"
      then have "has_type (TypeDescriptor VALUE_TYPE_ARRAY et None None) v"
        unfolding v 2 by (auto simp: has_type_ArrayValue elements_ok_def)
      then show "\<exists>d. has_type d v" ..
    qed (auto simp: v 2 has_type_ArrayValue elements_ok_def)
    finally show ?thesis using Some by simp
  qed
qed

lemma validateValueAgainstDescriptor_None [check_simps]:
  "validateValueAgainstDescriptor x (Some d) = None \<longleftrightarrow>
     wf_descriptor d \<and> (\<exists>v. x = Some v \<and> has_type d v)"
  "validateValueAgainstDescriptor x None = None \<longleftrightarrow> (\<exists>v d. x = Some v \<and> has_type d v)"
  by (auto simp: validateValueAgainstDescriptor_def validateTypeDescriptor_None
      validateValue_has_type validateValue_untyped)

section \<open>Batches\<close>

text \<open>
  The type a field declares: its descriptor when it has one, else its legacy type. An
  output field needs a well-formed type that agrees with the legacy one; an input field
  may leave its type to the provider.
\<close>

definition field_descriptor :: "field_msg \<Rightarrow> type_descriptor" where
  "field_descriptor f =
     (case f_type_descriptor f of Some d \<Rightarrow> d | None \<Rightarrow> TypeDescriptor (f_type f) None None None)"

definition typed_field :: "field_msg option \<Rightarrow> type_descriptor option \<Rightarrow> bool" where
  "typed_field f d \<longleftrightarrow>
     (\<exists>fl. f = Some fl \<and> d = Some (field_descriptor fl) \<and> wf_descriptor (field_descriptor fl) \<and>
           td_type (field_descriptor fl) = f_type fl)"

definition untyped_field :: "field_msg option \<Rightarrow> type_descriptor option \<Rightarrow> bool" where
  "untyped_field f d \<longleftrightarrow>
     (\<exists>fl. f = Some fl \<and> d = None \<and> f_type fl = VALUE_TYPE_UNKNOWN \<and> f_type_descriptor fl = None)"

lemma output_descriptor_Inr: "output_descriptor i f = Inr d \<longleftrightarrow> typed_field f d"
  by (auto simp: output_descriptor_def typed_field_def field_descriptor_def Let_def
      validateTypeDescriptor_def check_descriptor_None dimensions_ok_def
      split: option.splits)
    (metis check_descriptor_None not_None_eq wf_descriptor.simps type_descriptor.collapse)+

lemma input_descriptor_Inr:
  "input_descriptor i f = Inr d \<longleftrightarrow> typed_field f d \<or> untyped_field f d"
  by (auto simp: input_descriptor_def typed_field_def untyped_field_def field_descriptor_def Let_def
      validateTypeDescriptor_def check_descriptor_None dimensions_ok_def
      split: option.splits)
    (metis check_descriptor_None not_None_eq wf_descriptor.simps type_descriptor.collapse)+

lemma collect_descriptors_Inr:
  assumes "\<And>i f d. g i f = Inr d \<longleftrightarrow> P f d"
  shows "collect_descriptors g i fs = Inr ds \<longleftrightarrow> list_all2 P fs ds"
  by (induction fs arbitrary: i ds) (auto simp: bind_sum_Inr assms list_all2_Cons1)

lemma collect_output:
  "collect_descriptors output_descriptor i fs = Inr ds \<longleftrightarrow> list_all2 typed_field fs ds"
  by (rule collect_descriptors_Inr) (rule output_descriptor_Inr)

lemma collect_input:
  "collect_descriptors input_descriptor i fs = Inr ds \<longleftrightarrow>
     list_all2 (\<lambda>f d. typed_field f d \<or> untyped_field f d) fs ds"
  by (rule collect_descriptors_Inr) (rule input_descriptor_Inr)

definition tuple_typed :: "type_descriptor option list \<Rightarrow> tuple_msg \<Rightarrow> bool" where
  "tuple_typed ds vs \<longleftrightarrow>
     list_all2
       (\<lambda>d v. \<exists>w. v = Some w \<and> (case d of None \<Rightarrow> \<exists>t. has_type t w | Some t \<Rightarrow> wf_descriptor t \<and> has_type t w))
       ds vs"

lemma validateBatchTuples_None:
  "validateBatchTuples b ds = None \<longleftrightarrow> (\<forall>t\<in>set (b_tuples b). \<exists>vs. t = Some vs \<and> tuple_typed ds vs)"
proof -
  have val: "validateValueAgainstDescriptor v d = None \<longleftrightarrow>
      (\<exists>w. v = Some w \<and> (case d of None \<Rightarrow> \<exists>t. has_type t w | Some t \<Rightarrow> wf_descriptor t \<and> has_type t w))"
    for v d by (cases d) (auto simp: validateValueAgainstDescriptor_None)
  show ?thesis
    unfolding validateBatchTuples_def
    by (rule first_error_None_all)
      (auto simp: first_error_None val tuple_typed_def list_all2_conv_all_nth split: option.splits)
qed

definition output_batch_typed :: "tuple_batch \<Rightarrow> bool" where
  "output_batch_typed b \<longleftrightarrow>
     (\<exists>ds. list_all2 typed_field (b_fields b) ds \<and>
           (\<forall>t\<in>set (b_tuples b). \<exists>vs. t = Some vs \<and> tuple_typed ds vs))"

definition input_batch_typed :: "tuple_batch \<Rightarrow> bool" where
  "input_batch_typed b \<longleftrightarrow>
     (\<exists>ds. list_all2 (\<lambda>f d. typed_field f d \<or> untyped_field f d) (b_fields b) ds \<and>
           (\<forall>t\<in>set (b_tuples b). \<exists>vs. t = Some vs \<and> tuple_typed ds vs))"

lemma validateOutputBatchStructure_None [check_simps]:
  "validateOutputBatchStructure x = None \<longleftrightarrow> (\<forall>b. x = Some b \<longrightarrow> output_batch_typed b)"
proof (cases x)
  case (Some b)
  show ?thesis
  proof (cases "collect_descriptors output_descriptor 0 (b_fields b)")
    case (Inl e)
    then have "\<not> list_all2 typed_field (b_fields b) ds" for ds
      using collect_output [of 0 "b_fields b" ds] by simp
    with Inl Some show ?thesis by (simp add: validateOutputBatchStructure_def output_batch_typed_def)
  next
    case (Inr ds)
    then have "list_all2 typed_field (b_fields b) ds' \<longleftrightarrow> ds' = ds" for ds'
      using collect_output [of 0 "b_fields b" ds'] by auto
    with Inr Some show ?thesis
      by (simp add: validateOutputBatchStructure_def output_batch_typed_def validateBatchTuples_None)
  qed
qed (simp add: validateOutputBatchStructure_def)

lemma validateInputBatchStructure_None [check_simps]:
  "validateInputBatchStructure x = None \<longleftrightarrow> (\<forall>b. x = Some b \<longrightarrow> input_batch_typed b)"
proof (cases x)
  case (Some b)
  let ?P = "\<lambda>f d. typed_field f d \<or> untyped_field f d"
  show ?thesis
  proof (cases "collect_descriptors input_descriptor 0 (b_fields b)")
    case (Inl e)
    then have "\<not> list_all2 ?P (b_fields b) ds" for ds
      using collect_input [of 0 "b_fields b" ds] by simp
    with Inl Some show ?thesis by (simp add: validateInputBatchStructure_def input_batch_typed_def)
  next
    case (Inr ds)
    then have "list_all2 ?P (b_fields b) ds' \<longleftrightarrow> ds' = ds" for ds'
      using collect_input [of 0 "b_fields b" ds'] by auto
    with Inr Some show ?thesis
      by (simp add: validateInputBatchStructure_def input_batch_typed_def validateBatchTuples_None)
  qed
qed (simp add: validateInputBatchStructure_def)

section \<open>Expressions\<close>

text \<open>
  The direct operands of an expression, all expressions inside it, and what the validator
  asks of a single one: a literal has its declared type, an aggregate names a function and
  takes its number of arguments.
\<close>

definition operands :: "expression \<Rightarrow> expression option list" where
  "operands e =
     (case e of
        ExprComparison _ l r \<Rightarrow> [l, r]
      | ExprLogical _ es \<Rightarrow> es
      | ExprNullPredicate _ x \<Rightarrow> [x]
      | ExprFunctionCall _ es \<Rightarrow> es
      | ExprPattern _ v p _ \<Rightarrow> [v, p]
      | ExprAggregate _ es _ _ \<Rightarrow> es
      | _ \<Rightarrow> [])"

definition expression_ok :: "expression \<Rightarrow> bool" where
  "expression_ok e \<longleftrightarrow>
     (case e of
        ExprLiteralNil \<Rightarrow> False
      | ExprLiteral v d \<Rightarrow> validateValueAgainstDescriptor v d = None
      | ExprAggregateNil \<Rightarrow> False
      | ExprAggregate f es dist rt \<Rightarrow>
          f \<noteq> AGGREGATE_FUNCTION_UNSPECIFIED \<and> AggregateFunction_known f \<and>
          (if f = AGGREGATE_FUNCTION_COUNT_STAR then es = [] \<and> \<not> dist else length es = 1) \<and>
          (\<exists>d. rt = Some d \<and> wf_descriptor d)
      | _ \<Rightarrow> True)"

lemma size_operand: "Some c \<in> set (operands e) \<Longrightarrow> size c < size e"
  by (cases e)
    (auto simp: operands_def dest!: size_list_estimation' [where f = "size_option size", OF _ order_refl])

inductive occurs :: "expression \<Rightarrow> expression \<Rightarrow> bool" where
  self: "occurs e e"
| inside: "Some c \<in> set (operands e) \<Longrightarrow> occurs s c \<Longrightarrow> occurs s e"

lemma check_expression_step:
  "check_expression e = None \<longleftrightarrow>
     expression_ok e \<and> (\<forall>c. Some c \<in> set (operands e) \<longrightarrow> check_expression c = None)"
  by (cases e)
    (auto simp: operands_def expression_ok_def check_aggregate_shape_def validateTypeDescriptor_None
      first_error_skip_nil split: option.splits)

lemma check_expression_None: "check_expression e = None \<longleftrightarrow> (\<forall>s. occurs s e \<longrightarrow> expression_ok s)"
proof (induction "size e" arbitrary: e rule: less_induct)
  case less
  have "check_expression e = None \<longleftrightarrow>
      expression_ok e \<and> (\<forall>c. Some c \<in> set (operands e) \<longrightarrow> (\<forall>s. occurs s c \<longrightarrow> expression_ok s))"
    unfolding check_expression_step [of e] using less size_operand [of _ e] by auto
  also have "\<dots> \<longleftrightarrow> (\<forall>s. occurs s e \<longrightarrow> expression_ok s)"
    by (subst (2) occurs.simps) (auto intro: occurs.self)
  finally show ?case .
qed

interpretation expression_check: decides check_expression "\<lambda>e. \<forall>s. occurs s e \<longrightarrow> expression_ok s"
  by unfold_locales (rule check_expression_None)

text \<open>The expressions of a query request.\<close>

definition query_expressions :: "query_request \<Rightarrow> expression set" where
  "query_expressions q =
     {e. \<exists>p. Some p \<in> set (q_projections q) \<and> pr_expression p = Some e} \<union>
     {e. q_filter q = Some e} \<union>
     {e. \<exists>p. Some p \<in> set (q_order_by q) \<and> ob_expression p = Some e} \<union>
     {e. Some e \<in> set (q_group_by q)} \<union>
     {e. q_having q = Some e}"

interpretation optional_expression_check: decides validateExpressionValues
    "\<lambda>x. \<forall>e. x = Some e \<longrightarrow> (\<forall>s. occurs s e \<longrightarrow> expression_ok s)"
  by unfold_locales
    (simp add: validateExpressionValues_def expression_check.check_iff split: option.splits)

lemma projections_check:
  "first_error (\<lambda>i p. case p of None \<Rightarrow> None | Some x \<Rightarrow> map_option (w i) (validateExpressionValues (f x))) k xs = None
   \<longleftrightarrow> (\<forall>x e. Some x \<in> set xs \<longrightarrow> f x = Some e \<longrightarrow> (\<forall>s. occurs s e \<longrightarrow> expression_ok s))"
  using first_error_skip_nil [of w "\<lambda>x. validateExpressionValues (f x)" k xs]
  by (simp add: optional_expression_check.check_iff)

lemma validateQueryRequestValues_None [check_simps]:
  "validateQueryRequestValues q = None \<longleftrightarrow>
     (\<forall>e\<in>query_expressions q. \<forall>s. occurs s e \<longrightarrow> expression_ok s)"
  unfolding validateQueryRequestValues_def query_expressions_def
  by (auto simp: projections_check optional_expression_check.each optional_expression_check.check_iff)

definition well_formed_expression :: "expression \<Rightarrow> bool" where
  "well_formed_expression e \<longleftrightarrow> (\<forall>s. occurs s e \<longrightarrow> expression_ok s)"

definition well_formed_query :: "query_request \<Rightarrow> bool" where
  "well_formed_query q \<longleftrightarrow> (\<forall>e\<in>query_expressions q. well_formed_expression e)"

text \<open>
  Batches are type checked exactly. A value is accepted against a descriptor just when the descriptor is
  well formed and the value has that type, and without a descriptor just when it has some type. An output
  batch is accepted just when every field declares a well-formed type that agrees with its legacy type and
  every tuple is present and has, column by column, a present value of that type; an input batch may in
  addition leave the type of a column open. A missing batch is accepted.
\<close>

theorem batches_typed_exactly:
  "(validateValueAgainstDescriptor v (Some d) = None \<longleftrightarrow> wf_descriptor d \<and> (\<exists>w. v = Some w \<and> has_type d w)) \<and>
   (validateValueAgainstDescriptor v None = None \<longleftrightarrow> (\<exists>w d. v = Some w \<and> has_type d w)) \<and>
   (validateOutputBatchStructure x = None \<longleftrightarrow> (case x of None \<Rightarrow> True | Some b \<Rightarrow> output_batch_typed b)) \<and>
   (validateInputBatchStructure x = None \<longleftrightarrow> (case x of None \<Rightarrow> True | Some b \<Rightarrow> input_batch_typed b))"
  by (cases x) (simp_all add: check_simps)

text \<open>
  Query requests are checked exactly. A request is accepted just when every expression that occurs in its
  projections, filter, ordering, grouping and having clause, at any depth, is well formed: literals have
  their declared type and aggregates name a known function with the right number of arguments and a
  well-formed result type.
\<close>

theorem queries_checked_exactly: "validateQueryRequestValues q = None \<longleftrightarrow> well_formed_query q"
  by (simp add: validateQueryRequestValues_None well_formed_query_def well_formed_expression_def)

end
