(* ===== verification/ValueGraphs.thy ===== *)
theory ValueGraphs
  imports ValueTyping
begin

text \<open>
  The pointer-graph traversals of \<open>ValueStructure\<close> against the tree functions. A graph
  \<open>unfolds\<close> to a tree when following its pointers ends; a cyclic graph unfolds to none. The
  traversal with the path of visited pointers accepts a graph exactly when it unfolds to a
  tree the tree function accepts, and on graphs that unfold it returns the tree function's
  result, errors included.
\<close>

section \<open>Descriptors\<close>

inductive unfolds_desc :: "td_heap \<Rightarrow> nat \<Rightarrow> type_descriptor \<Rightarrow> bool" for H where
  "a < length H \<Longrightarrow> n_element (H ! a) = None \<Longrightarrow>
   unfolds_desc H a (TypeDescriptor (n_type (H ! a)) None (n_precision (H ! a)) (n_scale (H ! a)))"
| "a < length H \<Longrightarrow> n_element (H ! a) = Some b \<Longrightarrow> unfolds_desc H b d \<Longrightarrow>
   unfolds_desc H a (TypeDescriptor (n_type (H ! a)) (Some d) (n_precision (H ! a)) (n_scale (H ! a)))"

lemma unfolds_desc_iff:
  "unfolds_desc H a d \<longleftrightarrow>
     a < length H \<and> td_type d = n_type (H ! a) \<and> td_precision d = n_precision (H ! a) \<and>
     td_scale d = n_scale (H ! a) \<and>
     rel_option (unfolds_desc H) (n_element (H ! a)) (td_element d)"
  by (cases d; cases "n_element (H ! a)"; cases "td_element d"; subst unfolds_desc.simps) auto

lemma unfolds_desc_det: "unfolds_desc H a d \<Longrightarrow> unfolds_desc H a d' \<Longrightarrow> d = d'"
proof (induction arbitrary: d' rule: unfolds_desc.induct)
  case (1 a)
  then show ?case
    by (cases d') (simp add: unfolds_desc_iff [of H a])
next
  case (2 a b d)
  obtain t el p s where d': "d' = TypeDescriptor t el p s" by (cases d')
  from "2.prems" "2.hyps" obtain e where "el = Some e" "unfolds_desc H b e"
    by (auto simp: unfolds_desc_iff [of H a] d' option_rel_Some1)
  with "2.IH" "2.prems" show ?case by (simp add: unfolds_desc_iff [of H a] d')
qed

text \<open>
  Every descriptor on the path of a traversal unfolds to a strictly larger tree than the
  descriptor at hand, so the path test never fires on a graph that unfolds.
\<close>

definition above_desc :: "td_heap \<Rightarrow> nat set \<Rightarrow> type_descriptor \<Rightarrow> bool" where
  "above_desc H path d \<longleftrightarrow> (\<forall>b\<in>path. \<forall>d'. unfolds_desc H b d' \<longrightarrow> size d < size d')"

lemma above_desc_empty [simp]: "above_desc H {} d"
  by (simp add: above_desc_def)

lemma above_desc_notin: "above_desc H path d \<Longrightarrow> unfolds_desc H a d \<Longrightarrow> a \<notin> path"
  by (auto simp: above_desc_def)

lemma above_desc_insert:
  assumes "above_desc H path d" "unfolds_desc H a d" "size e < size d"
  shows "above_desc H (insert a path) e"
  unfolding above_desc_def
proof (intro ballI allI impI)
  fix b d' assume b: "b \<in> insert a path" and d': "unfolds_desc H b d'"
  show "size e < size d'"
  proof (cases "b = a")
    case True
    with d' assms(2) have "d' = d" by (auto dest: unfolds_desc_det)
    with assms(3) show ?thesis by simp
  next
    case False
    with b d' assms(1) have "size d < size d'" by (simp add: above_desc_def)
    with assms(3) show ?thesis by simp
  qed
qed

lemma path_agrees_desc:
  "unfolds_desc H a d \<Longrightarrow> above_desc H path d \<Longrightarrow>
   validateTypeDescriptorPath H (Some a) path = check_descriptor d"
proof (induction arbitrary: path rule: unfolds_desc.induct)
  case (1 a)
  have "a \<notin> path" using "1.prems" by (rule above_desc_notin) (rule unfolds_desc.intros(1) [OF 1(1,2)])
  with 1 show ?case by (simp add: validateTypeDescriptorPath.simps(2) Let_def)
next
  case (2 a b d)
  let ?d = "TypeDescriptor (n_type (H ! a)) (Some d) (n_precision (H ! a)) (n_scale (H ! a))"
  have a: "unfolds_desc H a ?d" by (rule unfolds_desc.intros(2) [OF "2.hyps"])
  have notin: "a \<notin> path" using "2.prems" a by (rule above_desc_notin)
  have "above_desc H (insert a path) d"
    using "2.prems" a by (rule above_desc_insert) simp
  then have "validateTypeDescriptorPath H (Some b) (insert a path) = check_descriptor d"
    by (rule "2.IH")
  with "2.hyps" notin show ?case by (simp add: validateTypeDescriptorPath.simps(2) Let_def)
qed

lemma accepted_unfolds_desc:
  "validateTypeDescriptorPath H x path = None \<Longrightarrow> \<exists>a d. x = Some a \<and> unfolds_desc H a d"
proof (induction H x path rule: validateTypeDescriptorPath.induct)
  case (1 H path)
  then show ?case by simp
next
  case (2 H a path)
  from "2.prems" have a: "a \<notin> path" "a < length H"
    by (auto simp: validateTypeDescriptorPath.simps(2) split: if_splits)
  show ?case
  proof (cases "n_element (H ! a)")
    case None
    with a show ?thesis by (blast intro: unfolds_desc.intros(1))
  next
    case (Some b)
    with "2.prems" a have t: "n_type (H ! a) = VALUE_TYPE_ARRAY"
      and rec: "validateTypeDescriptorPath H (n_element (H ! a)) (insert a path) = None"
      by (auto simp: validateTypeDescriptorPath.simps(2) Let_def split: if_splits)
    have "\<exists>c d. n_element (H ! a) = Some c \<and> unfolds_desc H c d"
      using "2.IH" [OF a(1) _ refl refl t _ rec] a Some by auto
    with Some obtain d where "unfolds_desc H b d" by auto
    with a Some show ?thesis by (blast intro: unfolds_desc.intros(2))
  qed
qed

lemma validateTypeDescriptorPath_iff:
  "validateTypeDescriptorPath H x {} = None \<longleftrightarrow>
     (\<exists>a d. x = Some a \<and> unfolds_desc H a d \<and> wf_descriptor d)"
proof
  assume acc: "validateTypeDescriptorPath H x {} = None"
  then obtain a d where x: "x = Some a" and u: "unfolds_desc H a d"
    using accepted_unfolds_desc by blast
  with acc show "\<exists>a d. x = Some a \<and> unfolds_desc H a d \<and> wf_descriptor d"
    by (auto simp: path_agrees_desc check_descriptor_None)
next
  assume "\<exists>a d. x = Some a \<and> unfolds_desc H a d \<and> wf_descriptor d"
  then show "validateTypeDescriptorPath H x {} = None"
    by (auto simp: path_agrees_desc check_descriptor_None)
qed

lemma unfold_desc_agrees:
  "unfolds_desc H a d \<Longrightarrow> above_desc H path d \<Longrightarrow> unfold_desc H a path = Some d"
proof (induction arbitrary: path rule: unfolds_desc.induct)
  case (1 a)
  have "a \<notin> path" using "1.prems" by (rule above_desc_notin) (rule unfolds_desc.intros(1) [OF 1(1,2)])
  with 1 show ?case by (simp add: unfold_desc.simps Let_def)
next
  case (2 a b d)
  let ?d = "TypeDescriptor (n_type (H ! a)) (Some d) (n_precision (H ! a)) (n_scale (H ! a))"
  have a: "unfolds_desc H a ?d" by (rule unfolds_desc.intros(2) [OF "2.hyps"])
  have notin: "a \<notin> path" using "2.prems" a by (rule above_desc_notin)
  have "above_desc H (insert a path) d"
    using "2.prems" a by (rule above_desc_insert) simp
  then have "unfold_desc H b (insert a path) = Some d" by (rule "2.IH")
  with "2.hyps" notin show ?case by (simp add: unfold_desc.simps [of H a path] Let_def)
qed

lemma desc_equal_unfolds:
  assumes "rel_option (unfolds_desc H) x dx" and "rel_option (unfolds_desc H) y dy"
  shows "desc_equal H x y \<longleftrightarrow> dx = dy"
  using assms by (auto simp: desc_equal_def unfold_desc_agrees elim!: option.rel_cases)

section \<open>Values\<close>

lemma rel_kind_mono [mono]:
  assumes "\<And>x y. R x y \<longrightarrow> R' x y"
  shows "rel_kind P (rel_option R) k l \<longrightarrow> rel_kind P (rel_option R') k l"
  using assms by (auto elim!: kind.rel_mono_strong option.rel_mono_strong)

inductive unfolds_value :: "td_heap \<Rightarrow> value_heap \<Rightarrow> nat \<Rightarrow> value \<Rightarrow> bool" for H V where
  "a < length V \<Longrightarrow>
   rel_kind (rel_option (unfolds_desc H)) (rel_option (unfolds_value H V)) (V ! a) k \<Longrightarrow>
   unfolds_value H V a (Value k)"

inductive_simps unfolds_value_Value: "unfolds_value H V a (Value k)"

lemma rel_kind_facts:
  assumes "rel_kind P Q k l"
  shows "is_null k \<longleftrightarrow> is_null l" "actual_type k = actual_type l"
    "rel_option (rel_prod P (list_all2 Q)) (array_parts k) (array_parts l)"
  using assms by (cases rule: kind.rel_cases; simp add: is_null_def actual_type_def array_parts_def)+

lemma rel_kind_scalar:
  "rel_kind P Q k l \<Longrightarrow> array_parts k = None \<Longrightarrow> l = map_kind f g k"
  by (erule kind.rel_cases) (simp_all add: array_parts_def)

lemma rel_kind_scalar_refl: "array_parts k = None \<Longrightarrow> rel_kind P Q k (map_kind f g k)"
  by (cases k) (simp_all add: array_parts_def)

lemma unfolds_value_det: "unfolds_value H V a v \<Longrightarrow> unfolds_value H V a v' \<Longrightarrow> v = v'"
proof (induction arbitrary: v' rule: unfolds_value.induct)
  case (1 a k)
  let ?D = "rel_option (unfolds_desc H)" and ?U = "rel_option (unfolds_value H V)"
  let ?Q = "rel_option (\<lambda>x y. unfolds_value H V x y \<and> (\<forall>z. unfolds_value H V x z \<longrightarrow> y = z))"
  obtain l where v': "v' = Value l" by (cases v')
  with "1.prems" have l: "rel_kind ?D ?U (V ! a) l" by (simp add: unfolds_value_Value)
  have "(rel_kind ?D ?Q)\<inverse>\<inverse> k (V ! a)" using "1.IH" by simp
  then have "rel_kind (?D\<inverse>\<inverse> OO ?D) (?Q\<inverse>\<inverse> OO ?U) k l"
    using l unfolding kind.rel_compp kind.rel_conversep by blast
  then have "rel_kind (=) (=) k l"
    by (rule kind.rel_mono_strong)
      (auto elim!: option.rel_cases simp: relcompp.simps dest: unfolds_desc_det)
  then show ?case by (simp add: v' kind.rel_eq)
qed

definition above_value :: "td_heap \<Rightarrow> value_heap \<Rightarrow> nat set \<Rightarrow> value \<Rightarrow> bool" where
  "above_value H V path v \<longleftrightarrow> (\<forall>b\<in>path. \<forall>w. unfolds_value H V b w \<longrightarrow> size v < size w)"

lemma above_value_empty [simp]: "above_value H V {} v"
  by (simp add: above_value_def)

lemma above_value_notin: "above_value H V path v \<Longrightarrow> unfolds_value H V a v \<Longrightarrow> a \<notin> path"
  by (auto simp: above_value_def)

lemma above_value_insert:
  assumes "above_value H V path v" "unfolds_value H V a v" "size w < size v"
  shows "above_value H V (insert a path) w"
  unfolding above_value_def
proof (intro ballI allI impI)
  fix b u assume b: "b \<in> insert a path" and u: "unfolds_value H V b u"
  show "size w < size u"
  proof (cases "b = a")
    case True
    with u assms(2) have "u = v" by (auto dest: unfolds_value_det)
    with assms(3) show ?thesis by simp
  next
    case False
    with b u assms(1) have "size v < size u" by (simp add: above_value_def)
    with assms(3) show ?thesis by simp
  qed
qed

lemma descriptor_test_agrees:
  assumes "rel_option (unfolds_desc H) d dt"
  shows "(case d of None \<Rightarrow> None | Some x \<Rightarrow>
            fail_if (n_type (node_at H x) \<noteq> t) (ValueErr (ValueTypeMismatch t (n_type (node_at H x))))) =
         (case dt of None \<Rightarrow> None | Some d' \<Rightarrow>
            fail_if (td_type d' \<noteq> t) (ValueErr (ValueTypeMismatch t (td_type d'))))"
  using assms by (cases rule: option.rel_cases) (auto simp: node_at_def unfolds_desc_iff)

lemma element_test_agrees:
  assumes "rel_option (unfolds_desc H) d dt" and "rel_option (unfolds_desc H) et ett"
  shows "(case d of None \<Rightarrow> None | Some x \<Rightarrow>
            fail_if (\<not> desc_equal H (n_element (node_at H x)) et) (ValueErr ArrayElementTypeMismatch)) =
         (case dt of None \<Rightarrow> None | Some d' \<Rightarrow>
            fail_if (td_element d' \<noteq> ett) (ValueErr ArrayElementTypeMismatch))"
  using assms(1)
proof (cases rule: option.rel_cases)
  case (Some x y)
  then have "rel_option (unfolds_desc H) (n_element (node_at H x)) (td_element y)"
    by (simp add: node_at_def unfolds_desc_iff [of H x])
  with Some show ?thesis by (simp add: desc_equal_unfolds [OF _ assms(2)])
qed simp

lemma descriptor_path_agrees:
  "rel_option (unfolds_desc H) x dx \<Longrightarrow> validateTypeDescriptorPath H x {} = validateTypeDescriptor dx"
  by (erule option.rel_cases) (simp_all add: validateTypeDescriptor_def path_agrees_desc)

lemma path_agrees_value:
  "unfolds_value H V a v \<Longrightarrow> above_value H V path v \<Longrightarrow> rel_option (unfolds_desc H) d dt \<Longrightarrow>
   validateValuePath H V (Some a) d path = validateValue (Some v) dt"
proof (induction arbitrary: path d dt rule: unfolds_value.induct)
  case (1 a k)
  let ?D = "rel_option (unfolds_desc H)" and ?U = "rel_option (unfolds_value H V)"
  have u: "unfolds_value H V a (Value k)"
    using "1.hyps" "1.IH" by (intro unfolds_value.intros) (auto elim!: kind.rel_mono_strong option.rel_mono_strong)
  have a: "a \<notin> path" by (rule above_value_notin [OF "1.prems"(1) u])
  have rel: "rel_kind ?D ?U (V ! a) k" using u by (simp add: unfolds_value_Value)
  show ?case
  proof (cases rule: array_parts_cases [of k])
    case 1
    then have "array_parts (V ! a) = None" using rel_kind_facts(3) [OF rel] by simp
    with 1 "1.hyps" a show ?thesis
      using rel_kind_facts(1,2) [OF rel] descriptor_test_agrees [OF "1.prems"(2)]
      by (simp add: validateValuePath.simps(2) validateValue.simps(2) Let_def split: sum.splits)
  next
    case (2 ett vs)
    with "1.IH" obtain et els where k: "V ! a = ArrayValue et els" and et: "?D et ett"
      and els: "list_all2 (rel_option (\<lambda>x y. unfolds_value H V x y \<and>
        (\<forall>path d dt. above_value H V path y \<longrightarrow> ?D d dt \<longrightarrow>
           validateValuePath H V (Some x) d path = validateValue (Some y) dt))) els vs"
      by (cases "V ! a") auto
    have "list_all2 (\<lambda>e w. validateValuePath H V e et (insert a path) = validateValue w ett) els vs"
      using els
    proof (rule list.rel_mono_strong)
      fix e w assume w: "w \<in> set vs" and ew: "rel_option (\<lambda>x y. unfolds_value H V x y \<and>
        (\<forall>path d dt. above_value H V path y \<longrightarrow> ?D d dt \<longrightarrow>
           validateValuePath H V (Some x) d path = validateValue (Some y) dt)) e w"
      from ew show "validateValuePath H V e et (insert a path) = validateValue w ett"
      proof (cases rule: option.rel_cases)
        case (Some x y)
        have "size y < size (Value k)"
          using size_array_element [of k ett vs w] w 2 Some(2) by simp
        then have "above_value H V (insert a path) y"
          by (rule above_value_insert [OF "1.prems"(1) u])
        with Some et show ?thesis by simp
      qed simp
    qed
    then have "first_error (\<lambda>i e. map_option (AtValue (InArrayElement i))
            (validateValuePath H V e et (insert a path))) 0 els =
          first_error (\<lambda>i e. map_option (AtValue (InArrayElement i)) (validateValue e ett)) 0 vs"
      by (rule first_error_list_all2) simp
    then show ?thesis
      using "1.hyps" a 2 k
      by (simp add: validateValuePath.simps(2) validateValue.simps(2) Let_def
          descriptor_test_agrees [OF "1.prems"(2)] element_test_agrees [OF "1.prems"(2) et]
          descriptor_path_agrees [OF et])
  qed
qed

lemma accepted_unfolds_value:
  "validateValuePath H V x d path = None \<Longrightarrow> \<exists>a v. x = Some a \<and> unfolds_value H V a v"
proof (induction H V x d path rule: validateValuePath.induct)
  case (1 H V d path)
  then show ?case by simp
next
  case (2 H V a d path)
  note hyps = "2.IH" and acc = "2.prems"
  from acc have a: "a \<notin> path" "a < length V"
    by (auto simp: validateValuePath.simps(2) split: if_splits)
  show ?case
  proof (cases rule: array_parts_cases [of "V ! a"])
    case 1
    have "unfolds_value H V a (Value (map_kind (\<lambda>_. None) (\<lambda>_. None) (V ! a)))"
      using a(2) rel_kind_scalar_refl [OF 1] by (rule unfolds_value.intros)
    then show ?thesis by blast
  next
    case (2 et els)
    have et: "validateTypeDescriptorPath H et {} = None"
      and els: "\<And>e. e \<in> set els \<Longrightarrow> validateValuePath H V e et (insert a path) = None"
      using acc a 2
      by (auto simp: validateValuePath.simps(2) Let_def first_error_None_all
          split: if_splits option.splits)
    from accepted_unfolds_desc [OF et] obtain ed where ed: "rel_option (unfolds_desc H) et ed"
      by (metis option.rel_inject(2))
    have "\<exists>v. rel_option (unfolds_value H V) e v" if "e \<in> set els" for e
    proof -
      have "\<exists>x v. e = Some x \<and> unfolds_value H V x v"
        using hyps [of "V ! a" VALUE_TYPE_ARRAY "(et, els)" et els e] a 2 that els [OF that] by simp
      then show ?thesis by (metis option.rel_inject(2))
    qed
    then obtain vs where "list_all2 (rel_option (unfolds_value H V)) els vs"
      using ex_list_all2 [of els "rel_option (unfolds_value H V)"] by blast
    with ed have "unfolds_value H V a (Value (ArrayValue ed vs))"
      using a(2) 2 by (intro unfolds_value.intros) simp_all
    then show ?thesis by blast
  qed
qed

text \<open>
  The two sides of the descriptor argument: absent, or present, unfolding and well formed.
\<close>

definition typed_as :: "td_heap \<Rightarrow> nat option \<Rightarrow> value \<Rightarrow> bool" where
  "typed_as H d v \<longleftrightarrow>
     (case d of
        None \<Rightarrow> \<exists>t. has_type t v
      | Some b \<Rightarrow> \<exists>t. unfolds_desc H b t \<and> wf_descriptor t \<and> has_type t v)"

lemma validateGraph_iff:
  "validateGraphAgainstDescriptor H V x d = None \<longleftrightarrow>
     (\<exists>a v. x = Some a \<and> unfolds_value H V a v \<and> typed_as H d v)"
proof (cases d)
  case None
  show ?thesis
  proof
    assume acc: "validateGraphAgainstDescriptor H V x d = None"
    then have "validateValuePath H V x None {} = None"
      by (simp add: validateGraphAgainstDescriptor_def None)
    with accepted_unfolds_value [OF this] show "\<exists>a v. x = Some a \<and> unfolds_value H V a v \<and> typed_as H d v"
      by (auto simp: path_agrees_value [where dt = None] validateValue_untyped typed_as_def None) blast
  next
    assume "\<exists>a v. x = Some a \<and> unfolds_value H V a v \<and> typed_as H d v"
    then show "validateGraphAgainstDescriptor H V x d = None"
      by (auto simp: validateGraphAgainstDescriptor_def None typed_as_def validateValue_untyped
          path_agrees_value [where dt = None])
  qed
next
  case (Some b)
  show ?thesis
  proof
    assume acc: "validateGraphAgainstDescriptor H V x d = None"
    then have dOK: "validateTypeDescriptorPath H (Some b) {} = None"
      and vOK: "validateValuePath H V x (Some b) {} = None"
      by (simp_all add: validateGraphAgainstDescriptor_def Some)
    from dOK obtain t where t: "unfolds_desc H b t" "wf_descriptor t"
      by (auto simp: validateTypeDescriptorPath_iff)
    from accepted_unfolds_value [OF vOK] obtain a v where v: "x = Some a" "unfolds_value H V a v"
      by blast
    with vOK t have "has_type t v"
      by (simp add: path_agrees_value [where dt = "Some t"] validateValue_has_type)
    with t v show "\<exists>a v. x = Some a \<and> unfolds_value H V a v \<and> typed_as H d v"
      by (auto simp: typed_as_def Some)
  next
    assume "\<exists>a v. x = Some a \<and> unfolds_value H V a v \<and> typed_as H d v"
    then obtain a v t where "x = Some a" "unfolds_value H V a v"
      "unfolds_desc H b t" "wf_descriptor t" "has_type t v"
      by (auto simp: typed_as_def Some)
    then show "validateGraphAgainstDescriptor H V x d = None"
      by (simp add: validateGraphAgainstDescriptor_def Some path_agrees_desc check_descriptor_None
          path_agrees_value [where dt = "Some t"] validateValue_has_type)
  qed
qed

section \<open>Properties\<close>

text \<open>
  C9: Cycles in values built in memory are found and nothing else is lost. The traversals end on every
  pointer graph. A graph of descriptors is accepted just when following its pointers ends in a tree that is
  a well-formed descriptor, and a graph of values just when it unfolds to a value of the described type:
  a cycle is always rejected, and sharing of a subgraph never is.
\<close>

theorem graphs_checked_exactly:
  "(validateTypeDescriptorPath H x {} = None \<longleftrightarrow> (\<exists>a d. x = Some a \<and> unfolds_desc H a d \<and> wf_descriptor d)) \<and>
   (validateGraphAgainstDescriptor H V y e = None \<longleftrightarrow> (\<exists>a v. y = Some a \<and> unfolds_value H V a v \<and> typed_as H e v))"
  by (simp add: validateTypeDescriptorPath_iff validateGraph_iff)

text \<open>
  On a graph that unfolds, the traversal with the path of visited pointers is the plain recursion over
  the tree: it returns the same result, and where it fails the same error at the same place.
\<close>

theorem traversal_is_tree_recursion:
  assumes "unfolds_value H V a v" and "rel_option (unfolds_desc H) d t"
  shows "validateValuePath H V (Some a) d {} = validateValue (Some v) t"
  using assms by (intro path_agrees_value) simp_all

theorem traversal_is_tree_recursion_witness:
  "validateValuePath [] [ArrayValue None [Some 1, Some 1], LongValue 7] (Some 0) None {} =
     validateValue (Some (Value (ArrayValue None [Some (Value (LongValue 7)), Some (Value (LongValue 7))]))) None"
proof (rule traversal_is_tree_recursion)
  let ?V = "[ArrayValue None [Some 1, Some 1], LongValue 7] :: value_heap"
  have "unfolds_value [] ?V 1 (Value (LongValue 7))" by (rule unfolds_value.intros) simp_all
  then show "unfolds_value [] ?V 0 (Value (ArrayValue None [Some (Value (LongValue 7)), Some (Value (LongValue 7))]))"
    by (intro unfolds_value.intros) simp_all
qed simp

end
