(* ===== verification/MemoryStore.thy ===== *)
theory MemoryStore
  imports Messages "HOL-Library.Multiset"
begin

text \<open>
  \<open>sdk-go/provider/cache/memory.go\<close>: the bounded in-process store of query results with
  least-recently-used eviction and expiry. The recency list holds list elements; the map
  holds, per key, the element of its entry. An element is its identity and its entry, so that
  \<open>remove\<close> and \<open>MoveToFront\<close> work on elements as \<open>container/list\<close> does. Times and sizes are
  mathematical integers; \<open>now\<close> is what the clock says at the call.

  The specification is a list of entries, most recently used first: \<open>lru_get\<close> and \<open>lru_set\<close>.
  The store refines it, stays within its limits, and its eviction loop ends.
\<close>

section \<open>Keys, results and the store\<close>

record query_key =
  qk_entity :: string
  qk_digest :: bytes
  qk_global :: "64 word"
  qk_generation :: "64 word"

record cached_result =
  cr_batches :: "tuple_batch list"
  cr_outcome :: "query_outcome option"
  cr_size :: int

record memory_entry =
  me_key :: query_key
  me_result :: cached_result
  me_expires_at :: int

type_synonym element = "nat \<times> memory_entry"

record memory_store =
  ms_entries :: "(query_key \<times> nat) list"
  ms_recency :: "element list"
  ms_next :: nat
  ms_bytes :: int
  ms_max_entries :: int
  ms_max_bytes :: int
  ms_ttl :: int

definition newMemoryStore :: "int \<Rightarrow> int \<Rightarrow> int \<Rightarrow> memory_store" where
  "newMemoryStore maxEntries maxBytes ttl =
     \<lparr>ms_entries = [], ms_recency = [], ms_next = 0, ms_bytes = 0,
      ms_max_entries = maxEntries, ms_max_bytes = maxBytes, ms_ttl = ttl\<rparr>"

section \<open>Operations\<close>

definition element_entry :: "memory_store \<Rightarrow> nat \<Rightarrow> memory_entry option" where
  "element_entry s a = map_of (ms_recency s) a"

definition remove :: "element option \<Rightarrow> memory_store \<Rightarrow> memory_store" where
  "remove element s =
     (case element of
        None \<Rightarrow> s
      | Some (a, e) \<Rightarrow>
          s\<lparr>ms_entries := filter (\<lambda>(k, _). k \<noteq> me_key e) (ms_entries s),
            ms_recency := filter (\<lambda>(b, _). b \<noteq> a) (ms_recency s),
            ms_bytes := ms_bytes s - cr_size (me_result e)\<rparr>)"

text \<open>The lookup of \<open>s.entries[key]\<close> and the entry its element holds.\<close>

definition find_element :: "memory_store \<Rightarrow> query_key \<Rightarrow> element option" where
  "find_element s k =
     (case map_of (ms_entries s) k of
        None \<Rightarrow> None
      | Some a \<Rightarrow> map_option (Pair a) (element_entry s a))"

definition move_to_front :: "element \<Rightarrow> memory_store \<Rightarrow> memory_store" where
  "move_to_front x s = s\<lparr>ms_recency := x # filter (\<lambda>(b, _). b \<noteq> fst x) (ms_recency s)\<rparr>"

definition get :: "memory_store \<Rightarrow> query_key \<Rightarrow> int \<Rightarrow> cached_result option \<times> memory_store" where
  "get s k now =
     (case find_element s k of
        None \<Rightarrow> (None, s)
      | Some (a, e) \<Rightarrow>
          if \<not> now < me_expires_at e then (None, remove (Some (a, e)) s)
          else (Some (me_result e), move_to_front (a, e) s))"

definition recency_back :: "memory_store \<Rightarrow> element option" where
  "recency_back s = (if ms_recency s = [] then None else Some (last (ms_recency s)))"

partial_function (option) evict :: "memory_store \<Rightarrow> memory_store option" where
  "evict s =
     (if int (length (ms_entries s)) > ms_max_entries s \<or> ms_bytes s > ms_max_bytes s
      then evict (remove (recency_back s) s) else Some s)"

declare evict.simps [code]

definition push :: "memory_entry \<Rightarrow> memory_store \<Rightarrow> memory_store" where
  "push e s =
     s\<lparr>ms_entries := (me_key e, ms_next s) # filter (\<lambda>(k, _). k \<noteq> me_key e) (ms_entries s),
       ms_recency := (ms_next s, e) # ms_recency s,
       ms_next := Suc (ms_next s),
       ms_bytes := ms_bytes s + cr_size (me_result e)\<rparr>"

definition set_result :: "memory_store \<Rightarrow> query_key \<Rightarrow> cached_result \<Rightarrow> int \<Rightarrow> memory_store option" where
  "set_result s k r now =
     (if cr_size r > ms_max_bytes s then Some s
      else
        evict (push \<lparr>me_key = k, me_result = r, me_expires_at = now + ms_ttl s\<rparr>
                 (remove (find_element s k) s)))"

section \<open>Specification\<close>

definition total_size :: "memory_entry list \<Rightarrow> int" where
  "total_size es = sum_list (map (cr_size \<circ> me_result) es)"

definition fits :: "int \<Rightarrow> int \<Rightarrow> memory_entry list \<Rightarrow> bool" where
  "fits n b es \<longleftrightarrow> int (length es) \<le> n \<and> total_size es \<le> b"

definition without :: "query_key \<Rightarrow> memory_entry list \<Rightarrow> memory_entry list" where
  "without k es = filter (\<lambda>e. me_key e \<noteq> k) es"

definition lru_get ::
  "memory_entry list \<Rightarrow> query_key \<Rightarrow> int \<Rightarrow> cached_result option \<times> memory_entry list" where
  "lru_get es k now =
     (case find (\<lambda>e. me_key e = k) es of
        None \<Rightarrow> (None, es)
      | Some e \<Rightarrow> if now < me_expires_at e then (Some (me_result e), e # without k es) else (None, without k es))"

text \<open>The longest prefix, most recently used first, that fits the limits.\<close>

function trim :: "int \<Rightarrow> int \<Rightarrow> memory_entry list \<Rightarrow> memory_entry list" where
  "trim n b es = (if fits n b es \<or> es = [] then es else trim n b (butlast es))"
  by pat_completeness auto
termination
  by (relation "measure (\<lambda>(n, b, es). length es)") auto

declare trim.simps [simp del]

definition lru_set ::
  "int \<Rightarrow> int \<Rightarrow> int \<Rightarrow> memory_entry list \<Rightarrow> query_key \<Rightarrow> cached_result \<Rightarrow> int \<Rightarrow> memory_entry list" where
  "lru_set n b ttl es k r now =
     (if cr_size r > b then es
      else trim n b (\<lparr>me_key = k, me_result = r, me_expires_at = now + ttl\<rparr> # without k es))"

section \<open>Well-formed stores\<close>

definition lru :: "memory_store \<Rightarrow> memory_entry list" where
  "lru s = map snd (ms_recency s)"

text \<open>\<open>linked\<close>: map and list name the same entries; the byte count is their size.\<close>

definition link :: "element \<Rightarrow> query_key \<times> nat" where
  "link x = (me_key (snd x), fst x)"

definition linked :: "memory_store \<Rightarrow> bool" where
  "linked s \<longleftrightarrow>
     mset (ms_entries s) = mset (map link (ms_recency s)) \<and>
     distinct (map fst (ms_recency s)) \<and> distinct (map me_key (lru s)) \<and>
     (\<forall>a\<in>fst ` set (ms_recency s). a < ms_next s) \<and>
     ms_bytes s = total_size (lru s) \<and> (\<forall>e\<in>set (lru s). 0 \<le> cr_size (me_result e)) \<and>
     0 \<le> ms_max_entries s \<and> 0 \<le> ms_max_bytes s"

definition store_ok :: "memory_store \<Rightarrow> bool" where
  "store_ok s \<longleftrightarrow> linked s \<and> fits (ms_max_entries s) (ms_max_bytes s) (lru s)"

lemma newMemoryStore_ok: "0 \<le> n \<Longrightarrow> 0 \<le> b \<Longrightarrow> store_ok (newMemoryStore n b ttl)"
  by (simp add: store_ok_def linked_def newMemoryStore_def lru_def fits_def total_size_def)

lemma linked_length:
  assumes "linked s"
  shows "length (ms_entries s) = length (lru s)"
proof -
  have "size (mset (ms_entries s)) = size (mset (map link (ms_recency s)))"
    using assms by (simp add: linked_def)
  then show ?thesis by (simp only: size_mset length_map lru_def)
qed

lemma linked_entries:
  assumes "linked s"
  shows "set (ms_entries s) = link ` set (ms_recency s)" and "distinct (map fst (ms_entries s))"
proof -
  have m: "mset (ms_entries s) = mset (map link (ms_recency s))" using assms by (simp add: linked_def)
  then show "set (ms_entries s) = link ` set (ms_recency s)" by (metis set_map set_mset_mset)
  have "mset (map fst (ms_entries s)) = mset (map me_key (lru s))"
    using arg_cong [OF m, of "image_mset fst"] by (simp add: lru_def link_def comp_def multiset.map_comp)
  then show "distinct (map fst (ms_entries s))"
    using assms by (metis linked_def mset_eq_imp_distinct_iff)
qed

lemma linked_keys_inject:
  assumes "linked s" and "x \<in> set (ms_recency s)" and "y \<in> set (ms_recency s)"
  shows "me_key (snd x) = me_key (snd y) \<longleftrightarrow> x = y" and "fst x = fst y \<longleftrightarrow> x = y"
proof -
  have "distinct (map (\<lambda>x. me_key (snd x)) (ms_recency s))" "distinct (map fst (ms_recency s))"
    using assms(1) by (simp_all add: linked_def lru_def comp_def)
  then show "me_key (snd x) = me_key (snd y) \<longleftrightarrow> x = y" and "fst x = fst y \<longleftrightarrow> x = y"
    using assms(2,3) by (auto simp: distinct_map dest: inj_onD)
qed

text \<open>The map finds exactly the element of the list with the key.\<close>

lemma find_element_iff:
  assumes "linked s"
  shows "find_element s k = Some x \<longleftrightarrow> x \<in> set (ms_recency s) \<and> me_key (snd x) = k"
proof -
  have ids: "distinct (map fst (ms_recency s))" using assms by (simp add: linked_def)
  have "find_element s k = Some x \<longleftrightarrow> map_of (ms_entries s) k = Some (fst x) \<and> map_of (ms_recency s) (fst x) = Some (snd x)"
    by (cases x) (auto simp: find_element_def element_entry_def split: option.splits)
  also have "\<dots> \<longleftrightarrow> (k, fst x) \<in> link ` set (ms_recency s) \<and> x \<in> set (ms_recency s)"
    using linked_entries [OF assms] ids by (simp add: map_of_eq_Some_iff)
  also have "\<dots> \<longleftrightarrow> x \<in> set (ms_recency s) \<and> me_key (snd x) = k"
  proof
    assume "(k, fst x) \<in> link ` set (ms_recency s) \<and> x \<in> set (ms_recency s)"
    then obtain y where "y \<in> set (ms_recency s)" "k = me_key (snd y)" "fst x = fst y" and x: "x \<in> set (ms_recency s)"
      by (auto simp: link_def)
    with linked_keys_inject(2) [OF assms x] show "x \<in> set (ms_recency s) \<and> me_key (snd x) = k" by blast
  qed (auto simp: link_def)
  finally show ?thesis .
qed

lemma find_element_lru:
  assumes "linked s"
  shows "map_option snd (find_element s k) = find (\<lambda>e. me_key e = k) (lru s)"
proof (cases "find_element s k")
  case None
  then have "\<forall>x\<in>set (ms_recency s). me_key (snd x) \<noteq> k" using find_element_iff [OF assms, of k] by auto
  then have "find (\<lambda>e. me_key e = k) (lru s) = None" by (auto simp: find_None_iff lru_def)
  with None show ?thesis by simp
next
  case (Some x)
  then have x: "x \<in> set (ms_recency s)" "me_key (snd x) = k" by (simp_all add: find_element_iff [OF assms])
  then have "find (\<lambda>e. me_key e = k) (lru s) \<noteq> None" by (auto simp: find_None_iff lru_def)
  then obtain e where e: "find (\<lambda>e. me_key e = k) (lru s) = Some e" by auto
  then have "e \<in> set (lru s)" "me_key e = k" by (auto simp: find_Some_iff)
  then obtain y where "y \<in> set (ms_recency s)" "snd y = e" by (auto simp: lru_def)
  with x \<open>me_key e = k\<close> linked_keys_inject(1) [OF assms, of x y] have "snd x = e" by auto
  with Some e show ?thesis by simp
qed

lemma filter_element:
  assumes "linked s" and "x \<in> set (ms_recency s)"
  shows "filter (\<lambda>(b, _). b \<noteq> fst x) (ms_recency s) = filter (\<lambda>y. me_key (snd y) \<noteq> me_key (snd x)) (ms_recency s)"
  using linked_keys_inject [OF assms(1) _ assms(2)] by (intro filter_cong refl) (auto simp: case_prod_unfold)

lemma lru_remove:
  assumes "linked s" and "x \<in> set (ms_recency s)"
  shows "lru (remove (Some x) s) = without (me_key (snd x)) (lru s)"
  using filter_element [OF assms]
  by (simp add: remove_def lru_def without_def filter_map comp_def case_prod_unfold)

lemma total_size_without:
  "e \<in> set es \<Longrightarrow> distinct (map me_key es) \<Longrightarrow>
   total_size (without (me_key e) es) = total_size es - cr_size (me_result e)"
proof (induction es)
  case (Cons d es)
  show ?case
  proof (cases "d = e")
    case True
    then have "\<forall>x\<in>set es. me_key x \<noteq> me_key e" using Cons.prems by (metis distinct.simps(2) imageI list.map(2) set_map)
    then have "without (me_key e) es = es" by (simp add: without_def)
    with True show ?thesis by (simp add: without_def total_size_def)
  next
    case False
    then have "me_key d \<noteq> me_key e" and "e \<in> set es" using Cons.prems by auto
    with Cons show ?thesis by (simp add: without_def total_size_def)
  qed
qed simp

lemma linked_remove:
  assumes "linked s" and "x \<in> set (ms_recency s)"
  shows "linked (remove (Some x) s)"
proof -
  have "mset (filter (\<lambda>(k, _). k \<noteq> me_key (snd x)) (ms_entries s)) =
      filter_mset (\<lambda>(k, _). k \<noteq> me_key (snd x)) (mset (map link (ms_recency s)))"
    using assms(1) by (simp add: linked_def)
  also have "\<dots> = mset (map link (filter (\<lambda>y. me_key (snd y) \<noteq> me_key (snd x)) (ms_recency s)))"
    by (simp add: filter_map link_def comp_def case_prod_unfold flip: mset_filter mset_map)
  finally have "mset (ms_entries (remove (Some x) s)) = mset (map link (ms_recency (remove (Some x) s)))"
    using filter_element [OF assms] by (simp add: remove_def case_prod_unfold)
  moreover have "ms_bytes (remove (Some x) s) = total_size (lru (remove (Some x) s))"
    unfolding lru_remove [OF assms]
    using assms by (subst total_size_without)
      (auto simp: linked_def remove_def lru_def case_prod_unfold)
  moreover have "set (lru (remove (Some x) s)) \<subseteq> set (lru s)" "distinct (map me_key (lru (remove (Some x) s)))"
    unfolding lru_remove [OF assms] using assms(1) by (auto simp: without_def linked_def distinct_map_filter)
  ultimately show ?thesis
    using assms(1) by (auto simp: linked_def remove_def case_prod_unfold distinct_map_filter)
qed

lemma fits_perm: "mset es = mset ds \<Longrightarrow> fits n b es \<longleftrightarrow> fits n b ds"
proof -
  assume m: "mset es = mset ds"
  then have "sum_mset (image_mset (cr_size \<circ> me_result) (mset es)) = sum_mset (image_mset (cr_size \<circ> me_result) (mset ds))"
    by simp
  then have "total_size es = total_size ds" unfolding total_size_def by (simp flip: sum_mset_sum_list)
  with m show ?thesis by (metis fits_def mset_eq_length)
qed

lemma linked_perm:
  assumes "linked s" and "mset xs = mset (ms_recency s)"
  shows "linked (s\<lparr>ms_recency := xs\<rparr>)" and "mset (lru (s\<lparr>ms_recency := xs\<rparr>)) = mset (lru s)"
proof -
  have maps: "mset (map f xs) = mset (map f (ms_recency s))" for f :: "element \<Rightarrow> 'z"
    using assms(2) by simp
  show lru: "mset (lru (s\<lparr>ms_recency := xs\<rparr>)) = mset (lru s)" using maps [of snd] by (simp add: lru_def)
  have "set xs = set (ms_recency s)" using assms(2) by (rule mset_eq_setD)
  moreover have "distinct (map fst xs)"
    using assms(1) mset_eq_imp_distinct_iff [OF maps [of fst]] by (simp add: linked_def)
  moreover have "distinct (map (me_key \<circ> snd) xs)"
    using assms(1) mset_eq_imp_distinct_iff [OF maps [of "me_key \<circ> snd"]] by (simp add: linked_def lru_def)
  moreover have "total_size (lru (s\<lparr>ms_recency := xs\<rparr>)) = total_size (lru s)"
    using arg_cong [OF lru, of "\<lambda>m. sum_mset (image_mset (cr_size \<circ> me_result) m)"]
    unfolding total_size_def by (simp flip: sum_mset_sum_list)
  ultimately show "linked (s\<lparr>ms_recency := xs\<rparr>)"
    using assms(1) maps [of link] by (simp add: linked_def lru_def)
qed

lemma linked_move_to_front:
  assumes "linked s" and "x \<in> set (ms_recency s)"
  shows "linked (move_to_front x s)" and "mset (lru (move_to_front x s)) = mset (lru s)"
    and "lru (move_to_front x s) = snd x # without (me_key (snd x)) (lru s)"
proof -
  show "lru (move_to_front x s) = snd x # without (me_key (snd x)) (lru s)"
    using filter_element [OF assms]
    by (simp add: move_to_front_def lru_def without_def filter_map comp_def case_prod_unfold)
  have "filter (\<lambda>(b, _). b \<noteq> fst x) (ms_recency s) = filter (\<lambda>y. y \<noteq> x) (ms_recency s)"
    using linked_keys_inject(2) [OF assms(1) _ assms(2)] by (intro filter_cong refl) (auto simp: case_prod_unfold)
  moreover have d: "distinct (ms_recency s)" using assms(1) by (simp add: linked_def distinct_map)
  then have "mset (x # filter (\<lambda>y. y \<noteq> x) (ms_recency s)) = mset (ms_recency s)"
    using assms(2) by (subst set_eq_iff_mset_eq_distinct [symmetric]) auto
  ultimately have "mset (x # filter (\<lambda>(b, _). b \<noteq> fst x) (ms_recency s)) = mset (ms_recency s)" by simp
  from linked_perm [OF assms(1) this] show "linked (move_to_front x s)" "mset (lru (move_to_front x s)) = mset (lru s)"
    by (simp_all add: move_to_front_def)
qed

section \<open>Refinement\<close>

lemma linked_push:
  assumes "linked s" and "\<forall>d\<in>set (lru s). me_key d \<noteq> me_key e" and "0 \<le> cr_size (me_result e)"
  shows "linked (push e s)" and "lru (push e s) = e # lru s"
proof -
  show "lru (push e s) = e # lru s" by (simp add: push_def lru_def)
  have "me_key e \<notin> fst ` set (ms_entries s)"
    using assms(2) linked_entries(1) [OF assms(1)] by (auto simp: link_def lru_def)
  then have "filter (\<lambda>(k, _). k \<noteq> me_key e) (ms_entries s) = ms_entries s"
    by (force simp: filter_id_conv)
  then show "linked (push e s)"
    using assms by (auto simp: linked_def push_def lru_def link_def total_size_def less_Suc_eq)
qed

lemma without_last:
  assumes "distinct (map me_key es)" and "es \<noteq> []"
  shows "without (me_key (last es)) es = butlast es"
proof -
  obtain ds d where es: "es = ds @ [d]" using assms(2) by (metis rev_exhaust)
  with assms(1) have "\<forall>x\<in>set ds. me_key x \<noteq> me_key d" by auto (metis imageI)
  with es show ?thesis by (simp add: without_def)
qed

lemma remove_limits [simp]:
  "ms_max_entries (remove x s) = ms_max_entries s" "ms_max_bytes (remove x s) = ms_max_bytes s"
  "ms_ttl (remove x s) = ms_ttl s"
  by (auto simp: remove_def split: option.splits)

text \<open>The eviction loop returns, and leaves the longest prefix that fits.\<close>

lemma evict_trim:
  assumes "linked s"
  shows "\<exists>s'. evict s = Some s' \<and> linked s' \<and>
    lru s' = trim (ms_max_entries s) (ms_max_bytes s) (lru s) \<and>
    ms_max_entries s' = ms_max_entries s \<and> ms_max_bytes s' = ms_max_bytes s \<and> ms_ttl s' = ms_ttl s"
  using assms
proof (induction "length (lru s)" arbitrary: s)
  case 0
  then have "lru s = []" by simp
  then have "fits (ms_max_entries s) (ms_max_bytes s) (lru s)"
    using 0 by (simp add: fits_def total_size_def linked_def)
  then have "evict s = Some s"
    using 0(2) linked_length [OF 0(2)] by (subst evict.simps) (simp add: fits_def linked_def)
  with 0 \<open>lru s = []\<close> show ?case by (simp add: trim.simps)
next
  case (Suc n)
  show ?case
  proof (cases "fits (ms_max_entries s) (ms_max_bytes s) (lru s)")
    case True
    then have "evict s = Some s"
      using linked_length [OF Suc.prems] Suc.prems by (subst evict.simps) (simp add: fits_def linked_def)
    with True Suc show ?thesis by (simp add: trim.simps [of _ _ "lru s"])
  next
    case False
    let ?x = "last (ms_recency s)"
    have ne: "ms_recency s \<noteq> []" using Suc(2) by (auto simp: lru_def)
    then have x: "?x \<in> set (ms_recency s)" and backx: "recency_back s = Some ?x"
      by (simp_all add: recency_back_def)
    let ?s = "remove (Some ?x) s"
    have "snd ?x = last (lru s)" using ne by (simp add: lru_def last_map)
    then have l: "lru ?s = butlast (lru s)"
      using lru_remove [OF Suc.prems x] without_last [of "lru s"] Suc.prems ne by (simp add: linked_def lru_def)
    have step: "evict s = evict ?s"
      using False linked_length [OF Suc.prems] Suc.prems backx
      by (subst evict.simps) (auto simp: fits_def linked_def)
    moreover have "n = length (lru ?s)" using Suc(2) l by simp
    from Suc(1) [OF this linked_remove [OF Suc.prems x]] obtain s' where "evict ?s = Some s'" "linked s'"
      "lru s' = trim (ms_max_entries s) (ms_max_bytes s) (butlast (lru s))"
      "ms_max_entries s' = ms_max_entries s" "ms_max_bytes s' = ms_max_bytes s" "ms_ttl s' = ms_ttl s"
      unfolding l by auto
    moreover have "trim (ms_max_entries s) (ms_max_bytes s) (lru s) =
        trim (ms_max_entries s) (ms_max_bytes s) (butlast (lru s))"
      using False ne by (subst trim.simps) (simp add: lru_def)
    ultimately show ?thesis by auto
  qed
qed

lemma trim_fits: "0 \<le> n \<Longrightarrow> 0 \<le> b \<Longrightarrow> fits n b (trim n b es)"
proof (induction n b es rule: trim.induct)
  case (1 n b es)
  then show ?case by (subst trim.simps) (auto simp: fits_def total_size_def)
qed

lemma get_refines:
  assumes "store_ok s"
  shows "store_ok (snd (get s k now)) \<and>
    lru_get (lru s) k now = (fst (get s k now), lru (snd (get s k now)))"
proof (cases "find_element s k")
  case None
  then show ?thesis
    using find_element_lru [of s k] assms by (simp add: get_def lru_get_def store_ok_def)
next
  case (Some x)
  obtain a e where x: "x = (a, e)" by fastforce
  have l: "linked s" using assms by (simp add: store_ok_def)
  from Some have mem: "(a, e) \<in> set (ms_recency s)" and key: "me_key e = k"
    using find_element_iff [OF l, of k x] x by auto
  have find: "find (\<lambda>e. me_key e = k) (lru s) = Some e"
    using find_element_lru [OF l, of k] Some x by simp
  have sub: "fits n b es \<Longrightarrow> \<forall>e\<in>set es. 0 \<le> cr_size (me_result e) \<Longrightarrow> fits n b (without k es)" for n b es
  proof -
    have "total_size (without k es) \<le> total_size es" if "\<forall>e\<in>set es. 0 \<le> cr_size (me_result e)"
      using that by (induction es) (auto simp: without_def total_size_def)
    moreover have "length (without k es) \<le> length es" by (simp add: without_def)
    ultimately show "fits n b es \<Longrightarrow> \<forall>e\<in>set es. 0 \<le> cr_size (me_result e) \<Longrightarrow> fits n b (without k es)"
      by (auto simp: fits_def)
  qed
  show ?thesis
  proof (cases "now < me_expires_at e")
    case True
    note moved = linked_move_to_front [OF l mem]
    have "fits (ms_max_entries s) (ms_max_bytes s) (lru (move_to_front (a, e) s))"
      using fits_perm [OF moved(2)] assms by (simp add: store_ok_def)
    moreover have "ms_max_entries (move_to_front (a, e) s) = ms_max_entries s"
      "ms_max_bytes (move_to_front (a, e) s) = ms_max_bytes s" by (simp_all add: move_to_front_def)
    ultimately show ?thesis
      using Some x find True moved key by (simp add: get_def lru_get_def store_ok_def)
  next
    case False
    with Some x find l linked_remove [OF l mem] lru_remove [OF l mem] key assms sub show ?thesis
      by (auto simp: get_def lru_get_def store_ok_def linked_def)
  qed
qed

lemma set_refines:
  assumes "store_ok s" and "0 \<le> cr_size r"
  shows "\<exists>s'. set_result s k r now = Some s' \<and> store_ok s' \<and>
    lru s' = lru_set (ms_max_entries s) (ms_max_bytes s) (ms_ttl s) (lru s) k r now \<and>
    ms_max_entries s' = ms_max_entries s \<and> ms_max_bytes s' = ms_max_bytes s \<and> ms_ttl s' = ms_ttl s"
proof (cases "cr_size r > ms_max_bytes s")
  case True
  with assms(1) show ?thesis by (simp add: set_result_def lru_set_def)
next
  case False
  let ?e = "\<lparr>me_key = k, me_result = r, me_expires_at = now + ms_ttl s\<rparr>"
  let ?s1 = "remove (find_element s k) s"
  have l: "linked s" using assms(1) by (simp add: store_ok_def)
  have s1: "linked ?s1 \<and> lru ?s1 = without k (lru s)"
  proof (cases "find_element s k")
    case None
    then have "\<forall>x\<in>set (ms_recency s). me_key (snd x) \<noteq> k" using find_element_iff [OF l, of k] by auto
    then have "without k (lru s) = lru s" by (simp add: without_def lru_def filter_id_conv)
    with None l show ?thesis by (simp add: remove_def)
  next
    case (Some x)
    then have "x \<in> set (ms_recency s)" "me_key (snd x) = k" by (simp_all add: find_element_iff [OF l])
    with Some linked_remove [OF l] lru_remove [OF l] show ?thesis by auto
  qed
  then have push: "linked (push ?e ?s1)" "lru (push ?e ?s1) = ?e # without k (lru s)"
    using linked_push [of ?s1 ?e] assms(2) by (auto simp: without_def)
  have lim: "ms_max_entries (push ?e ?s1) = ms_max_entries s" "ms_max_bytes (push ?e ?s1) = ms_max_bytes s"
    "ms_ttl (push ?e ?s1) = ms_ttl s" by (simp_all add: push_def)
  from evict_trim [OF push(1)] obtain s' where s': "evict (push ?e ?s1) = Some s'" "linked s'"
    "lru s' = trim (ms_max_entries s) (ms_max_bytes s) (?e # without k (lru s))"
    "ms_max_entries s' = ms_max_entries s" "ms_max_bytes s' = ms_max_bytes s" "ms_ttl s' = ms_ttl s"
    unfolding push(2) lim by auto
  moreover have "fits (ms_max_entries s) (ms_max_bytes s) (lru s')"
    unfolding s'(3) using l by (intro trim_fits) (simp_all add: linked_def)
  ultimately show ?thesis
    using False by (simp add: set_result_def lru_set_def store_ok_def)
qed

section \<open>The interface to the cache state\<close>

text \<open>
  What a client of the store relies on: a result comes back only under the key it was stored
  under, and storing returns. \<open>holds s k r\<close> says that the store may answer \<open>r\<close> for \<open>k\<close>. A
  property of all stored pairs is then kept by every operation that stores only such pairs.
\<close>

locale result_store =
  fixes ok :: "'s \<Rightarrow> bool"
    and holds :: "'s \<Rightarrow> 'k \<Rightarrow> 'r \<Rightarrow> bool"
    and storable :: "'r \<Rightarrow> bool"
    and fetch :: "'s \<Rightarrow> 'k \<Rightarrow> int \<Rightarrow> 'r option \<times> 's"
    and put :: "'s \<Rightarrow> 'k \<Rightarrow> 'r \<Rightarrow> int \<Rightarrow> 's option"
  assumes fetch_ok: "ok s \<Longrightarrow> ok (snd (fetch s k t))"
    and fetch_holds: "ok s \<Longrightarrow> fst (fetch s k t) = Some r \<Longrightarrow> holds s k r"
    and fetch_keeps: "ok s \<Longrightarrow> holds (snd (fetch s k t)) k' r \<Longrightarrow> holds s k' r"
    and put_returns: "ok s \<Longrightarrow> storable r \<Longrightarrow> \<exists>s'. put s k r t = Some s' \<and> ok s'"
    and put_holds: "ok s \<Longrightarrow> storable r \<Longrightarrow> put s k r t = Some s' \<Longrightarrow> holds s' k' r' \<Longrightarrow>
      k' = k \<and> r' = r \<or> holds s k' r'"
begin

lemma fetch_all:
  "ok s \<Longrightarrow> (\<And>k r. holds s k r \<Longrightarrow> P k r) \<Longrightarrow> holds (snd (fetch s k t)) k' r' \<Longrightarrow> P k' r'"
  by (blast dest: fetch_keeps)

lemma put_all:
  "ok s \<Longrightarrow> storable r \<Longrightarrow> put s k r t = Some s' \<Longrightarrow> P k r \<Longrightarrow> (\<And>k r. holds s k r \<Longrightarrow> P k r) \<Longrightarrow>
   holds s' k' r' \<Longrightarrow> P k' r'"
  by (blast dest: put_holds)

lemma fetched:
  "ok s \<Longrightarrow> (\<And>k r. holds s k r \<Longrightarrow> P k r) \<Longrightarrow> fst (fetch s k t) = Some r \<Longrightarrow> P k r"
  by (blast dest: fetch_holds)

end

definition holds :: "memory_store \<Rightarrow> query_key \<Rightarrow> cached_result \<Rightarrow> bool" where
  "holds s k r \<longleftrightarrow> (\<exists>e\<in>set (lru s). me_key e = k \<and> me_result e = r)"

definition storable :: "cached_result \<Rightarrow> bool" where
  "storable r \<longleftrightarrow> 0 \<le> cr_size r"

lemma set_trim: "set (trim n b es) \<subseteq> set es"
proof (induction n b es rule: trim.induct)
  case (1 n b es)
  then show ?case by (subst trim.simps) (auto dest: in_set_butlastD)
qed

lemma lru_get_subset: "set (snd (lru_get es k now)) \<subseteq> set es"
  by (auto simp: lru_get_def without_def find_Some_iff split: option.splits)

lemma lru_get_Some:
  "fst (lru_get es k now) = Some r \<Longrightarrow> \<exists>e\<in>set es. me_key e = k \<and> me_result e = r \<and> now < me_expires_at e"
  by (force simp: lru_get_def find_Some_iff split: option.splits if_splits)

interpretation memory: result_store store_ok holds storable get set_result
proof
  fix s k t assume ok: "store_ok s"
  note ref = get_refines [OF ok, of k t]
  show "store_ok (snd (get s k t))" using ref by simp
  show "holds s k r" if "fst (get s k t) = Some r" for r
    using that ref lru_get_Some [of "lru s" k t r] by (auto simp: holds_def)
  show "holds s k' r" if "holds (snd (get s k t)) k' r" for k' r
    using that ref lru_get_subset [of "lru s" k t] by (auto simp: holds_def)
next
  fix s k r t assume ok: "store_ok s" and r: "storable r"
  from set_refines [OF ok, of r k t] r obtain s' where
    s': "set_result s k r t = Some s'" "store_ok s'"
      "lru s' = lru_set (ms_max_entries s) (ms_max_bytes s) (ms_ttl s) (lru s) k r t"
    by (auto simp: storable_def)
  then show "\<exists>s'. set_result s k r t = Some s' \<and> store_ok s'" by blast
  show "k' = k \<and> r' = r \<or> holds s k' r'" if "set_result s k r t = Some s''" "holds s'' k' r'" for s'' k' r'
  proof -
    from that s' obtain e where "e \<in> set (lru_set (ms_max_entries s) (ms_max_bytes s) (ms_ttl s) (lru s) k r t)"
      "me_key e = k'" "me_result e = r'" by (auto simp: holds_def)
    then show ?thesis
      using set_trim by (fastforce simp: lru_set_def holds_def without_def split: if_splits)
  qed
qed

section \<open>Properties\<close>

text \<open>
  C13: The store is an LRU cache. On a well-formed store, \<open>get\<close> answers what the list
  specification answers, drops an expired entry and moves a found one to the front; \<open>set\<close>
  returns (its eviction loop ends), replaces the key's entry and evicts from the least
  recently used end exactly what does not fit. Both keep the store well formed: map and list
  agree, the byte count is the size of the entries, and the limits on entries and bytes hold.
\<close>

theorem memory_store_refines_lru:
  assumes "store_ok s" and "0 \<le> cr_size r"
  shows "lru_get (lru s) k now = (fst (get s k now), lru (snd (get s k now))) \<and> store_ok (snd (get s k now)) \<and>
    (\<exists>s'. set_result s k r now = Some s' \<and> store_ok s' \<and>
       lru s' = lru_set (ms_max_entries s) (ms_max_bytes s) (ms_ttl s) (lru s) k r now \<and>
       int (length (ms_entries s')) \<le> ms_max_entries s' \<and> ms_bytes s' \<le> ms_max_bytes s')"
proof -
  obtain s' where s': "set_result s k r now = Some s'" "store_ok s'"
      "lru s' = lru_set (ms_max_entries s) (ms_max_bytes s) (ms_ttl s) (lru s) k r now"
    using set_refines [OF assms] by blast
  then have "linked s'" "fits (ms_max_entries s') (ms_max_bytes s') (lru s')" by (simp_all add: store_ok_def)
  then have "int (length (ms_entries s')) \<le> ms_max_entries s'" "ms_bytes s' \<le> ms_max_bytes s'"
    using linked_length [of s'] by (simp_all add: fits_def linked_def)
  with s' get_refines [OF assms(1), of k now] show ?thesis by auto
qed

definition small_result :: "int \<Rightarrow> cached_result" where
  "small_result n = \<lparr>cr_batches = [], cr_outcome = None, cr_size = n\<rparr>"

definition small_key :: "string \<Rightarrow> query_key" where
  "small_key e = \<lparr>qk_entity = e, qk_digest = [], qk_global = 0, qk_generation = 0\<rparr>"

theorem memory_store_refines_lru_witness:
  "\<exists>s'. set_result (newMemoryStore 2 100 30) (small_key ''a'') (small_result 10) 5 = Some s' \<and> store_ok s' \<and>
     map me_expires_at (lru s') = [35]"
proof -
  have "lru_set 2 100 30 [] (small_key ''a'') (small_result 10) 5 =
      [\<lparr>me_key = small_key ''a'', me_result = small_result 10, me_expires_at = 35\<rparr>]"
    by (simp add: lru_set_def small_result_def without_def trim.simps fits_def total_size_def)
  then show ?thesis
    using memory_store_refines_lru [OF newMemoryStore_ok [of 2 100 30], of "small_result 10" "small_key ''a''" 5]
    by (auto simp: newMemoryStore_def lru_def small_result_def)
qed

lemma get_limits:
  "ms_max_entries (snd (get s k now)) = ms_max_entries s" "ms_max_bytes (snd (get s k now)) = ms_max_bytes s"
  "ms_ttl (snd (get s k now)) = ms_ttl s"
  by (auto simp: get_def remove_def move_to_front_def Let_def split: option.splits)

lemma found_after_set:
  assumes "store_ok s" and "0 \<le> cr_size r" and "cr_size r \<le> ms_max_bytes s" and "0 < ms_max_entries s"
    and "set_result s k r now = Some s'"
  shows "fst (get s' k t) = (if t < now + ms_ttl s then Some r else None)"
proof -
  let ?e = "\<lparr>me_key = k, me_result = r, me_expires_at = now + ms_ttl s\<rparr>"
  have trim_front: "\<exists>ds. trim n b (?e # es) = ?e # ds" if "0 < n" "cr_size r \<le> b" for n b es
    using that
  proof (induction "length es" arbitrary: es)
    case 0
    then show ?case by (simp add: trim.simps fits_def total_size_def)
  next
    case (Suc m)
    then obtain ds d where "es = ds @ [d]" by (metis Zero_not_Suc list.size(3) rev_exhaust)
    moreover have "\<exists>xs. trim n b (?e # ds) = ?e # xs" using Suc calculation by (intro Suc(1)) auto
    ultimately show ?case by (subst trim.simps) auto
  qed
  from set_refines [OF assms(1,2), of k now] assms(5)
  have s': "store_ok s'" "lru s' = lru_set (ms_max_entries s) (ms_max_bytes s) (ms_ttl s) (lru s) k r now" by auto
  with trim_front [OF assms(4,3)] assms(3) obtain ds where "lru s' = ?e # ds" by (auto simp: lru_set_def)
  with get_refines [OF s'(1), of k t] show ?thesis by (auto simp: lru_get_def)
qed

text \<open>
  What was just stored is found: on a well-formed store with room for the result, \<open>get\<close>
  of the key answers the stored result until its time to live has passed, and nothing from
  then on.
\<close>

theorem stored_then_found:
  assumes "store_ok s" and "0 \<le> cr_size r" and "cr_size r \<le> ms_max_bytes s" and "0 < ms_max_entries s"
    and "set_result s k r now = Some s'"
  shows "fst (get s' k t) = (if t < now + ms_ttl s then Some r else None)"
  using assms by (rule found_after_set)

theorem stored_then_found_witness:
  "\<exists>s'. set_result (newMemoryStore 2 100 30) (small_key ''a'') (small_result 10) 5 = Some s' \<and>
     fst (get s' (small_key ''a'') 34) = Some (small_result 10) \<and> fst (get s' (small_key ''a'') 35) = None"
proof -
  obtain s' where s': "set_result (newMemoryStore 2 100 30) (small_key ''a'') (small_result 10) 5 = Some s'"
    using set_refines [OF newMemoryStore_ok [of 2 100 30], of "small_result 10" "small_key ''a''" 5]
    by (auto simp: small_result_def)
  show ?thesis
    using stored_then_found [OF newMemoryStore_ok [of 2 100 30] _ _ _ s'] s'
    by (auto simp: newMemoryStore_def small_result_def)
qed

end
