(* ===== verification/Capabilities.thy ===== *)
theory Capabilities
  imports Messages
begin

text \<open>
  \<open>sdk-go/provider/capability_validation.go\<close> and the identifier checks of
  \<open>transaction_recovery.go\<close>: what the SDK demands of the capabilities a provider
  advertises before a client sees them. The messages hold the fields the checks read; the
  planner flags of the query and mutation capabilities pass through unread.

  \<open>capabilities_ok\<close> states the demands without the loops: types and features without
  duplicates, the limits and types that each advertised feature needs, and a canonical
  resource manager identity exactly when recovery is supported.
\<close>

section \<open>Messages\<close>

record supported_value_type =
  sv_type :: value_type
  sv_input :: bool
  sv_output :: bool

record value_capabilities =
  vc_supported_types :: "supported_value_type option list"
  vc_features :: "string list"
  vc_max_array_dimensions :: "32 word option"
  vc_max_lob_chunk_bytes :: "32 word option"
  vc_max_lob_bytes :: "64 word option"
  vc_lob_reference_retention_seconds :: "64 word option"

record recovery_capabilities =
  rc_supported :: bool
  rc_resource_manager_id :: string

record transaction_capabilities =
  tc_supported :: bool
  tc_recovery :: "recovery_capabilities option"

record capabilities =
  c_transactions :: "transaction_capabilities option"
  c_aggregate_functions :: "aggregate_function list option"
  c_values :: "value_capabilities option"

record value_type_directions =
  vd_input :: bool
  vd_output :: bool

section \<open>Identifiers\<close>

definition maxResourceManagerIDBytes :: nat where "maxResourceManagerIDBytes = 256"
definition maxTransactionBranchIDBytes :: nat where "maxTransactionBranchIDBytes = 256"

definition validateResourceManagerID :: "string \<Rightarrow> manager_err option" where
  "validateResourceManagerID s =
     first_of
      [fail_if (s = [] \<or> trimSpace s \<noteq> s) ManagerIdNotCanonical,
       fail_if (length s > maxResourceManagerIDBytes) ManagerIdTooLong]"

definition validateTransactionBranchID :: "branch_id option \<Rightarrow> string \<Rightarrow> branch_err + branch_id" where
  "validateTransactionBranchID branch expected =
     (case branch of
        None \<Rightarrow> Inl BranchRequired
      | Some b \<Rightarrow>
          require
            (first_of
              [map_option BranchManagerInvalid (validateResourceManagerID (br_resource_manager_id b)),
               fail_if (br_resource_manager_id b \<noteq> expected)
                 (BranchManagerMismatch (br_resource_manager_id b) expected),
               fail_if (br_branch_id b = []) BranchIdRequired,
               fail_if (length (br_branch_id b) > maxTransactionBranchIDBytes) BranchIdTooLong])
            b)"

definition transactionBranchKey :: "branch_id \<Rightarrow> string" where
  "transactionBranchKey b = br_resource_manager_id b @ [CHR 0x00] @ br_branch_id b"

section \<open>Capabilities\<close>

definition validateTransactionCapabilities :: "transaction_capabilities option \<Rightarrow> cap_err option" where
  "validateTransactionCapabilities transactions =
     (case transactions of
        None \<Rightarrow> None
      | Some t \<Rightarrow>
          (case tc_recovery t of
             None \<Rightarrow> None
           | Some r \<Rightarrow>
               if \<not> rc_supported r
               then fail_if (rc_resource_manager_id r \<noteq> []) (RecoveryCapErr RecoveryIdNotEmpty)
               else
                 first_of
                  [fail_if (\<not> tc_supported t) (RecoveryCapErr RecoveryNeedsTransactions),
                   map_option (RecoveryCapErr \<circ> RecoveryIdInvalid)
                     (validateResourceManagerID (rc_resource_manager_id r))]))"

fun check_aggregate_functions ::
  "nat \<Rightarrow> aggregate_function set \<Rightarrow> aggregate_function list \<Rightarrow> aggregate_cap_err option" where
  "check_aggregate_functions i seen [] = None"
| "check_aggregate_functions i seen (f # fs) =
     first_of
      [fail_if (f = AGGREGATE_FUNCTION_UNSPECIFIED) (CapAggregateUnspecified i),
       fail_if (\<not> AggregateFunction_known f) (CapAggregateUnnamed i f),
       fail_if (f \<in> seen) (CapAggregateDuplicate f),
       check_aggregate_functions (Suc i) (insert f seen) fs]"

definition validateAggregateCapabilities :: "aggregate_function list option \<Rightarrow> cap_err option" where
  "validateAggregateCapabilities aggregates =
     (case aggregates of
        None \<Rightarrow> None
      | Some fs \<Rightarrow> map_option AggregateCapErr (check_aggregate_functions 0 {} fs))"

type_synonym type_table = "value_type \<rightharpoonup> value_type_directions"

fun collect_supported_types ::
  "nat \<Rightarrow> type_table \<Rightarrow> supported_value_type option list \<Rightarrow> types_err + type_table" where
  "collect_supported_types i seen [] = Inr seen"
| "collect_supported_types i seen (None # ss) = Inl (SupportedTypeNil i)"
| "collect_supported_types i seen (Some s # ss) =
     (let t = sv_type s in
      if t = VALUE_TYPE_UNKNOWN then Inl (SupportedTypeUnknown i)
      else if \<not> ValueType_known t then Inl (SupportedTypeUnnamed i t)
      else if \<not> sv_input s \<and> \<not> sv_output s then Inl (SupportedTypeNoDirection i t)
      else if seen t \<noteq> None then Inl (SupportedTypeDuplicate t)
      else
        collect_supported_types (Suc i)
          (seen(t \<mapsto> \<lparr>vd_input = sv_input s, vd_output = sv_output s\<rparr>)) ss)"

fun check_features :: "nat \<Rightarrow> string set \<Rightarrow> string list \<Rightarrow> types_err option" where
  "check_features i seen [] = None"
| "check_features i seen (f # fs) =
     first_of
      [fail_if (f = [] \<or> trimSpace f \<noteq> f) (FeatureNotCanonical i),
       fail_if (f \<in> seen) (FeatureDuplicate f),
       check_features (Suc i) (insert f seen) fs]"

definition supportsEitherDirection :: "type_table \<Rightarrow> value_type \<Rightarrow> bool" where
  "supportsEitherDirection types t \<longleftrightarrow>
     (case types t of None \<Rightarrow> False | Some d \<Rightarrow> vd_input d \<or> vd_output d)"

definition supportsOutput :: "type_table \<Rightarrow> value_type \<Rightarrow> bool" where
  "supportsOutput types t \<longleftrightarrow> (case types t of None \<Rightarrow> False | Some d \<Rightarrow> vd_output d)"

definition missing :: "'a::zero option \<Rightarrow> bool" where
  "missing x \<longleftrightarrow> (case x of None \<Rightarrow> True | Some n \<Rightarrow> n = 0)"

definition check_feature_demands :: "value_capabilities \<Rightarrow> type_table \<Rightarrow> feature_cap_err option" where
  "check_feature_demands v types =
     first_of
      [if ArrayValuesV1 \<in> set (vc_features v)
       then first_of
             [fail_if (missing (vc_max_array_dimensions v)) ArrayDimensionsRequired,
              fail_if (\<not> supportsEitherDirection types VALUE_TYPE_ARRAY) ArrayTypeRequired]
       else None,
       fail_if
         (SpatialValuesV1 \<in> set (vc_features v) \<and>
          \<not> supportsEitherDirection types VALUE_TYPE_GEOMETRY \<and>
          \<not> supportsEitherDirection types VALUE_TYPE_GEOGRAPHY) SpatialTypeRequired,
       if LobReadV1 \<in> set (vc_features v)
       then first_of
             [fail_if (missing (vc_max_lob_chunk_bytes v)) LobChunkBytesRequired,
              fail_if (missing (vc_max_lob_bytes v)) LobBytesRequired,
              fail_if (missing (vc_lob_reference_retention_seconds v)) LobRetentionRequired,
              fail_if (\<not> supportsOutput types VALUE_TYPE_BLOB \<and> \<not> supportsOutput types VALUE_TYPE_CLOB)
                LobTypeRequired]
       else None]"

definition validateValueCapabilities :: "value_capabilities option \<Rightarrow> cap_err option" where
  "validateValueCapabilities values =
     (case values of
        None \<Rightarrow> None
      | Some v \<Rightarrow>
          (case collect_supported_types 0 Map.empty (vc_supported_types v) of
             Inl e \<Rightarrow> Some (TypesErr e)
           | Inr types \<Rightarrow>
               first_of
                [map_option TypesErr (check_features 0 {} (vc_features v)),
                 map_option FeatureCapErr (check_feature_demands v types)]))"

definition validateProviderCapabilities :: "capabilities \<Rightarrow> cap_err option" where
  "validateProviderCapabilities c =
     first_of
      [validateTransactionCapabilities (c_transactions c),
       validateAggregateCapabilities (c_aggregate_functions c),
       validateValueCapabilities (c_values c)]"

text \<open>
  \<open>manager\<close> is the identity of the recovery manager the provider exposes, if it does: the
  provider may not implement the interface, or implement it and answer nil.
\<close>

definition validateTransactionRecoveryImplementation ::
  "capabilities \<Rightarrow> string option \<Rightarrow> cap_err option" where
  "validateTransactionRecoveryImplementation c manager =
     (case (case c_transactions c of None \<Rightarrow> None | Some t \<Rightarrow> tc_recovery t) of
        None \<Rightarrow> fail_if (manager \<noteq> None) (RecoveryCapErr ManagerNotAdvertised)
      | Some r \<Rightarrow>
          if \<not> rc_supported r then fail_if (manager \<noteq> None) (RecoveryCapErr ManagerNotAdvertised)
          else
            (case manager of
               None \<Rightarrow> Some (RecoveryCapErr ManagerMissing)
             | Some m \<Rightarrow>
                 first_of
                  [map_option (RecoveryCapErr \<circ> ManagerInvalid) (validateResourceManagerID m),
                   fail_if (m \<noteq> rc_resource_manager_id r)
                     (RecoveryCapErr (ManagerMismatch m (rc_resource_manager_id r)))]))"

section \<open>What is accepted\<close>

definition manager_id_ok :: "string \<Rightarrow> bool" where
  "manager_id_ok s \<longleftrightarrow> canonical s \<and> length s \<le> 256"

lemma validateResourceManagerID_None [check_simps]:
  "validateResourceManagerID s = None \<longleftrightarrow> manager_id_ok s"
  by (auto simp: validateResourceManagerID_def manager_id_ok_def canonical_def
      maxResourceManagerIDBytes_def)

lemma validateTransactionBranchID_Inr [check_simps]:
  "validateTransactionBranchID branch expected = Inr b \<longleftrightarrow>
     branch = Some b \<and> br_resource_manager_id b = expected \<and> manager_id_ok expected \<and>
     br_branch_id b \<noteq> [] \<and> length (br_branch_id b) \<le> 256"
  by (auto simp: validateTransactionBranchID_def check_simps maxTransactionBranchIDBytes_def
      split: option.splits)

text \<open>
  Within one resource manager the separator of \<open>transactionBranchKey\<close> cannot confuse two
  branches, whatever bytes their identifiers hold.
\<close>

lemma transactionBranchKey_inject:
  "br_resource_manager_id b = br_resource_manager_id c \<Longrightarrow>
   transactionBranchKey b = transactionBranchKey c \<longleftrightarrow> b = c"
  by (cases b; cases c) (auto simp: transactionBranchKey_def)

definition aggregates_ok :: "aggregate_function list \<Rightarrow> bool" where
  "aggregates_ok fs \<longleftrightarrow>
     distinct fs \<and> (\<forall>f\<in>set fs. f \<noteq> AGGREGATE_FUNCTION_UNSPECIFIED \<and> AggregateFunction_known f)"

lemma check_aggregate_functions_None:
  "check_aggregate_functions i seen fs = None \<longleftrightarrow> aggregates_ok fs \<and> set fs \<inter> seen = {}"
  by (induction fs arbitrary: i seen) (auto simp: aggregates_ok_def)

lemma check_features_None:
  "check_features i seen fs = None \<longleftrightarrow> distinct fs \<and> (\<forall>f\<in>set fs. canonical f) \<and> set fs \<inter> seen = {}"
  by (induction fs arbitrary: i seen) (auto simp: canonical_def)

definition supported_ok :: "supported_value_type option \<Rightarrow> bool" where
  "supported_ok s \<longleftrightarrow>
     (\<exists>t. s = Some t \<and> sv_type t \<noteq> VALUE_TYPE_UNKNOWN \<and> ValueType_known (sv_type t) \<and>
          (sv_input t \<or> sv_output t))"

definition type_entry :: "supported_value_type option \<Rightarrow> value_type \<times> value_type_directions" where
  "type_entry s = (sv_type (the s), \<lparr>vd_input = sv_input (the s), vd_output = sv_output (the s)\<rparr>)"

lemma collect_supported_types_Inr:
  "collect_supported_types i seen ss = Inr types \<longleftrightarrow>
     (\<forall>s\<in>set ss. supported_ok s) \<and> distinct (map (sv_type \<circ> the) ss) \<and>
     (\<forall>s\<in>set ss. sv_type (the s) \<notin> dom seen) \<and> types = seen ++ map_of (map type_entry ss)"
proof (induction i seen ss rule: collect_supported_types.induct)
  case (3 i seen s ss)
  let ?seen = "seen(sv_type s \<mapsto> \<lparr>vd_input = sv_input s, vd_output = sv_output s\<rparr>)"
  show ?case
  proof (cases "supported_ok (Some s) \<and> sv_type s \<notin> dom seen")
    case True
    then have "collect_supported_types i seen (Some s # ss) =
        collect_supported_types (Suc i) ?seen ss"
      by (auto simp: supported_ok_def Let_def domIff)
    moreover have "collect_supported_types (Suc i) ?seen ss = Inr types \<longleftrightarrow>
      (\<forall>s\<in>set ss. supported_ok s) \<and> distinct (map (sv_type \<circ> the) ss) \<and>
      (\<forall>s\<in>set ss. sv_type (the s) \<notin> dom ?seen) \<and> types = ?seen ++ map_of (map type_entry ss)"
      using True by (intro "3.IH") (auto simp: supported_ok_def domIff)
    moreover have "?seen ++ map_of (map type_entry ss) = seen ++ map_of (map type_entry (Some s # ss))"
      if "sv_type s \<notin> set (map (sv_type \<circ> the) ss)"
    proof -
      have "sv_type s \<notin> dom (map_of (map type_entry ss))"
        using that by (auto simp: dom_map_of_conv_image_fst type_entry_def)
      then show ?thesis by (simp add: type_entry_def map_add_upd_left)
    qed
    moreover have "(\<forall>x\<in>set ss. sv_type (the x) \<notin> dom ?seen) \<longleftrightarrow>
        (\<forall>x\<in>set ss. sv_type (the x) \<notin> dom seen) \<and> sv_type s \<notin> set (map (sv_type \<circ> the) ss)"
      by (auto simp: image_iff)
    ultimately have "collect_supported_types i seen (Some s # ss) = Inr types \<longleftrightarrow>
        (\<forall>s\<in>set ss. supported_ok s) \<and> distinct (map (sv_type \<circ> the) ss) \<and>
        ((\<forall>x\<in>set ss. sv_type (the x) \<notin> dom seen) \<and> sv_type s \<notin> set (map (sv_type \<circ> the) ss)) \<and>
        types = seen ++ map_of (map type_entry (Some s # ss))"
      by metis
    with True show ?thesis
      by (simp add: comp_def del: collect_supported_types.simps map_of.simps) blast
  qed (auto simp: supported_ok_def Let_def domIff)
qed (auto simp: supported_ok_def)

definition type_support :: "value_capabilities \<Rightarrow> value_type \<Rightarrow> supported_value_type \<Rightarrow> bool" where
  "type_support v t s \<longleftrightarrow> Some s \<in> set (vc_supported_types v) \<and> sv_type s = t"

definition limit_set :: "'a::zero option \<Rightarrow> bool" where
  "limit_set x \<longleftrightarrow> (\<exists>n. x = Some n \<and> n \<noteq> 0)"

text \<open>What an advertised feature needs.\<close>

definition feature_backed :: "value_capabilities \<Rightarrow> string \<Rightarrow> bool" where
  "feature_backed v f \<longleftrightarrow>
     (f = ArrayValuesV1 \<longrightarrow>
        limit_set (vc_max_array_dimensions v) \<and> (\<exists>s. type_support v VALUE_TYPE_ARRAY s)) \<and>
     (f = SpatialValuesV1 \<longrightarrow>
        (\<exists>s. type_support v VALUE_TYPE_GEOMETRY s \<or> type_support v VALUE_TYPE_GEOGRAPHY s)) \<and>
     (f = LobReadV1 \<longrightarrow>
        limit_set (vc_max_lob_chunk_bytes v) \<and> limit_set (vc_max_lob_bytes v) \<and>
        limit_set (vc_lob_reference_retention_seconds v) \<and>
        (\<exists>s. sv_output s \<and> (type_support v VALUE_TYPE_BLOB s \<or> type_support v VALUE_TYPE_CLOB s)))"

definition value_capabilities_ok :: "value_capabilities \<Rightarrow> bool" where
  "value_capabilities_ok v \<longleftrightarrow>
     (\<forall>s\<in>set (vc_supported_types v). supported_ok s) \<and>
     distinct (map (sv_type \<circ> the) (vc_supported_types v)) \<and>
     distinct (vc_features v) \<and> (\<forall>f\<in>set (vc_features v). canonical f \<and> feature_backed v f)"

definition recovery_ok :: "transaction_capabilities \<Rightarrow> bool" where
  "recovery_ok t \<longleftrightarrow>
     (\<forall>r. tc_recovery t = Some r \<longrightarrow>
        (if rc_supported r then tc_supported t \<and> manager_id_ok (rc_resource_manager_id r)
         else rc_resource_manager_id r = []))"

definition capabilities_ok :: "capabilities \<Rightarrow> bool" where
  "capabilities_ok c \<longleftrightarrow>
     (\<forall>t. c_transactions c = Some t \<longrightarrow> recovery_ok t) \<and>
     (\<forall>fs. c_aggregate_functions c = Some fs \<longrightarrow> aggregates_ok fs) \<and>
     (\<forall>v. c_values c = Some v \<longrightarrow> value_capabilities_ok v)"

lemma missing_limit_set: "missing x \<longleftrightarrow> \<not> limit_set x"
  by (auto simp: missing_def limit_set_def split: option.splits)

lemma types_lookup:
  assumes "\<forall>s\<in>set ss. supported_ok s" and "distinct (map (sv_type \<circ> the) ss)"
  shows "map_of (map type_entry ss) t = Some d \<longleftrightarrow>
    (\<exists>s. Some s \<in> set ss \<and> sv_type s = t \<and> d = \<lparr>vd_input = sv_input s, vd_output = sv_output s\<rparr>)"
proof -
  have "map fst (map type_entry ss) = map (sv_type \<circ> the) ss"
    by (simp add: type_entry_def)
  with assms(2) have "map_of (map type_entry ss) t = Some d \<longleftrightarrow> (t, d) \<in> set (map type_entry ss)"
    by (intro map_of_eq_Some_iff) (simp only:)
  also have "\<dots> \<longleftrightarrow> (\<exists>s. Some s \<in> set ss \<and> sv_type s = t \<and>
      d = \<lparr>vd_input = sv_input s, vd_output = sv_output s\<rparr>)"
  proof
    assume "(t, d) \<in> set (map type_entry ss)"
    then obtain x where x: "x \<in> set ss" "type_entry x = (t, d)" by auto
    with assms(1) obtain s where "x = Some s" by (auto simp: supported_ok_def)
    with x show "\<exists>s. Some s \<in> set ss \<and> sv_type s = t \<and>
      d = \<lparr>vd_input = sv_input s, vd_output = sv_output s\<rparr>" by (auto simp: type_entry_def)
  next
    assume "\<exists>s. Some s \<in> set ss \<and> sv_type s = t \<and>
      d = \<lparr>vd_input = sv_input s, vd_output = sv_output s\<rparr>"
    then obtain s where "Some s \<in> set ss" and "(t, d) = type_entry (Some s)"
      by (auto simp: type_entry_def)
    then show "(t, d) \<in> set (map type_entry ss)" by (simp add: image_iff) blast
  qed
  finally show ?thesis .
qed

lemma supports_in_table:
  assumes "\<forall>s\<in>set (vc_supported_types v). supported_ok s"
    and "distinct (map (sv_type \<circ> the) (vc_supported_types v))"
    and "types = map_of (map type_entry (vc_supported_types v))"
  shows "supportsEitherDirection types t \<longleftrightarrow> (\<exists>s. type_support v t s)"
    and "supportsOutput types t \<longleftrightarrow> (\<exists>s. sv_output s \<and> type_support v t s)"
proof -
  note look = types_lookup [OF assms(1,2), folded assms(3)]
  have dirs: "sv_input s \<or> sv_output s" if "Some s \<in> set (vc_supported_types v)" for s
    using assms(1) that by (auto simp: supported_ok_def)
  have "supportsEitherDirection types t \<longleftrightarrow> (\<exists>d. types t = Some d \<and> (vd_input d \<or> vd_output d))"
    by (simp add: supportsEitherDirection_def split: option.splits)
  also have "\<dots> \<longleftrightarrow> (\<exists>s. Some s \<in> set (vc_supported_types v) \<and> sv_type s = t \<and> (sv_input s \<or> sv_output s))"
    unfolding look by force
  finally show "supportsEitherDirection types t \<longleftrightarrow> (\<exists>s. type_support v t s)"
    unfolding type_support_def using dirs by blast
  have "supportsOutput types t \<longleftrightarrow> (\<exists>d. types t = Some d \<and> vd_output d)"
    by (simp add: supportsOutput_def split: option.splits)
  then show "supportsOutput types t \<longleftrightarrow> (\<exists>s. sv_output s \<and> type_support v t s)"
    unfolding look type_support_def by force
qed

lemma check_feature_demands_None:
  assumes "\<forall>s\<in>set (vc_supported_types v). supported_ok s"
    and "distinct (map (sv_type \<circ> the) (vc_supported_types v))"
    and "types = map_of (map type_entry (vc_supported_types v))"
  shows "check_feature_demands v types = None \<longleftrightarrow> (\<forall>f\<in>set (vc_features v). feature_backed v f)"
  unfolding check_feature_demands_def
  by (auto simp: supports_in_table [OF assms] missing_limit_set feature_backed_def)

lemma validateValueCapabilities_None:
  "validateValueCapabilities (Some v) = None \<longleftrightarrow> value_capabilities_ok v"
proof (cases "collect_supported_types 0 Map.empty (vc_supported_types v)")
  case (Inl e)
  then have "\<not> ((\<forall>s\<in>set (vc_supported_types v). supported_ok s) \<and>
      distinct (map (sv_type \<circ> the) (vc_supported_types v)))"
    using collect_supported_types_Inr [of 0 Map.empty "vc_supported_types v"] by auto
  with Inl show ?thesis by (auto simp: validateValueCapabilities_def value_capabilities_ok_def)
next
  case (Inr types)
  then have ok: "\<forall>s\<in>set (vc_supported_types v). supported_ok s"
    "distinct (map (sv_type \<circ> the) (vc_supported_types v))"
    "types = map_of (map type_entry (vc_supported_types v))"
    using collect_supported_types_Inr [of 0 Map.empty "vc_supported_types v" types] by auto
  have "validateValueCapabilities (Some v) = None \<longleftrightarrow>
      check_features 0 {} (vc_features v) = None \<and> check_feature_demands v types = None"
    using Inr by (simp add: validateValueCapabilities_def)
  also have "\<dots> \<longleftrightarrow> value_capabilities_ok v"
    unfolding check_feature_demands_None [OF ok] value_capabilities_ok_def check_features_None
    using ok(1,2) by blast
  finally show ?thesis .
qed

lemma validateTransactionCapabilities_None:
  "validateTransactionCapabilities (Some t) = None \<longleftrightarrow> recovery_ok t"
  by (auto simp: validateTransactionCapabilities_def recovery_ok_def check_simps split: option.splits)

lemma validateProviderCapabilities_None [check_simps]:
  "validateProviderCapabilities c = None \<longleftrightarrow> capabilities_ok c"
proof -
  have "validateTransactionCapabilities x = None \<longleftrightarrow> (\<forall>t. x = Some t \<longrightarrow> recovery_ok t)" for x
    by (cases x) (simp_all add: validateTransactionCapabilities_None, simp add: validateTransactionCapabilities_def)
  moreover have "validateAggregateCapabilities x = None \<longleftrightarrow> (\<forall>fs. x = Some fs \<longrightarrow> aggregates_ok fs)" for x
    by (auto simp: validateAggregateCapabilities_def check_aggregate_functions_None split: option.splits)
  moreover have "validateValueCapabilities x = None \<longleftrightarrow> (\<forall>v. x = Some v \<longrightarrow> value_capabilities_ok v)" for x
    by (cases x) (simp_all add: validateValueCapabilities_None, simp add: validateValueCapabilities_def)
  ultimately show ?thesis
    by (simp add: validateProviderCapabilities_def capabilities_ok_def)
qed

definition advertised_manager :: "capabilities \<Rightarrow> string option" where
  "advertised_manager c =
     (case c_transactions c of
        None \<Rightarrow> None
      | Some t \<Rightarrow>
          (case tc_recovery t of
             None \<Rightarrow> None
           | Some r \<Rightarrow> if rc_supported r then Some (rc_resource_manager_id r) else None))"

lemma validateTransactionRecoveryImplementation_None [check_simps]:
  "validateTransactionRecoveryImplementation c manager = None \<longleftrightarrow>
     manager = advertised_manager c \<and> (\<forall>m. manager = Some m \<longrightarrow> manager_id_ok m)"
  by (auto simp: validateTransactionRecoveryImplementation_def advertised_manager_def check_simps
      split: option.splits)

section \<open>Properties\<close>

definition lob_capabilities :: capabilities where
  "lob_capabilities =
     \<lparr>c_transactions = Some \<lparr>tc_supported = True,
        tc_recovery = Some \<lparr>rc_supported = True, rc_resource_manager_id = ''rm-1''\<rparr>\<rparr>,
      c_aggregate_functions = Some [AGGREGATE_FUNCTION_COUNT_STAR, AGGREGATE_FUNCTION_SUM],
      c_values = Some
        \<lparr>vc_supported_types = [Some \<lparr>sv_type = VALUE_TYPE_BLOB, sv_input = False, sv_output = True\<rparr>],
         vc_features = [LobReadV1], vc_max_array_dimensions = None,
         vc_max_lob_chunk_bytes = Some 65536, vc_max_lob_bytes = Some 1048576,
         vc_lob_reference_retention_seconds = Some 60\<rparr>\<rparr>"

text \<open>
  C33: The SDK passes a provider's capabilities on exactly when they are consistent:
  declared types known, directed and not repeated; feature names canonical and not repeated,
  each of the three registry features with the limits and the types it needs; aggregate
  functions known and not repeated; and a canonical resource manager identity exactly when
  recovery is supported, on top of transactions.
\<close>

theorem capabilities_exact:
  "validateProviderCapabilities c = None \<longleftrightarrow>
     (\<forall>t. c_transactions c = Some t \<longrightarrow> recovery_ok t) \<and>
     (\<forall>fs. c_aggregate_functions c = Some fs \<longrightarrow> aggregates_ok fs) \<and>
     (\<forall>v. c_values c = Some v \<longrightarrow> value_capabilities_ok v)"
  unfolding validateProviderCapabilities_None capabilities_ok_def by (rule refl)

theorem capabilities_exact_witness:
  "validateProviderCapabilities lob_capabilities = None \<and>
   (\<exists>v. c_values lob_capabilities = Some v \<and> value_capabilities_ok v)"
proof -
  have "validateProviderCapabilities lob_capabilities = None"
    unfolding lob_capabilities_def LobReadV1_def by code_simp
  moreover have "\<exists>v. c_values lob_capabilities = Some v" by (simp add: lob_capabilities_def)
  ultimately show ?thesis
    using capabilities_exact [of lob_capabilities] by blast
qed

text \<open>
  A branch identifier is accepted exactly when it names the provider's own resource
  manager, canonically and in at most 256 bytes, and holds between 1 and 256 bytes; and the
  keys under which accepted branches are remembered tell different branches apart.
\<close>

theorem branch_identity_exact:
  "(validateTransactionBranchID x m = Inr b \<longleftrightarrow>
      x = Some b \<and> br_resource_manager_id b = m \<and> manager_id_ok m \<and>
      0 < length (br_branch_id b) \<and> length (br_branch_id b) \<le> 256) \<and>
   (validateTransactionBranchID x m = Inr b \<and> validateTransactionBranchID y m = Inr c \<longrightarrow>
      (transactionBranchKey b = transactionBranchKey c \<longleftrightarrow> b = c))"
  by (auto simp: check_simps transactionBranchKey_inject)

theorem branch_identity_exact_witness:
  "transactionBranchKey \<lparr>br_resource_manager_id = ''rm'', br_branch_id = ''a''\<rparr> \<noteq>
   transactionBranchKey \<lparr>br_resource_manager_id = ''rm'', br_branch_id = ''b''\<rparr>"
proof -
  have "validateTransactionBranchID (Some \<lparr>br_resource_manager_id = ''rm'', br_branch_id = ''a''\<rparr>) ''rm'' =
      Inr \<lparr>br_resource_manager_id = ''rm'', br_branch_id = ''a''\<rparr>"
    "validateTransactionBranchID (Some \<lparr>br_resource_manager_id = ''rm'', br_branch_id = ''b''\<rparr>) ''rm'' =
      Inr \<lparr>br_resource_manager_id = ''rm'', br_branch_id = ''b''\<rparr>"
    by code_simp+
  from branch_identity_exact [THEN conjunct2, THEN mp, OF conjI [OF this]] show ?thesis
    by simp
qed

end
