(* ===== verification/CacheState.thy ===== *)
theory CacheState
  imports MemoryStore Capabilities
begin

text \<open>
  \<open>sdk-go/provider/cache/state.go\<close> and the configuration and entity keys of
  \<open>cache/cache.go\<close>: generations of entities, invalidation through declared dependencies, and
  invalidations that wait for the resolution of a prepared branch.

  Generations are 64-bit words and wrap around. A Go map that is only read through its keys is
  an association list; where the source ranges over a map, the result is shown not to depend
  on the order. \<open>up\<close> is the Unicode table behind \<open>strings.ToUpper\<close>.
\<close>

section \<open>Entity keys\<close>

definition normalizedEntityKey :: "(string \<Rightarrow> string) \<Rightarrow> entity_reference option \<Rightarrow> cache_reason + string" where
  "normalizedEntityKey up entity =
     (case entity of
        None \<Rightarrow> Inl EntityRequired
      | Some er \<Rightarrow>
          (let name = toUpper up (trimSpace (er_name er)) in
           if name = [] then Inl EntityNameRequired
           else Inr (sized (er_namespace er) @ ''/'' @ sized name)))"

lemma normalizedEntityKey_inject:
  assumes "normalizedEntityKey up x = Inr k" and "normalizedEntityKey up y = Inr k"
  shows "\<exists>a b. x = Some a \<and> y = Some b \<and> er_namespace a = er_namespace b \<and>
    toUpper up (trimSpace (er_name a)) = toUpper up (trimSpace (er_name b))"
proof -
  from assms obtain a b where ab: "x = Some a" "y = Some b"
    and k: "k = sized (er_namespace a) @ ''/'' @ sized (toUpper up (trimSpace (er_name a)))"
      "k = sized (er_namespace b) @ ''/'' @ sized (toUpper up (trimSpace (er_name b)))"
    by (auto simp: normalizedEntityKey_def Let_def split: option.splits if_splits)
  have "sized (er_namespace a) @ (''/'' @ sized (toUpper up (trimSpace (er_name a)))) =
      sized (er_namespace b) @ (''/'' @ sized (toUpper up (trimSpace (er_name b))))"
    using k by simp
  then have "er_namespace a = er_namespace b \<and>
      ''/'' @ sized (toUpper up (trimSpace (er_name a))) = ''/'' @ sized (toUpper up (trimSpace (er_name b)))"
    by (rule sized_inject [THEN iffD1])
  then have ns: "er_namespace a = er_namespace b"
    and "sized (toUpper up (trimSpace (er_name a))) = sized (toUpper up (trimSpace (er_name b)))"
    by simp_all
  then have "toUpper up (trimSpace (er_name a)) = toUpper up (trimSpace (er_name b))"
    using sized_inject [of "toUpper up (trimSpace (er_name a))" "[]" "toUpper up (trimSpace (er_name b))" "[]"] by simp
  with ab ns show ?thesis by blast
qed

lemma normalizedEntityKey_nonempty: "normalizedEntityKey up x = Inr k \<Longrightarrow> k \<noteq> []"
  by (auto simp: normalizedEntityKey_def Let_def sized_def split: option.splits if_splits)

section \<open>Configuration\<close>

record dependency =
  dep_entity :: "entity_reference option"
  dep_dependents :: "entity_reference option list"

record cache_config =
  cf_ttl :: int
  cf_max_entries :: int
  cf_max_bytes :: int
  cf_max_entry_bytes :: int
  cf_dependencies :: "dependency list"

type_synonym dependencies = "(string \<times> string list) list"

record normalized_config =
  nf_ttl :: int
  nf_max_entries :: int
  nf_max_bytes :: int
  nf_max_entry_bytes :: int
  nf_dependencies :: dependencies

definition dependents :: "dependencies \<Rightarrow> string \<Rightarrow> string list" where
  "dependents deps e = (case map_of deps e of None \<Rightarrow> [] | Some ds \<Rightarrow> ds)"

text \<open>\<open>normalized[entity] = append(normalized[entity], dependent)\<close>.\<close>

definition append_dependent :: "string \<Rightarrow> string \<Rightarrow> dependencies \<Rightarrow> dependencies" where
  "append_dependent e d deps =
     (e, dependents deps e @ [d]) # filter (\<lambda>(x, _). x \<noteq> e) deps"

fun add_dependents ::
  "(string \<Rightarrow> string) \<Rightarrow> string \<Rightarrow> string set \<Rightarrow> entity_reference option list \<Rightarrow> dependencies \<Rightarrow> dependencies" where
  "add_dependents up e seen [] deps = deps"
| "add_dependents up e seen (r # rs) deps =
     (case normalizedEntityKey up r of
        Inl _ \<Rightarrow> add_dependents up e seen rs deps
      | Inr d \<Rightarrow>
          if d = e \<or> d \<in> seen then add_dependents up e seen rs deps
          else add_dependents up e (insert d seen) rs (append_dependent e d deps))"

fun normalizeDependencies :: "(string \<Rightarrow> string) \<Rightarrow> dependency list \<Rightarrow> dependencies \<Rightarrow> dependencies" where
  "normalizeDependencies up [] deps = deps"
| "normalizeDependencies up (x # xs) deps =
     (case normalizedEntityKey up (dep_entity x) of
        Inl _ \<Rightarrow> normalizeDependencies up xs deps
      | Inr e \<Rightarrow> normalizeDependencies up xs (add_dependents up e {} (dep_dependents x) deps))"

definition defaultTTL :: int where "defaultTTL = 30000000000"
definition defaultMaxEntries :: int where "defaultMaxEntries = 1024"
definition defaultMaxBytes :: int where "defaultMaxBytes = 67108864"
definition defaultMaxEntryBytes :: int where "defaultMaxEntryBytes = 8388608"

definition normalizeConfig :: "(string \<Rightarrow> string) \<Rightarrow> cache_config \<Rightarrow> normalized_config" where
  "normalizeConfig up c =
     (let ttl = (if cf_ttl c \<le> 0 then defaultTTL else cf_ttl c);
          maxEntries = (if cf_max_entries c \<le> 0 then defaultMaxEntries else cf_max_entries c);
          maxBytes = (if cf_max_bytes c \<le> 0 then defaultMaxBytes else cf_max_bytes c);
          entryBytes = (if cf_max_entry_bytes c \<le> 0 then defaultMaxEntryBytes else cf_max_entry_bytes c)
      in \<lparr>nf_ttl = ttl, nf_max_entries = maxEntries, nf_max_bytes = maxBytes,
          nf_max_entry_bytes = (if entryBytes > maxBytes then maxBytes else entryBytes),
          nf_dependencies = normalizeDependencies up (cf_dependencies c) []\<rparr>)"

section \<open>State\<close>

record branch_invalidation =
  bi_entities :: "string list"
  bi_all :: bool

record cache_state =
  cs_store :: memory_store
  cs_global :: "64 word"
  cs_entities :: "string \<rightharpoonup> 64 word"
  cs_max_entry_bytes :: int
  cs_dependencies :: dependencies
  cs_branches :: "string \<rightharpoonup> branch_invalidation"

definition newCacheState :: "normalized_config \<Rightarrow> cache_state" where
  "newCacheState c =
     \<lparr>cs_store = newMemoryStore (nf_max_entries c) (nf_max_bytes c) (nf_ttl c), cs_global = 0,
      cs_entities = Map.empty, cs_max_entry_bytes = nf_max_entry_bytes c,
      cs_dependencies = nf_dependencies c, cs_branches = Map.empty\<rparr>"

text \<open>\<open>s.entityGenerations[entity]\<close> is zero for an entity that was never invalidated.\<close>

definition entity_generation :: "cache_state \<Rightarrow> string \<Rightarrow> 64 word" where
  "entity_generation s e = (case cs_entities s e of None \<Rightarrow> 0 | Some g \<Rightarrow> g)"

definition generation :: "cache_state \<Rightarrow> string \<Rightarrow> 64 word \<times> 64 word" where
  "generation s e = (cs_global s, entity_generation s e)"

definition capture_key :: "cache_state \<Rightarrow> string \<Rightarrow> bytes \<Rightarrow> query_key" where
  "capture_key s e digest =
     \<lparr>qk_entity = e, qk_digest = digest, qk_global = fst (generation s e), qk_generation = snd (generation s e)\<rparr>"

definition lookup ::
  "cache_state \<Rightarrow> string \<Rightarrow> bytes \<Rightarrow> int \<Rightarrow> query_key \<times> cached_result option \<times> cache_state" where
  "lookup s e digest now =
     (let capture = capture_key s e digest in
      case get (cs_store s) capture now of (result, store) \<Rightarrow> (capture, result, s\<lparr>cs_store := store\<rparr>))"

definition storeIfCurrent :: "cache_state \<Rightarrow> query_key \<Rightarrow> cached_result \<Rightarrow> int \<Rightarrow> cache_state option" where
  "storeIfCurrent s capture result now =
     (if cr_size result > cs_max_entry_bytes s then Some s
      else if generation s (qk_entity capture) \<noteq> (qk_global capture, qk_generation capture) then Some s
      else map_option (\<lambda>store. s\<lparr>cs_store := store\<rparr>) (set_result (cs_store s) capture result now))"

section \<open>Invalidation\<close>

definition universe :: "dependencies \<Rightarrow> string list \<Rightarrow> string set" where
  "universe deps queue = set queue \<union> (\<Union>(_, ds)\<in>set deps. set ds)"

lemma finite_universe: "finite (universe deps queue)"
  by (auto simp: universe_def)

lemma dependents_universe: "set (dependents deps e) \<subseteq> universe deps queue"
  by (cases "map_of deps e") (force simp: universe_def dependents_def dest: map_of_SomeD)+

function expand :: "dependencies \<Rightarrow> string list \<Rightarrow> string set \<Rightarrow> string list \<Rightarrow> string list" where
  "expand deps [] seen expanded = expanded"
| "expand deps (e # queue) seen expanded =
     (if e = [] \<or> e \<in> seen then expand deps queue seen expanded
      else expand deps (queue @ dependents deps e) (insert e seen) (expanded @ [e]))"
  by pat_completeness auto
termination
proof (relation "measures [\<lambda>(deps, queue, seen, _). card (universe deps queue - seen), \<lambda>(_, queue, _, _). length queue]",
    goal_cases)
  case 1
  show ?case by simp
next
  case (2 deps e queue seen expanded)
  have "card (universe deps queue - seen) \<le> card (universe deps (e # queue) - seen)"
    by (rule card_mono) (auto simp: finite_universe universe_def)
  then show ?case by auto
next
  case (3 deps e queue seen expanded)
  have "universe deps (queue @ dependents deps e) - insert e seen \<subset> universe deps (e # queue) - seen"
    using 3 dependents_universe [of deps e queue] by (auto simp: universe_def)
  then show ?case by (auto intro!: psubset_card_mono simp: finite_universe)
qed

definition expandEntities :: "dependencies \<Rightarrow> string list \<Rightarrow> string list" where
  "expandEntities deps entities = expand deps entities {} []"

definition bump :: "string \<Rightarrow> cache_state \<Rightarrow> cache_state" where
  "bump e s = s\<lparr>cs_entities := (cs_entities s)(e \<mapsto> entity_generation s e + 1)\<rparr>"

definition invalidateEntities :: "string list \<Rightarrow> cache_state \<Rightarrow> cache_state" where
  "invalidateEntities entities s = fold bump (expandEntities (cs_dependencies s) entities) s"

definition invalidateAll :: "cache_state \<Rightarrow> cache_state" where
  "invalidateAll s = s\<lparr>cs_global := cs_global s + 1\<rparr>"

section \<open>Prepared branches\<close>

definition cachedBranchKey :: "branch_id \<Rightarrow> string" where
  "cachedBranchKey b = br_resource_manager_id b @ [CHR 0x00] @ br_branch_id b"

definition retainBranchInvalidation ::
  "branch_id \<Rightarrow> string list \<Rightarrow> bool \<Rightarrow> cache_state \<Rightarrow> cache_state" where
  "retainBranchInvalidation b entities all s =
     (let key = cachedBranchKey b;
          previous = (case cs_branches s key of None \<Rightarrow> \<lparr>bi_entities = [], bi_all = False\<rparr> | Some p \<Rightarrow> p);
          retained =
            (if all \<or> bi_all previous then \<lparr>bi_entities = [], bi_all = True\<rparr>
             else \<lparr>bi_entities = remdups (bi_entities previous @ entities), bi_all = False\<rparr>)
      in s\<lparr>cs_branches := (cs_branches s)(key \<mapsto> retained)\<rparr>)"

definition resolveBranchInvalidation :: "branch_id \<Rightarrow> bool \<Rightarrow> cache_state \<Rightarrow> cache_state" where
  "resolveBranchInvalidation b invalidate s =
     (let key = cachedBranchKey b;
          s1 = s\<lparr>cs_branches := (cs_branches s)(key := None)\<rparr>
      in if \<not> invalidate then s1
         else
           (case cs_branches s key of
              None \<Rightarrow> invalidateAll s1
            | Some pending \<Rightarrow>
                if bi_all pending then invalidateAll s1
                else if bi_entities pending \<noteq> [] then invalidateEntities (bi_entities pending) s1
                else s1))"

definition discardBranchInvalidation :: "branch_id \<Rightarrow> cache_state \<Rightarrow> cache_state" where
  "discardBranchInvalidation b s = s\<lparr>cs_branches := (cs_branches s)(cachedBranchKey b := None)\<rparr>"

section \<open>The closure of an invalidation\<close>

text \<open>
  The entities affected by a change: the changed ones and, transitively, the declared
  dependents.
\<close>

inductive affected :: "dependencies \<Rightarrow> string set \<Rightarrow> string \<Rightarrow> bool" for deps es where
  changed: "e \<in> es \<Longrightarrow> e \<noteq> [] \<Longrightarrow> affected deps es e"
| dependent: "affected deps es d \<Longrightarrow> e \<in> set (dependents deps d) \<Longrightarrow> e \<noteq> [] \<Longrightarrow> affected deps es e"

lemma expand_closure:
  assumes "distinct expanded" and "set expanded = seen" and "[] \<notin> seen"
    and "\<And>d e. d \<in> seen \<Longrightarrow> e \<in> set (dependents deps d) \<Longrightarrow> e \<noteq> [] \<Longrightarrow> e \<in> seen \<union> set queue"
    and "\<And>e. e \<in> seen \<union> set queue \<Longrightarrow> e \<noteq> [] \<Longrightarrow> affected deps es e"
    and "\<And>e. e \<in> es \<Longrightarrow> e \<noteq> [] \<Longrightarrow> e \<in> seen \<union> set queue"
  shows "distinct (expand deps queue seen expanded) \<and> (\<forall>e. e \<in> set (expand deps queue seen expanded) \<longleftrightarrow> affected deps es e)"
  using assms
proof (induction deps queue seen expanded rule: expand.induct)
  case (1 deps seen expanded)
  have "e \<in> seen" if "affected deps es e" for e
    using that
  proof (induction rule: affected.induct)
    case (changed e)
    then show ?case using 1(6) [of e] by simp
  next
    case (dependent d e)
    then show ?case using 1(4) [of d e] by simp
  qed
  moreover have "affected deps es e" if "e \<in> seen" for e
    using 1(5) [of e] 1(3) that by auto
  ultimately show ?case using 1(1,2) by auto
next
  case (2 deps e queue seen expanded)
  show ?case
  proof (cases "e = [] \<or> e \<in> seen")
    case True
    have "distinct (expand deps queue seen expanded) \<and>
        (\<forall>x. x \<in> set (expand deps queue seen expanded) \<longleftrightarrow> affected deps es x)"
    proof (rule 2(1) [OF True 2(3,4,5)])
      show "x \<in> seen \<union> set queue" if "d \<in> seen" "x \<in> set (dependents deps d)" "x \<noteq> []" for d x
        using 2(6) [OF that] True that(3) by auto
      show "affected deps es x" if "x \<in> seen \<union> set queue" "x \<noteq> []" for x
        using 2(7) [of x] that by auto
      show "x \<in> seen \<union> set queue" if "x \<in> es" "x \<noteq> []" for x
        using 2(8) [OF that] True that(2) by auto
    qed
    with True show ?thesis by simp
  next
    case False
    have "distinct (expand deps (queue @ dependents deps e) (insert e seen) (expanded @ [e])) \<and>
        (\<forall>x. x \<in> set (expand deps (queue @ dependents deps e) (insert e seen) (expanded @ [e])) \<longleftrightarrow> affected deps es x)"
    proof (rule 2(2) [OF False])
      show "distinct (expanded @ [e])" "set (expanded @ [e]) = insert e seen" "[] \<notin> insert e seen"
        using 2(3,4,5) False by auto
      show "x \<in> insert e seen \<union> set (queue @ dependents deps e)"
        if "d \<in> insert e seen" "x \<in> set (dependents deps d)" "x \<noteq> []" for d x
        using that 2(6) [of d x] by auto
      show "affected deps es x" if "x \<in> insert e seen \<union> set (queue @ dependents deps e)" "x \<noteq> []" for x
      proof (cases "x \<in> set (dependents deps e)")
        case True
        have "affected deps es e" using 2(7) [of e] False by auto
        from affected.dependent [OF this True that(2)] show ?thesis .
      next
        case no: False
        with that 2(7) [of x] show ?thesis by auto
      qed
      show "x \<in> insert e seen \<union> set (queue @ dependents deps e)" if "x \<in> es" "x \<noteq> []" for x
        using 2(8) [OF that] by auto
    qed
    with False show ?thesis by simp
  qed
qed

lemma expandEntities_affected:
  "distinct (expandEntities deps es)" "e \<in> set (expandEntities deps es) \<longleftrightarrow> affected deps (set es) e"
proof -
  have "distinct (expand deps es {} []) \<and> (\<forall>e. e \<in> set (expand deps es {} []) \<longleftrightarrow> affected deps (set es) e)"
    by (rule expand_closure) (auto intro: affected.changed)
  then show "distinct (expandEntities deps es)" "e \<in> set (expandEntities deps es) \<longleftrightarrow> affected deps (set es) e"
    by (simp_all add: expandEntities_def)
qed

lemma fold_bump:
  "distinct es \<Longrightarrow>
   entity_generation (fold bump es s) e = entity_generation s e + (if e \<in> set es then 1 else 0)"
proof (induction es arbitrary: s)
  case (Cons x es)
  have "entity_generation (bump x s) e = entity_generation s e + (if e = x then 1 else 0)"
    by (auto simp: bump_def entity_generation_def)
  with Cons show ?case by auto
qed simp

lemma fold_bump_rest [simp]:
  "cs_store (fold bump es s) = cs_store s" "cs_global (fold bump es s) = cs_global s"
  "cs_max_entry_bytes (fold bump es s) = cs_max_entry_bytes s"
  "cs_dependencies (fold bump es s) = cs_dependencies s" "cs_branches (fold bump es s) = cs_branches s"
  by (induction es arbitrary: s) (simp_all add: bump_def)

text \<open>An invalidation moves the generation of exactly the affected entities by one.\<close>

lemma invalidateEntities_generation:
  "entity_generation (invalidateEntities es s) e =
     entity_generation s e + (if affected (cs_dependencies s) (set es) e then 1 else 0)"
  unfolding invalidateEntities_def fold_bump [OF expandEntities_affected(1)]
  by (simp add: expandEntities_affected(2))

lemma invalidateEntities_rest [simp]:
  "cs_store (invalidateEntities es s) = cs_store s" "cs_global (invalidateEntities es s) = cs_global s"
  "cs_max_entry_bytes (invalidateEntities es s) = cs_max_entry_bytes s"
  "cs_dependencies (invalidateEntities es s) = cs_dependencies s"
  "cs_branches (invalidateEntities es s) = cs_branches s"
  by (simp_all add: invalidateEntities_def)

lemma affected_mono: "affected deps es e \<Longrightarrow> es \<subseteq> fs \<Longrightarrow> affected deps fs e"
  by (induction rule: affected.induct) (auto intro: affected.intros)

section \<open>Configuration bounds\<close>

lemma normalizeConfig_bounds:
  "0 < nf_ttl (normalizeConfig up c)" "0 < nf_max_entries (normalizeConfig up c)"
  "0 < nf_max_bytes (normalizeConfig up c)" "0 < nf_max_entry_bytes (normalizeConfig up c)"
  "nf_max_entry_bytes (normalizeConfig up c) \<le> nf_max_bytes (normalizeConfig up c)"
  by (simp_all add: normalizeConfig_def Let_def defaultTTL_def defaultMaxEntries_def defaultMaxBytes_def
      defaultMaxEntryBytes_def)

definition state_ok :: "cache_state \<Rightarrow> bool" where
  "state_ok s \<longleftrightarrow> store_ok (cs_store s)"

lemma newCacheState_ok: "state_ok (newCacheState (normalizeConfig up c))"
  using normalizeConfig_bounds [of up c]
  by (simp add: state_ok_def newCacheState_def newMemoryStore_ok)

section \<open>Properties\<close>

text \<open>
  Entity keys are exact. \<open>normalizedEntityKey\<close> fails for a missing entity and for a name that is
  blank after trimming; otherwise two references get the same key just when their namespaces are equal
  and their names are equal after trimming and folding to upper case, whatever characters they contain.
\<close>

theorem entity_keys_exact:
  "((\<exists>k. normalizedEntityKey up x = Inr k) \<longleftrightarrow> (\<exists>a. x = Some a \<and> toUpper up (trimSpace (er_name a)) \<noteq> [])) \<and>
   ((\<exists>k. normalizedEntityKey up (Some a) = Inr k \<and> normalizedEntityKey up (Some b) = Inr k) \<longleftrightarrow>
     toUpper up (trimSpace (er_name a)) \<noteq> [] \<and> er_namespace a = er_namespace b \<and>
     toUpper up (trimSpace (er_name a)) = toUpper up (trimSpace (er_name b)))"
proof (intro conjI iffI)
  show "\<exists>a. x = Some a \<and> toUpper up (trimSpace (er_name a)) \<noteq> []" if "\<exists>k. normalizedEntityKey up x = Inr k"
    using that by (auto simp: normalizedEntityKey_def Let_def split: option.splits if_splits)
  show "\<exists>k. normalizedEntityKey up x = Inr k" if "\<exists>a. x = Some a \<and> toUpper up (trimSpace (er_name a)) \<noteq> []"
    using that by (auto simp: normalizedEntityKey_def Let_def)
  assume "\<exists>k. normalizedEntityKey up (Some a) = Inr k \<and> normalizedEntityKey up (Some b) = Inr k"
  then obtain k where k: "normalizedEntityKey up (Some a) = Inr k" "normalizedEntityKey up (Some b) = Inr k" by blast
  from k(1) show "toUpper up (trimSpace (er_name a)) \<noteq> []"
    by (auto simp: normalizedEntityKey_def Let_def split: if_splits)
  from normalizedEntityKey_inject [OF k] show "er_namespace a = er_namespace b"
    "toUpper up (trimSpace (er_name a)) = toUpper up (trimSpace (er_name b))" by auto
qed (auto simp: normalizedEntityKey_def Let_def)

text \<open>
  Invalidation is exact and ends. \<open>expandEntities\<close> lists without repetition precisely the entities
  affected through declared dependencies, cycles included, and \<open>invalidateEntities\<close> moves the generation
  of each of them by one and changes nothing else of the state.
\<close>

theorem invalidation_exact:
  "distinct (expandEntities deps es) \<and> set (expandEntities deps es) = Collect (affected deps (set es)) \<and>
   (\<forall>e. entity_generation (invalidateEntities es s) e =
      entity_generation s e + (if affected (cs_dependencies s) (set es) e then 1 else 0)) \<and>
   cs_store (invalidateEntities es s) = cs_store s \<and> cs_global (invalidateEntities es s) = cs_global s \<and>
   cs_branches (invalidateEntities es s) = cs_branches s"
  by (auto simp: expandEntities_affected invalidateEntities_generation)

definition retained_entities :: "cache_state \<Rightarrow> branch_id \<Rightarrow> string set" where
  "retained_entities s b = (case cs_branches s (cachedBranchKey b) of None \<Rightarrow> {} | Some p \<Rightarrow> set (bi_entities p))"

definition retained_all :: "cache_state \<Rightarrow> branch_id \<Rightarrow> bool" where
  "retained_all s b = (case cs_branches s (cachedBranchKey b) of None \<Rightarrow> False | Some p \<Rightarrow> bi_all p)"

definition invalidated :: "cache_state \<Rightarrow> bool \<Rightarrow> string set \<Rightarrow> cache_state \<Rightarrow> bool" where
  "invalidated s all es s' \<longleftrightarrow>
     cs_store s' = cs_store s \<and> cs_dependencies s' = cs_dependencies s \<and>
     cs_global s' = cs_global s + (if all then 1 else 0) \<and>
     (\<forall>e. entity_generation s' e =
        entity_generation s e + (if \<not> all \<and> affected (cs_dependencies s) es e then 1 else 0))"

lemma entity_generation_rest [simp]:
  "entity_generation (s\<lparr>cs_store := st\<rparr>) = entity_generation s"
  "entity_generation (s\<lparr>cs_branches := b\<rparr>) = entity_generation s"
  "entity_generation (s\<lparr>cs_global := g\<rparr>) = entity_generation s"
  by (auto simp: entity_generation_def fun_eq_iff)

lemma no_changes_unaffected [simp]: "\<not> affected deps {} e"
proof
  assume "affected deps {} e"
  then show False by (induction rule: affected.induct) auto
qed

lemma invalidated_entities: "invalidated s False (set es) (invalidateEntities es s)"
  by (simp add: invalidated_def invalidateEntities_generation)

lemma invalidated_all: "invalidated s True es (invalidateAll s)"
  by (simp add: invalidated_def invalidateAll_def)

lemma invalidated_nothing: "invalidated s False {} (s\<lparr>cs_branches := b\<rparr>)"
  by (simp add: invalidated_def)

lemma invalidated_branches: "invalidated (s\<lparr>cs_branches := b\<rparr>) all es s' \<longleftrightarrow> invalidated s all es s'"
  by (simp add: invalidated_def)

lemma resolve_invalidated:
  assumes "cs_branches s (cachedBranchKey b) = Some p"
  shows "invalidated s (bi_all p) (set (bi_entities p)) (resolveBranchInvalidation b True s)"
  using assms invalidated_nothing [of s "(cs_branches s)(cachedBranchKey b := None)"]
    invalidated_entities [of "s\<lparr>cs_branches := (cs_branches s)(cachedBranchKey b := None)\<rparr>" "bi_entities p"]
    invalidated_all [of "s\<lparr>cs_branches := (cs_branches s)(cachedBranchKey b := None)\<rparr>" "set (bi_entities p)"]
  by (auto simp: resolveBranchInvalidation_def Let_def invalidated_branches)

lemma resolve_branches [simp]:
  "cs_branches (resolveBranchInvalidation b c s) = (cs_branches s)(cachedBranchKey b := None)"
  by (auto simp: resolveBranchInvalidation_def Let_def invalidateAll_def split: option.splits)

lemma retained_same: "invalidated (retainBranchInvalidation b es all s) x y s' \<longleftrightarrow> invalidated s x y s'"
proof -
  let ?s = "retainBranchInvalidation b es all s"
  have "?s = s\<lparr>cs_branches := cs_branches ?s\<rparr>" by (simp add: retainBranchInvalidation_def Let_def)
  then show ?thesis by (metis invalidated_branches)
qed

lemma carried_commit:
  "invalidated s (all \<or> retained_all s b) (set es \<union> retained_entities s b)
     (resolveBranchInvalidation b True (retainBranchInvalidation b es all s))"
proof -
  let ?s = "retainBranchInvalidation b es all s"
  have "\<exists>p. cs_branches ?s (cachedBranchKey b) = Some p \<and> (bi_all p \<longleftrightarrow> all \<or> retained_all s b) \<and>
      (bi_all p \<or> set (bi_entities p) = set es \<union> retained_entities s b)"
    by (cases "cs_branches s (cachedBranchKey b)")
      (auto simp: retainBranchInvalidation_def Let_def retained_all_def retained_entities_def)
  then obtain p where p: "cs_branches ?s (cachedBranchKey b) = Some p" and all: "bi_all p \<longleftrightarrow> all \<or> retained_all s b"
      and es: "\<not> bi_all p \<Longrightarrow> set (bi_entities p) = set es \<union> retained_entities s b" by blast
  have any: "invalidated s True x s' \<longleftrightarrow> invalidated s True y s'" for x y s'
    by (simp add: invalidated_def)
  show ?thesis
    using resolve_invalidated [OF p] es
    unfolding retained_same all [symmetric]
    by (cases "bi_all p") (simp_all add: any [of "set (bi_entities p)" _ "set es \<union> retained_entities s b"])
qed

lemma carried_rollback:
  "invalidated s False {} (resolveBranchInvalidation b False (retainBranchInvalidation b es all s))"
  by (simp add: resolveBranchInvalidation_def Let_def retainBranchInvalidation_def invalidated_nothing)

text \<open>
  A prepared branch carries its invalidation to its resolution. Retaining and then resolving a branch
  as possibly committed invalidates everything if everything was pending, now or from an earlier
  preparation, and otherwise exactly what is affected by the pending entities of both; resolving it as
  not committed invalidates nothing; the retained record is gone either way. A branch with no record,
  recovered after a restart, invalidates everything when it may have committed.
\<close>

theorem branch_invalidation_is_carried:
  "invalidated s (all \<or> retained_all s b) (set es \<union> retained_entities s b)
     (resolveBranchInvalidation b True (retainBranchInvalidation b es all s)) \<and>
   invalidated s False {} (resolveBranchInvalidation b False (retainBranchInvalidation b es all s)) \<and>
   cs_branches (resolveBranchInvalidation b c (retainBranchInvalidation b es all s)) =
     (cs_branches s)(cachedBranchKey b := None) \<and>
   invalidated s True {} (resolveBranchInvalidation b True (s\<lparr>cs_branches := (cs_branches s)(cachedBranchKey b := None)\<rparr>))"
  using carried_commit [of s all b es] carried_rollback [of s b es all]
  by (simp add: retainBranchInvalidation_def Let_def)
    (simp add: resolveBranchInvalidation_def Let_def invalidated_def invalidateAll_def)

end
