(* ===== verification/CacheCoherence.thy ===== *)
theory CacheCoherence
  imports CacheState
begin

text \<open>
  Coherence of the cache over all interleavings of its operations. \<open>history_step\<close> runs the
  operations of \<open>CacheState\<close> in any order and keeps, beside the state, a history the program
  does not have: a logical clock, the time of the last invalidation of each entity, unbounded
  counts of the invalidations, and the captures taken and results stored so far. A capture is
  the key a query obtains before it runs, so its time is the time the query started.

  The invariant relates the 64-bit generations to the counts. Its consequence: a hit was
  computed by a query that started after the last invalidation of its entity, as long as
  there were fewer than \<open>2 ^ 64\<close> invalidations.
\<close>

section \<open>Histories\<close>

record history =
  hs_state :: cache_state
  hs_time :: nat
  hs_last :: "string \<Rightarrow> nat"
  hs_global :: nat
  hs_count :: "string \<Rightarrow> nat"
  hs_captures :: "(query_key \<times> nat \<times> nat \<times> nat) set"
  hs_stores :: "(query_key \<times> cached_result \<times> nat) set"

inductive history_step :: "history \<Rightarrow> history \<Rightarrow> bool" where
  lookup: "lookup (hs_state h) e digest now = (k, x, s) \<Longrightarrow>
    history_step h (h\<lparr>hs_state := s, hs_time := Suc (hs_time h),
      hs_captures := insert (k, hs_time h, hs_global h, hs_count h e) (hs_captures h)\<rparr>)"
| store: "(k, t, g, n) \<in> hs_captures h \<Longrightarrow> storable r \<Longrightarrow> storeIfCurrent (hs_state h) k r now = Some s \<Longrightarrow>
    history_step h (h\<lparr>hs_state := s, hs_time := Suc (hs_time h), hs_stores := insert (k, r, t) (hs_stores h)\<rparr>)"
| invalidate: "a = affected (cs_dependencies (hs_state h)) (set es) \<Longrightarrow>
    history_step h (h\<lparr>hs_state := invalidateEntities es (hs_state h), hs_time := Suc (hs_time h),
      hs_last := (\<lambda>e. if a e then Suc (hs_time h) else hs_last h e),
      hs_count := (\<lambda>e. hs_count h e + (if a e then 1 else 0))\<rparr>)"
| invalidate_all:
    "history_step h (h\<lparr>hs_state := invalidateAll (hs_state h), hs_time := Suc (hs_time h),
      hs_last := (\<lambda>_. Suc (hs_time h)), hs_global := Suc (hs_global h)\<rparr>)"
| branches: "history_step h (h\<lparr>hs_state := (hs_state h)\<lparr>cs_branches := b\<rparr>, hs_time := Suc (hs_time h)\<rparr>)"

definition history_init :: "history \<Rightarrow> bool" where
  "history_init h \<longleftrightarrow>
     (\<exists>up c. hs_state h = newCacheState (normalizeConfig up c)) \<and> hs_time h = 0 \<and>
     (\<forall>e. hs_last h e = 0 \<and> hs_count h e = 0) \<and> hs_global h = 0 \<and> hs_captures h = {} \<and> hs_stores h = {}"

text \<open>A capture that is current by the counts was taken after the last invalidation.\<close>

definition capture_ok :: "history \<Rightarrow> query_key \<times> nat \<times> nat \<times> nat \<Rightarrow> bool" where
  "capture_ok h c \<longleftrightarrow>
     (case c of
        (k, t, g, n) \<Rightarrow>
          qk_global k = word_of_nat g \<and> qk_generation k = word_of_nat n \<and> t < hs_time h \<and>
          g \<le> hs_global h \<and> n \<le> hs_count h (qk_entity k) \<and>
          (g = hs_global h \<and> n = hs_count h (qk_entity k) \<longrightarrow> hs_last h (qk_entity k) \<le> t))"

definition stored :: "history \<Rightarrow> query_key \<Rightarrow> cached_result \<Rightarrow> bool" where
  "stored h k r \<longleftrightarrow> (\<exists>t g n. (k, r, t) \<in> hs_stores h \<and> (k, t, g, n) \<in> hs_captures h)"

definition history_inv :: "history \<Rightarrow> bool" where
  "history_inv h \<longleftrightarrow>
     state_ok (hs_state h) \<and> cs_global (hs_state h) = word_of_nat (hs_global h) \<and>
     (\<forall>e. entity_generation (hs_state h) e = word_of_nat (hs_count h e)) \<and>
     (\<forall>e. hs_last h e \<le> hs_time h) \<and>
     (\<forall>c\<in>hs_captures h. capture_ok h c) \<and>
     (\<forall>k r t. (k, r, t) \<in> hs_stores h \<longrightarrow> (\<exists>g n. (k, t, g, n) \<in> hs_captures h)) \<and>
     (\<forall>k r. holds (cs_store (hs_state h)) k r \<longrightarrow> stored h k r)"

lemma lookup_result:
  assumes "lookup s e digest now = (k, x, s')"
  shows "k = capture_key s e digest" "x = fst (get (cs_store s) k now)"
    "s' = s\<lparr>cs_store := snd (get (cs_store s) k now)\<rparr>"
  using assms by (auto simp: lookup_def Let_def split: prod.splits)

lemma capture_key_simps [simp]:
  "qk_entity (capture_key s e d) = e" "qk_digest (capture_key s e d) = d"
  "qk_global (capture_key s e d) = cs_global s" "qk_generation (capture_key s e d) = entity_generation s e"
  by (simp_all add: capture_key_def generation_def)

lemma storeIfCurrent_result:
  assumes "storeIfCurrent s k r now = Some s'"
  shows "s' = s \<or> (\<exists>st. set_result (cs_store s) k r now = Some st \<and> s' = s\<lparr>cs_store := st\<rparr>)"
  using assms by (auto simp: storeIfCurrent_def split: if_splits)

lemma capture_ok_later:
  "capture_ok h c \<Longrightarrow> hs_time h \<le> hs_time h' \<Longrightarrow> hs_last h' = hs_last h \<Longrightarrow> hs_global h' = hs_global h \<Longrightarrow>
   hs_count h' = hs_count h \<Longrightarrow> capture_ok h' c"
  by (auto simp: capture_ok_def)

lemma stored_mono:
  "stored h k r \<Longrightarrow> hs_stores h \<subseteq> hs_stores h' \<Longrightarrow> hs_captures h \<subseteq> hs_captures h' \<Longrightarrow> stored h' k r"
  unfolding stored_def by blast

lemma history_invI [intro?]:
  assumes "state_ok (hs_state h)" and "cs_global (hs_state h) = word_of_nat (hs_global h)"
    and "\<And>e. entity_generation (hs_state h) e = word_of_nat (hs_count h e)"
    and "\<And>e. hs_last h e \<le> hs_time h"
    and "\<And>c. c \<in> hs_captures h \<Longrightarrow> capture_ok h c"
    and "\<And>k r t. (k, r, t) \<in> hs_stores h \<Longrightarrow> \<exists>g n. (k, t, g, n) \<in> hs_captures h"
    and "\<And>k r. holds (cs_store (hs_state h)) k r \<Longrightarrow> stored h k r"
  shows "history_inv h"
  using assms unfolding history_inv_def by blast

lemma history_invD:
  assumes "history_inv h"
  shows "store_ok (cs_store (hs_state h))" "cs_global (hs_state h) = word_of_nat (hs_global h)"
    "entity_generation (hs_state h) e = word_of_nat (hs_count h e)" "hs_last h e \<le> hs_time h"
    "c \<in> hs_captures h \<Longrightarrow> capture_ok h c"
    "(k, r, t) \<in> hs_stores h \<Longrightarrow> \<exists>g n. (k, t, g, n) \<in> hs_captures h"
    "holds (cs_store (hs_state h)) k r \<Longrightarrow> stored h k r"
  using assms unfolding history_inv_def state_ok_def by blast+

lemma capture_ok_bumped:
  assumes "capture_ok h (k, t, g, n)" and "hs_time h \<le> hs_time h'" and "hs_global h \<le> hs_global h'"
    and "hs_count h (qk_entity k) \<le> hs_count h' (qk_entity k)"
    and "hs_global h' = hs_global h \<Longrightarrow> hs_count h' (qk_entity k) = hs_count h (qk_entity k) \<Longrightarrow>
      hs_last h' (qk_entity k) = hs_last h (qk_entity k)"
  shows "capture_ok h' (k, t, g, n)"
  using assms unfolding capture_ok_def by force

lemma step_lookup_inv:
  assumes inv: "history_inv h" and l: "lookup (hs_state h) e digest now = (k, x, s)"
    and h': "h' = h\<lparr>hs_state := s, hs_time := Suc (hs_time h),
      hs_captures := insert (k, hs_time h, hs_global h, hs_count h e) (hs_captures h)\<rparr>"
  shows "history_inv h'"
proof
  note r = lookup_result [OF l] and ok = history_invD(1) [OF inv]
  show "state_ok (hs_state h')" using memory.fetch_ok [OF ok] by (simp add: h' r state_ok_def)
  show "cs_global (hs_state h') = word_of_nat (hs_global h')" by (simp add: h' r history_invD(2) [OF inv])
  show "entity_generation (hs_state h') e = word_of_nat (hs_count h' e)" for e
    by (simp add: h' r history_invD(3) [OF inv])
  show "hs_last h' e \<le> hs_time h'" for e by (simp add: h' le_SucI history_invD(4) [OF inv])
  show "capture_ok h' c" if "c \<in> hs_captures h'" for c
  proof (cases "c \<in> hs_captures h")
    case True
    from history_invD(5) [OF inv this] show ?thesis by (rule capture_ok_later) (simp_all add: h')
  next
    case False
    with that have "c = (k, hs_time h, hs_global h, hs_count h e)" by (simp add: h')
    then show ?thesis
      by (simp add: capture_ok_def h' r(1) history_invD(2-4) [OF inv])
  qed
  show "\<exists>g n. (k', t, g, n) \<in> hs_captures h'" if "(k', q, t) \<in> hs_stores h'" for k' q t
    using history_invD(6) [OF inv, of k' q t] that unfolding h' by auto
  show "stored h' k' r'" if "holds (cs_store (hs_state h')) k' r'" for k' r'
  proof (rule stored_mono)
    from that have "holds (snd (get (cs_store (hs_state h)) k now)) k' r'" by (simp add: h' r)
    then show "stored h k' r'"
      by (rule memory.fetch_all [OF ok, of "stored h", rotated]) (rule history_invD(7) [OF inv])
  qed (auto simp: h')
qed

lemma step_store_inv:
  assumes inv: "history_inv h" and c: "(k, t, g, n) \<in> hs_captures h" and storable: "storable r"
    and w: "storeIfCurrent (hs_state h) k r now = Some s"
    and h': "h' = h\<lparr>hs_state := s, hs_time := Suc (hs_time h), hs_stores := insert (k, r, t) (hs_stores h)\<rparr>"
  shows "history_inv h'"
proof
  note ok = history_invD(1) [OF inv] and res = storeIfCurrent_result [OF w]
  have old: "stored h' k' r'" if "stored h k' r'" for k' r'
    using that by (rule stored_mono) (auto simp: h')
  have new: "stored h' k r" using c by (auto simp: stored_def h')
  have all: "stored h' k' r'" if "holds (cs_store (hs_state h)) k' r'" for k' r'
    by (rule old, rule history_invD(7) [OF inv that])
  show "state_ok (hs_state h')"
    using res memory.put_returns [OF ok storable, of k now] ok by (auto simp: h' state_ok_def)
  show "cs_global (hs_state h') = word_of_nat (hs_global h')"
    using res by (auto simp: h' history_invD(2) [OF inv])
  show "entity_generation (hs_state h') e = word_of_nat (hs_count h' e)" for e
    using res by (auto simp: h' history_invD(3) [OF inv])
  show "hs_last h' e \<le> hs_time h'" for e by (simp add: h' le_SucI history_invD(4) [OF inv])
  show "capture_ok h' c'" if "c' \<in> hs_captures h'" for c'
    by (rule capture_ok_later [of h], rule history_invD(5) [OF inv]) (use that in \<open>simp_all add: h'\<close>)
  show "\<exists>g n. (k', t', g, n) \<in> hs_captures h'" if "(k', q, t') \<in> hs_stores h'" for k' q t'
    using history_invD(6) [OF inv, of k' q t'] that c unfolding h' by auto
  show "stored h' k' r'" if held: "holds (cs_store (hs_state h')) k' r'" for k' r'
    using res
  proof
    assume "s = hs_state h"
    with held show ?thesis by (intro all) (simp add: h')
  next
    assume "\<exists>st. set_result (cs_store (hs_state h)) k r now = Some st \<and> s = (hs_state h)\<lparr>cs_store := st\<rparr>"
    then obtain st where st: "set_result (cs_store (hs_state h)) k r now = Some st" "cs_store s = st" by auto
    from held st(2) have "holds st k' r'" by (simp add: h')
    then show ?thesis
      by (rule memory.put_all [OF ok storable st(1), of "stored h'", rotated 2]) (rule all new; assumption?)+
  qed
qed

lemma step_bump_inv:
  assumes inv: "history_inv h"
    and same: "cs_store (hs_state h') = cs_store (hs_state h)" "hs_captures h' = hs_captures h" "hs_stores h' = hs_stores h"
    and "cs_global (hs_state h') = word_of_nat (hs_global h')"
    and "\<And>e. entity_generation (hs_state h') e = word_of_nat (hs_count h' e)"
    and "\<And>e. hs_last h' e \<le> hs_time h'"
    and "hs_time h \<le> hs_time h'" "hs_global h \<le> hs_global h'" "\<And>e. hs_count h e \<le> hs_count h' e"
    and "\<And>e. hs_global h' = hs_global h \<Longrightarrow> hs_count h' e = hs_count h e \<Longrightarrow> hs_last h' e = hs_last h e"
  shows "history_inv h'"
proof
  show "state_ok (hs_state h')" using history_invD(1) [OF inv] by (simp add: state_ok_def same)
  show "capture_ok h' c" if "c \<in> hs_captures h'" for c
  proof (cases c)
    case (fields k t g n)
    with that have "capture_ok h (k, t, g, n)" using history_invD(5) [OF inv] by (simp add: same)
    then show ?thesis unfolding fields by (rule capture_ok_bumped) (use assms in blast)+
  qed
  show "\<exists>g n. (k, t, g, n) \<in> hs_captures h'" if "(k, q, t) \<in> hs_stores h'" for k q t
    using history_invD(6) [OF inv, of k q t] that by (simp add: same)
  show "stored h' k r" if "holds (cs_store (hs_state h')) k r" for k r
    using history_invD(7) [OF inv, of k r] that by (simp add: same stored_def)
qed (rule assms)+

lemma history_step_inv:
  assumes inv: "history_inv h" and "history_step h h'"
  shows "history_inv h'"
  using assms(2)
proof cases
  case (lookup e digest now k x s)
  from step_lookup_inv [OF inv lookup(2,1)] show ?thesis .
next
  case (store k t g n r now s)
  from step_store_inv [OF inv store(2-4,1)] show ?thesis .
next
  case (invalidate a es)
  show ?thesis
    by (rule step_bump_inv [OF inv])
      (simp_all add: invalidate invalidateEntities_generation le_SucI history_invD(2-4) [OF inv] split: if_splits)
next
  case invalidate_all
  show ?thesis
    by (rule step_bump_inv [OF inv])
      (simp_all add: invalidate_all invalidateAll_def history_invD(2-4) [OF inv])
next
  case (branches b)
  show ?thesis
    by (rule step_bump_inv [OF inv]) (simp_all add: branches le_SucI history_invD(2-4) [OF inv])
qed

interpretation cache_history: transition_invariant history_init history_step history_inv
proof
  show "history_inv h" if init: "history_init h" for h
  proof -
    obtain up c where s: "hs_state h = newCacheState (normalizeConfig up c)"
      using init by (auto simp: history_init_def)
    have "\<not> holds (cs_store (hs_state h)) k r" for k r
      by (simp add: s holds_def newCacheState_def newMemoryStore_def lru_def)
    moreover have "cs_global (hs_state h) = 0" "entity_generation (hs_state h) e = 0" for e
      by (simp_all add: s newCacheState_def entity_generation_def)
    ultimately show ?thesis
      using init newCacheState_ok [of up c] s by (simp add: history_init_def history_inv_def)
  qed
qed (rule history_step_inv)

section \<open>Coherence\<close>

lemma word_count_eq:
  assumes "(word_of_nat m :: 64 word) = word_of_nat n" and "m \<le> n" and "n < 2 ^ 64"
  shows "m = n"
proof -
  have u: "unat (word_of_nat i :: 64 word) = i" if "i < 2 ^ 64" for i
    by (rule of_nat_inverse [OF refl]) (use that in simp)
  have "m = unat (word_of_nat m :: 64 word)" by (rule u [symmetric]) (use assms in linarith)
  also have "\<dots> = unat (word_of_nat n :: 64 word)" by (rule arg_cong [OF assms(1)])
  also have "\<dots> = n" by (rule u [OF assms(3)])
  finally show ?thesis .
qed

lemma hit_is_stored:
  assumes "history_inv h" and "lookup (hs_state h) e digest now = (k, Some r, s)"
  shows "stored h k r"
proof (rule memory.fetched [OF history_invD(1) [OF assms(1)]])
  show "fst (get (cs_store (hs_state h)) k now) = Some r" using lookup_result [OF assms(2)] by simp
qed (rule history_invD(7) [OF assms(1)])

lemma coherent_hit:
  assumes "history_init h0" and "history_step\<^sup>*\<^sup>* h0 h"
    and "hs_global h < 2 ^ 64" and "hs_count h e < 2 ^ 64"
    and "lookup (hs_state h) e digest now = (k, Some r, s)"
  shows "\<exists>t g n. (k, r, t) \<in> hs_stores h \<and> (k, t, g, n) \<in> hs_captures h \<and> hs_last h e \<le> t"
proof -
  have inv: "history_inv h" by (rule cache_history.reachable_inv [OF assms(2,1)])
  note k = lookup_result(1) [OF assms(5)]
  from hit_is_stored [OF inv assms(5)] obtain t g n
    where st: "(k, r, t) \<in> hs_stores h" "(k, t, g, n) \<in> hs_captures h" by (auto simp: stored_def)
  from history_invD(5) [OF inv st(2)]
  have c: "(word_of_nat (hs_global h) :: 64 word) = word_of_nat g" "g \<le> hs_global h"
    "(word_of_nat (hs_count h e) :: 64 word) = word_of_nat n" "n \<le> hs_count h e"
    "g = hs_global h \<and> n = hs_count h e \<longrightarrow> hs_last h e \<le> t"
    using history_invD(2) [OF inv] history_invD(3) [OF inv, of e] by (simp_all add: capture_ok_def k)
  have "g = hs_global h" by (rule word_count_eq [OF c(1) [symmetric] c(2) assms(3)])
  moreover have "n = hs_count h e" by (rule word_count_eq [OF c(3) [symmetric] c(4) assms(4)])
  ultimately show ?thesis using c(5) st by blast
qed

text \<open>
  C3: Coherence of the query cache. In every history of lookups, guarded stores, invalidations of
  entities through their dependencies, global invalidations and changes of retained branches, a hit
  of \<open>lookup\<close> returns a result that was stored under a key captured at a time not before the last
  invalidation that affected the entity, provided fewer than \<open>2 ^ 64\<close> invalidations happened.
\<close>

theorem cache_hits_are_coherent:
  assumes "history_init h0" and "history_step\<^sup>*\<^sup>* h0 h"
    and "hs_global h < 2 ^ 64" and "hs_count h e < 2 ^ 64"
    and "lookup (hs_state h) e digest now = (k, Some r, s)"
  shows "\<exists>t g n. (k, r, t) \<in> hs_stores h \<and> (k, t, g, n) \<in> hs_captures h \<and> hs_last h e \<le> t"
  using assms by (rule coherent_hit)

text \<open>A history in which a query of \<open>0:/1:T\<close> is stored and then found.\<close>

definition example_config :: cache_config where
  "example_config = \<lparr>cf_ttl = 10, cf_max_entries = 2, cf_max_bytes = 100, cf_max_entry_bytes = 50, cf_dependencies = []\<rparr>"

definition history_0 :: history where
  "history_0 = \<lparr>hs_state = newCacheState (normalizeConfig id example_config), hs_time = 0, hs_last = (\<lambda>_. 0),
     hs_global = 0, hs_count = (\<lambda>_. 0), hs_captures = {}, hs_stores = {}\<rparr>"

definition example_key :: query_key where
  "example_key = \<lparr>qk_entity = ''T'', qk_digest = [], qk_global = 0, qk_generation = 0\<rparr>"

definition example_result :: cached_result where
  "example_result = \<lparr>cr_batches = [], cr_outcome = None, cr_size = 1\<rparr>"

definition history_1 :: history where
  "history_1 = history_0\<lparr>hs_state := snd (snd (lookup (hs_state history_0) ''T'' [] 0)), hs_time := 1,
     hs_captures := {(example_key, 0, 0, 0)}\<rparr>"

definition history_2 :: history where
  "history_2 = history_1\<lparr>hs_state := the (storeIfCurrent (hs_state history_1) example_key example_result 1), hs_time := 2,
     hs_stores := {(example_key, example_result, 0)}\<rparr>"

lemmas history_defs = history_0_def history_1_def history_2_def example_key_def example_result_def example_config_def

lemma example_store:
  "storeIfCurrent (hs_state history_1) example_key example_result 1 = Some (hs_state history_2)"
proof -
  have "\<not> Option.is_none (storeIfCurrent (hs_state history_1) example_key example_result 1)"
    unfolding history_defs by code_simp
  then show ?thesis by (simp add: history_2_def Option.is_none_def split: option.splits)
qed

lemma example_history: "history_step\<^sup>*\<^sup>* history_0 history_2"
proof -
  have "history_step history_0 (history_0\<lparr>hs_state := snd (snd (lookup (hs_state history_0) ''T'' [] 0)),
      hs_time := Suc (hs_time history_0),
      hs_captures := insert (fst (lookup (hs_state history_0) ''T'' [] 0), hs_time history_0, hs_global history_0,
        hs_count history_0 ''T'') (hs_captures history_0)\<rparr>)"
    by (rule history_step.lookup [of _ _ "[]" 0 _ "fst (snd (lookup (hs_state history_0) ''T'' [] 0))"]) simp
  moreover have "fst (lookup (hs_state history_0) ''T'' [] 0) = example_key"
    unfolding history_defs by code_simp
  ultimately have "history_step history_0 history_1" by (simp add: history_1_def) (simp add: history_0_def)
  moreover have "history_step history_1 (history_1\<lparr>hs_state := hs_state history_2, hs_time := Suc (hs_time history_1),
      hs_stores := insert (example_key, example_result, 0) (hs_stores history_1)\<rparr>)"
    by (rule history_step.store [of _ 0 0 0, OF _ _ example_store])
      (simp_all add: history_1_def example_result_def storable_def)
  then have "history_step history_1 history_2"
    by (simp add: history_2_def) (simp add: history_1_def history_0_def numeral_2_eq_2)
  ultimately show ?thesis by (meson converse_rtranclp_into_rtranclp rtranclp.rtrancl_refl)
qed

theorem cache_hits_are_coherent_witness:
  "history_init history_0 \<and> history_step\<^sup>*\<^sup>* history_0 history_2 \<and>
   (case lookup (hs_state history_2) ''T'' [] 2 of (k, x, s) \<Rightarrow>
      x = Some example_result \<and> (\<exists>t g n. (k, example_result, t) \<in> hs_stores history_2 \<and>
        (k, t, g, n) \<in> hs_captures history_2 \<and> hs_last history_2 ''T'' \<le> t))"
proof -
  have init: "history_init history_0" by (auto simp: history_init_def history_0_def)
  have "fst (snd (lookup (hs_state history_2) ''T'' [] 2)) = Some example_result"
    unfolding history_defs by code_simp
  then obtain k s where l: "lookup (hs_state history_2) ''T'' [] 2 = (k, Some example_result, s)"
    by (metis prod.collapse)
  have "\<exists>t g n. (k, example_result, t) \<in> hs_stores history_2 \<and>
        (k, t, g, n) \<in> hs_captures history_2 \<and> hs_last history_2 ''T'' \<le> t"
    by (rule cache_hits_are_coherent [OF init example_history _ _ l])
      (simp_all add: history_2_def history_1_def history_0_def)
  with init example_history l show ?thesis by simp
qed

end
