(* ===== verification/SchemaMetadata.thy ===== *)
theory SchemaMetadata
  imports Messages
begin

text \<open>
  \<open>sdk-go/provider/metadata.go\<close>: the two helpers that extend relational metadata.
  \<open>AddNamespaceColumns\<close> exposes each table's namespace as a constant column and may put it
  in front of the table's stable keys; \<open>AddStablePrimaryKey\<close> adds a generated key column
  and makes it the primary key.

  The helpers mutate the messages they are given, so each returns the error and the
  metadata as it is after the call. The records hold the fields the helpers read or write;
  a nil property map is the empty map, which Go reads alike. \<open>up\<close> and \<open>eqf\<close> are the Unicode
  tables behind \<open>strings.ToUpper\<close> and \<open>strings.EqualFold\<close>.
\<close>

section \<open>Messages\<close>

datatype searchability =
    COLUMN_SEARCHABILITY_UNSPECIFIED | COLUMN_SEARCHABILITY_UNSEARCHABLE
  | COLUMN_SEARCHABILITY_EQUALITY | COLUMN_SEARCHABILITY_ORDERED | COLUMN_SEARCHABILITY_ALL
  | COLUMN_SEARCHABILITY_unnamed int

datatype key_kind =
    KEY_KIND_UNSPECIFIED | KEY_KIND_PRIMARY | KEY_KIND_UNIQUE | KEY_KIND_INDEX | KEY_KIND_FOREIGN
  | KEY_KIND_unnamed int

datatype stable_key_format =
  STABLE_KEY_FORMAT_UNSPECIFIED | STABLE_KEY_FORMAT_VAL_PK_V1 | STABLE_KEY_FORMAT_unnamed int

record stable_key =
  sk_columns :: "string list"
  sk_format :: stable_key_format

record column_metadata =
  col_name :: string
  col_type :: value_type
  col_nullable :: "bool option"
  col_updatable :: "bool option"
  col_searchability :: searchability
  col_annotation :: string
  col_properties :: "string \<rightharpoonup> string"
  col_stable_key :: "stable_key option"

record key_metadata =
  key_name :: string
  key_kind_of :: key_kind
  key_columns :: "string list"

record table_metadata =
  tbl_name :: string
  tbl_namespace :: string
  tbl_columns :: "column_metadata option list"
  tbl_keys :: "key_metadata option list"

record schema_metadata =
  md_tables :: "table_metadata option list"

datatype metadata_err =
    MetadataRequired
  | NamespaceColumnHasPlus string
  | TableRequired nat
  | NamespaceRequired string
  | NamespaceColumnExists string string
  | KeyTableRequired
  | KeyColumnNameRequired
  | KeyNeedsComponent
  | KeyColumnExists string
  | ComponentNameRequired
  | ComponentHasPlus string
  | ComponentMissing string
  | ComponentGenerated string
  | ComponentDuplicated string

datatype key_err =
    MetadataErr metadata_err
  | TableNameRequired
  | PrimaryKeyExists string string
  | KeyNameExists string string

section \<open>Namespace columns\<close>

definition DefaultNamespaceColumnName :: string where
  "DefaultNamespaceColumnName = ''kubling_namespace''"

definition val_pk :: string where "val_pk = ''val_pk''"
definition val_constant :: string where "val_constant = ''val_constant''"

record namespace_column_options =
  nc_column_name :: string
  nc_include_in_stable_keys :: bool

definition namespace_column :: "string \<Rightarrow> string \<Rightarrow> column_metadata" where
  "namespace_column columnName namespace =
     \<lparr>col_name = columnName, col_type = VALUE_TYPE_STRING, col_nullable = Some False,
      col_updatable = Some False, col_searchability = COLUMN_SEARCHABILITY_ALL,
      col_annotation = ''Kubling provider namespace materialized as a constant value.'',
      col_properties = [val_constant \<mapsto> namespace], col_stable_key = None\<rparr>"

text \<open>The body of the loop over the table's columns.\<close>

definition prefix_stable_key :: "string \<Rightarrow> column_metadata \<Rightarrow> column_metadata" where
  "prefix_stable_key columnName c =
     (case col_stable_key c of
        Some k \<Rightarrow>
          (let cols = columnName # sk_columns k in
           c\<lparr>col_stable_key := Some (k\<lparr>sk_columns := cols\<rparr>),
             col_properties := (col_properties c)(val_pk \<mapsto> joinPlus cols)\<rparr>)
      | None \<Rightarrow>
          (case col_properties c val_pk of
             Some expression \<Rightarrow>
               c\<lparr>col_properties := (col_properties c)(val_pk \<mapsto> columnName @ ''+'' @ expression)\<rparr>
           | None \<Rightarrow> c))"

definition addNamespaceColumn ::
  "table_metadata \<Rightarrow> string \<Rightarrow> string \<Rightarrow> bool \<Rightarrow> table_metadata" where
  "addNamespaceColumn t columnName namespace include_keys =
     (let columns = tbl_columns t @ [Some (namespace_column columnName namespace)] in
      t\<lparr>tbl_columns :=
          (if include_keys then map (map_option (prefix_stable_key columnName)) columns else columns)\<rparr>)"

definition namespace_check ::
  "(string \<Rightarrow> string \<Rightarrow> bool) \<Rightarrow> string \<Rightarrow> nat \<Rightarrow> table_metadata option \<Rightarrow> metadata_err option" where
  "namespace_check eqf columnName i table =
     (case table of
        None \<Rightarrow> Some (TableRequired i)
      | Some t \<Rightarrow>
          first_of
           [fail_if (trimSpace (tbl_namespace t) = []) (NamespaceRequired (tbl_name t)),
            first_error
              (\<lambda>_ c. case c of None \<Rightarrow> None
                 | Some col \<Rightarrow> fail_if (equalFold eqf (trimSpace (col_name col)) columnName)
                                (NamespaceColumnExists (tbl_name t) columnName))
              0 (tbl_columns t)])"

definition namespace_column_name :: "namespace_column_options \<Rightarrow> string" where
  "namespace_column_name options =
     (let n = trimSpace (nc_column_name options) in if n = [] then DefaultNamespaceColumnName else n)"

definition add_namespace :: "string \<Rightarrow> bool \<Rightarrow> table_metadata \<Rightarrow> table_metadata" where
  "add_namespace columnName include_keys t =
     (let namespace = trimSpace (tbl_namespace t) in
      addNamespaceColumn (t\<lparr>tbl_namespace := namespace\<rparr>) columnName namespace include_keys)"

definition AddNamespaceColumns ::
  "(string \<Rightarrow> string \<Rightarrow> bool) \<Rightarrow> schema_metadata option \<Rightarrow> namespace_column_options \<Rightarrow>
   metadata_err option \<times> schema_metadata option" where
  "AddNamespaceColumns eqf metadata options =
     (case metadata of
        None \<Rightarrow> (Some MetadataRequired, None)
      | Some md \<Rightarrow>
          (let columnName = namespace_column_name options in
           if contains_char (CHR ''+'') columnName
           then (Some (NamespaceColumnHasPlus columnName), Some md)
           else
             (case first_error (namespace_check eqf columnName) 0 (md_tables md) of
                Some e \<Rightarrow> (Some e, Some md)
              | None \<Rightarrow>
                  (None, Some (md\<lparr>md_tables :=
                    map (map_option (add_namespace columnName (nc_include_in_stable_keys options)))
                      (md_tables md)\<rparr>)))))"

section \<open>Stable primary keys\<close>

text \<open>The map from upper-cased names to columns; a later column replaces an earlier one.\<close>

fun index_columns ::
  "(string \<Rightarrow> string) \<Rightarrow> (string \<rightharpoonup> column_metadata) \<Rightarrow> column_metadata option list \<Rightarrow>
   (string \<rightharpoonup> column_metadata)" where
  "index_columns up m [] = m"
| "index_columns up m (None # cs) = index_columns up m cs"
| "index_columns up m (Some c # cs) =
     (if trimSpace (col_name c) = [] then index_columns up m cs
      else index_columns up (m(toUpper up (col_name c) \<mapsto> c)) cs)"

fun resolve_components ::
  "(string \<Rightarrow> string) \<Rightarrow> (string \<rightharpoonup> column_metadata) \<Rightarrow> string set \<Rightarrow> string list \<Rightarrow>
   metadata_err + string list" where
  "resolve_components up columns seen [] = Inr []"
| "resolve_components up columns seen (r # rs) =
     (let requested = trimSpace r; key = toUpper up requested in
      if requested = [] then Inl ComponentNameRequired
      else if contains_char (CHR ''+'') requested then Inl (ComponentHasPlus requested)
      else
        (case columns key of
           None \<Rightarrow> Inl (ComponentMissing requested)
         | Some c \<Rightarrow>
             if col_stable_key c \<noteq> None then Inl (ComponentGenerated (col_name c))
             else if key \<in> seen then Inl (ComponentDuplicated (col_name c))
             else
               bind_sum (resolve_components up columns (insert key seen) rs)
                 (\<lambda>names. Inr (col_name c # names))))"

definition check_keys ::
  "(string \<Rightarrow> string \<Rightarrow> bool) \<Rightarrow> table_metadata \<Rightarrow> string \<Rightarrow> key_err option" where
  "check_keys eqf t keyName =
     first_error
       (\<lambda>_ k. case k of None \<Rightarrow> None
          | Some km \<Rightarrow>
              first_of
               [fail_if (key_kind_of km = KEY_KIND_PRIMARY) (PrimaryKeyExists (tbl_name t) (key_name km)),
                fail_if (equalFold eqf (key_name km) keyName) (KeyNameExists (tbl_name t) (key_name km))])
       0 (tbl_keys t)"

definition stable_key_column :: "string \<Rightarrow> string list \<Rightarrow> column_metadata" where
  "stable_key_column columnName components =
     \<lparr>col_name = columnName, col_type = VALUE_TYPE_STRING, col_nullable = Some False,
      col_updatable = Some False, col_searchability = COLUMN_SEARCHABILITY_EQUALITY,
      col_annotation = [], col_properties = [val_pk \<mapsto> joinPlus components],
      col_stable_key = Some \<lparr>sk_columns = components, sk_format = STABLE_KEY_FORMAT_VAL_PK_V1\<rparr>\<rparr>"

definition AddStablePrimaryKey ::
  "(string \<Rightarrow> string) \<Rightarrow> (string \<Rightarrow> string \<Rightarrow> bool) \<Rightarrow> table_metadata option \<Rightarrow> string \<Rightarrow> string list \<Rightarrow>
   key_err option \<times> table_metadata option" where
  "AddStablePrimaryKey up eqf table requestedColumn componentColumns =
     (case table of
        None \<Rightarrow> (Some (MetadataErr KeyTableRequired), None)
      | Some t \<Rightarrow>
          (let columnName = trimSpace requestedColumn;
               columns = index_columns up Map.empty (tbl_columns t) in
           if columnName = [] then (Some (MetadataErr KeyColumnNameRequired), Some t)
           else if componentColumns = [] then (Some (MetadataErr KeyNeedsComponent), Some t)
           else if columns (toUpper up columnName) \<noteq> None
           then (Some (MetadataErr (KeyColumnExists columnName)), Some t)
           else
             (case resolve_components up columns {} componentColumns of
                Inl e \<Rightarrow> (Some (MetadataErr e), Some t)
              | Inr components \<Rightarrow>
                  (let keyName = ''PK_'' @ trimSpace (tbl_name t) in
                   if trimSpace (tbl_name t) = [] then (Some TableNameRequired, Some t)
                   else
                     (case check_keys eqf t keyName of
                        Some e \<Rightarrow> (Some e, Some t)
                      | None \<Rightarrow>
                          (None, Some (t\<lparr>
                             tbl_columns := tbl_columns t @ [Some (stable_key_column columnName components)],
                             tbl_keys := Some \<lparr>key_name = keyName, key_kind_of = KEY_KIND_PRIMARY,
                                               key_columns = [columnName]\<rparr> # tbl_keys t\<rparr>)))))))"

text \<open>\<open>MustAddStablePrimaryKey\<close> panics on an error: \<open>None\<close>.\<close>

definition MustAddStablePrimaryKey ::
  "(string \<Rightarrow> string) \<Rightarrow> (string \<Rightarrow> string \<Rightarrow> bool) \<Rightarrow> table_metadata option \<Rightarrow> string \<Rightarrow> string list \<Rightarrow>
   table_metadata option" where
  "MustAddStablePrimaryKey up eqf table columnName componentColumns =
     (case AddStablePrimaryKey up eqf table columnName componentColumns of
        (Some _, _) \<Rightarrow> None
      | (None, t) \<Rightarrow> t)"

section \<open>Key expressions\<close>

fun splitPlus :: "string \<Rightarrow> string list" where
  "splitPlus [] = [[]]"
| "splitPlus (c # s) =
     (if c = CHR ''+'' then [] # splitPlus s
      else (case splitPlus s of [] \<Rightarrow> [[c]] | w # ws \<Rightarrow> (c # w) # ws))"

lemma splitPlus_word: "CHR ''+'' \<notin> set w \<Longrightarrow> splitPlus w = [w]"
  by (induction w) auto

lemma splitPlus_append:
  "CHR ''+'' \<notin> set w \<Longrightarrow> splitPlus (w @ CHR ''+'' # s) = w # splitPlus s"
  by (induction w) auto

lemma splitPlus_joinPlus:
  "ws \<noteq> [] \<Longrightarrow> (\<forall>w\<in>set ws. CHR ''+'' \<notin> set w) \<Longrightarrow> splitPlus (joinPlus ws) = ws"
  by (induction ws rule: joinPlus.induct) (auto simp: splitPlus_word splitPlus_append)

text \<open>A generated key column's expression is the join of its components.\<close>

definition key_coherent :: "column_metadata option \<Rightarrow> bool" where
  "key_coherent c \<longleftrightarrow>
     (\<forall>col k. c = Some col \<longrightarrow> col_stable_key col = Some k \<longrightarrow>
        sk_columns k \<noteq> [] \<and> col_properties col val_pk = Some (joinPlus (sk_columns k)))"

lemma prefix_stable_key_coherent:
  "key_coherent (Some (prefix_stable_key n c))"
  if "key_coherent (Some c)"
  using that
  by (auto simp: key_coherent_def prefix_stable_key_def Let_def split: option.splits)

lemma namespace_column_coherent: "key_coherent (Some (namespace_column n ns))"
  by (simp add: key_coherent_def namespace_column_def)

lemma add_namespace_coherent:
  assumes "\<forall>c\<in>set (tbl_columns t). key_coherent c"
  shows "\<forall>c\<in>set (tbl_columns (add_namespace n i t)). key_coherent c"
proof -
  have "key_coherent (map_option (prefix_stable_key n) c)" if "key_coherent c" for c
    using that prefix_stable_key_coherent by (cases c) (auto simp: key_coherent_def [of None])
  then show ?thesis
    using assms namespace_column_coherent prefix_stable_key_coherent [OF namespace_column_coherent]
    by (auto simp: add_namespace_def addNamespaceColumn_def Let_def)
qed

section \<open>Resolution of key components\<close>

lemma index_columns_Some:
  "index_columns up m cs key = Some c \<Longrightarrow>
     (Some c \<in> set cs \<and> toUpper up (col_name c) = key \<and> trimSpace (col_name c) \<noteq> []) \<or> m key = Some c"
  by (induction up m cs rule: index_columns.induct) (auto split: if_splits)

lemma index_columns_None:
  "index_columns up m cs key = None \<Longrightarrow>
     m key = None \<and> (\<forall>c. Some c \<in> set cs \<longrightarrow> trimSpace (col_name c) \<noteq> [] \<longrightarrow> toUpper up (col_name c) \<noteq> key)"
  by (induction up m cs rule: index_columns.induct) (auto split: if_splits)

definition component_of ::
  "(string \<Rightarrow> string) \<Rightarrow> table_metadata \<Rightarrow> string \<Rightarrow> string \<Rightarrow> bool" where
  "component_of up t requested name \<longleftrightarrow>
     (\<exists>c. Some c \<in> set (tbl_columns t) \<and> col_name c = name \<and> col_stable_key c = None \<and>
          toUpper up name = toUpper up (trimSpace requested) \<and>
          CHR ''+'' \<notin> set (trimSpace requested))"

lemma resolve_components_Inr:
  assumes "resolve_components up (index_columns up Map.empty (tbl_columns t)) seen rs = Inr names"
  shows "list_all2 (component_of up t) rs names \<and> distinct (map (toUpper up) names) \<and>
    set (map (toUpper up) names) \<inter> seen = {}"
  using assms
proof (induction rs arbitrary: seen names)
  case (Cons r rs)
  let ?key = "toUpper up (trimSpace r)"
  from Cons.prems obtain c ns where c: "index_columns up Map.empty (tbl_columns t) ?key = Some c"
      and ok: "col_stable_key c = None" "?key \<notin> seen" "CHR ''+'' \<notin> set (trimSpace r)"
      and ns: "resolve_components up (index_columns up Map.empty (tbl_columns t)) (insert ?key seen) rs = Inr ns"
      and names: "names = col_name c # ns"
    by (auto simp: Let_def bind_sum_Inr split: if_splits option.splits)
  from index_columns_Some [OF c] have "component_of up t r (col_name c)" and "toUpper up (col_name c) = ?key"
    using ok by (auto simp: component_of_def)
  with Cons.IH [OF ns] ok names show ?case by auto
qed simp

lemma toUpper_plus:
  assumes "\<And>s. CHR ''+'' \<in> set (up s) \<longleftrightarrow> CHR ''+'' \<in> set s"
  shows "CHR ''+'' \<in> set (toUpper up s) \<longleftrightarrow> CHR ''+'' \<in> set s"
proof -
  have "ascii_upper c = CHR ''+'' \<longleftrightarrow> c = CHR ''+''" for c
  proof (cases "97 \<le> (of_char c :: nat) \<and> (of_char c :: nat) \<le> 122")
    case True
    then have "(of_char (ascii_upper c) :: nat) \<noteq> 43" and "c \<noteq> CHR ''+''"
      by (auto simp: ascii_upper_def)
    then show ?thesis by auto
  qed (auto simp: ascii_upper_def)
  then have "CHR ''+'' \<in> ascii_upper ` set s \<longleftrightarrow> CHR ''+'' \<in> set s" by (metis image_iff)
  then show ?thesis by (simp add: toUpper_def assms)
qed

lemma AddStablePrimaryKey_ok:
  assumes "AddStablePrimaryKey up eqf (Some t) requested components = (None, t')"
  shows "\<exists>names. t' = Some (t\<lparr>
       tbl_columns := tbl_columns t @ [Some (stable_key_column (trimSpace requested) names)],
       tbl_keys := Some \<lparr>key_name = ''PK_'' @ trimSpace (tbl_name t), key_kind_of = KEY_KIND_PRIMARY,
                         key_columns = [trimSpace requested]\<rparr> # tbl_keys t\<rparr>) \<and>
       names \<noteq> [] \<and> list_all2 (component_of up t) components names \<and> distinct (map (toUpper up) names) \<and>
       trimSpace requested \<noteq> [] \<and>
       (\<forall>c. Some c \<in> set (tbl_columns t) \<longrightarrow> trimSpace (col_name c) \<noteq> [] \<longrightarrow>
          toUpper up (col_name c) \<noteq> toUpper up (trimSpace requested)) \<and>
       (\<forall>k. Some k \<in> set (tbl_keys t) \<longrightarrow> key_kind_of k \<noteq> KEY_KIND_PRIMARY)"
proof -
  let ?cols = "index_columns up Map.empty (tbl_columns t)"
  from assms obtain names where n: "trimSpace requested \<noteq> []" "components \<noteq> []"
      "?cols (toUpper up (trimSpace requested)) = None"
      "resolve_components up ?cols {} components = Inr names"
      "check_keys eqf t (''PK_'' @ trimSpace (tbl_name t)) = None"
    and t': "t' = Some (t\<lparr>
       tbl_columns := tbl_columns t @ [Some (stable_key_column (trimSpace requested) names)],
       tbl_keys := Some \<lparr>key_name = ''PK_'' @ trimSpace (tbl_name t), key_kind_of = KEY_KIND_PRIMARY,
                         key_columns = [trimSpace requested]\<rparr> # tbl_keys t\<rparr>)"
    by (auto simp: AddStablePrimaryKey_def Let_def split: if_splits sum.splits option.splits)
  have "\<forall>k. Some k \<in> set (tbl_keys t) \<longrightarrow> key_kind_of k \<noteq> KEY_KIND_PRIMARY"
    using n(5) by (force simp: check_keys_def first_error_None in_set_conv_nth)
  with resolve_components_Inr [OF n(4)] index_columns_None [OF n(3)] n(1,2) t' show ?thesis
    by (intro exI [of _ names]) auto
qed

section \<open>Properties\<close>

lemma component_no_plus:
  assumes "\<And>s. CHR ''+'' \<in> set (up s) \<longleftrightarrow> CHR ''+'' \<in> set s" and "component_of up t r n"
  shows "CHR ''+'' \<notin> set n"
proof -
  from assms(2) have "toUpper up n = toUpper up (trimSpace r)" and "CHR ''+'' \<notin> set (trimSpace r)"
    by (auto simp: component_of_def)
  then show ?thesis using toUpper_plus [of up, OF assms(1)] by metis
qed

definition people_table :: table_metadata where
  "people_table =
     \<lparr>tbl_name = ''PEOPLE'', tbl_namespace = '' hr '',
      tbl_columns =
        [Some \<lparr>col_name = ''ID'', col_type = VALUE_TYPE_LONG, col_nullable = None, col_updatable = None,
               col_searchability = COLUMN_SEARCHABILITY_ALL, col_annotation = [],
               col_properties = Map.empty, col_stable_key = None\<rparr>,
         Some \<lparr>col_name = ''TENANT'', col_type = VALUE_TYPE_STRING, col_nullable = None,
               col_updatable = None, col_searchability = COLUMN_SEARCHABILITY_ALL, col_annotation = [],
               col_properties = Map.empty, col_stable_key = None\<rparr>],
      tbl_keys = []\<rparr>"

lemma ascii_literal: "toUpper up s = map ascii_upper s" if "list_all ascii s"
  using that by (simp add: toUpper_def)

text \<open>
  When adding a stable primary key succeeds, the table had no primary key and no column
  of that name; it now has exactly that primary key, over one new generated column. The
  components are the table's own, ungenerated columns in the requested order, without
  repetition, and the key expression \<open>val_pk\<close> splits back into exactly these components.
  The Unicode upper-casing may not create or remove a plus sign.
\<close>

theorem stable_primary_key_sound:
  assumes up: "\<And>s. CHR ''+'' \<in> set (up s) \<longleftrightarrow> CHR ''+'' \<in> set s"
    and ok: "AddStablePrimaryKey up eqf (Some t) requested components = (None, t')"
  shows "\<exists>t1 key col names.
      t' = Some t1 \<and> tbl_columns t1 = tbl_columns t @ [Some col] \<and>
      filter (\<lambda>k. map_option key_kind_of k = Some KEY_KIND_PRIMARY) (tbl_keys t1) = [Some key] \<and>
      key_columns key = [col_name col] \<and> map_option sk_columns (col_stable_key col) = Some names \<and>
      list_all2 (component_of up t) components names \<and> distinct names \<and>
      map_option splitPlus (col_properties col val_pk) = Some names \<and>
      (\<forall>c. Some c \<in> set (tbl_columns t) \<longrightarrow> trimSpace (col_name c) \<noteq> [] \<longrightarrow> col_name c \<noteq> col_name col)"
proof -
  from AddStablePrimaryKey_ok [OF ok] obtain names where
    t': "t' = Some (t\<lparr>
       tbl_columns := tbl_columns t @ [Some (stable_key_column (trimSpace requested) names)],
       tbl_keys := Some \<lparr>key_name = ''PK_'' @ trimSpace (tbl_name t), key_kind_of = KEY_KIND_PRIMARY,
                         key_columns = [trimSpace requested]\<rparr> # tbl_keys t\<rparr>)"
    and names: "names \<noteq> []" "list_all2 (component_of up t) components names"
      "distinct (map (toUpper up) names)"
    and fresh: "\<forall>c. Some c \<in> set (tbl_columns t) \<longrightarrow> trimSpace (col_name c) \<noteq> [] \<longrightarrow>
        toUpper up (col_name c) \<noteq> toUpper up (trimSpace requested)"
      "\<forall>k. Some k \<in> set (tbl_keys t) \<longrightarrow> key_kind_of k \<noteq> KEY_KIND_PRIMARY"
    by auto
  have "\<forall>n\<in>set names. CHR ''+'' \<notin> set n"
    using names(2) by (induction rule: list_all2_induct) (auto dest: component_no_plus [of up, OF up])
  with names(1) have "splitPlus (joinPlus names) = names" by (rule splitPlus_joinPlus)
  moreover have "filter (\<lambda>k. map_option key_kind_of k = Some KEY_KIND_PRIMARY) (tbl_keys t) = []"
    using fresh(2) by (auto simp: filter_empty_conv)
  moreover have "distinct names" using names(3) by (simp add: distinct_map)
  ultimately show ?thesis
    using t' names(2) fresh(1)
    by (intro exI [of _ "the t'"] exI [of _ "the (hd (tbl_keys (the t')))"]
        exI [of _ "stable_key_column (trimSpace requested) names"] exI [of _ names])
      (auto simp: stable_key_column_def)
qed

theorem stable_primary_key_sound_witness:
  "AddStablePrimaryKey id (\<lambda>s t. s = t) (Some people_table) '' key '' ['' tenant'', ''id''] \<noteq> (None, None) \<and>
   (\<exists>t1 col. AddStablePrimaryKey id (\<lambda>s t. s = t) (Some people_table) '' key '' ['' tenant'', ''id''] = (None, Some t1) \<and>
      tbl_columns t1 = tbl_columns people_table @ [Some col] \<and>
      map_option splitPlus (col_properties col val_pk) = Some [''TENANT'', ''ID''])"
proof -
  obtain t' where ok: "AddStablePrimaryKey id (\<lambda>s t. s = t) (Some people_table) '' key '' ['' tenant'', ''id''] = (None, t')"
    and comps: "map_option (\<lambda>t. map (map_option (\<lambda>c. map_option sk_columns (col_stable_key c))) (tbl_columns t)) t' =
      Some [Some None, Some None, Some (Some [''TENANT'', ''ID''])]"
  proof -
    have "map_prod id (map_option (\<lambda>t. map (map_option (\<lambda>c. map_option sk_columns (col_stable_key c))) (tbl_columns t)))
        (AddStablePrimaryKey id (\<lambda>s t. s = t) (Some people_table) '' key '' ['' tenant'', ''id'']) =
      (None, Some [Some None, Some None, Some (Some [''TENANT'', ''ID''])])"
      unfolding people_table_def by code_simp
    then show thesis
      using that by (cases "AddStablePrimaryKey id (\<lambda>s t. s = t) (Some people_table) '' key '' ['' tenant'', ''id'']") auto
  qed
  from stable_primary_key_sound [OF _ ok] comps show ?thesis
    unfolding ok by (auto simp: people_table_def)
qed

definition key_columns_of :: "column_metadata option \<Rightarrow> string list option" where
  "key_columns_of c = (case c of None \<Rightarrow> None | Some col \<Rightarrow> map_option sk_columns (col_stable_key col))"

definition namespaced ::
  "(string \<Rightarrow> string \<Rightarrow> bool) \<Rightarrow> string \<Rightarrow> bool \<Rightarrow> table_metadata option \<Rightarrow> table_metadata option \<Rightarrow> bool" where
  "namespaced eqf n include_keys x y \<longleftrightarrow>
     (\<exists>t u c. x = Some t \<and> y = Some u \<and> tbl_name u = tbl_name t \<and> tbl_keys u = tbl_keys t \<and>
        tbl_namespace u = trimSpace (tbl_namespace t) \<and> tbl_namespace u \<noteq> [] \<and>
        map (map_option col_name) (tbl_columns u) = map (map_option col_name) (tbl_columns t) @ [Some n] \<and>
        map key_columns_of (tbl_columns u) =
          map (\<lambda>c. if include_keys then map_option ((#) n) (key_columns_of c) else key_columns_of c) (tbl_columns t)
          @ [None] \<and>
        last (tbl_columns u) = Some c \<and> col_properties c val_constant = Some (tbl_namespace u) \<and>
        (\<forall>d. Some d \<in> set (tbl_columns t) \<longrightarrow> \<not> equalFold eqf (trimSpace (col_name d)) n) \<and>
        ((\<forall>d\<in>set (tbl_columns t). key_coherent d) \<longrightarrow> (\<forall>d\<in>set (tbl_columns u). key_coherent d)))"

lemma prefix_stable_key_simps:
  "col_name (prefix_stable_key n c) = col_name c"
  "map_option sk_columns (col_stable_key (prefix_stable_key n c)) =
     map_option ((#) n) (map_option sk_columns (col_stable_key c))"
  by (auto simp: prefix_stable_key_def Let_def split: option.splits)

lemma namespace_column_prefix: "prefix_stable_key n (namespace_column n ns) = namespace_column n ns"
  by (simp add: prefix_stable_key_def namespace_column_def val_pk_def val_constant_def)

lemma map_key_columns_of_prefix:
  "map (key_columns_of \<circ> map_option (prefix_stable_key n)) cs = map (map_option ((#) n) \<circ> key_columns_of) cs"
  "map (map_option col_name \<circ> map_option (prefix_stable_key n)) cs = map (map_option col_name) cs"
  by (auto simp: key_columns_of_def prefix_stable_key_simps option.map_comp comp_def split: option.splits
      intro!: option.map_cong)

lemma namespace_check_namespaced:
  assumes "namespace_check eqf n i x = None"
  shows "namespaced eqf n inc x (map_option (add_namespace n inc) x)"
proof -
  from assms obtain t where x: "x = Some t" and ns: "trimSpace (tbl_namespace t) \<noteq> []"
    by (auto simp: namespace_check_def split: option.splits)
  have clash: "\<not> equalFold eqf (trimSpace (col_name d)) n" if "Some d \<in> set (tbl_columns t)" for d
    using assms that by (force simp: namespace_check_def x first_error_None in_set_conv_nth)
  let ?c = "namespace_column n (trimSpace (tbl_namespace t))"
  have c: "col_name ?c = n" "key_columns_of (Some ?c) = None"
    "col_properties ?c val_constant = Some (trimSpace (tbl_namespace t))"
    by (simp_all add: namespace_column_def key_columns_of_def)
  have u: "tbl_columns (add_namespace n inc t) =
      (if inc then map (map_option (prefix_stable_key n)) (tbl_columns t) else tbl_columns t) @ [Some ?c]"
    by (simp add: add_namespace_def addNamespaceColumn_def Let_def namespace_column_prefix)
  have rest: "tbl_name (add_namespace n inc t) = tbl_name t" "tbl_keys (add_namespace n inc t) = tbl_keys t"
    "tbl_namespace (add_namespace n inc t) = trimSpace (tbl_namespace t)"
    by (simp_all add: add_namespace_def addNamespaceColumn_def Let_def)
  have names: "map (map_option col_name) (tbl_columns (add_namespace n inc t)) =
      map (map_option col_name) (tbl_columns t) @ [Some n]"
    by (simp add: u c map_key_columns_of_prefix)
  have keys: "map key_columns_of (tbl_columns (add_namespace n inc t)) =
      map (\<lambda>c. if inc then map_option ((#) n) (key_columns_of c) else key_columns_of c) (tbl_columns t) @ [None]"
    by (simp add: u c map_key_columns_of_prefix)
  have "last (tbl_columns (add_namespace n inc t)) = Some ?c" by (simp add: u)
  with names keys ns clash add_namespace_coherent [of t n inc] c(3) rest show ?thesis
    unfolding namespaced_def x by fastforce
qed

text \<open>
  Adding namespace columns changes nothing when it fails. When it succeeds, every table
  has a namespace and a last column of the chosen name, which no other column of the table
  had, constantly equal to the trimmed namespace; names and keys are kept, the stable keys
  get the column in front exactly when asked to, and every generated key expression still is
  the join of its components.
\<close>

theorem namespace_columns_sound:
  "case AddNamespaceColumns eqf (Some md) options of
     (Some _, md') \<Rightarrow> md' = Some md
   | (None, md') \<Rightarrow>
       (\<exists>md1. md' = Some md1 \<and> CHR ''+'' \<notin> set (namespace_column_name options) \<and>
          list_all2 (namespaced eqf (namespace_column_name options) (nc_include_in_stable_keys options))
            (md_tables md) (md_tables md1))"
  by (auto simp: AddNamespaceColumns_def Let_def first_error_None list_all2_conv_all_nth
      intro!: namespace_check_namespaced split: option.splits)

end
