(* ===== verification/ProviderApi.thy ===== *)
theory ProviderApi
  imports Capabilities SchemaMetadata
begin

text \<open>
  The Go interfaces a provider implements (\<open>sdk-go/provider/provider.go\<close>,
  \<open>connection.go\<close>, the interfaces of \<open>transaction_recovery.go\<close> and \<open>semantic.go\<close>) as records
  of operations. The code behind an interface keeps state of its own: every operation takes
  the world \<open>'w\<close> that holds it and returns it updated, so a stream or a connection is the
  record of what can be done with it and its position lives in the world. A method that
  returns a value and an error returns both, as in Go. An interface that a value may or may
  not implement (\<open>LobConnection\<close>, \<open>TransactionBranchConnection\<close>, \<open>QueryOutcomeStream\<close>, the
  optional provider interfaces) is an optional field.

  Contexts are not passed: the operations may answer a cancellation error at any time, which
  arbitrary operations over the world already do.
\<close>

record 'w result_stream =
  rs_next :: "'w \<Rightarrow> (tuple_batch option \<times> go_error option) \<times> 'w"
  rs_close :: "'w \<Rightarrow> go_error option \<times> 'w"
  rs_outcome :: "('w \<Rightarrow> query_outcome option \<times> 'w) option"

record 'w lob_stream =
  ls_next :: "'w \<Rightarrow> (read_lob_response option \<times> go_error option) \<times> 'w"
  ls_close :: "'w \<Rightarrow> go_error option \<times> 'w"

record 'w recovery_stream =
  rv_next :: "'w \<Rightarrow> (transaction_branch option list \<times> go_error option) \<times> 'w"
  rv_close :: "'w \<Rightarrow> go_error option \<times> 'w"

record 'w lob_connection =
  lc_read :: "read_lob_request \<Rightarrow> 'w \<Rightarrow> ('w lob_stream option \<times> go_error option) \<times> 'w"
  lc_release :: "release_lob_request \<Rightarrow> 'w \<Rightarrow> go_error option \<times> 'w"

record 'w branch_connection =
  bc_begin :: "branch_id \<Rightarrow> 'w \<Rightarrow> go_error option \<times> 'w"
  bc_prepare :: "branch_id \<Rightarrow> 'w \<Rightarrow> (prepare_outcome \<times> go_error option) \<times> 'w"
  bc_commit :: "branch_id \<Rightarrow> 'w \<Rightarrow> (branch_state \<times> go_error option) \<times> 'w"
  bc_rollback :: "branch_id \<Rightarrow> 'w \<Rightarrow> (branch_state \<times> go_error option) \<times> 'w"

record 'w connection =
  cn_close :: "'w \<Rightarrow> go_error option \<times> 'w"
  cn_begin :: "'w \<Rightarrow> go_error option \<times> 'w"
  cn_commit :: "'w \<Rightarrow> go_error option \<times> 'w"
  cn_rollback :: "'w \<Rightarrow> go_error option \<times> 'w"
  cn_in_transaction :: "'w \<Rightarrow> (bool \<times> go_error option) \<times> 'w"
  cn_query :: "query_request \<Rightarrow> 'w \<Rightarrow> ('w result_stream option \<times> go_error option) \<times> 'w"
  cn_insert :: "insert_request \<Rightarrow> 'w \<Rightarrow> (insert_response option \<times> go_error option) \<times> 'w"
  cn_update :: "update_request \<Rightarrow> 'w \<Rightarrow> (update_response option \<times> go_error option) \<times> 'w"
  cn_delete :: "delete_request \<Rightarrow> 'w \<Rightarrow> (delete_response option \<times> go_error option) \<times> 'w"
  cn_lob :: "'w lob_connection option"
  cn_branches :: "'w branch_connection option"

text \<open>The identity of a recovery manager is documented to be stable, hence a value.\<close>

record 'w recovery_manager =
  rm_id :: string
  rm_commit :: "branch_id \<Rightarrow> 'w \<Rightarrow> (branch_state \<times> go_error option) \<times> 'w"
  rm_rollback :: "branch_id \<Rightarrow> 'w \<Rightarrow> (branch_state \<times> go_error option) \<times> 'w"
  rm_recover :: "'w \<Rightarrow> ('w recovery_stream option \<times> go_error option) \<times> 'w"
  rm_status :: "branch_id \<Rightarrow> 'w \<Rightarrow> (branch_state \<times> go_error option) \<times> 'w"
  rm_forget :: "branch_id \<Rightarrow> 'w \<Rightarrow> go_error option \<times> 'w"

record health_response =
  h_healthy :: bool
  h_message :: string

record semantic_fragment =
  sf_document :: bytes
  sf_media_type :: string
  sf_version :: string

record 'w provider =
  pv_capabilities :: "'w \<Rightarrow> (capabilities option \<times> go_error option) \<times> 'w"
  pv_health :: "'w \<Rightarrow> (health_response option \<times> go_error option) \<times> 'w"
  pv_open :: "'w \<Rightarrow> ('w connection option \<times> go_error option) \<times> 'w"
  pv_schema :: "('w \<Rightarrow> (string \<times> go_error option) \<times> 'w) option"
  pv_metadata :: "('w \<Rightarrow> (schema_metadata option \<times> go_error option) \<times> 'w) option"
  pv_semantic :: "('w \<Rightarrow> (semantic_fragment option \<times> go_error option) \<times> 'w) option"
  pv_recovery :: "('w \<Rightarrow> 'w recovery_manager option) option"

end
