(* ===== verification/Registry.thy ===== *)
theory Registry
  imports ProviderApi "HOL-Library.Multiset"
begin

text \<open>
  \<open>sdk-go/provider/registry.go\<close>: the registry that owns the logical connections.

  The first part has the operations as one caller sees them: a map from public identifiers
  to managed connections on a heap, each with its lock's readers and its closed flag. A call
  that would wait for a lock another caller holds does not return, \<open>None\<close>. The second part
  is the registry under concurrency: \<open>registry_step\<close> interleaves the critical sections of
  any number of threads, with the read-write lock of each connection held across operations
  and during closing.
\<close>

section \<open>Identifiers\<close>

definition hex_digit :: "nat \<Rightarrow> char" where
  "hex_digit n = (if n < 10 then char_of (48 + n) else char_of (87 + n))"

definition hex_byte :: "char \<Rightarrow> string" where
  "hex_byte c = [hex_digit ((of_char c :: nat) div 16), hex_digit ((of_char c :: nat) mod 16)]"

definition encodeToString :: "bytes \<Rightarrow> string" where
  "encodeToString bs = concat (map hex_byte bs)"

lemma of_char_hex_digit:
  "n < 16 \<Longrightarrow> (of_char (hex_digit n) :: nat) = (if n < 10 then 48 + n else 87 + n)"
  by (simp add: hex_digit_def)

lemma hex_digit_inject: "m < 16 \<Longrightarrow> n < 16 \<Longrightarrow> hex_digit m = hex_digit n \<longleftrightarrow> m = n"
proof
  assume mn: "m < 16" "n < 16" and "hex_digit m = hex_digit n"
  then have "(of_char (hex_digit m) :: nat) = of_char (hex_digit n)" by simp
  with mn show "m = n" by (simp add: of_char_hex_digit split: if_splits)
qed simp

lemma hex_byte_inject: "hex_byte a = hex_byte b \<longleftrightarrow> a = b"
proof
  have less: "(of_char c :: nat) < 256" for c by simp
  have div: "(of_char c :: nat) div 16 < 16" for c
    using less [of c] by (simp add: less_mult_imp_div_less)
  assume "hex_byte a = hex_byte b"
  then have "(of_char a :: nat) div 16 = of_char b div 16" and "(of_char a :: nat) mod 16 = of_char b mod 16"
    using hex_digit_inject [OF div div, of a b] hex_digit_inject [of "of_char a mod 16" "of_char b mod 16"]
    by (simp_all add: hex_byte_def)
  then have "(of_char a :: nat) = of_char b" by (metis div_mult_mod_eq)
  then show "a = b" by (metis char_of_char)
qed simp

lemma encodeToString_inject: "encodeToString xs = encodeToString ys \<longleftrightarrow> xs = ys"
proof (induction xs arbitrary: ys)
  case Nil
  show ?case by (cases ys) (simp_all add: encodeToString_def hex_byte_def)
next
  case (Cons x xs)
  show ?case
  proof (cases ys)
    case (Cons y ys')
    have "encodeToString (x # xs) = encodeToString (y # ys') \<longleftrightarrow>
        hex_byte x = hex_byte y \<and> encodeToString xs = encodeToString ys'"
      by (auto simp: encodeToString_def hex_byte_def)
    with Cons Cons.IH show ?thesis by (simp add: hex_byte_inject)
  qed (simp add: encodeToString_def hex_byte_def)
qed

lemma encodeToString_length: "length (encodeToString bs) = 2 * length bs"
  by (induction bs) (simp_all add: encodeToString_def hex_byte_def)

section \<open>The registry of one caller\<close>

record 'c managed =
  mg_connection :: 'c
  mg_closed :: bool
  mg_readers :: nat

record 'c registry =
  rg_connections :: "(string \<times> nat) list"
  rg_heap :: "'c managed list"

definition newConnectionRegistry :: "'c registry" where
  "newConnectionRegistry = \<lparr>rg_connections = [], rg_heap = []\<rparr>"

text \<open>
  \<open>newConnectionID\<close> encodes what \<open>rand.Read\<close> delivers, sixteen bytes or an error; \<open>rand\<close> is
  the random source. \<open>add\<close> draws until an identifier is free.
\<close>

definition newConnectionID :: "('w \<Rightarrow> (go_error + bytes) \<times> 'w) \<Rightarrow> 'w \<Rightarrow> (go_error + string) \<times> 'w" where
  "newConnectionID rand w = (case rand w of (r, w1) \<Rightarrow> (map_sum id encodeToString r, w1))"

definition register :: "'c registry \<Rightarrow> string \<Rightarrow> 'c \<Rightarrow> 'c registry" where
  "register r i c =
     \<lparr>rg_connections = (i, length (rg_heap r)) # rg_connections r,
      rg_heap = rg_heap r @ [\<lparr>mg_connection = c, mg_closed = False, mg_readers = 0\<rparr>]\<rparr>"

partial_function (option) add ::
  "('w \<Rightarrow> (go_error + bytes) \<times> 'w) \<Rightarrow> 'c registry \<Rightarrow> 'c \<Rightarrow> 'w \<Rightarrow>
   ((go_error + string) \<times> 'c registry \<times> 'w) option" where
  "add rand r c w =
     (case newConnectionID rand w of
        (Inl e, w1) \<Rightarrow> Some (Inl e, r, w1)
      | (Inr i, w1) \<Rightarrow>
          if map_of (rg_connections r) i \<noteq> None then add rand r c w1
          else Some (Inr i, register r i c, w1))"

definition acquire :: "'c registry \<Rightarrow> string \<Rightarrow> ('c \<times> nat) option \<times> 'c registry" where
  "acquire r i =
     (case map_of (rg_connections r) i of
        None \<Rightarrow> (None, r)
      | Some a \<Rightarrow>
          (let m = rg_heap r ! a in
           if mg_closed m then (None, r)
           else (Some (mg_connection m, a),
                 r\<lparr>rg_heap := (rg_heap r)[a := m\<lparr>mg_readers := Suc (mg_readers m)\<rparr>]\<rparr>)))"

definition release :: "'c registry \<Rightarrow> nat \<Rightarrow> 'c registry" where
  "release r a =
     (let m = rg_heap r ! a in
      r\<lparr>rg_heap := (rg_heap r)[a := m\<lparr>mg_readers := mg_readers m - 1\<rparr>]\<rparr>)"

text \<open>\<open>managedConnection.close\<close>: the exclusive lock waits for the readers.\<close>

definition managed_close ::
  "('c \<Rightarrow> 'w \<Rightarrow> go_error option \<times> 'w) \<Rightarrow> 'c registry \<Rightarrow> nat \<Rightarrow> 'w \<Rightarrow>
   (go_error option \<times> 'c registry \<times> 'w) option" where
  "managed_close cl r a w =
     (let m = rg_heap r ! a in
      if mg_readers m \<noteq> 0 then None
      else if mg_closed m then Some (None, r, w)
      else
        (case cl (mg_connection m) w of
           (e, w1) \<Rightarrow> Some (e, r\<lparr>rg_heap := (rg_heap r)[a := m\<lparr>mg_closed := True\<rparr>]\<rparr>, w1)))"

definition unregister :: "'c registry \<Rightarrow> string \<Rightarrow> 'c registry" where
  "unregister r i = r\<lparr>rg_connections := filter (\<lambda>(j, _). j \<noteq> i) (rg_connections r)\<rparr>"

definition close ::
  "('c \<Rightarrow> 'w \<Rightarrow> go_error option \<times> 'w) \<Rightarrow> 'c registry \<Rightarrow> string \<Rightarrow> 'w \<Rightarrow>
   ((bool \<times> go_error option) \<times> 'c registry \<times> 'w) option" where
  "close cl r i w =
     (case map_of (rg_connections r) i of
        None \<Rightarrow> Some ((False, None), r, w)
      | Some a \<Rightarrow> map_option (map_prod (Pair True) id) (managed_close cl (unregister r i) a w))"

fun close_each ::
  "('c \<Rightarrow> 'w \<Rightarrow> go_error option \<times> 'w) \<Rightarrow> nat list \<Rightarrow> 'c registry \<Rightarrow> 'w \<Rightarrow>
   (go_error option list \<times> 'c registry \<times> 'w) option" where
  "close_each cl [] r w = Some ([], r, w)"
| "close_each cl (a # as) r w =
     (case managed_close cl r a w of
        None \<Rightarrow> None
      | Some (e, r1, w1) \<Rightarrow> map_option (map_prod ((#) e) id) (close_each cl as r1 w1))"

text \<open>\<open>order\<close> is the order in which Go's map iteration delivers the entries.\<close>

definition closeAll ::
  "((string \<times> nat) list \<Rightarrow> (string \<times> nat) list) \<Rightarrow> ('c \<Rightarrow> 'w \<Rightarrow> go_error option \<times> 'w) \<Rightarrow>
   'c registry \<Rightarrow> 'w \<Rightarrow> (go_error option \<times> 'c registry \<times> 'w) option" where
  "closeAll order cl r w =
     map_option (map_prod errors_Join id)
       (close_each cl (map snd (order (rg_connections r))) (r\<lparr>rg_connections := []\<rparr>) w)"

subsection \<open>Well-formed registries\<close>

definition registry_ok :: "'c registry \<Rightarrow> bool" where
  "registry_ok r \<longleftrightarrow>
     distinct (map fst (rg_connections r)) \<and> distinct (map snd (rg_connections r)) \<and>
     (\<forall>a\<in>snd ` set (rg_connections r). a < length (rg_heap r) \<and> \<not> mg_closed (rg_heap r ! a))"

lemma newConnectionRegistry_ok: "registry_ok newConnectionRegistry"
  by (simp add: registry_ok_def newConnectionRegistry_def)

lemma register_ok:
  "registry_ok r \<Longrightarrow> map_of (rg_connections r) i = None \<Longrightarrow> registry_ok (register r i c)"
  by (force simp: registry_ok_def register_def map_of_eq_None_iff nth_append)

lemma mg_closed_readers [simp]:
  "mg_closed (xs[a := (xs ! a)\<lparr>mg_readers := n\<rparr>] ! b) = mg_closed (xs ! b)"
  by (cases "a < length xs"; cases "a = b") (auto simp: list_update_beyond)

lemma mg_connection_closed [simp]:
  "mg_connection (xs[a := (xs ! a)\<lparr>mg_closed := x\<rparr>] ! b) = mg_connection (xs ! b)"
  by (cases "a < length xs"; cases "a = b") (auto simp: list_update_beyond)

lemma acquire_ok: "registry_ok r \<Longrightarrow> registry_ok (snd (acquire r i))"
  by (auto simp: registry_ok_def acquire_def Let_def split: option.splits)

lemma release_ok: "registry_ok r \<Longrightarrow> registry_ok (release r a)"
  by (auto simp: registry_ok_def release_def Let_def)

lemma unregister_ok: "registry_ok r \<Longrightarrow> registry_ok (unregister r i)"
  by (auto simp: registry_ok_def unregister_def distinct_map_filter)

lemma map_of_filter_neq:
  "map_of (filter (\<lambda>(j, _). j \<noteq> i) xs) k = (if k = i then None else map_of xs k)"
  by (induction xs) auto

lemma unregister_pointer:
  assumes "registry_ok r" and "map_of (rg_connections r) i = Some a"
  shows "a \<notin> snd ` set (rg_connections (unregister r i))"
proof
  assume "a \<in> snd ` set (rg_connections (unregister r i))"
  then obtain j where j: "(j, a) \<in> set (rg_connections r)" "j \<noteq> i"
    by (auto simp: unregister_def)
  moreover from assms(2) have "(i, a) \<in> set (rg_connections r)" by (rule map_of_SomeD)
  ultimately have "(i, a) = (j, a)"
    using assms(1) inj_onD [of snd "set (rg_connections r)" "(i, a)" "(j, a)"]
    by (auto simp: registry_ok_def distinct_map)
  with j show False by simp
qed

text \<open>Acquiring and releasing leaves the registry as it was.\<close>

lemma release_acquire:
  assumes "acquire r i = (Some (c, a), r')" and "registry_ok r"
  shows "release r' a = r"
proof -
  from assms(1) have a: "map_of (rg_connections r) i = Some a" and
    r': "r' = r\<lparr>rg_heap := (rg_heap r)[a := (rg_heap r ! a)\<lparr>mg_readers := Suc (mg_readers (rg_heap r ! a))\<rparr>]\<rparr>"
    by (auto simp: acquire_def Let_def split: option.splits if_splits)
  from a assms(2) have "a < length (rg_heap r)"
    by (force simp: registry_ok_def dest: map_of_SomeD)
  then show ?thesis by (simp add: r' release_def Let_def)
qed

lemma acquire_registered:
  assumes "registry_ok r"
  shows "(\<exists>c a. fst (acquire r i) = Some (c, a)) \<longleftrightarrow> map_of (rg_connections r) i \<noteq> None"
  using assms by (force simp: acquire_def registry_ok_def Let_def split: option.splits dest: map_of_SomeD)

subsection \<open>Drawing an identifier\<close>

text \<open>\<open>draws rand w is w'\<close>: the source delivers these identifiers one after the other.\<close>

fun draws :: "('w \<Rightarrow> (go_error + bytes) \<times> 'w) \<Rightarrow> 'w \<Rightarrow> string list \<Rightarrow> 'w \<Rightarrow> bool" where
  "draws rand w [] w' \<longleftrightarrow> w' = w"
| "draws rand w (i # is) w' \<longleftrightarrow> (\<exists>w1. newConnectionID rand w = (Inr i, w1) \<and> draws rand w1 is w')"

lemma add_returns:
  assumes "draws rand w (taken @ [i]) w'" and "\<forall>j\<in>set taken. map_of (rg_connections r) j \<noteq> None"
    and "map_of (rg_connections r) i = None"
  shows "add rand r c w = Some (Inr i, register r i c, w')"
  using assms
proof (induction taken arbitrary: w)
  case Nil
  then show ?case by (subst add.simps) auto
next
  case (Cons j js)
  from Cons.prems(1) obtain w1 where w1: "newConnectionID rand w = (Inr j, w1)" "draws rand w1 (js @ [i]) w'"
    by auto
  with Cons.IH [OF w1(2)] Cons.prems(2,3) show ?case
    by (subst add.simps) auto
qed

lemma add_result:
  assumes "add rand r c w = Some y"
  shows "(\<exists>e. fst y = Inl e \<and> fst (snd y) = r) \<or>
    (\<exists>i. fst y = Inr i \<and> map_of (rg_connections r) i = None \<and> fst (snd y) = register r i c)"
  by (rule add.raw_induct [where P = "\<lambda>rand r c w y. (\<exists>e. fst y = Inl e \<and> fst (snd y) = r) \<or>
    (\<exists>i. fst y = Inr i \<and> map_of (rg_connections r) i = None \<and> fst (snd y) = register r i c)", OF _ assms])
    (auto split: prod.splits sum.splits if_splits)

subsection \<open>Closing\<close>

lemma managed_close_ok:
  assumes "registry_ok r" and "managed_close cl r a w = Some (e, r', w')"
    and "a \<notin> snd ` set (rg_connections r)"
  shows "registry_ok r'"
proof -
  have same: "mg_closed ((rg_heap r)[a := m] ! snd x) = mg_closed (rg_heap r ! snd x)"
    if "x \<in> set (rg_connections r)" for x m
    using that assms(3) by (metis image_eqI nth_list_update_neq)
  from assms(2) obtain m where "r' = r \<or> r' = r\<lparr>rg_heap := (rg_heap r)[a := m]\<rparr>"
    by (auto simp: managed_close_def Let_def split: if_splits prod.splits)
  with assms(1) show ?thesis by (elim disjE) (simp_all add: registry_ok_def same)
qed

text \<open>\<open>close_log\<close> is what closing a list of open connections in order yields.\<close>

fun close_log :: "('c \<Rightarrow> 'w \<Rightarrow> go_error option \<times> 'w) \<Rightarrow> 'c list \<Rightarrow> 'w \<Rightarrow> go_error option list \<times> 'w" where
  "close_log cl [] w = ([], w)"
| "close_log cl (c # cs) w =
     (case cl c w of (e, w1) \<Rightarrow> map_prod ((#) e) id (close_log cl cs w1))"

definition idle :: "'c registry \<Rightarrow> bool" where
  "idle r \<longleftrightarrow> (\<forall>m\<in>set (rg_heap r). mg_readers m = 0)"

lemma close_each_log:
  assumes "distinct as" and "\<forall>a\<in>set as. a < length (rg_heap r) \<and> \<not> mg_closed (rg_heap r ! a)"
    and "idle r"
  shows "\<exists>r'. close_each cl as r w =
      Some (fst (close_log cl (map (\<lambda>a. mg_connection (rg_heap r ! a)) as) w), r',
            snd (close_log cl (map (\<lambda>a. mg_connection (rg_heap r ! a)) as) w)) \<and>
    rg_connections r' = rg_connections r \<and> length (rg_heap r') = length (rg_heap r) \<and>
    (\<forall>a < length (rg_heap r). mg_closed (rg_heap r' ! a) \<longleftrightarrow> mg_closed (rg_heap r ! a) \<or> a \<in> set as)"
  using assms
proof (induction "as" arbitrary: r w)
  case (Cons a as)
  let ?m = "rg_heap r ! a"
  let ?r1 = "r\<lparr>rg_heap := (rg_heap r)[a := ?m\<lparr>mg_closed := True\<rparr>]\<rparr>"
  obtain e w1 where cl: "cl (mg_connection ?m) w = (e, w1)" by fastforce
  have a: "a < length (rg_heap r)" "\<not> mg_closed ?m" "mg_readers ?m = 0"
    using Cons.prems by (auto simp: idle_def)
  then have step: "managed_close cl r a w = Some (e, ?r1, w1)"
    by (simp add: managed_close_def Let_def cl)
  have same: "map (\<lambda>a. mg_connection (rg_heap ?r1 ! a)) as = map (\<lambda>a. mg_connection (rg_heap r ! a)) as"
    using Cons.prems(1) by (auto simp: nth_list_update)
  have "idle ?r1"
    using Cons.prems(3) a(3) by (auto simp: idle_def dest!: set_update_subset_insert [THEN subsetD])
  moreover have "\<forall>b\<in>set as. b < length (rg_heap ?r1) \<and> \<not> mg_closed (rg_heap ?r1 ! b)"
    using Cons.prems(1,2) by (auto simp: nth_list_update)
  moreover have "distinct as" using Cons.prems(1) by simp
  ultimately obtain r' where r': "close_each cl as ?r1 w1 =
      Some (fst (close_log cl (map (\<lambda>a. mg_connection (rg_heap r ! a)) as) w1), r',
            snd (close_log cl (map (\<lambda>a. mg_connection (rg_heap r ! a)) as) w1))"
    "rg_connections r' = rg_connections ?r1" "length (rg_heap r') = length (rg_heap ?r1)"
    "\<forall>b < length (rg_heap ?r1). mg_closed (rg_heap r' ! b) \<longleftrightarrow> mg_closed (rg_heap ?r1 ! b) \<or> b \<in> set as"
    using Cons.IH [of ?r1 w1] unfolding same by blast
  show ?case
    by (intro exI [of _ r']) (use r' step cl a in \<open>auto simp: nth_list_update map_prod_def split: prod.splits\<close>)
qed simp

section \<open>The registry under concurrency\<close>

text \<open>
  A thread runs \<open>acquire\<close> and an operation (looked up, then holding the read lock), \<open>close\<close>
  or \<open>closeAll\<close> (connections removed and still to be closed, then holding the write lock of
  one while its \<open>Close\<close> runs). \<open>cc_closes\<close> counts the calls of \<open>Close\<close> per connection.
\<close>

datatype pc =
    Idle
  | Looked nat
  | Using nat
  | Removed "nat list"
  | Closing nat "nat list"

record concurrent =
  cc_connections :: "string \<rightharpoonup> nat"
  cc_next :: nat
  cc_closed :: "nat \<Rightarrow> bool"
  cc_closes :: "nat \<Rightarrow> nat"
  cc_pc :: "nat \<Rightarrow> pc"

definition write_locked :: "concurrent \<Rightarrow> nat \<Rightarrow> bool" where
  "write_locked s a \<longleftrightarrow> (\<exists>t rest. cc_pc s t = Closing a rest)"

definition read_locked :: "concurrent \<Rightarrow> nat \<Rightarrow> bool" where
  "read_locked s a \<longleftrightarrow> (\<exists>t. cc_pc s t = Using a)"

definition goto :: "concurrent \<Rightarrow> nat \<Rightarrow> pc \<Rightarrow> concurrent" where
  "goto s t p = s\<lparr>cc_pc := (cc_pc s)(t := p)\<rparr>"

inductive registry_step :: "concurrent \<Rightarrow> concurrent \<Rightarrow> bool" where
  add: "cc_connections s i = None \<Longrightarrow>
    registry_step s (s\<lparr>cc_connections := (cc_connections s)(i \<mapsto> cc_next s), cc_next := Suc (cc_next s)\<rparr>)"
| lookup: "cc_pc s t = Idle \<Longrightarrow> cc_connections s i = Some a \<Longrightarrow> registry_step s (goto s t (Looked a))"
| rlock_open: "cc_pc s t = Looked a \<Longrightarrow> \<not> write_locked s a \<Longrightarrow> \<not> cc_closed s a \<Longrightarrow>
    registry_step s (goto s t (Using a))"
| rlock_closed: "cc_pc s t = Looked a \<Longrightarrow> \<not> write_locked s a \<Longrightarrow> cc_closed s a \<Longrightarrow>
    registry_step s (goto s t Idle)"
| release: "cc_pc s t = Using a \<Longrightarrow> registry_step s (goto s t Idle)"
| remove: "cc_pc s t = Idle \<Longrightarrow> cc_connections s i = Some a \<Longrightarrow>
    registry_step s ((goto s t (Removed [a]))\<lparr>cc_connections := (cc_connections s)(i := None)\<rparr>)"
| remove_all: "cc_pc s t = Idle \<Longrightarrow> set as = ran (cc_connections s) \<Longrightarrow> distinct as \<Longrightarrow>
    registry_step s ((goto s t (Removed as))\<lparr>cc_connections := Map.empty\<rparr>)"
| lock_close: "cc_pc s t = Removed (a # as) \<Longrightarrow> \<not> write_locked s a \<Longrightarrow> \<not> read_locked s a \<Longrightarrow>
    \<not> cc_closed s a \<Longrightarrow>
    registry_step s ((goto s t (Closing a as))\<lparr>cc_closed := (cc_closed s)(a := True),
      cc_closes := (cc_closes s)(a := Suc (cc_closes s a))\<rparr>)"
| lock_closed: "cc_pc s t = Removed (a # as) \<Longrightarrow> \<not> write_locked s a \<Longrightarrow> \<not> read_locked s a \<Longrightarrow>
    cc_closed s a \<Longrightarrow> registry_step s (goto s t (Removed as))"
| unlock: "cc_pc s t = Closing a as \<Longrightarrow> registry_step s (goto s t (Removed as))"
| close_returns: "cc_pc s t = Removed [] \<Longrightarrow> registry_step s (goto s t Idle)"

definition registry_init :: "concurrent \<Rightarrow> bool" where
  "registry_init s \<longleftrightarrow>
     cc_connections s = Map.empty \<and> cc_next s = 0 \<and> (\<forall>a. \<not> cc_closed s a \<and> cc_closes s a = 0) \<and>
     (\<forall>t. cc_pc s t = Idle)"

text \<open>The removed connections a thread has yet to close.\<close>

definition pending :: "pc \<Rightarrow> nat list" where
  "pending p = (case p of Removed as \<Rightarrow> as | Closing _ as \<Rightarrow> as | _ \<Rightarrow> [])"

lemma pending_simps [simp]:
  "pending Idle = []" "pending (Looked a) = []" "pending (Using a) = []" "pending (Removed as) = as"
  "pending (Closing a as) = as"
  by (simp_all add: pending_def)

text \<open>
  The invariant. \<open>owned\<close>: every connection is registered under one identifier, or waits in
  one thread to be closed, or is closed, and never two of these. \<open>lock_ok\<close>: a connection in
  use is not closed, one being closed is.
\<close>

definition owned :: "(string \<rightharpoonup> nat) \<Rightarrow> nat \<Rightarrow> (nat \<Rightarrow> bool) \<Rightarrow> (nat \<Rightarrow> nat list) \<Rightarrow> bool" where
  "owned C n closed P \<longleftrightarrow>
     (\<forall>i a. C i = Some a \<longrightarrow> a < n \<and> \<not> closed a \<and> (\<forall>t. a \<notin> set (P t))) \<and>
     (\<forall>i j a. C i = Some a \<longrightarrow> C j = Some a \<longrightarrow> i = j) \<and>
     (\<forall>t. distinct (P t)) \<and>
     (\<forall>t a. a \<in> set (P t) \<longrightarrow> a < n \<and> \<not> closed a) \<and>
     (\<forall>t u a. a \<in> set (P t) \<longrightarrow> a \<in> set (P u) \<longrightarrow> t = u) \<and>
     (\<forall>a. closed a \<longrightarrow> a < n) \<and>
     (\<forall>a < n. closed a \<or> (\<exists>i. C i = Some a) \<or> (\<exists>t. a \<in> set (P t)))"

definition lock_ok :: "(nat \<Rightarrow> bool) \<Rightarrow> pc \<Rightarrow> bool" where
  "lock_ok closed p \<longleftrightarrow> (case p of Using a \<Rightarrow> \<not> closed a | Closing a _ \<Rightarrow> closed a | _ \<Rightarrow> True)"

lemma lock_ok_simps [simp]:
  "lock_ok c Idle" "lock_ok c (Looked a)" "lock_ok c (Removed as)"
  "lock_ok c (Using a) \<longleftrightarrow> \<not> c a" "lock_ok c (Closing a as) \<longleftrightarrow> c a"
  by (simp_all add: lock_ok_def)

definition registry_inv :: "concurrent \<Rightarrow> bool" where
  "registry_inv s \<longleftrightarrow>
     owned (cc_connections s) (cc_next s) (cc_closed s) (\<lambda>t. pending (cc_pc s t)) \<and>
     (\<forall>t. lock_ok (cc_closed s) (cc_pc s t)) \<and>
     (\<forall>a. cc_closes s a = (if cc_closed s a then 1 else 0))"

lemma owned_add:
  assumes "owned C n closed P" and "C i = None"
  shows "owned (C(i \<mapsto> n)) (Suc n) closed P"
  unfolding owned_def
proof (intro conjI allI impI)
  fix a assume "a < Suc n"
  show "closed a \<or> (\<exists>j. (C(i \<mapsto> n)) j = Some a) \<or> (\<exists>t. a \<in> set (P t))"
  proof (cases "a < n")
    case True
    with assms have "closed a \<or> (\<exists>j. C j = Some a) \<or> (\<exists>t. a \<in> set (P t))" by (auto simp: owned_def)
    with assms(2) show ?thesis by (metis fun_upd_apply option.distinct(1))
  next
    case False
    with \<open>a < Suc n\<close> have "a = n" by simp
    then show ?thesis by (metis fun_upd_same)
  qed
qed (use assms in \<open>auto simp: owned_def less_Suc_eq split: if_splits\<close>)

lemma owned_remove:
  assumes "owned C n closed P" and "C i = Some a" and "P t = []"
  shows "owned (C(i := None)) n closed (P(t := [a]))"
  unfolding owned_def
proof (intro conjI allI impI)
  fix b assume "b < n"
  with assms(1) have "closed b \<or> (\<exists>j. C j = Some b) \<or> (\<exists>u. b \<in> set (P u))" by (auto simp: owned_def)
  with assms(2,3) show "closed b \<or> (\<exists>j. (C(i := None)) j = Some b) \<or> (\<exists>u. b \<in> set ((P(t := [a])) u))"
    by (metis empty_iff fun_upd_apply list.set(1) list.set_intros(1) option.inject)
qed (use assms in \<open>auto simp: owned_def split: if_splits\<close>)

lemma owned_remove_all:
  assumes "owned C n closed P" and "set as = ran C" and "distinct as" and "P t = []"
  shows "owned Map.empty n closed (P(t := as))"
  unfolding owned_def
proof (intro conjI allI impI)
  fix b assume "b < n"
  with assms(1) have "closed b \<or> (\<exists>j. C j = Some b) \<or> (\<exists>u. b \<in> set (P u))" by (auto simp: owned_def)
  with assms(2,4) show "closed b \<or> (\<exists>j. Map.empty j = Some b) \<or> (\<exists>u. b \<in> set ((P(t := as)) u))"
    by (metis empty_iff fun_upd_apply list.set(1) ranI)
qed (use assms in \<open>auto simp: owned_def ran_def split: if_splits\<close>)

lemma owned_close:
  assumes "owned C n closed P" and "P t = a # as"
  shows "owned C n (closed(a := True)) (P(t := as))"
  unfolding owned_def
proof (intro conjI allI impI)
  have a: "a \<in> set (P t)" using assms(2) by simp
  show "b < n" if "(closed(a := True)) b" for b
    using that assms(1) a by (auto simp: owned_def split: if_splits)
  have sub: "b \<in> set (P u)" if "b \<in> set ((P(t := as)) u)" for u b
    using that assms(2) by (auto split: if_splits)
  show "b < n" if "b \<in> set ((P(t := as)) u)" for u b
    using sub [OF that] assms(1) by (auto simp: owned_def)
  show "\<not> (closed(a := True)) b" if "b \<in> set ((P(t := as)) u)" for u b
  proof -
    have "b \<noteq> a"
      using that assms a unfolding owned_def by (metis distinct.simps(2) fun_upd_apply)
    with sub [OF that] assms(1) show ?thesis by (auto simp: owned_def)
  qed
  fix b assume "b < n"
  with assms(1) have "closed b \<or> (\<exists>j. C j = Some b) \<or> (\<exists>u. b \<in> set (P u))" by (auto simp: owned_def)
  with assms(2) show "(closed(a := True)) b \<or> (\<exists>j. C j = Some b) \<or> (\<exists>u. b \<in> set ((P(t := as)) u))"
    by (metis fun_upd_apply set_ConsD)
next
  have a: "a \<in> set (P t)" using assms(2) by simp
  show "\<not> (closed(a := True)) b" if "C i = Some b" for i b
    using that assms(1) a by (auto simp: owned_def)
  show "u = v" if "b \<in> set ((P(t := as)) u)" "b \<in> set ((P(t := as)) v)" for u v b
    using that assms unfolding owned_def by (metis fun_upd_apply list.set_intros(2))
  show "b \<notin> set ((P(t := as)) u)" if "C i = Some b" for i b u
  proof -
    have "b \<notin> set (P u)" using that assms(1) by (simp add: owned_def)
    with assms(2) show ?thesis by auto
  qed
  show "distinct ((P(t := as)) u)" for u
  proof -
    have "distinct (P u)" using assms(1) by (simp add: owned_def)
    with assms(2) show ?thesis by auto
  qed
qed (use assms in \<open>auto simp: owned_def split: if_splits\<close>)

lemma pending_goto: "(\<lambda>u. pending (cc_pc (goto s t p) u)) = (\<lambda>u. pending (cc_pc s u))(t := pending p)"
  by (auto simp: goto_def)

lemma goto_inv:
  assumes "registry_inv s" and "pending p = pending (cc_pc s t)" and "lock_ok (cc_closed s) p"
  shows "registry_inv (goto s t p)"
proof -
  have "(\<lambda>u. pending (cc_pc (goto s t p) u)) = (\<lambda>u. pending (cc_pc s u))"
    unfolding pending_goto assms(2) by (rule fun_upd_triv)
  with assms show ?thesis by (simp add: registry_inv_def goto_def)
qed

lemma registry_step_inv:
  assumes "registry_inv s" and "registry_step s s'"
  shows "registry_inv s'"
  using assms(2)
proof cases
  case (add i)
  then show ?thesis using assms(1) by (simp add: registry_inv_def owned_add)
next
  case (remove t i a)
  then have "owned ((cc_connections s)(i := None)) (cc_next s) (cc_closed s)
      ((\<lambda>u. pending (cc_pc s u))(t := [a]))"
    using assms(1) by (intro owned_remove) (auto simp: registry_inv_def)
  with remove assms(1) show ?thesis by (simp add: registry_inv_def goto_def fun_upd_def if_distrib cong: if_cong)
next
  case (remove_all t as)
  then have "owned Map.empty (cc_next s) (cc_closed s) ((\<lambda>u. pending (cc_pc s u))(t := as))"
    using assms(1) by (intro owned_remove_all) (auto simp: registry_inv_def)
  with remove_all assms(1) show ?thesis by (simp add: registry_inv_def goto_def fun_upd_def if_distrib cong: if_cong)
next
  case (lock_close t a as)
  then have "owned (cc_connections s) (cc_next s) ((cc_closed s)(a := True)) ((\<lambda>u. pending (cc_pc s u))(t := as))"
    using assms(1) by (intro owned_close) (auto simp: registry_inv_def)
  moreover have "lock_ok ((cc_closed s)(a := True)) (cc_pc s u)" for u
  proof -
    have "lock_ok (cc_closed s) (cc_pc s u)" using assms(1) by (simp add: registry_inv_def)
    with lock_close show ?thesis by (cases "cc_pc s u") (auto simp: read_locked_def)
  qed
  ultimately show ?thesis
    using lock_close assms(1) by (simp add: registry_inv_def goto_def fun_upd_def if_distrib cong: if_cong)
next
  case (lock_closed t a as)
  then have "a \<in> set (pending (cc_pc s t))" by simp
  with assms(1) lock_closed show ?thesis by (auto simp: registry_inv_def owned_def)
qed (use assms(1) in \<open>auto intro!: goto_inv\<close>)

interpretation registry: transition_invariant registry_init registry_step registry_inv
proof
  show "registry_inv s" if "registry_init s" for s
    using that by (simp add: registry_init_def registry_inv_def owned_def)
qed (rule registry_step_inv)

lemma close_effect:
  assumes "registry_ok r" and "idle r"
  shows "case map_of (rg_connections r) i of
      None \<Rightarrow> close cl r i w = Some ((False, None), r, w)
    | Some a \<Rightarrow>
        (\<exists>r'. close cl r i w =
           Some ((True, fst (cl (mg_connection (rg_heap r ! a)) w)), r', snd (cl (mg_connection (rg_heap r ! a)) w)) \<and>
         registry_ok r' \<and> fst (acquire r' i) = None \<and>
         (\<forall>j. j \<noteq> i \<longrightarrow> map_of (rg_connections r') j = map_of (rg_connections r) j))"
proof (cases "map_of (rg_connections r) i")
  case None
  then show ?thesis by (simp add: close_def)
next
  case (Some a)
  let ?m = "rg_heap r ! a"
  let ?r' = "(unregister r i)\<lparr>rg_heap := (rg_heap r)[a := ?m\<lparr>mg_closed := True\<rparr>]\<rparr>"
  obtain e w1 where cl: "cl (mg_connection ?m) w = (e, w1)" by fastforce
  have "a < length (rg_heap r)" "\<not> mg_closed ?m"
    using Some assms(1) by (force simp: registry_ok_def dest: map_of_SomeD)+
  then have "managed_close cl (unregister r i) a w = Some (e, ?r', w1)"
    using assms(2) by (simp add: managed_close_def unregister_def Let_def cl idle_def)
  moreover from this have "registry_ok ?r'"
    by (rule managed_close_ok [OF unregister_ok [OF assms(1)] _ unregister_pointer [OF assms(1) Some]])
  moreover have "map_of (rg_connections ?r') j = (if j = i then None else map_of (rg_connections r) j)" for j
    by (simp add: unregister_def map_of_filter_neq)
  ultimately show ?thesis using Some by (auto simp: close_def cl acquire_def)
qed

section \<open>Properties\<close>

text \<open>
  C7: Whatever the interleaving, \<open>Close\<close> of a connection is called at most once, never while
  an operation uses the connection and never before it has been taken out of the registry,
  and no operation starts on a closed connection. When no thread is inside the registry,
  every connection ever added is registered or has been closed exactly once.
\<close>

theorem close_is_exclusive:
  assumes "registry_init s0" and "rtranclp registry_step s0 s"
  shows "cc_closes s a \<le> 1 \<and>
    (cc_pc s t = Using a \<longrightarrow> cc_closes s a = 0 \<and> (\<forall>u rest. cc_pc s u \<noteq> Closing a rest)) \<and>
    (0 < cc_closes s a \<longrightarrow> (\<forall>i. cc_connections s i \<noteq> Some a)) \<and>
    ((\<forall>u. cc_pc s u = Idle) \<and> a < cc_next s \<longrightarrow>
       (\<exists>i. cc_connections s i = Some a) \<noteq> (cc_closes s a = 1))"
proof -
  have inv: "registry_inv s" using assms(2,1) by (rule registry.reachable_inv)
  then have lock: "lock_ok (cc_closed s) (cc_pc s u)" and closes: "cc_closes s b = (if cc_closed s b then 1 else 0)"
    and owned: "owned (cc_connections s) (cc_next s) (cc_closed s) (\<lambda>t. pending (cc_pc s t))" for u b
    by (simp_all add: registry_inv_def)
  have "\<not> cc_closed s a \<and> (\<forall>u rest. cc_pc s u \<noteq> Closing a rest)" if "cc_pc s t = Using a"
    using that lock [of t] lock by (metis lock_ok_simps(4,5))
  moreover have "\<forall>i. cc_connections s i \<noteq> Some a" if "cc_closed s a"
    using that owned by (auto simp: owned_def)
  moreover have "(\<exists>i. cc_connections s i = Some a) \<noteq> cc_closed s a" if "\<forall>u. cc_pc s u = Idle" "a < cc_next s"
  proof -
    have "\<forall>u. pending (cc_pc s u) = []" using that(1) by simp
    with owned that(2) have "cc_closed s a \<or> (\<exists>i. cc_connections s i = Some a)" by (simp add: owned_def)
    moreover have "\<not> (cc_closed s a \<and> (\<exists>i. cc_connections s i = Some a))"
      using owned by (auto simp: owned_def)
    ultimately show ?thesis by blast
  qed
  ultimately show ?thesis by (auto simp: closes)
qed

definition quiet :: concurrent where
  "quiet = \<lparr>cc_connections = Map.empty, cc_next = 0, cc_closed = \<lambda>_. False, cc_closes = \<lambda>_. 0,
            cc_pc = \<lambda>_. Idle\<rparr>"

theorem close_is_exclusive_witness:
  "\<exists>s. rtranclp registry_step quiet s \<and> cc_pc s 0 = Using 0 \<and> cc_closes s 0 = 0"
proof -
  let ?s1 = "quiet\<lparr>cc_connections := (cc_connections quiet)(''c'' \<mapsto> cc_next quiet), cc_next := Suc (cc_next quiet)\<rparr>"
  let ?s2 = "goto ?s1 0 (Looked 0)"
  let ?s3 = "goto ?s2 0 (Using 0)"
  have "registry_step quiet ?s1" by (rule registry_step.add) (simp add: quiet_def)
  moreover have "registry_step ?s1 ?s2"
    by (rule registry_step.lookup [where i = "''c''"]) (simp_all add: quiet_def)
  moreover have "registry_step ?s2 ?s3"
    by (rule registry_step.rlock_open) (simp_all add: quiet_def goto_def write_locked_def)
  ultimately have run: "rtranclp registry_step quiet ?s3"
    by (meson rtranclp.rtrancl_into_rtrancl rtranclp.rtrancl_refl)
  moreover have use: "cc_pc ?s3 0 = Using 0" by (simp add: goto_def)
  moreover have "registry_init quiet" by (simp add: registry_init_def quiet_def)
  ultimately show ?thesis
    using close_is_exclusive [of quiet ?s3 0 0] by blast
qed

text \<open>
  Opening: when the random source delivers taken identifiers and then a free one, \<open>add\<close>
  returns, registers the connection under the free identifier and keeps the registry
  well formed; \<open>acquire\<close> then finds that connection, other identifiers answer as before, and
  \<open>release\<close> restores the registry.
\<close>

theorem add_then_acquire:
  assumes "registry_ok r" and "draws rand w (taken @ [i]) w'"
    and "\<forall>j\<in>set taken. map_of (rg_connections r) j \<noteq> None" and "map_of (rg_connections r) i = None"
  shows "\<exists>r1. add rand r c w = Some (Inr i, r1, w') \<and> registry_ok r1 \<and>
    (\<exists>a r2. acquire r1 i = (Some (c, a), r2) \<and> release r2 a = r1) \<and>
    (\<forall>j. j \<noteq> i \<longrightarrow> map_option fst (fst (acquire r1 j)) = map_option fst (fst (acquire r j)))"
proof -
  let ?r1 = "register r i c"
  have ok: "registry_ok ?r1" using assms(1,4) by (rule register_ok)
  obtain a r2 where acq: "acquire ?r1 i = (Some (c, a), r2)"
    by (simp add: acquire_def register_def)
  have "map_option fst (fst (acquire ?r1 j)) = map_option fst (fst (acquire r j))" if "j \<noteq> i" for j
  proof (cases "map_of (rg_connections r) j")
    case (Some b)
    then have "b < length (rg_heap r)" using assms(1) by (force simp: registry_ok_def dest: map_of_SomeD)
    with that Some show ?thesis by (simp add: acquire_def register_def Let_def nth_append)
  qed (use that in \<open>simp add: acquire_def register_def\<close>)
  with add_returns [OF assms(2-4)] ok acq release_acquire [OF acq ok] show ?thesis by blast
qed

theorem add_then_acquire_witness:
  "\<exists>r1. add (\<lambda>w. (Inr w, w)) (newConnectionRegistry :: nat registry) 7 ''ab'' = Some (Inr ''6162'', r1, ''ab'') \<and>
     map_option fst (fst (acquire r1 ''6162'')) = Some 7"
proof -
  have "newConnectionID (\<lambda>w. (Inr w, w)) ''ab'' = (Inr ''6162'', ''ab'')" by code_simp
  then have "draws (\<lambda>w. (Inr w, w)) ''ab'' ([] @ [''6162'']) ''ab''" by simp
  from add_then_acquire [OF newConnectionRegistry_ok this, of "7 :: nat"] show ?thesis
    by (auto simp: newConnectionRegistry_def)
qed

text \<open>
  Closing: \<open>close\<close> on an identifier that is not registered closes nothing. On a
  registered one that no operation holds, it returns, calls \<open>Close\<close> of exactly that
  connection, reports its error, and leaves a well-formed registry in which the identifier is
  gone and every other identifier is as before.
\<close>

theorem close_removes:
  assumes "registry_ok r" and "idle r"
  shows "case map_of (rg_connections r) i of
      None \<Rightarrow> close cl r i w = Some ((False, None), r, w)
    | Some a \<Rightarrow>
        (\<exists>r'. close cl r i w =
           Some ((True, fst (cl (mg_connection (rg_heap r ! a)) w)), r', snd (cl (mg_connection (rg_heap r ! a)) w)) \<and>
         registry_ok r' \<and> fst (acquire r' i) = None \<and>
         (\<forall>j. j \<noteq> i \<longrightarrow> map_of (rg_connections r') j = map_of (rg_connections r) j))"
  using assms by (rule close_effect)

theorem close_removes_witness:
  "close (\<lambda>c w. (Some EOF, c # w)) (register newConnectionRegistry ''c'' (7::nat)) ''c'' [] \<noteq> None \<and>
   map_option (fst \<circ> fst) (close (\<lambda>c w. (Some EOF, c # w)) (register newConnectionRegistry ''c'' (7::nat)) ''c'' []) = Some True"
proof -
  have "registry_ok (register newConnectionRegistry ''c'' (7::nat))"
    by (rule register_ok [OF newConnectionRegistry_ok]) (simp add: newConnectionRegistry_def)
  moreover have "idle (register newConnectionRegistry ''c'' (7::nat))"
    by (simp add: idle_def register_def newConnectionRegistry_def)
  ultimately show ?thesis
    using close_removes [where r = "register newConnectionRegistry ''c'' (7::nat)" and i = "''c''"
        and cl = "\<lambda>c w. (Some EOF, c # w)" and w = "[]"]
    by (auto simp: register_def newConnectionRegistry_def)
qed

text \<open>
  \<open>closeAll\<close> on a registry in which no operation is running returns, in whatever order
  the map is walked: it closes every registered connection exactly once, joins exactly the
  errors these calls return, and leaves no identifier behind.
\<close>

theorem closeAll_closes_everything:
  assumes "registry_ok r" and "idle r" and "mset (order (rg_connections r)) = mset (rg_connections r)"
  shows "\<exists>r' errs w'. closeAll order cl r w = Some (errors_Join errs, r', w') \<and>
    (errs, w') = close_log cl (map (\<lambda>(_, a). mg_connection (rg_heap r ! a)) (order (rg_connections r))) w \<and>
    rg_connections r' = [] \<and>
    (\<forall>a < length (rg_heap r). mg_closed (rg_heap r' ! a) \<longleftrightarrow>
       mg_closed (rg_heap r ! a) \<or> a \<in> snd ` set (rg_connections r))"
proof -
  let ?as = "map snd (order (rg_connections r))"
  let ?r0 = "r\<lparr>rg_connections := []\<rparr>"
  have set: "set (order (rg_connections r)) = set (rg_connections r)"
    using assms(3) by (metis set_mset_mset)
  have "mset ?as = mset (map snd (rg_connections r))" using assms(3) by (simp only: mset_map)
  then have "distinct ?as" using assms(1) by (metis mset_eq_imp_distinct_iff registry_ok_def)
  moreover have "\<forall>a\<in>set ?as. a < length (rg_heap ?r0) \<and> \<not> mg_closed (rg_heap ?r0 ! a)"
    using assms(1) by (simp add: set registry_ok_def)
  moreover have "idle ?r0" using assms(2) by (simp add: idle_def)
  ultimately obtain r' where r': "close_each cl ?as ?r0 w =
      Some (fst (close_log cl (map (\<lambda>a. mg_connection (rg_heap ?r0 ! a)) ?as) w), r',
            snd (close_log cl (map (\<lambda>a. mg_connection (rg_heap ?r0 ! a)) ?as) w))"
      "rg_connections r' = []" "length (rg_heap r') = length (rg_heap r)"
      "\<forall>a < length (rg_heap r). mg_closed (rg_heap r' ! a) \<longleftrightarrow> mg_closed (rg_heap r ! a) \<or> a \<in> set ?as"
    using close_each_log [of ?as ?r0 cl w] by auto
  have conns: "map (\<lambda>a. mg_connection (rg_heap ?r0 ! a)) ?as =
      map (\<lambda>(_, a). mg_connection (rg_heap r ! a)) (order (rg_connections r))"
    by (simp add: case_prod_unfold comp_def)
  show ?thesis
    using r' unfolding conns by (auto simp: closeAll_def set)
qed

theorem closeAll_closes_everything_witness:
  "\<exists>r'. closeAll rev (\<lambda>c w. (None, c # w)) (register (register newConnectionRegistry ''a'' (1::nat)) ''b'' 2) [] =
     Some (None, r', [2, 1])"
proof -
  let ?r = "register (register newConnectionRegistry ''a'' (1::nat)) ''b'' 2"
  have "registry_ok ?r"
    by (intro register_ok newConnectionRegistry_ok) (simp_all add: newConnectionRegistry_def register_def)
  moreover have "idle ?r" by (simp add: idle_def register_def newConnectionRegistry_def)
  ultimately show ?thesis
    using closeAll_closes_everything [of ?r rev "\<lambda>c w. (None, c # w)" "[]"]
    by (auto simp: register_def newConnectionRegistry_def)
qed

end
