(* ===== verification/ValueFeatures.thy ===== *)
theory ValueFeatures
  imports ValueTyping
begin

text \<open>
  \<open>sdk-go/provider/value_features.go\<close>: what a batch may contain for the features its
  reader accepted, and the stamping of LOB references with the connection they belong to.

  A function that would dereference a nil pointer answers \<open>None\<close>: \<open>setLobReferenceConnection\<close>
  writes through \<open>typed.LobReference\<close>, which is nil for a value whose oneof is set to a nil
  reference. Batches that passed \<open>validateOutputBatchFeatures\<close> hold no such value.
\<close>

section \<open>Features\<close>

definition requireAcceptedFeature :: "string list \<Rightarrow> string \<Rightarrow> feature_err option" where
  "requireAcceptedFeature accepted feature =
     (if feature \<in> set accepted then None else Some (FeatureNotAccepted feature))"

definition is_array :: "('d, 'p) kind \<Rightarrow> bool" where
  "is_array k \<longleftrightarrow> (case k of ArrayValueNil \<Rightarrow> True | ArrayValue _ _ \<Rightarrow> True | _ \<Rightarrow> False)"

definition is_spatial :: "('d, 'p) kind \<Rightarrow> bool" where
  "is_spatial k \<longleftrightarrow> (case k of GeometryWithCrs _ \<Rightarrow> True | GeographyWithCrs _ \<Rightarrow> True | _ \<Rightarrow> False)"

definition lob_payload :: "('d, 'p) kind \<Rightarrow> lob_reference option option" where
  "lob_payload k = (case k of LobReference r \<Rightarrow> Some r | _ \<Rightarrow> None)"

text \<open>\<open>typed.ArrayValue.GetElements()\<close>, and no elements for other kinds.\<close>

definition array_elements :: "('d, 'p) kind \<Rightarrow> 'p list" where
  "array_elements k = (case k of ArrayValue _ els \<Rightarrow> els | _ \<Rightarrow> [])"

definition check_lob_reference :: "lob_reference option \<Rightarrow> feature_err option" where
  "check_lob_reference r =
     (case r of
        None \<Rightarrow> Some LobReferenceNeedsId
      | Some l \<Rightarrow>
          first_of
           [fail_if (lob_id l = []) LobReferenceNeedsId,
            fail_if (lob_type l \<noteq> VALUE_TYPE_BLOB \<and> lob_type l \<noteq> VALUE_TYPE_CLOB) LobReferenceTypeWrong,
            fail_if (case lob_expires_at l of None \<Rightarrow> True | Some t \<Rightarrow> t \<le> 0) LobReferenceNeedsExpiry,
            fail_if (lob_session_id l \<noteq> []) LobReferenceHasSession])"

text \<open>The checks of one value, without its array elements.\<close>

definition check_kind_features :: "string list \<Rightarrow> bool \<Rightarrow> ('d, 'p) kind \<Rightarrow> feature_err option" where
  "check_kind_features accepted lobs k =
     (if is_array k then requireAcceptedFeature accepted ArrayValuesV1
      else if is_spatial k then requireAcceptedFeature accepted SpatialValuesV1
      else
        (case lob_payload k of
           None \<Rightarrow> None
         | Some r \<Rightarrow>
             first_of
              [requireAcceptedFeature accepted LobReadV1,
               fail_if (\<not> lobs) LobTransportRequired,
               check_lob_reference r]))"

lemma size_array_elements:
  "e \<in> set (array_elements k) \<Longrightarrow> size_option size e < size (Value k)"
  by (cases k) (auto simp: array_elements_def intro!: le_imp_less_Suc le_SucI size_list_estimation')

function (sequential) validateOutputValueFeatures ::
  "string list \<Rightarrow> bool \<Rightarrow> value option \<Rightarrow> feature_err option" where
  "validateOutputValueFeatures accepted lobs None = None"
| "validateOutputValueFeatures accepted lobs (Some (Value k)) =
     first_of
      [check_kind_features accepted lobs k,
       first_error
         (\<lambda>i e. map_option (InElementFeature i) (validateOutputValueFeatures accepted lobs e))
         0 (array_elements k)]"
  by pat_completeness auto
termination
  by (relation "measure (\<lambda>(a, l, v). size_option size v)") (auto dest: size_array_elements)

declare validateOutputValueFeatures.simps(2) [simp del]

definition field_is_array :: "field_msg option \<Rightarrow> bool" where
  "field_is_array f \<longleftrightarrow>
     (case f of
        None \<Rightarrow> False
      | Some fl \<Rightarrow> f_type fl = VALUE_TYPE_ARRAY \<or>
          (case f_type_descriptor fl of None \<Rightarrow> False | Some d \<Rightarrow> td_type d = VALUE_TYPE_ARRAY))"

definition validateOutputBatchFeatures ::
  "tuple_batch option \<Rightarrow> string list \<Rightarrow> bool \<Rightarrow> feature_err option" where
  "validateOutputBatchFeatures batch accepted lobs =
     first_of
      [map_option InStructure (validateOutputBatchStructure batch),
       case batch of
         None \<Rightarrow> None
       | Some b \<Rightarrow>
           first_of
            [first_error
               (\<lambda>i f. if field_is_array f
                      then map_option (InField i) (requireAcceptedFeature accepted ArrayValuesV1)
                      else None) 0 (b_fields b),
             first_error
               (\<lambda>ti t. case t of
                   None \<Rightarrow> None
                 | Some vs \<Rightarrow>
                     first_error
                       (\<lambda>vi v. map_option (InTupleFeature ti vi)
                                (validateOutputValueFeatures accepted lobs v)) 0 vs)
               0 (b_tuples b)]]"

section \<open>LOB references\<close>

function (sequential) valueContainsLobReference :: "value option \<Rightarrow> bool" where
  "valueContainsLobReference None = False"
| "valueContainsLobReference (Some (Value k)) =
     (lob_payload k \<noteq> None \<or> list_ex valueContainsLobReference (array_elements k))"
  by pat_completeness auto
termination
  by (relation "measure (size_option size)") (auto dest: size_array_elements)

definition batchContainsLobReference :: "tuple_batch \<Rightarrow> bool" where
  "batchContainsLobReference b \<longleftrightarrow>
     list_ex (\<lambda>t. case t of None \<Rightarrow> False | Some vs \<Rightarrow> list_ex valueContainsLobReference vs) (b_tuples b)"

function (sequential) setLobReferenceConnection ::
  "string \<Rightarrow> value option \<Rightarrow> value option option" where
  "setLobReferenceConnection cid None = Some None"
| "setLobReferenceConnection cid (Some (Value k)) =
     (case k of
        LobReference None \<Rightarrow> None
      | LobReference (Some l) \<Rightarrow> Some (Some (Value (LobReference (Some (l\<lparr>lob_session_id := cid\<rparr>)))))
      | ArrayValue et els \<Rightarrow>
          map_option (\<lambda>els'. Some (Value (ArrayValue et els')))
            (those (map (setLobReferenceConnection cid) els))
      | _ \<Rightarrow> Some (Some (Value k)))"
  by pat_completeness auto
termination
  by (relation "measure (\<lambda>(c, v). size_option size v)")
    (auto dest!: size_list_estimation' [where f = "size_option size", OF _ order_refl])

definition stamp_tuple :: "string \<Rightarrow> tuple_msg option \<Rightarrow> tuple_msg option option" where
  "stamp_tuple cid t =
     (case t of
        None \<Rightarrow> Some None
      | Some vs \<Rightarrow> map_option Some (those (map (setLobReferenceConnection cid) vs)))"

definition prepareOutputBatch :: "tuple_batch \<Rightarrow> string \<Rightarrow> tuple_batch option" where
  "prepareOutputBatch b cid =
     (if \<not> batchContainsLobReference b then Some b
      else map_option (\<lambda>ts. b\<lparr>b_tuples := ts\<rparr>) (those (map (stamp_tuple cid) (b_tuples b))))"

section \<open>What the feature check accepts\<close>

text \<open>The values inside a value: itself and what its array elements hold.\<close>

inductive inside :: "value \<Rightarrow> value option \<Rightarrow> bool" where
  here: "inside (Value k) (Some (Value k))"
| element: "e \<in> set (array_elements k) \<Longrightarrow> inside w e \<Longrightarrow> inside w (Some (Value k))"

inductive_cases inside_NoneE [elim!]: "inside w None"

lemma inside_None [simp]: "\<not> inside w None"
  by auto

lemma inside_Value:
  "inside w (Some (Value k)) \<longleftrightarrow> w = Value k \<or> (\<exists>e\<in>set (array_elements k). inside w e)"
  by (subst inside.simps) auto

lemma validateOutputValueFeatures_None [check_simps]:
  "validateOutputValueFeatures accepted lobs v = None \<longleftrightarrow>
     (\<forall>w. inside w v \<longrightarrow> check_kind_features accepted lobs (kind_of w) = None)"
proof (induction accepted lobs v rule: validateOutputValueFeatures.induct)
  case (2 accepted lobs k)
  have "first_error (\<lambda>i e. map_option (InElementFeature i) (validateOutputValueFeatures accepted lobs e))
        0 (array_elements k) = None \<longleftrightarrow>
      (\<forall>e\<in>set (array_elements k). validateOutputValueFeatures accepted lobs e = None)"
    by (rule first_error_None_all) simp
  with 2 show ?case
    by (auto simp: validateOutputValueFeatures.simps(2) inside_Value)
qed simp

definition lob_reference_ok :: "lob_reference \<Rightarrow> bool" where
  "lob_reference_ok l \<longleftrightarrow>
     lob_id l \<noteq> [] \<and> lob_type l \<in> {VALUE_TYPE_BLOB, VALUE_TYPE_CLOB} \<and>
     (\<exists>t>0. lob_expires_at l = Some t) \<and> lob_session_id l = []"

lemma check_lob_reference_None: "check_lob_reference r = None \<longleftrightarrow> (\<exists>l. r = Some l \<and> lob_reference_ok l)"
  by (auto simp: check_lob_reference_def lob_reference_ok_def not_le split: option.splits)

definition uses_accepted :: "string list \<Rightarrow> bool \<Rightarrow> ('d, 'p) kind \<Rightarrow> bool" where
  "uses_accepted accepted lobs k \<longleftrightarrow>
     (is_array k \<longrightarrow> ArrayValuesV1 \<in> set accepted) \<and>
     (is_spatial k \<longrightarrow> SpatialValuesV1 \<in> set accepted) \<and>
     (\<forall>r. lob_payload k = Some r \<longrightarrow>
        LobReadV1 \<in> set accepted \<and> lobs \<and> (\<exists>l. r = Some l \<and> lob_reference_ok l))"

lemma kind_classes:
  "is_array k \<Longrightarrow> \<not> is_spatial k \<and> lob_payload k = None"
  "is_spatial k \<Longrightarrow> lob_payload k = None"
  by (auto simp: is_array_def is_spatial_def lob_payload_def split: kind.splits)

lemma check_kind_features_None [check_simps]:
  "check_kind_features accepted lobs k = None \<longleftrightarrow> uses_accepted accepted lobs k"
  by (auto simp: check_kind_features_def uses_accepted_def requireAcceptedFeature_def
      check_lob_reference_None kind_classes split: option.splits)

lemma requireAcceptedFeature_None [check_simps]:
  "requireAcceptedFeature accepted feature = None \<longleftrightarrow> feature \<in> set accepted"
  by (simp add: requireAcceptedFeature_def)

definition batch_values :: "tuple_batch \<Rightarrow> value option set" where
  "batch_values b = {v. \<exists>vs. Some vs \<in> set (b_tuples b) \<and> v \<in> set vs}"

lemma batch_features_tuples:
  "first_error
     (\<lambda>ti t. case t of None \<Rightarrow> None
        | Some vs \<Rightarrow> first_error (\<lambda>vi v. map_option (InTupleFeature ti vi)
                                  (validateOutputValueFeatures accepted lobs v)) 0 vs)
     0 ts = None \<longleftrightarrow>
   (\<forall>vs. Some vs \<in> set ts \<longrightarrow> (\<forall>v\<in>set vs. validateOutputValueFeatures accepted lobs v = None))"
proof -
  have "first_error
     (\<lambda>ti t. case t of None \<Rightarrow> None
        | Some vs \<Rightarrow> first_error (\<lambda>vi v. map_option (InTupleFeature ti vi)
                                  (validateOutputValueFeatures accepted lobs v)) 0 vs)
     0 ts = None \<longleftrightarrow>
     (\<forall>t\<in>set ts. case t of None \<Rightarrow> True
        | Some vs \<Rightarrow> \<forall>v\<in>set vs. validateOutputValueFeatures accepted lobs v = None)"
    by (rule first_error_None_all) (auto simp: first_error_None_all split: option.splits)
  also have "\<dots> \<longleftrightarrow> (\<forall>vs. Some vs \<in> set ts \<longrightarrow>
      (\<forall>v\<in>set vs. validateOutputValueFeatures accepted lobs v = None))"
    by (auto split: option.splits)
  finally show ?thesis .
qed

lemma validateOutputBatchFeatures_None [check_simps]:
  "validateOutputBatchFeatures (Some b) accepted lobs = None \<longleftrightarrow>
     output_batch_typed b \<and>
     (\<forall>f\<in>set (b_fields b). field_is_array f \<longrightarrow> ArrayValuesV1 \<in> set accepted) \<and>
     (\<forall>v\<in>batch_values b. \<forall>w. inside w v \<longrightarrow> uses_accepted accepted lobs (kind_of w))"
proof -
  have "first_error (\<lambda>i f. if field_is_array f
            then map_option (InField i) (requireAcceptedFeature accepted ArrayValuesV1) else None)
          0 (b_fields b) = None \<longleftrightarrow>
        (\<forall>f\<in>set (b_fields b). field_is_array f \<longrightarrow> ArrayValuesV1 \<in> set accepted)"
    by (rule first_error_None_all) (simp add: requireAcceptedFeature_None)
  then show ?thesis
    unfolding validateOutputBatchFeatures_def
    by (auto simp: check_simps batch_features_tuples batch_values_def)
qed

section \<open>What stamping changes\<close>

function (sequential) lob_references :: "value option \<Rightarrow> lob_reference option list" where
  "lob_references None = []"
| "lob_references (Some (Value k)) =
     (case lob_payload k of
        Some r \<Rightarrow> [r]
      | None \<Rightarrow> concat (map lob_references (array_elements k)))"
  by pat_completeness auto
termination
  by (relation "measure (size_option size)") (auto dest: size_array_elements)

text \<open>
  \<open>stamped cid v v'\<close>: the connection id is written into every LOB reference of \<open>v\<close>, the
  result has the type of \<open>v\<close>, and clearing the ids gives \<open>v\<close> back.
\<close>

definition stamped :: "string \<Rightarrow> value option \<Rightarrow> value option \<Rightarrow> bool" where
  "stamped cid v v' \<longleftrightarrow>
     setLobReferenceConnection cid v = Some v' \<and>
     setLobReferenceConnection [] v' = Some v \<and>
     (\<forall>d. validateValue v' d = validateValue v d) \<and>
     lob_references v' = map (map_option (\<lambda>l. l\<lparr>lob_session_id := cid\<rparr>)) (lob_references v)"

lemma actual_type_session:
  "actual_type (LobReference (Some (l\<lparr>lob_session_id := cid\<rparr>)) :: ('d, 'p) kind) =
   actual_type (LobReference (Some l) :: ('d, 'p) kind)"
  by (simp add: actual_type_def)

lemma stamped_scalar:
  assumes "lob_payload k = None" and "array_parts k = None"
  shows "stamped cid (Some (Value k)) (Some (Value k))"
proof -
  have "array_elements k = []" and "setLobReferenceConnection c (Some (Value k)) = Some (Some (Value k))" for c
    using assms by (auto simp: lob_payload_def array_parts_def array_elements_def split: kind.splits)
  with assms show ?thesis by (simp add: stamped_def)
qed

lemma LobReference_shape [simp]:
  "\<not> is_null (LobReference r)" "array_parts (LobReference r) = None"
  by (simp_all add: is_null_def array_parts_def)

lemma stamped_lob:
  assumes "lob_session_id l = []"
  shows "stamped cid (Some (Value (LobReference (Some l))))
           (Some (Value (LobReference (Some (l\<lparr>lob_session_id := cid\<rparr>)))))"
proof -
  have "l\<lparr>lob_session_id := []\<rparr> = l" using assms by simp
  then show ?thesis
    by (simp add: stamped_def lob_payload_def validateValue.simps(2) actual_type_session cong: sum.case_cong)
qed

lemma concat_list_all2:
  "list_all2 (\<lambda>x y. g y = f (g x)) xs ys \<Longrightarrow> (\<And>a b. f (a @ b) = f a @ f b) \<Longrightarrow> f [] = [] \<Longrightarrow>
   concat (map g ys) = f (concat (map g xs))"
  by (induction rule: list_all2_induct) auto

lemma stamped_array:
  assumes "list_all2 (stamped cid) els els'"
  shows "stamped cid (Some (Value (ArrayValue et els))) (Some (Value (ArrayValue et els')))"
proof -
  have "those (map (setLobReferenceConnection cid) els) = Some els'"
    and "those (map (setLobReferenceConnection []) els') = Some els"
    using assms by (auto simp: those_map_Some list_all2_conv_all_nth stamped_def)
  moreover have "first_error (\<lambda>i e. map_option (AtValue (InArrayElement i)) (validateValue e et)) 0 els =
      first_error (\<lambda>i e. map_option (AtValue (InArrayElement i)) (validateValue e et)) 0 els'"
    using assms by (rule first_error_list_all2) (simp add: stamped_def)
  moreover have "concat (map lob_references els') =
      map (map_option (\<lambda>l. l\<lparr>lob_session_id := cid\<rparr>)) (concat (map lob_references els))"
    using list_all2_mono [OF assms, of "\<lambda>x y. lob_references y =
      map (map_option (\<lambda>l. l\<lparr>lob_session_id := cid\<rparr>)) (lob_references x)"]
    by (rule concat_list_all2) (auto simp: stamped_def)
  ultimately show ?thesis
    by (simp add: stamped_def lob_payload_def array_elements_def validateValue.simps(2))
qed

lemma lob_payload_Some: "lob_payload k = Some r \<longleftrightarrow> k = LobReference r"
  by (auto simp: lob_payload_def split: kind.splits)

lemma stamped_ex:
  assumes "validateOutputValueFeatures accepted lobs v = None"
  shows "\<exists>v'. stamped cid v v'"
  using assms
proof (induction accepted lobs v rule: validateOutputValueFeatures.induct)
  case (1 accepted lobs)
  show ?case by (rule exI [of _ None]) (simp add: stamped_def)
next
  case (2 accepted lobs k)
  note hyps = 2
  show ?case
  proof (cases rule: array_parts_cases [of k])
    case 1
    show ?thesis
    proof (cases "lob_payload k")
      case None
      with 1 show ?thesis by (blast intro: stamped_scalar)
    next
      case (Some r)
      with hyps(2) obtain l where "r = Some l" and "lob_session_id l = []"
        by (auto simp: check_simps inside_Value uses_accepted_def lob_reference_ok_def)
      with Some show ?thesis by (auto simp: lob_payload_Some intro: stamped_lob)
    qed
  next
    case (2 et els)
    have els: "array_elements k = els" unfolding 2 by (simp add: array_elements_def)
    have "\<exists>v'. stamped cid e v'" if "e \<in> set els" for e
      using hyps that by (auto simp: els check_simps inside_Value)
    then obtain els' where "list_all2 (stamped cid) els els'"
      using ex_list_all2 [of els "stamped cid"] by blast
    then show ?thesis unfolding 2 by (blast intro: stamped_array)
  qed
qed

definition tuple_stamped :: "string \<Rightarrow> tuple_msg option \<Rightarrow> tuple_msg option \<Rightarrow> bool" where
  "tuple_stamped cid = rel_option (list_all2 (stamped cid))"

lemma stamp_tuple_Some:
  "tuple_stamped cid t t' \<Longrightarrow> stamp_tuple cid t = Some t' \<and> stamp_tuple [] t' = Some t"
  unfolding tuple_stamped_def stamp_tuple_def
  by (cases t; cases t') (auto simp: those_map_Some stamped_def list_all2_conv_all_nth)

lemma validateBatchTuples_stamped:
  assumes "list_all2 (tuple_stamped cid) ts ts'"
  shows "validateBatchTuples (b\<lparr>b_tuples := ts'\<rparr>) ds = validateBatchTuples (b\<lparr>b_tuples := ts\<rparr>) ds"
proof -
  have val: "validateValueAgainstDescriptor v' d = validateValueAgainstDescriptor v d"
    if "stamped cid v v'" for v v' d
    using that by (simp add: validateValueAgainstDescriptor_def stamped_def)
  have "first_error (\<lambda>vi v. map_option (w vi) (validateValueAgainstDescriptor v (ds ! vi))) 0 vs =
      first_error (\<lambda>vi v. map_option (w vi) (validateValueAgainstDescriptor v (ds ! vi))) 0 vs'"
    if "list_all2 (stamped cid) vs vs'" for vs vs' and w :: "nat \<Rightarrow> verr \<Rightarrow> verr"
    using that by (rule first_error_list_all2) (simp add: val)
  moreover have "length vs = length vs'" if "list_all2 (stamped cid) vs vs'" for vs vs'
    using that by (rule list_all2_lengthD)
  ultimately show ?thesis
    unfolding validateBatchTuples_def using assms
    by (auto intro!: first_error_list_all2 [symmetric, where R = "tuple_stamped cid"]
        simp: tuple_stamped_def elim!: option.rel_cases)
qed

lemma contains_lob_references: "valueContainsLobReference v \<longleftrightarrow> lob_references v \<noteq> []"
  by (induction v rule: valueContainsLobReference.induct)
    (auto simp: list_ex_iff split: option.splits)

lemma stamped_no_lob: "\<not> valueContainsLobReference v \<Longrightarrow> stamped cid v v"
proof (induction v rule: valueContainsLobReference.induct)
  case 1
  show ?case by (simp add: stamped_def)
next
  case (2 k)
  note hyps = 2
  show ?case
  proof (cases rule: array_parts_cases [of k])
    case 1
    with hyps(2) show ?thesis by (intro stamped_scalar) auto
  next
    case (2 et els)
    have "stamped cid e e" if "e \<in> set els" for e
      using hyps that unfolding 2 by (auto simp: array_elements_def list_ex_iff)
    then show ?thesis unfolding 2 by (intro stamped_array) (simp add: list_all2_same)
  qed
qed

text \<open>
  A batch that passed the feature check is prepared without a nil dereference: fields and
  types stay, every LOB reference carries the connection, and nothing else changes.
\<close>

lemma prepareOutputBatch_relation:
  assumes "validateOutputBatchFeatures (Some b) accepted lobs = None"
  shows "\<exists>ts. prepareOutputBatch b cid = Some (b\<lparr>b_tuples := ts\<rparr>) \<and>
              list_all2 (tuple_stamped cid) (b_tuples b) ts"
proof -
  have "\<exists>t'. tuple_stamped cid t t'" if "t \<in> set (b_tuples b)" for t
  proof (cases t)
    case None
    then show ?thesis by (intro exI [of _ None]) (simp add: tuple_stamped_def)
  next
    case (Some vs)
    have "\<exists>v'. stamped cid v v'" if "v \<in> set vs" for v
      using assms \<open>t \<in> _\<close> that Some
      by (intro stamped_ex [of accepted lobs]) (auto simp: check_simps batch_values_def)
    then obtain vs' where "list_all2 (stamped cid) vs vs'"
      using ex_list_all2 [of vs "stamped cid"] by blast
    with Some show ?thesis by (intro exI [of _ "Some vs'"]) (simp add: tuple_stamped_def)
  qed
  then obtain ts where ts: "list_all2 (tuple_stamped cid) (b_tuples b) ts"
    using ex_list_all2 [of "b_tuples b" "tuple_stamped cid"] by blast
  then have those: "those (map (stamp_tuple cid) (b_tuples b)) = Some ts"
    by (auto simp: those_map_Some list_all2_conv_all_nth dest: stamp_tuple_Some)
  show ?thesis
  proof (cases "batchContainsLobReference b")
    case True
    with ts those show ?thesis by (auto simp: prepareOutputBatch_def)
  next
    case False
    then have "tuple_stamped cid t t" if "t \<in> set (b_tuples b)" for t
      using that by (cases t)
        (auto simp: tuple_stamped_def batchContainsLobReference_def list_ex_iff
          intro!: list_all2_same [THEN iffD2] stamped_no_lob)
    with False show ?thesis
      by (intro exI [of _ "b_tuples b"]) (auto simp: prepareOutputBatch_def list_all2_same)
  qed
qed

definition tuple_lob_references :: "tuple_msg option \<Rightarrow> lob_reference option list" where
  "tuple_lob_references t = (case t of None \<Rightarrow> [] | Some vs \<Rightarrow> concat (map lob_references vs))"

definition batch_lob_references :: "tuple_batch \<Rightarrow> lob_reference option list" where
  "batch_lob_references b = concat (map tuple_lob_references (b_tuples b))"

lemma tuple_lob_references_stamped:
  "tuple_stamped cid t t' \<Longrightarrow>
   tuple_lob_references t' = map (map_option (\<lambda>l. l\<lparr>lob_session_id := cid\<rparr>)) (tuple_lob_references t)"
  unfolding tuple_stamped_def tuple_lob_references_def
  by (erule option.rel_cases)
    (auto intro!: concat_list_all2 simp: stamped_def elim: list_all2_mono)

lemma batch_lob_references_stamped:
  "list_all2 (tuple_stamped cid) (b_tuples b) ts \<Longrightarrow>
   batch_lob_references (b\<lparr>b_tuples := ts\<rparr>) =
     map (map_option (\<lambda>l. l\<lparr>lob_session_id := cid\<rparr>)) (batch_lob_references b)"
  unfolding batch_lob_references_def
  by (auto intro!: concat_list_all2 dest: tuple_lob_references_stamped elim: list_all2_mono)

lemma batchContainsLobReference_iff:
  "batchContainsLobReference b \<longleftrightarrow> batch_lob_references b \<noteq> []"
  by (auto simp: batchContainsLobReference_def batch_lob_references_def tuple_lob_references_def
      list_ex_iff contains_lob_references split: option.splits)

lemma stamped_back:
  assumes "list_all2 (tuple_stamped cid) (b_tuples b) ts" and "prepareOutputBatch b cid = Some (b\<lparr>b_tuples := ts\<rparr>)"
  shows "prepareOutputBatch (b\<lparr>b_tuples := ts\<rparr>) [] = Some b"
proof (cases "batchContainsLobReference b")
  case True
  then have "batchContainsLobReference (b\<lparr>b_tuples := ts\<rparr>)"
    using batch_lob_references_stamped [OF assms(1)] by (simp add: batchContainsLobReference_iff)
  moreover have "those (map (stamp_tuple []) ts) = Some (b_tuples b)"
    using assms(1) by (auto simp: those_map_Some list_all2_conv_all_nth dest: stamp_tuple_Some)
  ultimately show ?thesis by (simp add: prepareOutputBatch_def)
next
  case False
  with assms(2) have "b\<lparr>b_tuples := ts\<rparr> = b" by (simp add: prepareOutputBatch_def)
  with False show ?thesis by (simp add: prepareOutputBatch_def)
qed

lemma stamped_typed:
  assumes "list_all2 (tuple_stamped cid) (b_tuples b) ts"
  shows "output_batch_typed (b\<lparr>b_tuples := ts\<rparr>) \<longleftrightarrow> output_batch_typed b"
proof -
  have "validateBatchTuples (b\<lparr>b_tuples := ts\<rparr>) ds = validateBatchTuples b ds" for ds
    using validateBatchTuples_stamped [OF assms, of b ds] by simp
  then show ?thesis
    unfolding output_batch_typed_def validateBatchTuples_None [symmetric] by simp
qed

section \<open>Properties\<close>

definition lob_batch :: tuple_batch where
  "lob_batch =
     \<lparr>b_fields = [Some \<lparr>f_name = ''body'', f_type = VALUE_TYPE_BLOB, f_type_descriptor = None\<rparr>],
      b_tuples = [Some [Some (Value (LobReference (Some
        \<lparr>lob_id = ''lob-1'', lob_type = VALUE_TYPE_BLOB, lob_size_bytes = None, lob_session_id = [],
         lob_expires_at = Some 10\<rparr>)))]]\<rparr>"

lemma lob_batch_accepted: "validateOutputBatchFeatures (Some lob_batch) [LobReadV1] True = None"
  unfolding lob_batch_def LobReadV1_def by code_simp

text \<open>
  A batch is accepted for a reader exactly when it is well typed, its array fields and
  array values come only with the array feature accepted, values with a spatial reference
  only with the spatial feature, and LOB references only with the LOB feature, on a
  connection that can serve LOBs, with an identity, a LOB type, a positive expiry and no
  session.
\<close>

theorem output_features_exact:
  "validateOutputBatchFeatures (Some b) accepted lobs = None \<longleftrightarrow>
     output_batch_typed b \<and>
     (\<forall>f\<in>set (b_fields b). field_is_array f \<longrightarrow> ArrayValuesV1 \<in> set accepted) \<and>
     (\<forall>v\<in>batch_values b. \<forall>w. inside w v \<longrightarrow> uses_accepted accepted lobs (kind_of w))"
  by (rule validateOutputBatchFeatures_None)

theorem output_features_exact_witness:
  "output_batch_typed lob_batch \<and>
   (\<exists>v w. v \<in> batch_values lob_batch \<and> inside w v \<and>
      uses_accepted [LobReadV1] True (kind_of w) \<and> \<not> uses_accepted [] True (kind_of w))"
proof -
  have no: "validateOutputBatchFeatures (Some lob_batch) [] True \<noteq> None"
    unfolding lob_batch_def by code_simp
  have arrays: "\<not> field_is_array f" if "f \<in> set (b_fields lob_batch)" for f
    using that by (simp add: lob_batch_def field_is_array_def)
  note yes = output_features_exact [of lob_batch "[LobReadV1]" True, THEN iffD1, OF lob_batch_accepted]
  then obtain v w where "v \<in> batch_values lob_batch" "inside w v" "\<not> uses_accepted [] True (kind_of w)"
    using no arrays output_features_exact [of lob_batch "[]" True] by (metis (full_types))
  with yes show ?thesis by metis
qed

text \<open>
  A batch that passed the feature check is prepared without a nil dereference: its
  fields and its typing stay, every LOB reference carries the connection id and is otherwise
  as it was, and clearing the ids gives the provider's batch back.
\<close>

theorem prepared_batch_is_stamped:
  assumes "validateOutputBatchFeatures (Some b) accepted lobs = None"
  shows "\<exists>b'. prepareOutputBatch b cid = Some b' \<and> b_fields b' = b_fields b \<and>
           output_batch_typed b' \<and>
           batch_lob_references b' = map (map_option (\<lambda>l. l\<lparr>lob_session_id := cid\<rparr>)) (batch_lob_references b) \<and>
           prepareOutputBatch b' [] = Some b"
proof -
  obtain ts where ts: "prepareOutputBatch b cid = Some (b\<lparr>b_tuples := ts\<rparr>)"
      "list_all2 (tuple_stamped cid) (b_tuples b) ts"
    using prepareOutputBatch_relation [OF assms] by blast
  moreover have "output_batch_typed b" using assms by (simp add: check_simps)
  ultimately show ?thesis
    using stamped_typed [OF ts(2)] stamped_back [OF ts(2,1)] batch_lob_references_stamped [OF ts(2)]
    by auto
qed

theorem prepared_batch_is_stamped_witness:
  "\<exists>b'. prepareOutputBatch lob_batch ''conn-7'' = Some b' \<and>
     map (map_option lob_session_id) (batch_lob_references b') = [Some ''conn-7'']"
proof -
  have "map (map_option lob_session_id) (batch_lob_references b') = [Some ''conn-7'']"
    if "batch_lob_references b' =
      map (map_option (\<lambda>l. l\<lparr>lob_session_id := ''conn-7''\<rparr>)) (batch_lob_references lob_batch)" for b'
    unfolding that
    by (simp add: lob_batch_def batch_lob_references_def tuple_lob_references_def lob_payload_def)
  then show ?thesis
    using prepared_batch_is_stamped [OF lob_batch_accepted, of "''conn-7''"] by blast
qed

end
