(* ===== verification/Server.thy ===== *)
theory Server
  imports Registry ValueFeatures
begin

text \<open>
  The adapter between the gRPC service and a provider: \<open>sdk-go/provider/server.go\<close>,
  \<open>health.go\<close>, \<open>transaction.go\<close>, \<open>mutation.go\<close> and the handler of \<open>semantic.go\<close>. A handler
  takes the server's state (the registry of connections and the provider's world) and
  answers the error or the response together with the state after the call; \<open>None\<close> stands
  for a call that does not return because it waits for a lock or dereferences nil.

  \<open>run_with\<close> is the prologue all connection handlers share, \<open>acquireConnection\<close> and the
  deferred release around the body.
\<close>

record 'w server_state =
  ss_registry :: "'w connection registry"
  ss_world :: 'w

type_synonym 'a reply = "go_error + 'a"

section \<open>Acquiring a connection\<close>

definition acquireConnection ::
  "'w server_state \<Rightarrow> string \<Rightarrow> ('w connection \<times> nat) reply \<times> 'w server_state" where
  "acquireConnection s i =
     (if i = [] then (Inl (Status InvalidArgument (ServerReason ConnectionIdRequired)), s)
      else
        (case acquire (ss_registry s) i of
           (None, r) \<Rightarrow> (Inl (Status NotFound (ServerReason (ConnectionNotFound i))), s\<lparr>ss_registry := r\<rparr>)
         | (Some c, r) \<Rightarrow> (Inr c, s\<lparr>ss_registry := r\<rparr>)))"

definition run_with ::
  "'w server_state \<Rightarrow> string \<Rightarrow> (go_error \<Rightarrow> 'r) \<Rightarrow> ('w connection \<Rightarrow> 'w \<Rightarrow> ('r \<times> 'w) option) \<Rightarrow>
   ('r \<times> 'w server_state) option" where
  "run_with s i fail body =
     (case acquireConnection s i of
        (Inl e, s1) \<Rightarrow> Some (fail e, s1)
      | (Inr (c, a), s1) \<Rightarrow>
          (case body c (ss_world s1) of
             None \<Rightarrow> None
           | Some (r, w1) \<Rightarrow> Some (r, \<lparr>ss_registry = release (ss_registry s1) a, ss_world = w1\<rparr>)))"

definition reply_unit :: "go_error option \<times> 'w \<Rightarrow> (unit reply \<times> 'w) option" where
  "reply_unit r = (case r of (Some e, w) \<Rightarrow> Some (Inl e, w) | (None, w) \<Rightarrow> Some (Inr (), w))"

section \<open>Provider-wide calls\<close>

definition recovery_manager_of :: "'w provider \<Rightarrow> 'w \<Rightarrow> 'w recovery_manager option" where
  "recovery_manager_of p w = (case pv_recovery p of None \<Rightarrow> None | Some f \<Rightarrow> f w)"

definition GetCapabilities :: "'w provider \<Rightarrow> 'w server_state \<Rightarrow> capabilities reply \<times> 'w server_state" where
  "GetCapabilities p s =
     (case pv_capabilities p (ss_world s) of
        ((response, err), w) \<Rightarrow>
          (let s1 = s\<lparr>ss_world := w\<rparr> in
           case err of
             Some e \<Rightarrow> (Inl e, s1)
           | None \<Rightarrow>
               (case response of
                  None \<Rightarrow> (Inl (Status Internal (ServerReason NilCapabilities)), s1)
                | Some c \<Rightarrow>
                    (case validateProviderCapabilities c of
                       Some e \<Rightarrow> (Inl (Status Internal (ServerReason (InvalidCapabilities e))), s1)
                     | None \<Rightarrow>
                         (case validateTransactionRecoveryImplementation c
                                 (map_option rm_id (recovery_manager_of p w)) of
                            Some e \<Rightarrow> (Inl (Status Internal (ServerReason (InvalidRecoveryCapabilities e))), s1)
                          | None \<Rightarrow> (Inr c, s1))))))"

definition Health :: "'w provider \<Rightarrow> 'w server_state \<Rightarrow> health_response reply \<times> 'w server_state" where
  "Health p s =
     (case pv_health p (ss_world s) of
        ((response, err), w) \<Rightarrow>
          (let s1 = s\<lparr>ss_world := w\<rparr> in
           case err of
             Some e \<Rightarrow> (Inl e, s1)
           | None \<Rightarrow>
               (case response of
                  None \<Rightarrow> (Inl (Status Internal (ServerReason NilHealth)), s1)
                | Some h \<Rightarrow> (Inr h, s1))))"

record schema_response =
  sr_metadata :: "schema_metadata option"
  sr_schema_ddl :: string

definition schema_ddl :: "'w provider \<Rightarrow> 'w server_state \<Rightarrow> schema_response reply \<times> 'w server_state" where
  "schema_ddl p s =
     (case pv_schema p of
        None \<Rightarrow> (Inr \<lparr>sr_metadata = None, sr_schema_ddl = []\<rparr>, s)
      | Some schema \<Rightarrow>
          (case schema (ss_world s) of
             ((ddl, err), w) \<Rightarrow>
               (case err of
                  Some e \<Rightarrow> (Inl e, s\<lparr>ss_world := w\<rparr>)
                | None \<Rightarrow> (Inr \<lparr>sr_metadata = None, sr_schema_ddl = ddl\<rparr>, s\<lparr>ss_world := w\<rparr>))))"

definition GetSchema :: "'w provider \<Rightarrow> 'w server_state \<Rightarrow> schema_response reply \<times> 'w server_state" where
  "GetSchema p s =
     (case pv_metadata p of
        None \<Rightarrow> schema_ddl p s
      | Some metadata \<Rightarrow>
          (case metadata (ss_world s) of
             ((md, err), w) \<Rightarrow>
               (let s1 = s\<lparr>ss_world := w\<rparr> in
                case err of
                  Some e \<Rightarrow> (Inl e, s1)
                | None \<Rightarrow>
                    (case md of Some m \<Rightarrow> (Inr \<lparr>sr_metadata = Some m, sr_schema_ddl = []\<rparr>, s1) | None \<Rightarrow> schema_ddl p s1))))"

subsection \<open>Semantic fragments\<close>

definition MaxSemanticFragmentDocumentSize :: nat where "MaxSemanticFragmentDocumentSize = 1048576"
definition SemanticFragmentMediaTypeYAML :: string where "SemanticFragmentMediaTypeYAML = ''application/yaml''"
definition SemanticFragmentMediaTypeJSON :: string where "SemanticFragmentMediaTypeJSON = ''application/json''"

definition ValidateSemanticFragment :: "semantic_fragment option \<Rightarrow> fragment_err option" where
  "ValidateSemanticFragment fragment =
     (case fragment of
        None \<Rightarrow> Some FragmentRequired
      | Some f \<Rightarrow>
          first_of
           [fail_if (sf_document f = []) FragmentEmpty,
            fail_if (length (sf_document f) > MaxSemanticFragmentDocumentSize) FragmentTooLarge,
            fail_if (\<not> utf8_valid (sf_document f)) FragmentNotUtf8,
            fail_if (trimSpace (sf_version f) = []) FragmentVersionEmpty,
            fail_if (sf_media_type f \<noteq> SemanticFragmentMediaTypeYAML \<and>
                     sf_media_type f \<noteq> SemanticFragmentMediaTypeJSON) (FragmentMediaType (sf_media_type f))])"

definition CloneSemanticFragment :: "semantic_fragment option \<Rightarrow> semantic_fragment option" where
  "CloneSemanticFragment fragment =
     (case fragment of
        None \<Rightarrow> None
      | Some f \<Rightarrow> Some \<lparr>sf_document = sf_document f, sf_media_type = sf_media_type f, sf_version = sf_version f\<rparr>)"

record semantic_artifact =
  sa_document :: bytes
  sa_media_type :: string
  sa_version :: string
  sa_digest :: string

text \<open>\<open>sha256\<close> is \<open>sha256.Sum256\<close>; the \<open>%x\<close> verb prints its bytes in hexadecimal.\<close>

definition GetSemanticFragment ::
  "(bytes \<Rightarrow> bytes) \<Rightarrow> 'w provider \<Rightarrow> 'w server_state \<Rightarrow>
   semantic_artifact option reply \<times> 'w server_state" where
  "GetSemanticFragment sha256 p s =
     (case pv_semantic p of
        None \<Rightarrow> (Inr None, s)
      | Some semantic \<Rightarrow>
          (case semantic (ss_world s) of
             ((fragment, err), w) \<Rightarrow>
               (let s1 = s\<lparr>ss_world := w\<rparr> in
                case err of
                  Some e \<Rightarrow> (Inl e, s1)
                | None \<Rightarrow>
                    (case fragment of
                       None \<Rightarrow> (Inr None, s1)
                     | Some f \<Rightarrow>
                         (case ValidateSemanticFragment (Some f) of
                            Some e \<Rightarrow> (Inl (Status Internal (ServerReason (InvalidFragment e))), s1)
                          | None \<Rightarrow>
                              (Inr (Some \<lparr>sa_document = sf_document f, sa_media_type = sf_media_type f,
                                 sa_version = sf_version f,
                                 sa_digest = ''sha256:'' @ encodeToString (sha256 (sf_document f))\<rparr>), s1))))))"

section \<open>The life of a connection\<close>

definition OpenConnection ::
  "('w \<Rightarrow> (go_error + bytes) \<times> 'w) \<Rightarrow> 'w provider \<Rightarrow> 'w server_state \<Rightarrow>
   (string reply \<times> 'w server_state) option" where
  "OpenConnection rand p s =
     (case pv_open p (ss_world s) of
        ((connection, err), w) \<Rightarrow>
          (let s1 = s\<lparr>ss_world := w\<rparr> in
           case err of
             Some e \<Rightarrow> Some (Inl e, s1)
           | None \<Rightarrow>
               (case connection of
                  None \<Rightarrow> Some (Inl (Status Internal (ServerReason NilConnection)), s1)
                | Some c \<Rightarrow>
                    (case add rand (ss_registry s1) c w of
                       None \<Rightarrow> None
                     | Some (Inr i, r, w1) \<Rightarrow> Some (Inr i, \<lparr>ss_registry = r, ss_world = w1\<rparr>)
                     | Some (Inl e, r, w1) \<Rightarrow>
                         (case cn_close c w1 of
                            (closeErr, w2) \<Rightarrow>
                              Some (Inl (the (errors_Join [Some (Wrapped (ServerReason RegisterConnection) e), closeErr])),
                                    \<lparr>ss_registry = r, ss_world = w2\<rparr>))))))"

definition CloseConnection :: "string \<Rightarrow> 'w server_state \<Rightarrow> (unit reply \<times> 'w server_state) option" where
  "CloseConnection i s =
     (if i = [] then Some (Inl (Status InvalidArgument (ServerReason ConnectionIdRequired)), s)
      else
        (case close cn_close (ss_registry s) i (ss_world s) of
           None \<Rightarrow> None
         | Some ((found, err), r, w) \<Rightarrow>
             (let s1 = \<lparr>ss_registry = r, ss_world = w\<rparr> in
              case err of
                Some e \<Rightarrow> Some (Inl e, s1)
              | None \<Rightarrow>
                  if \<not> found then Some (Inl (Status NotFound (ServerReason (ConnectionNotFound i))), s1)
                  else Some (Inr (), s1))))"

definition Close ::
  "((string \<times> nat) list \<Rightarrow> (string \<times> nat) list) \<Rightarrow> 'w server_state \<Rightarrow>
   (go_error option \<times> 'w server_state) option" where
  "Close order s =
     map_option (\<lambda>(e, r, w). (e, \<lparr>ss_registry = r, ss_world = w\<rparr>))
       (closeAll order cn_close (ss_registry s) (ss_world s))"

section \<open>Local transactions\<close>

definition BeginTransaction :: "string \<Rightarrow> 'w server_state \<Rightarrow> (unit reply \<times> 'w server_state) option" where
  "BeginTransaction i s = run_with s i Inl (\<lambda>c w. reply_unit (cn_begin c w))"

definition CommitTransaction :: "string \<Rightarrow> 'w server_state \<Rightarrow> (unit reply \<times> 'w server_state) option" where
  "CommitTransaction i s = run_with s i Inl (\<lambda>c w. reply_unit (cn_commit c w))"

definition RollbackTransaction :: "string \<Rightarrow> 'w server_state \<Rightarrow> (unit reply \<times> 'w server_state) option" where
  "RollbackTransaction i s = run_with s i Inl (\<lambda>c w. reply_unit (cn_rollback c w))"

definition IsInTransaction :: "string \<Rightarrow> 'w server_state \<Rightarrow> (bool reply \<times> 'w server_state) option" where
  "IsInTransaction i s =
     run_with s i Inl
       (\<lambda>c w. case cn_in_transaction c w of
          ((active, err), w1) \<Rightarrow>
            Some (case err of Some e \<Rightarrow> Inl e | None \<Rightarrow> Inr active, w1))"

section \<open>Mutations\<close>

definition Insert :: "insert_request \<Rightarrow> 'w server_state \<Rightarrow> (insert_response reply \<times> 'w server_state) option" where
  "Insert req s =
     run_with s (i_connection_id req) Inl
       (\<lambda>c w.
          case validateInputBatchStructure (i_rows req) of
            Some e \<Rightarrow> Some (Inl (Status InvalidArgument (MutationReason (InsertInvalid e))), w)
          | None \<Rightarrow>
              (case cn_insert c (req\<lparr>i_connection_id := []\<rparr>) w of
                 ((response, err), w1) \<Rightarrow>
                   (case err of
                      Some e \<Rightarrow> Some (Inl e, w1)
                    | None \<Rightarrow>
                        (case response of
                           None \<Rightarrow> Some (Inr \<lparr>i_affected_rows = None, i_generated_values = None\<rparr>, w1)
                         | Some r \<Rightarrow>
                             (case validateOutputBatchFeatures (i_generated_values r)
                                     (i_accepted_features req) (cn_lob c \<noteq> None) of
                                Some e \<Rightarrow> Some (Inl (Status Internal (MutationReason (UnsupportedGeneratedValue e))), w1)
                              | None \<Rightarrow>
                                  (case i_generated_values r of
                                     None \<Rightarrow> Some (Inr r, w1)
                                   | Some b \<Rightarrow>
                                       map_option (\<lambda>b'. (Inr (r\<lparr>i_generated_values := Some b'\<rparr>), w1))
                                         (prepareOutputBatch b (i_connection_id req))))))))"

definition check_assignments :: "assignment option list \<Rightarrow> go_error option" where
  "check_assignments as =
     first_error
       (\<lambda>i a. case a of None \<Rightarrow> None
          | Some x \<Rightarrow> map_option (\<lambda>e. Status InvalidArgument (MutationReason (UpdateAssignmentInvalid i e)))
                       (validateExpressionValues (as_value x))) 0 as"

definition Update :: "update_request \<Rightarrow> 'w server_state \<Rightarrow> (update_response reply \<times> 'w server_state) option" where
  "Update req s =
     run_with s (u_connection_id req) Inl
       (\<lambda>c w.
          case first_of
                [check_assignments (u_assignments req),
                 map_option (\<lambda>e. Status InvalidArgument (MutationReason (UpdateFilterInvalid e)))
                   (validateExpressionValues (u_filter req))] of
            Some e \<Rightarrow> Some (Inl e, w)
          | None \<Rightarrow>
              (case cn_update c (req\<lparr>u_connection_id := []\<rparr>) w of
                 ((response, err), w1) \<Rightarrow>
                   Some (case err of
                           Some e \<Rightarrow> Inl e
                         | None \<Rightarrow> Inr (case response of None \<Rightarrow> \<lparr>u_affected_rows = None\<rparr> | Some r \<Rightarrow> r),
                         w1)))"

definition Delete :: "delete_request \<Rightarrow> 'w server_state \<Rightarrow> (delete_response reply \<times> 'w server_state) option" where
  "Delete req s =
     run_with s (d_connection_id req) Inl
       (\<lambda>c w.
          case map_option (\<lambda>e. Status InvalidArgument (MutationReason (DeleteFilterInvalid e)))
                 (validateExpressionValues (d_filter req)) of
            Some e \<Rightarrow> Some (Inl e, w)
          | None \<Rightarrow>
              (case cn_delete c (req\<lparr>d_connection_id := []\<rparr>) w of
                 ((response, err), w1) \<Rightarrow>
                   Some (case err of
                           Some e \<Rightarrow> Inl e
                         | None \<Rightarrow> Inr (case response of None \<Rightarrow> \<lparr>d_affected_rows = None\<rparr> | Some r \<Rightarrow> r),
                         w1)))"

section \<open>Handlers on a well-formed registry\<close>

text \<open>
  What a handler sees of the registry: the connection under an identifier. Acquiring and
  releasing cancel, so a handler runs its body on that connection and changes the world only.
\<close>

definition connection_at :: "'w server_state \<Rightarrow> string \<Rightarrow> 'w connection option" where
  "connection_at s i =
     map_option (\<lambda>a. mg_connection (rg_heap (ss_registry s) ! a)) (map_of (rg_connections (ss_registry s)) i)"

definition not_acquired :: "'w server_state \<Rightarrow> string \<Rightarrow> go_error option" where
  "not_acquired s i =
     (if i = [] then Some (Status InvalidArgument (ServerReason ConnectionIdRequired))
      else if connection_at s i = None then Some (Status NotFound (ServerReason (ConnectionNotFound i)))
      else None)"

lemma run_with_eq:
  assumes "registry_ok (ss_registry s)"
  shows "run_with s i fail body =
    (case not_acquired s i of
       Some e \<Rightarrow> Some (fail e, s)
     | None \<Rightarrow> map_option (\<lambda>(r, w). (r, s\<lparr>ss_world := w\<rparr>)) (body (the (connection_at s i)) (ss_world s)))"
proof (cases "i = [] \<or> connection_at s i = None")
  case True
  then show ?thesis
    by (auto simp: run_with_def acquireConnection_def not_acquired_def connection_at_def acquire_def)
next
  case False
  then obtain a where a: "map_of (rg_connections (ss_registry s)) i = Some a"
    by (auto simp: connection_at_def)
  then have "(i, a) \<in> set (rg_connections (ss_registry s))" by (rule map_of_SomeD)
  with assms have "\<not> mg_closed (rg_heap (ss_registry s) ! a)" by (force simp: registry_ok_def)
  with a obtain r where acq: "acquire (ss_registry s) i = (Some (the (connection_at s i), a), r)"
    by (simp add: acquire_def connection_at_def Let_def)
  with release_acquire [OF acq assms] False show ?thesis
    by (auto simp: run_with_def acquireConnection_def not_acquired_def split: option.splits prod.splits)
qed

lemma run_with_registry:
  assumes "registry_ok (ss_registry s)" and "run_with s i fail body = Some (r, s')"
  shows "ss_registry s' = ss_registry s"
  using assms(2) unfolding run_with_eq [OF assms(1)] by (auto split: option.splits)

lemmas handler_defs = BeginTransaction_def CommitTransaction_def RollbackTransaction_def
  IsInTransaction_def Insert_def Update_def Delete_def

section \<open>Opening and closing\<close>

lemma connection_at_register:
  assumes "registry_ok r"
  shows "connection_at \<lparr>ss_registry = register r i c, ss_world = w\<rparr> j =
    (if j = i then Some c else connection_at \<lparr>ss_registry = r, ss_world = w'\<rparr> j)"
proof -
  have "a < length (rg_heap r)" if "map_of (rg_connections r) j = Some a" for a
    using assms map_of_SomeD [OF that] by (force simp: registry_ok_def)
  then show ?thesis
    by (cases "map_of (rg_connections r) j") (auto simp: connection_at_def register_def nth_append)
qed

lemma OpenConnection_result:
  assumes "OpenConnection rand p s = Some (Inr i, s1)"
  shows "\<exists>c. fst (pv_open p (ss_world s)) = (Some c, None) \<and>
    map_of (rg_connections (ss_registry s)) i = None \<and> ss_registry s1 = register (ss_registry s) i c"
proof -
  from assms obtain c w r w1 where c: "pv_open p (ss_world s) = ((Some c, None), w)"
      "add rand (ss_registry s) c w = Some (Inr i, r, w1)" "s1 = \<lparr>ss_registry = r, ss_world = w1\<rparr>"
    by (auto simp: OpenConnection_def Let_def split: prod.splits option.splits sum.splits)
  with add_result [OF c(2)] show ?thesis by auto
qed

lemma CloseConnection_result:
  assumes "registry_ok (ss_registry s)" and "idle (ss_registry s)" and "i \<noteq> []" and "connection_at s i = Some c"
  shows "\<exists>s2. CloseConnection i s =
      Some (case fst (cn_close c (ss_world s)) of Some e \<Rightarrow> Inl e | None \<Rightarrow> Inr (), s2) \<and>
    ss_world s2 = snd (cn_close c (ss_world s)) \<and> registry_ok (ss_registry s2) \<and>
    connection_at s2 i = None"
proof -
  from assms(4) obtain a where a: "map_of (rg_connections (ss_registry s)) i = Some a"
      "c = mg_connection (rg_heap (ss_registry s) ! a)"
    by (auto simp: connection_at_def)
  from close_effect [OF assms(1,2), where i = i and cl = cn_close and w = "ss_world s"] a obtain r' where
    r': "close cn_close (ss_registry s) i (ss_world s) =
        Some ((True, fst (cn_close c (ss_world s))), r', snd (cn_close c (ss_world s)))"
      "registry_ok r'" "fst (acquire r' i) = None"
    by auto
  have "map_of (rg_connections r') i = None"
    using acquire_registered [OF r'(2), of i] r'(3) by auto
  with r' assms(3) show ?thesis
    by (intro exI [of _ "\<lparr>ss_registry = r', ss_world = snd (cn_close c (ss_world s))\<rparr>"])
      (auto simp: CloseConnection_def Let_def connection_at_def split: option.splits)
qed

section \<open>Properties\<close>

text \<open>
  Every unary handler that works on a connection gives its lock back: on every path,
  errors included, the registry after the call is the registry before it.
\<close>

theorem handlers_release_connections:
  assumes "registry_ok (ss_registry s)"
  shows "(\<forall>r s'. BeginTransaction i s = Some (r, s') \<longrightarrow> ss_registry s' = ss_registry s) \<and>
    (\<forall>r s'. CommitTransaction i s = Some (r, s') \<longrightarrow> ss_registry s' = ss_registry s) \<and>
    (\<forall>r s'. RollbackTransaction i s = Some (r, s') \<longrightarrow> ss_registry s' = ss_registry s) \<and>
    (\<forall>r s'. IsInTransaction i s = Some (r, s') \<longrightarrow> ss_registry s' = ss_registry s) \<and>
    (\<forall>r s'. Insert ireq s = Some (r, s') \<longrightarrow> ss_registry s' = ss_registry s) \<and>
    (\<forall>r s'. Update ureq s = Some (r, s') \<longrightarrow> ss_registry s' = ss_registry s) \<and>
    (\<forall>r s'. Delete dreq s = Some (r, s') \<longrightarrow> ss_registry s' = ss_registry s)"
  unfolding handler_defs by (intro conjI allI impI) (erule run_with_registry [OF assms])+

definition null_connection :: "nat connection" where
  "null_connection =
     \<lparr>cn_close = \<lambda>w. (None, w), cn_begin = \<lambda>w. (None, Suc w), cn_commit = \<lambda>w. (None, w),
      cn_rollback = \<lambda>w. (Some EOF, w), cn_in_transaction = \<lambda>w. ((w > 0, None), w),
      cn_query = \<lambda>_ w. ((None, None), w),
      cn_insert = \<lambda>_ w. ((Some \<lparr>i_affected_rows = Some 1, i_generated_values = Some lob_batch\<rparr>, None), Suc w),
      cn_update = \<lambda>_ w. ((None, None), w), cn_delete = \<lambda>_ w. ((None, None), w),
      cn_lob = Some \<lparr>lc_read = \<lambda>_ w. ((None, None), w), lc_release = \<lambda>_ w. (None, w)\<rparr>,
      cn_branches = None\<rparr>"

definition null_provider :: "nat provider" where
  "null_provider =
     \<lparr>pv_capabilities = \<lambda>w. ((Some lob_capabilities, None), w), pv_health = \<lambda>w. ((None, None), w),
      pv_open = \<lambda>w. ((Some null_connection, None), w), pv_schema = None, pv_metadata = None,
      pv_semantic = None, pv_recovery = None\<rparr>"

definition null_server :: "nat server_state" where
  "null_server = \<lparr>ss_registry = register newConnectionRegistry ''c1'' null_connection, ss_world = 0\<rparr>"

lemma null_server_ok: "registry_ok (ss_registry null_server)"
proof -
  have "registry_ok (register newConnectionRegistry ''c1'' null_connection)"
    by (rule register_ok [OF newConnectionRegistry_ok]) (simp add: newConnectionRegistry_def)
  then show ?thesis by (simp add: null_server_def)
qed

lemma null_server_world [simp]: "ss_world null_server = 0"
  by (simp add: null_server_def)

lemma null_server_connection: "connection_at null_server ''c1'' = Some null_connection"
  by (simp add: connection_at_def null_server_def register_def newConnectionRegistry_def)

theorem handlers_release_connections_witness:
  "\<exists>s'. BeginTransaction ''c1'' null_server = Some (Inr (), s') \<and> ss_registry s' = ss_registry null_server"
proof -
  have "BeginTransaction ''c1'' null_server = Some (Inr (), null_server\<lparr>ss_world := 1\<rparr>)"
    unfolding BeginTransaction_def run_with_eq [OF null_server_ok]
    by (simp add: not_acquired_def null_server_connection reply_unit_def) (simp add: null_connection_def)
  then show ?thesis
    using handlers_release_connections [OF null_server_ok, of "''c1''"] by blast
qed

text \<open>
  Insert. Rows that do not match their declared types never reach the provider: the
  caller gets \<open>InvalidArgument\<close> and the provider's state is untouched. Otherwise the provider
  is called once, with the connection id removed from the request. A success carries
  generated values only as the provider returned them, checked against the features the
  caller accepted and with the LOB references stamped with the caller's connection; and the
  handler always returns.
\<close>

theorem insert_behaviour:
  assumes "registry_ok (ss_registry s)" and "connection_at s (i_connection_id req) = Some c"
    and "i_connection_id req \<noteq> []"
  shows "\<exists>reply w'. Insert req s = Some (reply, s\<lparr>ss_world := w'\<rparr>) \<and>
    (case validateInputBatchStructure (i_rows req) of
       Some e \<Rightarrow> w' = ss_world s \<and> reply = Inl (Status InvalidArgument (MutationReason (InsertInvalid e)))
     | None \<Rightarrow>
         w' = snd (cn_insert c (req\<lparr>i_connection_id := []\<rparr>) (ss_world s)) \<and>
         (\<forall>r b'. reply = Inr r \<longrightarrow> i_generated_values r = Some b' \<longrightarrow>
            (\<exists>r0 b. fst (cn_insert c (req\<lparr>i_connection_id := []\<rparr>) (ss_world s)) = (Some r0, None) \<and>
               i_generated_values r0 = Some b \<and>
               validateOutputBatchFeatures (Some b) (i_accepted_features req) (cn_lob c \<noteq> None) = None \<and>
               prepareOutputBatch b (i_connection_id req) = Some b')))"
proof (cases "validateInputBatchStructure (i_rows req)")
  case (Some e)
  with assms(2,3) show ?thesis
    unfolding Insert_def run_with_eq [OF assms(1)] by (auto simp: not_acquired_def)
next
  case None
  obtain resp err w1 where call: "cn_insert c (req\<lparr>i_connection_id := []\<rparr>) (ss_world s) = ((resp, err), w1)"
    by (metis surj_pair)
  show ?thesis
  proof (cases "err \<noteq> None \<or> resp = None \<or>
      validateOutputBatchFeatures (i_generated_values (the resp)) (i_accepted_features req) (cn_lob c \<noteq> None) \<noteq> None")
    case True
    with None assms(2,3) call show ?thesis
      unfolding Insert_def run_with_eq [OF assms(1)] by (auto simp: not_acquired_def split: option.splits)
  next
    case False
    then obtain r where r: "resp = Some r" "err = None"
      "validateOutputBatchFeatures (i_generated_values r) (i_accepted_features req) (cn_lob c \<noteq> None) = None"
      by auto
    show ?thesis
    proof (cases "i_generated_values r")
      case Nil: None
      with None assms(2,3) call r show ?thesis
        unfolding Insert_def run_with_eq [OF assms(1)] by (auto simp: not_acquired_def)
    next
      case (Some b)
      with prepareOutputBatch_relation [of b "i_accepted_features req" "cn_lob c \<noteq> None" "i_connection_id req"] r(3)
      obtain b' where "prepareOutputBatch b (i_connection_id req) = Some b'" by auto
      with Some None assms(2,3) call r show ?thesis
        unfolding Insert_def run_with_eq [OF assms(1)] by (auto simp: not_acquired_def)
    qed
  qed
qed

definition lob_insert :: insert_request where
  "lob_insert = \<lparr>i_connection_id = ''c1'', i_entity = None, i_rows = None, i_returning_fields = [],
     i_accepted_features = [LobReadV1]\<rparr>"

theorem insert_behaviour_witness:
  "\<exists>reply. Insert lob_insert null_server = Some (reply, null_server\<lparr>ss_world := 1\<rparr>)"
proof -
  have call: "cn_insert null_connection r w = ((Some \<lparr>i_affected_rows = Some 1, i_generated_values = Some lob_batch\<rparr>, None), Suc w)"
    for r w by (simp add: null_connection_def)
  show ?thesis
    using insert_behaviour [OF null_server_ok, of lob_insert null_connection] null_server_connection
    by (auto simp: lob_insert_def call validateInputBatchStructure_def)
qed

text \<open>
  Capabilities reach a client only when the provider returned them without error, they
  are consistent, and the recovery they advertise is the recovery manager the provider
  exposes, under the same well-formed identity.
\<close>

theorem capabilities_reply:
  "fst (GetCapabilities p s) = Inr c \<longleftrightarrow>
     fst (pv_capabilities p (ss_world s)) = (Some c, None) \<and> capabilities_ok c \<and>
     map_option rm_id (recovery_manager_of p (snd (pv_capabilities p (ss_world s)))) = advertised_manager c"
proof -
  have "manager_id_ok m" if "capabilities_ok c" "advertised_manager c = Some m" for m
    using that
    by (auto simp: capabilities_ok_def recovery_ok_def advertised_manager_def split: option.splits if_splits)
  moreover obtain resp err w where cap: "pv_capabilities p (ss_world s) = ((resp, err), w)"
    by (metis surj_pair)
  then have "fst (GetCapabilities p s) = Inr c \<longleftrightarrow>
      resp = Some c \<and> err = None \<and> validateProviderCapabilities c = None \<and>
      validateTransactionRecoveryImplementation c (map_option rm_id (recovery_manager_of p w)) = None"
    by (auto simp: GetCapabilities_def Let_def split: option.splits)
  ultimately show ?thesis by (auto simp: cap check_simps)
qed

text \<open>
  The life of a connection. What \<open>OpenConnection\<close> registers under a new identifier is
  the connection the provider opened, and every other identifier keeps its connection. After
  \<open>CloseConnection\<close> of an idle registered connection, its \<open>Close\<close> has run, the caller learns
  its error, and the identifier is unknown to every handler from then on.
\<close>

theorem connection_lifecycle:
  assumes "registry_ok (ss_registry s)"
  shows "(OpenConnection rand p s = Some (Inr i, s1) \<longrightarrow>
      registry_ok (ss_registry s1) \<and> connection_at s i = None \<and>
      connection_at s1 i = fst (fst (pv_open p (ss_world s))) \<and>
      (\<forall>j. j \<noteq> i \<longrightarrow> connection_at s1 j = connection_at s j)) \<and>
    (idle (ss_registry s) \<and> i \<noteq> [] \<and> connection_at s i = Some c \<longrightarrow>
      (\<exists>s2. CloseConnection i s = Some (case fst (cn_close c (ss_world s)) of Some e \<Rightarrow> Inl e | None \<Rightarrow> Inr (), s2) \<and>
         ss_world s2 = snd (cn_close c (ss_world s)) \<and> registry_ok (ss_registry s2) \<and>
         not_acquired s2 i = Some (Status NotFound (ServerReason (ConnectionNotFound i)))))"
proof (intro conjI impI)
  assume "OpenConnection rand p s = Some (Inr i, s1)"
  from OpenConnection_result [OF this] obtain c where
    c: "fst (pv_open p (ss_world s)) = (Some c, None)" "map_of (rg_connections (ss_registry s)) i = None"
      "ss_registry s1 = register (ss_registry s) i c" by blast
  have at: "connection_at s1 j = (if j = i then Some c else connection_at s j)" for j
    using connection_at_register [OF assms, of i c "ss_world s1" j "ss_world s"] c(3) [symmetric]
    by (simp add: connection_at_def)
  show "registry_ok (ss_registry s1)" unfolding c(3) using assms c(2) by (rule register_ok)
  show "connection_at s i = None" using c(2) by (simp add: connection_at_def)
  show "connection_at s1 i = fst (fst (pv_open p (ss_world s)))" by (simp add: at c(1))
  show "\<forall>j. j \<noteq> i \<longrightarrow> connection_at s1 j = connection_at s j" by (simp add: at)
next
  assume "idle (ss_registry s) \<and> i \<noteq> [] \<and> connection_at s i = Some c"
  with CloseConnection_result [OF assms, of i c]
  show "\<exists>s2. CloseConnection i s = Some (case fst (cn_close c (ss_world s)) of Some e \<Rightarrow> Inl e | None \<Rightarrow> Inr (), s2) \<and>
      ss_world s2 = snd (cn_close c (ss_world s)) \<and> registry_ok (ss_registry s2) \<and>
      not_acquired s2 i = Some (Status NotFound (ServerReason (ConnectionNotFound i)))"
    by (auto simp: not_acquired_def)
qed

theorem connection_lifecycle_witness:
  "\<exists>s2. CloseConnection ''c1'' null_server = Some (Inr (), s2) \<and>
     not_acquired s2 ''c1'' = Some (Status NotFound (ServerReason (ConnectionNotFound ''c1'')))"
proof -
  have "idle (ss_registry null_server)"
    by (simp add: idle_def null_server_def register_def newConnectionRegistry_def)
  moreover have "cn_close null_connection w = (None, w)" for w by (simp add: null_connection_def)
  ultimately show ?thesis
    using connection_lifecycle [OF null_server_ok, where i = "''c1''" and c = null_connection and rand = "\<lambda>w. (Inl EOF, w)"
        and p = null_provider and ?s1.0 = null_server] null_server_connection
    by auto
qed

end
