(* ===== verification/QueryServer.thy ===== *)
theory QueryServer
  imports Server
begin

text \<open>
  \<open>sdk-go/provider/query.go\<close>: the streaming query handler and the validation of query
  outcomes. \<open>send\<close> is the transport: given the responses sent so far and the next one it
  answers nil or an error, and the handler's result carries the responses that were sent. The
  loop over the provider's stream ends when the stream does, which the provider decides, so
  \<open>query_loop\<close> is a partial function: \<open>None\<close> is a call that does not return. Every stream that
  ends makes it return.
\<close>

section \<open>Outcomes\<close>

definition check_warning :: "nat \<Rightarrow> query_warning option \<Rightarrow> outcome_err option" where
  "check_warning i warning =
     map_option InWarning
       (case warning of
          None \<Rightarrow> Some (WarningNil i)
        | Some w \<Rightarrow>
            first_of
             [fail_if (trimSpace (w_message w) = []) (WarningMessageRequired i),
              fail_if (w_code w \<noteq> [] \<and> trimSpace (w_code w) = []) (WarningCodeBlank i),
              fail_if (w_target w \<noteq> [] \<and> trimSpace (w_target w) = []) (WarningTargetBlank i),
              case w_role w of
                QUERY_DIAGNOSTIC_ROLE_WARNING \<Rightarrow> None
              | QUERY_DIAGNOSTIC_ROLE_PARTIAL_RESULT_CAUSE \<Rightarrow> None
              | QUERY_DIAGNOSTIC_ROLE_UNSPECIFIED \<Rightarrow> Some (WarningRoleUnspecified i)
              | r \<Rightarrow> Some (WarningRoleUnnamed i r)])"

definition is_cause :: "query_warning option \<Rightarrow> bool" where
  "is_cause w \<longleftrightarrow> map_option w_role w = Some QUERY_DIAGNOSTIC_ROLE_PARTIAL_RESULT_CAUSE"

definition validateQueryOutcome :: "query_outcome \<Rightarrow> outcome_err option" where
  "validateQueryOutcome o1 =
     first_of
      [case o_completion o1 of
         QUERY_COMPLETION_COMPLETE \<Rightarrow> None
       | QUERY_COMPLETION_PARTIAL \<Rightarrow> None
       | QUERY_COMPLETION_UNSPECIFIED \<Rightarrow> Some CompletionUnspecified
       | c \<Rightarrow> Some (CompletionUnnamed c),
       first_error check_warning 0 (o_warnings o1),
       (let partialResultCauses = length (filter is_cause (o_warnings o1)) in
        case o_completion o1 of
          QUERY_COMPLETION_COMPLETE \<Rightarrow> fail_if (partialResultCauses > 0) CompleteWithCause
        | QUERY_COMPLETION_PARTIAL \<Rightarrow> fail_if (partialResultCauses = 0) PartialWithoutCause
        | _ \<Rightarrow> None)]"

definition prepareQueryOutcome ::
  "'w result_stream \<Rightarrow> query_request \<Rightarrow> 'w \<Rightarrow> (outcome_err + query_outcome option) \<times> 'w" where
  "prepareQueryOutcome stream req w =
     (case (case rs_outcome stream of
              None \<Rightarrow> (Some \<lparr>o_completion = QUERY_COMPLETION_COMPLETE, o_warnings = []\<rparr>, w)
            | Some outcome \<Rightarrow> outcome w) of
        (None, w1) \<Rightarrow> (Inl OutcomeNil, w1)
      | (Some o1, w1) \<Rightarrow>
          (case validateQueryOutcome o1 of
             Some e \<Rightarrow> (Inl e, w1)
           | None \<Rightarrow>
               if o_completion o1 = QUERY_COMPLETION_PARTIAL \<and> \<not> q_allow_partial_results req
               then (Inl PartialForStrictQuery, w1)
               else if \<not> q_accept_outcome req
               then (if o_warnings o1 \<noteq> [] then (Inl WarningsNotAccepted, w1) else (Inr None, w1))
               else (Inr (Some o1), w1)))"

section \<open>The handler\<close>

type_synonym 'm transport = "'m list \<Rightarrow> 'm \<Rightarrow> go_error option"

partial_function (option) query_loop ::
  "'w result_stream \<Rightarrow> query_request \<Rightarrow> bool \<Rightarrow> query_response transport \<Rightarrow> query_response list \<Rightarrow> 'w \<Rightarrow>
   ((go_error option \<times> query_response list) \<times> 'w) option" where
  "query_loop stream req lobs send sent w =
     (case rs_next stream w of
        ((batch, err), w1) \<Rightarrow>
          (case err of
             Some e \<Rightarrow>
               if errors_Is_EOF e then
                 (case prepareQueryOutcome stream req w1 of
                    (Inl oe, w2) \<Rightarrow> Some ((Some (Status Internal (QueryReason (InvalidOutcome oe))), sent), w2)
                  | (Inr None, w2) \<Rightarrow> Some ((None, sent), w2)
                  | (Inr (Some o1), w2) \<Rightarrow>
                      (case send sent (OutcomeResponse o1) of
                         Some se \<Rightarrow> Some ((Some se, sent), w2)
                       | None \<Rightarrow> Some ((None, sent @ [OutcomeResponse o1]), w2)))
               else Some ((Some e, sent), w1)
           | None \<Rightarrow>
               (case batch of
                  None \<Rightarrow> Some ((Some (Status Internal (QueryReason NilBatch)), sent), w1)
                | Some b \<Rightarrow>
                    (case validateOutputBatchFeatures (Some b) (q_accepted_features req) lobs of
                       Some fe \<Rightarrow> Some ((Some (Status Internal (QueryReason (UnsupportedQueryValue fe))), sent), w1)
                     | None \<Rightarrow>
                         (case prepareOutputBatch b (q_connection_id req) of
                            None \<Rightarrow> None
                          | Some b' \<Rightarrow>
                              (case send sent (BatchResponse b') of
                                 Some se \<Rightarrow> Some ((Some se, sent), w1)
                               | None \<Rightarrow> query_loop stream req lobs send (sent @ [BatchResponse b']) w1))))))"

definition Query ::
  "query_response transport \<Rightarrow> query_request \<Rightarrow> 'w server_state \<Rightarrow>
   ((go_error option \<times> query_response list) \<times> 'w server_state) option" where
  "Query send req s =
     run_with s (q_connection_id req) (\<lambda>e. (Some e, []))
       (\<lambda>c w.
          if q_allow_partial_results req \<and> \<not> q_accept_outcome req
          then Some ((Some (Status InvalidArgument (QueryReason PartialNeedsOutcome)), []), w)
          else
            (case validateQueryRequestValues req of
               Some e \<Rightarrow> Some ((Some (Status InvalidArgument (QueryReason (QueryInvalid e))), []), w)
             | None \<Rightarrow>
                 (case cn_query c (req\<lparr>q_connection_id := []\<rparr>) w of
                    ((resultStream, err), w1) \<Rightarrow>
                      (case err of
                         Some e \<Rightarrow> Some ((Some e, []), w1)
                       | None \<Rightarrow>
                           (case resultStream of
                              None \<Rightarrow> Some ((Some (Status Internal (QueryReason NilResultStream)), []), w1)
                            | Some stream \<Rightarrow>
                                (case query_loop stream req (cn_lob c \<noteq> None) send [] w1 of
                                   None \<Rightarrow> None
                                 | Some ((returnErr, sent), w2) \<Rightarrow>
                                     (case rs_close stream w2 of
                                        (closeErr, w3) \<Rightarrow>
                                          Some ((case returnErr of None \<Rightarrow> closeErr | Some e \<Rightarrow> Some e, sent), w3))))))))"

section \<open>What outcomes are accepted\<close>

definition warning_ok :: "query_warning option \<Rightarrow> bool" where
  "warning_ok x \<longleftrightarrow>
     (\<exists>w. x = Some w \<and> trimSpace (w_message w) \<noteq> [] \<and>
        (trimSpace (w_code w) = [] \<longrightarrow> w_code w = []) \<and> (trimSpace (w_target w) = [] \<longrightarrow> w_target w = []) \<and>
        w_role w \<in> {QUERY_DIAGNOSTIC_ROLE_WARNING, QUERY_DIAGNOSTIC_ROLE_PARTIAL_RESULT_CAUSE})"

definition outcome_ok :: "query_outcome \<Rightarrow> bool" where
  "outcome_ok o1 \<longleftrightarrow>
     o_completion o1 \<in> {QUERY_COMPLETION_COMPLETE, QUERY_COMPLETION_PARTIAL} \<and>
     (\<forall>w\<in>set (o_warnings o1). warning_ok w) \<and>
     (o_completion o1 = QUERY_COMPLETION_PARTIAL \<longleftrightarrow> (\<exists>w\<in>set (o_warnings o1). is_cause w))"

lemma check_warning_None: "check_warning i w = None \<longleftrightarrow> warning_ok w"
  by (auto simp: check_warning_def warning_ok_def split: option.splits query_diagnostic_role.splits)

lemma validateQueryOutcome_None [check_simps]: "validateQueryOutcome o1 = None \<longleftrightarrow> outcome_ok o1"
proof -
  have "first_error check_warning 0 (o_warnings o1) = None \<longleftrightarrow> (\<forall>w\<in>set (o_warnings o1). warning_ok w)"
    by (rule first_error_None_all) (rule check_warning_None)
  moreover have "length (filter is_cause ws) = 0 \<longleftrightarrow> \<not> (\<exists>w\<in>set ws. is_cause w)" for ws
    by (auto simp: filter_empty_conv)
  ultimately show ?thesis
    by (cases "o_completion o1") (auto simp: validateQueryOutcome_def outcome_ok_def Let_def)
qed

lemma prepareQueryOutcome_Some:
  assumes "prepareQueryOutcome stream req w = (Inr x, w')"
  shows "case x of
      None \<Rightarrow> \<not> q_accept_outcome req
    | Some o1 \<Rightarrow> q_accept_outcome req \<and> outcome_ok o1 \<and>
        (o_completion o1 = QUERY_COMPLETION_PARTIAL \<longrightarrow> q_allow_partial_results req)"
  using assms
  by (auto simp: prepareQueryOutcome_def validateQueryOutcome_None
      split: prod.splits option.splits if_splits)

section \<open>What is sent\<close>

text \<open>
  A response stream in order: batches the provider produced, checked and stamped, then at
  most one outcome, which the caller accepted. A caller that gets no error and asked for the
  outcome gets it.
\<close>

definition deliverable :: "query_request \<Rightarrow> bool \<Rightarrow> tuple_batch \<Rightarrow> bool" where
  "deliverable req lobs b' \<longleftrightarrow>
     (\<exists>b. validateOutputBatchFeatures (Some b) (q_accepted_features req) lobs = None \<and>
          prepareOutputBatch b (q_connection_id req) = Some b')"

definition acceptable_outcome :: "query_request \<Rightarrow> query_outcome \<Rightarrow> bool" where
  "acceptable_outcome req o1 \<longleftrightarrow>
     q_accept_outcome req \<and> outcome_ok o1 \<and>
     (o_completion o1 = QUERY_COMPLETION_PARTIAL \<longrightarrow> q_allow_partial_results req)"

definition conforming :: "query_request \<Rightarrow> bool \<Rightarrow> go_error option \<Rightarrow> query_response list \<Rightarrow> bool" where
  "conforming req lobs err sent \<longleftrightarrow>
     (\<exists>bs os. sent = map BatchResponse bs @ map OutcomeResponse os \<and> length os \<le> 1 \<and>
        (\<forall>b\<in>set bs. deliverable req lobs b) \<and> (\<forall>o1\<in>set os. acceptable_outcome req o1) \<and>
        (err = None \<longrightarrow> (os \<noteq> [] \<longleftrightarrow> q_accept_outcome req)))"

lemma conforming_batches:
  "\<forall>b\<in>set bs. deliverable req lobs b \<Longrightarrow> err \<noteq> None \<or> \<not> q_accept_outcome req \<Longrightarrow>
   conforming req lobs err (map BatchResponse bs)"
  unfolding conforming_def by (intro exI [of _ bs] exI [of _ "[]"]) auto

lemma conforming_outcome:
  "\<forall>b\<in>set bs. deliverable req lobs b \<Longrightarrow> acceptable_outcome req o1 \<Longrightarrow>
   conforming req lobs err (map BatchResponse bs @ [OutcomeResponse o1])"
  unfolding conforming_def by (intro exI [of _ bs] exI [of _ "[o1]"]) (auto simp: acceptable_outcome_def)

lemma query_end_conforming:
  assumes "prepareQueryOutcome stream req w = (r, w')" and "\<forall>b\<in>set bs. deliverable req lobs b"
    and "(case r of
        Inl oe \<Rightarrow> Some ((Some (Status Internal (QueryReason (InvalidOutcome oe))), map BatchResponse bs), w')
      | Inr None \<Rightarrow> Some ((None, map BatchResponse bs), w')
      | Inr (Some o1) \<Rightarrow>
          (case send (map BatchResponse bs) (OutcomeResponse o1) of
             Some se \<Rightarrow> Some ((Some se, map BatchResponse bs), w')
           | None \<Rightarrow> Some ((None, map BatchResponse bs @ [OutcomeResponse o1]), w'))) = Some ((err, sent), w'')"
  shows "conforming req lobs err sent"
proof (cases r)
  case (Inl oe)
  with assms show ?thesis by (auto intro!: conforming_batches)
next
  case (Inr x)
  note out = prepareQueryOutcome_Some [OF assms(1) [unfolded Inr]]
  with assms(2,3) Inr show ?thesis
    by (auto intro!: conforming_batches conforming_outcome simp: acceptable_outcome_def split: option.splits)
qed

lemma query_loop_conforming:
  assumes "query_loop stream req lobs send sent w = Some y"
  shows "\<forall>bs. sent = map BatchResponse bs \<longrightarrow> (\<forall>b\<in>set bs. deliverable req lobs b) \<longrightarrow>
    conforming req lobs (fst (fst y)) (snd (fst y))"
proof (rule query_loop.raw_induct [where P = "\<lambda>stream req lobs send sent w y.
    \<forall>bs. sent = map BatchResponse bs \<longrightarrow> (\<forall>b\<in>set bs. deliverable req lobs b) \<longrightarrow>
      conforming req lobs (fst (fst y)) (snd (fst y))", OF _ assms], intro allI impI, goal_cases)
  case (1 loop stream req lobs send sent w y bs)
  obtain batch err w1 where next1: "rs_next stream w = ((batch, err), w1)" by (metis surj_pair)
  show ?case
  proof (cases err)
    case (Some e)
    show ?thesis
    proof (cases "errors_Is_EOF e")
      case True
      obtain r w2 where out: "prepareQueryOutcome stream req w1 = (r, w2)" by fastforce
      show ?thesis
        by (rule query_end_conforming [OF out 1(4), where send = send and w'' = "snd y"])
          (use 1(2,3) next1 Some True out in \<open>auto split: sum.splits option.splits\<close>)
    qed (use 1(2-4) next1 Some in \<open>auto intro!: conforming_batches\<close>)
  next
    case None
    show ?thesis
    proof (cases batch)
      case Nil: None
      with 1(2-4) next1 None show ?thesis by (auto intro!: conforming_batches)
    next
      case (Some b)
      show ?thesis
      proof (cases "validateOutputBatchFeatures (Some b) (q_accepted_features req) lobs")
        case ok: None
        with 1(2) next1 None Some obtain b' where b': "prepareOutputBatch b (q_connection_id req) = Some b'"
          by (auto split: option.splits)
        with ok have d: "deliverable req lobs b'" by (auto simp: deliverable_def)
        show ?thesis
        proof (cases "send sent (BatchResponse b')")
          case sent: None
          with 1(2) next1 None Some ok b' have "loop stream req lobs send (sent @ [BatchResponse b']) w1 = Some y"
            by simp
          with 1(1) have "\<forall>bs. sent @ [BatchResponse b'] = map BatchResponse bs \<longrightarrow>
              (\<forall>b\<in>set bs. deliverable req lobs b) \<longrightarrow> conforming req lobs (fst (fst y)) (snd (fst y))"
            by blast
          from spec [OF this, of "bs @ [b']"] 1(3,4) d show ?thesis by auto
        qed (use 1(2-4) next1 None Some ok b' in \<open>auto intro!: conforming_batches\<close>)
      qed (use 1(2-4) next1 None Some in \<open>auto intro!: conforming_batches\<close>)
    qed
  qed
qed

lemma conforming_mono: "conforming req lobs None sent \<Longrightarrow> conforming req lobs err sent"
  unfolding conforming_def by fastforce

lemma conforming_Nil: "conforming req lobs (Some e) []"
  using conforming_batches [of "[]" req lobs "Some e"] by simp

section \<open>Streams that end\<close>

text \<open>\<open>yields stream w bs e w'\<close>: from world \<open>w\<close> the stream delivers \<open>bs\<close> and then the error \<open>e\<close>.\<close>

fun yields :: "'w result_stream \<Rightarrow> 'w \<Rightarrow> tuple_batch list \<Rightarrow> go_error \<Rightarrow> 'w \<Rightarrow> bool" where
  "yields stream w [] e w' \<longleftrightarrow> (\<exists>b. rs_next stream w = ((b, Some e), w'))"
| "yields stream w (b # bs) e w' \<longleftrightarrow>
     (\<exists>w1. rs_next stream w = ((Some b, None), w1) \<and> yields stream w1 bs e w')"

lemma prepare_checked:
  assumes "validateOutputBatchFeatures (Some b) accepted lobs = None"
  obtains b' where "prepareOutputBatch b cid = Some b'"
  using prepareOutputBatch_relation [OF assms] by blast

lemma query_loop_returns:
  assumes "yields stream w bs e w'"
  shows "\<exists>y. query_loop stream req lobs send sent w = Some y"
  using assms
proof (induction bs arbitrary: w sent)
  case Nil
  then show ?case
    by (subst query_loop.simps) (auto split: prod.splits sum.splits option.splits)
next
  case (Cons b bs)
  from Cons.prems obtain w1 where w1: "rs_next stream w = ((Some b, None), w1)" "yields stream w1 bs e w'"
    by auto
  show ?case
  proof (cases "validateOutputBatchFeatures (Some b) (q_accepted_features req) lobs")
    case None
    then obtain b' where "prepareOutputBatch b (q_connection_id req) = Some b'" by (rule prepare_checked)
    with w1 None Cons.IH [OF w1(2)] show ?thesis
      by (subst query_loop.simps) (auto split: option.splits)
  next
    case (Some fe)
    with w1 show ?thesis by (subst query_loop.simps) auto
  qed
qed

definition stamp :: "string \<Rightarrow> tuple_batch \<Rightarrow> tuple_batch" where
  "stamp cid b = the (prepareOutputBatch b cid)"

text \<open>The end of the loop, after all batches are sent on a transport that does not fail.\<close>

definition query_end ::
  "'w result_stream \<Rightarrow> query_request \<Rightarrow> query_response list \<Rightarrow> 'w \<Rightarrow>
   (go_error option \<times> query_response list) \<times> 'w" where
  "query_end stream req sent w =
     (case prepareQueryOutcome stream req w of
        (Inl oe, w2) \<Rightarrow> ((Some (Status Internal (QueryReason (InvalidOutcome oe))), sent), w2)
      | (Inr None, w2) \<Rightarrow> ((None, sent), w2)
      | (Inr (Some o1), w2) \<Rightarrow> ((None, sent @ [OutcomeResponse o1]), w2))"

lemma query_loop_delivers:
  assumes "yields stream w bs e w'" and "errors_Is_EOF e" and "\<And>l m. send l m = None"
    and "\<forall>b\<in>set bs. validateOutputBatchFeatures (Some b) (q_accepted_features req) lobs = None"
  shows "query_loop stream req lobs send sent w =
    Some (query_end stream req (sent @ map (BatchResponse \<circ> stamp (q_connection_id req)) bs) w')"
  using assms(1,4)
proof (induction bs arbitrary: w sent)
  case Nil
  then show ?case
    by (subst query_loop.simps)
      (auto simp: assms(2,3) query_end_def split: prod.splits sum.splits option.splits)
next
  case (Cons b bs)
  from Cons.prems obtain w1 where w1: "rs_next stream w = ((Some b, None), w1)" "yields stream w1 bs e w'"
    by auto
  have ok: "validateOutputBatchFeatures (Some b) (q_accepted_features req) lobs = None"
    using Cons.prems(2) by simp
  then obtain b' where b': "prepareOutputBatch b (q_connection_id req) = Some b'" by (rule prepare_checked)
  have "query_loop stream req lobs send sent w = query_loop stream req lobs send (sent @ [BatchResponse b']) w1"
    by (subst query_loop.simps) (simp add: w1 ok b' assms(3))
  also have "\<dots> = Some (query_end stream req
      ((sent @ [BatchResponse b']) @ map (BatchResponse \<circ> stamp (q_connection_id req)) bs) w')"
    using Cons.prems(2) by (intro Cons.IH [OF w1(2)]) simp
  moreover have "stamp (q_connection_id req) b = b'" by (simp add: stamp_def b')
  ultimately show ?case by (simp add: comp_def)
qed

section \<open>Properties\<close>

lemma Query_eq:
  assumes "registry_ok (ss_registry s)"
  shows "Query send req s =
    (case not_acquired s (q_connection_id req) of
       Some e \<Rightarrow> Some ((Some e, []), s)
     | None \<Rightarrow>
         if q_allow_partial_results req \<and> \<not> q_accept_outcome req
         then Some ((Some (Status InvalidArgument (QueryReason PartialNeedsOutcome)), []), s)
         else
           (case validateQueryRequestValues req of
              Some e \<Rightarrow> Some ((Some (Status InvalidArgument (QueryReason (QueryInvalid e))), []), s)
            | None \<Rightarrow>
                (case cn_query (the (connection_at s (q_connection_id req))) (req\<lparr>q_connection_id := []\<rparr>) (ss_world s) of
                   ((resultStream, err), w1) \<Rightarrow>
                     (case err of
                        Some e \<Rightarrow> Some ((Some e, []), s\<lparr>ss_world := w1\<rparr>)
                      | None \<Rightarrow>
                          (case resultStream of
                             None \<Rightarrow> Some ((Some (Status Internal (QueryReason NilResultStream)), []), s\<lparr>ss_world := w1\<rparr>)
                           | Some stream \<Rightarrow>
                               map_option
                                 (\<lambda>((err, sent), w2).
                                    ((case err of None \<Rightarrow> fst (rs_close stream w2) | Some e \<Rightarrow> Some e, sent),
                                     s\<lparr>ss_world := snd (rs_close stream w2)\<rparr>))
                                 (query_loop stream req (cn_lob (the (connection_at s (q_connection_id req))) \<noteq> None)
                                    send [] w1))))))"
  unfolding Query_def run_with_eq [OF assms]
  by (auto split: option.splits prod.splits)

lemma Query_conforming:
  assumes "registry_ok (ss_registry s)" and "Query send req s = Some ((err, sent), s')"
  shows "conforming req (\<exists>c. connection_at s (q_connection_id req) = Some c \<and> cn_lob c \<noteq> None) err sent"
proof (cases "sent = [] \<and> err \<noteq> None")
  case True
  then show ?thesis by (auto intro: conforming_Nil)
next
  case False
  have "connection_at s (q_connection_id req) \<noteq> None"
    using False assms(2) unfolding Query_eq [OF assms(1)] by (auto simp: not_acquired_def split: if_splits)
  then obtain c where c: "connection_at s (q_connection_id req) = Some c" by blast
  obtain rs er w1 where q: "cn_query c (req\<lparr>q_connection_id := []\<rparr>) (ss_world s) = ((rs, er), w1)"
    by (metis surj_pair)
  from False assms(2) obtain stream lerr w2 where
      loop: "query_loop stream req (cn_lob c \<noteq> None) send [] w1 = Some ((lerr, sent), w2)"
      and err: "err = (case lerr of None \<Rightarrow> fst (rs_close stream w2) | Some e \<Rightarrow> Some e)"
    unfolding Query_eq [OF assms(1)]
    by (cases er; cases rs) (auto simp: c q split: option.splits if_splits)
  from query_loop_conforming [OF loop] have "conforming req (cn_lob c \<noteq> None) lerr sent" by simp
  then show ?thesis
    using err conforming_mono [of req "cn_lob c \<noteq> None" sent err] by (cases lerr) (auto simp: c)
qed

text \<open>
  C8: Whatever the provider's stream and the transport do, what \<open>Query\<close> has sent when it
  returns is a sequence of batches followed by at most one outcome. Every batch is well typed
  for its declared fields, uses only features the caller accepted and carries the caller's
  connection in its LOB references. An outcome is sent only to a caller that accepts it, is
  internally consistent, and is partial only for a caller that allows partial results; and a
  caller that accepts outcomes and sees no error has received one.
\<close>

theorem query_responses_conform:
  assumes "registry_ok (ss_registry s)" and "Query send req s = Some ((err, sent), s')"
  shows "conforming req (\<exists>c. connection_at s (q_connection_id req) = Some c \<and> cn_lob c \<noteq> None) err sent"
  using assms by (rule Query_conforming)

text \<open>A connection whose queries deliver one batch, then the end.\<close>

definition one_batch :: tuple_batch where
  "one_batch =
     \<lparr>b_fields = [Some \<lparr>f_name = ''n'', f_type = VALUE_TYPE_LONG, f_type_descriptor = None\<rparr>],
      b_tuples = [Some [Some (Value (LongValue 1))], Some [Some (Value (NullValue (Some ())))]]\<rparr>"

definition one_stream :: "nat result_stream" where
  "one_stream =
     \<lparr>rs_next = \<lambda>w. if w = 0 then ((Some one_batch, None), 1) else ((None, Some EOF), w),
      rs_close = \<lambda>w. (None, w), rs_outcome = None\<rparr>"

definition one_server :: "nat server_state" where
  "one_server =
     \<lparr>ss_registry = register newConnectionRegistry ''c1''
        (null_connection\<lparr>cn_query := \<lambda>_ w. ((Some one_stream, None), w)\<rparr>), ss_world = 0\<rparr>"

definition one_query :: query_request where
  "one_query = \<lparr>q_connection_id = ''c1'', q_entity = None, q_projections = [], q_filter = None, q_order_by = [],
     q_limit = None, q_offset = None, q_batch_size = None, q_accepted_features = [], q_group_by = [],
     q_having = None, q_accept_outcome = True, q_allow_partial_results = False\<rparr>"

lemma one_server_ok: "registry_ok (ss_registry one_server)"
proof -
  have "registry_ok (register newConnectionRegistry ''c1''
      (null_connection\<lparr>cn_query := \<lambda>_ w. ((Some one_stream, None), w)\<rparr>))"
    by (rule register_ok [OF newConnectionRegistry_ok]) (simp add: newConnectionRegistry_def)
  then show ?thesis by (simp add: one_server_def)
qed

lemma one_server_connection:
  "connection_at one_server ''c1'' = Some (null_connection\<lparr>cn_query := \<lambda>_ w. ((Some one_stream, None), w)\<rparr>)"
  by (simp add: connection_at_def one_server_def register_def newConnectionRegistry_def)

lemma one_batch_checked: "validateOutputBatchFeatures (Some one_batch) [] True = None"
  unfolding one_batch_def by code_simp

lemma one_batch_stamp: "stamp ''c1'' one_batch = one_batch"
  unfolding stamp_def one_batch_def by code_simp

lemma one_stream_yields: "yields one_stream 0 [one_batch] EOF 1"
  by (simp add: one_stream_def)

definition complete_outcome :: query_outcome where
  "complete_outcome = \<lparr>o_completion = QUERY_COMPLETION_COMPLETE, o_warnings = []\<rparr>"

lemma one_query_run:
  "Query (\<lambda>_ _. None) one_query one_server =
     Some ((None, [BatchResponse one_batch, OutcomeResponse complete_outcome]), one_server\<lparr>ss_world := 1\<rparr>)"
proof -
  have "query_end one_stream one_query [BatchResponse one_batch] 1 =
      ((None, [BatchResponse one_batch, OutcomeResponse complete_outcome]), 1)"
    by (simp add: query_end_def prepareQueryOutcome_def one_stream_def one_query_def validateQueryOutcome_def
        complete_outcome_def)
  then have loop: "query_loop one_stream one_query True (\<lambda>_ _. None) [] 0 =
      Some ((None, [BatchResponse one_batch, OutcomeResponse complete_outcome]), 1)"
    using query_loop_delivers [OF one_stream_yields, of "\<lambda>_ _. None" one_query True "[]"]
      one_batch_checked one_batch_stamp
    by (simp add: one_query_def)
  have "validateQueryRequestValues one_query = None"
    by (simp add: validateQueryRequestValues_def one_query_def validateExpressionValues_def)
  moreover have "cn_lob null_connection \<noteq> None" by (simp add: null_connection_def)
  moreover have "rs_close one_stream 1 = (None, 1)" by (simp add: one_stream_def)
  moreover have "ss_world one_server = 0" by (simp add: one_server_def)
  ultimately show ?thesis
    unfolding Query_eq [OF one_server_ok]
    using loop by (simp add: not_acquired_def one_server_connection one_query_def)
qed

theorem query_responses_conform_witness:
  "conforming one_query (\<exists>c. connection_at one_server (q_connection_id one_query) = Some c \<and> cn_lob c \<noteq> None) None
     [BatchResponse one_batch, OutcomeResponse complete_outcome]"
  by (rule query_responses_conform [OF one_server_ok one_query_run])

lemma Query_delivers:
  assumes "registry_ok (ss_registry s)" and "q_connection_id req \<noteq> []"
    and "connection_at s (q_connection_id req) = Some c"
    and "q_allow_partial_results req \<longrightarrow> q_accept_outcome req" and "validateQueryRequestValues req = None"
    and "cn_query c (req\<lparr>q_connection_id := []\<rparr>) (ss_world s) = ((Some stream, None), w1)"
    and "yields stream w1 bs e w2" and "errors_Is_EOF e"
    and "\<And>l m. send l m = None"
    and "\<forall>b\<in>set bs. validateOutputBatchFeatures (Some b) (q_accepted_features req) (cn_lob c \<noteq> None) = None"
  shows "Query send req s =
    (case query_end stream req (map (BatchResponse \<circ> stamp (q_connection_id req)) bs) w2 of
       ((err, sent), w3) \<Rightarrow>
         Some ((case err of None \<Rightarrow> fst (rs_close stream w3) | Some e \<Rightarrow> Some e, sent),
               s\<lparr>ss_world := snd (rs_close stream w3)\<rparr>))"
proof -
  have "query_loop stream req (cn_lob c \<noteq> None) send [] w1 =
      Some (query_end stream req ([] @ map (BatchResponse \<circ> stamp (q_connection_id req)) bs) w2)"
    using assms(7-10) by (rule query_loop_delivers)
  with assms(2-6) show ?thesis
    unfolding Query_eq [OF assms(1)] by (auto simp: not_acquired_def split: prod.splits)
qed

text \<open>
  C22: A valid query on a stream that delivers acceptable batches and then ends, over a
  transport that does not fail, makes \<open>Query\<close> return after sending exactly these batches in
  order, stamped, and the outcome; the stream is then closed, and its close error is
  reported when nothing else failed. The provider saw the request without connection id.
\<close>

theorem query_delivers_everything:
  assumes "registry_ok (ss_registry s)" and "q_connection_id req \<noteq> []"
    and "connection_at s (q_connection_id req) = Some c"
    and "q_allow_partial_results req \<longrightarrow> q_accept_outcome req" and "validateQueryRequestValues req = None"
    and "cn_query c (req\<lparr>q_connection_id := []\<rparr>) (ss_world s) = ((Some stream, None), w1)"
    and "yields stream w1 bs e w2" and "errors_Is_EOF e"
    and "\<And>l m. send l m = None"
    and "\<forall>b\<in>set bs. validateOutputBatchFeatures (Some b) (q_accepted_features req) (cn_lob c \<noteq> None) = None"
  shows "Query send req s =
    (case query_end stream req (map (BatchResponse \<circ> stamp (q_connection_id req)) bs) w2 of
       ((err, sent), w3) \<Rightarrow>
         Some ((case err of None \<Rightarrow> fst (rs_close stream w3) | Some e \<Rightarrow> Some e, sent),
               s\<lparr>ss_world := snd (rs_close stream w3)\<rparr>))"
  using assms by (rule Query_delivers)

theorem query_delivers_everything_witness:
  "Query (\<lambda>_ _. None) one_query one_server =
     (case query_end one_stream one_query [BatchResponse one_batch] 1 of
        ((err, sent), w3) \<Rightarrow>
          Some ((case err of None \<Rightarrow> fst (rs_close one_stream w3) | Some e \<Rightarrow> Some e, sent),
                one_server\<lparr>ss_world := snd (rs_close one_stream w3)\<rparr>))"
proof -
  let ?c = "null_connection\<lparr>cn_query := \<lambda>_ w. ((Some one_stream, None), w)\<rparr>"
  have "validateQueryRequestValues one_query = None"
    by (simp add: validateQueryRequestValues_def one_query_def validateExpressionValues_def)
  moreover have "cn_query ?c (one_query\<lparr>q_connection_id := []\<rparr>) (ss_world one_server) = ((Some one_stream, None), 0)"
    by (simp add: one_server_def)
  moreover have "cn_lob ?c \<noteq> None" by (simp add: null_connection_def)
  ultimately show ?thesis
    using query_delivers_everything [OF one_server_ok, of one_query ?c one_stream 0 "[one_batch]" EOF 1 "\<lambda>_ _. None"]
      one_stream_yields one_batch_checked one_batch_stamp one_server_connection
    by (simp add: one_query_def)
qed

text \<open>
  C34: \<open>Query\<close> returns whenever the provider's stream ends, whatever batches it delivers
  before, whatever error it ends with and wherever the transport fails.
\<close>

theorem query_returns:
  assumes "registry_ok (ss_registry s)"
    and "\<And>c stream w1. connection_at s (q_connection_id req) = Some c \<Longrightarrow>
      cn_query c (req\<lparr>q_connection_id := []\<rparr>) (ss_world s) = ((Some stream, None), w1) \<Longrightarrow>
      \<exists>bs e w2. yields stream w1 bs e w2"
  shows "\<exists>r. Query send req s = Some r"
proof (cases "not_acquired s (q_connection_id req)")
  case None
  then obtain c where c: "connection_at s (q_connection_id req) = Some c"
    by (auto simp: not_acquired_def split: if_splits)
  obtain rs er w1 where q: "cn_query c (req\<lparr>q_connection_id := []\<rparr>) (ss_world s) = ((rs, er), w1)"
    by (metis surj_pair)
  show ?thesis
  proof (cases "rs = None \<or> er \<noteq> None")
    case True
    with None c q show ?thesis unfolding Query_eq [OF assms(1)] by (auto split: option.splits)
  next
    case False
    then obtain stream where stream: "rs = Some stream" "er = None" by auto
    with assms(2) [OF c] q obtain bs e w2 where y: "yields stream w1 bs e w2" by blast
    with query_loop_returns [OF y, of req "cn_lob c \<noteq> None" send "[]"] None c q stream show ?thesis
      unfolding Query_eq [OF assms(1)] by (auto split: option.splits)
  qed
qed (simp add: Query_eq [OF assms(1)])

theorem query_returns_witness: "\<exists>r. Query (\<lambda>_ _. Some EOF) one_query one_server = Some r"
proof (rule query_returns [OF one_server_ok])
  fix c stream w1
  assume "connection_at one_server (q_connection_id one_query) = Some c"
    and "cn_query c (one_query\<lparr>q_connection_id := []\<rparr>) (ss_world one_server) = ((Some stream, None), w1)"
  then have "stream = one_stream" and "w1 = 0"
    using one_server_connection by (auto simp: one_query_def one_server_def)
  with one_stream_yields show "\<exists>bs e w2. yields stream w1 bs e w2" by blast
qed

end
