(* ===== verification/CachedStreams.thy ===== *)
theory CachedStreams
  imports CacheCoherence QueryServer
begin

text \<open>
  The streams of \<open>sdk-go/provider/cache/query.go\<close>: \<open>recordingStream\<close> passes a provider's
  stream through and keeps a copy for the cache, \<open>replayStream\<close> plays a cached result. Both
  are shown at the level of the Go objects: a recording stream is a record that its methods
  return updated, next to the world of the provider below it.

  \<open>externals\<close> are the functions the cache calls outside of the repository: the Unicode table
  of \<open>strings.ToUpper\<close>, deterministic marshalling, SHA-256, \<open>proto.Size\<close>, the clock and the
  error of the context of the running call. \<open>proto.Clone\<close> copies a value, and values of the
  model are not shared. Sizes are mathematical integers: a sum of message sizes that does not
  fit 63 bits needs more memory than a process has.
\<close>

record 'w externals =
  ex_up :: "string \<Rightarrow> string"
  ex_marshal :: "query_request \<Rightarrow> go_error + bytes"
  ex_sha256 :: "bytes \<Rightarrow> bytes"
  ex_batch_size :: "tuple_batch \<Rightarrow> int"
  ex_outcome_size :: "query_outcome \<Rightarrow> int"
  ex_clock :: "'w \<Rightarrow> int"
  ex_context_error :: "'w \<Rightarrow> go_error option"

definition queryDigest :: "'w externals \<Rightarrow> query_request \<Rightarrow> go_error + bytes" where
  "queryDigest ex req =
     (case ex_marshal ex (req\<lparr>q_connection_id := []\<rparr>) of
        Inl e \<Rightarrow> Inl e
      | Inr encoded \<Rightarrow> Inr (ex_sha256 ex encoded))"

section \<open>Recording\<close>

record 'w recording =
  rc_stream :: "'w result_stream"
  rc_capture :: query_key
  rc_batches :: "tuple_batch list"
  rc_outcome :: "query_outcome option"
  rc_size :: int
  rc_cacheable :: bool
  rc_complete :: bool
  rc_closed :: bool
  rc_close_err :: "go_error option"

definition new_recording :: "'w result_stream \<Rightarrow> query_key \<Rightarrow> 'w recording" where
  "new_recording stream capture =
     \<lparr>rc_stream = stream, rc_capture = capture, rc_batches = [], rc_outcome = None, rc_size = 0,
      rc_cacheable = True, rc_complete = False, rc_closed = False, rc_close_err = None\<rparr>"

definition disableCaching :: "'w recording \<Rightarrow> 'w recording" where
  "disableCaching r = r\<lparr>rc_cacheable := False, rc_batches := [], rc_size := 0\<rparr>"

definition captureOutcome :: "'w externals \<Rightarrow> int \<Rightarrow> 'w recording \<Rightarrow> 'w \<Rightarrow> 'w recording \<times> 'w" where
  "captureOutcome ex maxEntryBytes r w =
     (case (case rs_outcome (rc_stream r) of
              None \<Rightarrow> (Some \<lparr>o_completion = QUERY_COMPLETION_COMPLETE, o_warnings = []\<rparr>, w)
            | Some outcome \<Rightarrow> outcome w) of
        (None, w1) \<Rightarrow> ((disableCaching r)\<lparr>rc_outcome := None\<rparr>, w1)
      | (Some o1, w1) \<Rightarrow>
          (let r1 = r\<lparr>rc_outcome := Some o1\<rparr> in
           (if o_completion o1 \<noteq> QUERY_COMPLETION_COMPLETE \<or> length (o_warnings o1) > 0 then disableCaching r1
            else if \<not> rc_cacheable r1 then r1
            else if rc_size r1 + ex_outcome_size ex o1 > maxEntryBytes then disableCaching r1
            else r1\<lparr>rc_size := rc_size r1 + ex_outcome_size ex o1\<rparr>, w1)))"

text \<open>What \<open>Next\<close> does with a batch: a LOB reference or too many bytes end the recording.\<close>

definition record_batch :: "'w externals \<Rightarrow> int \<Rightarrow> tuple_batch \<Rightarrow> 'w recording \<Rightarrow> 'w recording" where
  "record_batch ex maxEntryBytes b r =
     (let r1 = (if rc_cacheable r \<and> batchContainsLobReference b then disableCaching r else r) in
      if rc_cacheable r1 then
        (let size = ex_batch_size ex b in
         if rc_size r1 + size > maxEntryBytes then disableCaching r1
         else r1\<lparr>rc_batches := rc_batches r1 @ [b], rc_size := rc_size r1 + size\<rparr>)
      else r1)"

definition recording_Next ::
  "'w externals \<Rightarrow> int \<Rightarrow> 'w recording \<Rightarrow> 'w \<Rightarrow>
   (tuple_batch option \<times> go_error option) \<times> 'w recording \<times> 'w" where
  "recording_Next ex maxEntryBytes r w =
     (if rc_closed r then ((None, Some EOF), r, w)
      else if rc_complete r then ((None, Some EOF), r, w)
      else
        (case rs_next (rc_stream r) w of
           ((batch, err), w1) \<Rightarrow>
             (case err of
                Some e \<Rightarrow>
                  if e = EOF
                  then (case captureOutcome ex maxEntryBytes (r\<lparr>rc_complete := True\<rparr>) w1 of
                          (r1, w2) \<Rightarrow> ((batch, err), r1, w2))
                  else ((batch, err), r\<lparr>rc_cacheable := False\<rparr>, w1)
              | None \<Rightarrow>
                  (case batch of
                     None \<Rightarrow> ((None, None), r\<lparr>rc_cacheable := False\<rparr>, w1)
                   | Some b \<Rightarrow> ((Some b, None), record_batch ex maxEntryBytes b r, w1)))))"

text \<open>\<open>None\<close> would be an eviction loop that does not end; \<open>state_ok\<close> excludes it.\<close>

definition recording_Close ::
  "'w externals \<Rightarrow> 'w recording \<Rightarrow> cache_state \<Rightarrow> 'w \<Rightarrow>
   (go_error option \<times> 'w recording \<times> cache_state \<times> 'w) option" where
  "recording_Close ex r s w =
     (if rc_closed r then Some (rc_close_err r, r, s, w)
      else
        (case rs_close (rc_stream r) w of
           (closeErr, w1) \<Rightarrow>
             (let r1 = r\<lparr>rc_closed := True, rc_close_err := closeErr\<rparr>;
                  cacheable = (closeErr = None \<and> rc_complete r1 \<and> rc_cacheable r1);
                  result = \<lparr>cr_batches = rc_batches r1, cr_outcome = rc_outcome r1, cr_size = rc_size r1\<rparr>
              in if cacheable
                 then map_option (\<lambda>s1. (closeErr, r1, s1, w1)) (storeIfCurrent s (rc_capture r1) result (ex_clock ex w1))
                 else Some (closeErr, r1, s, w1))))"

definition recording_Outcome :: "'w recording \<Rightarrow> query_outcome option" where
  "recording_Outcome r = (if \<not> rc_complete r then None else rc_outcome r)"

section \<open>Replay\<close>

record replay =
  rp_result :: cached_result
  rp_next :: nat
  rp_closed :: bool

definition replay_Next :: "go_error option \<Rightarrow> replay \<Rightarrow> (tuple_batch option \<times> go_error option) \<times> replay" where
  "replay_Next context_error p =
     (case context_error of
        Some e \<Rightarrow> ((None, Some e), p)
      | None \<Rightarrow>
          if rp_closed p \<or> rp_next p \<ge> length (cr_batches (rp_result p)) then ((None, Some EOF), p)
          else ((Some (cr_batches (rp_result p) ! rp_next p), None), p\<lparr>rp_next := Suc (rp_next p)\<rparr>))"

definition replay_Close :: "replay \<Rightarrow> go_error option \<times> replay" where
  "replay_Close p = (None, p\<lparr>rp_closed := True\<rparr>)"

definition replay_Outcome :: "replay \<Rightarrow> query_outcome option" where
  "replay_Outcome p = cr_outcome (rp_result p)"

section \<open>What a recording knows\<close>

definition batches_size :: "'w externals \<Rightarrow> tuple_batch list \<Rightarrow> int" where
  "batches_size ex bs = sum_list (map (ex_batch_size ex) bs)"

lemma batches_size_simps [simp]:
  "batches_size ex [] = 0" "batches_size ex (bs @ cs) = batches_size ex bs + batches_size ex cs"
  "batches_size ex (b # bs) = ex_batch_size ex b + batches_size ex bs"
  by (simp_all add: batches_size_def)

text \<open>
  A recording that is still cacheable has every batch seen so far, none of them with a LOB
  reference, and their size; a complete one has a complete outcome without warnings as well.
\<close>

definition recording_ok :: "'w externals \<Rightarrow> int \<Rightarrow> tuple_batch list \<Rightarrow> 'w recording \<Rightarrow> bool" where
  "recording_ok ex limit seen r \<longleftrightarrow>
     (if \<not> rc_cacheable r then True
      else
        rc_batches r = seen \<and> rc_size r \<le> limit \<and> (\<forall>b\<in>set seen. \<not> batchContainsLobReference b) \<and>
        (if rc_complete r
         then (\<exists>o1. rc_outcome r = Some o1 \<and> o_completion o1 = QUERY_COMPLETION_COMPLETE \<and> o_warnings o1 = [] \<and>
                rc_size r = batches_size ex seen + ex_outcome_size ex o1)
         else rc_size r = batches_size ex seen))"

lemma new_recording_ok: "0 \<le> limit \<Longrightarrow> recording_ok ex limit [] (new_recording stream capture)"
  by (simp add: recording_ok_def new_recording_def)

lemma disableCaching_simps [simp]:
  "rc_cacheable (disableCaching r) = False" "rc_complete (disableCaching r) = rc_complete r"
  "rc_stream (disableCaching r) = rc_stream r" "rc_capture (disableCaching r) = rc_capture r"
  "rc_closed (disableCaching r) = rc_closed r" "rc_close_err (disableCaching r) = rc_close_err r"
  "rc_outcome (disableCaching r) = rc_outcome r"
  by (simp_all add: disableCaching_def)

lemma record_batch_ok:
  "recording_ok ex limit seen r \<Longrightarrow> \<not> rc_complete r \<Longrightarrow> recording_ok ex limit (seen @ [b]) (record_batch ex limit b r)"
  by (auto simp: recording_ok_def record_batch_def Let_def split: if_splits)

lemma record_batch_rest [simp]:
  "rc_complete (record_batch ex limit b r) = rc_complete r" "rc_closed (record_batch ex limit b r) = rc_closed r"
  "rc_stream (record_batch ex limit b r) = rc_stream r" "rc_capture (record_batch ex limit b r) = rc_capture r"
  "rc_close_err (record_batch ex limit b r) = rc_close_err r"
  by (auto simp: record_batch_def Let_def)

lemma captureOutcome_ok:
  assumes "recording_ok ex limit seen r" and "\<not> rc_complete r"
  shows "recording_ok ex limit seen (fst (captureOutcome ex limit (r\<lparr>rc_complete := True\<rparr>) w))"
  using assms
  by (auto simp: recording_ok_def captureOutcome_def Let_def split: prod.splits option.splits if_splits)

lemma captureOutcome_rest:
  assumes "captureOutcome ex limit r w = (r', w')"
  shows "rc_complete r' = rc_complete r" "rc_closed r' = rc_closed r" "rc_stream r' = rc_stream r"
    "rc_capture r' = rc_capture r" "rc_close_err r' = rc_close_err r"
  using assms by (auto simp: captureOutcome_def Let_def split: prod.splits option.splits if_splits)

lemma captureOutcome_outcome:
  assumes "captureOutcome ex limit r w = (r', w')"
  shows "(rc_outcome r', w') =
    (case rs_outcome (rc_stream r) of
       None \<Rightarrow> (Some \<lparr>o_completion = QUERY_COMPLETION_COMPLETE, o_warnings = []\<rparr>, w)
     | Some outcome \<Rightarrow> outcome w)"
  using assms by (auto simp: captureOutcome_def Let_def split: prod.splits option.splits if_splits)

definition batch_of :: "tuple_batch option \<times> go_error option \<Rightarrow> tuple_batch list" where
  "batch_of r = (case r of (Some b, None) \<Rightarrow> [b] | _ \<Rightarrow> [])"

lemma recording_Next_ok:
  assumes "recording_ok ex limit seen r" and "recording_Next ex limit r w = (res, r', w')"
  shows "recording_ok ex limit (seen @ batch_of res) r'"
proof (cases "rc_closed r \<or> rc_complete r")
  case True
  with assms show ?thesis by (auto simp: recording_Next_def batch_of_def split: if_splits)
next
  case False
  obtain batch err w1 where next1: "rs_next (rc_stream r) w = ((batch, err), w1)" by (metis surj_pair)
  show ?thesis
  proof (cases err)
    case (Some e)
    with False next1 assms captureOutcome_ok [OF assms(1), of w1] show ?thesis
      by (auto simp: recording_Next_def batch_of_def recording_ok_def split: if_splits prod.splits option.splits)
  next
    case None
    with False next1 assms record_batch_ok [OF assms(1)] show ?thesis
      by (cases batch) (auto simp: recording_Next_def batch_of_def recording_ok_def [of _ _ _ "r\<lparr>rc_cacheable := False\<rparr>"])
  qed
qed

section \<open>Clients of the streams\<close>

text \<open>A client that calls \<open>Next\<close> a number of times: the answers, then the stream and the world.\<close>

fun recording_calls ::
  "'w externals \<Rightarrow> int \<Rightarrow> nat \<Rightarrow> 'w recording \<Rightarrow> 'w \<Rightarrow>
   (tuple_batch option \<times> go_error option) list \<times> 'w recording \<times> 'w" where
  "recording_calls ex limit 0 r w = ([], r, w)"
| "recording_calls ex limit (Suc n) r w =
     (case recording_Next ex limit r w of
        (res, r1, w1) \<Rightarrow> (case recording_calls ex limit n r1 w1 of (rs, r2, w2) \<Rightarrow> (res # rs, r2, w2)))"

fun replay_calls :: "nat \<Rightarrow> replay \<Rightarrow> (tuple_batch option \<times> go_error option) list \<times> replay" where
  "replay_calls 0 p = ([], p)"
| "replay_calls (Suc n) p =
     (case replay_Next None p of (res, p1) \<Rightarrow> (case replay_calls n p1 of (rs, p2) \<Rightarrow> (res # rs, p2)))"

definition batches_of :: "(tuple_batch option \<times> go_error option) list \<Rightarrow> tuple_batch list" where
  "batches_of rs = concat (map batch_of rs)"

lemma recording_calls_ok:
  assumes "recording_ok ex limit seen r" and "recording_calls ex limit n r w = (rs, r', w')"
  shows "recording_ok ex limit (seen @ batches_of rs) r'"
  using assms
proof (induction n arbitrary: seen r w rs)
  case (Suc n)
  obtain res r1 w1 where n1: "recording_Next ex limit r w = (res, r1, w1)" by (metis surj_pair)
  obtain rs2 where n2: "recording_calls ex limit n r1 w1 = (rs2, r', w')" "rs = res # rs2"
    using Suc.prems(2) n1 by (auto split: prod.splits)
  from Suc.IH [OF recording_Next_ok [OF Suc.prems(1) n1] n2(1)] n2(2) show ?case by (simp add: batches_of_def)
qed (auto simp: batches_of_def)

lemma recording_Close_stored:
  assumes ok: "recording_ok ex limit seen r" and close: "recording_Close ex r s w = Some (err, r', s', w')"
    and changed: "s' \<noteq> s"
  shows "err = None \<and> (\<forall>b\<in>set seen. \<not> batchContainsLobReference b) \<and>
    (\<exists>o1. o_completion o1 = QUERY_COMPLETION_COMPLETE \<and> o_warnings o1 = [] \<and>
       storeIfCurrent s (rc_capture r)
         \<lparr>cr_batches = seen, cr_outcome = Some o1, cr_size = batches_size ex seen + ex_outcome_size ex o1\<rparr>
         (ex_clock ex w') = Some s')"
proof -
  from close changed have c: "err = None" "rc_complete r" "rc_cacheable r"
    and st: "storeIfCurrent s (rc_capture r) \<lparr>cr_batches = rc_batches r, cr_outcome = rc_outcome r, cr_size = rc_size r\<rparr>
      (ex_clock ex w') = Some s'"
    by (auto simp: recording_Close_def Let_def split: if_splits prod.splits)
  with ok show ?thesis by (auto simp: recording_ok_def)
qed

lemma recording_calls_capture:
  "recording_calls ex limit n r w = (rs, r', w') \<Longrightarrow> rc_capture r' = rc_capture r"
proof (induction n arbitrary: r w rs)
  case (Suc n)
  obtain res r1 w1 where n1: "recording_Next ex limit r w = (res, r1, w1)" by (metis surj_pair)
  then have "rc_capture r1 = rc_capture r"
    by (auto simp: recording_Next_def dest: captureOutcome_rest split: if_splits prod.splits option.splits)
  with Suc.IH [of r1 w1] Suc.prems n1 show ?case by (auto split: prod.splits)
qed simp

text \<open>
  C12: Recording is transparent and stores only whole results. Until the source has ended or the stream
  is closed, \<open>Next\<close> of a recording stream answers exactly what \<open>Next\<close> of the wrapped stream answers, and
  from then on it answers \<open>io.EOF\<close> without calling the wrapped stream. For every number of \<open>Next\<close>
  calls on a fresh recording followed by \<open>Close\<close>: if the close changed the cache, it reported no error
  and stored, under the captured key, all the batches the client received, with their exact size and a
  complete outcome without warnings, and no batch holds a LOB reference.
\<close>

theorem recording_stores_whole_results:
  assumes "0 \<le> limit" and "recording_calls ex limit n (new_recording stream capture) w = (rs, r, w1)"
    and "recording_Close ex r s w1 = Some (err, r', s', w2)"
  shows "fst (recording_Next ex limit r0 w0) =
      (if rc_closed r0 \<or> rc_complete r0 then (None, Some EOF) else fst (rs_next (rc_stream r0) w0)) \<and>
    (s' \<noteq> s \<longrightarrow> err = None \<and> (\<forall>b\<in>set (batches_of rs). \<not> batchContainsLobReference b) \<and>
     (\<exists>o1. o_completion o1 = QUERY_COMPLETION_COMPLETE \<and> o_warnings o1 = [] \<and>
       storeIfCurrent s capture
         \<lparr>cr_batches = batches_of rs, cr_outcome = Some o1,
          cr_size = batches_size ex (batches_of rs) + ex_outcome_size ex o1\<rparr> (ex_clock ex w2) = Some s'))"
proof (intro conjI impI)
  show "fst (recording_Next ex limit r0 w0) =
      (if rc_closed r0 \<or> rc_complete r0 then (None, Some EOF) else fst (rs_next (rc_stream r0) w0))"
    by (auto simp: recording_Next_def split: prod.splits option.splits)
  assume changed: "s' \<noteq> s"
  have ok: "recording_ok ex limit (batches_of rs) r"
    using recording_calls_ok [OF new_recording_ok [OF assms(1)] assms(2)] by simp
  have cap: "rc_capture r = capture" using recording_calls_capture [OF assms(2)] by (simp add: new_recording_def)
  from recording_Close_stored [OF ok assms(3) changed]
  show "err = None" "\<forall>b\<in>set (batches_of rs). \<not> batchContainsLobReference b"
    "\<exists>o1. o_completion o1 = QUERY_COMPLETION_COMPLETE \<and> o_warnings o1 = [] \<and>
       storeIfCurrent s capture
         \<lparr>cr_batches = batches_of rs, cr_outcome = Some o1,
          cr_size = batches_size ex (batches_of rs) + ex_outcome_size ex o1\<rparr> (ex_clock ex w2) = Some s'"
    by (simp_all add: cap)
qed

text \<open>Externals for examples: every message has size one and time stands still.\<close>

definition demo_externals :: "'w externals" where
  "demo_externals =
     \<lparr>ex_up = id, ex_marshal = \<lambda>_. Inr [], ex_sha256 = id, ex_batch_size = \<lambda>_. 1, ex_outcome_size = \<lambda>_. 1,
      ex_clock = \<lambda>_. 1, ex_context_error = \<lambda>_. None\<rparr>"

lemma one_batch_no_lob: "\<not> batchContainsLobReference one_batch"
  unfolding one_batch_def by code_simp

lemma demo_recording:
  "recording_calls demo_externals 50 2 (new_recording one_stream example_key) 0 =
     ([(Some one_batch, None), (None, Some EOF)],
      (new_recording one_stream example_key)
        \<lparr>rc_batches := [one_batch], rc_outcome := Some complete_outcome, rc_size := 2, rc_complete := True\<rparr>, 1)"
  by (simp add: numeral_2_eq_2 recording_Next_def new_recording_def one_stream_def record_batch_def Let_def
      one_batch_no_lob demo_externals_def captureOutcome_def complete_outcome_def)

theorem recording_stores_whole_results_witness:
  "\<exists>r s'. recording_calls demo_externals 50 2 (new_recording one_stream example_key) (0::nat) =
       ([(Some one_batch, None), (None, Some EOF)], r, 1) \<and>
     recording_Close demo_externals r (hs_state history_1) 1 = Some (None, r\<lparr>rc_closed := True\<rparr>, s', 1) \<and>
     s' \<noteq> hs_state history_1 \<and> \<not> batchContainsLobReference one_batch"
proof -
  let ?r = "(new_recording one_stream example_key)
    \<lparr>rc_batches := [one_batch], rc_outcome := Some complete_outcome, rc_size := 2, rc_complete := True\<rparr>"
  let ?res = "\<lparr>cr_batches = [one_batch], cr_outcome = Some complete_outcome, cr_size = 2\<rparr>"
  let ?st = "storeIfCurrent (hs_state history_1) example_key ?res 1"
  have b: "map_option (\<lambda>s. ms_bytes (cs_store s)) ?st = Some 2" "ms_bytes (cs_store (hs_state history_1)) = 0"
    unfolding history_defs one_batch_def complete_outcome_def by code_simp+
  then obtain s' where "?st = Some s'" and "ms_bytes (cs_store s') = 2" by auto
  with b(2) have s': "?st = Some s'" "s' \<noteq> hs_state history_1" by auto
  have close: "recording_Close demo_externals ?r (hs_state history_1) 1 = Some (None, ?r\<lparr>rc_closed := True\<rparr>, s', 1)"
    using s'(1) by (simp add: recording_Close_def new_recording_def one_stream_def Let_def demo_externals_def)
  from recording_stores_whole_results [OF _ demo_recording close] s'(2)
  have "\<not> batchContainsLobReference one_batch" by (simp add: batches_of_def batch_of_def)
  with demo_recording close s'(2) show ?thesis by blast
qed

lemma replay_calls_results:
  "rp_closed p = False \<Longrightarrow> rp_next p \<le> length (cr_batches (rp_result p)) \<Longrightarrow>
   fst (replay_calls n p) =
     map (\<lambda>b. (Some b, None)) (take n (drop (rp_next p) (cr_batches (rp_result p)))) @
     replicate (n + rp_next p - length (cr_batches (rp_result p))) (None, Some EOF) \<and>
   rp_result (snd (replay_calls n p)) = rp_result p"
proof (induction n arbitrary: p)
  case (Suc n)
  show ?case
  proof (cases "rp_next p < length (cr_batches (rp_result p))")
    case True
    let ?p = "p\<lparr>rp_next := Suc (rp_next p)\<rparr>"
    have "fst (replay_calls n ?p) =
        map (\<lambda>b. (Some b, None)) (take n (drop (rp_next ?p) (cr_batches (rp_result ?p)))) @
        replicate (n + rp_next ?p - length (cr_batches (rp_result ?p))) (None, Some EOF) \<and>
        rp_result (snd (replay_calls n ?p)) = rp_result ?p"
      by (rule Suc.IH) (use Suc.prems True in auto)
    moreover have "drop (rp_next p) (cr_batches (rp_result p)) =
        cr_batches (rp_result p) ! rp_next p # drop (Suc (rp_next p)) (cr_batches (rp_result p))"
      using True by (rule Cons_nth_drop_Suc [symmetric])
    ultimately show ?thesis
      using Suc.prems True by (auto simp: replay_Next_def split: prod.splits)
  next
    case False
    with Suc.IH [OF Suc.prems] Suc.prems show ?thesis by (auto simp: replay_Next_def split: prod.splits)
  qed
qed simp

text \<open>
  Replay is exact. While the context is not cancelled, \<open>n\<close> calls of \<open>Next\<close> on a new replay stream
  answer the stored batches in order and then \<open>io.EOF\<close> for ever; \<open>Outcome\<close> is the stored outcome at any
  point, and after \<open>Close\<close> there is only \<open>io.EOF\<close>. A cancelled context is reported without progress.
\<close>

theorem replay_plays_the_result:
  "(let p = \<lparr>rp_result = r, rp_next = 0, rp_closed = False\<rparr> in
    fst (replay_calls n p) = 
      map (\<lambda>b. (Some b, None)) (take n (cr_batches r)) @ replicate (n - length (cr_batches r)) (None, Some EOF) \<and>
    replay_Outcome (snd (replay_calls n p)) = cr_outcome r) \<and>
   replay_Next None (snd (replay_Close q)) = ((None, Some EOF), snd (replay_Close q)) \<and>
   replay_Next (Some e) q = ((None, Some e), q)"
  using replay_calls_results [of "\<lparr>rp_result = r, rp_next = 0, rp_closed = False\<rparr>" n]
  by (simp add: Let_def replay_Outcome_def replay_Next_def replay_Close_def)

end
