(* ===== verification/BranchServer.thy ===== *)
theory BranchServer
  imports QueryServer
begin

text \<open>
  \<open>sdk-go/provider/transaction_recovery.go\<close>: the handlers for durable transaction branches.
  A scan of in-doubt branches is a loop over a provider stream that rejects empty batches and
  repeated branches. There are finitely many branch identifiers a resource manager may use,
  so a scan that keeps delivering runs out of them: \<open>recover_loop\<close> is a total function.
\<close>

section \<open>States\<close>

definition validPrepareOutcome :: "prepare_outcome \<Rightarrow> bool" where
  "validPrepareOutcome x \<longleftrightarrow>
     x = TRANSACTION_PREPARE_OUTCOME_PREPARED \<or> x = TRANSACTION_PREPARE_OUTCOME_READ_ONLY"

definition validReportedState :: "branch_state \<Rightarrow> bool" where
  "validReportedState x \<longleftrightarrow>
     (case x of TRANSACTION_BRANCH_STATE_unnamed _ \<Rightarrow> False | _ \<Rightarrow> True) \<and>
     x \<noteq> TRANSACTION_BRANCH_STATE_UNSPECIFIED"

definition validResolutionState :: "branch_state \<Rightarrow> bool" where
  "validResolutionState x \<longleftrightarrow>
     x \<in> {TRANSACTION_BRANCH_STATE_NOT_FOUND, TRANSACTION_BRANCH_STATE_READ_ONLY,
          TRANSACTION_BRANCH_STATE_COMMITTED, TRANSACTION_BRANCH_STATE_ROLLED_BACK,
          TRANSACTION_BRANCH_STATE_HEURISTIC_COMMIT, TRANSACTION_BRANCH_STATE_HEURISTIC_ROLLBACK,
          TRANSACTION_BRANCH_STATE_HEURISTIC_MIXED, TRANSACTION_BRANCH_STATE_HEURISTIC_HAZARD}"

definition validRecoveryState :: "branch_state \<Rightarrow> bool" where
  "validRecoveryState x \<longleftrightarrow>
     x \<in> {TRANSACTION_BRANCH_STATE_PREPARED,
          TRANSACTION_BRANCH_STATE_HEURISTIC_COMMIT, TRANSACTION_BRANCH_STATE_HEURISTIC_ROLLBACK,
          TRANSACTION_BRANCH_STATE_HEURISTIC_MIXED, TRANSACTION_BRANCH_STATE_HEURISTIC_HAZARD}"

section \<open>Requests\<close>

definition transactionRecoveryManager :: "'w provider \<Rightarrow> 'w \<Rightarrow> 'w recovery_manager reply" where
  "transactionRecoveryManager p w =
     (case recovery_manager_of p w of
        None \<Rightarrow> Inl (Status Unimplemented (BranchReason RecoveryUnsupported))
      | Some m \<Rightarrow>
          (case validateResourceManagerID (rm_id m) of
             Some e \<Rightarrow> Inl (Status Internal (BranchReason (InvalidRecoveryManager e)))
           | None \<Rightarrow> Inr m))"

definition prepareTransactionBranchRequest ::
  "'w provider \<Rightarrow> 'w \<Rightarrow> branch_id option \<Rightarrow> ('w recovery_manager \<times> branch_id) reply" where
  "prepareTransactionBranchRequest p w requested =
     bind_sum (transactionRecoveryManager p w)
       (\<lambda>m. case validateTransactionBranchID requested (rm_id m) of
          Inl e \<Rightarrow> Inl (Status InvalidArgument (BranchReason (BranchInvalid e)))
        | Inr b \<Rightarrow> Inr (m, b))"

definition validateRequestedResourceManager :: "string \<Rightarrow> string \<Rightarrow> go_error option" where
  "validateRequestedResourceManager requested expected =
     first_of
      [map_option (\<lambda>e. Status InvalidArgument (RecoveryReason (ResourceManagerInvalid e)))
         (validateResourceManagerID requested),
       fail_if (requested \<noteq> expected)
         (Status FailedPrecondition (RecoveryReason (ResourceManagerMismatch requested expected)))]"

text \<open>The shared prologue: the branch is validated before the connection is acquired.\<close>

definition with_branch_connection ::
  "'w server_state \<Rightarrow> string \<Rightarrow> ('w branch_connection \<Rightarrow> 'w \<Rightarrow> 'a reply \<times> 'w) \<Rightarrow>
   ('a reply \<times> 'w server_state) option" where
  "with_branch_connection s i body =
     run_with s i Inl
       (\<lambda>c w.
          case cn_branches c of
            None \<Rightarrow> Some (Inl (Status Unimplemented (BranchReason BranchesUnsupported)), w)
          | Some bc \<Rightarrow> Some (body bc w))"

text \<open>The state an operation answers, checked with \<open>valid\<close> and wrapped as \<open>bad\<close> if it fails.\<close>

definition reply_state ::
  "('x \<Rightarrow> bool) \<Rightarrow> ('x \<Rightarrow> branch_reason) \<Rightarrow> ('x \<times> go_error option) \<times> 'w \<Rightarrow> 'x reply \<times> 'w" where
  "reply_state valid bad r =
     (case r of
        ((x, err), w) \<Rightarrow>
          (case err of
             Some e \<Rightarrow> (Inl e, w)
           | None \<Rightarrow>
               if \<not> valid x then (Inl (Status Internal (BranchReason (bad x))), w) else (Inr x, w)))"

definition BeginTransactionBranch ::
  "'w provider \<Rightarrow> string \<Rightarrow> branch_id option \<Rightarrow> 'w server_state \<Rightarrow>
   (branch_state reply \<times> 'w server_state) option" where
  "BeginTransactionBranch p i requested s =
     (case prepareTransactionBranchRequest p (ss_world s) requested of
        Inl e \<Rightarrow> Some (Inl e, s)
      | Inr (m, b) \<Rightarrow>
          with_branch_connection s i
            (\<lambda>bc w. case bc_begin bc b w of
               (Some e, w1) \<Rightarrow> (Inl e, w1)
             | (None, w1) \<Rightarrow> (Inr TRANSACTION_BRANCH_STATE_ACTIVE, w1)))"

definition PrepareTransactionBranch ::
  "'w provider \<Rightarrow> string \<Rightarrow> branch_id option \<Rightarrow> 'w server_state \<Rightarrow>
   (prepare_outcome reply \<times> 'w server_state) option" where
  "PrepareTransactionBranch p i requested s =
     (case prepareTransactionBranchRequest p (ss_world s) requested of
        Inl e \<Rightarrow> Some (Inl e, s)
      | Inr (m, b) \<Rightarrow>
          with_branch_connection s i
            (\<lambda>bc w. reply_state validPrepareOutcome InvalidPrepareOutcome (bc_prepare bc b w)))"

definition CommitTransactionBranch ::
  "'w provider \<Rightarrow> string option \<Rightarrow> branch_id option \<Rightarrow> bool \<Rightarrow> 'w server_state \<Rightarrow>
   (branch_state reply \<times> 'w server_state) option" where
  "CommitTransactionBranch p connectionId requested onePhase s =
     (case prepareTransactionBranchRequest p (ss_world s) requested of
        Inl e \<Rightarrow> Some (Inl e, s)
      | Inr (m, b) \<Rightarrow>
          if onePhase then
            (case connectionId of
               None \<Rightarrow> Some (Inl (Status InvalidArgument (BranchReason OnePhaseNeedsConnection)), s)
             | Some i \<Rightarrow>
                 if i = [] then Some (Inl (Status InvalidArgument (BranchReason OnePhaseNeedsConnection)), s)
                 else
                   with_branch_connection s i
                     (\<lambda>bc w. reply_state validResolutionState InvalidCommitState (bc_commit bc b w)))
          else if connectionId \<noteq> None
          then Some (Inl (Status InvalidArgument (BranchReason PreparedHasConnection)), s)
          else
            (case reply_state validResolutionState InvalidCommitState (rm_commit m b (ss_world s)) of
               (r, w1) \<Rightarrow> Some (r, s\<lparr>ss_world := w1\<rparr>)))"

definition RollbackTransactionBranch ::
  "'w provider \<Rightarrow> string option \<Rightarrow> branch_id option \<Rightarrow> 'w server_state \<Rightarrow>
   (branch_state reply \<times> 'w server_state) option" where
  "RollbackTransactionBranch p connectionId requested s =
     (case prepareTransactionBranchRequest p (ss_world s) requested of
        Inl e \<Rightarrow> Some (Inl e, s)
      | Inr (m, b) \<Rightarrow>
          (case connectionId of
             Some i \<Rightarrow>
               if i = [] then Some (Inl (Status InvalidArgument (BranchReason RollbackConnectionEmpty)), s)
               else
                 with_branch_connection s i
                   (\<lambda>bc w. reply_state validResolutionState InvalidRollbackState (bc_rollback bc b w))
           | None \<Rightarrow>
               (case reply_state validResolutionState InvalidRollbackState (rm_rollback m b (ss_world s)) of
                  (r, w1) \<Rightarrow> Some (r, s\<lparr>ss_world := w1\<rparr>))))"

definition GetTransactionBranchStatus ::
  "'w provider \<Rightarrow> branch_id option \<Rightarrow> 'w server_state \<Rightarrow> branch_state reply \<times> 'w server_state" where
  "GetTransactionBranchStatus p requested s =
     (case prepareTransactionBranchRequest p (ss_world s) requested of
        Inl e \<Rightarrow> (Inl e, s)
      | Inr (m, b) \<Rightarrow>
          (case reply_state validReportedState InvalidBranchState (rm_status m b (ss_world s)) of
             (r, w1) \<Rightarrow> (r, s\<lparr>ss_world := w1\<rparr>)))"

definition ForgetTransactionBranch ::
  "'w provider \<Rightarrow> branch_id option \<Rightarrow> 'w server_state \<Rightarrow> unit reply \<times> 'w server_state" where
  "ForgetTransactionBranch p requested s =
     (case prepareTransactionBranchRequest p (ss_world s) requested of
        Inl e \<Rightarrow> (Inl e, s)
      | Inr (m, b) \<Rightarrow>
          (case rm_forget m b (ss_world s) of
             (Some e, w1) \<Rightarrow> (Inl e, s\<lparr>ss_world := w1\<rparr>)
           | (None, w1) \<Rightarrow> (Inr (), s\<lparr>ss_world := w1\<rparr>)))"

section \<open>Recovery scans\<close>

text \<open>The inner loop over a batch, with the keys seen so far.\<close>

fun check_recovered ::
  "string \<Rightarrow> nat \<Rightarrow> string set \<Rightarrow> transaction_branch option list \<Rightarrow>
   recovery_reason + (transaction_branch list \<times> string set)" where
  "check_recovered m i seen [] = Inr ([], seen)"
| "check_recovered m i seen (x # xs) =
     (case x of
        None \<Rightarrow> Inl (NilRecoveredBranch i)
      | Some t \<Rightarrow>
          if \<not> validRecoveryState (tb_state t) then Inl (InvalidRecoveryState (tb_state t))
          else
            (case validateTransactionBranchID (tb_branch t) m of
               Inl e \<Rightarrow> Inl (InvalidRecoveredBranch e)
             | Inr b \<Rightarrow>
                 if transactionBranchKey b \<in> seen then Inl DuplicateRecoveredBranch
                 else
                   bind_sum (check_recovered m (Suc i) (insert (transactionBranchKey b) seen) xs)
                     (\<lambda>(ts, seen'). Inr (\<lparr>tb_branch = Some b, tb_state = tb_state t\<rparr> # ts, seen'))))"

definition branch_keys :: "string \<Rightarrow> string set" where
  "branch_keys m = {transactionBranchKey b | b. validateTransactionBranchID (Some b) m = Inr b}"

definition keys_of :: "transaction_branch list \<Rightarrow> string set" where
  "keys_of ts = (\<lambda>t. transactionBranchKey (the (tb_branch t))) ` set ts"

lemma finite_branch_keys: "finite (branch_keys m)"
proof -
  have "branch_keys m \<subseteq> (\<lambda>bs. m @ [CHR 0x00] @ bs) ` {bs. set bs \<subseteq> UNIV \<and> length bs \<le> 256}"
    by (auto simp: branch_keys_def check_simps transactionBranchKey_def)
  moreover have "finite {bs :: string. set bs \<subseteq> UNIV \<and> length bs \<le> 256}"
    by (rule finite_lists_length_le) simp
  ultimately show ?thesis by (meson finite_imageI finite_subset)
qed

definition recovered_ok :: "string \<Rightarrow> transaction_branch \<Rightarrow> bool" where
  "recovered_ok m t \<longleftrightarrow>
     validRecoveryState (tb_state t) \<and>
     (\<exists>b. tb_branch t = Some b \<and> validateTransactionBranchID (Some b) m = Inr b)"

lemma check_recovered_Inr:
  assumes "check_recovered m i seen xs = Inr (ts, seen')"
  shows "map Some ts = xs \<and> (\<forall>t\<in>set ts. recovered_ok m t) \<and> seen' = seen \<union> keys_of ts \<and>
    keys_of ts \<inter> seen = {} \<and> distinct (map (\<lambda>t. transactionBranchKey (the (tb_branch t))) ts)"
  using assms
proof (induction xs arbitrary: i seen ts)
  case (Cons x xs)
  from Cons.prems obtain t b ts1 where x: "x = Some t" "validRecoveryState (tb_state t)"
      "validateTransactionBranchID (tb_branch t) m = Inr b" "transactionBranchKey b \<notin> seen"
      and rest: "check_recovered m (Suc i) (insert (transactionBranchKey b) seen) xs = Inr (ts1, seen')"
      and ts: "ts = \<lparr>tb_branch = Some b, tb_state = tb_state t\<rparr> # ts1"
    by (auto simp: bind_sum_Inr split: option.splits if_splits sum.splits)
  have tb: "tb_branch t = Some b" using x(3) by (simp add: check_simps)
  then have t: "\<lparr>tb_branch = Some b, tb_state = tb_state t\<rparr> = t" by simp
  from Cons.IH [OF rest] x tb show ?case
    unfolding ts t by (auto simp: recovered_ok_def keys_of_def)
qed (simp add: keys_of_def)

lemma check_recovered_progress:
  assumes "check_recovered m i seen xs = Inr (ts, seen')" and "xs \<noteq> []"
  shows "card (branch_keys m - seen') < card (branch_keys m - seen)"
proof -
  note ok = check_recovered_Inr [OF assms(1)]
  with assms(2) obtain t where t: "t \<in> set ts" by (cases ts) auto
  let ?k = "transactionBranchKey (the (tb_branch t))"
  from t ok obtain b where b: "tb_branch t = Some b" "validateTransactionBranchID (Some b) m = Inr b"
    by (auto simp: recovered_ok_def)
  have "?k \<in> keys_of ts" using t by (auto simp: keys_of_def)
  moreover have "?k \<in> branch_keys m" using b by (auto simp: branch_keys_def)
  ultimately have "?k \<in> branch_keys m - seen" and "?k \<in> seen'" using ok by auto
  moreover have "branch_keys m - seen' \<subseteq> branch_keys m - seen" using ok by auto
  ultimately show ?thesis
    by (intro psubset_card_mono finite_Diff finite_branch_keys) auto
qed

function recover_loop ::
  "'w recovery_stream \<Rightarrow> string \<Rightarrow> transaction_branch list transport \<Rightarrow> transaction_branch list list \<Rightarrow>
   string set \<Rightarrow> 'w \<Rightarrow> (go_error option \<times> transaction_branch list list) \<times> 'w" where
  "recover_loop stream m send sent seen w =
     (case rv_next stream w of
        ((branches, nextErr), w1) \<Rightarrow>
          (case nextErr of
             Some e \<Rightarrow> if e = EOF then ((None, sent), w1) else ((Some e, sent), w1)
           | None \<Rightarrow>
               if branches = [] then ((Some (Status Internal (RecoveryReason EmptyRecoveryBatch)), sent), w1)
               else
                 (case check_recovered m 0 seen branches of
                    Inl e \<Rightarrow> ((Some (Status Internal (RecoveryReason e)), sent), w1)
                  | Inr (response, seen1) \<Rightarrow>
                      (case send sent response of
                         Some se \<Rightarrow> ((Some se, sent), w1)
                       | None \<Rightarrow> recover_loop stream m send (sent @ [response]) seen1 w1))))"
  by pat_completeness auto
termination
  by (relation "measure (\<lambda>(stream, m, send, sent, seen, w). card (branch_keys m - seen))")
    (auto intro: check_recovered_progress)

declare recover_loop.simps [simp del]

definition RecoverTransactionBranches ::
  "transaction_branch list transport \<Rightarrow> 'w provider \<Rightarrow> string \<Rightarrow> 'w server_state \<Rightarrow>
   (go_error option \<times> transaction_branch list list) \<times> 'w server_state" where
  "RecoverTransactionBranches send p requested s =
     (case transactionRecoveryManager p (ss_world s) of
        Inl e \<Rightarrow> ((Some e, []), s)
      | Inr m \<Rightarrow>
          (case validateRequestedResourceManager requested (rm_id m) of
             Some e \<Rightarrow> ((Some e, []), s)
           | None \<Rightarrow>
               (case rm_recover m (ss_world s) of
                  ((recoveryStream, err), w1) \<Rightarrow>
                    (case err of
                       Some e \<Rightarrow> ((Some e, []), s\<lparr>ss_world := w1\<rparr>)
                     | None \<Rightarrow>
                         (case recoveryStream of
                            None \<Rightarrow> ((Some (Status Internal (RecoveryReason NilRecoveryStream)), []), s\<lparr>ss_world := w1\<rparr>)
                          | Some stream \<Rightarrow>
                              (case recover_loop stream (rm_id m) send [] {} w1 of
                                 ((returnErr, sent), w2) \<Rightarrow>
                                   (case rv_close stream w2 of
                                      (closeErr, w3) \<Rightarrow>
                                        ((case returnErr of None \<Rightarrow> closeErr | Some e \<Rightarrow> Some e, sent),
                                         s\<lparr>ss_world := w3\<rparr>))))))))"

section \<open>What a scan reports\<close>

definition scan_ok :: "string \<Rightarrow> transaction_branch list list \<Rightarrow> bool" where
  "scan_ok m sent \<longleftrightarrow>
     (\<forall>ts\<in>set sent. ts \<noteq> []) \<and> (\<forall>t\<in>set (concat sent). recovered_ok m t) \<and>
     distinct (map tb_branch (concat sent))"

lemma scan_ok_extend:
  assumes "scan_ok m sent" and "xs \<noteq> []"
    and "check_recovered m i (keys_of (concat sent)) xs = Inr (ts, seen')"
  shows "scan_ok m (sent @ [ts])" and "seen' = keys_of (concat (sent @ [ts]))"
proof -
  note ok = check_recovered_Inr [OF assms(3)]
  show "seen' = keys_of (concat (sent @ [ts]))" using ok by (auto simp: keys_of_def)
  have "distinct (map tb_branch ts)"
  proof -
    have "map (\<lambda>t. transactionBranchKey (the (tb_branch t))) ts = map (transactionBranchKey \<circ> the) (map tb_branch ts)"
      by simp
    with ok show ?thesis by (metis distinct_map)
  qed
  moreover have "tb_branch t \<notin> tb_branch ` set ts" if "t \<in> set (concat sent)" for t
  proof
    assume "tb_branch t \<in> tb_branch ` set ts"
    then obtain u where "u \<in> set ts" "tb_branch u = tb_branch t" by auto
    then have "transactionBranchKey (the (tb_branch t)) \<in> keys_of ts"
      using imageI [of u "set ts" "\<lambda>t. transactionBranchKey (the (tb_branch t))"] by (simp add: keys_of_def)
    moreover have "transactionBranchKey (the (tb_branch t)) \<in> keys_of (concat sent)"
      using that by (auto simp: keys_of_def)
    ultimately show False using ok by blast
  qed
  ultimately show "scan_ok m (sent @ [ts])"
    using assms(1,2) ok by (auto simp: scan_ok_def)
qed

lemma recover_loop_scan:
  assumes "scan_ok m sent" and "seen = keys_of (concat sent)"
  shows "scan_ok m (snd (fst (recover_loop stream m send sent seen w)))"
  using assms
proof (induction stream m send sent seen w rule: recover_loop.induct)
  case (1 stream m send sent seen w)
  obtain branches err w1 where next1: "rv_next stream w = ((branches, err), w1)" by (metis surj_pair)
  show ?case
  proof (cases "err = None \<and> branches \<noteq> [] \<and> (\<exists>ts seen1. check_recovered m 0 seen branches = Inr (ts, seen1) \<and>
      send sent ts = None)")
    case True
    then obtain ts seen1 where ts: "check_recovered m 0 seen branches = Inr (ts, seen1)" "send sent ts = None"
      by blast
    note step = scan_ok_extend [OF 1(2) _ ts(1) [unfolded 1(3)]]
    have "scan_ok m (snd (fst (recover_loop stream m send (sent @ [ts]) seen1 w1)))"
      using True next1 ts step by (intro 1(1)) auto
    with True ts show ?thesis by (subst recover_loop.simps) (simp add: next1)
  next
    case False
    with 1(2) show ?thesis
      by (subst recover_loop.simps) (auto simp: next1 split: option.splits sum.splits)
  qed
qed

section \<open>Properties\<close>


lemma with_branch_connection_Inr:
  assumes "registry_ok (ss_registry s)" and "with_branch_connection s i body = Some (Inr x, s')"
  shows "\<exists>c bc. connection_at s i = Some c \<and> cn_branches c = Some bc \<and>
    body bc (ss_world s) = (Inr x, ss_world s') \<and> ss_registry s' = ss_registry s"
  using assms(2) unfolding with_branch_connection_def run_with_eq [OF assms(1)]
  by (auto simp: not_acquired_def split: option.splits if_splits prod.splits)

lemma reply_state_Inr: "reply_state valid bad r = (Inr x, w) \<longleftrightarrow> r = ((x, None), w) \<and> valid x"
  by (auto simp: reply_state_def split: prod.splits option.splits if_splits)

lemma transactionRecoveryManager_Inr:
  "transactionRecoveryManager p w = Inr m \<longleftrightarrow> recovery_manager_of p w = Some m \<and> manager_id_ok (rm_id m)"
  unfolding validateResourceManagerID_None [symmetric]
  by (auto simp: transactionRecoveryManager_def split: option.splits)

lemma prepareTransactionBranchRequest_Inr:
  "prepareTransactionBranchRequest p w requested = Inr (m, b) \<longleftrightarrow>
     recovery_manager_of p w = Some m \<and> validateTransactionBranchID requested (rm_id m) = Inr b"
proof -
  have "manager_id_ok (rm_id m)" if "validateTransactionBranchID requested (rm_id m) = Inr b"
    using that by (simp add: check_simps)
  moreover have "(case v of Inl e \<Rightarrow> Inl (f e) | Inr b' \<Rightarrow> Inr (m', b')) = Inr (m, b) \<longleftrightarrow> m' = m \<and> v = Inr b"
    for v :: "branch_err + branch_id" and f :: "branch_err \<Rightarrow> go_error" and m'
    by (cases v) auto
  ultimately show ?thesis
    by (auto simp: prepareTransactionBranchRequest_def bind_sum_Inr transactionRecoveryManager_Inr)
qed

text \<open>
  A branch is resolved by exactly one call on the right party. A reported commit state is
  a resolution state that came, without error, from the connection named in the request when
  it is a one-phase commit, and from the recovery manager, with no connection named, when the
  branch was prepared; likewise a rollback goes to the named connection or, without one, to
  the manager. The branch is the requested one, valid for that manager.
\<close>

theorem branch_resolution_sound:
  assumes "registry_ok (ss_registry s)"
  shows "(CommitTransactionBranch p i requested onePhase s = Some (Inr x, s') \<longrightarrow>
      validResolutionState x \<and> ss_registry s' = ss_registry s \<and>
      (\<exists>m b. recovery_manager_of p (ss_world s) = Some m \<and> validateTransactionBranchID requested (rm_id m) = Inr b \<and>
        (if onePhase
         then \<exists>j c bc. i = Some j \<and> connection_at s j = Some c \<and> cn_branches c = Some bc \<and>
                bc_commit bc b (ss_world s) = ((x, None), ss_world s')
         else i = None \<and> rm_commit m b (ss_world s) = ((x, None), ss_world s')))) \<and>
    (RollbackTransactionBranch p i requested s = Some (Inr x, s') \<longrightarrow>
      validResolutionState x \<and> ss_registry s' = ss_registry s \<and>
      (\<exists>m b. recovery_manager_of p (ss_world s) = Some m \<and> validateTransactionBranchID requested (rm_id m) = Inr b \<and>
        (case i of
           Some j \<Rightarrow> \<exists>c bc. connection_at s j = Some c \<and> cn_branches c = Some bc \<and>
             bc_rollback bc b (ss_world s) = ((x, None), ss_world s')
         | None \<Rightarrow> rm_rollback m b (ss_world s) = ((x, None), ss_world s'))))"
proof (intro conjI impI)
  have mgr: "recovery_manager_of p (ss_world s) = Some m"
      "validateTransactionBranchID requested (rm_id m) = Inr b"
    if "prepareTransactionBranchRequest p (ss_world s) requested = Inr (m, b)" for m b
    using that by (simp_all add: prepareTransactionBranchRequest_Inr)
  {
    assume "CommitTransactionBranch p i requested onePhase s = Some (Inr x, s')"
    then obtain m b where mb: "prepareTransactionBranchRequest p (ss_world s) requested = Inr (m, b)"
      and run: "if onePhase
        then \<exists>j. i = Some j \<and> with_branch_connection s j
            (\<lambda>bc w. reply_state validResolutionState InvalidCommitState (bc_commit bc b w)) = Some (Inr x, s')
        else i = None \<and> reply_state validResolutionState InvalidCommitState (rm_commit m b (ss_world s)) =
            (Inr x, ss_world s') \<and> ss_registry s' = ss_registry s"
      by (auto simp: CommitTransactionBranch_def split: sum.splits if_splits option.splits prod.splits)
    with mgr [OF mb] with_branch_connection_Inr [OF assms]
    show "validResolutionState x" "ss_registry s' = ss_registry s"
      "\<exists>m b. recovery_manager_of p (ss_world s) = Some m \<and> validateTransactionBranchID requested (rm_id m) = Inr b \<and>
        (if onePhase
         then \<exists>j c bc. i = Some j \<and> connection_at s j = Some c \<and> cn_branches c = Some bc \<and>
                bc_commit bc b (ss_world s) = ((x, None), ss_world s')
         else i = None \<and> rm_commit m b (ss_world s) = ((x, None), ss_world s'))"
      by (fastforce simp: reply_state_Inr split: if_splits)+
  }
  {
    assume "RollbackTransactionBranch p i requested s = Some (Inr x, s')"
    then obtain m b where mb: "prepareTransactionBranchRequest p (ss_world s) requested = Inr (m, b)"
      and run: "case i of
          Some j \<Rightarrow> with_branch_connection s j
            (\<lambda>bc w. reply_state validResolutionState InvalidRollbackState (bc_rollback bc b w)) = Some (Inr x, s')
        | None \<Rightarrow> reply_state validResolutionState InvalidRollbackState (rm_rollback m b (ss_world s)) =
            (Inr x, ss_world s') \<and> ss_registry s' = ss_registry s"
      by (auto simp: RollbackTransactionBranch_def split: sum.splits if_splits option.splits prod.splits)
    with mgr [OF mb] with_branch_connection_Inr [OF assms]
    show "validResolutionState x" "ss_registry s' = ss_registry s"
      "\<exists>m b. recovery_manager_of p (ss_world s) = Some m \<and> validateTransactionBranchID requested (rm_id m) = Inr b \<and>
        (case i of
           Some j \<Rightarrow> \<exists>c bc. connection_at s j = Some c \<and> cn_branches c = Some bc \<and>
             bc_rollback bc b (ss_world s) = ((x, None), ss_world s')
         | None \<Rightarrow> rm_rollback m b (ss_world s) = ((x, None), ss_world s'))"
      by (fastforce simp: reply_state_Inr split: option.splits)+
  }
qed

definition branch_manager :: "nat recovery_manager" where
  "branch_manager =
     \<lparr>rm_id = ''rm'', rm_commit = \<lambda>_ w. ((TRANSACTION_BRANCH_STATE_COMMITTED, None), Suc w),
      rm_rollback = \<lambda>_ w. ((TRANSACTION_BRANCH_STATE_ROLLED_BACK, None), w),
      rm_recover = \<lambda>w. ((None, None), w), rm_status = \<lambda>_ w. ((TRANSACTION_BRANCH_STATE_PREPARED, None), w),
      rm_forget = \<lambda>_ w. (None, w)\<rparr>"

definition branch_provider :: "nat provider" where
  "branch_provider = null_provider\<lparr>pv_recovery := Some (\<lambda>_. Some branch_manager)\<rparr>"

theorem branch_resolution_sound_witness:
  "\<exists>m b. recovery_manager_of branch_provider 0 = Some m \<and>
     rm_commit m b 0 = ((TRANSACTION_BRANCH_STATE_COMMITTED, None), 1)"
proof -
  let ?b = "\<lparr>br_resource_manager_id = ''rm'', br_branch_id = ''b1''\<rparr>"
  have "validateTransactionBranchID (Some ?b) ''rm'' = Inr ?b" by code_simp
  then have "prepareTransactionBranchRequest branch_provider 0 (Some ?b) = Inr (branch_manager, ?b)"
    by (simp add: prepareTransactionBranchRequest_Inr recovery_manager_of_def branch_provider_def)
      (simp add: branch_manager_def)
  then have "CommitTransactionBranch branch_provider None (Some ?b) False null_server =
      Some (Inr TRANSACTION_BRANCH_STATE_COMMITTED, null_server\<lparr>ss_world := 1\<rparr>)"
    by (simp add: CommitTransactionBranch_def branch_manager_def reply_state_def validResolutionState_def)
  then show ?thesis
    using branch_resolution_sound [OF null_server_ok, of branch_provider None "Some ?b" False
        TRANSACTION_BRANCH_STATE_COMMITTED "null_server\<lparr>ss_world := 1\<rparr>"] by auto
qed

end
