(* ===== verification/LobServer.thy ===== *)
theory LobServer
  imports QueryServer
begin

text \<open>
  \<open>sdk-go/provider/lob.go\<close>: streaming a provider-owned LOB and releasing it. Offsets and
  byte counts are the 64-bit words of the protocol, with Go's wrap-around. The loop needs no
  assumption on the provider: a chunk that lets it continue advances the expected offset, and
  the overflow check keeps the offset from wrapping, so \<open>lob_loop\<close> is a total function.
\<close>

definition chunk_size :: "read_lob_response \<Rightarrow> 64 word" where
  "chunk_size r = word_of_nat (length (rr_data r))"

text \<open>The checks of one response, in the order of the handler.\<close>

definition check_chunk ::
  "read_lob_request \<Rightarrow> 64 word \<Rightarrow> 64 word \<Rightarrow> read_lob_response \<Rightarrow> lob_reason option" where
  "check_chunk req expectedOffset bytesSent r =
     first_of
      [fail_if (rr_offset r \<noteq> expectedOffset) (LobOffsetMismatch (rr_offset r) expectedOffset),
       fail_if (\<not> rr_end_of_read r \<and> chunk_size r = 0) LobEmptyChunk,
       fail_if (rl_max_chunk_bytes req > 0 \<and> chunk_size r > ucast (rl_max_chunk_bytes req))
         (LobChunkTooLarge (chunk_size r) (rl_max_chunk_bytes req)),
       (case rl_length req of
          None \<Rightarrow> None
        | Some n \<Rightarrow> fail_if (chunk_size r > n \<or> bytesSent > n - chunk_size r) LobLengthExceeded),
       fail_if (chunk_size r > - 1 - expectedOffset) LobOffsetOverflow]"

lemma lob_progress:
  fixes chunk expected :: "64 word"
  assumes "chunk \<noteq> 0" and "\<not> chunk > - 1 - expected"
  shows "unat (- 1 - (expected + chunk)) < unat (- 1 - expected)"
proof -
  have "chunk \<le> - 1 - expected" using assms(2) by simp
  then have "unat (- 1 - expected - chunk) = unat (- 1 - expected) - unat chunk" by (rule unat_sub)
  moreover have "0 < unat chunk" using assms(1) by (simp add: unat_gt_0)
  moreover have "unat chunk \<le> unat (- 1 - expected)" using \<open>chunk \<le> - 1 - expected\<close> by (simp add: word_le_nat_alt)
  ultimately show ?thesis by (simp add: algebra_simps)
qed

function lob_loop ::
  "'w lob_stream \<Rightarrow> read_lob_request \<Rightarrow> read_lob_response transport \<Rightarrow> read_lob_response list \<Rightarrow>
   64 word \<Rightarrow> 64 word \<Rightarrow> 'w \<Rightarrow> (go_error option \<times> read_lob_response list) \<times> 'w" where
  "lob_loop stream req send sent expectedOffset bytesSent w =
     (case ls_next stream w of
        ((response, err), w1) \<Rightarrow>
          (case err of
             Some e \<Rightarrow>
               ((Some (if errors_Is_EOF e then Status Internal (LobReason LobEndedEarly) else e), sent), w1)
           | None \<Rightarrow>
               (case response of
                  None \<Rightarrow> ((Some (Status Internal (LobReason NilLobResponse)), sent), w1)
                | Some r \<Rightarrow>
                    (case check_chunk req expectedOffset bytesSent r of
                       Some e \<Rightarrow> ((Some (Status Internal (LobReason e)), sent), w1)
                     | None \<Rightarrow>
                         (case send sent r of
                            Some se \<Rightarrow> ((Some se, sent), w1)
                          | None \<Rightarrow>
                              if rr_end_of_read r then ((None, sent @ [r]), w1)
                              else lob_loop stream req send (sent @ [r])
                                     (expectedOffset + chunk_size r) (bytesSent + chunk_size r) w1)))))"
  by pat_completeness auto
termination
  by (relation "measure (\<lambda>(stream, req, send, sent, expected, bytesSent, w). unat (- 1 - expected))")
    (auto simp: check_chunk_def intro!: lob_progress)

declare lob_loop.simps [simp del]

definition ReadLob ::
  "read_lob_response transport \<Rightarrow> read_lob_request \<Rightarrow> 'w server_state \<Rightarrow>
   ((go_error option \<times> read_lob_response list) \<times> 'w server_state) option" where
  "ReadLob send req s =
     run_with s (rl_connection_id req) (\<lambda>e. (Some e, []))
       (\<lambda>c w.
          case cn_lob c of
            None \<Rightarrow> Some ((Some (Status Unimplemented (LobReason LobReadUnsupported)), []), w)
          | Some l \<Rightarrow>
              if rl_lob_id req = []
              then Some ((Some (Status InvalidArgument (LobReason LobIdRequired)), []), w)
              else
                (case lc_read l (req\<lparr>rl_connection_id := []\<rparr>) w of
                   ((lobStream, err), w1) \<Rightarrow>
                     (case err of
                        Some e \<Rightarrow> Some ((Some e, []), w1)
                      | None \<Rightarrow>
                          (case lobStream of
                             None \<Rightarrow> Some ((Some (Status Internal (LobReason NilLobStream)), []), w1)
                           | Some stream \<Rightarrow>
                               (case lob_loop stream req send [] (rl_offset req) 0 w1 of
                                  ((returnErr, sent), w2) \<Rightarrow>
                                    (case ls_close stream w2 of
                                       (closeErr, w3) \<Rightarrow>
                                         Some ((case returnErr of None \<Rightarrow> closeErr | Some e \<Rightarrow> Some e, sent), w3)))))))"

definition ReleaseLob :: "release_lob_request \<Rightarrow> 'w server_state \<Rightarrow> (unit reply \<times> 'w server_state) option" where
  "ReleaseLob req s =
     run_with s (rel_connection_id req) Inl
       (\<lambda>c w.
          case cn_lob c of
            None \<Rightarrow> Some (Inl (Status Unimplemented (LobReason LobReleaseUnsupported)), w)
          | Some l \<Rightarrow>
              if rel_lob_id req = [] then Some (Inl (Status InvalidArgument (LobReason LobIdRequired)), w)
              else reply_unit (lc_release l (req\<lparr>rel_connection_id := []\<rparr>) w))"

section \<open>What is sent\<close>

fun contiguous :: "nat \<Rightarrow> read_lob_response list \<Rightarrow> bool" where
  "contiguous n [] \<longleftrightarrow> True"
| "contiguous n (r # rs) \<longleftrightarrow> unat (rr_offset r) = n \<and> contiguous (n + length (rr_data r)) rs"

definition total :: "read_lob_response list \<Rightarrow> nat" where
  "total rs = sum_list (map (length \<circ> rr_data) rs)"

lemma total_simps [simp]: "total [] = 0" "total (r # rs) = length (rr_data r) + total rs"
  "total (xs @ ys) = total xs + total ys"
  by (simp_all add: total_def)

lemma contiguous_snoc:
  "contiguous n (rs @ [r]) \<longleftrightarrow> contiguous n rs \<and> unat (rr_offset r) = n + total rs"
  by (induction rs arbitrary: n) (simp_all add: conj_ac add_ac)

text \<open>
  The chunks read so far: contiguous from the requested offset, without wrapping, within the
  requested length, none larger than asked for.
\<close>

definition lob_chunks_ok :: "read_lob_request \<Rightarrow> read_lob_response list \<Rightarrow> bool" where
  "lob_chunks_ok req rs \<longleftrightarrow>
     contiguous (unat (rl_offset req)) rs \<and> unat (rl_offset req) + total rs < 2 ^ 64 \<and>
     (\<forall>n. rl_length req = Some n \<longrightarrow> total rs \<le> unat n) \<and>
     (rl_max_chunk_bytes req > 0 \<longrightarrow> (\<forall>r\<in>set rs. length (rr_data r) \<le> unat (rl_max_chunk_bytes req)))"

definition unfinished :: "read_lob_response list \<Rightarrow> bool" where
  "unfinished rs \<longleftrightarrow> (\<forall>r\<in>set rs. \<not> rr_end_of_read r \<and> rr_data r \<noteq> [])"

lemma unat_chunk_size: "length (rr_data r) < 2 ^ 63 \<Longrightarrow> unat (chunk_size r) = length (rr_data r)"
  by (simp add: chunk_size_def unat_of_nat)

lemma check_chunk_ok:
  assumes ok: "check_chunk req expected bytesSent r = None" and len: "length (rr_data r) < 2 ^ 63"
    and chunks: "lob_chunks_ok req rs" and e: "unat expected = unat (rl_offset req) + total rs"
    and b: "unat bytesSent = total rs"
  shows "lob_chunks_ok req (rs @ [r])"
    and "unat (expected + chunk_size r) = unat (rl_offset req) + total (rs @ [r])"
    and "unat (bytesSent + chunk_size r) = total (rs @ [r])"
proof -
  let ?n = "length (rr_data r)"
  note size = unat_chunk_size [OF len]
  from ok have offset: "rr_offset r = expected"
    and max: "rl_max_chunk_bytes req > 0 \<longrightarrow> chunk_size r \<le> ucast (rl_max_chunk_bytes req)"
    and length: "\<forall>n. rl_length req = Some n \<longrightarrow> chunk_size r \<le> n \<and> bytesSent \<le> n - chunk_size r"
    and over: "chunk_size r \<le> - 1 - expected"
    by (auto simp: check_chunk_def not_less split: option.splits)
  have "unat (- 1 - expected) = 2 ^ 64 - 1 - unat expected"
    by (subst unat_sub) (simp_all add: unsigned_minus_1_eq_mask mask_eq_exp_minus_1)
  with over size have bound: "unat expected + ?n < 2 ^ 64"
    using unsigned_less [of expected, where ?'a = nat] by (auto simp: word_le_nat_alt)
  then show "unat (expected + chunk_size r) = unat (rl_offset req) + total (rs @ [r])"
    using e size by (subst unat_plus_if') simp
  show "unat (bytesSent + chunk_size r) = total (rs @ [r])"
    using bound b e size by (subst unat_plus_if') simp
  have "total rs + ?n \<le> unat n" if "rl_length req = Some n" for n
  proof -
    from length that have "chunk_size r \<le> n" "bytesSent \<le> n - chunk_size r" by auto
    then have "unat bytesSent \<le> unat n - unat (chunk_size r)" and "unat (chunk_size r) \<le> unat n"
      by (simp_all add: word_le_nat_alt unat_sub)
    with size b show ?thesis by simp
  qed
  moreover have "?n \<le> unat (rl_max_chunk_bytes req)" if "rl_max_chunk_bytes req > 0"
  proof -
    have "unat (rl_max_chunk_bytes req) < 2 ^ 64"
      using unsigned_less [of "rl_max_chunk_bytes req", where ?'a = nat] by simp
    then have "unat (ucast (rl_max_chunk_bytes req) :: 64 word) = unat (rl_max_chunk_bytes req)"
      by (simp add: unsigned_ucast_eq take_bit_nat_eq_self)
    with max that size show ?thesis by (simp add: word_le_nat_alt)
  qed
  ultimately show "lob_chunks_ok req (rs @ [r])"
    using chunks bound e offset by (auto simp: lob_chunks_ok_def contiguous_snoc)
qed

text \<open>
  Go's lengths are non-negative ints, so a response holds fewer than \<open>2 ^ 63\<close> bytes.
\<close>

definition go_sized :: "'w lob_stream \<Rightarrow> bool" where
  "go_sized stream \<longleftrightarrow>
     (\<forall>w r e w1. ls_next stream w = ((Some r, e), w1) \<longrightarrow> length (rr_data r) < 2 ^ 63)"

text \<open>
  \<open>well_read req err rs\<close>: the chunks are in order; every chunk but the last says that more
  follows and is not empty; without an error the last one says it is the last.
\<close>

definition well_read :: "read_lob_request \<Rightarrow> go_error option \<Rightarrow> read_lob_response list \<Rightarrow> bool" where
  "well_read req err rs \<longleftrightarrow>
     lob_chunks_ok req rs \<and> unfinished (butlast rs) \<and>
     (err = None \<longrightarrow> rs \<noteq> [] \<and> rr_end_of_read (last rs))"

lemma unfinished_butlast: "unfinished rs \<Longrightarrow> unfinished (butlast rs)"
  by (auto simp: unfinished_def dest: in_set_butlastD)

lemma unfinished_well_read:
  "lob_chunks_ok req rs \<Longrightarrow> unfinished rs \<Longrightarrow> well_read req (Some e) rs"
  by (simp add: well_read_def unfinished_butlast)

lemma lob_loop_well_read:
  assumes "go_sized stream" and "lob_chunks_ok req sent" and "unfinished sent"
    and "unat expected = unat (rl_offset req) + total sent" and "unat bytesSent = total sent"
  shows "well_read req (fst (fst (lob_loop stream req send sent expected bytesSent w)))
    (snd (fst (lob_loop stream req send sent expected bytesSent w)))"
  using assms
proof (induction stream req send sent expected bytesSent w rule: lob_loop.induct)
  case (1 stream req send sent expected bytesSent w)
  obtain response err w1 where next1: "ls_next stream w = ((response, err), w1)" by (metis surj_pair)
  show ?case
  proof (cases "err \<noteq> None \<or> response = None \<or> check_chunk req expected bytesSent (the response) \<noteq> None \<or>
      send sent (the response) \<noteq> None")
    case True
    with 1 show ?thesis
      by (subst (1 2) lob_loop.simps) (auto simp: next1 intro: unfinished_well_read split: option.splits)
  next
    case False
    then obtain r where r: "response = Some r" "err = None" "check_chunk req expected bytesSent r = None"
      "send sent r = None" by auto
    have len: "length (rr_data r) < 2 ^ 63" using 1(2) next1 r(1) unfolding go_sized_def by blast
    note step = check_chunk_ok [OF r(3) len 1(3,5,6)]
    show ?thesis
    proof (cases "rr_end_of_read r")
      case True
      then show ?thesis
        using step(1) 1(4) by (subst (1 2) lob_loop.simps) (simp add: next1 r well_read_def)
    next
      case more: False
      with r(3) have "unfinished (sent @ [r])"
        using 1(4) by (auto simp: unfinished_def check_chunk_def chunk_size_def)
      then have "well_read req
          (fst (fst (lob_loop stream req send (sent @ [r]) (expected + chunk_size r) (bytesSent + chunk_size r) w1)))
          (snd (fst (lob_loop stream req send (sent @ [r]) (expected + chunk_size r) (bytesSent + chunk_size r) w1)))"
        using next1 r more step 1(2) by (intro 1(1)) auto
      then show ?thesis
        using more by (subst (1 2) lob_loop.simps) (simp add: next1 r)
    qed
  qed
qed

lemma ReadLob_eq:
  assumes "registry_ok (ss_registry s)"
  shows "ReadLob send req s =
    (case not_acquired s (rl_connection_id req) of
       Some e \<Rightarrow> Some ((Some e, []), s)
     | None \<Rightarrow>
         (case cn_lob (the (connection_at s (rl_connection_id req))) of
            None \<Rightarrow> Some ((Some (Status Unimplemented (LobReason LobReadUnsupported)), []), s)
          | Some l \<Rightarrow>
              if rl_lob_id req = []
              then Some ((Some (Status InvalidArgument (LobReason LobIdRequired)), []), s)
              else
                (case lc_read l (req\<lparr>rl_connection_id := []\<rparr>) (ss_world s) of
                   ((lobStream, err), w1) \<Rightarrow>
                     (case err of
                        Some e \<Rightarrow> Some ((Some e, []), s\<lparr>ss_world := w1\<rparr>)
                      | None \<Rightarrow>
                          (case lobStream of
                             None \<Rightarrow> Some ((Some (Status Internal (LobReason NilLobStream)), []), s\<lparr>ss_world := w1\<rparr>)
                           | Some stream \<Rightarrow>
                               (case lob_loop stream req send [] (rl_offset req) 0 w1 of
                                  ((returnErr, sent), w2) \<Rightarrow>
                                    Some ((case returnErr of None \<Rightarrow> fst (ls_close stream w2) | Some e \<Rightarrow> Some e, sent),
                                          s\<lparr>ss_world := snd (ls_close stream w2)\<rparr>)))))))"
  unfolding ReadLob_def run_with_eq [OF assms]
  by (auto split: option.splits prod.splits)

lemma well_read_Nil: "well_read req (Some e) []"
  using unsigned_less [of "rl_offset req", where ?'a = nat]
  by (simp add: well_read_def lob_chunks_ok_def unfinished_def)

lemma unfinished_length: "unfinished rs \<Longrightarrow> length rs \<le> total rs"
proof (induction rs)
  case (Cons r rs)
  then have "rr_data r \<noteq> []" and "length rs \<le> total rs" by (auto simp: unfinished_def)
  then show ?case by (cases "rr_data r") auto
qed simp

section \<open>Properties\<close>

text \<open>
  C23: \<open>ReadLob\<close> always returns. What it has sent is a contiguous run of the LOB from the
  requested offset that never wraps around 64 bits, stays within the requested length and
  within the requested chunk size; every chunk but the last carries data and says that more
  follows, and a call without error ends with a chunk that says it is the last. A read of
  \<open>n\<close> bytes therefore sends at most \<open>n + 1\<close> messages.
\<close>

theorem readLob_sound:
  assumes "registry_ok (ss_registry s)"
    and "\<And>c l stream w. connection_at s (rl_connection_id req) = Some c \<Longrightarrow> cn_lob c = Some l \<Longrightarrow>
      fst (fst (lc_read l (req\<lparr>rl_connection_id := []\<rparr>) w)) = Some stream \<Longrightarrow> go_sized stream"
  shows "\<exists>err sent s'. ReadLob send req s = Some ((err, sent), s') \<and> well_read req err sent \<and>
    (\<forall>n. rl_length req = Some n \<longrightarrow> length sent \<le> unat n + 1)"
proof -
  have "\<exists>err sent s'. ReadLob send req s = Some ((err, sent), s') \<and> well_read req err sent"
  proof (cases "not_acquired s (rl_connection_id req)")
    case None
    then obtain c where c: "connection_at s (rl_connection_id req) = Some c"
      by (auto simp: not_acquired_def split: if_splits)
    show ?thesis
    proof (cases "cn_lob c")
      case (Some l)
      obtain rs er w1 where q: "lc_read l (req\<lparr>rl_connection_id := []\<rparr>) (ss_world s) = ((rs, er), w1)"
        by (metis surj_pair)
      show ?thesis
      proof (cases "rl_lob_id req = [] \<or> er \<noteq> None \<or> rs = None")
        case False
        then obtain stream where stream: "rs = Some stream" "er = None" by auto
        have "go_sized stream" using assms(2) [OF c Some, of "ss_world s" stream] q stream by simp
        moreover have "lob_chunks_ok req []"
          using well_read_Nil [of req EOF] by (simp add: well_read_def)
        ultimately have "well_read req (fst (fst (lob_loop stream req send [] (rl_offset req) 0 w1)))
            (snd (fst (lob_loop stream req send [] (rl_offset req) 0 w1)))"
          by (intro lob_loop_well_read) (simp_all add: unfinished_def)
        then show ?thesis
          unfolding ReadLob_eq [OF assms(1)] using None c Some q stream False
          by (auto simp: well_read_def split: prod.splits option.splits)
      qed (use None c Some q in \<open>auto simp: ReadLob_eq [OF assms(1)] well_read_Nil split: option.splits\<close>)
    qed (use None c in \<open>auto simp: ReadLob_eq [OF assms(1)] well_read_Nil\<close>)
  qed (simp add: ReadLob_eq [OF assms(1)] well_read_Nil)
  moreover have "length sent \<le> unat n + 1" if "well_read req err sent" "rl_length req = Some n" for err sent n
  proof -
    have "length (butlast sent) \<le> total (butlast sent)"
      using that(1) by (intro unfinished_length) (simp add: well_read_def)
    moreover have "total (butlast sent) \<le> total sent"
      by (cases sent rule: rev_cases) simp_all
    moreover have "total sent \<le> unat n" using that by (simp add: well_read_def lob_chunks_ok_def)
    ultimately show ?thesis by simp
  qed
  ultimately show ?thesis by blast
qed

definition lob_answer :: read_lob_response where
  "lob_answer = \<lparr>rr_offset = 5, rr_data = ''data'', rr_end_of_read = True\<rparr>"

definition lob_server :: "nat server_state" where
  "lob_server =
     \<lparr>ss_registry = register newConnectionRegistry ''c1''
        (null_connection\<lparr>cn_lob := Some
           \<lparr>lc_read = \<lambda>_ w. ((Some \<lparr>ls_next = \<lambda>w. ((Some lob_answer, None), Suc w), ls_close = \<lambda>w. (None, w)\<rparr>, None), w),
            lc_release = \<lambda>_ w. (None, w)\<rparr>\<rparr>), ss_world = 0\<rparr>"

definition lob_request :: read_lob_request where
  "lob_request = \<lparr>rl_connection_id = ''c1'', rl_lob_id = ''lob-1'', rl_offset = 5, rl_length = Some 10,
     rl_max_chunk_bytes = 4\<rparr>"

theorem readLob_sound_witness:
  "\<exists>err sent s'. ReadLob (\<lambda>_ _. None) lob_request lob_server = Some ((err, sent), s') \<and> length sent \<le> 11"
proof -
  have "registry_ok (register newConnectionRegistry ''c1'' c)" for c :: "nat connection"
    by (rule register_ok [OF newConnectionRegistry_ok]) (simp add: newConnectionRegistry_def)
  then have "registry_ok (ss_registry lob_server)" by (simp add: lob_server_def)
  moreover have "go_sized stream" if "connection_at lob_server (rl_connection_id lob_request) = Some c"
      "cn_lob c = Some l" "fst (fst (lc_read l (lob_request\<lparr>rl_connection_id := []\<rparr>) w)) = Some stream"
    for c l stream w
    using that by (auto simp: connection_at_def lob_server_def register_def newConnectionRegistry_def
        lob_request_def go_sized_def lob_answer_def)
  ultimately show ?thesis
    using readLob_sound [of lob_server lob_request "\<lambda>_ _. None"] by (auto simp: lob_request_def)
qed

end
