(* ===== verification/CachedConnection.thy ===== *)
theory CachedConnection
  imports CachedStreams BranchServer LobServer
begin

text \<open>
  The caching provider of \<open>sdk-go/provider/cache\<close>: \<open>cachedConnection\<close> (\<open>query.go\<close>,
  \<open>mutation.go\<close>, \<open>transaction.go\<close>, \<open>transaction_recovery.go\<close>), \<open>lobCachedConnection\<close>
  (\<open>lob.go\<close>), \<open>cachedRecoveryManager\<close>, and \<open>Wrap\<close>, \<open>Provider\<close> and \<open>Controller\<close> (\<open>cache.go\<close>).

  A wrapped provider is again a provider, over the world \<open>cache_world\<close>: the world of the
  provider below, the shared cache state, and the heap of the objects the cache allocates. A
  connection or a stream of the cache is a record of operations that closes over its index in
  that heap, as the Go value is a pointer. Operations of one connection that touch its pending
  invalidations hold \<open>transactionMu\<close> throughout, so each is one step.
\<close>

record connection_state =
  kc_active :: bool
  kc_pending :: "string list"
  kc_pending_all :: bool

record 'w cache_world =
  cw_inner :: 'w
  cw_state :: cache_state
  cw_connections :: "connection_state list"
  cw_recordings :: "'w recording list"
  cw_replays :: "replay list"

section \<open>Delegation\<close>

definition lift_inner :: "('w \<Rightarrow> 'r \<times> 'w) \<Rightarrow> 'w cache_world \<Rightarrow> 'r \<times> 'w cache_world" where
  "lift_inner f v = (case f (cw_inner v) of (r, w) \<Rightarrow> (r, v\<lparr>cw_inner := w\<rparr>))"

definition lift_stream :: "'w result_stream \<Rightarrow> 'w cache_world result_stream" where
  "lift_stream st = \<lparr>rs_next = lift_inner (rs_next st), rs_close = lift_inner (rs_close st),
     rs_outcome = map_option lift_inner (rs_outcome st)\<rparr>"

definition lift_lob_stream :: "'w lob_stream \<Rightarrow> 'w cache_world lob_stream" where
  "lift_lob_stream st = \<lparr>ls_next = lift_inner (ls_next st), ls_close = lift_inner (ls_close st)\<rparr>"

definition lift_recovery_stream :: "'w recovery_stream \<Rightarrow> 'w cache_world recovery_stream" where
  "lift_recovery_stream st = \<lparr>rv_next = lift_inner (rv_next st), rv_close = lift_inner (rv_close st)\<rparr>"

text \<open>A call that returns an object of the provider below, wrapped so that it works on the larger world.\<close>

definition lift_object ::
  "('s \<Rightarrow> 't) \<Rightarrow> ('w \<Rightarrow> ('s option \<times> go_error option) \<times> 'w) \<Rightarrow> 'w cache_world \<Rightarrow>
   ('t option \<times> go_error option) \<times> 'w cache_world" where
  "lift_object g f v =
     (case lift_inner f v of ((st, err), v1) \<Rightarrow> ((map_option g st, err), v1))"

section \<open>Streams on the heap\<close>

definition put_recording :: "nat \<Rightarrow> 'w recording \<Rightarrow> 'w cache_world \<Rightarrow> 'w cache_world" where
  "put_recording i r v = v\<lparr>cw_recordings := (cw_recordings v)[i := r]\<rparr>"

definition put_replay :: "nat \<Rightarrow> replay \<Rightarrow> 'w cache_world \<Rightarrow> 'w cache_world" where
  "put_replay i p v = v\<lparr>cw_replays := (cw_replays v)[i := p]\<rparr>"

text \<open>
  The interface of a stream has no way not to return: the closing store keeps the world where
  \<open>recording_Close\<close> is undefined, which \<open>recording_Close_returns\<close> excludes.
\<close>

definition recording_stream :: "'w externals \<Rightarrow> nat \<Rightarrow> 'w cache_world result_stream" where
  "recording_stream ex i =
     \<lparr>rs_next = \<lambda>v.
        (case recording_Next ex (cs_max_entry_bytes (cw_state v)) (cw_recordings v ! i) (cw_inner v) of
           (res, r, w) \<Rightarrow> (res, put_recording i r v\<lparr>cw_inner := w\<rparr>)),
      rs_close = \<lambda>v.
        (case recording_Close ex (cw_recordings v ! i) (cw_state v) (cw_inner v) of
           None \<Rightarrow> (None, v)
         | Some (err, r, s, w) \<Rightarrow> (err, put_recording i r v\<lparr>cw_inner := w, cw_state := s\<rparr>)),
      rs_outcome = Some (\<lambda>v. (recording_Outcome (cw_recordings v ! i), v))\<rparr>"

definition replay_stream :: "'w externals \<Rightarrow> nat \<Rightarrow> 'w cache_world result_stream" where
  "replay_stream ex i =
     \<lparr>rs_next = \<lambda>v.
        (case replay_Next (ex_context_error ex (cw_inner v)) (cw_replays v ! i) of
           (res, p) \<Rightarrow> (res, put_replay i p v)),
      rs_close = \<lambda>v. (case replay_Close (cw_replays v ! i) of (err, p) \<Rightarrow> (err, put_replay i p v)),
      rs_outcome = Some (\<lambda>v. (replay_Outcome (cw_replays v ! i), v))\<rparr>"

section \<open>Pending invalidations\<close>

definition on_state :: "(cache_state \<Rightarrow> cache_state) \<Rightarrow> 'w cache_world \<Rightarrow> 'w cache_world" where
  "on_state f v = v\<lparr>cw_state := f (cw_state v)\<rparr>"

definition on_connection ::
  "nat \<Rightarrow> (connection_state \<Rightarrow> connection_state) \<Rightarrow> 'w cache_world \<Rightarrow> 'w cache_world" where
  "on_connection k f v = v\<lparr>cw_connections := (cw_connections v)[k := f (cw_connections v ! k)]\<rparr>"

definition inTransaction :: "nat \<Rightarrow> 'w cache_world \<Rightarrow> bool" where
  "inTransaction k v = kc_active (cw_connections v ! k)"

definition set_active :: "nat \<Rightarrow> bool \<Rightarrow> 'w cache_world \<Rightarrow> 'w cache_world" where
  "set_active k a = on_connection k (\<lambda>c. c\<lparr>kc_active := a\<rparr>)"

definition clearPendingLocked :: "nat \<Rightarrow> 'w cache_world \<Rightarrow> 'w cache_world" where
  "clearPendingLocked k = on_connection k (\<lambda>c. c\<lparr>kc_pending := [], kc_pending_all := False\<rparr>)"

definition invalidatePendingLocked :: "nat \<Rightarrow> 'w cache_world \<Rightarrow> 'w cache_world" where
  "invalidatePendingLocked k v =
     (let c = cw_connections v ! k in
      if kc_pending_all c then on_state invalidateAll v
      else if length (kc_pending c) = 0 then v
      else on_state (invalidateEntities (kc_pending c)) v)"

definition entityName :: "'w externals \<Rightarrow> entity_reference option \<Rightarrow> string" where
  "entityName ex entity = (case normalizedEntityKey (ex_up ex) entity of Inl _ \<Rightarrow> [] | Inr key \<Rightarrow> key)"

definition recordMutationLocked :: "nat \<Rightarrow> string \<Rightarrow> 'w cache_world \<Rightarrow> 'w cache_world" where
  "recordMutationLocked k entity v =
     (if inTransaction k v then
        if entity = [] then on_connection k (\<lambda>c. c\<lparr>kc_pending_all := True, kc_pending := []\<rparr>) v
        else if kc_pending_all (cw_connections v ! k) then v
        else on_connection k (\<lambda>c. c\<lparr>kc_pending := List.insert entity (kc_pending c)\<rparr>) v
      else if entity = [] then on_state invalidateAll v
      else on_state (invalidateEntities [entity]) v)"

section \<open>Mutations\<close>

definition mutate ::
  "nat \<Rightarrow> string \<Rightarrow> ('w \<Rightarrow> ('r \<times> go_error option) \<times> 'w) \<Rightarrow> 'w cache_world \<Rightarrow>
   ('r \<times> go_error option) \<times> 'w cache_world" where
  "mutate k entity call v =
     (case lift_inner call v of
        ((response, err), v1) \<Rightarrow>
          ((response, err), if err = None then recordMutationLocked k entity v1 else v1))"

definition cached_Insert where
  "cached_Insert ex c k req = mutate k (entityName ex (i_entity req)) (cn_insert c req)"

definition cached_Update where
  "cached_Update ex c k req = mutate k (entityName ex (u_entity req)) (cn_update c req)"

definition cached_Delete where
  "cached_Delete ex c k req = mutate k (entityName ex (d_entity req)) (cn_delete c req)"

section \<open>Transactions\<close>

definition cached_Begin :: "'w connection \<Rightarrow> nat \<Rightarrow> 'w cache_world \<Rightarrow> go_error option \<times> 'w cache_world" where
  "cached_Begin c k v =
     (let wasActive = inTransaction k v in
      case lift_inner (cn_begin c) v of
        (Some e, v1) \<Rightarrow> (Some e, v1)
      | (None, v1) \<Rightarrow>
          (let v2 = set_active k True v1 in
           (None, if \<not> wasActive then clearPendingLocked k v2 else v2)))"

definition cached_Commit :: "'w connection \<Rightarrow> nat \<Rightarrow> 'w cache_world \<Rightarrow> go_error option \<times> 'w cache_world" where
  "cached_Commit c k v =
     (case lift_inner (cn_commit c) v of
        (err, v1) \<Rightarrow>
          (let v2 = invalidatePendingLocked k v1 in
           case err of
             Some e \<Rightarrow> (Some e, v2)
           | None \<Rightarrow> (None, clearPendingLocked k (set_active k False v2))))"

definition cached_Rollback :: "'w connection \<Rightarrow> nat \<Rightarrow> 'w cache_world \<Rightarrow> go_error option \<times> 'w cache_world" where
  "cached_Rollback c k v =
     (case lift_inner (cn_rollback c) v of
        (Some e, v1) \<Rightarrow> (Some e, invalidatePendingLocked k v1)
      | (None, v1) \<Rightarrow> (None, clearPendingLocked k (set_active k False v1)))"

definition cached_InTransaction ::
  "'w connection \<Rightarrow> nat \<Rightarrow> 'w cache_world \<Rightarrow> (bool \<times> go_error option) \<times> 'w cache_world" where
  "cached_InTransaction c k v =
     (case lift_inner (cn_in_transaction c) v of
        ((active, err), v1) \<Rightarrow>
          (case err of
             Some e \<Rightarrow> ((False, Some e), v1)
           | None \<Rightarrow>
               (let v2 = (if inTransaction k v1 \<and> \<not> active then invalidatePendingLocked k v1 else v1);
                    v3 = set_active k active v2;
                    v4 = (if \<not> active then clearPendingLocked k v3 else v3)
                in ((active, None), v4))))"

definition cached_Close :: "'w connection \<Rightarrow> nat \<Rightarrow> 'w cache_world \<Rightarrow> go_error option \<times> 'w cache_world" where
  "cached_Close c k v =
     (case lift_inner (cn_close c) v of
        (err, v1) \<Rightarrow>
          (let v2 = (if inTransaction k v1 then invalidatePendingLocked k v1 else v1)
           in (err, clearPendingLocked k (set_active k False v2))))"

section \<open>Branches\<close>

fun branchStateMayHaveCommitted :: "branch_state \<Rightarrow> bool" where
  "branchStateMayHaveCommitted TRANSACTION_BRANCH_STATE_COMMITTED = True"
| "branchStateMayHaveCommitted TRANSACTION_BRANCH_STATE_HEURISTIC_COMMIT = True"
| "branchStateMayHaveCommitted TRANSACTION_BRANCH_STATE_HEURISTIC_MIXED = True"
| "branchStateMayHaveCommitted TRANSACTION_BRANCH_STATE_HEURISTIC_HAZARD = True"
| "branchStateMayHaveCommitted TRANSACTION_BRANCH_STATE_NOT_FOUND = True"
| "branchStateMayHaveCommitted _ = False"

definition transactionBranchConnection :: "'w connection \<Rightarrow> go_error + 'w branch_connection" where
  "transactionBranchConnection c =
     (case cn_branches c of
        None \<Rightarrow> Inl (Status Unimplemented (BranchReason BranchesUnsupported))
      | Some bc \<Rightarrow> Inr bc)"

definition cached_BeginBranch ::
  "'w connection \<Rightarrow> nat \<Rightarrow> branch_id \<Rightarrow> 'w cache_world \<Rightarrow> go_error option \<times> 'w cache_world" where
  "cached_BeginBranch c k b v =
     (case transactionBranchConnection c of
        Inl e \<Rightarrow> (Some e, v)
      | Inr bc \<Rightarrow>
          (let wasActive = inTransaction k v in
           case lift_inner (bc_begin bc b) v of
             (Some e, v1) \<Rightarrow> (Some e, v1)
           | (None, v1) \<Rightarrow>
               (let v2 = set_active k True v1 in
                (None, if \<not> wasActive then clearPendingLocked k v2 else v2))))"

definition cached_PrepareBranch ::
  "'w connection \<Rightarrow> nat \<Rightarrow> branch_id \<Rightarrow> 'w cache_world \<Rightarrow> (prepare_outcome \<times> go_error option) \<times> 'w cache_world" where
  "cached_PrepareBranch c k b v =
     (case transactionBranchConnection c of
        Inl e \<Rightarrow> ((TRANSACTION_PREPARE_OUTCOME_UNSPECIFIED, Some e), v)
      | Inr bc \<Rightarrow>
          (case lift_inner (bc_prepare bc b) v of
             ((outcome, err), v1) \<Rightarrow>
               (case err of
                  Some e \<Rightarrow> ((outcome, Some e), invalidatePendingLocked k v1)
                | None \<Rightarrow>
                    ((outcome, None),
                     case outcome of
                       TRANSACTION_PREPARE_OUTCOME_PREPARED \<Rightarrow>
                         clearPendingLocked k (set_active k False
                           (on_state (retainBranchInvalidation b (kc_pending (cw_connections v1 ! k))
                              (kc_pending_all (cw_connections v1 ! k))) v1))
                     | TRANSACTION_PREPARE_OUTCOME_READ_ONLY \<Rightarrow> clearPendingLocked k (set_active k False v1)
                     | _ \<Rightarrow> invalidatePendingLocked k v1))))"

text \<open>\<open>CommitBranch\<close> and \<open>RollbackBranch\<close> of a connection treat the state that is reported alike.\<close>

definition finish_branch ::
  "nat \<Rightarrow> (branch_state \<times> go_error option) \<times> 'w cache_world \<Rightarrow> (branch_state \<times> go_error option) \<times> 'w cache_world" where
  "finish_branch k answer =
     (case answer of
        ((state, err), v1) \<Rightarrow>
          (case err of
             Some e \<Rightarrow> ((state, Some e), invalidatePendingLocked k v1)
           | None \<Rightarrow>
               (let v2 = (if branchStateMayHaveCommitted state then invalidatePendingLocked k v1 else v1)
                in ((state, None), clearPendingLocked k (set_active k False v2)))))"

definition cached_CommitBranch ::
  "'w connection \<Rightarrow> nat \<Rightarrow> branch_id \<Rightarrow> 'w cache_world \<Rightarrow> (branch_state \<times> go_error option) \<times> 'w cache_world" where
  "cached_CommitBranch c k b v =
     (case transactionBranchConnection c of
        Inl e \<Rightarrow> ((TRANSACTION_BRANCH_STATE_UNSPECIFIED, Some e), v)
      | Inr bc \<Rightarrow> finish_branch k (lift_inner (bc_commit bc b) v))"

definition cached_RollbackBranch ::
  "'w connection \<Rightarrow> nat \<Rightarrow> branch_id \<Rightarrow> 'w cache_world \<Rightarrow> (branch_state \<times> go_error option) \<times> 'w cache_world" where
  "cached_RollbackBranch c k b v =
     (case transactionBranchConnection c of
        Inl e \<Rightarrow> ((TRANSACTION_BRANCH_STATE_UNSPECIFIED, Some e), v)
      | Inr bc \<Rightarrow> finish_branch k (lift_inner (bc_rollback bc b) v))"

text \<open>The recovery manager resolves what the preparation retained.\<close>

definition resolve_branch ::
  "branch_id \<Rightarrow> (branch_state \<times> go_error option) \<times> 'w cache_world \<Rightarrow> (branch_state \<times> go_error option) \<times> 'w cache_world" where
  "resolve_branch b answer =
     (case answer of
        ((state, err), v1) \<Rightarrow>
          (case err of
             Some e \<Rightarrow> ((state, Some e), on_state (resolveBranchInvalidation b True) v1)
           | None \<Rightarrow> ((state, None), on_state (resolveBranchInvalidation b (branchStateMayHaveCommitted state)) v1)))"

definition recovery_ForgetBranch ::
  "'w recovery_manager \<Rightarrow> branch_id \<Rightarrow> 'w cache_world \<Rightarrow> go_error option \<times> 'w cache_world" where
  "recovery_ForgetBranch m b v =
     (case lift_inner (rm_forget m b) v of
        (Some e, v1) \<Rightarrow> (Some e, v1)
      | (None, v1) \<Rightarrow> (None, on_state (discardBranchInvalidation b) v1))"

definition cachedRecoveryManager :: "'w recovery_manager \<Rightarrow> 'w cache_world recovery_manager" where
  "cachedRecoveryManager m =
     \<lparr>rm_id = rm_id m,
      rm_commit = (\<lambda>b v. resolve_branch b (lift_inner (rm_commit m b) v)),
      rm_rollback = (\<lambda>b v. resolve_branch b (lift_inner (rm_rollback m b) v)),
      rm_recover = lift_object lift_recovery_stream (rm_recover m),
      rm_status = (\<lambda>b. lift_inner (rm_status m b)),
      rm_forget = recovery_ForgetBranch m\<rparr>"

section \<open>Queries\<close>

definition cached_Query ::
  "'w externals \<Rightarrow> 'w connection \<Rightarrow> nat \<Rightarrow> query_request \<Rightarrow> 'w cache_world \<Rightarrow>
   ('w cache_world result_stream option \<times> go_error option) \<times> 'w cache_world" where
  "cached_Query ex c k req v =
     (if inTransaction k v then lift_object lift_stream (cn_query c req) v
      else
        (case queryDigest ex req of
           Inl e \<Rightarrow> ((None, Some (Wrapped (CacheReason BuildCacheKey) e)), v)
         | Inr digest \<Rightarrow>
             (case normalizedEntityKey (ex_up ex) (q_entity req) of
                Inl _ \<Rightarrow> lift_object lift_stream (cn_query c req) v
              | Inr entity \<Rightarrow>
                  (case lookup (cw_state v) entity digest (ex_clock ex (cw_inner v)) of
                     (capture, found, s) \<Rightarrow>
                       (let v1 = v\<lparr>cw_state := s\<rparr> in
                        case found of
                          Some result \<Rightarrow>
                            ((Some (replay_stream ex (length (cw_replays v1))), None),
                             v1\<lparr>cw_replays := cw_replays v1 @ [\<lparr>rp_result = result, rp_next = 0, rp_closed = False\<rparr>]\<rparr>)
                        | None \<Rightarrow>
                            (case lift_inner (cn_query c req) v1 of
                               ((stream, err), v2) \<Rightarrow>
                                 (case (err, stream) of
                                    (None, Some st) \<Rightarrow>
                                      ((Some (recording_stream ex (length (cw_recordings v2))), None),
                                       v2\<lparr>cw_recordings := cw_recordings v2 @ [new_recording st capture]\<rparr>)
                                  | _ \<Rightarrow> ((map_option lift_stream stream, err), v2)))))))) "

section \<open>The provider\<close>

definition lift_lob_connection :: "'w lob_connection \<Rightarrow> 'w cache_world lob_connection" where
  "lift_lob_connection l =
     \<lparr>lc_read = (\<lambda>req. lift_object lift_lob_stream (lc_read l req)), lc_release = (\<lambda>req. lift_inner (lc_release l req))\<rparr>"

definition lift_branch_connection :: "'w branch_connection \<Rightarrow> 'w cache_world branch_connection" where
  "lift_branch_connection bc =
     \<lparr>bc_begin = (\<lambda>b. lift_inner (bc_begin bc b)), bc_prepare = (\<lambda>b. lift_inner (bc_prepare bc b)),
      bc_commit = (\<lambda>b. lift_inner (bc_commit bc b)), bc_rollback = (\<lambda>b. lift_inner (bc_rollback bc b))\<rparr>"

text \<open>A connection that is returned without the wrapper, beside an error.\<close>

definition lift_connection :: "'w connection \<Rightarrow> 'w cache_world connection" where
  "lift_connection c =
     \<lparr>cn_close = lift_inner (cn_close c), cn_begin = lift_inner (cn_begin c), cn_commit = lift_inner (cn_commit c),
      cn_rollback = lift_inner (cn_rollback c), cn_in_transaction = lift_inner (cn_in_transaction c),
      cn_query = (\<lambda>req. lift_object lift_stream (cn_query c req)), cn_insert = (\<lambda>req. lift_inner (cn_insert c req)),
      cn_update = (\<lambda>req. lift_inner (cn_update c req)), cn_delete = (\<lambda>req. lift_inner (cn_delete c req)),
      cn_lob = map_option lift_lob_connection (cn_lob c), cn_branches = map_option lift_branch_connection (cn_branches c)\<rparr>"

definition cachedConnection :: "'w externals \<Rightarrow> 'w connection \<Rightarrow> nat \<Rightarrow> 'w cache_world connection" where
  "cachedConnection ex c k =
     \<lparr>cn_close = cached_Close c k, cn_begin = cached_Begin c k, cn_commit = cached_Commit c k,
      cn_rollback = cached_Rollback c k, cn_in_transaction = cached_InTransaction c k,
      cn_query = cached_Query ex c k, cn_insert = cached_Insert ex c k, cn_update = cached_Update ex c k,
      cn_delete = cached_Delete ex c k, cn_lob = map_option lift_lob_connection (cn_lob c),
      cn_branches = Some \<lparr>bc_begin = cached_BeginBranch c k, bc_prepare = cached_PrepareBranch c k,
        bc_commit = cached_CommitBranch c k, bc_rollback = cached_RollbackBranch c k\<rparr>\<rparr>"

definition cached_Open ::
  "'w externals \<Rightarrow> 'w provider \<Rightarrow> 'w cache_world \<Rightarrow>
   ('w cache_world connection option \<times> go_error option) \<times> 'w cache_world" where
  "cached_Open ex p v =
     (case lift_inner (pv_open p) v of
        ((connection, err), v1) \<Rightarrow>
          (case (err, connection) of
             (None, Some c) \<Rightarrow>
               ((Some (cachedConnection ex c (length (cw_connections v1))), None),
                v1\<lparr>cw_connections := cw_connections v1 @ [\<lparr>kc_active = False, kc_pending = [], kc_pending_all = False\<rparr>]\<rparr>)
           | _ \<Rightarrow> ((map_option lift_connection connection, err), v1)))"

definition cachedProvider :: "'w externals \<Rightarrow> 'w provider \<Rightarrow> 'w cache_world provider" where
  "cachedProvider ex p =
     \<lparr>pv_capabilities = lift_inner (pv_capabilities p), pv_health = lift_inner (pv_health p),
      pv_open = cached_Open ex p,
      pv_schema = Some (case pv_schema p of None \<Rightarrow> (\<lambda>v. (([], None), v)) | Some f \<Rightarrow> lift_inner f),
      pv_metadata = Some (case pv_metadata p of None \<Rightarrow> (\<lambda>v. ((None, None), v)) | Some f \<Rightarrow> lift_inner f),
      pv_semantic = Some (case pv_semantic p of None \<Rightarrow> (\<lambda>v. ((None, None), v)) | Some f \<Rightarrow> lift_inner f),
      pv_recovery = Some (\<lambda>v.
        case pv_recovery p of
          None \<Rightarrow> None
        | Some f \<Rightarrow> map_option cachedRecoveryManager (f (cw_inner v)))\<rparr>"

text \<open>\<open>Wrap\<close> around a provider whose world is \<open>w\<close>.\<close>

definition Wrap :: "'w externals \<Rightarrow> cache_config \<Rightarrow> 'w provider \<Rightarrow> 'w \<Rightarrow> 'w cache_world provider \<times> 'w cache_world" where
  "Wrap ex config p w =
     (cachedProvider ex p,
      \<lparr>cw_inner = w, cw_state = newCacheState (normalizeConfig (ex_up ex) config), cw_connections = [],
       cw_recordings = [], cw_replays = []\<rparr>)"

section \<open>The controller\<close>

text \<open>The loop over the entities stops at the first one without a key.\<close>

fun entity_keys :: "(string \<Rightarrow> string) \<Rightarrow> entity_reference option list \<Rightarrow> cache_reason + string list" where
  "entity_keys up [] = Inr []"
| "entity_keys up (e # es) =
     (case normalizedEntityKey up e of
        Inl r \<Rightarrow> Inl r
      | Inr key \<Rightarrow> (case entity_keys up es of Inl r \<Rightarrow> Inl r | Inr keys \<Rightarrow> Inr (key # keys)))"

definition controller_Invalidate ::
  "'w externals \<Rightarrow> entity_reference option list \<Rightarrow> 'w cache_world \<Rightarrow> go_error option \<times> 'w cache_world" where
  "controller_Invalidate ex entities v =
     (case ex_context_error ex (cw_inner v) of
        Some e \<Rightarrow> (Some e, v)
      | None \<Rightarrow>
          if length entities = 0 then (Some (Plain (CacheReason AtLeastOneEntity)), v)
          else
            (case entity_keys (ex_up ex) entities of
               Inl r \<Rightarrow> (Some (Plain (CacheReason r)), v)
             | Inr keys \<Rightarrow> (None, on_state (invalidateEntities keys) v)))"

definition controller_InvalidateAll :: "'w externals \<Rightarrow> 'w cache_world \<Rightarrow> go_error option \<times> 'w cache_world" where
  "controller_InvalidateAll ex v =
     (case ex_context_error ex (cw_inner v) of
        Some e \<Rightarrow> (Some e, v)
      | None \<Rightarrow> (None, on_state invalidateAll v))"

section \<open>What is pending\<close>

lemma lift_inner_rest:
  assumes "lift_inner f v = (r, v')"
  shows "cw_state v' = cw_state v" "cw_connections v' = cw_connections v" "cw_recordings v' = cw_recordings v"
    "cw_replays v' = cw_replays v" "f (cw_inner v) = (r, cw_inner v')"
  using assms by (auto simp: lift_inner_def split: prod.splits)

text \<open>The invalidation a connection owes: everything, or some entities.\<close>

definition owes :: "nat \<Rightarrow> bool \<Rightarrow> string set \<Rightarrow> 'w cache_world \<Rightarrow> bool" where
  "owes k all es v \<longleftrightarrow>
     k < length (cw_connections v) \<and> kc_pending_all (cw_connections v ! k) = all \<and>
     (all \<or> set (kc_pending (cw_connections v ! k)) = es)"

lemma on_state_simps [simp]:
  "cw_state (on_state f v) = f (cw_state v)" "cw_connections (on_state f v) = cw_connections v"
  "cw_inner (on_state f v) = cw_inner v" "cw_recordings (on_state f v) = cw_recordings v"
  "cw_replays (on_state f v) = cw_replays v"
  by (simp_all add: on_state_def)

lemma on_connection_simps [simp]:
  "cw_state (on_connection k f v) = cw_state v" "cw_inner (on_connection k f v) = cw_inner v"
  "cw_recordings (on_connection k f v) = cw_recordings v" "cw_replays (on_connection k f v) = cw_replays v"
  "length (cw_connections (on_connection k f v)) = length (cw_connections v)"
  "k < length (cw_connections v) \<Longrightarrow> cw_connections (on_connection k f v) ! k = f (cw_connections v ! k)"
  by (simp_all add: on_connection_def)

lemma clear_simps [simp]:
  "cw_state (clearPendingLocked k v) = cw_state v" "cw_state (set_active k a v) = cw_state v"
  "cw_inner (clearPendingLocked k v) = cw_inner v" "cw_inner (set_active k a v) = cw_inner v"
  "cw_recordings (clearPendingLocked k v) = cw_recordings v" "cw_recordings (set_active k a v) = cw_recordings v"
  "cw_replays (clearPendingLocked k v) = cw_replays v" "cw_replays (set_active k a v) = cw_replays v"
  by (simp_all add: clearPendingLocked_def set_active_def)

lemma owes_cleared: "k < length (cw_connections v) \<Longrightarrow> owes k False {} (clearPendingLocked k v)"
  by (simp add: owes_def clearPendingLocked_def)

lemma invalidatePendingLocked_invalidated:
  assumes "owes k all es v"
  shows "invalidated (cw_state v) all es (cw_state (invalidatePendingLocked k v))"
proof -
  note inv = invalidated_entities [of "cw_state v" "kc_pending (cw_connections v ! k)"] invalidated_all [of "cw_state v" es]
  have "invalidated (cw_state v) False {} (cw_state v)" using invalidated_nothing [of "cw_state v" "cs_branches (cw_state v)"] by simp
  with assms inv show ?thesis by (auto simp: owes_def invalidatePendingLocked_def Let_def)
qed

lemma invalidatePendingLocked_rest [simp]:
  "cw_connections (invalidatePendingLocked k v) = cw_connections v" "cw_inner (invalidatePendingLocked k v) = cw_inner v"
  "cw_recordings (invalidatePendingLocked k v) = cw_recordings v" "cw_replays (invalidatePendingLocked k v) = cw_replays v"
  by (auto simp: invalidatePendingLocked_def Let_def)

lemma recordMutation_pending:
  assumes "owes k all es v" and "inTransaction k v"
  shows "owes k (all \<or> [] = e) (insert e es) (recordMutationLocked k e v) \<and>
    inTransaction k (recordMutationLocked k e v) \<and> cw_state (recordMutationLocked k e v) = cw_state v"
  using assms by (auto simp: recordMutationLocked_def inTransaction_def owes_def)

lemma recordMutation_now:
  assumes "\<not> inTransaction k v"
  shows "invalidated (cw_state v) (e = []) {e} (cw_state (recordMutationLocked k e v)) \<and>
    cw_connections (recordMutationLocked k e v) = cw_connections v"
  using assms invalidated_entities [of "cw_state v" "[e]"] invalidated_all [of "cw_state v" "{e}"]
  by (auto simp: recordMutationLocked_def)

section \<open>Transactions\<close>

datatype mutation = MInsert insert_request | MUpdate update_request | MDelete delete_request

fun mutation_entity :: "'w externals \<Rightarrow> mutation \<Rightarrow> string" where
  "mutation_entity ex (MInsert req) = entityName ex (i_entity req)"
| "mutation_entity ex (MUpdate req) = entityName ex (u_entity req)"
| "mutation_entity ex (MDelete req) = entityName ex (d_entity req)"

fun mutation_call ::
  "'w externals \<Rightarrow> 'w connection \<Rightarrow> nat \<Rightarrow> mutation \<Rightarrow> 'w cache_world \<Rightarrow> go_error option \<times> 'w cache_world" where
  "mutation_call ex c k (MInsert req) v = (case cached_Insert ex c k req v of ((_, err), v1) \<Rightarrow> (err, v1))"
| "mutation_call ex c k (MUpdate req) v = (case cached_Update ex c k req v of ((_, err), v1) \<Rightarrow> (err, v1))"
| "mutation_call ex c k (MDelete req) v = (case cached_Delete ex c k req v of ((_, err), v1) \<Rightarrow> (err, v1))"

text \<open>A client that issues mutations, and the entities of those that succeeded.\<close>

fun mutate_all ::
  "'w externals \<Rightarrow> 'w connection \<Rightarrow> nat \<Rightarrow> mutation list \<Rightarrow> 'w cache_world \<Rightarrow> string list \<times> 'w cache_world" where
  "mutate_all ex c k [] v = ([], v)"
| "mutate_all ex c k (m # ms) v =
     (case mutation_call ex c k m v of
        (err, v1) \<Rightarrow>
          (case mutate_all ex c k ms v1 of
             (es, v2) \<Rightarrow> (if err = None then mutation_entity ex m # es else es, v2)))"

lemma mutate_eq:
  assumes "mutate k e call v = ((res, err), v1)"
  shows "\<exists>v0. cw_state v0 = cw_state v \<and> cw_connections v0 = cw_connections v \<and>
    v1 = (if err = None then recordMutationLocked k e v0 else v0)"
proof -
  obtain r v0 where v0: "lift_inner call v = (r, v0)" by fastforce
  from assms v0 have "v1 = (if err = None then recordMutationLocked k e v0 else v0)"
    by (cases r) (auto simp: mutate_def)
  with lift_inner_rest(1,2) [OF v0] show ?thesis by blast
qed

lemma mutation_call_eq:
  assumes "mutation_call ex c k m v = (err, v1)"
  shows "\<exists>v0. cw_state v0 = cw_state v \<and> cw_connections v0 = cw_connections v \<and>
    v1 = (if err = None then recordMutationLocked k (mutation_entity ex m) v0 else v0)"
  using assms
  by (cases m)
    (auto simp: cached_Insert_def cached_Update_def cached_Delete_def dest!: mutate_eq split: prod.splits)

lemma same_connections:
  "cw_connections v0 = cw_connections v \<Longrightarrow> owes k all es v0 = owes k all es v"
  "cw_connections v0 = cw_connections v \<Longrightarrow> inTransaction k v0 = inTransaction k v"
  by (simp_all add: owes_def inTransaction_def)

lemma mutate_all_pending:
  assumes "owes k all es v" and "inTransaction k v" and "mutate_all ex c k ms v = (done_es, v')"
  shows "owes k (all \<or> [] \<in> set done_es) (es \<union> set done_es) v' \<and> inTransaction k v' \<and> cw_state v' = cw_state v"
  using assms
proof (induction ms arbitrary: v all es done_es)
  case (Cons m ms)
  obtain err v1 where c1: "mutation_call ex c k m v = (err, v1)" by fastforce
  obtain es2 where c2: "mutate_all ex c k ms v1 = (es2, v')"
      and d: "done_es = (if err = None then mutation_entity ex m # es2 else es2)"
    using Cons.prems(3) c1 by (auto split: prod.splits)
  obtain v0 where v0: "cw_state v0 = cw_state v" "cw_connections v0 = cw_connections v"
      "v1 = (if err = None then recordMutationLocked k (mutation_entity ex m) v0 else v0)"
    using mutation_call_eq [OF c1] by blast
  have "owes k all es v0" "inTransaction k v0" using Cons.prems(1,2) same_connections [OF v0(2)] by simp_all
  note pending = recordMutation_pending [OF this, of "mutation_entity ex m"] this
  show ?case
  proof (cases "err = None")
    case True
    with v0(3) have v1: "v1 = recordMutationLocked k (mutation_entity ex m) v0" by simp
    have "owes k ((all \<or> [] = mutation_entity ex m) \<or> [] \<in> set es2) (insert (mutation_entity ex m) es \<union> set es2) v' \<and>
        inTransaction k v' \<and> cw_state v' = cw_state v1"
      by (rule Cons.IH [OF _ _ c2]) (use pending v1 in simp_all)
    with True d v1 pending(1) v0(1) show ?thesis by auto
  next
    case False
    with v0(3) have v1: "v1 = v0" by simp
    have "owes k (all \<or> [] \<in> set es2) (es \<union> set es2) v' \<and> inTransaction k v' \<and> cw_state v' = cw_state v1"
      by (rule Cons.IH [OF _ _ c2]) (use pending v1 in simp_all)
    with False d v1 v0(1) show ?thesis by auto
  qed
qed auto

lemma begin_owes_nothing:
  assumes "k < length (cw_connections v)" and "\<not> inTransaction k v" and "cached_Begin c k v = (None, v1)"
  shows "owes k False {} v1" "inTransaction k v1" "cw_state v1 = cw_state v"
  using assms
  by (auto simp: cached_Begin_def Let_def lift_inner_def owes_def inTransaction_def clearPendingLocked_def set_active_def
      split: prod.splits option.splits)

lemma commit_invalidates:
  assumes "owes k all es v" and "cached_Commit c k v = (err, v')"
  shows "invalidated (cw_state v) all es (cw_state v')" "inTransaction k v' \<longleftrightarrow> err \<noteq> None \<and> inTransaction k v"
proof -
  obtain v1 where v1: "lift_inner (cn_commit c) v = (err, v1)"
    using assms(2) by (auto simp: cached_Commit_def Let_def split: prod.splits option.splits)
  note rest = lift_inner_rest [OF v1]
  have "owes k all es v1" using assms(1) by (simp add: same_connections [OF rest(2)])
  note inv = invalidatePendingLocked_invalidated [OF this]
  have v': "v' = (if err = None then clearPendingLocked k (set_active k False (invalidatePendingLocked k v1))
      else invalidatePendingLocked k v1)"
    using assms(2) v1 by (auto simp: cached_Commit_def Let_def split: option.splits)
  show "invalidated (cw_state v) all es (cw_state v')" using inv by (simp add: v' rest(1))
  show "inTransaction k v' \<longleftrightarrow> err \<noteq> None \<and> inTransaction k v"
    using assms(1) by (simp add: v' inTransaction_def rest(2) clearPendingLocked_def set_active_def owes_def)
qed

lemma rollback_invalidates:
  assumes "owes k all es v" and "cached_Rollback c k v = (err, v')"
  shows "err = None \<Longrightarrow> cw_state v' = cw_state v" "err \<noteq> None \<Longrightarrow> invalidated (cw_state v) all es (cw_state v')"
proof -
  obtain v1 where v1: "lift_inner (cn_rollback c) v = (err, v1)"
    using assms(2) by (auto simp: cached_Rollback_def split: prod.splits option.splits)
  note rest = lift_inner_rest [OF v1]
  show "err = None \<Longrightarrow> cw_state v' = cw_state v"
    using assms(2) v1 rest(1) by (auto simp: cached_Rollback_def)
  have "owes k all es v1" using assms(1) by (simp add: same_connections [OF rest(2)])
  from invalidatePendingLocked_invalidated [OF this]
  show "err \<noteq> None \<Longrightarrow> invalidated (cw_state v) all es (cw_state v')"
    using assms(2) v1 rest(1) by (auto simp: cached_Rollback_def)
qed

section \<open>Properties\<close>

text \<open>
  A mutation outside of a transaction answers what the provider answers; if it succeeded, exactly
  the entities affected by its entity are invalidated before the call returns (everything, if the
  request has no usable entity), and nothing if it failed.
\<close>

theorem mutation_invalidates_at_once:
  assumes "\<not> inTransaction k v" and "mutation_call ex c k m v = (err, v')"
  shows "if err = None
    then invalidated (cw_state v) (mutation_entity ex m = []) {mutation_entity ex m} (cw_state v')
    else cw_state v' = cw_state v"
proof -
  obtain v0 where v0: "cw_state v0 = cw_state v" "cw_connections v0 = cw_connections v"
      "v' = (if err = None then recordMutationLocked k (mutation_entity ex m) v0 else v0)"
    using mutation_call_eq [OF assms(2)] by blast
  with recordMutation_now [of k v0 "mutation_entity ex m"] assms(1) show ?thesis
    by (simp add: inTransaction_def)
qed

text \<open>A world with one idle connection over \<open>null_connection\<close>.\<close>

definition idle_world :: "nat cache_world" where
  "idle_world =
     \<lparr>cw_inner = 0, cw_state = newCacheState (normalizeConfig id example_config),
      cw_connections = [\<lparr>kc_active = False, kc_pending = [], kc_pending_all = False\<rparr>], cw_recordings = [], cw_replays = []\<rparr>"

definition delete_t :: mutation where
  "delete_t = MDelete \<lparr>d_connection_id = [], d_entity = Some \<lparr>er_name = ''t'', er_namespace = []\<rparr>, d_filter = None\<rparr>"

definition delete_unnamed :: mutation where
  "delete_unnamed = MDelete \<lparr>d_connection_id = [], d_entity = None, d_filter = None\<rparr>"

lemma delete_unnamed_run:
  "mutation_call demo_externals null_connection 0 delete_unnamed idle_world =
     (None, idle_world\<lparr>cw_state := invalidateAll (cw_state idle_world)\<rparr>)"
  by (simp add: delete_unnamed_def cached_Delete_def mutate_def lift_inner_def null_connection_def idle_world_def
      recordMutationLocked_def inTransaction_def entityName_def normalizedEntityKey_def on_state_def)

theorem mutation_invalidates_at_once_witness:
  "invalidated (cw_state idle_world) True {[]} (invalidateAll (cw_state idle_world))"
proof -
  have "\<not> inTransaction 0 idle_world" by (simp add: idle_world_def inTransaction_def)
  from mutation_invalidates_at_once [OF this delete_unnamed_run]
  show ?thesis by (simp add: delete_unnamed_def entityName_def normalizedEntityKey_def)
qed

text \<open>
  C10: A local transaction defers its invalidations. Between a successful \<open>Begin\<close> and the end of the
  transaction, any sequence of mutations leaves the cache state alone. \<open>Commit\<close> then invalidates exactly
  what the successful mutations of the transaction affect, whether the commit reports an error or not; a
  successful \<open>Rollback\<close> invalidates nothing, and a failed one invalidates like a commit. The connection
  leaves the transaction just when the commit succeeded.
\<close>

theorem transaction_defers_invalidation:
  assumes "k < length (cw_connections v)" and "\<not> inTransaction k v" and "cached_Begin c k v = (None, v1)"
    and "mutate_all ex c k ms v1 = (es, v2)"
    and "cached_Commit c k v2 = (err, v3)" and "cached_Rollback c k v2 = (err', v4)"
  shows "cw_state v2 = cw_state v \<and> invalidated (cw_state v) ([] \<in> set es) (set es) (cw_state v3) \<and>
    (inTransaction k v3 \<longleftrightarrow> err \<noteq> None) \<and>
    (if err' = None then cw_state v4 = cw_state v
     else invalidated (cw_state v) ([] \<in> set es) (set es) (cw_state v4))"
proof -
  note b = begin_owes_nothing [OF assms(1-3)]
  from mutate_all_pending [OF b(1,2) assms(4)]
  have m: "owes k ([] \<in> set es) (set es) v2" "inTransaction k v2" "cw_state v2 = cw_state v" by (simp_all add: b(3))
  from commit_invalidates [OF m(1) assms(5)] rollback_invalidates [OF m(1) assms(6)] m(2,3) show ?thesis by auto
qed

lemma idle_transaction:
  obtains v1 es v2 v3 v4 where "cached_Begin null_connection 0 idle_world = (None, v1)"
    and "mutate_all demo_externals null_connection 0 [delete_t, delete_unnamed] v1 = (es, v2)"
    and "cached_Commit null_connection 0 v2 = (None, v3)" and "cached_Rollback null_connection 0 v2 = (Some EOF, v4)"
    and "[] \<in> set es"
proof -
  obtain e1 v1 where b: "cached_Begin null_connection 0 idle_world = (e1, v1)" by fastforce
  obtain es v2 where m: "mutate_all demo_externals null_connection 0 [delete_t, delete_unnamed] v1 = (es, v2)" by fastforce
  obtain e3 v3 where c: "cached_Commit null_connection 0 v2 = (e3, v3)" by fastforce
  obtain e4 v4 where r: "cached_Rollback null_connection 0 v2 = (e4, v4)" by fastforce
  have "e1 = None" using b by (auto simp: cached_Begin_def Let_def lift_inner_def null_connection_def)
  moreover have "[] \<in> set es"
    using m by (auto simp: delete_t_def delete_unnamed_def cached_Delete_def mutate_def lift_inner_def null_connection_def
        entityName_def normalizedEntityKey_def split: prod.splits)
  moreover have "e3 = None" using c by (auto simp: cached_Commit_def Let_def lift_inner_def null_connection_def)
  moreover have "e4 = Some EOF" using r by (auto simp: cached_Rollback_def lift_inner_def null_connection_def)
  ultimately show ?thesis using that b m c r by blast
qed

theorem transaction_defers_invalidation_witness:
  "\<exists>v1 es v2 v3. cached_Begin null_connection 0 idle_world = (None, v1) \<and>
     mutate_all demo_externals null_connection 0 [delete_t, delete_unnamed] v1 = (es, v2) \<and>
     cached_Commit null_connection 0 v2 = (None, v3) \<and> cw_state v2 = cw_state idle_world \<and>
     invalidated (cw_state idle_world) True (set es) (cw_state v3)"
proof -
  obtain v1 es v2 v3 v4 where run: "cached_Begin null_connection 0 idle_world = (None, v1)"
    "mutate_all demo_externals null_connection 0 [delete_t, delete_unnamed] v1 = (es, v2)"
    "cached_Commit null_connection 0 v2 = (None, v3)" "cached_Rollback null_connection 0 v2 = (Some EOF, v4)"
    "[] \<in> set es" by (rule idle_transaction)
  have "0 < length (cw_connections idle_world)" "\<not> inTransaction 0 idle_world"
    by (simp_all add: idle_world_def inTransaction_def)
  from transaction_defers_invalidation [OF this run(1-4)] run show ?thesis by auto
qed

lemma prepare_retains:
  assumes "owes k all es v" and "cached_PrepareBranch c k b v = ((TRANSACTION_PREPARE_OUTCOME_PREPARED, None), v1)"
  shows "\<exists>ds. cw_state v1 = retainBranchInvalidation b ds all (cw_state v) \<and> (all \<or> set ds = es) \<and>
    \<not> inTransaction k v1 \<and> owes k False {} v1"
proof -
  from assms(2) obtain bc where bc: "transactionBranchConnection c = Inr bc"
    by (auto simp: cached_PrepareBranch_def split: sum.splits)
  from assms(2) obtain v0 where v0: "lift_inner (bc_prepare bc b) v = ((TRANSACTION_PREPARE_OUTCOME_PREPARED, None), v0)"
    by (auto simp: cached_PrepareBranch_def bc split: prod.splits option.splits)
  have v1: "v1 = clearPendingLocked k (set_active k False (on_state (retainBranchInvalidation b
      (kc_pending (cw_connections v0 ! k)) (kc_pending_all (cw_connections v0 ! k))) v0))"
    using assms(2) by (simp add: cached_PrepareBranch_def bc v0)
  note rest = lift_inner_rest [OF v0]
  from assms(1) show ?thesis
    by (intro exI [of _ "kc_pending (cw_connections v0 ! k)"])
      (auto simp: v1 rest owes_def inTransaction_def clearPendingLocked_def set_active_def)
qed

lemma resolve_branch_state:
  "cw_state (snd (resolve_branch b ((state, err), v))) =
     resolveBranchInvalidation b (err \<noteq> None \<or> branchStateMayHaveCommitted state) (cw_state v)"
  by (cases err) (simp_all add: resolve_branch_def)

lemma resolve_retained:
  assumes "all \<or> set ds = es"
  shows "invalidated s (all \<or> retained_all s b) (es \<union> retained_entities s b)
    (resolveBranchInvalidation b True (retainBranchInvalidation b ds all s))"
    and "invalidated s False {} (resolveBranchInvalidation b False (retainBranchInvalidation b ds all s))"
  using carried_commit [of s all b ds] carried_rollback [of s b ds all] assms
  by (auto simp: invalidated_def)

definition commit_states :: "branch_state set" where
  "commit_states =
     {TRANSACTION_BRANCH_STATE_COMMITTED, TRANSACTION_BRANCH_STATE_HEURISTIC_COMMIT,
      TRANSACTION_BRANCH_STATE_HEURISTIC_MIXED, TRANSACTION_BRANCH_STATE_HEURISTIC_HAZARD,
      TRANSACTION_BRANCH_STATE_NOT_FOUND}"

lemma mayHaveCommitted_iff: "branchStateMayHaveCommitted st \<longleftrightarrow> st \<in> commit_states"
  by (cases st) (simp_all add: commit_states_def)

text \<open>
  C11: Two-phase commit keeps the cache coherent. When a connection prepares a branch, nothing is
  invalidated yet and the connection owes nothing more; when the recovery manager later commits or rolls
  back the branch, and answers with an error or a state that may hide a commit, exactly what the branch's
  mutations affect, together with what earlier preparations of the branch retained, is invalidated; a
  state that excludes a commit invalidates nothing.
\<close>

theorem prepared_branch_invalidates_on_resolution:
  assumes "owes k all es v"
    and "cached_PrepareBranch c k b v = ((TRANSACTION_PREPARE_OUTCOME_PREPARED, None), v1)"
    and "rm_commit (cachedRecoveryManager m) b v1 = ((state, err), v2) \<or>
         rm_rollback (cachedRecoveryManager m) b v1 = ((state, err), v2)"
  shows "invalidated (cw_state v) False {} (cw_state v1) \<and> owes k False {} v1 \<and> \<not> inTransaction k v1 \<and>
    (if err \<noteq> None \<or> state \<in> commit_states
     then invalidated (cw_state v) (all \<or> retained_all (cw_state v) b) (es \<union> retained_entities (cw_state v) b) (cw_state v2)
     else invalidated (cw_state v) False {} (cw_state v2))"
proof -
  obtain ds where ds: "cw_state v1 = retainBranchInvalidation b ds all (cw_state v)" "all \<or> set ds = es"
      "\<not> inTransaction k v1" "owes k False {} v1"
    using prepare_retains [OF assms(1,2)] by blast
  obtain f v0 where f: "lift_inner f v1 = ((state, err), v0)" "v2 = snd (resolve_branch b ((state, err), v0))"
    using assms(3) by (auto simp: cachedRecoveryManager_def resolve_branch_def split: prod.splits option.splits)
  have "cw_state v2 = resolveBranchInvalidation b (err \<noteq> None \<or> branchStateMayHaveCommitted state) (cw_state v1)"
    using resolve_branch_state [of b state err v0] lift_inner_rest(1) [OF f(1)] f(2) by simp
  moreover have "invalidated (cw_state v) False {} (cw_state v1)"
    by (simp add: ds(1) retainBranchInvalidation_def Let_def invalidated_nothing)
  ultimately show ?thesis
    using resolve_retained [OF ds(2), of "cw_state v" b] ds by (auto simp: mayHaveCommitted_iff)
qed

definition branch_connection_example :: "nat connection" where
  "branch_connection_example = null_connection\<lparr>cn_branches := Some
     \<lparr>bc_begin = \<lambda>_ w. (None, w), bc_prepare = \<lambda>_ w. ((TRANSACTION_PREPARE_OUTCOME_PREPARED, None), w),
      bc_commit = \<lambda>_ w. ((TRANSACTION_BRANCH_STATE_COMMITTED, None), w),
      bc_rollback = \<lambda>_ w. ((TRANSACTION_BRANCH_STATE_ROLLED_BACK, None), w)\<rparr>\<rparr>"

definition owing_world :: "nat cache_world" where
  "owing_world = idle_world\<lparr>cw_connections := [\<lparr>kc_active = True, kc_pending = [''e''], kc_pending_all = False\<rparr>]\<rparr>"

theorem prepared_branch_invalidates_on_resolution_witness:
  "\<exists>v1 v2. cached_PrepareBranch branch_connection_example 0 \<lparr>br_resource_manager_id = ''rm'', br_branch_id = ''b''\<rparr>
       owing_world = ((TRANSACTION_PREPARE_OUTCOME_PREPARED, None), v1) \<and>
     rm_commit (cachedRecoveryManager branch_manager) \<lparr>br_resource_manager_id = ''rm'', br_branch_id = ''b''\<rparr> v1 =
       ((TRANSACTION_BRANCH_STATE_COMMITTED, None), v2) \<and>
     invalidated (cw_state owing_world) False {''e''} (cw_state v2)"
proof -
  let ?b = "\<lparr>br_resource_manager_id = ''rm'', br_branch_id = ''b''\<rparr>"
  obtain v1 where v1: "cached_PrepareBranch branch_connection_example 0 ?b owing_world =
      ((TRANSACTION_PREPARE_OUTCOME_PREPARED, None), v1)"
    by (simp add: cached_PrepareBranch_def transactionBranchConnection_def branch_connection_example_def lift_inner_def)
  obtain v2 where v2: "rm_commit (cachedRecoveryManager branch_manager) ?b v1 = ((TRANSACTION_BRANCH_STATE_COMMITTED, None), v2)"
    by (simp add: cachedRecoveryManager_def branch_manager_def resolve_branch_def lift_inner_def)
  have owes: "owes 0 False {''e''} owing_world" by (simp add: owes_def owing_world_def)
  have "retained_entities (cw_state owing_world) ?b = {}" "\<not> retained_all (cw_state owing_world) ?b"
    by (simp_all add: owing_world_def idle_world_def newCacheState_def retained_entities_def retained_all_def)
  with prepared_branch_invalidates_on_resolution [OF owes v1 disjI1 [OF v2]] v1 v2 show ?thesis
    by (auto simp: commit_states_def)
qed

section \<open>Transparency of the wrapper\<close>

text \<open>The server state of the provider below, seen through the wrapper.\<close>

definition below :: "'w connection registry \<Rightarrow> 'w cache_world server_state \<Rightarrow> 'w server_state" where
  "below r s = \<lparr>ss_registry = r, ss_world = cw_inner (ss_world s)\<rparr>"

definition same_reply ::
  "'w connection registry \<Rightarrow> 'a \<times> 'w cache_world server_state \<Rightarrow> 'a \<times> 'w server_state \<Rightarrow> bool" where
  "same_reply r x y \<longleftrightarrow> fst x = fst y \<and> below r (snd x) = snd y"

text \<open>
  Wrapping is invisible to the provider-wide calls: with the cache in between, the server answers
  \<open>GetCapabilities\<close>, \<open>Health\<close>, \<open>GetSchema\<close> and \<open>GetSemanticFragment\<close> as it does for the provider
  itself, errors and missing optional interfaces included, and the provider's own state evolves alike.
\<close>

theorem wrapped_provider_calls_agree:
  "same_reply r (GetCapabilities (cachedProvider ex p) s) (GetCapabilities p (below r s)) \<and>
   same_reply r (Health (cachedProvider ex p) s) (Health p (below r s)) \<and>
   same_reply r (GetSchema (cachedProvider ex p) s) (GetSchema p (below r s)) \<and>
   same_reply r (GetSemanticFragment sha (cachedProvider ex p) s) (GetSemanticFragment sha p (below r s))"
proof (intro conjI)
  have ids: "map_option rm_id (recovery_manager_of (cachedProvider ex p) v) = map_option rm_id (recovery_manager_of p (cw_inner v))"
    for v by (auto simp: recovery_manager_of_def cachedProvider_def cachedRecoveryManager_def option.map_comp comp_def
        split: option.splits)
  show "same_reply r (GetCapabilities (cachedProvider ex p) s) (GetCapabilities p (below r s))"
    unfolding same_reply_def GetCapabilities_def ids
    by (auto simp: below_def cachedProvider_def lift_inner_def Let_def split: prod.splits option.splits)
  show "same_reply r (Health (cachedProvider ex p) s) (Health p (below r s))"
    by (auto simp: same_reply_def Health_def below_def cachedProvider_def lift_inner_def Let_def split: prod.splits option.splits)
  show "same_reply r (GetSchema (cachedProvider ex p) s) (GetSchema p (below r s))"
    by (auto simp: same_reply_def GetSchema_def schema_ddl_def below_def cachedProvider_def lift_inner_def Let_def
        split: prod.splits option.splits)
  show "same_reply r (GetSemanticFragment sha (cachedProvider ex p) s) (GetSemanticFragment sha p (below r s))"
    by (auto simp: same_reply_def GetSemanticFragment_def below_def cachedProvider_def lift_inner_def Let_def
        split: prod.splits option.splits)
qed

end
