(* ===== verification/CacheSimulation.thy ===== *)
theory CacheSimulation
  imports CachedConnection
begin

text \<open>
  The caching provider as a whole against the histories of \<open>CacheCoherence\<close>. \<open>cache_step\<close> is
  one call of any operation of the cache, on any connection, stream, recovery manager or the
  controller, or any activity of the provider below. Every sequence of such calls is matched
  by a history, so what \<open>CacheCoherence\<close> shows about histories holds for the running cache.
\<close>

section \<open>Steps of the cache\<close>

inductive cache_step :: "'w externals \<Rightarrow> 'w cache_world \<Rightarrow> 'w cache_world \<Rightarrow> bool" for ex where
  provider: "cache_step ex v (v\<lparr>cw_inner := w\<rparr>)"
| open_connection: "cached_Open ex p v = (r, v') \<Longrightarrow> cache_step ex v v'"
| close_connection: "cached_Close c k v = (err, v') \<Longrightarrow> cache_step ex v v'"
| begin_tx: "cached_Begin c k v = (err, v') \<Longrightarrow> cache_step ex v v'"
| commit_tx: "cached_Commit c k v = (err, v') \<Longrightarrow> cache_step ex v v'"
| rollback_tx: "cached_Rollback c k v = (err, v') \<Longrightarrow> cache_step ex v v'"
| in_tx: "cached_InTransaction c k v = (x, v') \<Longrightarrow> cache_step ex v v'"
| begin_branch: "cached_BeginBranch c k b v = (err, v') \<Longrightarrow> cache_step ex v v'"
| prepare_branch: "cached_PrepareBranch c k b v = (x, v') \<Longrightarrow> cache_step ex v v'"
| commit_branch: "cached_CommitBranch c k b v = (x, v') \<Longrightarrow> cache_step ex v v'"
| rollback_branch: "cached_RollbackBranch c k b v = (x, v') \<Longrightarrow> cache_step ex v v'"
| mutation: "mutation_call ex c k mu v = (err, v') \<Longrightarrow> cache_step ex v v'"
| query: "cached_Query ex c k req v = (x, v') \<Longrightarrow> cache_step ex v v'"
| recording_next: "i < length (cw_recordings v) \<Longrightarrow> rs_next (recording_stream ex i) v = (x, v') \<Longrightarrow> cache_step ex v v'"
| recording_close: "i < length (cw_recordings v) \<Longrightarrow> rs_close (recording_stream ex i) v = (err, v') \<Longrightarrow> cache_step ex v v'"
| replay_next: "rs_next (replay_stream ex i) v = (x, v') \<Longrightarrow> cache_step ex v v'"
| replay_close: "rs_close (replay_stream ex i) v = (err, v') \<Longrightarrow> cache_step ex v v'"
| resolve_commit: "rm_commit (cachedRecoveryManager m) b v = (x, v') \<Longrightarrow> cache_step ex v v'"
| resolve_rollback: "rm_rollback (cachedRecoveryManager m) b v = (x, v') \<Longrightarrow> cache_step ex v v'"
| forget: "rm_forget (cachedRecoveryManager m) b v = (err, v') \<Longrightarrow> cache_step ex v v'"
| invalidate: "controller_Invalidate ex es v = (err, v') \<Longrightarrow> cache_step ex v v'"
| invalidate_all: "controller_InvalidateAll ex v = (err, v') \<Longrightarrow> cache_step ex v v'"

section \<open>State changes a history can match\<close>

definition matched :: "cache_state \<Rightarrow> cache_state \<Rightarrow> bool" where
  "matched s s' \<longleftrightarrow>
     (\<forall>h. hs_state h = s \<longrightarrow>
        (\<exists>h'. history_step\<^sup>*\<^sup>* h h' \<and> hs_state h' = s' \<and> hs_captures h \<subseteq> hs_captures h'))"

lemma matched_refl [simp, intro]: "matched s s"
  unfolding matched_def by blast

lemma matched_trans:
  assumes "matched s t" and "matched t u"
  shows "matched s u"
  unfolding matched_def
proof (intro allI impI)
  fix h :: history
  assume "hs_state h = s"
  with assms(1) obtain h1 where h1: "history_step\<^sup>*\<^sup>* h h1" "hs_state h1 = t" "hs_captures h \<subseteq> hs_captures h1"
    unfolding matched_def by blast
  with assms(2) obtain h2 where h2: "history_step\<^sup>*\<^sup>* h1 h2" "hs_state h2 = u" "hs_captures h1 \<subseteq> hs_captures h2"
    unfolding matched_def by blast
  have "history_step\<^sup>*\<^sup>* h h2" by (rule rtranclp_trans [OF h1(1) h2(1)])
  with h1(3) h2(2,3) show "\<exists>h'. history_step\<^sup>*\<^sup>* h h' \<and> hs_state h' = u \<and> hs_captures h \<subseteq> hs_captures h'" by blast
qed

lemma matched_step:
  assumes "\<And>h. hs_state h = s \<Longrightarrow> \<exists>h'. history_step h h' \<and> hs_state h' = s' \<and> hs_captures h' = hs_captures h"
  shows "matched s s'"
  unfolding matched_def using assms by (metis order_refl r_into_rtranclp)

lemma matched_invalidateAll: "matched s (invalidateAll s)"
  by (rule matched_step) (auto intro!: exI history_step.invalidate_all)

lemma matched_invalidateEntities: "matched s (invalidateEntities es s)"
  by (rule matched_step) (auto intro!: exI history_step.invalidate)

lemma matched_branches: "matched s (s\<lparr>cs_branches := b\<rparr>)"
  by (rule matched_step) (auto intro!: exI history_step.branches)

lemma matched_retain: "matched s (retainBranchInvalidation b es all s)"
  unfolding retainBranchInvalidation_def Let_def by (rule matched_branches)

lemma matched_discard: "matched s (discardBranchInvalidation b s)"
  unfolding discardBranchInvalidation_def by (rule matched_branches)

lemma matched_resolve: "matched s (resolveBranchInvalidation b i s)"
proof -
  let ?s = "s\<lparr>cs_branches := (cs_branches s)(cachedBranchKey b := None)\<rparr>"
  have "matched ?s (resolveBranchInvalidation b i s)"
    by (auto simp: resolveBranchInvalidation_def Let_def matched_invalidateAll matched_invalidateEntities
        split: option.splits)
  with matched_branches show ?thesis by (rule matched_trans)
qed

lemma matched_pending: "matched (cw_state v) (cw_state (invalidatePendingLocked k v))"
  by (auto simp: invalidatePendingLocked_def Let_def matched_invalidateAll matched_invalidateEntities)

lemma matched_mutation: "matched (cw_state v) (cw_state (recordMutationLocked k e v))"
  by (auto simp: recordMutationLocked_def matched_invalidateAll matched_invalidateEntities)

lemmas matched_intros = matched_pending matched_mutation matched_retain matched_discard matched_resolve
  matched_invalidateAll matched_invalidateEntities

section \<open>Operations that leave the recordings alone\<close>

definition quiet_step :: "'w cache_world \<Rightarrow> 'w cache_world \<Rightarrow> bool" where
  "quiet_step v v' \<longleftrightarrow> matched (cw_state v) (cw_state v') \<and> cw_recordings v' = cw_recordings v"

lemma quiet_refl [simp]: "quiet_step v v"
  by (simp add: quiet_step_def)

lemma quiet_lift: "lift_inner f v = (r, v1) \<Longrightarrow> quiet_step v1 v' \<Longrightarrow> quiet_step v v'"
  by (auto simp: quiet_step_def dest: lift_inner_rest)

lemma quiet_lift_object: "lift_object g f v = (y, v') \<Longrightarrow> quiet_step v v'"
  by (auto simp: lift_object_def split: prod.splits elim!: quiet_lift)

lemma quiet_simps [simp]:
  "quiet_step v (set_active k a v') \<longleftrightarrow> quiet_step v v'" "quiet_step v (clearPendingLocked k v') \<longleftrightarrow> quiet_step v v'"
  by (simp_all add: quiet_step_def)

lemma recordMutation_recordings [simp]: "cw_recordings (recordMutationLocked k e v) = cw_recordings v"
  by (auto simp: recordMutationLocked_def)

lemma quiet_intros [intro]:
  "quiet_step v (invalidatePendingLocked k v)" "quiet_step v (recordMutationLocked k e v)"
  "quiet_step v (on_state invalidateAll v)" "quiet_step v (on_state (invalidateEntities es) v)"
  "quiet_step v (on_state (retainBranchInvalidation b ds all) v)" "quiet_step v (on_state (resolveBranchInvalidation b i) v)"
  "quiet_step v (on_state (discardBranchInvalidation b) v)"
  by (simp_all add: quiet_step_def matched_intros)

lemma quiet_transactions:
  "cached_Close c k v = (e, v') \<Longrightarrow> quiet_step v v'" "cached_Begin c k v = (e, v') \<Longrightarrow> quiet_step v v'"
  "cached_Commit c k v = (e, v') \<Longrightarrow> quiet_step v v'" "cached_Rollback c k v = (e, v') \<Longrightarrow> quiet_step v v'"
  "cached_InTransaction c k v = (x, v') \<Longrightarrow> quiet_step v v'"
  by (auto simp: cached_Close_def cached_Begin_def cached_Commit_def cached_Rollback_def cached_InTransaction_def Let_def
      split: prod.splits option.splits if_splits elim!: quiet_lift)

lemma quiet_finish: "finish_branch k ((st, err), v1) = (x, v') \<Longrightarrow> quiet_step v1 v'"
  by (auto simp: finish_branch_def Let_def split: option.splits if_splits)

lemma quiet_resolve: "resolve_branch b ((st, err), v1) = (x, v') \<Longrightarrow> quiet_step v1 v'"
  by (auto simp: resolve_branch_def split: option.splits)

lemma quiet_branches:
  "cached_BeginBranch c k b v = (e, v') \<Longrightarrow> quiet_step v v'"
  "cached_PrepareBranch c k b v = (y, v') \<Longrightarrow> quiet_step v v'"
  "cached_CommitBranch c k b v = (x, v') \<Longrightarrow> quiet_step v v'"
  "cached_RollbackBranch c k b v = (x, v') \<Longrightarrow> quiet_step v v'"
  by (auto simp: cached_BeginBranch_def cached_PrepareBranch_def cached_CommitBranch_def cached_RollbackBranch_def Let_def
      split: sum.splits prod.splits option.splits if_splits prepare_outcome.splits elim!: quiet_lift)
    (metis quiet_lift quiet_finish surj_pair)+

lemma quiet_recovery:
  "rm_commit (cachedRecoveryManager m) b v = (x, v') \<Longrightarrow> quiet_step v v'"
  "rm_rollback (cachedRecoveryManager m) b v = (x, v') \<Longrightarrow> quiet_step v v'"
  "rm_forget (cachedRecoveryManager m) b v = (e, v') \<Longrightarrow> quiet_step v v'"
    by (simp_all add: cachedRecoveryManager_def recovery_ForgetBranch_def split: prod.splits option.splits)
      (metis quiet_lift quiet_resolve surj_pair, metis quiet_lift quiet_resolve surj_pair, auto elim!: quiet_lift)

lemma quiet_rest:
  "mutation_call ex c k mu v = (e, v') \<Longrightarrow> quiet_step v v'"
  "cached_Open ex p v = (r, v') \<Longrightarrow> quiet_step v v'"
  "rs_next (replay_stream ex i) v = (y, v') \<Longrightarrow> quiet_step v v'"
  "rs_close (replay_stream ex i) v = (e, v') \<Longrightarrow> quiet_step v v'"
  "controller_Invalidate ex es v = (e, v') \<Longrightarrow> quiet_step v v'"
  "controller_InvalidateAll ex v = (e, v') \<Longrightarrow> quiet_step v v'"
proof -
  show "mutation_call ex c k mu v = (e, v') \<Longrightarrow> quiet_step v v'"
    by (cases mu) (auto simp: cached_Insert_def cached_Update_def cached_Delete_def mutate_def
        split: prod.splits if_splits elim!: quiet_lift)
  show "cached_Open ex p v = (r, v') \<Longrightarrow> quiet_step v v'"
    by (auto simp: cached_Open_def quiet_step_def split: prod.splits option.splits dest: lift_inner_rest)
  show "rs_next (replay_stream ex i) v = (y, v') \<Longrightarrow> quiet_step v v'"
    "rs_close (replay_stream ex i) v = (e, v') \<Longrightarrow> quiet_step v v'"
    by (auto simp: replay_stream_def quiet_step_def put_replay_def split: prod.splits)
  show "controller_Invalidate ex es v = (e, v') \<Longrightarrow> quiet_step v v'"
    "controller_InvalidateAll ex v = (e, v') \<Longrightarrow> quiet_step v v'"
    by (auto simp: controller_Invalidate_def controller_InvalidateAll_def split: option.splits if_splits sum.splits)
qed

section \<open>The simulation\<close>

text \<open>Documented behaviour of \<open>proto.Size\<close>: a size is never negative.\<close>

definition sizes_ok :: "'w externals \<Rightarrow> bool" where
  "sizes_ok ex \<longleftrightarrow> (\<forall>b. 0 \<le> ex_batch_size ex b) \<and> (\<forall>o1. 0 \<le> ex_outcome_size ex o1)"

definition known :: "history \<Rightarrow> 'w recording \<Rightarrow> bool" where
  "known h r \<longleftrightarrow> 0 \<le> rc_size r \<and> (\<exists>t g n. (rc_capture r, t, g, n) \<in> hs_captures h)"

definition explains :: "history \<Rightarrow> 'w cache_world \<Rightarrow> bool" where
  "explains h v \<longleftrightarrow> hs_state h = cw_state v \<and> (\<forall>r\<in>set (cw_recordings v). known h r)"

lemma known_mono: "known h r \<Longrightarrow> hs_captures h \<subseteq> hs_captures h' \<Longrightarrow> known h' r"
  unfolding known_def by blast

lemma quiet_explained:
  assumes "explains h v" and "quiet_step v v'"
  shows "\<exists>h'. history_step\<^sup>*\<^sup>* h h' \<and> explains h' v'"
proof -
  obtain h' where h': "history_step\<^sup>*\<^sup>* h h'" "hs_state h' = cw_state v'" "hs_captures h \<subseteq> hs_captures h'"
    using assms unfolding explains_def quiet_step_def matched_def by blast
  moreover have "known h' r" if "r \<in> set (cw_recordings v')" for r
    using that assms h'(3) known_mono by (fastforce simp: explains_def quiet_step_def)
  ultimately show ?thesis unfolding explains_def by blast
qed

lemma recording_Next_known:
  assumes "sizes_ok ex" and "known h r" and "recording_Next ex limit r w = (res, r', w')"
  shows "known h r'"
proof -
  have "rc_capture r' = rc_capture r"
    using assms(3) by (auto simp: recording_Next_def dest: captureOutcome_rest split: if_splits prod.splits option.splits)
  moreover have "0 \<le> rc_size r'"
    using assms by (auto simp: known_def sizes_ok_def recording_Next_def captureOutcome_def record_batch_def
        disableCaching_def Let_def split: if_splits prod.splits option.splits)
  ultimately show ?thesis using assms(2) by (simp add: known_def)
qed

lemma set_update_known:
  "(\<forall>r\<in>set rs. known h r) \<Longrightarrow> known h r' \<Longrightarrow> \<forall>r\<in>set (rs[i := r']). known h r"
  using set_update_subset_insert [of rs i r'] by blast

lemma next_explained:
  assumes "sizes_ok ex" and "explains h v" and "i < length (cw_recordings v)"
    and "rs_next (recording_stream ex i) v = (x, v')"
  shows "explains h v'"
proof -
  obtain r w where n: "recording_Next ex (cs_max_entry_bytes (cw_state v)) (cw_recordings v ! i) (cw_inner v) = (x, r, w)"
      and v': "v' = put_recording i r v\<lparr>cw_inner := w\<rparr>"
    using assms(4) by (auto simp: recording_stream_def split: prod.splits)
  have "known h (cw_recordings v ! i)" using assms(2,3) by (simp add: explains_def)
  note new = recording_Next_known [OF assms(1) this n]
  have "\<forall>x\<in>set ((cw_recordings v)[i := r]). known h x"
    by (rule set_update_known [OF _ new]) (use assms(2) in \<open>simp add: explains_def\<close>)
  with assms(2) show ?thesis by (simp add: explains_def v' put_recording_def)
qed

lemma close_explained:
  assumes "explains h v" and "i < length (cw_recordings v)" and "rs_close (recording_stream ex i) v = (err, v')"
  shows "\<exists>h'. history_step\<^sup>*\<^sup>* h h' \<and> explains h' v'"
proof (cases "recording_Close ex (cw_recordings v ! i) (cw_state v) (cw_inner v)")
  case None
  with assms show ?thesis by (auto simp: recording_stream_def)
next
  case (Some a)
  let ?r = "cw_recordings v ! i"
  let ?res = "\<lparr>cr_batches = rc_batches ?r, cr_outcome = rc_outcome ?r, cr_size = rc_size ?r\<rparr>"
  obtain r s w where a: "a = (err, r, s, w)" and v': "v' = put_recording i r v\<lparr>cw_inner := w, cw_state := s\<rparr>"
    using assms(3) Some by (cases a) (auto simp: recording_stream_def)
  have kr: "known h ?r" using assms(1,2) by (simp add: explains_def)
  have r: "rc_size r = rc_size ?r" "rc_capture r = rc_capture ?r"
    and s: "s = cw_state v \<or> (\<exists>now. storeIfCurrent (cw_state v) (rc_capture ?r) ?res now = Some s)"
    using Some a by (auto simp: recording_Close_def Let_def split: if_splits prod.splits)
  have known: "known h r" using kr r by (simp add: known_def)
  have new: "explains h' v'" if "hs_state h' = s" "hs_captures h' = hs_captures h" for h'
  proof -
    have "known h' x" if "x \<in> set (cw_recordings v')" for x
    proof -
      have "known h x"
        using set_update_known [OF _ known, of "cw_recordings v" i] assms(1) \<open>x \<in> set (cw_recordings v')\<close>
        by (simp add: v' put_recording_def explains_def)
      then show ?thesis by (rule known_mono) (simp add: that \<open>hs_captures h' = hs_captures h\<close>)
    qed
    with that show ?thesis by (simp add: explains_def v' put_recording_def)
  qed
  from s show ?thesis
  proof
    assume "s = cw_state v"
    with new [of h] assms(1) show ?thesis by (auto simp: explains_def)
  next
    assume "\<exists>now. storeIfCurrent (cw_state v) (rc_capture ?r) ?res now = Some s"
    then obtain now where st: "storeIfCurrent (hs_state h) (rc_capture ?r) ?res now = Some s"
      using assms(1) by (auto simp: explains_def)
    obtain t g n where c: "(rc_capture ?r, t, g, n) \<in> hs_captures h" "storable ?res"
      using kr by (auto simp: known_def storable_def)
    from history_step.store [OF c st] show ?thesis by (auto intro!: new)
  qed
qed

lemma query_explained:
  assumes "explains h v" and "cached_Query ex c k req v = (x, v')"
  shows "\<exists>h'. history_step\<^sup>*\<^sup>* h h' \<and> explains h' v'"
proof (cases "quiet_step v v'")
  case True
  with assms(1) show ?thesis by (rule quiet_explained)
next
  case False
  have active: "\<not> inTransaction k v"
    using False assms(2) by (auto simp: cached_Query_def dest: quiet_lift_object)
  obtain digest where d: "queryDigest ex req = Inr digest"
    using False assms(2) active by (auto simp: cached_Query_def split: sum.splits)
  obtain entity where e: "normalizedEntityKey (ex_up ex) (q_entity req) = Inr entity"
    using False assms(2) active d by (auto simp: cached_Query_def dest: quiet_lift_object split: sum.splits)
  obtain capture found s where l: "lookup (cw_state v) entity digest (ex_clock ex (cw_inner v)) = (capture, found, s)"
    by (metis surj_pair)
  obtain stream err v2 where q: "lift_inner (cn_query c req) (v\<lparr>cw_state := s\<rparr>) = ((stream, err), v2)"
    by (metis surj_pair)
  define h' where "h' = h\<lparr>hs_state := s, hs_time := Suc (hs_time h),
    hs_captures := insert (capture, hs_time h, hs_global h, hs_count h entity) (hs_captures h)\<rparr>"
  have step: "history_step h h'"
    unfolding h'_def by (rule history_step.lookup) (use l assms(1) in \<open>simp add: explains_def\<close>)
  have old: "known h' r" if "r \<in> set (cw_recordings v)" for r
    using that assms(1) by (auto simp: explains_def h'_def intro: known_mono)
  have fresh: "known h' (new_recording st capture)" for st :: "'a result_stream"
    by (auto simp: known_def new_recording_def h'_def)
  have "cw_state v' = s \<and> set (cw_recordings v') \<subseteq> set (cw_recordings v) \<union> range (\<lambda>st. new_recording st capture)"
    using assms(2) active d e l lift_inner_rest [OF q]
    by (cases found; cases err; cases stream) (auto simp: cached_Query_def Let_def q)
  with old fresh have "explains h' v'" by (auto simp: explains_def h'_def)
  with step show ?thesis by blast
qed

lemma cache_step_explained:
  assumes "sizes_ok ex" and "explains h v" and "cache_step ex v v'"
  shows "\<exists>h'. history_step\<^sup>*\<^sup>* h h' \<and> explains h' v'"
  using assms(3)
proof cases
  case (recording_next i x)
  from next_explained [OF assms(1,2) recording_next] show ?thesis by blast
qed (use assms(2) in \<open>auto simp: quiet_step_def intro: quiet_explained close_explained query_explained
  dest: quiet_transactions quiet_branches quiet_recovery quiet_rest\<close>)

lemma wrapped_explained:
  "\<exists>h0. history_init h0 \<and> explains h0 (snd (Wrap ex config p w))"
proof -
  let ?h = "\<lparr>hs_state = newCacheState (normalizeConfig (ex_up ex) config), hs_time = 0, hs_last = (\<lambda>_. 0),
    hs_global = 0, hs_count = (\<lambda>_. 0), hs_captures = {}, hs_stores = {}\<rparr> :: history"
  have "history_init ?h" by (auto simp: history_init_def)
  moreover have "explains ?h (snd (Wrap ex config p w))" by (simp add: explains_def Wrap_def)
  ultimately show ?thesis by blast
qed

lemma cache_steps_explained:
  assumes "sizes_ok ex" and "(cache_step ex)\<^sup>*\<^sup>* v v'" and "explains h v"
  shows "\<exists>h'. history_step\<^sup>*\<^sup>* h h' \<and> explains h' v'"
  using assms(2)
proof (induction rule: rtranclp_induct)
  case base
  with assms(3) show ?case by blast
next
  case (step u v')
  from step.IH obtain h1 where h1: "history_step\<^sup>*\<^sup>* h h1" "explains h1 u" by blast
  from cache_step_explained [OF assms(1) h1(2) step.hyps(2)] obtain h2
    where "history_step\<^sup>*\<^sup>* h1 h2" "explains h2 v'" by blast
  with h1(1) show ?case by (meson rtranclp_trans)
qed

section \<open>Properties\<close>



end
