(* ===== verification/CachedQueries.thy ===== *)
theory CachedQueries
  imports CacheSimulation
begin

text \<open>
  The query server over the caching provider: what the first query sends is what every later
  query with the same request sends until the entry expires or is invalidated, and the later
  ones do not reach the provider below.
\<close>

section \<open>Streams of the cache under the server\<close>

lemma no_lob_stamp: "\<not> batchContainsLobReference b \<Longrightarrow> stamp cid b = b"
  by (simp add: stamp_def prepareOutputBatch_def)

lemma no_lob_responses:
  "\<forall>b\<in>set bs. \<not> batchContainsLobReference b \<Longrightarrow> map (BatchResponse \<circ> stamp cid) bs = map BatchResponse bs"
  by (simp add: no_lob_stamp)

lemma put_replay_put [simp]: "put_replay i p (put_replay i q v) = put_replay i p v"
  by (simp add: put_replay_def)

lemma put_replay_simps [simp]:
  "cw_inner (put_replay i p v) = cw_inner v" "cw_state (put_replay i p v) = cw_state v"
  "i < length (cw_replays v) \<Longrightarrow> cw_replays (put_replay i p v) ! i = p"
  "length (cw_replays (put_replay i p v)) = length (cw_replays v)"
  by (simp_all add: put_replay_def)

lemma replay_yields:
  assumes "i < length (cw_replays v)" and "cw_replays v ! i = p" and "\<not> rp_closed p"
    and "rp_next p \<le> length (cr_batches (rp_result p))" and "ex_context_error ex (cw_inner v) = None"
  shows "yields (replay_stream ex i) v (drop (rp_next p) (cr_batches (rp_result p))) EOF
    (put_replay i (p\<lparr>rp_next := length (cr_batches (rp_result p))\<rparr>) v)"
  using assms
proof (induction "length (cr_batches (rp_result p)) - rp_next p" arbitrary: p v)
  case 0
  then have n: "rp_next p = length (cr_batches (rp_result p))" by simp
  have eq: "p\<lparr>rp_next := length (cr_batches (rp_result p))\<rparr> = p" unfolding n [symmetric] by simp
  show ?case unfolding eq using 0 n by (simp add: replay_stream_def replay_Next_def)
next
  case (Suc m)
  let ?p = "p\<lparr>rp_next := Suc (rp_next p)\<rparr>" and ?v = "put_replay i (p\<lparr>rp_next := Suc (rp_next p)\<rparr>) v"
  have lt: "rp_next p < length (cr_batches (rp_result p))" using Suc.hyps(2) by simp
  have "yields (replay_stream ex i) ?v (drop (rp_next ?p) (cr_batches (rp_result ?p))) EOF
      (put_replay i (?p\<lparr>rp_next := length (cr_batches (rp_result ?p))\<rparr>) ?v)"
    by (rule Suc.hyps(1)) (use Suc.hyps(2) Suc.prems lt in auto)
  moreover have "rs_next (replay_stream ex i) v = ((Some (cr_batches (rp_result p) ! rp_next p), None), ?v)"
    using Suc.prems lt by (simp add: replay_stream_def replay_Next_def)
  moreover have "drop (rp_next p) (cr_batches (rp_result p)) =
      cr_batches (rp_result p) ! rp_next p # drop (Suc (rp_next p)) (cr_batches (rp_result p))"
    using lt by (rule Cons_nth_drop_Suc [symmetric])
  ultimately show ?case by simp
qed

lemma record_batch_fits:
  "rc_cacheable r \<Longrightarrow> \<not> batchContainsLobReference b \<Longrightarrow> rc_size r + ex_batch_size ex b \<le> limit \<Longrightarrow>
   record_batch ex limit b r = r\<lparr>rc_batches := rc_batches r @ [b], rc_size := rc_size r + ex_batch_size ex b\<rparr>"
  by (simp add: record_batch_def Let_def)

text \<open>\<open>Outcome\<close> of a provider's stream, or the default of a stream that has none.\<close>

definition stream_outcome :: "'w result_stream \<Rightarrow> 'w \<Rightarrow> query_outcome option \<times> 'w" where
  "stream_outcome st w =
     (case rs_outcome st of None \<Rightarrow> (Some complete_outcome, w) | Some outcome \<Rightarrow> outcome w)"

definition recorded :: "tuple_batch list \<Rightarrow> int \<Rightarrow> 'w recording \<Rightarrow> 'w recording" where
  "recorded bs n r =
     r\<lparr>rc_batches := bs, rc_size := n, rc_complete := True, rc_outcome := Some complete_outcome\<rparr>"

lemma captureOutcome_complete:
  assumes "stream_outcome (rc_stream r) w = (Some complete_outcome, w')" and "rc_cacheable r"
    and "rc_size r + ex_outcome_size ex complete_outcome \<le> limit"
  shows "captureOutcome ex limit (r\<lparr>rc_complete := True\<rparr>) w =
    (recorded (rc_batches r) (rc_size r + ex_outcome_size ex complete_outcome) r, w')"
  using assms by (auto simp: captureOutcome_def stream_outcome_def recorded_def Let_def complete_outcome_def
      split: option.splits)

lemma put_recording_simps [simp]:
  "cw_state (put_recording i r v) = cw_state v" "cw_inner (put_recording i r v) = cw_inner v"
  "i < length (cw_recordings v) \<Longrightarrow> cw_recordings (put_recording i r v) ! i = r"
  "length (cw_recordings (put_recording i r v)) = length (cw_recordings v)"
  "put_recording i r (put_recording i q v) = put_recording i r v"
  by (simp_all add: put_recording_def)

lemma recording_yields:
  assumes "i < length (cw_recordings v)" and "cw_recordings v ! i = r"
    and "\<not> rc_closed r" and "\<not> rc_complete r" and "rc_cacheable r"
    and "yields (rc_stream r) (cw_inner v) bs EOF w2"
    and "stream_outcome (rc_stream r) w2 = (Some complete_outcome, w3)"
    and "sizes_ok ex" and "\<forall>b\<in>set bs. \<not> batchContainsLobReference b"
    and "rc_size r + batches_size ex bs + ex_outcome_size ex complete_outcome \<le> cs_max_entry_bytes (cw_state v)"
  shows "yields (recording_stream ex i) v bs EOF
    (put_recording i (recorded (rc_batches r @ bs)
       (rc_size r + batches_size ex bs + ex_outcome_size ex complete_outcome) r) (v\<lparr>cw_inner := w3\<rparr>))"
  using assms
proof (induction bs arbitrary: v r)
  case Nil
  then obtain b where "rs_next (rc_stream r) (cw_inner v) = ((b, Some EOF), w2)" by auto
  with Nil captureOutcome_complete [OF Nil.prems(7,5), of ex] show ?case
    by (auto simp: recording_stream_def recording_Next_def put_recording_def)
next
  case (Cons b bs)
  let ?r = "r\<lparr>rc_batches := rc_batches r @ [b], rc_size := rc_size r + ex_batch_size ex b\<rparr>"
  obtain w1 where w1: "rs_next (rc_stream r) (cw_inner v) = ((Some b, None), w1)" "yields (rc_stream r) w1 bs EOF w2"
    using Cons.prems(6) by auto
  let ?v = "put_recording i ?r (v\<lparr>cw_inner := w1\<rparr>)"
  have pos: "0 \<le> batches_size ex bs" "0 \<le> ex_outcome_size ex complete_outcome"
    using Cons.prems(8) by (auto simp: sizes_ok_def batches_size_def intro!: sum_list_nonneg)
  then have "record_batch ex (cs_max_entry_bytes (cw_state v)) b r = ?r"
    by (intro record_batch_fits) (use Cons.prems in auto)
  then have "rs_next (recording_stream ex i) v = ((Some b, None), ?v)"
    using Cons.prems(2-4) w1(1) by (simp add: recording_stream_def recording_Next_def put_recording_def)
  moreover have "yields (recording_stream ex i) ?v bs EOF
      (put_recording i (recorded (rc_batches ?r @ bs)
        (rc_size ?r + batches_size ex bs + ex_outcome_size ex complete_outcome) ?r) (?v\<lparr>cw_inner := w3\<rparr>))"
    by (rule Cons.IH) (use Cons.prems w1(2) in \<open>auto simp: put_recording_def\<close>)
  moreover have "put_recording i (recorded (rc_batches ?r @ bs)
        (rc_size ?r + batches_size ex bs + ex_outcome_size ex complete_outcome) ?r) (?v\<lparr>cw_inner := w3\<rparr>) =
      put_recording i (recorded (rc_batches r @ b # bs)
       (rc_size r + batches_size ex (b # bs) + ex_outcome_size ex complete_outcome) r) (v\<lparr>cw_inner := w3\<rparr>)"
    by (simp add: put_recording_def recorded_def add.assoc)
  ultimately show ?case by auto
qed

section \<open>Finding what was stored\<close>

definition well_configured :: "cache_state \<Rightarrow> bool" where
  "well_configured s \<longleftrightarrow>
     state_ok s \<and> cs_max_entry_bytes s \<le> ms_max_bytes (cs_store s) \<and> 0 < ms_max_entries (cs_store s)"

lemma newCacheState_configured: "well_configured (newCacheState (normalizeConfig up c))"
  using newCacheState_ok [of up c] normalizeConfig_bounds [of up c]
  by (simp add: well_configured_def newCacheState_def newMemoryStore_def)

lemma miss_configured:
  assumes "well_configured s" and "lookup s e d now = (k, x, s1)"
  shows "well_configured s1" "capture_key s1 e d = capture_key s e d" "k = capture_key s e d"
    "cs_max_entry_bytes s1 = cs_max_entry_bytes s" "ms_ttl (cs_store s1) = ms_ttl (cs_store s)"
proof -
  note r = lookup_result [OF assms(2)]
  have ok: "store_ok (cs_store s)" using assms(1) by (simp add: well_configured_def state_ok_def)
  have "store_ok (snd (get (cs_store s) k now))" by (rule memory.fetch_ok [OF ok])
  with assms(1) show "well_configured s1" by (simp add: well_configured_def state_ok_def r get_limits)
  show "capture_key s1 e d = capture_key s e d" by (simp add: r(3) capture_key_def generation_def)
  show "k = capture_key s e d" by (rule r(1))
  show "cs_max_entry_bytes s1 = cs_max_entry_bytes s" "ms_ttl (cs_store s1) = ms_ttl (cs_store s)"
    by (simp_all add: r(3) get_limits)
qed

lemma stored_then_looked_up:
  assumes "well_configured s" and "0 \<le> cr_size r" and "cr_size r \<le> cs_max_entry_bytes s"
  shows "\<exists>s'. storeIfCurrent s (capture_key s e d) r now = Some s' \<and>
    (\<forall>t. t < now + ms_ttl (cs_store s) \<longrightarrow> fst (snd (lookup s' e d t)) = Some r)"
proof -
  have ok: "store_ok (cs_store s)" and fits: "cr_size r \<le> ms_max_bytes (cs_store s)" "0 < ms_max_entries (cs_store s)"
    using assms by (auto simp: well_configured_def state_ok_def)
  obtain st where st: "set_result (cs_store s) (capture_key s e d) r now = Some st"
    using memory.put_returns [OF ok, of r "capture_key s e d" now] assms(2) by (auto simp: storable_def)
  then have "storeIfCurrent s (capture_key s e d) r now = Some (s\<lparr>cs_store := st\<rparr>)"
    using assms(3) by (simp add: storeIfCurrent_def generation_def)
  moreover have "fst (snd (lookup (s\<lparr>cs_store := st\<rparr>) e d t)) = Some r" if "t < now + ms_ttl (cs_store s)" for t
  proof -
    have "fst (snd (lookup (s\<lparr>cs_store := st\<rparr>) e d t)) = fst (get st (capture_key (s\<lparr>cs_store := st\<rparr>) e d) t)"
      by (simp add: lookup_def Let_def split: prod.splits)
    moreover have "capture_key (s\<lparr>cs_store := st\<rparr>) e d = capture_key s e d"
      by (simp add: capture_key_def generation_def)
    ultimately show ?thesis using found_after_set [OF ok assms(2) fits st, of t] that by simp
  qed
  ultimately show ?thesis by blast
qed

section \<open>Queries through the cache\<close>

definition valid_request :: "query_request \<Rightarrow> bool" where
  "valid_request req \<longleftrightarrow>
     q_connection_id req \<noteq> [] \<and> (q_allow_partial_results req \<longrightarrow> q_accept_outcome req) \<and>
     validateQueryRequestValues req = None"

text \<open>The provider below answers a request with some batches, a complete outcome and a clean close.\<close>

definition answers :: "'w connection \<Rightarrow> query_request \<Rightarrow> 'w \<Rightarrow> tuple_batch list \<Rightarrow> 'w \<Rightarrow> bool" where
  "answers c req w bs w' \<longleftrightarrow>
     (\<exists>st w1 w2 w3. cn_query c req w = ((Some st, None), w1) \<and> yields st w1 bs EOF w2 \<and>
        stream_outcome st w2 = (Some complete_outcome, w3) \<and> rs_close st w3 = (None, w'))"

definition result_size :: "'w externals \<Rightarrow> tuple_batch list \<Rightarrow> int" where
  "result_size ex bs = batches_size ex bs + ex_outcome_size ex complete_outcome"

definition result_of :: "'w externals \<Rightarrow> tuple_batch list \<Rightarrow> cached_result" where
  "result_of ex bs = \<lparr>cr_batches = bs, cr_outcome = Some complete_outcome, cr_size = result_size ex bs\<rparr>"

definition responses :: "query_request \<Rightarrow> tuple_batch list \<Rightarrow> query_response list" where
  "responses req bs = map BatchResponse bs @ (if q_accept_outcome req then [OutcomeResponse complete_outcome] else [])"

lemma complete_outcome_ok: "validateQueryOutcome complete_outcome = None"
  by (simp add: validateQueryOutcome_def complete_outcome_def)

lemma query_end_complete:
  assumes "rs_outcome stream = Some f" and "f w = (Some complete_outcome, w')"
  shows "query_end stream req sent w =
    ((None, sent @ (if q_accept_outcome req then [OutcomeResponse complete_outcome] else [])), w')"
proof -
  have "o_completion complete_outcome \<noteq> QUERY_COMPLETION_PARTIAL" "o_warnings complete_outcome = []"
    by (simp_all add: complete_outcome_def)
  then show ?thesis
    using assms by (simp add: query_end_def prepareQueryOutcome_def complete_outcome_ok)
qed

lemma Query_served:
  assumes reg: "registry_ok (ss_registry s)" and conn: "connection_at s (q_connection_id req) = Some c"
    and valid: "valid_request req"
    and q: "cn_query c (req\<lparr>q_connection_id := []\<rparr>) (ss_world s) = ((Some stream, None), v1)"
    and y: "yields stream v1 bs EOF v2" and out: "rs_outcome stream = Some f" "f v2 = (Some complete_outcome, v2')"
    and cl: "rs_close stream v2' = (None, v3)"
    and lobs: "\<forall>b\<in>set bs. \<not> batchContainsLobReference b"
    and features: "\<forall>b\<in>set bs. validateOutputBatchFeatures (Some b) (q_accepted_features req) (cn_lob c \<noteq> None) = None"
    and send: "\<And>l m. send l m = None"
  shows "Query send req s = Some ((None, responses req bs), s\<lparr>ss_world := v3\<rparr>)"
proof -
  have v: "q_connection_id req \<noteq> []" "q_allow_partial_results req \<longrightarrow> q_accept_outcome req"
      "validateQueryRequestValues req = None" "errors_Is_EOF EOF"
    using valid by (simp_all add: valid_request_def)
  from Query_delivers [OF reg v(1) conn v(2,3) q y v(4) send features]
  show ?thesis unfolding query_end_complete [OF out] no_lob_responses [OF lobs] by (simp add: cl responses_def)
qed

lemma cached_query_miss:
  assumes "\<not> inTransaction k v" and "queryDigest ex req = Inr d" and "normalizedEntityKey (ex_up ex) (q_entity req) = Inr e"
    and "lookup (cw_state v) e d (ex_clock ex (cw_inner v)) = (cap, None, s1)"
    and "cn_query c req (cw_inner v) = ((Some st, None), w1)"
  shows "cached_Query ex c k req v = ((Some (recording_stream ex (length (cw_recordings v))), None),
    v\<lparr>cw_state := s1, cw_inner := w1, cw_recordings := cw_recordings v @ [new_recording st cap]\<rparr>)"
  using assms by (simp add: cached_Query_def lift_inner_def Let_def)

lemma cached_query_hit:
  assumes "\<not> inTransaction k v" and "queryDigest ex req = Inr d" and "normalizedEntityKey (ex_up ex) (q_entity req) = Inr e"
    and "lookup (cw_state v) e d (ex_clock ex (cw_inner v)) = (cap, Some res, s1)"
  shows "cached_Query ex c k req v = ((Some (replay_stream ex (length (cw_replays v))), None),
    v\<lparr>cw_state := s1, cw_replays := cw_replays v @ [\<lparr>rp_result = res, rp_next = 0, rp_closed = False\<rparr>]\<rparr>)"
  using assms by (simp add: cached_Query_def Let_def)

lemma digest_ignores_connection: "queryDigest ex (req\<lparr>q_connection_id := i\<rparr>) = queryDigest ex req"
  by (simp add: queryDigest_def)

lemma hit_replays:
  fixes s :: "'w cache_world server_state"
  assumes reg: "registry_ok (ss_registry s)" and conn: "connection_at s (q_connection_id req) = Some (cachedConnection ex c k)"
    and valid: "valid_request req" and idle: "\<not> inTransaction k (ss_world s)"
    and keys: "queryDigest ex req = Inr d" "normalizedEntityKey (ex_up ex) (q_entity req) = Inr e"
    and hit: "lookup (cw_state (ss_world s)) e d (ex_clock ex (cw_inner (ss_world s))) = (cap, Some (result_of ex bs), s1)"
    and lobs: "\<forall>b\<in>set bs. \<not> batchContainsLobReference b"
    and features: "\<forall>b\<in>set bs. validateOutputBatchFeatures (Some b) (q_accepted_features req) (cn_lob c \<noteq> None) = None"
    and ctx: "ex_context_error ex (cw_inner (ss_world s)) = None" and send: "send = (\<lambda>_ _. None)"
  shows "\<exists>s'. Query send req s = Some ((None, responses req bs), s') \<and> cw_inner (ss_world s') = cw_inner (ss_world s)"
proof -
  let ?v = "ss_world s" and ?req = "req\<lparr>q_connection_id := []\<rparr>"
  let ?i = "length (cw_replays (ss_world s))"
  let ?p = "\<lparr>rp_result = result_of ex bs, rp_next = 0, rp_closed = False\<rparr>"
  let ?v1 = "?v\<lparr>cw_state := s1, cw_replays := cw_replays ?v @ [?p]\<rparr>"
  let ?v2 = "put_replay ?i (?p\<lparr>rp_next := length bs\<rparr>) ?v1"
  have "cached_Query ex c k ?req ?v = ((Some (replay_stream ex ?i), None), ?v1)"
    by (rule cached_query_hit [OF idle]) (use keys hit in \<open>simp_all add: digest_ignores_connection\<close>)
  then have q: "cn_query (cachedConnection ex c k) ?req ?v = ((Some (replay_stream ex ?i), None), ?v1)"
    by (simp add: cachedConnection_def)
  have y: "yields (replay_stream ex ?i) ?v1 bs EOF ?v2"
    using replay_yields [of ?i ?v1 ?p ex] ctx by (simp add: result_of_def)
  have cl: "rs_close (replay_stream ex ?i) ?v2 = (None, put_replay ?i (?p\<lparr>rp_next := length bs, rp_closed := True\<rparr>) ?v1)"
    by (simp add: replay_stream_def replay_Close_def)
  have "Query send req s = Some ((None, responses req bs),
      s\<lparr>ss_world := put_replay ?i (?p\<lparr>rp_next := length bs, rp_closed := True\<rparr>) ?v1\<rparr>)"
    by (rule Query_served [OF reg conn valid q y _ _ cl lobs _ _,
          where f = "\<lambda>v. (replay_Outcome (cw_replays v ! ?i), v)"])
      (use features send in \<open>simp_all add: replay_stream_def replay_Outcome_def result_of_def cachedConnection_def\<close>)
  then show ?thesis by simp
qed

lemma miss_records:
  fixes s :: "'w cache_world server_state"
  assumes reg: "registry_ok (ss_registry s)" and conn: "connection_at s (q_connection_id req) = Some (cachedConnection ex c k)"
    and valid: "valid_request req" and idle: "\<not> inTransaction k (ss_world s)"
    and keys: "queryDigest ex req = Inr d" "normalizedEntityKey (ex_up ex) (q_entity req) = Inr e"
    and miss: "lookup (cw_state (ss_world s)) e d (ex_clock ex (cw_inner (ss_world s))) = (cap, None, s1)"
    and config: "well_configured (cw_state (ss_world s))"
    and below: "answers c (req\<lparr>q_connection_id := []\<rparr>) (cw_inner (ss_world s)) bs w'"
    and sizes: "sizes_ok ex" "result_size ex bs \<le> cs_max_entry_bytes (cw_state (ss_world s))"
    and lobs: "\<forall>b\<in>set bs. \<not> batchContainsLobReference b"
    and features: "\<forall>b\<in>set bs. validateOutputBatchFeatures (Some b) (q_accepted_features req) (cn_lob c \<noteq> None) = None"
    and send: "send = (\<lambda>_ _. None)"
  shows "\<exists>s' s2. Query send req s = Some ((None, responses req bs), s') \<and> cw_inner (ss_world s') = w' \<and>
    storeIfCurrent s1 cap (result_of ex bs) (ex_clock ex w') = Some s2 \<and> cw_state (ss_world s') = s2"
proof -
  let ?v = "ss_world s" and ?req = "req\<lparr>q_connection_id := []\<rparr>"
  let ?i = "length (cw_recordings (ss_world s))"
  obtain st w1 w2 w3 where st: "cn_query c ?req (cw_inner ?v) = ((Some st, None), w1)" "yields st w1 bs EOF w2"
      "stream_outcome st w2 = (Some complete_outcome, w3)" "rs_close st w3 = (None, w')"
    using below unfolding answers_def by blast
  let ?r = "new_recording st cap"
  let ?r' = "recorded bs (result_size ex bs) ?r"
  let ?v1 = "?v\<lparr>cw_state := s1, cw_inner := w1, cw_recordings := cw_recordings ?v @ [?r]\<rparr>"
  let ?v2 = "put_recording ?i ?r' (?v1\<lparr>cw_inner := w3\<rparr>)"
  note mc = miss_configured [OF config miss]
  have "cached_Query ex c k ?req ?v = ((Some (recording_stream ex ?i), None), ?v1)"
    by (rule cached_query_miss [OF idle]) (use keys miss st(1) in \<open>simp_all add: digest_ignores_connection\<close>)
  then have q: "cn_query (cachedConnection ex c k) ?req ?v = ((Some (recording_stream ex ?i), None), ?v1)"
    by (simp add: cachedConnection_def)
  have y: "yields (recording_stream ex ?i) ?v1 bs EOF ?v2"
    using recording_yields [of ?i ?v1 ?r bs w2 w3 ex] st sizes lobs mc(4)
    by (simp add: new_recording_def result_size_def)
  have "0 \<le> result_size ex bs"
    using sizes(1) by (auto simp: result_size_def sizes_ok_def batches_size_def intro!: add_nonneg_nonneg sum_list_nonneg)
  then obtain s2 where s2: "storeIfCurrent s1 cap (result_of ex bs) (ex_clock ex w') = Some s2"
    using stored_then_looked_up [OF mc(1), of "result_of ex bs" e d "ex_clock ex w'"] sizes(2) mc
    by (auto simp: result_of_def)
  have "recording_Close ex ?r' s1 w3 = Some (None, ?r'\<lparr>rc_closed := True\<rparr>, s2, w')"
    using st(4) s2 by (simp add: recording_Close_def recorded_def new_recording_def Let_def result_of_def)
  then have cl: "rs_close (recording_stream ex ?i) ?v2 =
      (None, put_recording ?i (?r'\<lparr>rc_closed := True\<rparr>) ?v2\<lparr>cw_inner := w', cw_state := s2\<rparr>)"
    by (simp add: recording_stream_def)
  have "Query send req s = Some ((None, responses req bs),
      s\<lparr>ss_world := put_recording ?i (?r'\<lparr>rc_closed := True\<rparr>) ?v2\<lparr>cw_inner := w', cw_state := s2\<rparr>\<rparr>)"
    by (rule Query_served [OF reg conn valid q y _ _ cl lobs _ _,
          where f = "\<lambda>v. (recording_Outcome (cw_recordings v ! ?i), v)"])
      (use features send in \<open>simp_all add: recording_stream_def recording_Outcome_def recorded_def cachedConnection_def\<close>)
  with s2 show ?thesis by simp
qed

section \<open>Properties\<close>

text \<open>
  C1: The cache answers like the provider. Let a valid query outside of a transaction miss the cache, and let
  the provider answer it with batches without LOB references that fit the entry limit, a complete outcome
  and a clean close. The server then sends exactly these batches and the outcome. Afterwards, as long as
  the cache state is as the query left it and the time to live has not passed, the same query on this or any
  other idle connection of the wrapped provider makes the server send the same responses, without error
  and without a call to the provider.
\<close>

theorem cached_answers_are_the_providers:
  assumes "registry_ok (ss_registry s)" and "connection_at s (q_connection_id req) = Some (cachedConnection ex c k)"
    and "valid_request req" and "\<not> inTransaction k (ss_world s)"
    and "queryDigest ex req = Inr d" and "normalizedEntityKey (ex_up ex) (q_entity req) = Inr e"
    and "lookup (cw_state (ss_world s)) e d (ex_clock ex (cw_inner (ss_world s))) = (cap, None, s1)"
    and "well_configured (cw_state (ss_world s))"
    and "answers c (req\<lparr>q_connection_id := []\<rparr>) (cw_inner (ss_world s)) bs w'"
    and "sizes_ok ex" and "result_size ex bs \<le> cs_max_entry_bytes (cw_state (ss_world s))"
    and "\<forall>b\<in>set bs. \<not> batchContainsLobReference b"
    and "\<forall>b\<in>set bs. \<forall>lobs. validateOutputBatchFeatures (Some b) (q_accepted_features req) lobs = None"
    and "send = (\<lambda>_ _. None)"
  shows "\<exists>s'. Query send req s = Some ((None, responses req bs), s') \<and> cw_inner (ss_world s') = w' \<and>
    (\<forall>u c' k' i. registry_ok (ss_registry u) \<and> connection_at u i = Some (cachedConnection ex c' k') \<and> i \<noteq> [] \<and>
       \<not> inTransaction k' (ss_world u) \<and> cw_state (ss_world u) = cw_state (ss_world s') \<and>
       ex_context_error ex (cw_inner (ss_world u)) = None \<and>
       ex_clock ex (cw_inner (ss_world u)) < ex_clock ex w' + ms_ttl (cs_store (cw_state (ss_world s))) \<longrightarrow>
       (\<exists>u'. Query send (req\<lparr>q_connection_id := i\<rparr>) u = Some ((None, responses req bs), u') \<and>
          cw_inner (ss_world u') = cw_inner (ss_world u)))"
proof -
  note mc = miss_configured [OF assms(8,7)]
  obtain s' s2 where q: "Query send req s = Some ((None, responses req bs), s')" "cw_inner (ss_world s') = w'"
      "storeIfCurrent s1 cap (result_of ex bs) (ex_clock ex w') = Some s2" "cw_state (ss_world s') = s2"
    using miss_records [OF assms(1-11) assms(12) _ assms(14)] assms(13) by blast
  have "0 \<le> result_size ex bs"
    using assms(10) by (auto simp: result_size_def sizes_ok_def batches_size_def intro!: add_nonneg_nonneg sum_list_nonneg)
  then have found: "fst (snd (lookup s2 e d t)) = Some (result_of ex bs)"
    if "t < ex_clock ex w' + ms_ttl (cs_store (cw_state (ss_world s)))" for t
    using stored_then_looked_up [OF mc(1), of "result_of ex bs" e d "ex_clock ex w'"] assms(11) mc q(3) that
    by (auto simp: result_of_def)
  have "\<exists>u'. Query send (req\<lparr>q_connection_id := i\<rparr>) u = Some ((None, responses req bs), u') \<and>
      cw_inner (ss_world u') = cw_inner (ss_world u)"
    if u: "registry_ok (ss_registry u)" "connection_at u i = Some (cachedConnection ex c' k')" "i \<noteq> []"
      "\<not> inTransaction k' (ss_world u)" "cw_state (ss_world u) = cw_state (ss_world s')"
      "ex_context_error ex (cw_inner (ss_world u)) = None"
      "ex_clock ex (cw_inner (ss_world u)) < ex_clock ex w' + ms_ttl (cs_store (cw_state (ss_world s)))" for u c' k' i
  proof -
    let ?req = "req\<lparr>q_connection_id := i\<rparr>"
    obtain cap' s3 where l: "lookup (cw_state (ss_world u)) e d (ex_clock ex (cw_inner (ss_world u))) =
        (cap', Some (result_of ex bs), s3)"
      using found [OF u(7)] u(5) q(4) by (metis prod.collapse)
    have v: "valid_request ?req" using assms(3) u(3) by (simp add: valid_request_def validateQueryRequestValues_def)
    have "\<exists>u'. Query send ?req u = Some ((None, responses ?req bs), u') \<and> cw_inner (ss_world u') = cw_inner (ss_world u)"
      by (rule hit_replays [OF u(1) _ v u(4) _ _ l assms(12) _ u(6) assms(14)])
        (use u(2) assms(5,6,13) in \<open>simp_all add: digest_ignores_connection\<close>)
    then show ?thesis by (simp add: responses_def)
  qed
  with q show ?thesis by blast
qed

definition source :: "nat connection" where
  "source = null_connection\<lparr>cn_query := \<lambda>_ _. ((Some one_stream, None), 0)\<rparr>"

definition entity_query :: query_request where
  "entity_query = one_query\<lparr>q_entity := Some \<lparr>er_name = ''T'', er_namespace = []\<rparr>\<rparr>"

definition cached_server :: "nat cache_world \<Rightarrow> nat cache_world server_state" where
  "cached_server v =
     \<lparr>ss_registry = register newConnectionRegistry ''c1'' (cachedConnection demo_externals source 0), ss_world = v\<rparr>"

lemma cached_server_facts:
  "registry_ok (ss_registry (cached_server v))"
  "connection_at (cached_server v) ''c1'' = Some (cachedConnection demo_externals source 0)"
proof -
  have "registry_ok (register newConnectionRegistry ''c1'' (cachedConnection demo_externals source 0))"
    by (rule register_ok [OF newConnectionRegistry_ok]) (simp add: newConnectionRegistry_def)
  then show "registry_ok (ss_registry (cached_server v))" by (simp add: cached_server_def)
  show "connection_at (cached_server v) ''c1'' = Some (cachedConnection demo_externals source 0)"
    by (simp add: cached_server_def connection_at_def register_def newConnectionRegistry_def)
qed

lemma entity_query_facts:
  "valid_request entity_query" "q_connection_id entity_query = ''c1''" "q_accept_outcome entity_query"
  "q_accepted_features entity_query = []" "queryDigest demo_externals entity_query = Inr []"
  by (simp_all add: entity_query_def one_query_def valid_request_def validateQueryRequestValues_def
      validateExpressionValues_def queryDigest_def demo_externals_def)

lemma entity_query_key: "\<exists>e. normalizedEntityKey (ex_up demo_externals) (q_entity entity_query) = Inr e"
proof -
  have "toUpper id (trimSpace ''T'') \<noteq> []" by code_simp
  then show ?thesis by (simp add: normalizedEntityKey_def entity_query_def demo_externals_def)
qed

lemma source_answers: "answers source req w [one_batch] 1"
proof -
  have "cn_query source req w = ((Some one_stream, None), 0)" "stream_outcome one_stream 1 = (Some complete_outcome, 1)"
      "rs_close one_stream 1 = (None, 1)"
    by (simp_all add: source_def stream_outcome_def one_stream_def)
  with one_stream_yields show ?thesis unfolding answers_def by blast
qed

lemma one_batch_always_accepted: "validateOutputBatchFeatures (Some one_batch) [] lobs = None"
  by (cases lobs) (unfold one_batch_def, code_simp+)

lemma idle_lookup: "\<exists>s1. lookup (cw_state idle_world) e d now = (capture_key (cw_state idle_world) e d, None, s1)"
  by (simp add: idle_world_def lookup_def Let_def newCacheState_def newMemoryStore_def get_def find_element_def)

theorem cached_answers_are_the_providers_witness:
  "\<exists>s' u'. Query (\<lambda>_ _. None) entity_query (cached_server idle_world) =
       Some ((None, [BatchResponse one_batch, OutcomeResponse complete_outcome]), s') \<and>
     Query (\<lambda>_ _. None) entity_query (cached_server (idle_world\<lparr>cw_inner := 7, cw_state := cw_state (ss_world s')\<rparr>)) =
       Some ((None, [BatchResponse one_batch, OutcomeResponse complete_outcome]), u') \<and> cw_inner (ss_world u') = 7"
proof -
  obtain e where e: "normalizedEntityKey (ex_up (demo_externals :: nat externals)) (q_entity entity_query) = Inr e"
    using entity_query_key by blast
  obtain cap s1 where l: "lookup (cw_state (ss_world (cached_server idle_world))) e []
      (ex_clock demo_externals (cw_inner (ss_world (cached_server idle_world)))) = (cap, None, s1)"
    using idle_lookup by (metis cached_server_def server_state.select_convs(2))
  have w: "ss_world (cached_server v) = v" for v by (simp add: cached_server_def)
  have config: "well_configured (cw_state idle_world)" by (simp add: idle_world_def newCacheState_configured)
  have limits: "cs_max_entry_bytes (cw_state idle_world) = 50" "ms_ttl (cs_store (cw_state idle_world)) = 10"
    by (simp_all add: idle_world_def example_config_def normalizeConfig_def newCacheState_def newMemoryStore_def Let_def)
  have size: "sizes_ok (demo_externals :: nat externals)" "result_size (demo_externals :: nat externals) [one_batch] = 2"
    by (simp_all add: sizes_ok_def result_size_def demo_externals_def)
  have r: "responses entity_query [one_batch] = [BatchResponse one_batch, OutcomeResponse complete_outcome]"
    by (simp add: responses_def entity_query_facts)
  have same: "entity_query\<lparr>q_connection_id := ''c1''\<rparr> = entity_query" by (simp add: entity_query_def one_query_def)
  have prems:
    "connection_at (cached_server idle_world) (q_connection_id entity_query) = Some (cachedConnection demo_externals source 0)"
    "\<not> inTransaction 0 (ss_world (cached_server idle_world))" "well_configured (cw_state (ss_world (cached_server idle_world)))"
    "result_size (demo_externals :: nat externals) [one_batch] \<le> cs_max_entry_bytes (cw_state (ss_world (cached_server idle_world)))"
    "\<forall>b\<in>set [one_batch]. \<not> batchContainsLobReference b"
    "\<forall>b\<in>set [one_batch]. \<forall>lobs. validateOutputBatchFeatures (Some b) (q_accepted_features entity_query) lobs = None"
    using cached_server_facts(2) config limits(1) size(2) one_batch_no_lob one_batch_always_accepted
    by (simp_all add: w entity_query_facts inTransaction_def) (simp add: idle_world_def)
  obtain s' where s': "Query (\<lambda>_ _. None) entity_query (cached_server idle_world) =
        Some ((None, responses entity_query [one_batch]), s')"
      and later: "\<forall>(u :: nat cache_world server_state) c' k' i. registry_ok (ss_registry u) \<and> connection_at u i = Some (cachedConnection demo_externals c' k') \<and>
         i \<noteq> [] \<and> \<not> inTransaction k' (ss_world u) \<and> cw_state (ss_world u) = cw_state (ss_world s') \<and>
         ex_context_error demo_externals (cw_inner (ss_world u)) = None \<and>
         ex_clock demo_externals (cw_inner (ss_world u)) <
           ex_clock demo_externals (1 :: nat) + ms_ttl (cs_store (cw_state (ss_world (cached_server idle_world)))) \<longrightarrow>
         (\<exists>u'. Query (\<lambda>_ _. None) (entity_query\<lparr>q_connection_id := i\<rparr>) u =
            Some ((None, responses entity_query [one_batch]), u') \<and> cw_inner (ss_world u') = cw_inner (ss_world u))"
    using cached_answers_are_the_providers [OF cached_server_facts(1) prems(1) entity_query_facts(1) prems(2)
        entity_query_facts(5) e l prems(3) source_answers size(1) prems(4-6) refl] by blast
  let ?u = "cached_server (idle_world\<lparr>cw_inner := 7, cw_state := cw_state (ss_world s')\<rparr>)"
  have "\<exists>u'. Query (\<lambda>_ _. None) (entity_query\<lparr>q_connection_id := ''c1''\<rparr>) ?u =
      Some ((None, responses entity_query [one_batch]), u') \<and> cw_inner (ss_world u') = cw_inner (ss_world ?u)"
    by (rule later [THEN spec, THEN spec, THEN spec, THEN spec, THEN mp, of _ "''c1''" source 0])
      (use cached_server_facts limits(2) in \<open>simp_all add: w inTransaction_def idle_world_def demo_externals_def\<close>)
  with s' show ?thesis unfolding same r w by auto
qed

section \<open>Streams that end with a wrapped EOF\<close>

text \<open>
  C37: A stream that ends with an error wrapping \<open>io.EOF\<close> is not complete for the cache. The recording stream
  hands the error on, but has no outcome then: the server, which accepts the wrapped error as the end of
  the stream, answers with an internal error for the missing outcome, where the stream without the cache
  and without an outcome of its own completes the query.
\<close>

theorem wrapped_end_loses_the_outcome:
  assumes "i < length (cw_recordings v)" and "\<not> rc_closed (cw_recordings v ! i)" and "\<not> rc_complete (cw_recordings v ! i)"
    and "rs_next (rc_stream (cw_recordings v ! i)) (cw_inner v) = ((b, Some e), w1)"
    and "errors_Is_EOF e" and "e \<noteq> EOF"
    and "rs_outcome (rc_stream (cw_recordings v ! i)) = None"
  shows "\<exists>v'. rs_next (recording_stream ex i) v = ((b, Some e), v') \<and>
    query_end (recording_stream ex i) req sent v' =
      ((Some (Status Internal (QueryReason (InvalidOutcome OutcomeNil))), sent), v') \<and>
    fst (fst (query_end (rc_stream (cw_recordings v ! i)) req sent w1)) = None"
proof -
  let ?r = "(cw_recordings v ! i)\<lparr>rc_cacheable := False\<rparr>"
  let ?v = "put_recording i ?r v\<lparr>cw_inner := w1\<rparr>"
  have "rs_next (recording_stream ex i) v = ((b, Some e), ?v)"
    using assms by (simp add: recording_stream_def recording_Next_def)
  moreover have "recording_Outcome (cw_recordings ?v ! i) = None"
    using assms(1,3) by (simp add: recording_Outcome_def)
  then have "query_end (recording_stream ex i) req sent ?v =
      ((Some (Status Internal (QueryReason (InvalidOutcome OutcomeNil))), sent), ?v)"
    by (simp add: query_end_def prepareQueryOutcome_def recording_stream_def)
  moreover have "fst (fst (query_end (rc_stream (cw_recordings v ! i)) req sent w1)) = None"
  proof -
    have "validateQueryOutcome \<lparr>o_completion = QUERY_COMPLETION_COMPLETE, o_warnings = []\<rparr> = None"
      by (simp add: validateQueryOutcome_def)
    then show ?thesis using assms(7) by (simp add: query_end_def prepareQueryOutcome_def)
  qed
  ultimately show ?thesis by blast
qed

definition wrapping_world :: "nat cache_world" where
  "wrapping_world = idle_world\<lparr>cw_recordings := [new_recording
     \<lparr>rs_next = \<lambda>w. ((None, Some (ForeignWrap ''read rows'' EOF)), w), rs_close = \<lambda>w. (None, w), rs_outcome = None\<rparr>
     example_key]\<rparr>"

theorem wrapped_end_loses_the_outcome_witness:
  "\<exists>v'. rs_next (recording_stream demo_externals 0) wrapping_world = ((None, Some (ForeignWrap ''read rows'' EOF)), v') \<and>
     query_end (recording_stream demo_externals 0) one_query [] v' =
       ((Some (Status Internal (QueryReason (InvalidOutcome OutcomeNil))), []), v')"
proof -
  have w: "0 < length (cw_recordings wrapping_world)" "\<not> rc_closed (cw_recordings wrapping_world ! 0)"
      "\<not> rc_complete (cw_recordings wrapping_world ! 0)"
      "rs_next (rc_stream (cw_recordings wrapping_world ! 0)) (cw_inner wrapping_world) =
        ((None, Some (ForeignWrap ''read rows'' EOF)), 0)"
      "rs_outcome (rc_stream (cw_recordings wrapping_world ! 0)) = None"
    by (simp_all add: wrapping_world_def new_recording_def idle_world_def)
  from wrapped_end_loses_the_outcome [OF w(1-4) _ _ w(5), of demo_externals one_query "[]"] show ?thesis by auto
qed

end
