(* ===== verification/InMemoryModel.thy ===== *)
theory InMemoryModel
  imports Complex_Main ProviderApi ValueFeatures "HOL-Library.Multiset"
begin

text \<open>
  \<open>providers/inmemory/model.go\<close>: the entities of the in-memory provider, the mutable table
  of tasks and the constant rows of the others.

  \<open>runtime\<close> is what the provider asks of the world outside of the repository: the Unicode
  tables beyond ASCII, the conversions between numbers and texts of \<open>strconv\<close>,
  \<open>math/big\<close> and the floating-point unit, deterministic marshalling and message equality, and the answers that
  differ from call to call. The latter are indexed by the number of the call and, where a
  call asks repeatedly, by the position in the call: the error of the context, the clock (in
  nanoseconds since 1970), the bytes of \<open>crypto/rand\<close> and the order in which a \<open>range\<close> over
  a map visits it. \<open>ranges_all\<close> is what the language promises of that order.

  The map of tasks is an association list with distinct keys (\<open>store_ok\<close>), because the
  provider iterates over it. Values are pointers to messages that nobody modifies, so they
  are shared freely.
\<close>

section \<open>State\<close>

record task =
  t_ID :: string
  t_ProjectID :: string
  t_Title :: string
  t_Description :: "string option"
  t_Completed :: bool
  t_Priority :: int
  t_EstimateHours :: "32 word option"
  t_DueAt :: "string option"

record entity_row =
  er_key :: string
  er_values :: "string \<rightharpoonup> value"

record store =
  st_tasks :: "(string \<times> task) list"
  st_entities :: "string \<rightharpoonup> entity_row list"
  st_nextID :: "64 word"

record entity_field =
  ef_name :: string
  ef_valueType :: value_type
  ef_typeDescriptor :: "type_descriptor option"

record entity_definition =
  ed_name :: string
  ed_fields :: "entity_field list"
  ed_mutable :: bool

record runtime =
  im_fold :: "string \<Rightarrow> string \<Rightarrow> bool"
  im_lower :: "string \<Rightarrow> string"
  im_rat :: "string \<Rightarrow> rat option"
  im_float_text :: "32 word \<Rightarrow> string"
  im_double_text :: "64 word \<Rightarrow> string"
  im_to_double :: "rat \<Rightarrow> 64 word"
  im_to_float :: "64 word \<Rightarrow> 32 word"
  im_marshal :: "value \<Rightarrow> string + bytes"
  im_equal :: "expression \<Rightarrow> expression \<Rightarrow> bool"
  im_context :: "nat \<Rightarrow> nat \<Rightarrow> go_error option"
  im_clock :: "nat \<Rightarrow> nat \<Rightarrow> int"
  im_random :: "nat \<Rightarrow> nat \<Rightarrow> bytes option"
  im_range :: "nat \<Rightarrow> (string \<times> task) list \<Rightarrow> (string \<times> task) list"

definition ranges_all :: "runtime \<Rightarrow> bool" where
  "ranges_all rt \<longleftrightarrow> (\<forall>n xs. mset (im_range rt n xs) = mset xs)"

section \<open>Value constructors\<close>

definition nullValue :: "value" where "nullValue = Value (NullValue (Some ()))"
definition stringValue :: "string \<Rightarrow> value" where "stringValue s = Value (StringValue s)"
definition varbinaryValue :: "bytes \<Rightarrow> value" where "varbinaryValue s = Value (VarbinaryValue s)"
definition charValue :: "string \<Rightarrow> value" where "charValue s = Value (CharValue s)"
definition booleanValue :: "bool \<Rightarrow> value" where "booleanValue b = Value (BooleanValue b)"
definition byteValue :: "int \<Rightarrow> value" where "byteValue i = Value (ByteValue i)"
definition shortValue :: "int \<Rightarrow> value" where "shortValue i = Value (ShortValue i)"
definition integerValue :: "int \<Rightarrow> value" where "integerValue i = Value (IntegerValue i)"
definition longValue :: "int \<Rightarrow> value" where "longValue i = Value (LongValue i)"
definition bigintegerValue :: "string \<Rightarrow> value" where "bigintegerValue s = Value (BigintegerValue s)"
definition floatValue :: "32 word \<Rightarrow> value" where "floatValue f = Value (FloatValue f)"
definition doubleValue :: "64 word \<Rightarrow> value" where "doubleValue f = Value (DoubleValue f)"
definition bigdecimalValue :: "string \<Rightarrow> value" where "bigdecimalValue s = Value (BigdecimalValue s)"
definition dateValue :: "string \<Rightarrow> value" where "dateValue s = Value (DateValue s)"
definition timeValue :: "string \<Rightarrow> value" where "timeValue s = Value (TimeValue s)"
definition timestampValue :: "string \<Rightarrow> value" where "timestampValue s = Value (TimestampValue s)"
definition blobValue :: "bytes \<Rightarrow> value" where "blobValue s = Value (BlobValue (Some s))"
definition clobValue :: "string \<Rightarrow> value" where "clobValue s = Value (ClobValue (Some s))"
definition geometryValue :: "bytes \<Rightarrow> value" where "geometryValue s = Value (GeometryValue s)"
definition geographyValue :: "bytes \<Rightarrow> value" where "geographyValue s = Value (GeographyValue s)"
definition arrayValue :: "type_descriptor \<Rightarrow> value list \<Rightarrow> value" where
  "arrayValue elementType elements = Value (ArrayValue (Some elementType) (map Some elements))"
definition jsonValue :: "string \<Rightarrow> value" where "jsonValue s = Value (JsonValue s)"
definition xmlValue :: "string \<Rightarrow> value" where "xmlValue s = Value (XmlValue s)"

lemmas value_defs = nullValue_def stringValue_def varbinaryValue_def charValue_def booleanValue_def
  byteValue_def shortValue_def integerValue_def longValue_def bigintegerValue_def floatValue_def
  doubleValue_def bigdecimalValue_def dateValue_def timeValue_def timestampValue_def blobValue_def
  clobValue_def geometryValue_def geographyValue_def arrayValue_def jsonValue_def xmlValue_def

definition equalName :: "runtime \<Rightarrow> string \<Rightarrow> string \<Rightarrow> bool" where
  "equalName rt = equalFold (im_fold rt)"

section \<open>Entities\<close>

definition projectEntityName :: string where "projectEntityName = ''PROJECT''"
definition taskEntityName :: string where "taskEntityName = ''TASK''"
definition auditEventEntityName :: string where "auditEventEntityName = ''AUDIT_EVENT''"
definition typeSampleEntityName :: string where "typeSampleEntityName = ''TYPE_SAMPLE''"

lemmas entity_names = projectEntityName_def taskEntityName_def auditEventEntityName_def typeSampleEntityName_def

definition field :: "string \<Rightarrow> value_type \<Rightarrow> entity_field" where
  "field name t = \<lparr>ef_name = name, ef_valueType = t, ef_typeDescriptor = None\<rparr>"

definition projectFields :: "entity_field list" where
  "projectFields =
    [field ''id'' VALUE_TYPE_STRING,
     field ''name'' VALUE_TYPE_STRING,
     field ''status'' VALUE_TYPE_CHAR,
     field ''active'' VALUE_TYPE_BOOLEAN,
     field ''budget'' VALUE_TYPE_BIGDECIMAL,
     field ''started_on'' VALUE_TYPE_DATE,
     field ''metadata'' VALUE_TYPE_JSON]"

definition taskFields :: "entity_field list" where
  "taskFields =
    [field ''id'' VALUE_TYPE_STRING,
     field ''project_id'' VALUE_TYPE_STRING,
     field ''title'' VALUE_TYPE_STRING,
     field ''description'' VALUE_TYPE_CLOB,
     field ''completed'' VALUE_TYPE_BOOLEAN,
     field ''priority'' VALUE_TYPE_INTEGER,
     field ''estimate_hours'' VALUE_TYPE_FLOAT,
     field ''due_at'' VALUE_TYPE_TIMESTAMP]"

definition auditEventFields :: "entity_field list" where
  "auditEventFields =
    [field ''id'' VALUE_TYPE_LONG,
     field ''entity_type'' VALUE_TYPE_STRING,
     field ''entity_id'' VALUE_TYPE_STRING,
     field ''action'' VALUE_TYPE_CHAR,
     field ''sequence'' VALUE_TYPE_SHORT,
     field ''risk_score'' VALUE_TYPE_DOUBLE,
     field ''occurred_at'' VALUE_TYPE_TIMESTAMP,
     field ''source_address'' VALUE_TYPE_VARBINARY,
     field ''payload'' VALUE_TYPE_JSON,
     field ''raw_payload'' VALUE_TYPE_BLOB]"

definition integer_descriptor :: type_descriptor where
  "integer_descriptor = TypeDescriptor VALUE_TYPE_INTEGER None None None"

definition typeSampleFields :: "entity_field list" where
  "typeSampleFields =
    [field ''sample_id'' VALUE_TYPE_STRING,
     field ''string_value'' VALUE_TYPE_STRING,
     field ''varbinary_value'' VALUE_TYPE_VARBINARY,
     field ''char_value'' VALUE_TYPE_CHAR,
     field ''boolean_value'' VALUE_TYPE_BOOLEAN,
     field ''byte_value'' VALUE_TYPE_BYTE,
     field ''short_value'' VALUE_TYPE_SHORT,
     field ''integer_value'' VALUE_TYPE_INTEGER,
     \<lparr>ef_name = ''integer_array_value'', ef_valueType = VALUE_TYPE_ARRAY,
      ef_typeDescriptor = Some (TypeDescriptor VALUE_TYPE_ARRAY (Some integer_descriptor) None None)\<rparr>,
     field ''long_value'' VALUE_TYPE_LONG,
     field ''biginteger_value'' VALUE_TYPE_BIGINTEGER,
     field ''float_value'' VALUE_TYPE_FLOAT,
     field ''double_value'' VALUE_TYPE_DOUBLE,
     field ''bigdecimal_value'' VALUE_TYPE_BIGDECIMAL,
     field ''date_value'' VALUE_TYPE_DATE,
     field ''time_value'' VALUE_TYPE_TIME,
     field ''timestamp_value'' VALUE_TYPE_TIMESTAMP,
     field ''blob_value'' VALUE_TYPE_BLOB,
     field ''clob_value'' VALUE_TYPE_CLOB,
     field ''geometry_value'' VALUE_TYPE_GEOMETRY,
     field ''geography_value'' VALUE_TYPE_GEOGRAPHY,
     field ''json_value'' VALUE_TYPE_JSON,
     field ''xml_value'' VALUE_TYPE_XML]"

definition project_definition :: entity_definition where
  "project_definition = \<lparr>ed_name = projectEntityName, ed_fields = projectFields, ed_mutable = False\<rparr>"
definition task_definition :: entity_definition where
  "task_definition = \<lparr>ed_name = taskEntityName, ed_fields = taskFields, ed_mutable = True\<rparr>"
definition audit_definition :: entity_definition where
  "audit_definition = \<lparr>ed_name = auditEventEntityName, ed_fields = auditEventFields, ed_mutable = False\<rparr>"
definition sample_definition :: entity_definition where
  "sample_definition = \<lparr>ed_name = typeSampleEntityName, ed_fields = typeSampleFields, ed_mutable = False\<rparr>"

lemmas definition_defs = project_definition_def task_definition_def audit_definition_def sample_definition_def

definition entityDefinitions :: "entity_definition list" where
  "entityDefinitions = [project_definition, task_definition, audit_definition, sample_definition]"

definition resolveEntity :: "runtime \<Rightarrow> entity_reference option \<Rightarrow> go_error + entity_definition" where
  "resolveEntity rt entity =
     (case entity of
        None \<Rightarrow> Inl (Status InvalidArgument (InMemoryReason ImEntityRequired))
      | Some e \<Rightarrow>
          if er_name e = [] then Inl (Status InvalidArgument (InMemoryReason ImEntityRequired))
          else
            (case find (\<lambda>d. equalName rt (ed_name d) (er_name e)) entityDefinitions of
               Some d \<Rightarrow> Inr d
             | None \<Rightarrow> Inl (Status NotFound (InMemoryReason (ImEntityNotFound (er_name e))))))"

definition validateMutableTaskEntity :: "runtime \<Rightarrow> entity_reference option \<Rightarrow> go_error option" where
  "validateMutableTaskEntity rt entity =
     (case resolveEntity rt entity of
        Inl e \<Rightarrow> Some e
      | Inr d \<Rightarrow>
          fail_if (\<not> ed_mutable d \<or> \<not> equalName rt (ed_name d) taskEntityName)
            (Status FailedPrecondition (InMemoryReason (ImEntityReadOnly (ed_name d)))))"

definition fieldByName :: "runtime \<Rightarrow> entity_definition \<Rightarrow> string \<Rightarrow> entity_field option" where
  "fieldByName rt d name = find (\<lambda>f. equalName rt (ef_name f) name) (ed_fields d)"

definition taskFieldByName :: "runtime \<Rightarrow> string \<Rightarrow> entity_field option" where
  "taskFieldByName rt name = fieldByName rt (entityDefinitions ! 1) name"

section \<open>Rows\<close>

definition newEntityRow :: "runtime \<Rightarrow> string \<Rightarrow> (string \<times> value) list \<Rightarrow> entity_row" where
  "newEntityRow rt key values =
     \<lparr>er_key = key, er_values = map_of (map (\<lambda>(name, v). (toLower (im_lower rt) name, v)) values)\<rparr>"

definition task_values :: "task \<Rightarrow> (string \<times> value) list" where
  "task_values t =
    [(''id'', stringValue (t_ID t)),
     (''project_id'', stringValue (t_ProjectID t)),
     (''title'', stringValue (t_Title t)),
     (''description'', case t_Description t of None \<Rightarrow> nullValue | Some s \<Rightarrow> clobValue s),
     (''completed'', booleanValue (t_Completed t)),
     (''priority'', integerValue (t_Priority t)),
     (''estimate_hours'', case t_EstimateHours t of None \<Rightarrow> nullValue | Some f \<Rightarrow> floatValue f),
     (''due_at'', case t_DueAt t of None \<Rightarrow> nullValue | Some s \<Rightarrow> timestampValue s)]"

definition taskRow :: "runtime \<Rightarrow> task \<Rightarrow> entity_row" where
  "taskRow rt t = newEntityRow rt (t_ID t) (task_values t)"

definition rowValue :: "runtime \<Rightarrow> entity_row \<Rightarrow> string \<Rightarrow> im_eval_err + value" where
  "rowValue rt row name =
     (case er_values row (toLower (im_lower rt) name) of
        Some v \<Rightarrow> Inr v
      | None \<Rightarrow> Inl (UnknownField name))"

definition taskTuple :: "runtime \<Rightarrow> task \<Rightarrow> entity_field list \<Rightarrow> im_eval_err + tuple_msg" where
  "taskTuple rt t fs = traverse (\<lambda>f. map_sum id Some (rowValue rt (taskRow rt t) (ef_name f))) fs"

definition providerFields :: "entity_field list \<Rightarrow> field_msg option list" where
  "providerFields fs =
     map (\<lambda>f. Some \<lparr>f_name = ef_name f, f_type = ef_valueType f, f_type_descriptor = None\<rparr>) fs"

section \<open>The sample data\<close>

definition projectRows :: "runtime \<Rightarrow> entity_row list" where
  "projectRows rt =
    [newEntityRow rt ''project-1''
       [(''id'', stringValue ''project-1''),
        (''name'', stringValue ''Provider SDK''),
        (''status'', charValue ''A''),
        (''active'', booleanValue True),
        (''budget'', bigdecimalValue ''125000.50''),
        (''started_on'', dateValue ''2026-07-01''),
        (''metadata'', jsonValue ''{\"owner\":\"platform\",\"region\":\"eu\"}'')],
     newEntityRow rt ''project-2''
       [(''id'', stringValue ''project-2''),
        (''name'', stringValue ''Engine Integration''),
        (''status'', charValue ''P''),
        (''active'', booleanValue True),
        (''budget'', bigdecimalValue ''87500.00''),
        (''started_on'', dateValue ''2026-08-01''),
        (''metadata'', jsonValue ''{\"owner\":\"federation\",\"region\":\"global\"}'')]]"

definition auditEventRows :: "runtime \<Rightarrow> entity_row list" where
  "auditEventRows rt =
    [newEntityRow rt ''1001''
       [(''id'', longValue 1001),
        (''entity_type'', stringValue taskEntityName),
        (''entity_id'', stringValue ''task-1''),
        (''action'', charValue ''U''),
        (''sequence'', shortValue 1),
        (''risk_score'', doubleValue 0x3FC3333333333333),
        (''occurred_at'', timestampValue ''2026-08-02T09:15:30.125''),
        (''source_address'', varbinaryValue [CHR 0x7F, CHR 0x00, CHR 0x00, CHR 0x01]),
        (''payload'', jsonValue ''{\"completed\":true}''),
        (''raw_payload'', blobValue ''completed=true'')],
     newEntityRow rt ''1002''
       [(''id'', longValue 1002),
        (''entity_type'', stringValue projectEntityName),
        (''entity_id'', stringValue ''project-2''),
        (''action'', charValue ''C''),
        (''sequence'', shortValue 2),
        (''risk_score'', doubleValue 0x3FA999999999999A),
        (''occurred_at'', timestampValue ''2026-08-03T10:00:00''),
        (''source_address'', varbinaryValue [CHR 0x0A, CHR 0x00, CHR 0x00, CHR 0x2A]),
        (''payload'', jsonValue ''{\"status\":\"P\"}''),
        (''raw_payload'', blobValue ''status=P'')]]"

definition pointWKB :: bytes where
  "pointWKB =
    [CHR 0x01, CHR 0x01, CHR 0x00, CHR 0x00, CHR 0x00,
     CHR 0x00, CHR 0x00, CHR 0x00, CHR 0x00, CHR 0x00, CHR 0x00, CHR 0xF0, CHR 0x3F,
     CHR 0x00, CHR 0x00, CHR 0x00, CHR 0x00, CHR 0x00, CHR 0x00, CHR 0x00, CHR 0x40]"

definition typeSampleRows :: "runtime \<Rightarrow> entity_row list" where
  "typeSampleRows rt =
    [newEntityRow rt ''canonical''
       [(''sample_id'', stringValue ''canonical''),
        (''string_value'', stringValue ''Kubling''),
        (''varbinary_value'', varbinaryValue [CHR 0x4B, CHR 0x55, CHR 0x42]),
        (''char_value'', charValue ''K''),
        (''boolean_value'', booleanValue True),
        (''byte_value'', byteValue 127),
        (''short_value'', shortValue 32767),
        (''integer_value'', integerValue 2147483647),
        (''integer_array_value'', arrayValue integer_descriptor [integerValue 1, nullValue, integerValue 3]),
        (''long_value'', longValue 9223372036854775000),
        (''biginteger_value'', bigintegerValue ''123456789012345678901234567890''),
        (''float_value'', floatValue 0x40500000),
        (''double_value'', doubleValue 0x400921FB54442D18),
        (''bigdecimal_value'', bigdecimalValue ''1234567890.12345678901234567890''),
        (''date_value'', dateValue ''2026-08-03''),
        (''time_value'', timeValue ''14:30:15.125''),
        (''timestamp_value'', timestampValue ''2026-08-03T14:30:15.125''),
        (''blob_value'', blobValue ''binary large object''),
        (''clob_value'', clobValue ''character large object''),
        (''geometry_value'', geometryValue pointWKB),
        (''geography_value'', geographyValue pointWKB),
        (''json_value'', jsonValue ''{\"engine\":\"kubling\",\"sample\":true}''),
        (''xml_value'', xmlValue ''<sample engine=\"kubling\"/>'')]]"

definition initial_tasks :: "(string \<times> task) list" where
  "initial_tasks =
    [(''task-1'',
      \<lparr>t_ID = ''task-1'', t_ProjectID = ''project-1'', t_Title = ''Review provider SDK'',
       t_Description = Some ''Validate the public provider lifecycle through the SDK adapter.'',
       t_Completed = True, t_Priority = 1, t_EstimateHours = Some 0x40200000,
       t_DueAt = Some ''2026-08-04T17:00:00''\<rparr>),
     (''task-2'',
      \<lparr>t_ID = ''task-2'', t_ProjectID = ''project-1'', t_Title = ''Build in-memory provider'',
       t_Description = None, t_Completed = False, t_Priority = 2, t_EstimateHours = Some 0x40800000,
       t_DueAt = Some ''2026-08-07T12:30:00''\<rparr>),
     (''task-3'',
      \<lparr>t_ID = ''task-3'', t_ProjectID = ''project-2'', t_Title = ''Connect Kubling'',
       t_Description = None, t_Completed = False, t_Priority = 3, t_EstimateHours = None,
       t_DueAt = None\<rparr>)]"

definition newStore :: "runtime \<Rightarrow> store" where
  "newStore rt =
     \<lparr>st_tasks = initial_tasks,
      st_entities =
        [projectEntityName \<mapsto> projectRows rt,
         auditEventEntityName \<mapsto> auditEventRows rt,
         typeSampleEntityName \<mapsto> typeSampleRows rt],
      st_nextID = 4\<rparr>"

definition snapshot :: "runtime \<Rightarrow> nat \<Rightarrow> store \<Rightarrow> entity_definition \<Rightarrow> entity_row list" where
  "snapshot rt n s d =
     (if equalName rt (ed_name d) taskEntityName
      then map (\<lambda>(_, t). taskRow rt t) (im_range rt n (st_tasks s))
      else (case st_entities s (ed_name d) of None \<Rightarrow> [] | Some rows \<Rightarrow> rows))"

section \<open>Typed rows\<close>

text \<open>
  A row of an entity has a value for every field, of the field's type and made of plain
  values: no LOB reference and no coordinate system anywhere inside.
\<close>

definition field_type :: "entity_field \<Rightarrow> type_descriptor" where
  "field_type f =
     (case ef_typeDescriptor f of Some d \<Rightarrow> d | None \<Rightarrow> TypeDescriptor (ef_valueType f) None None None)"

definition plain :: "value \<Rightarrow> bool" where
  "plain v \<longleftrightarrow> (\<forall>w. inside w (Some v) \<longrightarrow> \<not> is_spatial (kind_of w) \<and> lob_payload (kind_of w) = None)"

definition row_typed :: "entity_definition \<Rightarrow> entity_row \<Rightarrow> bool" where
  "row_typed d row \<longleftrightarrow>
     dom (er_values row) = ef_name ` set (ed_fields d) \<and>
     (\<forall>f\<in>set (ed_fields d). \<forall>v. er_values row (ef_name f) = Some v \<longrightarrow> has_type (field_type f) v \<and> plain v)"

lemma plain_Value:
  "plain (Value k) \<longleftrightarrow>
     \<not> is_spatial k \<and> lob_payload k = None \<and> (\<forall>v. Some v \<in> set (array_elements k) \<longrightarrow> plain v)"
proof -
  have "inside w (Some (Value k)) \<longleftrightarrow> w = Value k \<or> (\<exists>v. Some v \<in> set (array_elements k) \<and> inside w (Some v))" for w
    unfolding inside_Value by (metis inside_None option.exhaust)
  then show ?thesis by (auto simp: plain_def)
qed

lemma scalar_plain:
  assumes "array_parts k = None" and "\<not> is_spatial k" and "lob_payload k = None"
  shows "plain (Value k)"
  using assms by (cases k) (auto simp: plain_Value array_elements_def array_parts_def)

lemmas kind_class_defs = array_parts_def is_spatial_def lob_payload_def is_null_def actual_type_def

lemma lower_literal: "list_all (\<lambda>c. ascii c \<and> ascii_lower c = c) s \<Longrightarrow> toLower uni s = s"
  by (simp add: toLower_def list_all_iff map_idI)

lemma lower_name:
  assumes "d \<in> set entityDefinitions" and "f \<in> set (ed_fields d)"
  shows "list_all (\<lambda>c. ascii c \<and> ascii_lower c = c) (ef_name f)"
proof -
  have "\<forall>d\<in>set entityDefinitions. \<forall>f\<in>set (ed_fields d). list_all (\<lambda>c. ascii c \<and> ascii_lower c = c) (ef_name f)"
    by (simp add: entityDefinitions_def definition_defs projectFields_def taskFields_def
        auditEventFields_def typeSampleFields_def field_def ascii_def ascii_lower_def)
  with assms show ?thesis by blast
qed

lemma lower_names:
  assumes "d \<in> set entityDefinitions" and "f \<in> set (ed_fields d)"
  shows "toLower uni (ef_name f) = ef_name f"
  by (rule lower_literal [OF lower_name [OF assms]])

lemma taskFieldByName_eq: "taskFieldByName rt = fieldByName rt task_definition"
  by (simp add: taskFieldByName_def entityDefinitions_def fun_eq_iff)

lemma newEntityRow_values:
  assumes "\<forall>(name, v)\<in>set vs. toLower (im_lower rt) name = name"
  shows "er_values (newEntityRow rt key vs) = map_of vs"
proof -
  have "map (\<lambda>(name, v). (toLower (im_lower rt) name, v)) vs = vs"
    using assms by (intro map_idI) auto
  then show ?thesis by (simp add: newEntityRow_def)
qed

lemma row_typedI:
  assumes "d \<in> set entityDefinitions" and "map fst vs = map ef_name (ed_fields d)"
    and "list_all2 (\<lambda>f (_, v). has_type (field_type f) v \<and> plain v) (ed_fields d) vs"
    and "distinct (map fst vs)"
  shows "row_typed d (newEntityRow rt key vs)"
proof -
  have "\<forall>(name, v)\<in>set vs. toLower (im_lower rt) name = name"
  proof clarify
    fix name v assume "(name, v) \<in> set vs"
    then have "name \<in> set (map fst vs)" by force
    with assms(2) obtain f where "f \<in> set (ed_fields d)" "name = ef_name f" by auto
    with lower_names [OF assms(1)] show "toLower (im_lower rt) name = name" by simp
  qed
  then have vals: "er_values (newEntityRow rt key vs) = map_of vs" by (rule newEntityRow_values)
  have "has_type (field_type f) v \<and> plain v"
    if f: "f \<in> set (ed_fields d)" and v: "map_of vs (ef_name f) = Some v" for f v
  proof -
    from f obtain i where i: "i < length (ed_fields d)" "f = ed_fields d ! i" by (auto simp: in_set_conv_nth)
    from assms(2) have len: "length vs = length (ed_fields d)" by (metis length_map)
    have "fst (vs ! i) = ef_name f" using assms(2) i len by (metis nth_map)
    then have "map_of vs (ef_name f) = Some (snd (vs ! i))"
      using assms(4) i len by (metis map_of_is_SomeI nth_mem prod.collapse)
    with v assms(3) i show ?thesis by (simp add: list_all2_conv_all_nth case_prod_beta)
  qed
  moreover have "dom (map_of vs) = ef_name ` set (ed_fields d)"
    using assms(2) by (metis dom_map_of_conv_image_fst list.set_map)
  ultimately show ?thesis by (simp add: row_typed_def vals)
qed

lemma typed_scalar [simp]:
  "has_type (TypeDescriptor t None None None) nullValue" "plain nullValue"
  "has_type (TypeDescriptor VALUE_TYPE_STRING None None None) (stringValue s)" "plain (stringValue s)"
  "has_type (TypeDescriptor VALUE_TYPE_VARBINARY None None None) (varbinaryValue s)" "plain (varbinaryValue s)"
  "has_type (TypeDescriptor VALUE_TYPE_CHAR None None None) (charValue s)" "plain (charValue s)"
  "has_type (TypeDescriptor VALUE_TYPE_BOOLEAN None None None) (booleanValue b)" "plain (booleanValue b)"
  "has_type (TypeDescriptor VALUE_TYPE_BYTE None None None) (byteValue i)" "plain (byteValue i)"
  "has_type (TypeDescriptor VALUE_TYPE_SHORT None None None) (shortValue i)" "plain (shortValue i)"
  "has_type (TypeDescriptor VALUE_TYPE_INTEGER None None None) (integerValue i)" "plain (integerValue i)"
  "has_type (TypeDescriptor VALUE_TYPE_LONG None None None) (longValue i)" "plain (longValue i)"
  "has_type (TypeDescriptor VALUE_TYPE_BIGINTEGER None None None) (bigintegerValue s)" "plain (bigintegerValue s)"
  "has_type (TypeDescriptor VALUE_TYPE_FLOAT None None None) (floatValue x)" "plain (floatValue x)"
  "has_type (TypeDescriptor VALUE_TYPE_DOUBLE None None None) (doubleValue y)" "plain (doubleValue y)"
  "has_type (TypeDescriptor VALUE_TYPE_BIGDECIMAL None None None) (bigdecimalValue s)" "plain (bigdecimalValue s)"
  "has_type (TypeDescriptor VALUE_TYPE_DATE None None None) (dateValue s)" "plain (dateValue s)"
  "has_type (TypeDescriptor VALUE_TYPE_TIME None None None) (timeValue s)" "plain (timeValue s)"
  "has_type (TypeDescriptor VALUE_TYPE_TIMESTAMP None None None) (timestampValue s)" "plain (timestampValue s)"
  "has_type (TypeDescriptor VALUE_TYPE_BLOB None None None) (blobValue s)" "plain (blobValue s)"
  "has_type (TypeDescriptor VALUE_TYPE_CLOB None None None) (clobValue s)" "plain (clobValue s)"
  "has_type (TypeDescriptor VALUE_TYPE_GEOMETRY None None None) (geometryValue s)" "plain (geometryValue s)"
  "has_type (TypeDescriptor VALUE_TYPE_GEOGRAPHY None None None) (geographyValue s)" "plain (geographyValue s)"
  "has_type (TypeDescriptor VALUE_TYPE_JSON None None None) (jsonValue s)" "plain (jsonValue s)"
  "has_type (TypeDescriptor VALUE_TYPE_XML None None None) (xmlValue s)" "plain (xmlValue s)"
  by (simp_all add: value_defs has_type_non_array kind_class_defs scalar_plain)

lemma sample_array [simp]:
  "has_type (TypeDescriptor VALUE_TYPE_ARRAY (Some integer_descriptor) None None)
     (arrayValue integer_descriptor [integerValue i, nullValue, integerValue j])"
  "plain (arrayValue integer_descriptor [integerValue i, nullValue, integerValue j])"
proof -
  have "wf_descriptor integer_descriptor"
    by (simp add: integer_descriptor_def ValueType_known_def dimensions_ok_def)
  then show "has_type (TypeDescriptor VALUE_TYPE_ARRAY (Some integer_descriptor) None None)
     (arrayValue integer_descriptor [integerValue i, nullValue, integerValue j])"
    by (simp add: arrayValue_def has_type_ArrayValue) (simp add: integer_descriptor_def)
  show "plain (arrayValue integer_descriptor [integerValue i, nullValue, integerValue j])"
    unfolding arrayValue_def plain_Value by (auto simp: kind_class_defs array_elements_def)
qed

lemma taskRow_typed: "row_typed task_definition (taskRow rt t)"
  unfolding taskRow_def
  by (rule row_typedI)
    (simp_all add: entityDefinitions_def task_definition_def taskFields_def field_def task_values_def
      field_type_def split: option.splits)

lemma sample_rows_typed:
  "\<forall>row\<in>set (projectRows rt). row_typed project_definition row"
  "\<forall>row\<in>set (auditEventRows rt). row_typed audit_definition row"
  "\<forall>row\<in>set (typeSampleRows rt). row_typed sample_definition row"
  unfolding projectRows_def auditEventRows_def typeSampleRows_def
  by (auto intro!: row_typedI simp: entityDefinitions_def definition_defs projectFields_def
      auditEventFields_def typeSampleFields_def field_def field_type_def)

section \<open>The store\<close>

text \<open>Tasks are filed under their identifiers; the other entities never change.\<close>

definition store_ok :: "runtime \<Rightarrow> store \<Rightarrow> bool" where
  "store_ok rt s \<longleftrightarrow>
     distinct (map fst (st_tasks s)) \<and> (\<forall>(id, t)\<in>set (st_tasks s). t_ID t = id) \<and>
     st_entities s = st_entities (newStore rt)"

lemma newStore_ok: "store_ok rt (newStore rt)"
  by (simp add: store_ok_def newStore_def initial_tasks_def)

lemma entity_is_task:
  "d \<in> set entityDefinitions \<Longrightarrow> equalName rt (ed_name d) taskEntityName \<longleftrightarrow> d = task_definition"
  by (auto simp: entityDefinitions_def definition_defs entity_names equalName_def equalFold_ascii
      ascii_def ascii_upper_def)

lemma resolveEntity_Inr: "resolveEntity rt e = Inr d \<Longrightarrow> d \<in> set entityDefinitions"
  by (auto simp: resolveEntity_def find_Some_iff split: option.splits if_splits)

lemma fieldByName_Some:
  "fieldByName rt d name = Some f \<Longrightarrow> f \<in> set (ed_fields d) \<and> equalName rt (ef_name f) name"
  by (auto simp: fieldByName_def find_Some_iff)

lemma range_simps [simp]:
  assumes "ranges_all rt"
  shows "set (im_range rt n xs) = set xs" and "mset (im_range rt n xs) = mset xs"
    and "length (im_range rt n xs) = length xs"
    and "distinct (map g (im_range rt n xs)) \<longleftrightarrow> distinct (map g xs)"
proof -
  from assms show "mset (im_range rt n xs) = mset xs" by (simp add: ranges_all_def)
  then show "set (im_range rt n xs) = set xs" "length (im_range rt n xs) = length xs"
    by (rule mset_eq_setD, rule mset_eq_length)
  have "mset (map g (im_range rt n xs)) = mset (map g xs)" using assms by (simp add: ranges_all_def)
  then show "distinct (map g (im_range rt n xs)) \<longleftrightarrow> distinct (map g xs)"
    by (rule mset_eq_imp_distinct_iff)
qed

lemma newStore_entities:
  "st_entities (newStore rt) (ed_name project_definition) = Some (projectRows rt)"
  "st_entities (newStore rt) (ed_name audit_definition) = Some (auditEventRows rt)"
  "st_entities (newStore rt) (ed_name sample_definition) = Some (typeSampleRows rt)"
  by (simp_all add: newStore_def definition_defs entity_names)

text \<open>Every row a query sees has the types the entity declares, and keys identify rows.\<close>

lemma snapshot_rows:
  assumes "ranges_all rt" and "store_ok rt s" and "d \<in> set entityDefinitions"
  shows "\<forall>row\<in>set (snapshot rt n s d). row_typed d row"
    and "distinct (map er_key (snapshot rt n s d))"
proof -
  have rows: "\<forall>row\<in>set (snapshot rt n s d). row_typed d row"
    and keys: "distinct (map er_key (snapshot rt n s d))" if "d = task_definition"
  proof -
    from that have snap: "snapshot rt n s d = map (\<lambda>(_, t). taskRow rt t) (im_range rt n (st_tasks s))"
      using entity_is_task [OF assms(3)] by (simp add: snapshot_def)
    show "\<forall>row\<in>set (snapshot rt n s d). row_typed d row"
      unfolding snap by (auto simp: that taskRow_typed)
    have "map er_key (snapshot rt n s d) = map (\<lambda>(_, t). t_ID t) (im_range rt n (st_tasks s))"
      unfolding snap by (simp add: taskRow_def newEntityRow_def case_prod_beta)
    also have "\<dots> = map fst (im_range rt n (st_tasks s))"
      using assms(1,2) by (auto simp: store_ok_def intro!: map_cong)
    finally show "distinct (map er_key (snapshot rt n s d))"
      using assms(1,2) by (simp add: store_ok_def)
  qed
  have other: "(\<forall>row\<in>set (snapshot rt n s d). row_typed d row) \<and> distinct (map er_key (snapshot rt n s d))"
    if "d \<noteq> task_definition"
  proof -
    from that have snap: "snapshot rt n s d = (case st_entities s (ed_name d) of None \<Rightarrow> [] | Some rows \<Rightarrow> rows)"
      using entity_is_task [OF assms(3)] by (simp add: snapshot_def)
    have ents: "st_entities s = st_entities (newStore rt)" using assms(2) by (simp add: store_ok_def)
    have keys: "distinct (map er_key (projectRows rt))" "distinct (map er_key (auditEventRows rt))"
      "distinct (map er_key (typeSampleRows rt))"
      by (simp_all add: projectRows_def auditEventRows_def typeSampleRows_def newEntityRow_def)
    from that assms(3) consider "d = project_definition" | "d = audit_definition" | "d = sample_definition"
      by (auto simp: entityDefinitions_def)
    then show ?thesis
      unfolding snap ents using sample_rows_typed [of rt] keys
      by cases (simp_all add: newStore_entities)
  qed
  show "\<forall>row\<in>set (snapshot rt n s d). row_typed d row"
    using rows other by blast
  show "distinct (map er_key (snapshot rt n s d))"
    using keys other by blast
qed

section \<open>A runtime\<close>

text \<open>
  For the examples: names are compared and lowered as ASCII, texts that are not numbers, no
  call is cancelled, the clock stands still, the source of random bytes counts for a while and
  then fails, and maps are visited backwards.
\<close>

definition demo_marshal :: "value \<Rightarrow> string + bytes" where
  "demo_marshal v =
     (case kind_of v of
        StringValue s \<Rightarrow> Inr (CHR ''s'' # s)
      | BooleanValue b \<Rightarrow> Inr (if b then ''t'' else ''f'')
      | _ \<Rightarrow> Inr ''other'')"

definition demo_runtime :: runtime where
  "demo_runtime =
     \<lparr>im_fold = (\<lambda>_ _. False), im_lower = id, im_rat = (\<lambda>_. None), im_float_text = (\<lambda>_. ''0''),
      im_double_text = (\<lambda>_. ''0''), im_to_double = (\<lambda>_. 0), im_to_float = (\<lambda>_. 0), im_marshal = demo_marshal,
      im_equal = (=), im_context = (\<lambda>_ _. None), im_clock = (\<lambda>_ _. 0),
      im_random = (\<lambda>_ k. if k < 200 then Some (replicate 15 (CHR 0x00) @ [char_of k]) else None),
      im_range = (\<lambda>_. rev)\<rparr>"

lemma demo_ranges_all: "ranges_all demo_runtime"
  by (simp add: ranges_all_def demo_runtime_def)

end
