(* ===== verification/InMemoryStreams.thy ===== *)
theory InMemoryStreams
  imports InMemoryModel LobServer
begin

text \<open>
  \<open>providers/inmemory/result_stream.go\<close> and \<open>lob.go\<close>: the objects behind the streams of the
  in-memory provider, as records that their methods return updated. A method takes the error
  of its context; the methods of a connection that ask the runtime repeatedly take the number
  of the call.

  A LOB identifier is drawn at random until it is unused. Nothing bounds the number of draws,
  so \<open>fresh_lob_id\<close> is a partial function and a call that never returns is \<open>None\<close>.
\<close>

section \<open>Result streams\<close>

record im_stream =
  is_fields :: "field_msg option list"
  is_tuples :: "tuple_msg option list"
  is_batchSize :: nat
  is_index :: nat
  is_closed :: bool

definition newResultStream :: "field_msg option list \<Rightarrow> tuple_msg option list \<Rightarrow> nat \<Rightarrow> im_stream" where
  "newResultStream fs tuples batchSize =
     \<lparr>is_fields = fs, is_tuples = tuples, is_batchSize = batchSize, is_index = 0, is_closed = False\<rparr>"

definition stream_Next :: "go_error option \<Rightarrow> im_stream \<Rightarrow> (tuple_batch option \<times> go_error option) \<times> im_stream" where
  "stream_Next contextErr s =
     (case contextErr of
        Some e \<Rightarrow> ((None, Some e), s)
      | None \<Rightarrow>
          if is_closed s \<or> is_index s \<ge> length (is_tuples s) then ((None, Some EOF), s)
          else
            (let last = is_index s + is_batchSize s;
                 last = (if last > length (is_tuples s) then length (is_tuples s) else last);
                 batch = \<lparr>b_fields = is_fields s,
                          b_tuples = take (last - is_index s) (drop (is_index s) (is_tuples s))\<rparr>
             in ((Some batch, None), s\<lparr>is_index := last\<rparr>)))"

definition stream_Close :: "im_stream \<Rightarrow> go_error option \<times> im_stream" where
  "stream_Close s = (None, s\<lparr>is_closed := True, is_fields := [], is_tuples := []\<rparr>)"

section \<open>LOBs\<close>

definition inMemoryMaxLobChunkBytes :: nat where "inMemoryMaxLobChunkBytes = 65536"
definition inMemoryMaxLobBytes :: nat where "inMemoryMaxLobBytes = 1048576"
definition inMemoryLobIDBytes :: nat where "inMemoryLobIDBytes = 16"

text \<open>Five minutes in nanoseconds.\<close>

definition inMemoryLobRetention :: int where "inMemoryLobRetention = 300000000000"

record in_memory_lob =
  lb_data :: bytes
  lb_expiresAt :: int

record im_lob_stream =
  il_data :: bytes
  il_offset :: "64 word"
  il_chunkSize :: nat
  il_done :: bool
  il_closed :: bool

record im_connection =
  ic_closed :: bool
  ic_lobs :: "string \<rightharpoonup> in_memory_lob"

text \<open>What a call that creates LOBs threads: the LOBs, the draws and the clock readings so far.\<close>

record lob_state =
  lo_lobs :: "string \<rightharpoonup> in_memory_lob"
  lo_draws :: nat
  lo_clocks :: nat

partial_function (option) fresh_lob_id ::
  "(nat \<Rightarrow> bytes option) \<Rightarrow> (string \<rightharpoonup> in_memory_lob) \<Rightarrow> nat \<Rightarrow> (string option \<times> nat) option" where
  "fresh_lob_id random lobs k =
     (case random k of
        None \<Rightarrow> Some (None, Suc k)
      | Some bs \<Rightarrow>
          if lobs (encodeToString bs) = None then Some (Some (encodeToString bs), Suc k)
          else fresh_lob_id random lobs (Suc k))"

declare fresh_lob_id.simps [code]

definition newLobValue ::
  "runtime \<Rightarrow> nat \<Rightarrow> value_type \<Rightarrow> bytes \<Rightarrow> lob_state \<Rightarrow> ((go_error + value) \<times> lob_state) option" where
  "newLobValue rt n vt data l =
     (if vt = VALUE_TYPE_CLOB \<and> \<not> utf8_valid data then
        Some (Inl (Status Internal (InMemoryReason ImClobNotUtf8)), l)
      else if length data > inMemoryMaxLobBytes then
        Some (Inl (Status ResourceExhausted (InMemoryReason ImLobTooLarge)), l)
      else
        (let expiresAt = im_clock rt n (lo_clocks l) + inMemoryLobRetention;
             l1 = l\<lparr>lo_clocks := Suc (lo_clocks l)\<rparr>
         in case fresh_lob_id (im_random rt n) (lo_lobs l1) (lo_draws l1) of
              None \<Rightarrow> None
            | Some (None, k) \<Rightarrow> Some (Inl (Status Internal (InMemoryReason ImLobIdentifier)), l1\<lparr>lo_draws := k\<rparr>)
            | Some (Some lobID, k) \<Rightarrow>
                Some
                  (Inr (Value (LobReference (Some
                     \<lparr>lob_id = lobID, lob_type = vt, lob_size_bytes = Some (word_of_nat (length data)),
                      lob_session_id = [], lob_expires_at = Some (expiresAt div 1000000)\<rparr>))),
                   l1\<lparr>lo_draws := k,
                      lo_lobs := (lo_lobs l1)(lobID \<mapsto> \<lparr>lb_data = data, lb_expiresAt = expiresAt\<rparr>)\<rparr>)))"

definition conn_ReadLob ::
  "runtime \<Rightarrow> nat \<Rightarrow> read_lob_request \<Rightarrow> im_connection \<Rightarrow> (go_error + im_lob_stream) \<times> im_connection" where
  "conn_ReadLob rt n req c =
     (if ic_closed c then (Inl (Status FailedPrecondition (InMemoryReason ImConnectionClosed)), c)
      else
        (case im_context rt n 0 of
           Some e \<Rightarrow> (Inl e, c)
         | None \<Rightarrow>
             (case ic_lobs c (rl_lob_id req) of
                None \<Rightarrow> (Inl (Status NotFound (InMemoryReason ImLobNotFound)), c)
              | Some lob \<Rightarrow>
                  if \<not> im_clock rt n 0 < lb_expiresAt lob then
                    (Inl (Status NotFound (InMemoryReason ImLobNotFound)),
                     c\<lparr>ic_lobs := (ic_lobs c)(rl_lob_id req := None)\<rparr>)
                  else
                    (let offset = rl_offset req; size1 = word_of_nat (length (lb_data lob)) :: 64 word in
                     if offset > size1 then (Inl (Status InvalidArgument (InMemoryReason ImLobOffset)), c)
                     else
                       (let last = (case rl_length req of
                                      Some len \<Rightarrow> if len < size1 - offset then offset + len else size1
                                    | None \<Rightarrow> size1);
                            chunkSize = (if rl_max_chunk_bytes req > 0 \<and>
                                            unat (rl_max_chunk_bytes req) < inMemoryMaxLobChunkBytes
                                         then unat (rl_max_chunk_bytes req) else inMemoryMaxLobChunkBytes)
                        in (Inr \<lparr>il_data = take (unat last - unat offset) (drop (unat offset) (lb_data lob)),
                                 il_offset = offset, il_chunkSize = chunkSize, il_done = False, il_closed = False\<rparr>,
                            c))))))"

definition conn_ReleaseLob ::
  "runtime \<Rightarrow> nat \<Rightarrow> release_lob_request \<Rightarrow> im_connection \<Rightarrow> go_error option \<times> im_connection" where
  "conn_ReleaseLob rt n req c =
     (if ic_closed c then (Some (Status FailedPrecondition (InMemoryReason ImConnectionClosed)), c)
      else
        (case im_context rt n 0 of
           Some e \<Rightarrow> (Some e, c)
         | None \<Rightarrow> (None, c\<lparr>ic_lobs := (ic_lobs c)(rel_lob_id req := None)\<rparr>)))"

definition lob_stream_Next ::
  "go_error option \<Rightarrow> im_lob_stream \<Rightarrow> (read_lob_response option \<times> go_error option) \<times> im_lob_stream" where
  "lob_stream_Next contextErr s =
     (case contextErr of
        Some e \<Rightarrow> ((None, Some e), s)
      | None \<Rightarrow>
          if il_closed s \<or> il_done s then ((None, Some EOF), s)
          else
            (let chunkLength = (if length (il_data s) > il_chunkSize s then il_chunkSize s else length (il_data s));
                 response = \<lparr>rr_offset = il_offset s, rr_data = take chunkLength (il_data s),
                             rr_end_of_read = (chunkLength = length (il_data s))\<rparr>
             in ((Some response, None),
                 s\<lparr>il_offset := il_offset s + word_of_nat chunkLength,
                   il_data := drop chunkLength (il_data s),
                   il_done := rr_end_of_read response\<rparr>)))"

definition lob_stream_Close :: "im_lob_stream \<Rightarrow> go_error option \<times> im_lob_stream" where
  "lob_stream_Close s = (None, s\<lparr>il_closed := True, il_data := []\<rparr>)"

end
