(* ===== verification/InMemoryNumbers.thy ===== *)
theory InMemoryNumbers
  imports InMemoryModel "HOL-Library.Char_ord" "HOL-Library.List_Lexorder"
begin

text \<open>
  The arithmetic of \<open>providers/inmemory/aggregate.go\<close> and the comparison of values of
  \<open>expression.go\<close>. Numbers of every protocol type become exact fractions (\<open>big.Rat\<close>, here
  \<^typ>\<open>rat\<close>), are compared and summed exactly, and are converted to the result type an
  aggregate asks for, with its range checks and with decimal texts for BIGDECIMAL.

  \<open>floatString\<close> is \<open>big.Rat.FloatString\<close> with its long division and rounding; the decimal
  texts are shown to denote the number, exactly where ten has enough factors and within half
  a unit of the last place otherwise. Reading numbers from texts and converting fractions to
  floating point are parameters of the runtime.
\<close>

section \<open>Fractions\<close>

definition aggregateNumber :: "runtime \<Rightarrow> value \<Rightarrow> im_number_err + rat" where
  "aggregateNumber rt v =
     (let parse = (\<lambda>text. case im_rat rt text of Some x \<Rightarrow> Inr x | None \<Rightarrow> Inl (InvalidNumber text)) in
      case kind_of v of
        ByteValue i \<Rightarrow> Inr (of_int i)
      | ShortValue i \<Rightarrow> Inr (of_int i)
      | IntegerValue i \<Rightarrow> Inr (of_int i)
      | LongValue i \<Rightarrow> Inr (of_int i)
      | BigintegerValue text \<Rightarrow> parse text
      | FloatValue f \<Rightarrow> parse (im_float_text rt f)
      | DoubleValue f \<Rightarrow> parse (im_double_text rt f)
      | BigdecimalValue text \<Rightarrow> parse text
      | _ \<Rightarrow> Inl NotNumeric)"

definition isNumericValue :: "value \<Rightarrow> bool" where
  "isNumericValue v \<longleftrightarrow>
     (case kind_of v of
        ByteValue _ \<Rightarrow> True | ShortValue _ \<Rightarrow> True | IntegerValue _ \<Rightarrow> True | LongValue _ \<Rightarrow> True
      | BigintegerValue _ \<Rightarrow> True | FloatValue _ \<Rightarrow> True | DoubleValue _ \<Rightarrow> True | BigdecimalValue _ \<Rightarrow> True
      | _ \<Rightarrow> False)"

text \<open>\<open>big.Rat.Cmp\<close> and \<open>compareOrdered\<close>: the sign of a comparison.\<close>

definition compareOrdered :: "'a::linorder \<Rightarrow> 'a \<Rightarrow> int" where
  "compareOrdered x y = (if x < y then - 1 else if x > y then 1 else 0)"

definition compareValues :: "runtime \<Rightarrow> value \<Rightarrow> value \<Rightarrow> im_compare_err + int" where
  "compareValues rt left right =
     (if isNumericValue left then
        if \<not> isNumericValue right then Inl NumericMismatch
        else
          bind_sum (map_error NumberInvalid (aggregateNumber rt left)) (\<lambda>x.
          bind_sum (map_error NumberInvalid (aggregateNumber rt right)) (\<lambda>y.
          Inr (compareOrdered x y)))
      else
        (case kind_of left of
           StringValue a \<Rightarrow>
             (case kind_of right of StringValue b \<Rightarrow> Inr (compareOrdered a b) | _ \<Rightarrow> Inl StringMismatch)
         | BooleanValue a \<Rightarrow>
             (case kind_of right of
                BooleanValue b \<Rightarrow> Inr (if a = b then 0 else if \<not> a \<and> b then - 1 else 1)
              | _ \<Rightarrow> Inl BooleanMismatch)
         | _ \<Rightarrow> Inl NotComparable))"

definition isNullValue :: "value option \<Rightarrow> bool" where
  "isNullValue v \<longleftrightarrow>
     (case v of None \<Rightarrow> True | Some x \<Rightarrow> (case kind_of x of NullValue _ \<Rightarrow> True | _ \<Rightarrow> False))"

section \<open>Decimal texts\<close>

definition itoa :: "int \<Rightarrow> string" where
  "itoa i = (if i < 0 then ''-'' else []) @ decimal (nat \<bar>i\<bar>)"

text \<open>The digits after the point: \<open>r\<close> with leading zeros up to \<open>prec\<close> places.\<close>

definition fraction_digits :: "nat \<Rightarrow> nat \<Rightarrow> string" where
  "fraction_digits prec r = replicate (prec - length (decimal r)) (CHR ''0'') @ decimal r"

text \<open>The whole part and the places after the point that its long division arrives at.\<close>

definition places :: "nat \<Rightarrow> nat \<Rightarrow> nat \<Rightarrow> nat \<times> nat" where
  "places n d p =
     (let q = n div d; r = n mod d * p div d; r2 = n mod d * p mod d
      in if d \<le> 2 * r2 then (if r + 1 \<ge> p then (q + 1, r + 1 - p) else (q, r + 1)) else (q, r))"

definition floatString :: "rat \<Rightarrow> nat \<Rightarrow> string" where
  "floatString x prec =
     (let (a, b) = quotient_of x in
      if b = 1 then itoa a @ (if prec > 0 then ''.'' @ replicate prec (CHR ''0'') else [])
      else
        (let (q, r) = places (nat \<bar>a\<bar>) (nat b) (10 ^ prec)
         in (if a < 0 then ''-'' else []) @ decimal q @ (if prec > 0 then ''.'' @ fraction_digits prec r else [])))"

text \<open>
  How often a prime divides the denominator, and what is left. The denominator of a fraction
  is positive, so the loops end.
\<close>

function divide_out :: "nat \<Rightarrow> nat \<Rightarrow> nat \<times> nat" where
  "divide_out p n =
     (if 1 < p \<and> 0 < n \<and> n mod p = 0 then (case divide_out p (n div p) of (k, m) \<Rightarrow> (Suc k, m)) else (0, n))"
  by pat_completeness auto
termination
  by (relation "measure snd") auto

declare divide_out.simps [simp del]

definition trimRight :: "char \<Rightarrow> string \<Rightarrow> string" where
  "trimRight c s = rev (dropWhile (\<lambda>d. d = c) (rev s))"

definition aggregateDecimalString :: "rat \<Rightarrow> type_descriptor \<Rightarrow> string" where
  "aggregateDecimalString number descriptor =
     (case td_scale descriptor of
        Some scale \<Rightarrow>
          if scale \<ge> 0 then floatString number (nat scale)
          else
            (let factor = 10 ^ nat (- scale);
                 rounded = floatString (number / of_int factor) 0
             in itoa ((if take 1 rounded = ''-'' then - int (undecimal (drop 1 rounded)) else int (undecimal rounded))
                      * factor))
      | None \<Rightarrow>
          (let (twos, odd_part) = divide_out 2 (nat (snd (quotient_of number)));
               (fives, rest) = divide_out 5 odd_part;
               precision = (if rest \<noteq> 1 then 18 else max twos fives);
               text = floatString number precision
           in if contains_char (CHR ''.'') text then trimRight (CHR ''.'') (trimRight (CHR ''0'') text) else text))"

section \<open>Results of aggregates\<close>

definition double_magnitude :: "64 word \<Rightarrow> 64 word" where
  "double_magnitude f = take_bit 63 f"

definition isInf :: "64 word \<Rightarrow> bool" where
  "isInf f \<longleftrightarrow> double_magnitude f = 0x7FF0000000000000"

text \<open>\<open>math.Abs(f) > math.MaxFloat32\<close>; the order of magnitudes is the order of the bits.\<close>

definition exceeds_float32 :: "64 word \<Rightarrow> bool" where
  "exceeds_float32 f \<longleftrightarrow>
     double_magnitude f \<le> 0x7FF0000000000000 \<and> double_magnitude f > 0x47EFFFFFE0000000"

definition isInt64 :: "int \<Rightarrow> bool" where
  "isInt64 i \<longleftrightarrow> - (2 ^ 63) \<le> i \<and> i < 2 ^ 63"

definition integral_result :: "int \<Rightarrow> value_type \<Rightarrow> im_aggregate_err + value" where
  "integral_result i typeName =
     (if typeName = VALUE_TYPE_BYTE then
        (if \<not> isInt64 i \<or> i < - 128 \<or> i > 127 then Inl (ResultOverflow VALUE_TYPE_BYTE) else Inr (byteValue i))
      else if typeName = VALUE_TYPE_SHORT then
        (if \<not> isInt64 i \<or> i < - 32768 \<or> i > 32767 then Inl (ResultOverflow VALUE_TYPE_SHORT) else Inr (shortValue i))
      else if typeName = VALUE_TYPE_INTEGER then
        (if \<not> isInt64 i \<or> i < - 2147483648 \<or> i > 2147483647 then Inl (ResultOverflow VALUE_TYPE_INTEGER)
         else Inr (integerValue i))
      else if typeName = VALUE_TYPE_LONG then
        (if \<not> isInt64 i then Inl (ResultOverflow VALUE_TYPE_LONG) else Inr (longValue i))
      else Inr (bigintegerValue (itoa i)))"

definition aggregateNumberValue ::
  "runtime \<Rightarrow> rat \<Rightarrow> type_descriptor option \<Rightarrow> im_aggregate_err + value" where
  "aggregateNumberValue rt number resultType =
     (case resultType of
        None \<Rightarrow> Inl ResultTypeRequired
      | Some d \<Rightarrow>
          (let typeName = td_type d in
           if typeName \<in> {VALUE_TYPE_BYTE, VALUE_TYPE_SHORT, VALUE_TYPE_INTEGER, VALUE_TYPE_LONG, VALUE_TYPE_BIGINTEGER}
           then
             (let (a, b) = quotient_of number in
              if b \<noteq> 1 then Inl (ResultNotIntegral a b) else integral_result a typeName)
           else if typeName = VALUE_TYPE_FLOAT then
             (let converted = im_to_double rt number in
              if isInf converted \<or> exceeds_float32 converted then Inl (ResultOverflow VALUE_TYPE_FLOAT)
              else Inr (floatValue (im_to_float rt converted)))
           else if typeName = VALUE_TYPE_DOUBLE then
             (let converted = im_to_double rt number in
              if isInf converted then Inl (ResultOverflow VALUE_TYPE_DOUBLE) else Inr (doubleValue converted))
           else if typeName = VALUE_TYPE_BIGDECIMAL then Inr (bigdecimalValue (aggregateDecimalString number d))
           else Inl (ResultNotNumeric typeName)))"

section \<open>What decimal texts denote\<close>

text \<open>The number a text of digits, at most one point and perhaps a sign denotes.\<close>

definition digits_value :: "string \<Rightarrow> rat" where
  "digits_value s =
     (let w = takeWhile (\<lambda>c. c \<noteq> CHR ''.'') s; f = drop (Suc (length w)) s
      in of_nat (undecimal (w @ f)) / 10 ^ length f)"

definition text_value :: "string \<Rightarrow> rat" where
  "text_value s = (if take 1 s = ''-'' then - digits_value (drop 1 s) else digits_value s)"

lemma undecimal_Cons_from: "undecimal (c # s) = foldl (\<lambda>a c. 10 * a + (of_char c - 48)) (of_char c - 48) s"
  by (simp add: undecimal_def)

lemma undecimal_from: "foldl (\<lambda>a c. 10 * a + (of_char c - 48)) n s = n * 10 ^ length s + undecimal s"
proof (induction s arbitrary: n)
  case Nil
  show ?case by (simp add: undecimal_def)
next
  case (Cons c s)
  have "foldl (\<lambda>a c. 10 * a + (of_char c - 48)) n (c # s) =
      foldl (\<lambda>a c. 10 * a + (of_char c - 48)) (10 * n + (of_char c - 48)) s"
    by simp
  also have "\<dots> = (10 * n + (of_char c - 48)) * 10 ^ length s + undecimal s" by (rule Cons.IH)
  also have "\<dots> = n * 10 ^ length (c # s) + undecimal (c # s)"
    unfolding undecimal_Cons_from Cons.IH by (simp add: algebra_simps)
  finally show ?case .
qed

lemma undecimal_append: "undecimal (s @ t) = undecimal s * 10 ^ length t + undecimal t"
proof -
  have "undecimal (s @ t) = foldl (\<lambda>a c. 10 * a + (of_char c - 48)) (undecimal s) t"
    unfolding undecimal_def by (rule foldl_append)
  then show ?thesis by (simp only: undecimal_from)
qed

lemma undecimal_zeros [simp]: "undecimal (replicate k (CHR ''0'')) = 0"
proof (induction k)
  case (Suc k)
  have "undecimal (replicate (Suc k) (CHR ''0'')) = 0 * 10 ^ k + undecimal (replicate k (CHR ''0''))"
    unfolding replicate_Suc undecimal_Cons_from undecimal_from by simp
  with Suc show ?case by simp
qed (simp add: undecimal_def)

lemma decimal_length: "0 < k \<Longrightarrow> n < 10 ^ k \<Longrightarrow> length (decimal n) \<le> k"
proof (induction n arbitrary: k rule: decimal.induct)
  case (1 n)
  show ?case
  proof (cases "n < 10")
    case True
    with 1 show ?thesis by (subst decimal.simps) simp
  next
    case False
    with 1 obtain j where k: "k = Suc j" "0 < j" by (cases k; cases "k - 1") auto
    with 1(3) have "n div 10 < 10 ^ j" by (simp add: div_less_iff_less_mult mult.commute)
    with 1(1) False k have "length (decimal (n div 10)) \<le> j" by simp
    with False k show ?thesis by (subst decimal.simps) simp
  qed
qed

lemma fraction_digits_simps:
  assumes "0 < prec" and "r < 10 ^ prec"
  shows "length (fraction_digits prec r) = prec" and "undecimal (fraction_digits prec r) = r"
  using decimal_length [OF assms] by (simp_all add: fraction_digits_def undecimal_append)

lemma no_point: "CHR ''.'' \<notin> set (decimal n)" "CHR ''-'' \<notin> set (decimal n)"
  using decimal_digits [of "CHR ''.''" n] decimal_digits [of "CHR ''-''" n] by auto

lemma no_point_fraction: "CHR ''.'' \<notin> set (fraction_digits prec r)"
  using no_point by (auto simp: fraction_digits_def)

lemma takeWhile_point:
  assumes "CHR ''.'' \<notin> set w"
  shows "takeWhile (\<lambda>c. c \<noteq> CHR ''.'') w = w" and "takeWhile (\<lambda>c. c \<noteq> CHR ''.'') (w @ CHR ''.'' # f) = w"
proof -
  from assms have "c \<in> set w \<Longrightarrow> c \<noteq> CHR ''.''" for c by blast
  then show "takeWhile (\<lambda>c. c \<noteq> CHR ''.'') w = w" "takeWhile (\<lambda>c. c \<noteq> CHR ''.'') (w @ CHR ''.'' # f) = w"
    by simp_all
qed

lemma digits_value_simps:
  assumes "CHR ''.'' \<notin> set w"
  shows "digits_value w = of_nat (undecimal w)"
    and "digits_value (w @ CHR ''.'' # f) = of_nat (undecimal (w @ f)) / 10 ^ length f"
  unfolding digits_value_def Let_def takeWhile_point [OF assms] by simp_all

lemma text_value_sign:
  assumes "CHR ''-'' \<notin> set t"
  shows "text_value ((if neg then ''-'' else []) @ t) = (if neg then - 1 else 1) * digits_value t"
  using assms by (cases t) (auto simp: text_value_def)

lemma itoa_value: "text_value (itoa i) = of_int i"
  unfolding itoa_def text_value_sign [OF no_point(2)]
  by (simp add: digits_value_simps no_point)

text \<open>\<open>n * p / d\<close> rounded to a whole number, halves up.\<close>

definition rounded :: "nat \<Rightarrow> nat \<Rightarrow> nat \<Rightarrow> nat" where
  "rounded n d p = n * p div d + (if d \<le> 2 * (n * p mod d) then 1 else 0)"

lemma rounded_error:
  assumes "0 < d" and "0 < p"
  shows "\<bar>of_nat (rounded n d p) / of_nat p - of_nat n / (of_nat d :: rat)\<bar> \<le> 1 / (2 * of_nat p)"
proof -
  define m where "m = n * p mod d"
  have split: "n * p = (n * p div d) * d + m" by (simp add: m_def)
  have "m < d" using assms(1) by (simp add: m_def)
  have "\<bar>2 * (int (rounded n d p) * int d - int (n * p))\<bar> \<le> int d"
  proof (cases "d \<le> 2 * m")
    case True
    then have "rounded n d p = n * p div d + 1" by (simp add: rounded_def m_def)
    then have "int (rounded n d p) * int d - int (n * p) = int d - int m"
      using split by (simp add: algebra_simps flip: of_nat_mult of_nat_add)
    with True \<open>m < d\<close> show ?thesis by simp
  next
    case False
    then have "rounded n d p = n * p div d" by (simp add: rounded_def m_def)
    then have "int (rounded n d p) * int d - int (n * p) = - int m"
      using split by (simp add: algebra_simps flip: of_nat_mult of_nat_add)
    with False show ?thesis by simp
  qed
  then have "\<bar>of_int (2 * (int (rounded n d p) * int d - int (n * p)))\<bar> \<le> (of_int (int d) :: rat)"
    by (simp only: of_int_abs [symmetric] of_int_le_iff)
  then have "\<bar>2 * (of_nat (rounded n d p) * of_nat d - of_nat n * of_nat p)\<bar> \<le> (of_nat d :: rat)"
    by simp
  moreover have "of_nat (rounded n d p) / of_nat p - of_nat n / (of_nat d :: rat) =
      2 * (of_nat (rounded n d p) * of_nat d - of_nat n * of_nat p) / (2 * of_nat p * of_nat d)"
    using assms by (simp add: field_simps)
  ultimately show ?thesis
    using assms by (simp add: abs_mult) (simp add: field_simps)
qed

lemma rounded_exact: "0 < d \<Longrightarrow> 0 < p \<Longrightarrow> d dvd p \<Longrightarrow> of_nat (rounded n d p) / of_nat p = (of_nat n / of_nat d :: rat)"
  by (auto simp: rounded_def elim!: dvdE)

lemma places_rounded:
  assumes "0 < d" and "0 < p"
  shows "fst (places n d p) * p + snd (places n d p) = rounded n d p" and "snd (places n d p) < p"
proof -
  define q m where "q = n div d" and "m = n mod d"
  have "n = q * d + m" by (simp add: q_def m_def)
  then have n: "n * p = q * p * d + m * p" by (metis add_mult_distrib mult.assoc mult.commute)
  have div: "n * p div d = q * p + m * p div d" and mod: "n * p mod d = m * p mod d"
    unfolding n using assms(1) by simp_all
  have r: "m * p div d < p" using assms by (simp add: m_def div_less_iff_less_mult)
  show "fst (places n d p) * p + snd (places n d p) = rounded n d p"
    using r by (simp add: places_def rounded_def div mod Let_def flip: q_def m_def)
  show "snd (places n d p) < p"
    using r assms by (simp add: places_def Let_def flip: m_def)
qed

lemma floatString_eq:
  assumes "quotient_of x = (a, b)"
  shows "floatString x prec =
    (if b = 1 then itoa a @ (if prec > 0 then ''.'' @ replicate prec (CHR ''0'') else [])
     else (if a < 0 then ''-'' else []) @ decimal (fst (places (nat \<bar>a\<bar>) (nat b) (10 ^ prec))) @
       (if prec > 0 then ''.'' @ fraction_digits prec (snd (places (nat \<bar>a\<bar>) (nat b) (10 ^ prec))) else []))"
  by (simp add: floatString_def assms case_prod_beta)

lemma floatString_shape:
  assumes "quotient_of x = (a, b)"
  shows "\<exists>q f. floatString x prec = (if a < 0 then ''-'' else []) @ decimal q @ (if prec > 0 then ''.'' @ f else []) \<and>
    (0 < prec \<longrightarrow> length f = prec \<and> CHR ''.'' \<notin> set f \<and> CHR ''-'' \<notin> set f) \<and>
    q * 10 ^ prec + (if prec > 0 then undecimal f else 0) = rounded (nat \<bar>a\<bar>) (nat b) (10 ^ prec)"
proof (cases "b = 1")
  case True
  then show ?thesis
    by (intro exI [of _ "nat \<bar>a\<bar>"] exI [of _ "replicate prec (CHR ''0'')"])
      (auto simp: floatString_eq [OF assms] itoa_def rounded_def)
next
  case False
  let ?pl = "places (nat \<bar>a\<bar>) (nat b) (10 ^ prec)"
  have "0 < nat b" using quotient_of_denom_pos [OF assms] by simp
  note pl = places_rounded [OF this, of "10 ^ prec" "nat \<bar>a\<bar>"]
  have "CHR ''-'' \<notin> set (fraction_digits prec r)" for r
    using no_point by (auto simp: fraction_digits_def)
  moreover have "snd ?pl = 0" if "prec = 0" using that pl(2) by simp
  ultimately show ?thesis
    using False pl no_point_fraction fraction_digits_simps [of prec "snd ?pl"]
    by (intro exI [of _ "fst ?pl"] exI [of _ "fraction_digits prec (snd ?pl)"])
      (auto simp: floatString_eq [OF assms])
qed

lemma floatString_value:
  assumes "quotient_of x = (a, b)"
  shows "text_value (floatString x prec) =
    (if a < 0 then - 1 else 1) * (of_nat (rounded (nat \<bar>a\<bar>) (nat b) (10 ^ prec)) / 10 ^ prec)"
proof -
  obtain q f where s: "floatString x prec = (if a < 0 then ''-'' else []) @ decimal q @ (if prec > 0 then ''.'' @ f else [])"
    and f: "0 < prec \<longrightarrow> length f = prec \<and> CHR ''.'' \<notin> set f \<and> CHR ''-'' \<notin> set f"
    and r: "q * 10 ^ prec + (if prec > 0 then undecimal f else 0) = rounded (nat \<bar>a\<bar>) (nat b) (10 ^ prec)"
    using floatString_shape [OF assms] by blast
  have "CHR ''-'' \<notin> set (decimal q @ (if prec > 0 then ''.'' @ f else []))" using f no_point by auto
  then have "text_value (floatString x prec) =
      (if a < 0 then - 1 else 1) * digits_value (decimal q @ (if prec > 0 then ''.'' @ f else []))"
    unfolding s by (rule text_value_sign)
  moreover have "digits_value (decimal q @ (if prec > 0 then ''.'' @ f else [])) =
      of_nat (rounded (nat \<bar>a\<bar>) (nat b) (10 ^ prec)) / 10 ^ prec"
    using f r by (simp add: digits_value_simps no_point undecimal_append flip: r)
  ultimately show ?thesis by simp
qed

lemma quotient_of_abs:
  assumes "quotient_of x = (a, b)"
  shows "x = (if a < 0 then - 1 else 1) * (of_nat (nat \<bar>a\<bar>) / of_nat (nat b))"
proof -
  have "x = of_int a / of_int b" by (rule quotient_of_div [OF assms])
  moreover have "0 < b" by (rule quotient_of_denom_pos [OF assms])
  ultimately show ?thesis by (simp add: of_nat_nat)
qed

text \<open>The text denotes the number up to half a unit of the last place, and exactly if it can.\<close>

lemma floatString_error: "\<bar>text_value (floatString x prec) - x\<bar> \<le> 1 / (2 * 10 ^ prec)"
proof -
  obtain a b where q: "quotient_of x = (a, b)" by fastforce
  have "0 < nat b" using quotient_of_denom_pos [OF q] by simp
  from rounded_error [OF this, of "10 ^ prec" "nat \<bar>a\<bar>"]
  have "\<bar>of_nat (rounded (nat \<bar>a\<bar>) (nat b) (10 ^ prec)) / 10 ^ prec - of_nat (nat \<bar>a\<bar>) / (of_nat (nat b) :: rat)\<bar>
      \<le> 1 / (2 * 10 ^ prec)" by simp
  moreover have "text_value (floatString x prec) - x = (if a < 0 then - 1 else 1) *
      (of_nat (rounded (nat \<bar>a\<bar>) (nat b) (10 ^ prec)) / 10 ^ prec - of_nat (nat \<bar>a\<bar>) / of_nat (nat b))"
    unfolding floatString_value [OF q] using quotient_of_abs [OF q] by (simp add: algebra_simps)
  moreover have "\<bar>(if a < 0 then - 1 else 1) * y\<bar> = \<bar>y\<bar>" for y :: rat by simp
  ultimately show ?thesis by simp
qed

lemma floatString_exact:
  assumes "nat (snd (quotient_of x)) dvd 10 ^ prec"
  shows "text_value (floatString x prec) = x"
proof -
  obtain a b where q: "quotient_of x = (a, b)" by fastforce
  have "0 < nat b" using quotient_of_denom_pos [OF q] by simp
  with assms q have "of_nat (rounded (nat \<bar>a\<bar>) (nat b) (10 ^ prec)) / 10 ^ prec = (of_nat (nat \<bar>a\<bar>) / of_nat (nat b) :: rat)"
    using rounded_exact [of "nat b" "10 ^ prec" "nat \<bar>a\<bar>"] by simp
  then show ?thesis
    unfolding floatString_value [OF q] using quotient_of_abs [OF q] by simp
qed

lemma divide_out_stop: "\<not> (1 < p \<and> 0 < n \<and> n mod p = 0) \<Longrightarrow> divide_out p n = (0, n)"
  by (subst divide_out.simps) (simp only: if_False)

lemma divide_out_step:
  "1 < p \<Longrightarrow> 0 < n \<Longrightarrow> n mod p = 0 \<Longrightarrow>
   divide_out p n = (Suc (fst (divide_out p (n div p))), snd (divide_out p (n div p)))"
  by (subst divide_out.simps) (simp add: case_prod_beta)

lemma divide_out_pow: "n = p ^ fst (divide_out p n) * snd (divide_out p n)"
proof (induction p n rule: divide_out.induct)
  case (1 p n)
  show ?case
  proof (cases "1 < p \<and> 0 < n \<and> n mod p = 0")
    case True
    then have d: "divide_out p n = (Suc (fst (divide_out p (n div p))), snd (divide_out p (n div p)))"
      by (simp add: divide_out_step)
    have "n = p * (n div p)" using True by auto
    also have "\<dots> = p * (p ^ fst (divide_out p (n div p)) * snd (divide_out p (n div p)))"
      using 1 [OF True] by simp
    finally show ?thesis by (simp add: d mult.assoc)
  next
    case False
    then show ?thesis by (simp add: divide_out_stop)
  qed
qed

lemma divide_out_rest: "1 < p \<Longrightarrow> 0 < n \<Longrightarrow> 0 < snd (divide_out p n) \<and> \<not> p dvd snd (divide_out p n)"
proof (induction p n rule: divide_out.induct)
  case (1 p n)
  show ?case
  proof (cases "n mod p = 0")
    case True
    with 1 have "0 < n div p" by (auto simp: div_greater_zero_iff dvd_imp_le)
    with 1 True show ?thesis by (simp add: divide_out_step)
  next
    case False
    with 1 show ?thesis by (simp add: divide_out_stop mod_eq_0_iff_dvd)
  qed
qed

lemma trimRight_append: "t \<noteq> [] \<Longrightarrow> last t \<noteq> c \<Longrightarrow> trimRight c (s @ t) = s @ t"
  by (cases t rule: rev_cases) (auto simp: trimRight_def)

lemma trimRight_zeros: "\<exists>k. f = trimRight c f @ replicate k c"
proof -
  have "rev f = takeWhile (\<lambda>d. d = c) (rev f) @ dropWhile (\<lambda>d. d = c) (rev f)" by simp
  then have "f = trimRight c f @ rev (takeWhile (\<lambda>d. d = c) (rev f))"
    unfolding trimRight_def by (metis rev_append rev_rev_ident)
  moreover have "takeWhile (\<lambda>d. d = c) ys = replicate (length (takeWhile (\<lambda>d. d = c) ys)) c" for ys
    by (induction ys) auto
  ultimately show ?thesis by (metis rev_replicate)
qed

lemma trimRight_point:
  "c \<noteq> d \<Longrightarrow> trimRight c (w @ d # f) = w @ d # trimRight c f"
  unfolding trimRight_def by (simp add: dropWhile_append)

lemma trimmed_value:
  assumes w: "CHR ''.'' \<notin> set w" and f: "CHR ''.'' \<notin> set f"
  shows "digits_value (trimRight (CHR ''.'') (trimRight (CHR ''0'') (w @ CHR ''.'' # f))) =
    digits_value (w @ CHR ''.'' # f)"
proof -
  let ?g = "trimRight (CHR ''0'') f"
  obtain k where k: "f = ?g @ replicate k (CHR ''0'')" using trimRight_zeros by blast
  have point: "trimRight (CHR ''0'') (w @ CHR ''.'' # f) = w @ CHR ''.'' # ?g" by (simp add: trimRight_point)
  have "of_nat (undecimal (w @ f)) / 10 ^ length f =
      (of_nat (undecimal (w @ ?g)) / 10 ^ length ?g :: rat)"
    by (subst (1 2) k) (simp add: undecimal_append power_add field_simps)
  then have val: "digits_value (w @ CHR ''.'' # f) = digits_value (w @ CHR ''.'' # ?g)"
    by (simp add: digits_value_simps w)
  show ?thesis
  proof (cases "?g = []")
    case True
    have "trimRight (CHR ''.'') (w @ ''.'') = w"
      using w by (cases w rule: rev_cases) (auto simp: trimRight_def)
    with True show ?thesis by (simp add: val point digits_value_simps w)
  next
    case False
    moreover have "CHR ''.'' \<notin> set ?g" using f k by (metis UnCI set_append)
    ultimately have "trimRight (CHR ''.'') ((w @ ''.'') @ ?g) = (w @ ''.'') @ ?g"
      by (intro trimRight_append) (metis last_in_set)+
    then show ?thesis by (simp add: val point)
  qed
qed

lemma point_in_text: "CHR ''.'' \<in> set (floatString x prec) \<longleftrightarrow> 0 < prec"
proof -
  obtain a b where q: "quotient_of x = (a, b)" by fastforce
  from floatString_shape [OF q, of prec] show ?thesis using no_point by auto
qed

lemma trimmed_text_value:
  assumes "0 < prec"
  shows "text_value (trimRight (CHR ''.'') (trimRight (CHR ''0'') (floatString x prec))) =
    text_value (floatString x prec)"
proof -
  obtain a b where q: "quotient_of x = (a, b)" by fastforce
  let ?s = "if a < 0 then ''-'' else []"
  from floatString_shape [OF q, of prec] assms obtain n f where
    fs: "floatString x prec = ?s @ decimal n @ ''.'' @ f" and f: "CHR ''.'' \<notin> set f" "CHR ''-'' \<notin> set f"
    by auto
  let ?t = "trimRight (CHR ''.'') (trimRight (CHR ''0'') (decimal n @ CHR ''.'' # f))"
  have pre: "trimRight c (u @ v) = u @ trimRight c v" if "\<exists>d\<in>set v. d \<noteq> c" for c u and v :: string
    using that by (auto simp: trimRight_def dropWhile_append)
  have "decimal n \<noteq> []" by (subst decimal.simps) simp
  then obtain d where d: "d \<in> set (decimal n)" by (cases "decimal n") auto
  have "trimRight (CHR ''0'') (floatString x prec) = ?s @ trimRight (CHR ''0'') (decimal n @ CHR ''.'' # f)"
    unfolding fs by (subst pre) auto
  moreover have "trimRight (CHR ''.'') (?s @ trimRight (CHR ''0'') (decimal n @ CHR ''.'' # f)) = ?s @ ?t"
    using d no_point(1) [of n] by (subst pre) (auto simp: trimRight_point intro!: bexI [of _ d])
  ultimately have trimmed: "trimRight (CHR ''.'') (trimRight (CHR ''0'') (floatString x prec)) = ?s @ ?t"
    by (simp only:)
  have sub: "set (trimRight c v) \<subseteq> set v" for c and v :: string
    by (auto simp: trimRight_def dest: set_dropWhileD)
  have "CHR ''-'' \<notin> set (decimal n @ CHR ''.'' # f)" using f no_point(2) by simp
  moreover from this have "CHR ''-'' \<notin> set ?t" using sub by blast
  ultimately show ?thesis
    unfolding trimmed using trimmed_value [OF no_point(1) f(1)] text_value_sign [of ?t] text_value_sign [of "decimal n @ CHR ''.'' # f"]
    by (simp add: fs)
qed

lemma terminating_denominator:
  assumes "0 < b" and "divide_out 2 b = (twos, m)" and "divide_out 5 m = (fives, rest)"
  shows "(\<exists>k. b dvd 10 ^ k) \<longleftrightarrow> rest = 1" and "rest = 1 \<Longrightarrow> b dvd 10 ^ max twos fives"
proof -
  have b: "b = 2 ^ twos * m" and m: "m = 5 ^ fives * rest"
    using divide_out_pow [of b 2] divide_out_pow [of m 5] assms by simp_all
  have m0: "0 < m" "\<not> 2 dvd m" using divide_out_rest [of 2 b] assms by simp_all
  have rest: "0 < rest" "\<not> 5 dvd rest" using divide_out_rest [of 5 m] assms m0 by simp_all
  have "\<not> 2 dvd rest" using m0(2) unfolding m by auto
  then have "coprime rest 2" by simp
  moreover have "coprime rest 5"
  proof -
    from rest(2) have "rest mod 5 \<noteq> 0" by (simp add: mod_eq_0_iff_dvd)
    moreover have "rest mod 5 < 5" by simp
    ultimately have "rest mod 5 \<in> {1, 2, 3, 4}" by auto
    then have "gcd 5 (rest mod 5) = 1" by (auto simp: gcd_non_0_nat)
    then show ?thesis unfolding coprime_iff_gcd_eq_1 by (subst gcd_red_nat)
  qed
  ultimately have coprime: "coprime rest 10"
    using coprime_mult_right_iff [of rest 2 5] by simp
  show max: "rest = 1 \<Longrightarrow> b dvd 10 ^ max twos fives"
  proof -
    assume "rest = 1"
    then have "b = 2 ^ twos * 5 ^ fives" by (simp add: b m)
    moreover have "(2 :: nat) ^ twos * 5 ^ fives dvd 2 ^ max twos fives * 5 ^ max twos fives"
      by (intro mult_dvd_mono le_imp_power_dvd) simp_all
    ultimately show ?thesis by (simp flip: power_mult_distrib)
  qed
  show "(\<exists>k. b dvd 10 ^ k) \<longleftrightarrow> rest = 1"
  proof
    assume "\<exists>k. b dvd 10 ^ k"
    then obtain k where "b dvd 10 ^ k" ..
    then have "rest dvd 10 ^ k" unfolding b m by (metis dvd_mult_right mult.assoc)
    moreover have "coprime rest (10 ^ k)" using coprime by simp
    ultimately show "rest = 1" by (metis coprime_common_divisor_nat dvd_refl)
  qed (use max in blast)
qed

lemma rounded_int:
  fixes y :: rat
  shows "of_int (if take 1 (floatString y 0) = ''-'' then - int (undecimal (drop 1 (floatString y 0)))
           else int (undecimal (floatString y 0))) = text_value (floatString y 0)"
proof -
  have "CHR ''.'' \<notin> set (floatString y 0)" by (simp add: point_in_text)
  moreover from this have "CHR ''.'' \<notin> set (drop 1 (floatString y 0))" by (meson in_set_dropD)
  ultimately show ?thesis by (simp add: text_value_def digits_value_simps)
qed

lemma scaled_text:
  assumes "td_scale d = Some scale"
  shows "\<bar>text_value (aggregateDecimalString x d) - x\<bar> \<le>
    (if scale \<ge> 0 then 1 / (2 * 10 ^ nat scale) else 10 ^ nat (- scale) / 2)"
proof (cases "scale \<ge> 0")
  case True
  with assms show ?thesis using floatString_error [of x "nat scale"] by (simp add: aggregateDecimalString_def)
next
  case False
  let ?f = "10 ^ nat (- scale) :: rat"
  define y where "y = x / ?f"
  have "\<bar>text_value (floatString y 0) - y\<bar> \<le> 1 / 2" using floatString_error [of y 0] by simp
  then have "\<bar>text_value (floatString y 0) - y\<bar> * ?f \<le> 1 / 2 * ?f" by (rule mult_right_mono) simp
  then have "\<bar>(text_value (floatString y 0) - y) * ?f\<bar> \<le> ?f / 2" by (simp add: abs_mult)
  moreover have "y * ?f = x" by (simp add: y_def)
  moreover have "text_value (aggregateDecimalString x d) = text_value (floatString y 0) * ?f"
    using assms False
    unfolding aggregateDecimalString_def
    by (simp add: Let_def itoa_value rounded_int [of y, symmetric] flip: y_def)
  ultimately show ?thesis using False by (simp add: left_diff_distrib)
qed

lemma unscaled_text:
  assumes "td_scale d = None"
  shows "if \<exists>k. nat (snd (quotient_of x)) dvd 10 ^ k
    then text_value (aggregateDecimalString x d) = x
    else \<bar>text_value (aggregateDecimalString x d) - x\<bar> \<le> 1 / (2 * 10 ^ 18)"
proof -
  let ?b = "nat (snd (quotient_of x))"
  obtain twos m where t: "divide_out 2 ?b = (twos, m)" by fastforce
  obtain fives rest where v: "divide_out 5 m = (fives, rest)" by fastforce
  define prec where "prec = (if rest \<noteq> 1 then 18 else max twos fives)"
  have "0 < ?b" using quotient_of_denom_pos [of x "fst (quotient_of x)" "snd (quotient_of x)"] by simp
  note rest = terminating_denominator [OF this t v]
  have "aggregateDecimalString x d =
      (if CHR ''.'' \<in> set (floatString x prec)
       then trimRight (CHR ''.'') (trimRight (CHR ''0'') (floatString x prec)) else floatString x prec)"
    using assms by (simp add: aggregateDecimalString_def t v Let_def prec_def)
  then have "text_value (aggregateDecimalString x d) = text_value (floatString x prec)"
    using trimmed_text_value [of prec x] by (simp add: point_in_text)
  then show ?thesis
    using rest floatString_exact [of x prec] floatString_error [of x prec]
    by (cases "rest = 1") (simp_all add: prec_def)
qed

text \<open>
  C35: The decimal text of a SUM or AVG denotes the exact fraction whenever ten has a power its
  denominator divides and no scale is asked for; otherwise it is off by at most half a unit
  of the last place: of the eighteenth place without a scale, and of the requested scale
  with one, negative scales included.
\<close>

theorem decimal_results_accurate:
  "case td_scale d of
     None \<Rightarrow>
       (if \<exists>k. nat (snd (quotient_of x)) dvd 10 ^ k
        then text_value (aggregateDecimalString x d) = x
        else \<bar>text_value (aggregateDecimalString x d) - x\<bar> \<le> 1 / (2 * 10 ^ 18))
   | Some scale \<Rightarrow>
       \<bar>text_value (aggregateDecimalString x d) - x\<bar> \<le>
         (if scale \<ge> 0 then 1 / (2 * 10 ^ nat scale) else 10 ^ nat (- scale) / 2)"
  using scaled_text [of d _ x] unscaled_text [of d x] by (cases "td_scale d") simp_all

section \<open>Ranges\<close>

text \<open>The integer a value of an integral type holds, if it is in the range of the type.\<close>

definition integral_value :: "value \<Rightarrow> int option" where
  "integral_value v =
     (case kind_of v of
        ByteValue i \<Rightarrow> if - 128 \<le> i \<and> i < 128 then Some i else None
      | ShortValue i \<Rightarrow> if - 32768 \<le> i \<and> i < 32768 then Some i else None
      | IntegerValue i \<Rightarrow> if - (2 ^ 31) \<le> i \<and> i < 2 ^ 31 then Some i else None
      | LongValue i \<Rightarrow> if - (2 ^ 63) \<le> i \<and> i < 2 ^ 63 then Some i else None
      | BigintegerValue s \<Rightarrow> (case quotient_of (text_value s) of (a, b) \<Rightarrow> Some a)
      | _ \<Rightarrow> None)"

lemma aggregateNumberValue_typed:
  "aggregateNumberValue rt x (Some d) = Inr v \<Longrightarrow> actual_type (kind_of v) = Inr (td_type d) \<and> array_parts (kind_of v) = None"
  by (auto simp: aggregateNumberValue_def integral_result_def value_defs kind_class_defs Let_def
      split: if_splits prod.splits)

lemma integral_result_exact:
  "integral_result a t = Inr v \<Longrightarrow>
   t \<in> {VALUE_TYPE_BYTE, VALUE_TYPE_SHORT, VALUE_TYPE_INTEGER, VALUE_TYPE_LONG, VALUE_TYPE_BIGINTEGER} \<Longrightarrow>
   integral_value v = Some a"
  by (auto simp: integral_result_def integral_value_def value_defs isInt64_def itoa_value split: if_splits)

end
