(* ===== verification/InMemoryExpressions.thy ===== *)
theory InMemoryExpressions
  imports InMemoryNumbers
begin

text \<open>
  \<open>providers/inmemory/expression.go\<close> and the evaluation of aggregates of \<open>aggregate.go\<close>.
  Evaluation has no effects, so an operand that the code evaluates lazily appears as its
  result, which the operator looks at in the order of the code and only as far as the code
  does; \<open>evaluateExpressionInContext\<close> is the recursion that ties the operators together.
\<close>

record expression_context =
  cx_row :: "entity_row option"
  cx_rows :: "entity_row list"
  cx_grouped :: bool

type_synonym evaluated = "im_eval_err + value"

section \<open>Types of values\<close>

definition valueType :: "value option \<Rightarrow> im_type_err + value_type" where
  "valueType v =
     (case v of
        None \<Rightarrow> Inl TypeValueRequired
      | Some x \<Rightarrow>
          (case kind_of x of
             StringValue _ \<Rightarrow> Inr VALUE_TYPE_STRING
           | VarbinaryValue _ \<Rightarrow> Inr VALUE_TYPE_VARBINARY
           | CharValue _ \<Rightarrow> Inr VALUE_TYPE_CHAR
           | BooleanValue _ \<Rightarrow> Inr VALUE_TYPE_BOOLEAN
           | ByteValue _ \<Rightarrow> Inr VALUE_TYPE_BYTE
           | ShortValue _ \<Rightarrow> Inr VALUE_TYPE_SHORT
           | IntegerValue _ \<Rightarrow> Inr VALUE_TYPE_INTEGER
           | LongValue _ \<Rightarrow> Inr VALUE_TYPE_LONG
           | BigintegerValue _ \<Rightarrow> Inr VALUE_TYPE_BIGINTEGER
           | FloatValue _ \<Rightarrow> Inr VALUE_TYPE_FLOAT
           | DoubleValue _ \<Rightarrow> Inr VALUE_TYPE_DOUBLE
           | BigdecimalValue _ \<Rightarrow> Inr VALUE_TYPE_BIGDECIMAL
           | DateValue _ \<Rightarrow> Inr VALUE_TYPE_DATE
           | TimeValue _ \<Rightarrow> Inr VALUE_TYPE_TIME
           | TimestampValue _ \<Rightarrow> Inr VALUE_TYPE_TIMESTAMP
           | BlobValue _ \<Rightarrow> Inr VALUE_TYPE_BLOB
           | ClobValue _ \<Rightarrow> Inr VALUE_TYPE_CLOB
           | GeometryValue _ \<Rightarrow> Inr VALUE_TYPE_GEOMETRY
           | GeometryWithCrs _ \<Rightarrow> Inr VALUE_TYPE_GEOMETRY
           | GeographyValue _ \<Rightarrow> Inr VALUE_TYPE_GEOGRAPHY
           | GeographyWithCrs _ \<Rightarrow> Inr VALUE_TYPE_GEOGRAPHY
           | JsonValue _ \<Rightarrow> Inr VALUE_TYPE_JSON
           | XmlValue _ \<Rightarrow> Inr VALUE_TYPE_XML
           | ArrayValueNil \<Rightarrow> Inr VALUE_TYPE_ARRAY
           | ArrayValue _ _ \<Rightarrow> Inr VALUE_TYPE_ARRAY
           | NullValue _ \<Rightarrow> Inl TypeNullLiteral
           | LobReference _ \<Rightarrow> Inl TypeValueKindRequired
           | KindUnset \<Rightarrow> Inl TypeValueKindRequired))"

definition expressionValueType ::
  "runtime \<Rightarrow> entity_definition \<Rightarrow> expression option \<Rightarrow> im_type_err + value_type" where
  "expressionValueType rt entity expression =
     (case expression of
        None \<Rightarrow> Inl TypeExpressionRequired
      | Some e \<Rightarrow>
          (case e of
             ExprField None \<Rightarrow> Inl TypeFieldRequired
           | ExprField (Some name) \<Rightarrow>
               (case fieldByName rt entity name of
                  None \<Rightarrow> Inl (TypeUnknownField (ed_name entity) name)
                | Some f \<Rightarrow> Inr (ef_valueType f))
           | ExprLiteralNil \<Rightarrow> Inl TypeLiteralRequired
           | ExprLiteral None _ \<Rightarrow> Inl TypeLiteralRequired
           | ExprLiteral (Some v) (Some declared) \<Rightarrow> Inr (td_type declared)
           | ExprLiteral (Some v) None \<Rightarrow> valueType (Some v)
           | ExprComparisonNil \<Rightarrow> Inr VALUE_TYPE_BOOLEAN
           | ExprComparison _ _ _ \<Rightarrow> Inr VALUE_TYPE_BOOLEAN
           | ExprLogicalNil \<Rightarrow> Inr VALUE_TYPE_BOOLEAN
           | ExprLogical _ _ \<Rightarrow> Inr VALUE_TYPE_BOOLEAN
           | ExprNullPredicateNil \<Rightarrow> Inr VALUE_TYPE_BOOLEAN
           | ExprNullPredicate _ _ \<Rightarrow> Inr VALUE_TYPE_BOOLEAN
           | ExprFunctionCallNil \<Rightarrow> Inl TypeFunctionUnsupported
           | ExprFunctionCall _ _ \<Rightarrow> Inl TypeFunctionUnsupported
           | ExprAggregateNil \<Rightarrow> Inl TypeResultRequired
           | ExprAggregate _ _ _ None \<Rightarrow> Inl TypeResultRequired
           | ExprAggregate _ _ _ (Some result) \<Rightarrow> Inr (td_type result)
           | _ \<Rightarrow> Inl TypeKindRequired))"

definition expressionTypeDescriptor ::
  "runtime \<Rightarrow> entity_definition \<Rightarrow> expression option \<Rightarrow> type_descriptor option" where
  "expressionTypeDescriptor rt entity expression =
     (case expression of
        Some (ExprField name) \<Rightarrow>
          (case fieldByName rt entity (case name of None \<Rightarrow> [] | Some n \<Rightarrow> n) of
             Some f \<Rightarrow> ef_typeDescriptor f
           | None \<Rightarrow> None)
      | Some (ExprLiteral v declared) \<Rightarrow>
          (case declared of
             Some d \<Rightarrow> Some d
           | None \<Rightarrow>
               (case v of
                  Some (Value (ArrayValue elementType _)) \<Rightarrow>
                    Some (TypeDescriptor VALUE_TYPE_ARRAY elementType None None)
                | _ \<Rightarrow> None))
      | Some (ExprAggregate _ _ _ (Some result)) \<Rightarrow> Some result
      | _ \<Rightarrow> None)"

section \<open>Operators\<close>

definition evaluateComparison :: "runtime \<Rightarrow> comparison_operator \<Rightarrow> evaluated \<Rightarrow> evaluated \<Rightarrow> evaluated" where
  "evaluateComparison rt operator left right =
     bind_sum (map_error ComparisonLeftErr left) (\<lambda>l.
     bind_sum (map_error ComparisonRightErr right) (\<lambda>r.
       if isNullValue (Some l) \<or> isNullValue (Some r) then Inr (booleanValue False)
       else
         bind_sum (map_error CompareErr (compareValues rt l r)) (\<lambda>order.
           case operator of
             COMPARISON_OPERATOR_EQUAL \<Rightarrow> Inr (booleanValue (order = 0))
           | COMPARISON_OPERATOR_NOT_EQUAL \<Rightarrow> Inr (booleanValue (order \<noteq> 0))
           | COMPARISON_OPERATOR_LESS_THAN \<Rightarrow> Inr (booleanValue (order < 0))
           | COMPARISON_OPERATOR_LESS_THAN_OR_EQUAL \<Rightarrow> Inr (booleanValue (order \<le> 0))
           | COMPARISON_OPERATOR_GREATER_THAN \<Rightarrow> Inr (booleanValue (order > 0))
           | COMPARISON_OPERATOR_GREATER_THAN_OR_EQUAL \<Rightarrow> Inr (booleanValue (order \<ge> 0))
           | _ \<Rightarrow> Inl ComparisonOperatorRequired)))"

definition evaluateBooleanExpression :: "evaluated \<Rightarrow> im_eval_err + bool" where
  "evaluateBooleanExpression result =
     bind_sum result (\<lambda>v.
       if isNullValue (Some v) then Inr False
       else (case kind_of v of BooleanValue b \<Rightarrow> Inr b | _ \<Rightarrow> Inl PredicateNotBoolean))"

text \<open>The loops of AND and OR: the first operand with the value \<open>stop\<close> decides.\<close>

fun decide :: "bool \<Rightarrow> evaluated list \<Rightarrow> evaluated" where
  "decide stop [] = Inr (booleanValue (\<not> stop))"
| "decide stop (r # rs) =
     bind_sum (evaluateBooleanExpression r) (\<lambda>b. if b = stop then Inr (booleanValue stop) else decide stop rs)"

definition evaluateLogical :: "logical_operator \<Rightarrow> evaluated list \<Rightarrow> evaluated" where
  "evaluateLogical operator results =
     (case operator of
        LOGICAL_OPERATOR_AND \<Rightarrow> if length results < 2 then Inl AndNeedsTwo else decide False results
      | LOGICAL_OPERATOR_OR \<Rightarrow> if length results < 2 then Inl OrNeedsTwo else decide True results
      | LOGICAL_OPERATOR_NOT \<Rightarrow>
          if length results \<noteq> 1 then Inl NotNeedsOne
          else bind_sum (evaluateBooleanExpression (hd results)) (\<lambda>b. Inr (booleanValue (\<not> b)))
      | _ \<Rightarrow> Inl LogicalOperatorRequired)"

definition evaluateNullPredicate :: "null_predicate_operator \<Rightarrow> evaluated \<Rightarrow> evaluated" where
  "evaluateNullPredicate operator result =
     bind_sum result (\<lambda>v.
       case operator of
         NULL_PREDICATE_OPERATOR_IS_NULL \<Rightarrow> Inr (booleanValue (isNullValue (Some v)))
       | NULL_PREDICATE_OPERATOR_IS_NOT_NULL \<Rightarrow> Inr (booleanValue (\<not> isNullValue (Some v)))
       | _ \<Rightarrow> Inl NullPredicateOperatorRequired)"

section \<open>Aggregates\<close>

text \<open>\<open>binary.BigEndian.PutUint64\<close>.\<close>

definition bigEndian64 :: "nat \<Rightarrow> bytes" where
  "bigEndian64 n = map (\<lambda>i. char_of (n div 256 ^ (7 - i))) [0..<8]"

fun aggregateValuesKey :: "runtime \<Rightarrow> value list \<Rightarrow> im_eval_err + bytes" where
  "aggregateValuesKey rt [] = Inr []"
| "aggregateValuesKey rt (v # vs) =
     (case im_marshal rt v of
        Inl e \<Rightarrow> Inl (AggregateErr (EncodeValue e))
      | Inr encoded \<Rightarrow>
          bind_sum (aggregateValuesKey rt vs) (\<lambda>rest. Inr (bigEndian64 (length encoded) @ encoded @ rest)))"

text \<open>The values an aggregate looks at: no NULLs, and with DISTINCT the first of each encoding.\<close>

fun aggregate_values :: "runtime \<Rightarrow> bool \<Rightarrow> bytes list \<Rightarrow> evaluated list \<Rightarrow> im_eval_err + value list" where
  "aggregate_values rt distinct_only seen [] = Inr []"
| "aggregate_values rt distinct_only seen (r # rs) =
     bind_sum r (\<lambda>v.
       if isNullValue (Some v) then aggregate_values rt distinct_only seen rs
       else if distinct_only then
         bind_sum (aggregateValuesKey rt [v]) (\<lambda>key.
           if key \<in> set seen then aggregate_values rt distinct_only seen rs
           else bind_sum (aggregate_values rt distinct_only (key # seen) rs) (\<lambda>vs. Inr (v # vs)))
       else bind_sum (aggregate_values rt distinct_only seen rs) (\<lambda>vs. Inr (v # vs)))"

fun select_extreme :: "runtime \<Rightarrow> (int \<Rightarrow> bool) \<Rightarrow> value \<Rightarrow> value list \<Rightarrow> im_eval_err + value" where
  "select_extreme rt better selected [] = Inr selected"
| "select_extreme rt better selected (candidate # vs) =
     bind_sum (map_error CompareErr (compareValues rt candidate selected)) (\<lambda>order.
       select_extreme rt better (if better order then candidate else selected) vs)"

fun sum_numbers :: "runtime \<Rightarrow> rat \<Rightarrow> value list \<Rightarrow> im_eval_err + rat" where
  "sum_numbers rt acc [] = Inr acc"
| "sum_numbers rt acc (v # vs) =
     bind_sum (map_error NumberErr (aggregateNumber rt v)) (\<lambda>x. sum_numbers rt (acc + x) vs)"

definition coerceAggregateValue :: "runtime \<Rightarrow> value \<Rightarrow> type_descriptor option \<Rightarrow> im_aggregate_err + value" where
  "coerceAggregateValue rt v resultType =
     (case resultType of
        None \<Rightarrow> Inl ResultTypeRequired
      | Some d \<Rightarrow>
          (case valueType (Some v) of
             Inl e \<Rightarrow> Inl (ResultUntyped e)
           | Inr actualType \<Rightarrow>
               if actualType = td_type d then Inr v
               else
                 (case aggregateNumber rt v of
                    Inl _ \<Rightarrow> Inl (ResultNotConvertible actualType (td_type d))
                  | Inr number \<Rightarrow> aggregateNumberValue rt number resultType)))"

text \<open>
  \<open>rows\<close> is the number of rows of the group, \<open>argument\<close> the results of the first argument on
  them, in order.
\<close>

definition evaluateAggregate ::
  "runtime \<Rightarrow> nat \<Rightarrow> aggregate_function \<Rightarrow> nat \<Rightarrow> evaluated list \<Rightarrow> bool \<Rightarrow> type_descriptor option \<Rightarrow> evaluated" where
  "evaluateAggregate rt rows function arguments argument distinct_only resultType =
     (if function = AGGREGATE_FUNCTION_COUNT_STAR then
        if arguments \<noteq> 0 \<or> distinct_only then Inl (AggregateErr CountStarArguments)
        else map_error AggregateErr (aggregateNumberValue rt (of_nat rows) resultType)
      else if arguments \<noteq> 1 then Inl (AggregateErr (AggregateArgument function))
      else
        bind_sum (aggregate_values rt distinct_only [] argument) (\<lambda>vs.
          if function = AGGREGATE_FUNCTION_COUNT \<or> function = AGGREGATE_FUNCTION_COUNT_BIG then
            map_error AggregateErr (aggregateNumberValue rt (of_nat (length vs)) resultType)
          else if function = AGGREGATE_FUNCTION_MIN \<or> function = AGGREGATE_FUNCTION_MAX then
            (case vs of
               [] \<Rightarrow> Inr nullValue
             | v # rest \<Rightarrow>
                 bind_sum
                   (select_extreme rt
                      (\<lambda>order. if function = AGGREGATE_FUNCTION_MIN then order < 0 else order > 0) v rest)
                   (\<lambda>selected. map_error AggregateErr (coerceAggregateValue rt selected resultType)))
          else if function = AGGREGATE_FUNCTION_SUM \<or> function = AGGREGATE_FUNCTION_AVG then
            (if vs = [] then Inr nullValue
             else
               bind_sum (sum_numbers rt 0 vs) (\<lambda>acc.
                 map_error AggregateErr
                   (aggregateNumberValue rt
                      (if function = AGGREGATE_FUNCTION_AVG then acc / of_nat (length vs) else acc) resultType)))
          else Inl (AggregateErr (AggregateUnsupported function))))"

section \<open>Evaluation\<close>

definition row_context :: "entity_row \<Rightarrow> expression_context" where
  "row_context row = \<lparr>cx_row = Some row, cx_rows = [], cx_grouped = False\<rparr>"

definition group_context :: "entity_row list \<Rightarrow> expression_context" where
  "group_context rows =
     \<lparr>cx_row = (case rows of [] \<Rightarrow> None | row # _ \<Rightarrow> Some row), cx_rows = rows, cx_grouped = True\<rparr>"

function (sequential) evaluateExpressionInContext ::
  "runtime \<Rightarrow> expression_context \<Rightarrow> expression option \<Rightarrow> evaluated" where
  "evaluateExpressionInContext rt c None = Inl ExpressionRequired"
| "evaluateExpressionInContext rt c (Some (ExprField field_name)) =
     (case field_name of
        None \<Rightarrow> Inl FieldNameRequired
      | Some name \<Rightarrow>
          if name = [] then Inl FieldNameRequired
          else (case cx_row c of None \<Rightarrow> Inl (FieldUnavailable name) | Some row \<Rightarrow> rowValue rt row name))"
| "evaluateExpressionInContext rt c (Some ExprLiteralNil) = Inl LiteralValueRequired"
| "evaluateExpressionInContext rt c (Some (ExprLiteral v declared)) =
     (case v of None \<Rightarrow> Inl LiteralValueRequired | Some x \<Rightarrow> Inr x)"
| "evaluateExpressionInContext rt c (Some ExprComparisonNil) = Inl ComparisonRequired"
| "evaluateExpressionInContext rt c (Some (ExprComparison operator left right)) =
     evaluateComparison rt operator (evaluateExpressionInContext rt c left) (evaluateExpressionInContext rt c right)"
| "evaluateExpressionInContext rt c (Some ExprLogicalNil) = Inl LogicalRequired"
| "evaluateExpressionInContext rt c (Some (ExprLogical operator es)) =
     evaluateLogical operator (map (evaluateExpressionInContext rt c) es)"
| "evaluateExpressionInContext rt c (Some ExprNullPredicateNil) = Inl NullPredicateRequired"
| "evaluateExpressionInContext rt c (Some (ExprNullPredicate operator e)) =
     evaluateNullPredicate operator (evaluateExpressionInContext rt c e)"
| "evaluateExpressionInContext rt c (Some ExprFunctionCallNil) = Inl FunctionCallRequired"
| "evaluateExpressionInContext rt c (Some (ExprFunctionCall name es)) = Inl (FunctionUnsupported name)"
| "evaluateExpressionInContext rt c (Some ExprAggregateNil) =
     (if \<not> cx_grouped c then Inl AggregateInRow else Inl (AggregateErr AggregateRequired))"
| "evaluateExpressionInContext rt c (Some (ExprAggregate function es distinct_only resultType)) =
     (if \<not> cx_grouped c then Inl AggregateInRow
      else
        evaluateAggregate rt (length (cx_rows c)) function (length es)
          (case es of
             [] \<Rightarrow> []
           | e # _ \<Rightarrow> map (\<lambda>row. evaluateExpressionInContext rt (row_context row) e) (cx_rows c))
          distinct_only resultType)"
| "evaluateExpressionInContext rt c (Some e) = Inl ExpressionKindRequired"
  by pat_completeness auto
termination
proof (relation "measure (\<lambda>(rt, c, e). size_option size e)"; (simp; fail)?)
  fix rt :: runtime and c :: expression_context and operator and es :: "expression option list" and x
  assume "x \<in> set es"
  then show "((rt, c, x), (rt, c, Some (ExprLogical operator es))) \<in> measure (\<lambda>(rt, c, e). size_option size e)"
    using size_list_estimation' [of x es "size_option size x" "size_option size"] by simp
qed

declare evaluateExpressionInContext.simps [code]

definition evaluateExpression :: "runtime \<Rightarrow> entity_row \<Rightarrow> expression option \<Rightarrow> evaluated" where
  "evaluateExpression rt row e = evaluateExpressionInContext rt (row_context row) e"

definition evaluateGroupedExpression :: "runtime \<Rightarrow> entity_row list \<Rightarrow> expression option \<Rightarrow> evaluated" where
  "evaluateGroupedExpression rt rows e = evaluateExpressionInContext rt (group_context rows) e"

definition evaluateGroupedBooleanExpression ::
  "runtime \<Rightarrow> entity_row list \<Rightarrow> expression option \<Rightarrow> im_eval_err + bool" where
  "evaluateGroupedBooleanExpression rt rows e =
     evaluateBooleanExpression (evaluateExpressionInContext rt (group_context rows) e)"

definition evaluateFilter :: "runtime \<Rightarrow> entity_row \<Rightarrow> expression option \<Rightarrow> im_eval_err + bool" where
  "evaluateFilter rt row expression =
     (case expression of
        None \<Rightarrow> Inr True
      | Some _ \<Rightarrow>
          bind_sum (evaluateExpression rt row expression) (\<lambda>v.
            if isNullValue (Some v) then Inr False
            else (case kind_of v of BooleanValue b \<Rightarrow> Inr b | _ \<Rightarrow> Inl FilterNotBoolean)))"

end
