(* ===== verification/InMemoryOrdering.thy ===== *)
theory InMemoryOrdering
  imports InMemoryExpressions
begin

text \<open>
  Sorting rows (\<open>providers/inmemory/query.go\<close>, \<open>aggregate.go\<close>). The less function of
  \<open>sort.SliceStable\<close> remembers the first comparison that failed, so it is a function of that
  state. \<open>sliceStable\<close> is the insertion sort the standard library runs on blocks of twenty
  elements; it merges longer slices from such blocks, which for a less function that orders
  the elements gives the same result, as there is only one stable sort.

  The locale \<open>weak_order\<close> is what a less function promises, \<open>consistent\<close> the same for a
  three-way comparison. The comparison of planned rows is shown to be consistent wherever it
  does not fail, and to have no ties between rows with different keys. Sorting therefore does
  not depend on the order in which the rows arrive.
\<close>

section \<open>Sorting with a less function that has state\<close>

text \<open>Moving an element towards the front past the larger ones; the prefix is reversed.\<close>

fun insert_back :: "('a \<Rightarrow> 'a \<Rightarrow> 's \<Rightarrow> bool \<times> 's) \<Rightarrow> 'a \<Rightarrow> 'a list \<Rightarrow> 's \<Rightarrow> 'a list \<times> 's" where
  "insert_back lt x [] s = ([x], s)"
| "insert_back lt x (y # ys) s =
     (case lt x y s of
        (True, s1) \<Rightarrow> (case insert_back lt x ys s1 of (zs, s2) \<Rightarrow> (y # zs, s2))
      | (False, s1) \<Rightarrow> (x # y # ys, s1))"

fun insertion_sort :: "('a \<Rightarrow> 'a \<Rightarrow> 's \<Rightarrow> bool \<times> 's) \<Rightarrow> 'a list \<Rightarrow> 'a list \<Rightarrow> 's \<Rightarrow> 'a list \<times> 's" where
  "insertion_sort lt done_rev [] s = (rev done_rev, s)"
| "insertion_sort lt done_rev (x # xs) s =
     (case insert_back lt x done_rev s of (zs, s1) \<Rightarrow> insertion_sort lt zs xs s1)"

definition sliceStable :: "('a \<Rightarrow> 'a \<Rightarrow> 's \<Rightarrow> bool \<times> 's) \<Rightarrow> 'a list \<Rightarrow> 's \<Rightarrow> 'a list \<times> 's" where
  "sliceStable lt xs s = insertion_sort lt [] xs s"

lemma insert_back_mset: "mset (fst (insert_back lt x ys s)) = add_mset x (mset ys)"
  by (induction lt x ys s rule: insert_back.induct) (auto split: prod.splits bool.splits)

lemma insertion_sort_mset: "mset (fst (insertion_sort lt ds xs s)) = mset ds + mset xs"
proof (induction xs arbitrary: ds s)
  case (Cons x xs)
  then show ?case using insert_back_mset [of lt x ds s] by (auto split: prod.splits)
qed simp

lemma sliceStable_mset: "mset (fst (sliceStable lt xs s)) = mset xs"
  by (simp add: sliceStable_def insertion_sort_mset)

lemma sliceStable_set: "set (fst (sliceStable lt xs s)) = set xs"
  by (metis sliceStable_mset set_mset_mset)

text \<open>The state that is left is one a comparison of two elements left.\<close>

lemma insert_back_state:
  assumes "P s" and "\<And>y s. y \<in> set ys \<Longrightarrow> P s \<Longrightarrow> P (snd (lt x y s))"
  shows "P (snd (insert_back lt x ys s))"
  using assms
  by (induction lt x ys s rule: insert_back.induct) (fastforce split: prod.splits bool.splits)+

lemma insertion_sort_state:
  assumes "P s" and "\<And>x y s. x \<in> set (ds @ xs) \<Longrightarrow> y \<in> set (ds @ xs) \<Longrightarrow> P s \<Longrightarrow> P (snd (lt x y s))"
  shows "P (snd (insertion_sort lt ds xs s))"
  using assms
proof (induction xs arbitrary: ds s)
  case (Cons x xs)
  obtain zs s1 where ins: "insert_back lt x ds s = (zs, s1)" by fastforce
  have zs: "set zs = insert x (set ds)"
    using insert_back_mset [of lt x ds s] ins by (metis fst_conv set_mset_add_mset_insert set_mset_mset)
  have "P s1" using insert_back_state [of P s ds lt x] Cons.prems ins by auto
  then have "P (snd (insertion_sort lt zs xs s1))"
    using zs by (intro Cons.IH Cons.prems(2)) simp_all
  with ins show ?case by simp
qed simp

lemma sliceStable_state:
  assumes "P s" and "\<And>x y s. x \<in> set xs \<Longrightarrow> y \<in> set xs \<Longrightarrow> P s \<Longrightarrow> P (snd (lt x y s))"
  shows "P (snd (sliceStable lt xs s))"
  unfolding sliceStable_def by (rule insertion_sort_state [where P = P]) (simp_all add: assms)

text \<open>A less function that keeps the state sorts as its pure part does.\<close>

lemma insert_back_pure:
  assumes "\<And>y. y \<in> set ys \<Longrightarrow> lt x y s = (pure_less x y, s)"
  shows "insert_back lt x ys s = (fst (insert_back (\<lambda>x y u. (pure_less x y, u)) x ys ()), s)"
  using assms by (induction ys) (auto split: prod.splits bool.splits)

lemma insertion_sort_pure:
  assumes "\<And>x y. x \<in> set (ds @ xs) \<Longrightarrow> y \<in> set (ds @ xs) \<Longrightarrow> lt x y s = (pure_less x y, s)"
  shows "insertion_sort lt ds xs s = (fst (insertion_sort (\<lambda>x y u. (pure_less x y, u)) ds xs ()), s)"
  using assms
proof (induction xs arbitrary: ds)
  case (Cons x xs)
  obtain zs where zs: "insert_back (\<lambda>x y u. (pure_less x y, u)) x ds () = (zs, ())"
    by (metis old.unit.exhaust surj_pair)
  have ins: "insert_back lt x ds s = (zs, s)"
    using insert_back_pure [of ds lt x s pure_less] Cons.prems zs by simp
  have "set zs = insert x (set ds)"
    using insert_back_mset [of "\<lambda>x y u. (pure_less x y, u)" x ds "()"] zs
    by (metis fst_conv set_mset_add_mset_insert set_mset_mset)
  then have "insertion_sort lt zs xs s = (fst (insertion_sort (\<lambda>x y u. (pure_less x y, u)) zs xs ()), s)"
    by (intro Cons.IH Cons.prems) auto
  with ins zs show ?case by simp
qed simp

lemma sliceStable_pure:
  assumes "\<And>x y. x \<in> set xs \<Longrightarrow> y \<in> set xs \<Longrightarrow> lt x y s = (pure_less x y, s)"
  shows "sliceStable lt xs s = (fst (sliceStable (\<lambda>x y u. (pure_less x y, u)) xs ()), s)"
  unfolding sliceStable_def using assms by (intro insertion_sort_pure) auto

section \<open>Less functions that order\<close>

locale weak_order =
  fixes elems :: "'a set" and before :: "'a \<Rightarrow> 'a \<Rightarrow> bool"
  assumes asym: "x \<in> elems \<Longrightarrow> y \<in> elems \<Longrightarrow> before x y \<Longrightarrow> \<not> before y x"
    and not_before_trans: "x \<in> elems \<Longrightarrow> y \<in> elems \<Longrightarrow> z \<in> elems \<Longrightarrow>
      \<not> before y x \<Longrightarrow> \<not> before z y \<Longrightarrow> \<not> before z x"
begin

definition ordered :: "'a list \<Rightarrow> bool" where
  "ordered xs \<longleftrightarrow> sorted_wrt (\<lambda>x y. \<not> before y x) xs"

lemma insert_back_ordered:
  assumes "x \<in> elems" and "set ys \<subseteq> elems" and "ordered (rev ys)"
  shows "ordered (rev (fst (insert_back (\<lambda>x y u. (before x y, u)) x ys ())))"
  using assms
proof (induction ys)
  case (Cons y ys)
  let ?ins = "fst (insert_back (\<lambda>x y u. (before x y, u)) x ys ())"
  have set_ins: "set ?ins = insert x (set ys)" by (metis insert_back_mset set_mset_add_mset_insert set_mset_mset)
  from Cons.prems have ys: "ordered (rev ys)" "\<forall>z\<in>set ys. \<not> before y z"
    by (auto simp: ordered_def sorted_wrt_append)
  show ?case
  proof (cases "before x y")
    case True
    with Cons ys asym [of x y] set_ins show ?thesis
      by (auto simp: ordered_def sorted_wrt_append split: prod.splits)
  next
    case False
    have "\<not> before x z" if "z \<in> set ys" for z
      using that ys(2) False Cons.prems not_before_trans [of z y x] by auto
    with False Cons.prems ys show ?thesis by (auto simp: ordered_def sorted_wrt_append)
  qed
qed (simp add: ordered_def)

lemma insertion_sort_ordered:
  assumes "set ds \<union> set xs \<subseteq> elems" and "ordered (rev ds)"
  shows "ordered (fst (insertion_sort (\<lambda>x y u. (before x y, u)) ds xs ()))"
  using assms
proof (induction xs arbitrary: ds)
  case (Cons x xs)
  obtain zs where zs: "insert_back (\<lambda>x y u. (before x y, u)) x ds () = (zs, ())"
    by (metis old.unit.exhaust surj_pair)
  have "set zs = insert x (set ds)"
    using insert_back_mset [of "\<lambda>x y u. (before x y, u)" x ds "()"] zs
    by (metis fst_conv set_mset_add_mset_insert set_mset_mset)
  moreover have "ordered (rev zs)" using insert_back_ordered [of x ds] Cons.prems zs by simp
  ultimately show ?case using Cons zs by auto
qed simp

lemma sliceStable_ordered:
  assumes "set xs \<subseteq> elems"
  shows "ordered (fst (sliceStable (\<lambda>x y u. (before x y, u)) xs ()))"
  unfolding sliceStable_def using assms by (intro insertion_sort_ordered) (auto simp: ordered_def)

text \<open>Without ties there is one way to order the elements.\<close>

lemma ordered_unique:
  assumes "ordered xs" and "ordered ys" and "mset xs = mset ys" and "set xs \<subseteq> elems" and "distinct xs"
    and ties: "\<And>x y. x \<in> elems \<Longrightarrow> y \<in> elems \<Longrightarrow> x \<noteq> y \<Longrightarrow> before x y \<or> before y x"
  shows "xs = ys"
  using assms(1-5)
proof (induction xs arbitrary: ys)
  case Nil
  then show ?case by simp
next
  case (Cons x xs)
  then obtain y ys' where ys: "ys = y # ys'" by (cases ys) auto
  have sets: "set (x # xs) = set (y # ys')" using Cons.prems(3) ys by (metis set_mset_mset)
  have "x = y"
  proof (rule ccontr)
    assume "x \<noteq> y"
    with sets have "y \<in> set xs" "x \<in> set ys'" by auto
    then have "\<not> before y x" "\<not> before x y" using Cons.prems(1,2) ys by (auto simp: ordered_def)
    moreover have "x \<in> elems" "y \<in> elems" using Cons.prems(4) sets by auto
    ultimately show False using ties \<open>x \<noteq> y\<close> by blast
  qed
  with Cons.prems ys have "xs = ys'" by (intro Cons.IH) (auto simp: ordered_def)
  with \<open>x = y\<close> ys show ?case by simp
qed

end

section \<open>Comparing planned rows\<close>

record planned_row =
  pl_row :: entity_row
  pl_orderValues :: "value list"

definition null_ordering_of :: "order_by option \<Rightarrow> null_ordering" where
  "null_ordering_of ob = (case ob of None \<Rightarrow> NULL_ORDERING_UNSPECIFIED | Some o1 \<Rightarrow> ob_null_ordering o1)"

definition direction_of :: "order_by option \<Rightarrow> sort_direction" where
  "direction_of ob = (case ob of None \<Rightarrow> SORT_DIRECTION_UNSPECIFIED | Some o1 \<Rightarrow> ob_direction o1)"

definition compareOrderedValues ::
  "runtime \<Rightarrow> order_by option \<Rightarrow> value \<Rightarrow> value \<Rightarrow> im_compare_err + int" where
  "compareOrderedValues rt ob left right =
     (let leftNull = isNullValue (Some left); rightNull = isNullValue (Some right) in
      if leftNull \<or> rightNull then
        if leftNull \<and> rightNull then Inr 0
        else
          (let nullOrdering =
                 (if null_ordering_of ob = NULL_ORDERING_UNSPECIFIED then NULL_ORDERING_LAST
                  else null_ordering_of ob)
           in if leftNull then (if nullOrdering = NULL_ORDERING_FIRST then Inr (- 1) else Inr 1)
              else (if nullOrdering = NULL_ORDERING_FIRST then Inr 1 else Inr (- 1)))
      else
        bind_sum (compareValues rt left right) (\<lambda>result.
          Inr (if direction_of ob = SORT_DIRECTION_DESCENDING then - result else result)))"

text \<open>The first ordering expression that tells the rows apart; zero if none does.\<close>

fun compare_order_values ::
  "runtime \<Rightarrow> order_by option list \<Rightarrow> value list \<Rightarrow> value list \<Rightarrow> im_compare_err + int" where
  "compare_order_values rt (ob # obs) (l # ls) (r # rs) =
     bind_sum (compareOrderedValues rt ob l r) (\<lambda>order.
       if order \<noteq> 0 then Inr order else compare_order_values rt obs ls rs)"
| "compare_order_values rt _ _ _ = Inr 0"

text \<open>
  The less function shared by \<open>sortPlannedRows\<close> and \<open>sortAggregateRows\<close>, on the key and the
  order values of a row.
\<close>

definition row_before ::
  "runtime \<Rightarrow> order_by option list \<Rightarrow> ('r \<Rightarrow> string) \<Rightarrow> ('r \<Rightarrow> value list) \<Rightarrow> 'r \<Rightarrow> 'r \<Rightarrow>
   im_compare_err option \<Rightarrow> bool \<times> im_compare_err option" where
  "row_before rt orderBy key orderValues left right compareErr =
     (if compareErr \<noteq> None then (False, compareErr)
      else
        (case compare_order_values rt orderBy (orderValues left) (orderValues right) of
           Inl e \<Rightarrow> (False, Some e)
         | Inr order \<Rightarrow> (if order \<noteq> 0 then order < 0 else key left < key right, None)))"

definition sort_rows ::
  "runtime \<Rightarrow> order_by option list \<Rightarrow> ('r \<Rightarrow> string) \<Rightarrow> ('r \<Rightarrow> value list) \<Rightarrow> 'r list \<Rightarrow> im_compare_err + 'r list" where
  "sort_rows rt orderBy key orderValues rows =
     (case sliceStable (row_before rt orderBy key orderValues) rows None of
        (sorted_rows, None) \<Rightarrow> Inr sorted_rows
      | (_, Some e) \<Rightarrow> Inl e)"

definition sortPlannedRows ::
  "runtime \<Rightarrow> planned_row list \<Rightarrow> order_by option list \<Rightarrow> im_compare_err + planned_row list" where
  "sortPlannedRows rt rows orderBy = sort_rows rt orderBy (er_key \<circ> pl_row) pl_orderValues rows"

section \<open>Consistent comparisons\<close>

definition consistent :: "'a set \<Rightarrow> ('a \<Rightarrow> 'a \<Rightarrow> int) \<Rightarrow> bool" where
  "consistent A c \<longleftrightarrow>
     (\<forall>x\<in>A. \<forall>y\<in>A. c y x = - c x y) \<and>
     (\<forall>x\<in>A. \<forall>y\<in>A. \<forall>z\<in>A. c x y \<le> 0 \<longrightarrow> c y z \<le> 0 \<longrightarrow> c x z \<le> 0)"

lemma consistentI:
  assumes "\<And>x y. x \<in> A \<Longrightarrow> y \<in> A \<Longrightarrow> c y x = - c x y"
    and "\<And>x y z. x \<in> A \<Longrightarrow> y \<in> A \<Longrightarrow> z \<in> A \<Longrightarrow> c x y \<le> 0 \<Longrightarrow> c y z \<le> 0 \<Longrightarrow> c x z \<le> 0"
  shows "consistent A c"
  using assms unfolding consistent_def by blast

lemma consistent_antisym: "consistent A c \<Longrightarrow> x \<in> A \<Longrightarrow> y \<in> A \<Longrightarrow> c y x = - c x y"
  unfolding consistent_def by blast

lemma consistent_trans:
  "consistent A c \<Longrightarrow> x \<in> A \<Longrightarrow> y \<in> A \<Longrightarrow> z \<in> A \<Longrightarrow> c x y \<le> 0 \<Longrightarrow> c y z \<le> 0 \<Longrightarrow> c x z \<le> 0"
  unfolding consistent_def by blast

lemma consistent_key:
  fixes k :: "'a \<Rightarrow> 'k::linorder"
  shows "consistent A (\<lambda>x y. compareOrdered (k x) (k y))"
  by (rule consistentI) (auto simp: compareOrdered_def split: if_splits)

lemma consistent_minus: "consistent A c \<Longrightarrow> consistent A (\<lambda>x y. - c x y)"
proof (rule consistentI)
  fix x y z assume c: "consistent A c" "x \<in> A" "y \<in> A" "z \<in> A" and "- c x y \<le> 0" "- c y z \<le> 0"
  then have "c y x \<le> 0" "c z y \<le> 0"
    using consistent_antisym [of A c x y] consistent_antisym [of A c y z] by simp_all
  with c have "c z x \<le> 0" by (metis consistent_trans)
  with c show "- c x z \<le> 0" using consistent_antisym [of A c x z] by simp
next
  fix x y assume "consistent A c" "x \<in> A" "y \<in> A"
  then show "- c y x = - (- c x y)" using consistent_antisym [of A c x y] by simp
qed

text \<open>Comparing by one thing and then by another.\<close>

lemma consistent_then:
  assumes c: "consistent A c" and d: "consistent A d"
  shows "consistent A (\<lambda>x y. if c x y \<noteq> 0 then c x y else d x y)"
proof (rule consistentI)
  fix x y assume "x \<in> A" "y \<in> A"
  then show "(if c y x \<noteq> 0 then c y x else d y x) = - (if c x y \<noteq> 0 then c x y else d x y)"
    using consistent_antisym [OF c, of x y] consistent_antisym [OF d, of x y] by simp
next
  fix x y z
  assume A: "x \<in> A" "y \<in> A" "z \<in> A"
    and le: "(if c x y \<noteq> 0 then c x y else d x y) \<le> 0" "(if c y z \<noteq> 0 then c y z else d y z) \<le> 0"
  then have xy: "c x y \<le> 0" and yz: "c y z \<le> 0" by (auto split: if_splits)
  then have xz: "c x z \<le> 0" using consistent_trans [OF c A] by blast
  show "(if c x z \<noteq> 0 then c x z else d x z) \<le> 0"
  proof (cases "c x z = 0")
    case True
    then have zx: "c z x \<le> 0" using consistent_antisym [OF c A(1,3)] by simp
    have "c y x \<le> 0" using consistent_trans [OF c A(2,3,1)] yz zx by blast
    moreover have "c z y \<le> 0" using consistent_trans [OF c A(3,1,2)] zx xy by blast
    ultimately have "c x y = 0" "c y z = 0"
      using xy yz consistent_antisym [OF c A(1,2)] consistent_antisym [OF c A(2,3)] by simp_all
    with le have "d x y \<le> 0" "d y z \<le> 0" by simp_all
    with True show ?thesis using consistent_trans [OF d A] by simp
  qed (use xz in simp)
qed

lemma consistent_map: "consistent (f ` A) c \<Longrightarrow> consistent A (\<lambda>x y. c (f x) (f y))"
  unfolding consistent_def by blast

lemma consistent_subset: "consistent A c \<Longrightarrow> B \<subseteq> A \<Longrightarrow> consistent B c"
  unfolding consistent_def by blast

lemma consistent_weak_order: "consistent A c \<Longrightarrow> weak_order A (\<lambda>x y. c x y < 0)"
proof unfold_locales
  fix x y assume c: "consistent A c" "x \<in> A" "y \<in> A" "c x y < 0"
  then show "\<not> c y x < 0" using consistent_antisym [of A c x y] by simp
next
  fix x y z assume c: "consistent A c" and A: "x \<in> A" "y \<in> A" "z \<in> A" and "\<not> c y x < 0" "\<not> c z y < 0"
  then have "c x y \<le> 0" "c y z \<le> 0"
    using consistent_antisym [OF c A(1,2)] consistent_antisym [OF c A(2,3)] by simp_all
  then have "c x z \<le> 0" by (rule consistent_trans [OF c A])
  then show "\<not> c z x < 0" using consistent_antisym [OF c A(1,3)] by simp
qed

section \<open>The comparison of rows is consistent\<close>

lemma compareValues_cases:
  assumes "compareValues rt a b = Inr order"
  obtains (number) x y where "aggregateNumber rt a = Inr x" "aggregateNumber rt b = Inr y" "order = compareOrdered x y"
  | (words) x y where "kind_of a = StringValue x" "kind_of b = StringValue y" "order = compareOrdered x y"
  | (truth) x y where "kind_of a = BooleanValue x" "kind_of b = BooleanValue y" "order = compareOrdered x y"
proof (cases "isNumericValue a")
  case True
  with assms number show ?thesis by (auto simp: compareValues_def bind_sum_Inr split: if_splits)
next
  case False
  then show ?thesis
  proof (cases "kind_of a")
    case (StringValue x)
    with assms False words show ?thesis by (auto simp: compareValues_def split: kind.splits)
  next
    case (BooleanValue x)
    with assms False obtain y where "kind_of b = BooleanValue y"
      "order = (if x = y then 0 else if \<not> x \<and> y then - 1 else 1)"
      by (auto simp: compareValues_def split: kind.splits)
    with BooleanValue truth [of x y] show ?thesis by (auto simp: compareOrdered_def)
  qed (use assms False in \<open>auto simp: compareValues_def isNumericValue_def\<close>)
qed

definition compared :: "(value \<Rightarrow> value \<Rightarrow> im_compare_err + int) \<Rightarrow> value \<Rightarrow> value \<Rightarrow> int" where
  "compared f x y = (case f x y of Inr order \<Rightarrow> order | Inl _ \<Rightarrow> 0)"

definition all_comparable :: "('a \<Rightarrow> 'a \<Rightarrow> 'e + int) \<Rightarrow> 'a set \<Rightarrow> bool" where
  "all_comparable f A \<longleftrightarrow> (\<forall>x\<in>A. \<forall>y\<in>A. \<exists>order. f x y = Inr order)"

text \<open>Numbers, texts and truth values are each compared by a key of their own.\<close>

lemma values_have_keys:
  assumes ok: "all_comparable (compareValues rt) A" and "x0 \<in> A"
  obtains (number) k :: "value \<Rightarrow> rat" where "\<forall>x\<in>A. \<forall>y\<in>A. compareValues rt x y = Inr (compareOrdered (k x) (k y))"
  | (words) l :: "value \<Rightarrow> string" where "\<forall>x\<in>A. \<forall>y\<in>A. compareValues rt x y = Inr (compareOrdered (l x) (l y))"
  | (truth) b :: "value \<Rightarrow> bool" where "\<forall>x\<in>A. \<forall>y\<in>A. compareValues rt x y = Inr (compareOrdered (b x) (b y))"
proof -
  have cmp: "\<exists>order. compareValues rt x y = Inr order" if "x \<in> A" "y \<in> A" for x y
    using ok that unfolding all_comparable_def by blast
  obtain order where o1: "compareValues rt x0 x0 = Inr order" using cmp \<open>x0 \<in> A\<close> by blast
  then show ?thesis
  proof (cases rule: compareValues_cases)
    case num: (number u v)
    have "compareValues rt x y = Inr (compareOrdered (projr (aggregateNumber rt x)) (projr (aggregateNumber rt y)))"
      if xy: "x \<in> A" "y \<in> A" for x y
    proof -
      obtain p where "compareValues rt x0 x = Inr p" using cmp \<open>x0 \<in> A\<close> xy by blast
      then have "\<exists>w. aggregateNumber rt x = Inr w"
        using num(1) by (cases rule: compareValues_cases) (auto simp: aggregateNumber_def)
      moreover obtain q where q: "compareValues rt x y = Inr q" using cmp xy by blast
      ultimately show ?thesis
        by (cases rule: compareValues_cases [OF q]) (auto simp: aggregateNumber_def q)
    qed
    then show ?thesis by (intro number [of "\<lambda>x. projr (aggregateNumber rt x)"]) blast
  next
    case str: (words u v)
    have "compareValues rt x y =
        Inr (compareOrdered (case kind_of x of StringValue t \<Rightarrow> t) (case kind_of y of StringValue t \<Rightarrow> t))"
      if xy: "x \<in> A" "y \<in> A" for x y
    proof -
      obtain p where "compareValues rt x0 x = Inr p" using cmp \<open>x0 \<in> A\<close> xy by blast
      then have "\<exists>w. kind_of x = StringValue w"
        using str(1) by (cases rule: compareValues_cases) (auto simp: aggregateNumber_def)
      moreover obtain q where q: "compareValues rt x y = Inr q" using cmp xy by blast
      ultimately show ?thesis
        by (cases rule: compareValues_cases [OF q]) (auto simp: aggregateNumber_def q)
    qed
    then show ?thesis by (intro words [of "\<lambda>x. case kind_of x of StringValue t \<Rightarrow> t"]) blast
  next
    case tru: (truth u v)
    have "compareValues rt x y =
        Inr (compareOrdered (case kind_of x of BooleanValue t \<Rightarrow> t) (case kind_of y of BooleanValue t \<Rightarrow> t))"
      if xy: "x \<in> A" "y \<in> A" for x y
    proof -
      obtain p where "compareValues rt x0 x = Inr p" using cmp \<open>x0 \<in> A\<close> xy by blast
      then have "\<exists>w. kind_of x = BooleanValue w"
        using tru(1) by (cases rule: compareValues_cases) (auto simp: aggregateNumber_def)
      moreover obtain q where q: "compareValues rt x y = Inr q" using cmp xy by blast
      ultimately show ?thesis
        by (cases rule: compareValues_cases [OF q]) (auto simp: aggregateNumber_def q)
    qed
    then show ?thesis by (intro truth [of "\<lambda>x. case kind_of x of BooleanValue t \<Rightarrow> t"]) blast
  qed
qed

lemma consistent_cong:
  assumes "\<And>x y. x \<in> A \<Longrightarrow> y \<in> A \<Longrightarrow> c x y = d x y"
  shows "consistent A c \<longleftrightarrow> consistent A d"
proof -
  have "consistent A d" if "consistent A c" and "\<And>x y. x \<in> A \<Longrightarrow> y \<in> A \<Longrightarrow> c x y = d x y" for c d :: "'a \<Rightarrow> 'a \<Rightarrow> int"
  proof (rule consistentI)
    fix x y assume "x \<in> A" "y \<in> A"
    then show "d y x = - d x y" using consistent_antisym [OF that(1), of x y] that(2) [of x y] that(2) [of y x] by simp
  next
    fix x y z assume "x \<in> A" "y \<in> A" "z \<in> A" "d x y \<le> 0" "d y z \<le> 0"
    then show "d x z \<le> 0"
      using consistent_trans [OF that(1), of x y z] that(2) [of x y] that(2) [of y z] that(2) [of x z] by simp
  qed
  from this [of c d] this [of d c] assms show ?thesis by auto
qed

lemma consistent_values:
  assumes "all_comparable (compareValues rt) A"
  shows "consistent A (compared (compareValues rt))"
proof (cases "A = {}")
  case False
  then obtain x0 where "x0 \<in> A" by blast
  with assms show ?thesis
  proof (cases rule: values_have_keys)
    case (number k)
    then show ?thesis
      using consistent_key [of A k] by (subst consistent_cong [where d = "\<lambda>x y. compareOrdered (k x) (k y)"]) (simp_all add: compared_def)
  next
    case (words l)
    then show ?thesis
      using consistent_key [of A l] by (subst consistent_cong [where d = "\<lambda>x y. compareOrdered (l x) (l y)"]) (simp_all add: compared_def)
  next
    case (truth b)
    then show ?thesis
      using consistent_key [of A b] by (subst consistent_cong [where d = "\<lambda>x y. compareOrdered (b x) (b y)"]) (simp_all add: compared_def)
  qed
qed (simp add: consistent_def)

lemma compareOrderedValues_compared:
  "compared (compareOrderedValues rt ob) x y =
     (if isNullValue (Some x) \<and> isNullValue (Some y) then 0
      else if isNullValue (Some x) then (if null_ordering_of ob = NULL_ORDERING_FIRST then - 1 else 1)
      else if isNullValue (Some y) then (if null_ordering_of ob = NULL_ORDERING_FIRST then 1 else - 1)
      else (if direction_of ob = SORT_DIRECTION_DESCENDING then - compared (compareValues rt) x y
            else compared (compareValues rt) x y))"
  by (auto simp: compared_def compareOrderedValues_def Let_def bind_sum_def split: sum.splits)

lemma consistent_ordered_values:
  assumes "all_comparable (compareOrderedValues rt ob) A"
  shows "consistent A (compared (compareOrderedValues rt ob))"
proof -
  let ?B = "{x \<in> A. \<not> isNullValue (Some x)}"
  let ?d = "\<lambda>x y. if direction_of ob = SORT_DIRECTION_DESCENDING then - compared (compareValues rt) x y
            else compared (compareValues rt) x y"
  have "\<exists>order. compareValues rt x y = Inr order" if "x \<in> ?B" "y \<in> ?B" for x y
  proof -
    from assms that obtain order where "compareOrderedValues rt ob x y = Inr order"
      unfolding all_comparable_def by blast
    with that show ?thesis by (auto simp: compareOrderedValues_def bind_sum_Inr)
  qed
  then have "consistent ?B (compared (compareValues rt))"
    by (intro consistent_values) (auto simp: all_comparable_def)
  then have d: "consistent ?B ?d"
    by (cases "direction_of ob = SORT_DIRECTION_DESCENDING") (simp_all add: consistent_minus)
  show ?thesis
  proof (rule consistentI)
    fix x y assume "x \<in> A" "y \<in> A"
    then show "compared (compareOrderedValues rt ob) y x = - compared (compareOrderedValues rt ob) x y"
      using consistent_antisym [OF d, of x y] by (auto simp: compareOrderedValues_compared)
  next
    fix x y z assume "x \<in> A" "y \<in> A" "z \<in> A" "compared (compareOrderedValues rt ob) x y \<le> 0"
      "compared (compareOrderedValues rt ob) y z \<le> 0"
    then show "compared (compareOrderedValues rt ob) x z \<le> 0"
      using consistent_trans [OF d, of x y z]
      by (cases "isNullValue (Some x)"; cases "isNullValue (Some y)"; cases "isNullValue (Some z)")
        (simp_all add: compareOrderedValues_compared split: if_splits)
  qed
qed

definition rows_compared :: "runtime \<Rightarrow> order_by option list \<Rightarrow> value list \<Rightarrow> value list \<Rightarrow> int" where
  "rows_compared rt obs x y = (case compare_order_values rt obs x y of Inr order \<Rightarrow> order | Inl _ \<Rightarrow> 0)"

text \<open>
  Rows are comparable if the values of every ordering expression are. It is enough that no
  pair fails at the first expression that matters, but columns are what a client chooses.
\<close>

definition columns_comparable :: "runtime \<Rightarrow> order_by option list \<Rightarrow> value list set \<Rightarrow> bool" where
  "columns_comparable rt obs A \<longleftrightarrow>
     (\<forall>x\<in>A. length x = length obs) \<and>
     (\<forall>i < length obs. all_comparable (compareOrderedValues rt (obs ! i)) ((\<lambda>x. x ! i) ` A))"

lemma columns_comparable_Cons:
  assumes "columns_comparable rt (ob # obs) A"
  shows "\<forall>x\<in>A. \<exists>v vs. x = v # vs" and "all_comparable (compareOrderedValues rt ob) (hd ` A)"
    and "columns_comparable rt obs (tl ` A)"
proof -
  from assms have len: "\<forall>x\<in>A. length x = Suc (length obs)" by (simp add: columns_comparable_def)
  then show ne: "\<forall>x\<in>A. \<exists>v vs. x = v # vs" by (metis length_Suc_conv)
  have "hd x = x ! 0" if "x \<in> A" for x using ne that by fastforce
  then have "hd ` A = (\<lambda>x. x ! 0) ` A" by (rule image_cong [OF refl])
  then show "all_comparable (compareOrderedValues rt ob) (hd ` A)"
    using assms by (auto simp: columns_comparable_def)
  have "(\<lambda>x. x ! i) ` tl ` A = (\<lambda>x. x ! Suc i) ` A" if "i < length obs" for i
  proof -
    have "tl x ! i = x ! Suc i" if "x \<in> A" for x using ne that by fastforce
    then show ?thesis unfolding image_image by (rule image_cong [OF refl])
  qed
  with assms len show "columns_comparable rt obs (tl ` A)"
    by (auto simp: columns_comparable_def)
qed

lemma rows_compared_Cons:
  assumes "compareOrderedValues rt ob v w = Inr order" and "\<exists>p. compare_order_values rt obs vs ws = Inr p"
  shows "rows_compared rt (ob # obs) (v # vs) (w # ws) =
    (if compared (compareOrderedValues rt ob) v w \<noteq> 0 then compared (compareOrderedValues rt ob) v w
     else rows_compared rt obs vs ws)"
  using assms by (auto simp: rows_compared_def compared_def)

lemma compare_order_values_total:
  "columns_comparable rt obs A \<Longrightarrow> x \<in> A \<Longrightarrow> y \<in> A \<Longrightarrow> \<exists>order. compare_order_values rt obs x y = Inr order"
proof (induction obs arbitrary: A x y)
  case (Cons ob obs)
  note c = columns_comparable_Cons [OF Cons.prems(1)]
  obtain v vs where x: "x = v # vs" using c(1) Cons.prems(2) by blast
  obtain w ws where y: "y = w # ws" using c(1) Cons.prems(3) by blast
  have "v \<in> hd ` A" "w \<in> hd ` A" "vs \<in> tl ` A" "ws \<in> tl ` A" using Cons.prems x y by force+
  with c Cons.IH [OF c(3), of vs ws] obtain p q where
    "compareOrderedValues rt ob v w = Inr p" "compare_order_values rt obs vs ws = Inr q"
    unfolding all_comparable_def by blast
  then show ?case by (simp add: x y)
qed simp

lemma consistent_rows_compared:
  "columns_comparable rt obs A \<Longrightarrow> consistent A (rows_compared rt obs)"
proof (induction obs arbitrary: A)
  case Nil
  then show ?case by (simp add: rows_compared_def consistent_def)
next
  case (Cons ob obs)
  note c = columns_comparable_Cons [OF Cons.prems]
  have eq: "rows_compared rt (ob # obs) x y =
      (if compared (compareOrderedValues rt ob) (hd x) (hd y) \<noteq> 0
       then compared (compareOrderedValues rt ob) (hd x) (hd y)
       else rows_compared rt obs (tl x) (tl y))" if xy: "x \<in> A" "y \<in> A" for x y
  proof -
    obtain v vs w ws where x: "x = v # vs" and y: "y = w # ws" using c(1) xy by blast
    have "v \<in> hd ` A" "w \<in> hd ` A" "vs \<in> tl ` A" "ws \<in> tl ` A" using xy x y by force+
    with c(2) compare_order_values_total [OF c(3), of vs ws] obtain p where
      "compareOrderedValues rt ob v w = Inr p" "\<exists>q. compare_order_values rt obs vs ws = Inr q"
      unfolding all_comparable_def by blast
    from rows_compared_Cons [OF this] show ?thesis by (simp add: x y)
  qed
  let ?d = "\<lambda>x y. if compared (compareOrderedValues rt ob) (hd x) (hd y) \<noteq> 0
       then compared (compareOrderedValues rt ob) (hd x) (hd y) else rows_compared rt obs (tl x) (tl y)"
  have "consistent A ?d"
    by (intro consistent_then)
      (rule consistent_map [OF consistent_ordered_values [OF c(2)]],
        rule consistent_map [OF Cons.IH [OF c(3)]])
  moreover have "consistent A (rows_compared rt (ob # obs)) \<longleftrightarrow> consistent A ?d"
    by (rule consistent_cong) (rule eq)
  ultimately show ?case by simp
qed

text \<open>The strict order of the sorted rows: by the ordering expressions, then by the key.\<close>

definition row_less ::
  "runtime \<Rightarrow> order_by option list \<Rightarrow> ('r \<Rightarrow> string) \<Rightarrow> ('r \<Rightarrow> value list) \<Rightarrow> 'r \<Rightarrow> 'r \<Rightarrow> bool" where
  "row_less rt obs key vals x y \<longleftrightarrow>
     (\<exists>order. compare_order_values rt obs (vals x) (vals y) = Inr order \<and>
        (order < 0 \<or> order = 0 \<and> key x < key y))"

lemma rows_weak_order:
  assumes "columns_comparable rt obs (vals ` A)"
  shows "weak_order A (row_less rt obs key vals)"
    and "x \<in> A \<Longrightarrow> y \<in> A \<Longrightarrow> key x \<noteq> key y \<Longrightarrow> row_less rt obs key vals x y \<or> row_less rt obs key vals y x"
proof -
  let ?c = "\<lambda>x y. rows_compared rt obs (vals x) (vals y)"
  let ?d = "\<lambda>x y. if ?c x y \<noteq> 0 then ?c x y else compareOrdered (key x) (key y)"
  have c: "consistent A ?c" by (rule consistent_map [OF consistent_rows_compared [OF assms]])
  have less_iff: "row_less rt obs key vals x y \<longleftrightarrow> ?d x y < 0" if xy: "x \<in> A" "y \<in> A" for x y
  proof -
    obtain order where "compare_order_values rt obs (vals x) (vals y) = Inr order"
      using compare_order_values_total [OF assms, of "vals x" "vals y"] xy by auto
    then show ?thesis by (auto simp: row_less_def rows_compared_def compareOrdered_def)
  qed
  have d: "consistent A ?d" by (intro consistent_then c consistent_key)
  then have "weak_order A (\<lambda>x y. ?d x y < 0)" by (rule consistent_weak_order)
  then show "weak_order A (row_less rt obs key vals)"
    unfolding weak_order_def by (metis (no_types, lifting) less_iff)
  assume xy: "x \<in> A" "y \<in> A" "key x \<noteq> key y"
  have "?c y x = - ?c x y" by (rule consistent_antisym [OF c xy(1,2)])
  then show "row_less rt obs key vals x y \<or> row_less rt obs key vals y x"
    using xy unfolding less_iff [OF xy(1,2)] less_iff [OF xy(2,1)] by (auto simp: compareOrdered_def)
qed

lemma sort_rows_ordered:
  assumes c: "columns_comparable rt obs (vals ` set rows)" and keys: "distinct (map key rows)"
  shows "\<exists>srt. sort_rows rt obs key vals rows = Inr srt \<and> mset srt = mset rows \<and>
    sorted_wrt (row_less rt obs key vals) srt \<and>
    (\<forall>rows'. mset rows' = mset rows \<longrightarrow> sort_rows rt obs key vals rows' = Inr srt)"
proof -
  let ?lt = "row_less rt obs key vals"
  let ?A = "set rows"
  let ?srt = "\<lambda>xs. fst (sliceStable (\<lambda>x y u. (?lt x y, u)) xs ())"
  have wo: "weak_order ?A ?lt" by (rule rows_weak_order [OF c])
  have inj: "key x \<noteq> key y" if "x \<in> ?A" "y \<in> ?A" "x \<noteq> y" for x y
    using keys that by (auto simp: distinct_map inj_on_def)
  have dist: "distinct rows" using keys by (simp add: distinct_map)
  have run: "sort_rows rt obs key vals xs = Inr (?srt xs)" if "set xs = ?A" for xs
  proof -
    have "row_before rt obs key vals x y None = (?lt x y, None)" if xy: "x \<in> set xs" "y \<in> set xs" for x y
    proof -
      obtain order where "compare_order_values rt obs (vals x) (vals y) = Inr order"
        using compare_order_values_total [OF c, of "vals x" "vals y"] xy \<open>set xs = ?A\<close> by auto
      then show ?thesis by (auto simp: row_before_def row_less_def)
    qed
    then have "sliceStable (row_before rt obs key vals) xs None = (?srt xs, None)"
      by (rule sliceStable_pure)
    then show ?thesis by (simp add: sort_rows_def)
  qed
  have sorted_srt: "weak_order.ordered ?lt (?srt xs)" if "set xs = ?A" for xs
    using that by (intro weak_order.sliceStable_ordered [OF wo]) simp
  have strict: "sorted_wrt ?lt (?srt rows)"
  proof -
    have "sorted_wrt (\<lambda>x y. \<not> ?lt y x) (?srt rows)"
      using sorted_srt [of rows] by (simp add: weak_order.ordered_def [OF wo])
    moreover have "distinct (?srt rows)"
      using dist by (metis mset_eq_imp_distinct_iff sliceStable_mset)
    ultimately have "sorted_wrt (\<lambda>x y. \<not> ?lt y x \<and> x \<noteq> y) (?srt rows)"
      by (auto simp: sorted_wrt_iff_nth_less nth_eq_iff_index_eq)
    then show ?thesis
      using rows_weak_order(2) [OF c] inj sliceStable_set [of "\<lambda>x y u. (?lt x y, u)" rows "()"]
      by (elim sorted_wrt_mono_rel [rotated]) blast
  qed
  have "sort_rows rt obs key vals rows' = Inr (?srt rows)" if m: "mset rows' = mset rows" for rows'
  proof -
    have A: "set rows' = ?A" using m by (metis set_mset_mset)
    have "?srt rows' = ?srt rows"
      using sorted_srt [OF A] sorted_srt [of rows] rows_weak_order(2) [OF c] inj A dist m
      by (intro weak_order.ordered_unique [OF wo])
        (auto simp: sliceStable_mset sliceStable_set intro: mset_eq_imp_distinct_iff [THEN iffD2])
    with run [OF A] show ?thesis by simp
  qed
  with run [of rows] strict show ?thesis by (intro exI [of _ "?srt rows"]) (simp add: sliceStable_mset)
qed

end
