(* ===== verification/InMemoryPlanning.thy ===== *)
theory InMemoryPlanning
  imports InMemoryStreams InMemoryOrdering
begin

text \<open>
  The parts of \<open>providers/inmemory/query.go\<close> that row queries and aggregate queries share:
  planning projections, order values, pagination with its 64-bit offsets, the batch size and
  the conversion of values for the output (LOB references, coordinate systems). The two
  paginations and the two sort functions of the code differ in the type of row only and are
  one polymorphic definition each.
\<close>

section \<open>Projections\<close>

record planned_projection =
  pp_expression :: "expression option"
  pp_field :: field_msg

definition plan_field :: "entity_field \<Rightarrow> planned_projection" where
  "plan_field f =
     \<lparr>pp_expression = Some (ExprField (Some (ef_name f))),
      pp_field = \<lparr>f_name = ef_name f, f_type = ef_valueType f, f_type_descriptor = ef_typeDescriptor f\<rparr>\<rparr>"

definition output_name :: "projection \<Rightarrow> string" where
  "output_name p =
     (if pr_output_name p = [] then
        (case pr_expression p of Some (ExprField (Some name)) \<Rightarrow> name | _ \<Rightarrow> [])
      else pr_output_name p)"

definition plan_projection ::
  "runtime \<Rightarrow> entity_definition \<Rightarrow> projection option \<Rightarrow> im_plan_err + planned_projection" where
  "plan_projection rt entity projection =
     (case projection of
        None \<Rightarrow> Inl ProjectionRequired
      | Some p \<Rightarrow>
          (let outputName = output_name p in
           if outputName = [] then Inl OutputNameRequired
           else
             (case expressionValueType rt entity (pr_expression p) of
                Inl e \<Rightarrow> Inl (ProjectionUntyped outputName e)
              | Inr vt \<Rightarrow>
                  Inr \<lparr>pp_expression = pr_expression p,
                       pp_field = \<lparr>f_name = outputName, f_type = vt,
                                   f_type_descriptor = expressionTypeDescriptor rt entity (pr_expression p)\<rparr>\<rparr>)))"

definition planProjections ::
  "runtime \<Rightarrow> entity_definition \<Rightarrow> projection option list \<Rightarrow> im_plan_err + planned_projection list" where
  "planProjections rt entity requested =
     (if requested = [] then Inr (map plan_field (ed_fields entity))
      else traverse (plan_projection rt entity) requested)"

definition evaluateOrderValues ::
  "runtime \<Rightarrow> entity_row \<Rightarrow> order_by option list \<Rightarrow> im_eval_err + value list" where
  "evaluateOrderValues rt row orderBy =
     traverse
       (\<lambda>ob. case ob of
          None \<Rightarrow> Inl OrderingRequired
        | Some o1 \<Rightarrow>
            if ob_expression o1 = None then Inl OrderingRequired else evaluateExpression rt row (ob_expression o1))
       orderBy"

section \<open>Pagination\<close>

definition paginateRows :: "'r list \<Rightarrow> 64 word option \<Rightarrow> 64 word option \<Rightarrow> 'r list" where
  "paginateRows rows offset limit =
     (let start = (case offset of None \<Rightarrow> 0 | Some n \<Rightarrow> n); len = word_of_nat (length rows) :: 64 word in
      if start \<ge> len then []
      else
        (let last = (case limit of Some l \<Rightarrow> if l < len - start then start + l else len | None \<Rightarrow> len)
         in take (unat last - unat start) (drop (unat start) rows)))"

definition defaultBatchSize :: nat where "defaultBatchSize = 100"

definition queryBatchSize :: "32 word option \<Rightarrow> nat" where
  "queryBatchSize requested =
     (case requested of None \<Rightarrow> defaultBatchSize | Some n \<Rightarrow> if n = 0 then defaultBatchSize else unat n)"

section \<open>Output values\<close>

definition sampleSRID :: int where "sampleSRID = 4326"

definition outputValue ::
  "runtime \<Rightarrow> nat \<Rightarrow> string list \<Rightarrow> value \<Rightarrow> lob_state \<Rightarrow> ((go_error + value) \<times> lob_state) option" where
  "outputValue rt n accepted v l =
     (let spatial =
            (if SpatialValuesV1 \<notin> set accepted then v
             else
               (case kind_of v of
                  GeometryValue wkb \<Rightarrow>
                    Value (GeometryWithCrs (Some \<lparr>sp_wkb = wkb, sp_srid = Some sampleSRID, sp_crs = None\<rparr>))
                | GeographyValue wkb \<Rightarrow>
                    Value (GeographyWithCrs (Some \<lparr>sp_wkb = wkb, sp_srid = Some sampleSRID, sp_crs = None\<rparr>))
                | _ \<Rightarrow> v))
      in
      if LobReadV1 \<in> set accepted then
        (case kind_of v of
           BlobValue data \<Rightarrow> newLobValue rt n VALUE_TYPE_BLOB (case data of None \<Rightarrow> [] | Some d \<Rightarrow> d) l
         | ClobValue data \<Rightarrow> newLobValue rt n VALUE_TYPE_CLOB (case data of None \<Rightarrow> [] | Some d \<Rightarrow> d) l
         | _ \<Rightarrow> Some (Inr spatial, l))
      else Some (Inr spatial, l))"

text \<open>A loop that appends a result per element, with state, and returns at the first error.\<close>

fun traverse_state ::
  "('a \<Rightarrow> 's \<Rightarrow> (('e + 'b) \<times> 's) option) \<Rightarrow> 'a list \<Rightarrow> 's \<Rightarrow> (('e + 'b list) \<times> 's) option" where
  "traverse_state f [] s = Some (Inr [], s)"
| "traverse_state f (x # xs) s =
     (case f x s of
        None \<Rightarrow> None
      | Some (Inl e, s1) \<Rightarrow> Some (Inl e, s1)
      | Some (Inr y, s1) \<Rightarrow>
          (case traverse_state f xs s1 of
             None \<Rightarrow> None
           | Some (Inl e, s2) \<Rightarrow> Some (Inl e, s2)
           | Some (Inr ys, s2) \<Rightarrow> Some (Inr (y # ys), s2)))"

text \<open>The values of one tuple: every projection is evaluated and converted in turn.\<close>

definition project_tuple ::
  "runtime \<Rightarrow> nat \<Rightarrow> string list \<Rightarrow> planned_projection list \<Rightarrow> (expression option \<Rightarrow> evaluated) \<Rightarrow> lob_state \<Rightarrow>
   ((go_error + tuple_msg) \<times> lob_state) option" where
  "project_tuple rt n accepted projections evaluate l =
     traverse_state
       (\<lambda>p l.
          case evaluate (pp_expression p) of
            Inl e \<Rightarrow>
              Some (Inl (Status InvalidArgument (InMemoryReason (ImProjection (f_name (pp_field p)) e))), l)
          | Inr v \<Rightarrow>
              (case outputValue rt n accepted v l of
                 None \<Rightarrow> None
               | Some (Inl e, l1) \<Rightarrow> Some (Inl e, l1)
               | Some (Inr x, l1) \<Rightarrow> Some (Inr (Some x), l1)))
       projections l"

section \<open>What pagination returns\<close>

text \<open>
  Slices have fewer than \<open>2 ^ 63\<close> elements; then offset and limit mean what they say, for every
  64-bit value.
\<close>

lemma paginateRows_eq:
  assumes len: "length rows < 2 ^ 63"
  shows "paginateRows rows offset limit =
    (case limit of None \<Rightarrow> id | Some l \<Rightarrow> take (unat l))
      (drop (case offset of None \<Rightarrow> 0 | Some n \<Rightarrow> unat n) rows)"
proof -
  define start where "start = (case offset of None \<Rightarrow> 0 | Some n \<Rightarrow> n)"
  let ?len = "word_of_nat (length rows) :: 64 word"
  have n: "(case offset of None \<Rightarrow> 0 | Some n \<Rightarrow> unat n) = unat start"
    by (simp add: start_def split: option.splits)
  have L: "unat ?len = length rows" using len by (simp add: unat_of_nat)
  show ?thesis
  proof (cases "start \<ge> ?len")
    case True
    then have "length rows \<le> unat start" using L by (simp add: word_le_nat_alt)
    with True show ?thesis
      by (simp add: paginateRows_def Let_def n flip: start_def split: option.splits)
  next
    case False
    then have lt: "unat start < length rows" using L by (simp add: word_le_nat_alt)
    have diff: "unat (?len - start) = length rows - unat start"
      using False L by (simp add: unat_sub)
    show ?thesis
    proof (cases limit)
      case None
      with False L show ?thesis by (simp add: paginateRows_def Let_def n flip: start_def)
    next
      case (Some l)
      show ?thesis
      proof (cases "l < ?len - start")
        case True
        then have ul: "unat l < length rows - unat start" using diff by (simp add: word_less_nat_alt)
        then have "unat start + unat l < 2 ^ 64" using lt len by simp
        then have "unat (start + l) = unat start + unat l" by (simp add: unat_plus_if')
        with Some False True show ?thesis by (simp add: paginateRows_def Let_def n flip: start_def)
      next
        case big: False
        then have "length rows - unat start \<le> unat l" using diff by (simp add: word_less_nat_alt)
        with Some False big L show ?thesis by (simp add: paginateRows_def Let_def n flip: start_def)
      qed
    qed
  qed
qed

lemma queryBatchSize_pos: "0 < queryBatchSize b"
  by (auto simp: queryBatchSize_def defaultBatchSize_def unat_gt_0 split: option.splits)

end
