(* ===== verification/InMemoryAggregates.thy ===== *)
theory InMemoryAggregates
  imports InMemoryPlanning
begin

text \<open>
  Aggregate queries (\<open>providers/inmemory/aggregate.go\<close>): which queries they are, the check
  that only grouped expressions occur outside of aggregates, grouping by the encoding of the
  grouped values, and the evaluation of a query over the groups.

  The map of groups is iterated only to be sorted by its distinct keys, so its order is that
  of the keys; the model keeps it as an association list.
\<close>

section \<open>Recognising aggregates\<close>

lemma size_element: "x \<in> set es \<Longrightarrow> size_option size x \<le> size_list (size_option size) es"
  by (rule size_list_estimation' [OF _ order_refl])

function (sequential) containsAggregate :: "expression option \<Rightarrow> bool" where
  "containsAggregate None = False"
| "containsAggregate (Some (ExprAggregate _ _ _ _)) = True"
| "containsAggregate (Some (ExprComparison _ l r)) = (containsAggregate l \<or> containsAggregate r)"
| "containsAggregate (Some (ExprLogical _ es)) = list_ex containsAggregate es"
| "containsAggregate (Some (ExprNullPredicate _ e)) = containsAggregate e"
| "containsAggregate (Some (ExprPattern _ v p _)) = (containsAggregate v \<or> containsAggregate p)"
| "containsAggregate (Some (ExprFunctionCall _ es)) = list_ex containsAggregate es"
| "containsAggregate (Some _) = False"
  by pat_completeness auto
termination
  by (relation "measure (size_option size)") (auto simp: less_Suc_eq_le dest: size_element)

definition aggregateQuery :: "query_request \<Rightarrow> bool" where
  "aggregateQuery q \<longleftrightarrow>
     length (q_group_by q) > 0 \<or> q_having q \<noteq> None \<or>
     list_ex (\<lambda>p. case p of None \<Rightarrow> False | Some x \<Rightarrow> containsAggregate (pr_expression x)) (q_projections q) \<or>
     list_ex (\<lambda>ob. case ob of None \<Rightarrow> False | Some x \<Rightarrow> containsAggregate (ob_expression x)) (q_order_by q)"

section \<open>Grouped expressions\<close>

function (sequential) validateGroupedExpression ::
  "runtime \<Rightarrow> expression option list \<Rightarrow> bool \<Rightarrow> expression option \<Rightarrow> im_group_err option" where
  "validateGroupedExpression rt groupBy insideAggregate None = None"
| "validateGroupedExpression rt groupBy insideAggregate (Some e) =
     (if \<not> insideAggregate \<and> list_ex (\<lambda>g. case g of None \<Rightarrow> False | Some x \<Rightarrow> im_equal rt x e) groupBy then None
      else
        (case e of
           ExprField name \<Rightarrow>
             if insideAggregate then None
             else Some (FieldNotGrouped (case name of None \<Rightarrow> [] | Some n \<Rightarrow> n))
         | ExprLiteralNil \<Rightarrow> None
         | ExprLiteral _ _ \<Rightarrow> None
         | ExprAggregateNil \<Rightarrow> if insideAggregate then Some NestedAggregate else Some GroupedAggregateRequired
         | ExprAggregate _ es _ _ \<Rightarrow>
             if insideAggregate then Some NestedAggregate
             else first_error (\<lambda>_. validateGroupedExpression rt groupBy True) 0 es
         | ExprComparisonNil \<Rightarrow> Some GroupedComparisonRequired
         | ExprComparison _ l r \<Rightarrow>
             (case validateGroupedExpression rt groupBy insideAggregate l of
                Some err \<Rightarrow> Some err
              | None \<Rightarrow> validateGroupedExpression rt groupBy insideAggregate r)
         | ExprLogicalNil \<Rightarrow> Some GroupedLogicalRequired
         | ExprLogical _ es \<Rightarrow> first_error (\<lambda>_. validateGroupedExpression rt groupBy insideAggregate) 0 es
         | ExprNullPredicateNil \<Rightarrow> Some GroupedNullPredicateRequired
         | ExprNullPredicate _ x \<Rightarrow> validateGroupedExpression rt groupBy insideAggregate x
         | ExprFunctionCallNil \<Rightarrow> Some GroupedFunctionRequired
         | ExprFunctionCall _ es \<Rightarrow> first_error (\<lambda>_. validateGroupedExpression rt groupBy insideAggregate) 0 es
         | ExprPatternNil \<Rightarrow> Some GroupedPatternRequired
         | ExprPattern _ v p _ \<Rightarrow>
             (case validateGroupedExpression rt groupBy insideAggregate v of
                Some err \<Rightarrow> Some err
              | None \<Rightarrow> validateGroupedExpression rt groupBy insideAggregate p)
         | ExprUnset \<Rightarrow> Some GroupedKindRequired))"
  by pat_completeness auto
termination
  by (relation "measure (\<lambda>(rt, g, i, e). size_option size e)")
    (auto simp: less_Suc_eq_le dest: size_element)

section \<open>Groups\<close>

record aggregate_group =
  ag_key :: bytes
  ag_rows :: "entity_row list"

record planned_aggregate_row =
  pa_key :: bytes
  pa_values :: tuple_msg
  pa_orderValues :: "value list"

fun add_to_group :: "bytes \<Rightarrow> entity_row \<Rightarrow> aggregate_group list \<Rightarrow> aggregate_group list" where
  "add_to_group key row [] = [\<lparr>ag_key = key, ag_rows = [row]\<rparr>]"
| "add_to_group key row (g # gs) =
     (if ag_key g = key then g\<lparr>ag_rows := ag_rows g @ [row]\<rparr> # gs else g # add_to_group key row gs)"

definition group_key :: "runtime \<Rightarrow> expression option list \<Rightarrow> entity_row \<Rightarrow> im_eval_err + bytes" where
  "group_key rt groupBy row =
     bind_sum (traverse (evaluateExpression rt row) groupBy) (aggregateValuesKey rt)"

fun collect_groups ::
  "runtime \<Rightarrow> expression option list \<Rightarrow> aggregate_group list \<Rightarrow> entity_row list \<Rightarrow>
   im_eval_err + aggregate_group list" where
  "collect_groups rt groupBy groups [] = Inr groups"
| "collect_groups rt groupBy groups (row # rows) =
     bind_sum (group_key rt groupBy row) (\<lambda>key.
       collect_groups rt groupBy (add_to_group key row groups) rows)"

definition groupAggregateRows ::
  "runtime \<Rightarrow> entity_row list \<Rightarrow> expression option list \<Rightarrow> im_eval_err + aggregate_group list" where
  "groupAggregateRows rt rows groupBy =
     (if groupBy = [] then Inr [\<lparr>ag_key = [], ag_rows = rows\<rparr>]
      else
        bind_sum (collect_groups rt groupBy [] rows) (\<lambda>groups.
          Inr (fst (sliceStable (\<lambda>l r u. (ag_key l < ag_key r, u)) groups ()))))"

text \<open>Groups are ordered by their keys.\<close>

interpretation group_keys: weak_order UNIV "\<lambda>l r. ag_key l < ag_key (r :: aggregate_group)"
  by unfold_locales (auto simp: not_less intro: order_trans)

definition sortAggregateRows ::
  "runtime \<Rightarrow> planned_aggregate_row list \<Rightarrow> order_by option list \<Rightarrow>
   im_compare_err + planned_aggregate_row list" where
  "sortAggregateRows rt rows orderBy = sort_rows rt orderBy pa_key pa_orderValues rows"

section \<open>Aggregate queries\<close>

text \<open>The checks before any row is looked at.\<close>

definition check_aggregate_query ::
  "runtime \<Rightarrow> query_request \<Rightarrow> planned_projection list \<Rightarrow> im_reason option" where
  "check_aggregate_query rt q projections =
     first_of
      [fail_if (q_projections q = []) ImAggregateNeedsProjections,
       fail_if (containsAggregate (q_filter q)) ImAggregateInFilter,
       first_error
         (\<lambda>i e. if e = None then Some (ImGroupByRequired i)
                else fail_if (containsAggregate e) (ImGroupByAggregate i)) 0 (q_group_by q),
       first_error
         (\<lambda>_ p. map_option (ImProjectionNotGrouped (f_name (pp_field p)))
                  (validateGroupedExpression rt (q_group_by q) False (pp_expression p))) 0 projections,
       map_option ImHavingNotGrouped (validateGroupedExpression rt (q_group_by q) False (q_having q)),
       first_error
         (\<lambda>i ob. case ob of
            None \<Rightarrow> Some (ImOrderByRequired i)
          | Some x \<Rightarrow>
              map_option (ImOrderByNotGrouped i)
                (validateGroupedExpression rt (q_group_by q) False (ob_expression x))) 0 (q_order_by q)]"

text \<open>The loop over the rows; \<open>i\<close> counts the looks at the context.\<close>

fun filter_rows ::
  "runtime \<Rightarrow> nat \<Rightarrow> expression option \<Rightarrow> nat \<Rightarrow> entity_row list \<Rightarrow> go_error + entity_row list" where
  "filter_rows rt n condition i [] = Inr []"
| "filter_rows rt n condition i (row # rows) =
     (case im_context rt n i of
        Some e \<Rightarrow> Inl e
      | None \<Rightarrow>
          bind_sum (map_error (\<lambda>e. Status InvalidArgument (InMemoryReason (ImFilter e)))
                      (evaluateFilter rt row condition)) (\<lambda>matches.
          bind_sum (filter_rows rt n condition (Suc i) rows) (\<lambda>rest.
          Inr (if matches then row # rest else rest))))"

text \<open>The loop over the groups.\<close>

fun plan_groups ::
  "runtime \<Rightarrow> nat \<Rightarrow> query_request \<Rightarrow> planned_projection list \<Rightarrow> nat \<Rightarrow> aggregate_group list \<Rightarrow> lob_state \<Rightarrow>
   ((go_error + planned_aggregate_row list) \<times> lob_state) option" where
  "plan_groups rt n q projections i [] l = Some (Inr [], l)"
| "plan_groups rt n q projections i (g # gs) l =
     (case im_context rt n i of
        Some e \<Rightarrow> Some (Inl e, l)
      | None \<Rightarrow>
          (case (if q_having q = None then Inr True
                 else evaluateGroupedBooleanExpression rt (ag_rows g) (q_having q)) of
             Inl e \<Rightarrow> Some (Inl (Status InvalidArgument (InMemoryReason (ImHaving e))), l)
           | Inr False \<Rightarrow> plan_groups rt n q projections (Suc i) gs l
           | Inr True \<Rightarrow>
               (case project_tuple rt n (q_accepted_features q) projections
                       (evaluateGroupedExpression rt (ag_rows g)) l of
                  None \<Rightarrow> None
                | Some (Inl e, l1) \<Rightarrow> Some (Inl e, l1)
                | Some (Inr vs, l1) \<Rightarrow>
                    (case traverse (\<lambda>ob. evaluateGroupedExpression rt (ag_rows g)
                                     (case ob of None \<Rightarrow> None | Some x \<Rightarrow> ob_expression x)) (q_order_by q) of
                       Inl e \<Rightarrow> Some (Inl (Status InvalidArgument (InMemoryReason (ImOrdering e))), l1)
                     | Inr orderValues \<Rightarrow>
                         (case plan_groups rt n q projections (Suc i) gs l1 of
                            None \<Rightarrow> None
                          | Some (Inl e, l2) \<Rightarrow> Some (Inl e, l2)
                          | Some (Inr rest, l2) \<Rightarrow>
                              Some (Inr (\<lparr>pa_key = ag_key g, pa_values = vs, pa_orderValues = orderValues\<rparr> # rest), l2))))))"

definition queryAggregates ::
  "runtime \<Rightarrow> nat \<Rightarrow> query_request \<Rightarrow> planned_projection list \<Rightarrow> entity_row list \<Rightarrow> lob_state \<Rightarrow>
   ((go_error + im_stream) \<times> lob_state) option" where
  "queryAggregates rt n q projections rows l =
     (case check_aggregate_query rt q projections of
        Some e \<Rightarrow> Some (Inl (Status InvalidArgument (InMemoryReason e)), l)
      | None \<Rightarrow>
          (case filter_rows rt n (q_filter q) 0 rows of
             Inl e \<Rightarrow> Some (Inl e, l)
           | Inr filtered \<Rightarrow>
               (case groupAggregateRows rt filtered (q_group_by q) of
                  Inl e \<Rightarrow> Some (Inl (Status InvalidArgument (InMemoryReason (ImGroupRows e))), l)
                | Inr groups \<Rightarrow>
                    (case plan_groups rt n q projections (length rows) groups l of
                       None \<Rightarrow> None
                     | Some (Inl e, l1) \<Rightarrow> Some (Inl e, l1)
                     | Some (Inr planned, l1) \<Rightarrow>
                         (case sortAggregateRows rt planned (q_order_by q) of
                            Inl e \<Rightarrow> Some (Inl (Status InvalidArgument (InMemoryReason (ImSort e))), l1)
                          | Inr srt \<Rightarrow>
                              Some
                                (Inr (newResultStream (map (\<lambda>p. Some (pp_field p)) projections)
                                   (map (\<lambda>r. Some (pa_values r)) (paginateRows srt (q_offset q) (q_limit q)))
                                   (queryBatchSize (q_batch_size q))), l1))))))"

end
