(* ===== verification/InMemoryQuery.thy ===== *)
theory InMemoryQuery
  imports InMemoryAggregates
begin

text \<open>
  \<open>Connection.Query\<close> of \<open>providers/inmemory/query.go\<close>. The connection is locked open for the
  whole call and the store for the snapshot, so the call is a function of the two, of the LOB
  state it threads and of the answers of the runtime to the call with its number. The log
  line of an executed query is not modelled.
\<close>

text \<open>The loop over the rows of a query without aggregates.\<close>

fun plan_rows ::
  "runtime \<Rightarrow> nat \<Rightarrow> query_request \<Rightarrow> nat \<Rightarrow> entity_row list \<Rightarrow> go_error + planned_row list" where
  "plan_rows rt n q i [] = Inr []"
| "plan_rows rt n q i (row # rows) =
     (case im_context rt n i of
        Some e \<Rightarrow> Inl e
      | None \<Rightarrow>
          bind_sum (map_error (\<lambda>e. Status InvalidArgument (InMemoryReason (ImFilter e)))
                      (evaluateFilter rt row (q_filter q))) (\<lambda>matches.
            if \<not> matches then plan_rows rt n q (Suc i) rows
            else
              bind_sum (map_error (\<lambda>e. Status InvalidArgument (InMemoryReason (ImOrdering e)))
                          (evaluateOrderValues rt row (q_order_by q))) (\<lambda>orderValues.
              bind_sum (plan_rows rt n q (Suc i) rows) (\<lambda>rest.
              Inr (\<lparr>pl_row = row, pl_orderValues = orderValues\<rparr> # rest)))))"

definition check_array_feature :: "query_request \<Rightarrow> planned_projection list \<Rightarrow> go_error option" where
  "check_array_feature q projections =
     (if ArrayValuesV1 \<in> set (q_accepted_features q) then None
      else
        first_error
          (\<lambda>_ p. fail_if (f_type (pp_field p) = VALUE_TYPE_ARRAY)
             (Status FailedPrecondition
               (InMemoryReason (ImProjectionNeedsFeature (f_name (pp_field p)) ArrayValuesV1)))) 0 projections)"

text \<open>The last steps of a query without aggregates: pages, tuples and the stream.\<close>

definition deliver_rows ::
  "runtime \<Rightarrow> nat \<Rightarrow> query_request \<Rightarrow> planned_projection list \<Rightarrow> planned_row list \<Rightarrow> lob_state \<Rightarrow>
   ((go_error + im_stream) \<times> lob_state) option" where
  "deliver_rows rt n q projections page l =
     (case traverse_state
             (\<lambda>r. project_tuple rt n (q_accepted_features q) projections (evaluateExpression rt (pl_row r)))
             page l of
        None \<Rightarrow> None
      | Some (Inl e, l1) \<Rightarrow> Some (Inl e, l1)
      | Some (Inr tuples, l1) \<Rightarrow>
          Some
            (Inr (newResultStream (map (\<lambda>p. Some (pp_field p)) projections) (map Some tuples)
               (queryBatchSize (q_batch_size q))), l1))"

text \<open>From the snapshot on.\<close>

definition query_rows ::
  "runtime \<Rightarrow> nat \<Rightarrow> query_request \<Rightarrow> planned_projection list \<Rightarrow> entity_row list \<Rightarrow> lob_state \<Rightarrow>
   ((go_error + im_stream) \<times> lob_state) option" where
  "query_rows rt n q projections rows l =
     (case plan_rows rt n q 0 rows of
        Inl e \<Rightarrow> Some (Inl e, l)
      | Inr planned \<Rightarrow>
          (case sortPlannedRows rt planned (q_order_by q) of
             Inl e \<Rightarrow> Some (Inl (Status InvalidArgument (InMemoryReason (ImSort e))), l)
           | Inr srt \<Rightarrow> deliver_rows rt n q projections (paginateRows srt (q_offset q) (q_limit q)) l))"

definition conn_Query ::
  "runtime \<Rightarrow> nat \<Rightarrow> query_request \<Rightarrow> store \<Rightarrow> im_connection \<Rightarrow>
   ((go_error + im_stream) \<times> im_connection) option" where
  "conn_Query rt n q s c =
     (if ic_closed c then Some (Inl (Status FailedPrecondition (InMemoryReason ImConnectionClosed)), c)
      else
        (case resolveEntity rt (q_entity q) of
           Inl e \<Rightarrow> Some (Inl e, c)
         | Inr entity \<Rightarrow>
             (case planProjections rt entity (q_projections q) of
                Inl e \<Rightarrow> Some (Inl (Status InvalidArgument (InMemoryReason (ImPlan e))), c)
              | Inr projections \<Rightarrow>
                  (case check_array_feature q projections of
                     Some e \<Rightarrow> Some (Inl e, c)
                   | None \<Rightarrow>
                       (let rows = snapshot rt n s entity;
                            l = \<lparr>lo_lobs = ic_lobs c, lo_draws = 0, lo_clocks = 0\<rparr>
                        in map_option (\<lambda>(r, l1). (r, c\<lparr>ic_lobs := lo_lobs l1\<rparr>))
                             (if aggregateQuery q then queryAggregates rt n q projections rows l
                              else query_rows rt n q projections rows l))))))"

section \<open>The rows a query selects\<close>

text \<open>
  Without an error the plan has the rows that the filter accepts, in order, each with the
  values of the ordering expressions.
\<close>

lemma plan_rows_Inr:
  "plan_rows rt n q i rows = Inr planned \<Longrightarrow>
   map pl_row planned = filter (\<lambda>row. evaluateFilter rt row (q_filter q) = Inr True) rows \<and>
   (\<forall>p\<in>set planned. evaluateOrderValues rt (pl_row p) (q_order_by q) = Inr (pl_orderValues p)) \<and>
   (\<forall>row\<in>set rows. \<exists>b. evaluateFilter rt row (q_filter q) = Inr b)"
proof (induction rows arbitrary: i planned)
  case (Cons row rows)
  then obtain m where m: "evaluateFilter rt row (q_filter q) = Inr m"
    by (auto simp: bind_sum_Inr split: option.splits)
  show ?case
  proof (cases m)
    case True
    with Cons.prems m obtain ov rest where "evaluateOrderValues rt row (q_order_by q) = Inr ov"
      "plan_rows rt n q (Suc i) rows = Inr rest" "planned = \<lparr>pl_row = row, pl_orderValues = ov\<rparr> # rest"
      by (auto simp: bind_sum_Inr split: option.splits)
    with Cons.IH [of "Suc i" rest] True m show ?thesis by auto
  next
    case False
    with Cons.prems m have "plan_rows rt n q (Suc i) rows = Inr planned"
      by (auto split: option.splits)
    with Cons.IH [of "Suc i" planned] False m show ?thesis by auto
  qed
qed simp

text \<open>
  The plan of a permutation of the rows is a permutation of the plan, as long as no context
  ends the call.
\<close>

definition undisturbed :: "runtime \<Rightarrow> nat \<Rightarrow> bool" where
  "undisturbed rt n \<longleftrightarrow> (\<forall>i. im_context rt n i = None)"

definition row_plan :: "runtime \<Rightarrow> query_request \<Rightarrow> entity_row \<Rightarrow> planned_row option" where
  "row_plan rt q row =
     (if evaluateFilter rt row (q_filter q) = Inr True
      then Some \<lparr>pl_row = row, pl_orderValues = projr (evaluateOrderValues rt row (q_order_by q))\<rparr> else None)"

definition row_plannable :: "runtime \<Rightarrow> query_request \<Rightarrow> entity_row \<Rightarrow> bool" where
  "row_plannable rt q row \<longleftrightarrow>
     (\<exists>b. evaluateFilter rt row (q_filter q) = Inr b \<and>
        (b \<longrightarrow> (\<exists>vs. evaluateOrderValues rt row (q_order_by q) = Inr vs)))"

lemma plan_rows_eq:
  "undisturbed rt n \<Longrightarrow> \<forall>row\<in>set rows. row_plannable rt q row \<Longrightarrow>
   plan_rows rt n q i rows = Inr (List.map_filter (row_plan rt q) rows)"
proof (induction rows arbitrary: i)
  case (Cons row rows)
  from Cons.prems obtain b where "evaluateFilter rt row (q_filter q) = Inr b"
    "b \<longrightarrow> (\<exists>vs. evaluateOrderValues rt row (q_order_by q) = Inr vs)"
    by (auto simp: row_plannable_def)
  with Cons show ?case
    by (cases b) (auto simp: undisturbed_def row_plan_def List.map_filter_def)
qed (simp add: List.map_filter_def)

lemma map_filter_mset:
  "mset xs = mset ys \<Longrightarrow> mset (List.map_filter f xs) = mset (List.map_filter f ys)"
  unfolding List.map_filter_def by (metis mset_filter mset_map)

text \<open>The order values of the selected rows.\<close>

definition selected_order_values :: "runtime \<Rightarrow> query_request \<Rightarrow> entity_row list \<Rightarrow> value list set" where
  "selected_order_values rt q rows =
     {vs. \<exists>row\<in>set rows. evaluateFilter rt row (q_filter q) = Inr True \<and>
            evaluateOrderValues rt row (q_order_by q) = Inr vs}"

lemma map_filter_facts:
  assumes "\<forall>row\<in>set rows. row_plannable rt q row"
  shows "map pl_row (List.map_filter (row_plan rt q) rows) =
      filter (\<lambda>row. evaluateFilter rt row (q_filter q) = Inr True) rows"
    and "pl_orderValues ` set (List.map_filter (row_plan rt q) rows) = selected_order_values rt q rows"
proof -
  show "map pl_row (List.map_filter (row_plan rt q) rows) =
      filter (\<lambda>row. evaluateFilter rt row (q_filter q) = Inr True) rows"
    by (induction rows) (simp_all add: List.map_filter_def row_plan_def)
  have "evaluateOrderValues rt row (q_order_by q) = Inr (projr (evaluateOrderValues rt row (q_order_by q)))"
    if "row \<in> set rows" "evaluateFilter rt row (q_filter q) = Inr True" for row
    using assms that by (auto simp: row_plannable_def)
  then show "pl_orderValues ` set (List.map_filter (row_plan rt q) rows) = selected_order_values rt q rows"
    by (auto simp: selected_order_values_def List.map_filter_def row_plan_def image_iff split: if_splits)
      (metis sum.sel(2))
qed

lemma row_query_sorted:
  assumes rows: "\<forall>row\<in>set rows. row_plannable rt q row"
    and keys: "distinct (map er_key rows)"
    and cmp: "columns_comparable rt (q_order_by q) (selected_order_values rt q rows)"
    and len: "length rows < 2 ^ 63"
  shows "\<exists>srt. sorted_wrt (row_less rt (q_order_by q) (er_key \<circ> pl_row) pl_orderValues) srt \<and>
    mset (map pl_row srt) = mset (filter (\<lambda>row. evaluateFilter rt row (q_filter q) = Inr True) rows) \<and>
    (\<forall>p\<in>set srt. evaluateOrderValues rt (pl_row p) (q_order_by q) = Inr (pl_orderValues p)) \<and>
    (\<forall>n rows' l. undisturbed rt n \<longrightarrow> mset rows' = mset rows \<longrightarrow>
       query_rows rt n q projections rows' l =
       deliver_rows rt n q projections
         ((case q_limit q of None \<Rightarrow> id | Some k \<Rightarrow> take (unat k))
            (drop (case q_offset q of None \<Rightarrow> 0 | Some k \<Rightarrow> unat k) srt)) l)"
proof -
  let ?planned = "List.map_filter (row_plan rt q) rows"
  note facts = map_filter_facts [OF rows]
  have "map (er_key \<circ> pl_row) ?planned = map er_key (map pl_row ?planned)" by simp
  also have "\<dots> = map er_key (filter (\<lambda>row. evaluateFilter rt row (q_filter q) = Inr True) rows)"
    unfolding facts(1) ..
  finally have "distinct (map (er_key \<circ> pl_row) ?planned)"
    using keys by (simp add: distinct_map_filter)
  moreover have "columns_comparable rt (q_order_by q) (pl_orderValues ` set ?planned)"
    using cmp by (simp add: facts(2))
  ultimately obtain srt where srt: "sort_rows rt (q_order_by q) (er_key \<circ> pl_row) pl_orderValues ?planned = Inr srt"
    "mset srt = mset ?planned" "sorted_wrt (row_less rt (q_order_by q) (er_key \<circ> pl_row) pl_orderValues) srt"
    and perm: "\<forall>xs. mset xs = mset ?planned \<longrightarrow> sort_rows rt (q_order_by q) (er_key \<circ> pl_row) pl_orderValues xs = Inr srt"
    using sort_rows_ordered [of rt "q_order_by q" pl_orderValues ?planned "er_key \<circ> pl_row"] by auto
  have "length srt = length ?planned" using srt(2) by (metis size_mset)
  also have "\<dots> \<le> length rows" by (simp add: List.map_filter_def)
  finally have short: "length srt < 2 ^ 63" using len by simp
  have run: "query_rows rt n q projections rows' l = deliver_rows rt n q projections
       ((case q_limit q of None \<Rightarrow> id | Some k \<Rightarrow> take (unat k))
          (drop (case q_offset q of None \<Rightarrow> 0 | Some k \<Rightarrow> unat k) srt)) l"
    if calm: "undisturbed rt n" and m: "mset rows' = mset rows" for n rows' l
  proof -
    have "\<forall>row\<in>set rows'. row_plannable rt q row" using rows m by (metis set_mset_mset)
    then have "plan_rows rt n q 0 rows' = Inr (List.map_filter (row_plan rt q) rows')"
      by (rule plan_rows_eq [OF calm])
    with perm map_filter_mset [OF m, of "row_plan rt q"] show ?thesis
      by (simp add: query_rows_def sortPlannedRows_def paginateRows_eq [OF short])
  qed
  have sel: "mset (map pl_row srt) = mset (filter (\<lambda>row. evaluateFilter rt row (q_filter q) = Inr True) rows)"
    using srt(2) by (metis facts(1) mset_map)
  have "evaluateOrderValues rt (pl_row p) (q_order_by q) = Inr (pl_orderValues p)" if "p \<in> set srt" for p
  proof -
    from that srt(2) have "p \<in> set ?planned" by (metis set_mset_mset)
    with rows show ?thesis
      by (auto simp: List.map_filter_def row_plan_def row_plannable_def split: if_splits)
  qed
  with run sel srt(3) show ?thesis by blast
qed

end
