(* ===== verification/InMemoryTyping.thy ===== *)
theory InMemoryTyping
  imports InMemoryQuery
begin

text \<open>
  The results of the in-memory provider against the checks of the SDK's server: a query that
  passed the server's validation returns only tuples that the server's own check of output
  batches accepts, for row queries and aggregate queries, with LOB references and coordinate
  systems where the client accepts them.

  \<open>fold_lower_agree\<close> is what the code relies on of the Unicode tables: it finds a field by
  case folding and its value by lower case, and both must name the same field. The literals a
  client projects are taken to be plain, since a literal LOB reference or coordinate system
  passes through unconverted, and so are the result types of aggregates.
\<close>

definition fold_lower_agree :: "runtime \<Rightarrow> bool" where
  "fold_lower_agree rt \<longleftrightarrow>
     (\<forall>d\<in>set entityDefinitions. \<forall>f\<in>set (ed_fields d). \<forall>g\<in>set (ed_fields d). \<forall>s.
        equalName rt (ef_name f) s \<longrightarrow> toLower (im_lower rt) s = ef_name g \<longrightarrow> f = g)"

definition expression_plain :: "expression \<Rightarrow> bool" where
  "expression_plain e \<longleftrightarrow>
     (\<forall>s. occurs s e \<longrightarrow>
        (case s of
           ExprLiteral (Some v) _ \<Rightarrow> plain v
         | ExprAggregate _ _ _ (Some d) \<Rightarrow> td_type d \<noteq> VALUE_TYPE_ARRAY
         | _ \<Rightarrow> True))"

section \<open>Shapes of results\<close>

lemma decide_boolean: "decide stop rs = Inr v \<Longrightarrow> \<exists>b. v = booleanValue b"
  by (induction stop rs rule: decide.induct) (auto simp: bind_sum_Inr split: if_splits)

lemma operator_boolean:
  "evaluateComparison rt operator l r = Inr v \<Longrightarrow> \<exists>b. v = booleanValue b"
  "evaluateLogical operator2 rs = Inr v \<Longrightarrow> \<exists>b. v = booleanValue b"
  "evaluateNullPredicate operator3 x = Inr v \<Longrightarrow> \<exists>b. v = booleanValue b"
proof -
  show "evaluateComparison rt operator l r = Inr v \<Longrightarrow> \<exists>b. v = booleanValue b"
    by (cases operator) (auto simp: evaluateComparison_def bind_sum_Inr split: if_splits)
  show "evaluateLogical operator2 rs = Inr v \<Longrightarrow> \<exists>b. v = booleanValue b"
    by (cases operator2) (auto simp: evaluateLogical_def bind_sum_Inr dest: decide_boolean split: if_splits)
  show "evaluateNullPredicate operator3 x = Inr v \<Longrightarrow> \<exists>b. v = booleanValue b"
    by (cases operator3) (auto simp: evaluateNullPredicate_def bind_sum_Inr)
qed

text \<open>Only fields, literals and aggregates give values that are not truth values.\<close>

lemma evaluate_cases:
  assumes "evaluateExpressionInContext rt c (Some e) = Inr v"
  obtains (a_field) name row where "e = ExprField (Some name)" "cx_row c = Some row" "rowValue rt row name = Inr v"
  | (a_literal) declared where "e = ExprLiteral (Some v) declared"
  | (a_truth) b where "v = booleanValue b"
      "\<And>d. expressionValueType rt d (Some e) = Inr VALUE_TYPE_BOOLEAN \<and> expressionTypeDescriptor rt d (Some e) = None"
  | (an_aggregate) f es dst result where "e = ExprAggregate f es dst result" "cx_grouped c"
      "evaluateAggregate rt (length (cx_rows c)) f (length es)
         (case es of [] \<Rightarrow> [] | x # _ \<Rightarrow> map (\<lambda>row. evaluateExpressionInContext rt (row_context row) x) (cx_rows c))
         dst result = Inr v"
proof (cases e)
  case (ExprField name)
  with assms a_field show ?thesis by (auto split: option.splits if_splits)
next
  case (ExprLiteral lit declared)
  with assms a_literal show ?thesis by (auto split: option.splits)
next
  case (ExprComparison operator l r)
  with assms operator_boolean(1) obtain b where "v = booleanValue b" by (metis evaluateExpressionInContext.simps(6))
  with a_truth ExprComparison show ?thesis by (simp add: expressionValueType_def expressionTypeDescriptor_def)
next
  case (ExprLogical operator es)
  with assms operator_boolean(2) obtain b where "v = booleanValue b" by (metis evaluateExpressionInContext.simps(8))
  with a_truth ExprLogical show ?thesis by (simp add: expressionValueType_def expressionTypeDescriptor_def)
next
  case (ExprNullPredicate operator x)
  with assms operator_boolean(3) obtain b where "v = booleanValue b" by (metis evaluateExpressionInContext.simps(10))
  with a_truth ExprNullPredicate show ?thesis by (simp add: expressionValueType_def expressionTypeDescriptor_def)
next
  case (ExprAggregate f es dst result)
  with assms an_aggregate show ?thesis by (auto split: if_splits)
qed (use assms in \<open>auto split: if_splits\<close>)

section \<open>Types of results\<close>

text \<open>The type a planned field declares.\<close>

definition result_descriptor :: "runtime \<Rightarrow> entity_definition \<Rightarrow> expression option \<Rightarrow> value_type \<Rightarrow> type_descriptor" where
  "result_descriptor rt d e t =
     (case expressionTypeDescriptor rt d e of Some x \<Rightarrow> x | None \<Rightarrow> TypeDescriptor t None None None)"

definition typed_and_plain :: "type_descriptor \<Rightarrow> value \<Rightarrow> bool" where
  "typed_and_plain d v \<longleftrightarrow> wf_descriptor d \<and> has_type d v \<and> plain v"

lemma wf_scalar: "t \<noteq> VALUE_TYPE_UNKNOWN \<Longrightarrow> t \<noteq> VALUE_TYPE_ARRAY \<Longrightarrow> ValueType_known t \<Longrightarrow>
  wf_descriptor (TypeDescriptor t None None None)"
  by (simp add: dimensions_ok_def)

lemma field_types_wf:
  assumes "d \<in> set entityDefinitions" and "f \<in> set (ed_fields d)"
  shows "wf_descriptor (field_type f)" and "td_type (field_type f) = ef_valueType f"
proof -
  have "\<forall>d\<in>set entityDefinitions. \<forall>f\<in>set (ed_fields d). wf_descriptor (field_type f) \<and> td_type (field_type f) = ef_valueType f"
    by (simp add: entityDefinitions_def definition_defs projectFields_def taskFields_def
        auditEventFields_def typeSampleFields_def field_def field_type_def dimensions_ok_def
        ValueType_known_def integer_descriptor_def)
  with assms show "wf_descriptor (field_type f)" "td_type (field_type f) = ef_valueType f" by blast+
qed

lemma row_value_typed:
  assumes agree: "fold_lower_agree rt" and d: "d \<in> set entityDefinitions" and row: "row_typed d row"
    and f: "fieldByName rt d name = Some f" and v: "rowValue rt row name = Inr v"
  shows "has_type (field_type f) v \<and> plain v"
proof -
  from v have look: "er_values row (toLower (im_lower rt) name) = Some v"
    by (simp add: rowValue_def split: option.splits)
  then have "toLower (im_lower rt) name \<in> ef_name ` set (ed_fields d)"
    using row by (auto simp: row_typed_def)
  then obtain g where g: "g \<in> set (ed_fields d)" "toLower (im_lower rt) name = ef_name g" by auto
  from fieldByName_Some [OF f] have "f \<in> set (ed_fields d)" "equalName rt (ef_name f) name" by simp_all
  with agree d g have "f = g" unfolding fold_lower_agree_def by blast
  with row g look show ?thesis by (auto simp: row_typed_def)
qed

lemma row_value_plain:
  assumes "row_typed d row" and "rowValue rt row name = Inr v"
  shows "\<exists>t. has_type t v \<and> plain v"
proof -
  from assms(2) have look: "er_values row (toLower (im_lower rt) name) = Some v"
    by (simp add: rowValue_def split: option.splits)
  then have "toLower (im_lower rt) name \<in> ef_name ` set (ed_fields d)"
    using assms(1) by (auto simp: row_typed_def)
  then obtain g where "g \<in> set (ed_fields d)" "toLower (im_lower rt) name = ef_name g" by auto
  with assms(1) look show ?thesis by (auto simp: row_typed_def)
qed

text \<open>The two ways to ask for the type of a value agree on values that have one.\<close>

lemma valueType_actual:
  "has_type d (Value k) \<Longrightarrow> lob_payload k = None \<Longrightarrow> valueType (Some (Value k)) = Inr t \<Longrightarrow> actual_type k = Inr t"
  by (cases k) (auto simp: valueType_def actual_type_def lob_payload_def has_type_non_array array_parts_def is_null_def
      split: option.splits if_splits)

lemma valueType_known:
  "valueType v = Inr t \<Longrightarrow> t \<noteq> VALUE_TYPE_UNKNOWN \<and> ValueType_known t"
  by (auto simp: valueType_def ValueType_known_def split: option.splits kind.splits)

lemma operand_facts:
  assumes "Some c \<in> set (operands e)"
  shows "well_formed_expression e \<Longrightarrow> well_formed_expression c" and "expression_plain e \<Longrightarrow> expression_plain c"
  using assms unfolding well_formed_expression_def expression_plain_def by (blast intro: occurs.inside)+

lemma literal_typed:
  assumes "well_formed_expression (ExprLiteral (Some v) declared)"
    and "expressionValueType rt d (Some (ExprLiteral (Some v) declared)) = Inr t" and "plain v"
  shows "typed_and_plain (result_descriptor rt d (Some (ExprLiteral (Some v) declared)) t) v \<and>
    td_type (result_descriptor rt d (Some (ExprLiteral (Some v) declared)) t) = t"
proof -
  have ok: "validateValueAgainstDescriptor (Some v) declared = None"
    using assms(1) unfolding well_formed_expression_def by (force simp: expression_ok_def intro: occurs.self)
  show ?thesis
  proof (cases declared)
    case (Some x)
    with ok assms show ?thesis
      by (auto simp: check_simps typed_and_plain_def result_descriptor_def expressionTypeDescriptor_def
          expressionValueType_def)
  next
    case None
    with ok obtain t' where t': "has_type t' v" by (auto simp: check_simps)
    obtain k where v: "v = Value k" by (cases v)
    from None assms(2) have vt: "valueType (Some v) = Inr t" by (simp add: expressionValueType_def)
    show ?thesis
    proof (cases "\<exists>et els. k = ArrayValue et els")
      case True
      then obtain et els where k: "k = ArrayValue et els" by blast
      with vt v have "t = VALUE_TYPE_ARRAY" by (simp add: valueType_def)
      with t' k v None assms(3) show ?thesis
        by (auto simp: typed_and_plain_def result_descriptor_def expressionTypeDescriptor_def
            has_type_ArrayValue dimensions_ok_def ValueType_known_def)
    next
      case False
      with t' v have np: "array_parts k = None"
        using has_type_Value [of t' k] by (auto dest: is_null_array_parts)
      have lob: "lob_payload k = None" using assms(3) v by (simp add: plain_Value)
      from valueType_actual [OF _ lob] t' vt v have act: "actual_type k = Inr t" by blast
      then have "t \<noteq> VALUE_TYPE_ARRAY" using np False
        by (cases k) (auto simp: actual_type_def array_parts_def split: option.splits if_splits)
      moreover have "result_descriptor rt d (Some (ExprLiteral (Some v) declared)) t = TypeDescriptor t None None None"
        using False None v by (auto simp: result_descriptor_def expressionTypeDescriptor_def split: kind.splits)
      ultimately show ?thesis
        using valueType_known [OF vt] np act v assms(3)
        by (simp add: typed_and_plain_def wf_scalar has_type_non_array del: wf_descriptor.simps)
    qed
  qed
qed

section \<open>Aggregates\<close>

lemma aggregate_values_subset: "aggregate_values rt dst seen rs = Inr vs \<Longrightarrow> v \<in> set vs \<Longrightarrow> Inr v \<in> set rs"
proof (induction rs arbitrary: dst seen vs)
  case (Cons r rs)
  then obtain x where "r = Inr x" by (auto simp: bind_sum_Inr)
  with Cons.prems show ?case
    by (auto simp: bind_sum_Inr simp del: aggregateValuesKey.simps split: if_splits dest: Cons.IH)
qed simp

lemma select_extreme_in: "select_extreme rt better x vs = Inr v \<Longrightarrow> v \<in> insert x (set vs)"
proof (induction vs arbitrary: x)
  case (Cons c vs)
  then obtain order where "select_extreme rt better (if better order then c else x) vs = Inr v"
    by (auto simp: bind_sum_Inr)
  with Cons.IH [of "if better order then c else x"] show ?case by (auto split: if_splits)
qed simp

lemma number_typed:
  assumes "aggregateNumberValue rt x (Some d) = Inr v" and "wf_descriptor d"
  shows "typed_and_plain d v"
proof -
  obtain k where v: "v = Value k" by (cases v)
  from aggregateNumberValue_typed [OF assms(1)] v have "actual_type k = Inr (td_type d)" "array_parts k = None"
    by simp_all
  moreover have "\<not> is_spatial k \<and> lob_payload k = None"
    using assms(1) v
    by (auto simp: aggregateNumberValue_def integral_result_def value_defs is_spatial_def lob_payload_def Let_def
        split: if_splits prod.splits)
  ultimately show ?thesis
    using assms(2) v by (simp add: typed_and_plain_def has_type_non_array scalar_plain)
qed

lemma coerced_typed:
  assumes "coerceAggregateValue rt v (Some d) = Inr w" and "wf_descriptor d" and "td_type d \<noteq> VALUE_TYPE_ARRAY"
    and "has_type t v" and "plain v"
  shows "typed_and_plain d w"
proof -
  obtain k where v: "v = Value k" by (cases v)
  from assms(1) obtain vt where vt: "valueType (Some v) = Inr vt" by (auto simp: coerceAggregateValue_def split: sum.splits)
  show ?thesis
  proof (cases "vt = td_type d")
    case True
    with assms(1) vt have w: "w = v" by (simp add: coerceAggregateValue_def)
    have lob: "lob_payload k = None" using assms(5) v by (simp add: plain_Value)
    from valueType_actual [OF _ lob] assms(4) vt v True have act: "actual_type k = Inr (td_type d)" by blast
    with assms(3) have "array_parts k = None"
      by (cases k) (auto simp: actual_type_def array_parts_def)
    with act assms w v show ?thesis by (simp add: typed_and_plain_def has_type_non_array)
  next
    case False
    with assms(1,2) vt number_typed [of rt _ d w] show ?thesis
      by (auto simp: coerceAggregateValue_def split: sum.splits)
  qed
qed

lemma null_typed: "wf_descriptor d \<Longrightarrow> typed_and_plain d nullValue"
  by (simp add: typed_and_plain_def nullValue_def has_type_non_array kind_class_defs scalar_plain)

lemma aggregate_typed:
  assumes ev: "evaluateAggregate rt rows f nargs args dst (Some d) = Inr v"
    and d: "wf_descriptor d" "td_type d \<noteq> VALUE_TYPE_ARRAY"
    and args: "\<And>w. Inr w \<in> set args \<Longrightarrow> \<exists>t. has_type t w \<and> plain w"
  shows "typed_and_plain d v"
proof -
  consider (number) x where "aggregateNumberValue rt x (Some d) = Inr v"
    | (null) "v = nullValue"
    | (extreme) w where "Inr w \<in> set args" "coerceAggregateValue rt w (Some d) = Inr v"
  proof (cases "f = AGGREGATE_FUNCTION_COUNT_STAR")
    case True
    with ev number show ?thesis by (auto simp: evaluateAggregate_def split: if_splits)
  next
    case False
    with ev obtain vs where vs: "aggregate_values rt dst [] args = Inr vs"
      by (auto simp: evaluateAggregate_def bind_sum_Inr split: if_splits)
    show ?thesis
    proof (cases "f = AGGREGATE_FUNCTION_MIN \<or> f = AGGREGATE_FUNCTION_MAX")
      case True
      show ?thesis
      proof (cases vs)
        case Nil
        with ev True False vs null show ?thesis by (auto simp: evaluateAggregate_def split: if_splits)
      next
        case (Cons x xs)
        with ev True False vs obtain better w where w: "select_extreme rt better x xs = Inr w"
          "coerceAggregateValue rt w (Some d) = Inr v"
          by (auto simp: evaluateAggregate_def bind_sum_Inr split: if_splits)
        have "Inr w \<in> set args"
          using select_extreme_in [OF w(1)] aggregate_values_subset [OF vs] Cons by auto
        with w(2) extreme show ?thesis by blast
      qed
    next
      case notmin: False
      with ev False vs number null show ?thesis
        by (auto simp: evaluateAggregate_def bind_sum_Inr split: if_splits)
    qed
  qed
  then show ?thesis
  proof cases
    case (number x)
    then show ?thesis using d(1) by (rule number_typed)
  next
    case null
    then show ?thesis using d(1) by (simp add: null_typed)
  next
    case (extreme w)
    with args obtain t where "has_type t w" "plain w" by blast
    then show ?thesis by (rule coerced_typed [OF extreme(2) d])
  qed
qed

section \<open>Every expression\<close>

lemma expression_self:
  "well_formed_expression e \<Longrightarrow> expression_ok e"
  "expression_plain e \<Longrightarrow>
     (case e of
        ExprLiteral (Some v) _ \<Rightarrow> plain v
      | ExprAggregate _ _ _ (Some d) \<Rightarrow> td_type d \<noteq> VALUE_TYPE_ARRAY
      | _ \<Rightarrow> True)"
  unfolding well_formed_expression_def expression_plain_def using occurs.self [of e] by blast+

lemma evaluated_plain:
  assumes "row_typed d row" and "well_formed_expression e" and "expression_plain e"
    and "evaluateExpressionInContext rt (row_context row) (Some e) = Inr v"
  shows "\<exists>t. has_type t v \<and> plain v"
  using assms(4)
proof (cases rule: evaluate_cases)
  case (a_field name row')
  with assms(1) row_value_plain show ?thesis by (auto simp: row_context_def)
next
  case (a_literal declared)
  with expression_self [of e] assms(2,3) show ?thesis
    by (cases declared) (auto simp: expression_ok_def check_simps)
next
  case (a_truth b)
  then show ?thesis by (metis typed_scalar(9) typed_scalar(10))
next
  case (an_aggregate f es dst result)
  then show ?thesis by (simp add: row_context_def)
qed

definition context_typed :: "entity_definition \<Rightarrow> expression_context \<Rightarrow> bool" where
  "context_typed d c \<longleftrightarrow> (\<forall>row. cx_row c = Some row \<longrightarrow> row_typed d row) \<and> (\<forall>row\<in>set (cx_rows c). row_typed d row)"

lemma evaluated_typed:
  assumes agree: "fold_lower_agree rt" and d: "d \<in> set entityDefinitions" and c: "context_typed d c"
    and wf: "well_formed_expression e" "expression_plain e"
    and ty: "expressionValueType rt d (Some e) = Inr t"
    and ev: "evaluateExpressionInContext rt c (Some e) = Inr v"
  shows "typed_and_plain (result_descriptor rt d (Some e) t) v \<and> td_type (result_descriptor rt d (Some e) t) = t"
  using ev
proof (cases rule: evaluate_cases)
  case (a_field name row)
  with ty obtain f where f: "fieldByName rt d name = Some f" "t = ef_valueType f"
    by (auto simp: expressionValueType_def split: option.splits)
  then have "result_descriptor rt d (Some e) t = field_type f"
    using a_field by (simp add: result_descriptor_def expressionTypeDescriptor_def field_type_def)
  moreover have "row_typed d row" using c a_field by (simp add: context_typed_def)
  ultimately show ?thesis
    using row_value_typed [OF agree d _ f(1)] a_field field_types_wf [OF d] fieldByName_Some [OF f(1)] f(2)
    by (auto simp: typed_and_plain_def)
next
  case (a_literal declared)
  with literal_typed [of v declared rt d t] expression_self(2) [OF wf(2)] wf(1) ty show ?thesis by simp
next
  case (a_truth b)
  with ty have "t = VALUE_TYPE_BOOLEAN" "result_descriptor rt d (Some e) t = TypeDescriptor VALUE_TYPE_BOOLEAN None None None"
    by (simp_all add: result_descriptor_def)
  with a_truth show ?thesis
    by (simp add: typed_and_plain_def wf_scalar ValueType_known_def del: wf_descriptor.simps)
next
  case (an_aggregate f es dst result)
  with ty obtain r where r: "result = Some r" "t = td_type r"
    by (auto simp: expressionValueType_def split: option.splits)
  have ok: "expression_ok e" "td_type r \<noteq> VALUE_TYPE_ARRAY"
    using expression_self [of e] wf an_aggregate(1) r(1) by simp_all
  then have "wf_descriptor r" using an_aggregate(1) r(1) by (simp add: expression_ok_def)
  moreover have "\<exists>t. has_type t w \<and> plain w"
    if w: "Inr w \<in> set (case es of [] \<Rightarrow> [] | x # _ \<Rightarrow> map (\<lambda>row. evaluateExpressionInContext rt (row_context row) x) (cx_rows c))"
    for w
  proof -
    from w obtain x xs row where x: "es = x # xs" "row \<in> set (cx_rows c)"
      "evaluateExpressionInContext rt (row_context row) x = Inr w"
      by (auto split: list.splits)
    then obtain y where y: "x = Some y" by (cases x) auto
    then have "Some y \<in> set (operands e)" using x an_aggregate(1) by (simp add: operands_def)
    from operand_facts [OF this] wf evaluated_plain [of d row y rt w] x y c show ?thesis
      by (auto simp: context_typed_def)
  qed
  ultimately have "typed_and_plain r v"
    using aggregate_typed [OF an_aggregate(3) [unfolded r(1)]] ok(2) by blast
  with an_aggregate(1) r show ?thesis
    by (simp add: result_descriptor_def expressionTypeDescriptor_def)
qed

section \<open>Output values\<close>

text \<open>\<open>crypto/rand\<close> fills the buffer, and the clock does not run before 1970.\<close>

definition random_fills :: "runtime \<Rightarrow> bool" where
  "random_fills rt \<longleftrightarrow> (\<forall>n k bs. im_random rt n k = Some bs \<longrightarrow> length bs = inMemoryLobIDBytes)"

definition clock_runs :: "runtime \<Rightarrow> bool" where
  "clock_runs rt \<longleftrightarrow> (\<forall>n k. 0 \<le> im_clock rt n k)"

lemma fresh_lob_id_result:
  assumes "fresh_lob_id random lobs k = Some (Some i, k')"
  shows "\<exists>j bs. random j = Some bs \<and> i = encodeToString bs \<and> lobs i = None"
proof -
  have "\<forall>i. fst y = Some i \<longrightarrow> (\<exists>j bs. random j = Some bs \<and> i = encodeToString bs \<and> lobs i = None)"
    if "fresh_lob_id random lobs k = Some y" for y
    using that
    by (rule fresh_lob_id.raw_induct [rotated]) (fastforce split: option.splits if_splits)
  from this [OF assms] show ?thesis by simp
qed

lemma newLobValue_accepted:
  assumes ok: "random_fills rt" "clock_runs rt" and vt: "vt = VALUE_TYPE_BLOB \<or> vt = VALUE_TYPE_CLOB"
    and new: "newLobValue rt n vt data l = Some (Inr x, l1)"
  shows "\<exists>r. x = Value (LobReference (Some r)) \<and> lob_reference_ok r \<and> lob_type r = vt"
proof -
  let ?e = "(im_clock rt n (lo_clocks l) + inMemoryLobRetention) div 1000000"
  from new obtain i k where fresh: "fresh_lob_id (im_random rt n) (lo_lobs l) (lo_draws l) = Some (Some i, k)"
    and x: "x = Value (LobReference (Some
         \<lparr>lob_id = i, lob_type = vt, lob_size_bytes = Some (word_of_nat (length data)),
          lob_session_id = [], lob_expires_at = Some ?e\<rparr>))"
    by (auto simp: newLobValue_def Let_def split: option.splits if_splits)
  from fresh_lob_id_result [OF fresh] obtain j bs where "im_random rt n j = Some bs" "i = encodeToString bs" by blast
  with ok(1) have "length i = 32" by (simp add: random_fills_def encodeToString_length inMemoryLobIDBytes_def)
  then have "i \<noteq> []" by auto
  moreover have "0 < ?e"
  proof -
    have "0 \<le> im_clock rt n (lo_clocks l)" using ok(2) by (simp add: clock_runs_def)
    then have "300000000000 div 1000000 \<le> ?e" unfolding inMemoryLobRetention_def by (intro zdiv_mono1) simp_all
    then show ?thesis by simp
  qed
  ultimately show ?thesis using vt x by (auto simp: lob_reference_ok_def)
qed

lemma plain_accepted:
  assumes "has_type d v" and "plain v" and "td_type d = VALUE_TYPE_ARRAY \<Longrightarrow> ArrayValuesV1 \<in> set accepted"
    and "inside w (Some v)"
  shows "uses_accepted accepted lobs (kind_of w)"
proof -
  have "ArrayValuesV1 \<in> set accepted" if "is_array (kind_of w)"
  proof -
    obtain k where v: "v = Value k" by (cases v)
    have "is_array k"
      using assms(4) that unfolding v inside_Value by (auto simp: array_elements_def is_array_def split: kind.splits)
    with assms(1) v have "td_type d = VALUE_TYPE_ARRAY"
      by (cases k) (auto simp: is_array_def has_type_ArrayValue has_type_non_array array_parts_def is_null_def actual_type_def)
    with assms(3) show ?thesis .
  qed
  with assms(2,4) show ?thesis by (simp add: plain_def uses_accepted_def)
qed

lemma outputValue_accepted:
  assumes ok: "random_fills rt" "clock_runs rt" and v: "has_type d v" "plain v"
    and arr: "td_type d = VALUE_TYPE_ARRAY \<Longrightarrow> ArrayValuesV1 \<in> set accepted"
    and out: "outputValue rt n accepted v l = Some (Inr x, l1)"
  shows "has_type d x \<and> (\<forall>w. inside w (Some x) \<longrightarrow> uses_accepted accepted True (kind_of w))"
proof -
  obtain k where k: "v = Value k" by (cases v)
  consider (same) "x = v"
    | (lob) vt data where "LobReadV1 \<in> set accepted" "newLobValue rt n vt data l = Some (Inr x, l1)"
        "k = BlobValue (Some data) \<and> vt = VALUE_TYPE_BLOB \<or> k = ClobValue (Some data) \<and> vt = VALUE_TYPE_CLOB"
    | (geo) sp where "SpatialValuesV1 \<in> set accepted" "x = Value (GeometryWithCrs (Some sp))" "\<exists>b. k = GeometryValue b"
    | (graphy) sp where "SpatialValuesV1 \<in> set accepted" "x = Value (GeographyWithCrs (Some sp))" "\<exists>b. k = GeographyValue b"
  proof -
    have "data \<noteq> None" if "k = BlobValue data \<or> k = ClobValue data" for data
      using v(1) that k by (auto simp: has_type_non_array kind_class_defs split: if_splits)
    with out k that show ?thesis
      by (cases k) (auto simp: outputValue_def Let_def split: if_splits option.splits)
  qed
  then show ?thesis
  proof cases
    case same
    with plain_accepted [OF v arr] v(1) show ?thesis by simp
  next
    case lob
    then obtain r where r: "x = Value (LobReference (Some r))" "lob_reference_ok r" "lob_type r = vt"
      using newLobValue_accepted [OF ok _ lob(2)] by blast
    have "td_type d = vt" using lob(3) v(1) k by (auto simp: has_type_non_array kind_class_defs)
    with r lob show ?thesis
      by (auto simp: has_type_non_array kind_class_defs inside_Value array_elements_def uses_accepted_def
          is_array_def lob_reference_ok_def)
  qed (use v(1) k in \<open>auto simp: has_type_non_array kind_class_defs inside_Value array_elements_def uses_accepted_def
        is_array_def\<close>)
qed

section \<open>Tuples\<close>

definition planned_ok :: "runtime \<Rightarrow> entity_definition \<Rightarrow> planned_projection \<Rightarrow> bool" where
  "planned_ok rt d p \<longleftrightarrow>
     (\<exists>e. pp_expression p = Some e \<and> expressionValueType rt d (Some e) = Inr (f_type (pp_field p)) \<and>
        f_type_descriptor (pp_field p) = expressionTypeDescriptor rt d (Some e) \<and>
        well_formed_expression e \<and> expression_plain e)"

lemma lower_char: "ascii_lower c = c \<Longrightarrow> \<not> (65 \<le> (of_char c :: nat) \<and> (of_char c :: nat) \<le> 90)"
proof
  assume "ascii_lower c = c" and range: "65 \<le> (of_char c :: nat) \<and> (of_char c :: nat) \<le> 90"
  then have "char_of ((of_char c :: nat) + 32) = c" by (simp add: ascii_lower_def)
  then have "of_char (char_of ((of_char c :: nat) + 32)) = (of_char c :: nat)" by simp
  with range show False by simp
qed

lemma ascii_upper_code:
  "(of_char (ascii_upper c) :: nat) =
     (if 97 \<le> (of_char c :: nat) \<and> (of_char c :: nat) \<le> 122 then of_char c - 32 else of_char c)"
proof -
  have "(of_char c :: nat) - 32 < 256" by (rule le_less_trans [OF diff_le_self]) simp
  then show ?thesis by (simp add: ascii_upper_def)
qed

lemma upper_code_inj:
  fixes a b :: nat
  assumes "\<not> (65 \<le> a \<and> a \<le> 90)" and "\<not> (65 \<le> b \<and> b \<le> 90)"
    and "(if 97 \<le> a \<and> a \<le> 122 then a - 32 else a) = (if 97 \<le> b \<and> b \<le> 122 then b - 32 else b)"
  shows "a = b"
  using assms by (simp split: if_splits; arith)

lemma upper_inj:
  assumes "ascii_lower c = c" and "ascii_lower d = d" and "ascii_upper c = ascii_upper d"
  shows "c = d"
proof -
  from assms(3) have "(of_char (ascii_upper c) :: nat) = of_char (ascii_upper d)" by simp
  then have "(of_char c :: nat) = of_char d"
    unfolding ascii_upper_code by (rule upper_code_inj [OF lower_char [OF assms(1)] lower_char [OF assms(2)]])
  then show ?thesis by simp
qed

lemma equalName_lower:
  assumes "list_all (\<lambda>c. ascii c \<and> ascii_lower c = c) s" and "list_all (\<lambda>c. ascii c \<and> ascii_lower c = c) t"
  shows "equalName rt s t \<longleftrightarrow> s = t"
proof -
  have "list_all ascii s" "list_all ascii t" using assms by (simp_all add: list_all_iff)
  then have "equalName rt s t \<longleftrightarrow> map ascii_upper s = map ascii_upper t"
    by (simp add: equalName_def equalFold_ascii)
  also have "\<dots> \<longleftrightarrow> s = t"
  proof
    assume "map ascii_upper s = map ascii_upper t"
    moreover have "inj_on ascii_upper (set s \<union> set t)"
    proof (rule inj_onI)
      fix c d assume "c \<in> set s \<union> set t" "d \<in> set s \<union> set t" and eq: "ascii_upper c = ascii_upper d"
      with assms have "ascii_lower c = c" "ascii_lower d = d" by (auto simp only: list_all_iff)
      then show "c = d" using eq by (rule upper_inj)
    qed
    ultimately show "s = t" by (rule map_inj_on)
  qed simp
  finally show ?thesis .
qed

lemma find_distinct: "distinct (map g xs) \<Longrightarrow> x \<in> set xs \<Longrightarrow> find (\<lambda>y. g y = g x) xs = Some x"
  by (induction xs) auto

lemma fieldByName_self:
  assumes d: "d \<in> set entityDefinitions" and f: "f \<in> set (ed_fields d)"
  shows "fieldByName rt d (ef_name f) = Some f"
proof -
  have "fieldByName rt d (ef_name f) = find (\<lambda>g. ef_name g = ef_name f) (ed_fields d)"
    unfolding fieldByName_def
    using f equalName_lower [OF lower_name [OF d] lower_name [OF d]] by (intro find_cong) auto
  also have "distinct (map ef_name (ed_fields d))"
    using d by (auto simp: entityDefinitions_def definition_defs projectFields_def taskFields_def
        auditEventFields_def typeSampleFields_def field_def)
  then have "find (\<lambda>g. ef_name g = ef_name f) (ed_fields d) = Some f" using f by (rule find_distinct)
  finally show ?thesis .
qed

lemma occurs_field: "occurs s (ExprField name) \<longleftrightarrow> s = ExprField name"
  by (subst occurs.simps) (auto simp: operands_def)

lemma field_expression_ok: "well_formed_expression (ExprField name)" "expression_plain (ExprField name)"
  by (simp_all add: well_formed_expression_def expression_plain_def occurs_field expression_ok_def)

lemma list_all2_right: "list_all2 P xs ys \<Longrightarrow> y \<in> set ys \<Longrightarrow> \<exists>x\<in>set xs. P x y"
  by (induction rule: list_all2_induct) auto

lemma planProjections_ok:
  assumes d: "d \<in> set entityDefinitions" and plan: "planProjections rt d (q_projections q) = Inr ps"
    and wf: "well_formed_query q"
    and lit: "\<And>x e. Some x \<in> set (q_projections q) \<Longrightarrow> pr_expression x = Some e \<Longrightarrow> expression_plain e"
  shows "\<forall>p\<in>set ps. planned_ok rt d p"
proof (cases "q_projections q = []")
  case True
  with plan have "ps = map plan_field (ed_fields d)" by (simp add: planProjections_def)
  moreover have "planned_ok rt d (plan_field f)" if "f \<in> set (ed_fields d)" for f
    using fieldByName_self [OF d that, of rt] field_expression_ok
    by (simp add: planned_ok_def plan_field_def expressionValueType_def expressionTypeDescriptor_def)
  ultimately show ?thesis by simp
next
  case False
  with plan have all: "list_all2 (\<lambda>x p. plan_projection rt d x = Inr p) (q_projections q) ps"
    by (simp add: planProjections_def traverse_Inr)
  show ?thesis
  proof
    fix p assume "p \<in> set ps"
    from list_all2_right [OF all this] obtain x
      where x: "x \<in> set (q_projections q)" "plan_projection rt d x = Inr p" ..
    from x(2) obtain y where y: "x = Some y" by (auto simp: plan_projection_def split: option.splits)
    with x obtain t e where t: "expressionValueType rt d (pr_expression y) = Inr t" "pr_expression y = Some e"
      "pp_expression p = Some e" "f_type (pp_field p) = t"
      "f_type_descriptor (pp_field p) = expressionTypeDescriptor rt d (Some e)"
      by (cases "pr_expression y") (auto simp: plan_projection_def Let_def expressionValueType_def split: if_splits sum.splits)
    have "well_formed_expression e"
      using wf x(1) y t(2) unfolding well_formed_query_def query_expressions_def by blast
    with t lit [of y e] x(1) y show "planned_ok rt d p" by (auto simp: planned_ok_def)
  qed
qed

lemma planned_descriptor:
  assumes "planned_ok rt d p"
  shows "field_descriptor (pp_field p) = result_descriptor rt d (pp_expression p) (f_type (pp_field p))"
  using assms by (auto simp: planned_ok_def field_descriptor_def result_descriptor_def)

definition column_ok :: "string list \<Rightarrow> planned_projection \<Rightarrow> value option \<Rightarrow> bool" where
  "column_ok accepted p v \<longleftrightarrow>
     wf_descriptor (field_descriptor (pp_field p)) \<and> td_type (field_descriptor (pp_field p)) = f_type (pp_field p) \<and>
     (\<exists>x. v = Some x \<and> has_type (field_descriptor (pp_field p)) x \<and>
        (\<forall>w. inside w (Some x) \<longrightarrow> uses_accepted accepted True (kind_of w)))"

lemma traverse_state_Inr:
  "traverse_state f xs s = Some (Inr ys, s') \<Longrightarrow> list_all2 (\<lambda>x y. \<exists>a b. f x a = Some (Inr y, b)) xs ys"
proof (induction xs arbitrary: s ys)
  case (Cons x xs)
  then obtain y s1 zs where "f x s = Some (Inr y, s1)" "traverse_state f xs s1 = Some (Inr zs, s')" "ys = y # zs"
    by (auto split: option.splits sum.splits prod.splits)
  with Cons.IH show ?case by auto
qed simp

lemma project_tuple_typed:
  assumes ok: "random_fills rt" "clock_runs rt" "fold_lower_agree rt" and d: "d \<in> set entityDefinitions"
    and c: "context_typed d c" and ps: "\<forall>p\<in>set ps. planned_ok rt d p"
    and arr: "\<forall>p\<in>set ps. f_type (pp_field p) = VALUE_TYPE_ARRAY \<longrightarrow> ArrayValuesV1 \<in> set accepted"
    and run: "project_tuple rt n accepted ps (evaluateExpressionInContext rt c) l = Some (Inr vs, l')"
  shows "list_all2 (column_ok accepted) ps vs"
  using traverse_state_Inr [OF run [unfolded project_tuple_def]]
proof (rule list.rel_mono_strong)
  fix p v assume p: "p \<in> set ps" "v \<in> set vs"
  assume "\<exists>a b. (case evaluateExpressionInContext rt c (pp_expression p) of
      Inl e \<Rightarrow> Some (Inl (Status InvalidArgument (InMemoryReason (ImProjection (f_name (pp_field p)) e))), a)
    | Inr v \<Rightarrow> case outputValue rt n accepted v a of None \<Rightarrow> None | Some (Inl e, l1) \<Rightarrow> Some (Inl e, l1)
        | Some (Inr x, l1) \<Rightarrow> Some (Inr (Some x), l1)) = Some (Inr v, b)"
  then obtain a b u x where ev: "evaluateExpressionInContext rt c (pp_expression p) = Inr u"
    and out: "outputValue rt n accepted u a = Some (Inr x, b)" and v: "v = Some x"
    by (elim exE) (split sum.split_asm; simp split: option.split_asm prod.split_asm sum.split_asm)
  from ps p have pok: "planned_ok rt d p" by blast
  then obtain e where e: "pp_expression p = Some e" "expressionValueType rt d (Some e) = Inr (f_type (pp_field p))"
    "well_formed_expression e" "expression_plain e" by (auto simp: planned_ok_def)
  note ty = evaluated_typed [OF ok(3) d c e(3,4,2)]
  let ?d = "field_descriptor (pp_field p)"
  from ty ev e(1) have "typed_and_plain ?d u" "td_type ?d = f_type (pp_field p)"
    unfolding planned_descriptor [OF pok] by auto
  then have u: "wf_descriptor ?d" "has_type ?d u" "plain u" "td_type ?d = f_type (pp_field p)"
    by (simp_all add: typed_and_plain_def)
  moreover have "td_type ?d = VALUE_TYPE_ARRAY \<Longrightarrow> ArrayValuesV1 \<in> set accepted" using arr p(1) u(4) by auto
  from outputValue_accepted [OF ok(1,2) u(2,3) this out]
  have "has_type ?d x \<and> (\<forall>w. inside w (Some x) \<longrightarrow> uses_accepted accepted True (kind_of w))" .
  ultimately show "column_ok accepted p v" unfolding column_ok_def v by blast
qed

section \<open>Batches\<close>

lemma accepted_batch:
  assumes "ts \<noteq> []" and tuples: "\<forall>t\<in>set ts. list_all2 (column_ok accepted) ps t"
    and arr: "\<forall>p\<in>set ps. f_type (pp_field p) = VALUE_TYPE_ARRAY \<longrightarrow> ArrayValuesV1 \<in> set accepted"
  shows "validateOutputBatchFeatures
     (Some \<lparr>b_fields = map (\<lambda>p. Some (pp_field p)) ps, b_tuples = map Some ts\<rparr>) accepted True = None"
proof -
  let ?ds = "map (\<lambda>p. Some (field_descriptor (pp_field p))) ps"
  from assms(1,2) obtain t where "list_all2 (column_ok accepted) ps t" by (cases ts) auto
  then have cols: "wf_descriptor (field_descriptor (pp_field p))" "td_type (field_descriptor (pp_field p)) = f_type (pp_field p)"
    if "p \<in> set ps" for p
    using that by (auto simp: list_all2_conv_all_nth in_set_conv_nth column_ok_def)
  have "list_all2 typed_field (map (\<lambda>p. Some (pp_field p)) ps) ?ds"
    using cols by (auto simp: list_all2_conv_all_nth typed_field_def)
  moreover have "tuple_typed ?ds t" if "t \<in> set ts" for t
    unfolding tuple_typed_def list.rel_map
    by (rule list.rel_mono_strong [OF bspec [OF tuples that]]) (auto simp: column_ok_def)
  ultimately have "output_batch_typed \<lparr>b_fields = map (\<lambda>p. Some (pp_field p)) ps, b_tuples = map Some ts\<rparr>"
    by (auto simp: output_batch_typed_def)
  moreover have "ArrayValuesV1 \<in> set accepted" if "p \<in> set ps" "field_is_array (Some (pp_field p))" for p
    using that arr cols(2) [of p] by (auto simp: field_is_array_def field_descriptor_def split: option.splits)
  moreover have "uses_accepted accepted True (kind_of w)"
    if t: "t \<in> set ts" "v \<in> set t" and w: "inside w v" for t v w
  proof -
    from list_all2_right [OF bspec [OF tuples t(1)] t(2)] obtain p where "column_ok accepted p v" by blast
    with w show ?thesis by (auto simp: column_ok_def)
  qed
  ultimately show ?thesis by (auto simp: validateOutputBatchFeatures_None batch_values_def)
qed

lemma check_array_feature_None:
  "check_array_feature q ps = None \<longleftrightarrow>
     (\<forall>p\<in>set ps. f_type (pp_field p) = VALUE_TYPE_ARRAY \<longrightarrow> ArrayValuesV1 \<in> set (q_accepted_features q))"
proof -
  have "first_error (\<lambda>_ p. fail_if (f_type (pp_field p) = VALUE_TYPE_ARRAY) (g p)) 0 ps = None \<longleftrightarrow>
      (\<forall>p\<in>set ps. f_type (pp_field p) \<noteq> VALUE_TYPE_ARRAY)" for g :: "planned_projection \<Rightarrow> go_error"
    by (rule first_error_None_all) (simp add: fail_if_def)
  then show ?thesis by (auto simp: check_array_feature_def)
qed

section \<open>Streams\<close>

text \<open>The columns of a stream are those of the plan, and each of its tuples fills them.\<close>

definition stream_typed :: "string list \<Rightarrow> planned_projection list \<Rightarrow> im_stream \<Rightarrow> bool" where
  "stream_typed accepted ps s \<longleftrightarrow>
     is_fields s = map (\<lambda>p. Some (pp_field p)) ps \<and> is_index s = 0 \<and> \<not> is_closed s \<and> 0 < is_batchSize s \<and>
     (\<forall>t\<in>set (is_tuples s). \<exists>vs. t = Some vs \<and> list_all2 (column_ok accepted) ps vs)"

lemma new_stream_typed:
  assumes "\<forall>t\<in>set ts. list_all2 (column_ok accepted) ps t"
  shows "stream_typed accepted ps
    (newResultStream (map (\<lambda>p. Some (pp_field p)) ps) (map Some ts) (queryBatchSize b))"
  using assms by (auto simp: stream_typed_def newResultStream_def queryBatchSize_pos)

lemma plan_rows_set:
  "plan_rows rt n q i rows = Inr planned \<Longrightarrow> p \<in> set planned \<Longrightarrow> pl_row p \<in> set rows"
  using plan_rows_Inr [of rt n q i rows planned] by (metis (no_types, lifting) filter_is_subset in_mono list.set_map image_eqI)

lemma sort_rows_set: "sort_rows rt obs key vals rows = Inr srt \<Longrightarrow> set srt = set rows"
  by (auto simp: sort_rows_def sliceStable_set split: prod.splits option.splits)
    (metis fst_conv sliceStable_set)+

lemma paginateRows_set: "r \<in> set (paginateRows rows offset limit) \<Longrightarrow> r \<in> set rows"
  by (auto simp: paginateRows_def Let_def split: if_splits dest!: in_set_takeD in_set_dropD)

lemma query_rows_typed:
  assumes ok: "random_fills rt" "clock_runs rt" "fold_lower_agree rt" and d: "d \<in> set entityDefinitions"
    and rows: "\<forall>row\<in>set rows. row_typed d row" and ps: "\<forall>p\<in>set ps. planned_ok rt d p"
    and arr: "\<forall>p\<in>set ps. f_type (pp_field p) = VALUE_TYPE_ARRAY \<longrightarrow> ArrayValuesV1 \<in> set (q_accepted_features q)"
    and run: "query_rows rt n q ps rows l = Some (Inr stream, l')"
  shows "stream_typed (q_accepted_features q) ps stream"
proof -
  let ?f = "\<lambda>r. project_tuple rt n (q_accepted_features q) ps (evaluateExpression rt (pl_row r))"
  from run obtain planned srt where plan: "plan_rows rt n q 0 rows = Inr planned"
      "sortPlannedRows rt planned (q_order_by q) = Inr srt"
    and page: "deliver_rows rt n q ps (paginateRows srt (q_offset q) (q_limit q)) l = Some (Inr stream, l')"
    by (auto simp: query_rows_def split: sum.splits)
  from page obtain ts where ts: "traverse_state ?f (paginateRows srt (q_offset q) (q_limit q)) l = Some (Inr ts, l')"
    and stream: "stream = newResultStream (map (\<lambda>p. Some (pp_field p)) ps) (map Some ts) (queryBatchSize (q_batch_size q))"
    by (auto simp: deliver_rows_def split: option.splits sum.splits prod.splits)
  have "list_all2 (column_ok (q_accepted_features q)) ps t" if t: "t \<in> set ts" for t
  proof -
    from list_all2_right [OF traverse_state_Inr [OF ts] t] obtain r a b
      where r: "r \<in> set (paginateRows srt (q_offset q) (q_limit q))" "?f r a = Some (Inr t, b)" by blast
    have "r \<in> set planned"
      using paginateRows_set [OF r(1)] sort_rows_set [OF plan(2) [unfolded sortPlannedRows_def]] by simp
    from plan_rows_set [OF plan(1) this] rows have "row_typed d (pl_row r)" by blast
    then have "context_typed d (row_context (pl_row r))" by (simp add: context_typed_def row_context_def)
    from project_tuple_typed [OF ok d this ps arr] r(2) show ?thesis
      by (simp add: evaluateExpression_def [abs_def])
  qed
  then show ?thesis unfolding stream by (intro new_stream_typed) blast
qed

text \<open>Groups hold rows of the entity only.\<close>

lemma filter_rows_subset: "filter_rows rt n e i rows = Inr rs \<Longrightarrow> set rs \<subseteq> set rows"
  by (induction rows arbitrary: i rs) (auto simp: bind_sum_Inr split: option.splits if_splits, fastforce+)

lemma add_to_group_rows:
  "g \<in> set (add_to_group key row gs) \<Longrightarrow> r \<in> set (ag_rows g) \<Longrightarrow> r = row \<or> (\<exists>g'\<in>set gs. r \<in> set (ag_rows g'))"
  by (induction gs) (auto split: if_splits)

lemma collect_groups_rows:
  "collect_groups rt groupBy gs rows = Inr gs' \<Longrightarrow> g \<in> set gs' \<Longrightarrow> r \<in> set (ag_rows g) \<Longrightarrow>
   r \<in> set rows \<or> (\<exists>g'\<in>set gs. r \<in> set (ag_rows g'))"
proof (induction rows arbitrary: gs)
  case (Cons row rows)
  then obtain key where "collect_groups rt groupBy (add_to_group key row gs) rows = Inr gs'"
    by (auto simp: bind_sum_Inr)
  from Cons.IH [OF this Cons.prems(2,3)] add_to_group_rows [of _ key row gs r] show ?case by auto
qed auto

lemma groupAggregateRows_rows:
  assumes "groupAggregateRows rt rows groupBy = Inr gs" and "g \<in> set gs" and "r \<in> set (ag_rows g)"
  shows "r \<in> set rows"
proof (cases "groupBy = []")
  case False
  with assms obtain gs' where gs': "collect_groups rt groupBy [] rows = Inr gs'" "set gs = set gs'"
    by (auto simp: groupAggregateRows_def bind_sum_Inr sliceStable_set)
  with collect_groups_rows [OF gs'(1), of g r] assms show ?thesis by simp
qed (use assms in \<open>auto simp: groupAggregateRows_def\<close>)

lemma plan_groups_typed:
  assumes ok: "random_fills rt" "clock_runs rt" "fold_lower_agree rt" and d: "d \<in> set entityDefinitions"
    and ps: "\<forall>p\<in>set ps. planned_ok rt d p"
    and arr: "\<forall>p\<in>set ps. f_type (pp_field p) = VALUE_TYPE_ARRAY \<longrightarrow> ArrayValuesV1 \<in> set (q_accepted_features q)"
  shows "plan_groups rt n q ps i gs l = Some (Inr planned, l') \<Longrightarrow>
    \<forall>g\<in>set gs. \<forall>row\<in>set (ag_rows g). row_typed d row \<Longrightarrow>
    \<forall>r\<in>set planned. list_all2 (column_ok (q_accepted_features q)) ps (pa_values r)"
proof (induction gs arbitrary: i l planned)
  case (Cons g gs)
  let ?h = "if q_having q = None then Inr True else evaluateGroupedBooleanExpression rt (ag_rows g) (q_having q)"
  from Cons.prems(1) have "im_context rt n i = None" by (simp split: option.splits)
  moreover from this Cons.prems(1) obtain b where "?h = Inr b" by (cases ?h) auto
  ultimately consider "plan_groups rt n q ps (Suc i) gs l = Some (Inr planned, l')"
    | vs l1 ovs rest where "project_tuple rt n (q_accepted_features q) ps (evaluateGroupedExpression rt (ag_rows g)) l = Some (Inr vs, l1)"
        "plan_groups rt n q ps (Suc i) gs l1 = Some (Inr rest, l')"
        "planned = \<lparr>pa_key = ag_key g, pa_values = vs, pa_orderValues = ovs\<rparr> # rest"
    using Cons.prems(1) by (cases b) (auto split: option.splits sum.splits prod.splits)
  then show ?case
  proof cases
    case 1
    with Cons show ?thesis by simp
  next
    case 2
    have "context_typed d (group_context (ag_rows g))"
      using Cons.prems(2) by (auto simp: context_typed_def group_context_def split: list.splits)
    from project_tuple_typed [OF ok d this ps arr] 2(1) have "list_all2 (column_ok (q_accepted_features q)) ps vs"
      by (simp add: evaluateGroupedExpression_def [abs_def])
    with Cons.IH [OF 2(2)] Cons.prems(2) 2(3) show ?thesis by simp
  qed
qed simp

lemma queryAggregates_typed:
  assumes ok: "random_fills rt" "clock_runs rt" "fold_lower_agree rt" and d: "d \<in> set entityDefinitions"
    and rows: "\<forall>row\<in>set rows. row_typed d row" and ps: "\<forall>p\<in>set ps. planned_ok rt d p"
    and arr: "\<forall>p\<in>set ps. f_type (pp_field p) = VALUE_TYPE_ARRAY \<longrightarrow> ArrayValuesV1 \<in> set (q_accepted_features q)"
    and run: "queryAggregates rt n q ps rows l = Some (Inr stream, l')"
  shows "stream_typed (q_accepted_features q) ps stream"
proof -
  from run obtain filtered gs planned srt where steps: "filter_rows rt n (q_filter q) 0 rows = Inr filtered"
      "groupAggregateRows rt filtered (q_group_by q) = Inr gs"
      "plan_groups rt n q ps (length rows) gs l = Some (Inr planned, l')"
      "sortAggregateRows rt planned (q_order_by q) = Inr srt"
    and stream: "stream = newResultStream (map (\<lambda>p. Some (pp_field p)) ps)
       (map Some (map pa_values (paginateRows srt (q_offset q) (q_limit q)))) (queryBatchSize (q_batch_size q))"
    by (auto simp: queryAggregates_def comp_def split: option.splits sum.splits prod.splits)
  have "\<forall>g\<in>set gs. \<forall>row\<in>set (ag_rows g). row_typed d row"
    using groupAggregateRows_rows [OF steps(2)] filter_rows_subset [OF steps(1)] rows by blast
  from plan_groups_typed [OF ok d ps arr steps(3) this]
  have "list_all2 (column_ok (q_accepted_features q)) ps (pa_values r)"
    if "r \<in> set (paginateRows srt (q_offset q) (q_limit q))" for r
    using paginateRows_set [OF that] sort_rows_set [OF steps(4) [unfolded sortAggregateRows_def]] by blast
  then show ?thesis unfolding stream by (intro new_stream_typed) auto
qed

text \<open>The literals and the result types of aggregates a query projects.\<close>

definition query_plain :: "query_request \<Rightarrow> bool" where
  "query_plain q \<longleftrightarrow>
     (\<forall>x e. Some x \<in> set (q_projections q) \<longrightarrow> pr_expression x = Some e \<longrightarrow> expression_plain e)"

lemma conn_Query_typed:
  assumes ok: "random_fills rt" "clock_runs rt" "fold_lower_agree rt" "ranges_all rt"
    and s: "store_ok rt s" and q: "validateQueryRequestValues q = None" "query_plain q"
    and run: "conn_Query rt n q s c = Some (Inr stream, c')"
  obtains ps where "stream_typed (q_accepted_features q) ps stream"
    and "\<forall>p\<in>set ps. f_type (pp_field p) = VALUE_TYPE_ARRAY \<longrightarrow> ArrayValuesV1 \<in> set (q_accepted_features q)"
proof -
  let ?l = "\<lparr>lo_lobs = ic_lobs c, lo_draws = 0, lo_clocks = 0\<rparr>"
  from run obtain d ps l' where d: "resolveEntity rt (q_entity q) = Inr d"
    and ps: "planProjections rt d (q_projections q) = Inr ps" and arr: "check_array_feature q ps = None"
    and rows: "(if aggregateQuery q then queryAggregates rt n q ps (snapshot rt n s d) ?l
                else query_rows rt n q ps (snapshot rt n s d) ?l) = Some (Inr stream, l')"
    by (auto simp: conn_Query_def Let_def split: if_splits sum.splits option.splits)
  note d' = resolveEntity_Inr [OF d]
  have wf: "well_formed_query q"
    using q(1) by (simp add: validateQueryRequestValues_None well_formed_query_def well_formed_expression_def)
  have planned: "\<forall>p\<in>set ps. planned_ok rt d p"
    using planProjections_ok [OF d' ps wf] q(2) by (simp add: query_plain_def)
  note arr' = arr [unfolded check_array_feature_None]
  note snap = snapshot_rows(1) [OF ok(4) s d']
  have "stream_typed (q_accepted_features q) ps stream"
    using rows queryAggregates_typed [OF ok(1-3) d' snap planned arr'] query_rows_typed [OF ok(1-3) d' snap planned arr']
    by (auto split: if_splits)
  with arr' that show ?thesis by blast
qed

end
