(* ===== verification/InMemoryMutations.thy ===== *)
theory InMemoryMutations
  imports InMemoryTyping "HOL-Library.AList"
begin

text \<open>
  \<open>providers/inmemory/mutation.go\<close>: inserting, updating and deleting tasks. The connection is
  locked open for the whole call and the store while it is read and changed, so an operation
  is a function of the store. The ranges over the map of tasks visit it in the order the
  runtime chooses for the call.

  The search for an unused identifier counts through the 64-bit numbers and wraps around;
  with all of them used it would not return, so it is a partial function.
\<close>

section \<open>Values of fields\<close>

definition stringFromValue :: "value option \<Rightarrow> im_expected + string" where
  "stringFromValue v = (case v of Some (Value (StringValue s)) \<Rightarrow> Inr s | _ \<Rightarrow> Inl ExpectedString)"

definition booleanFromValue :: "value option \<Rightarrow> im_expected + bool" where
  "booleanFromValue v = (case v of Some (Value (BooleanValue b)) \<Rightarrow> Inr b | _ \<Rightarrow> Inl ExpectedBoolean)"

definition integerFromValue :: "value option \<Rightarrow> im_expected + int" where
  "integerFromValue v = (case v of Some (Value (IntegerValue i)) \<Rightarrow> Inr i | _ \<Rightarrow> Inl ExpectedInteger)"

definition clobFromValue :: "value option \<Rightarrow> im_expected + string" where
  "clobFromValue v = (case v of Some (Value (ClobValue (Some s))) \<Rightarrow> Inr s | _ \<Rightarrow> Inl ExpectedClob)"

definition floatFromValue :: "value option \<Rightarrow> im_expected + 32 word" where
  "floatFromValue v = (case v of Some (Value (FloatValue x)) \<Rightarrow> Inr x | _ \<Rightarrow> Inl ExpectedFloat)"

definition timestampFromValue :: "value option \<Rightarrow> im_expected + string" where
  "timestampFromValue v = (case v of Some (Value (TimestampValue s)) \<Rightarrow> Inr s | _ \<Rightarrow> Inl ExpectedTimestamp)"

lemmas from_value_defs = stringFromValue_def booleanFromValue_def integerFromValue_def clobFromValue_def
  floatFromValue_def timestampFromValue_def

definition affectedRows :: "nat \<Rightarrow> 64 word option" where
  "affectedRows n = Some (word_of_nat n)"

section \<open>Inserted rows\<close>

text \<open>The loop over the fields of the batch; \<open>seen\<close> has the canonical names so far.\<close>

fun row_fields :: "runtime \<Rightarrow> string list \<Rightarrow> field_msg option list \<Rightarrow> im_rows_err + string list" where
  "row_fields rt seen [] = Inr []"
| "row_fields rt seen (f # fs) =
     (case f of
        None \<Rightarrow> Inl RowFieldNameRequired
      | Some fl \<Rightarrow>
          if f_name fl = [] then Inl RowFieldNameRequired
          else
            (case taskFieldByName rt (f_name fl) of
               None \<Rightarrow> Inl (RowFieldUnknown (f_name fl))
             | Some taskField \<Rightarrow>
                 if ef_name taskField \<in> set seen then Inl (RowFieldDuplicate (f_name fl))
                 else
                   bind_sum (row_fields rt (ef_name taskField # seen) fs) (\<lambda>names.
                     Inr (ef_name taskField # names))))"

text \<open>The body of the loop over the fields of a tuple, with the row and whether its title is set.\<close>

definition row_value :: "nat \<Rightarrow> string \<Rightarrow> value option \<Rightarrow> task \<times> bool \<Rightarrow> im_rows_err + (task \<times> bool)" where
  "row_value tupleIndex fieldName v rowTitle =
     (case rowTitle of (row, titleSet) \<Rightarrow>
        if fieldName = ''id'' then
          (if isNullValue v then Inr (row, titleSet)
           else
             bind_sum (map_error (RowValue tupleIndex ''id'') (stringFromValue v)) (\<lambda>x.
               Inr (row\<lparr>t_ID := x\<rparr>, titleSet)))
        else if fieldName = ''project_id'' then
          bind_sum (map_error (RowValue tupleIndex ''project_id'') (stringFromValue v)) (\<lambda>x.
            Inr (row\<lparr>t_ProjectID := x\<rparr>, titleSet))
        else if fieldName = ''title'' then
          bind_sum (map_error (RowValue tupleIndex ''title'') (stringFromValue v)) (\<lambda>x.
            Inr (row\<lparr>t_Title := x\<rparr>, True))
        else if fieldName = ''description'' then
          (if isNullValue v then Inr (row\<lparr>t_Description := None\<rparr>, titleSet)
           else
             bind_sum (map_error (RowValue tupleIndex ''description'') (clobFromValue v)) (\<lambda>x.
               Inr (row\<lparr>t_Description := Some x\<rparr>, titleSet)))
        else if fieldName = ''completed'' then
          bind_sum (map_error (RowValue tupleIndex ''completed'') (booleanFromValue v)) (\<lambda>x.
            Inr (row\<lparr>t_Completed := x\<rparr>, titleSet))
        else if fieldName = ''priority'' then
          bind_sum (map_error (RowValue tupleIndex ''priority'') (integerFromValue v)) (\<lambda>x.
            Inr (row\<lparr>t_Priority := x\<rparr>, titleSet))
        else if fieldName = ''estimate_hours'' then
          (if isNullValue v then Inr (row\<lparr>t_EstimateHours := None\<rparr>, titleSet)
           else
             bind_sum (map_error (RowValue tupleIndex ''estimate_hours'') (floatFromValue v)) (\<lambda>x.
               Inr (row\<lparr>t_EstimateHours := Some x\<rparr>, titleSet)))
        else if fieldName = ''due_at'' then
          (if isNullValue v then Inr (row\<lparr>t_DueAt := None\<rparr>, titleSet)
           else
             bind_sum (map_error (RowValue tupleIndex ''due_at'') (timestampFromValue v)) (\<lambda>x.
               Inr (row\<lparr>t_DueAt := Some x\<rparr>, titleSet)))
        else Inr (row, titleSet))"

fun row_values ::
  "nat \<Rightarrow> (string \<times> value option) list \<Rightarrow> task \<times> bool \<Rightarrow> im_rows_err + (task \<times> bool)" where
  "row_values tupleIndex [] rowTitle = Inr rowTitle"
| "row_values tupleIndex ((fieldName, v) # vs) rowTitle =
     bind_sum (row_value tupleIndex fieldName v rowTitle) (row_values tupleIndex vs)"

definition empty_task :: task where
  "empty_task =
     \<lparr>t_ID = [], t_ProjectID = ''project-1'', t_Title = [], t_Description = None, t_Completed = False,
      t_Priority = 0, t_EstimateHours = None, t_DueAt = None\<rparr>"

definition parse_tuple :: "string list \<Rightarrow> nat \<Rightarrow> tuple_msg option \<Rightarrow> im_rows_err + task" where
  "parse_tuple fieldNames tupleIndex tuple =
     (case tuple of
        None \<Rightarrow> Inl (RowTupleRequired tupleIndex)
      | Some vs \<Rightarrow>
          if length vs \<noteq> length fieldNames then
            Inl (RowTupleArity tupleIndex (length vs) (length fieldNames))
          else
            bind_sum (row_values tupleIndex (zip fieldNames vs) (empty_task, False)) (\<lambda>(row, titleSet).
              if \<not> titleSet then Inl (RowTitleRequired tupleIndex) else Inr row))"

fun parse_tuples :: "string list \<Rightarrow> nat \<Rightarrow> tuple_msg option list \<Rightarrow> im_rows_err + task list" where
  "parse_tuples fieldNames i [] = Inr []"
| "parse_tuples fieldNames i (t # ts) =
     bind_sum (parse_tuple fieldNames i t) (\<lambda>row.
     bind_sum (parse_tuples fieldNames (Suc i) ts) (\<lambda>rows. Inr (row # rows)))"

definition parseInsertRows :: "runtime \<Rightarrow> tuple_batch option \<Rightarrow> im_rows_err + task list" where
  "parseInsertRows rt rows =
     (case rows of
        None \<Rightarrow> Inl RowsRequired
      | Some b \<Rightarrow> bind_sum (row_fields rt [] (b_fields b)) (\<lambda>names. parse_tuples names 0 (b_tuples b)))"

section \<open>Identifiers\<close>

definition task_id :: "64 word \<Rightarrow> string" where
  "task_id n = ''task-'' @ itoa (uint n)"

partial_function (option) fresh_task_id :: "(string \<Rightarrow> bool) \<Rightarrow> 64 word \<Rightarrow> (string \<times> 64 word) option" where
  "fresh_task_id used nextID =
     (if used (task_id nextID) then fresh_task_id used (nextID + 1) else Some (task_id nextID, nextID + 1))"

declare fresh_task_id.simps [code]

fun prepareInsertedTasks ::
  "string set \<Rightarrow> string list \<Rightarrow> 64 word \<Rightarrow> task list \<Rightarrow> ((go_error + task list) \<times> 64 word) option" where
  "prepareInsertedTasks existing pendingIDs nextID [] = Some (Inr [], nextID)"
| "prepareInsertedTasks existing pendingIDs nextID (draft # drafts) =
     (case (if t_ID draft = [] then fresh_task_id (\<lambda>i. i \<in> existing \<or> i \<in> set pendingIDs) nextID
            else Some (t_ID draft, nextID)) of
        None \<Rightarrow> None
      | Some (taskID, nextID1) \<Rightarrow>
          if taskID \<in> existing then
            Some (Inl (Status AlreadyExists (InMemoryReason (ImTaskExists taskID))), nextID1)
          else if taskID \<in> set pendingIDs then
            Some (Inl (Status AlreadyExists (InMemoryReason (ImTaskTwice taskID))), nextID1)
          else
            (case prepareInsertedTasks existing (taskID # pendingIDs) nextID1 drafts of
               None \<Rightarrow> None
             | Some (Inl e, nextID2) \<Rightarrow> Some (Inl e, nextID2)
             | Some (Inr inserted, nextID2) \<Rightarrow> Some (Inr (draft\<lparr>t_ID := taskID\<rparr> # inserted), nextID2)))"

definition resolveTaskFields :: "runtime \<Rightarrow> string list \<Rightarrow> string + entity_field list" where
  "resolveTaskFields rt names =
     traverse (\<lambda>name. case taskFieldByName rt name of None \<Rightarrow> Inl name | Some f \<Rightarrow> Inr f) names"

section \<open>Insert\<close>

text \<open>The part that holds the lock of the store.\<close>

definition put_tasks :: "task list \<Rightarrow> (string \<times> task) list \<Rightarrow> (string \<times> task) list" where
  "put_tasks rows tasks = fold (\<lambda>row. AList.update (t_ID row) row) rows tasks"

definition insert_tasks :: "task list \<Rightarrow> store \<Rightarrow> ((go_error + task list) \<times> store) option" where
  "insert_tasks drafts s =
     (case prepareInsertedTasks (fst ` set (st_tasks s)) [] (st_nextID s) drafts of
        None \<Rightarrow> None
      | Some (Inl e, nextID) \<Rightarrow> Some (Inl e, s)
      | Some (Inr inserted, nextID) \<Rightarrow>
          Some (Inr inserted, s\<lparr>st_tasks := put_tasks inserted (st_tasks s), st_nextID := nextID\<rparr>))"

definition insert_reply ::
  "runtime \<Rightarrow> task list \<Rightarrow> entity_field list \<Rightarrow> go_error + insert_response" where
  "insert_reply rt inserted returningFields =
     (if length returningFields > 0 then
        bind_sum
          (map_error (\<lambda>e. Status Internal (InMemoryReason (ImGeneratedValues e)))
            (traverse (\<lambda>row. taskTuple rt row returningFields) inserted))
          (\<lambda>tuples.
            Inr \<lparr>i_affected_rows = affectedRows (length inserted),
                 i_generated_values =
                   Some \<lparr>b_fields = providerFields returningFields, b_tuples = map Some tuples\<rparr>\<rparr>)
      else Inr \<lparr>i_affected_rows = affectedRows (length inserted), i_generated_values = None\<rparr>)"

definition conn_Insert ::
  "runtime \<Rightarrow> nat \<Rightarrow> insert_request \<Rightarrow> store \<Rightarrow> im_connection \<Rightarrow> ((go_error + insert_response) \<times> store) option" where
  "conn_Insert rt n req s c =
     (if ic_closed c then Some (Inl (Status FailedPrecondition (InMemoryReason ImConnectionClosed)), s)
      else
        (case validateMutableTaskEntity rt (i_entity req) of
           Some e \<Rightarrow> Some (Inl e, s)
         | None \<Rightarrow>
             (case parseInsertRows rt (i_rows req) of
                Inl e \<Rightarrow> Some (Inl (Status InvalidArgument (InMemoryReason (ImInsertRows e))), s)
              | Inr drafts \<Rightarrow>
                  (case resolveTaskFields rt (i_returning_fields req) of
                     Inl e \<Rightarrow> Some (Inl (Status InvalidArgument (InMemoryReason (ImReturningFields e))), s)
                   | Inr returningFields \<Rightarrow>
                       (case im_context rt n 0 of
                          Some e \<Rightarrow> Some (Inl e, s)
                        | None \<Rightarrow>
                            (case insert_tasks drafts s of
                               None \<Rightarrow> None
                             | Some (Inl e, s1) \<Rightarrow> Some (Inl e, s1)
                             | Some (Inr inserted, s1) \<Rightarrow> Some (insert_reply rt inserted returningFields, s1)))))))"

section \<open>Update\<close>

fun check_assignments ::
  "runtime \<Rightarrow> string list \<Rightarrow> assignment option list \<Rightarrow> im_assignments_err + assignment list" where
  "check_assignments rt seen [] = Inr []"
| "check_assignments rt seen (a # as) =
     (case a of
        None \<Rightarrow> Inl AssignmentFieldRequired
      | Some x \<Rightarrow>
          if as_field x = [] then Inl AssignmentFieldRequired
          else
            (case taskFieldByName rt (as_field x) of
               None \<Rightarrow> Inl (AssignmentFieldUnknown (as_field x))
             | Some f \<Rightarrow>
                 if ef_name f = ''id'' then Inl AssignmentToId
                 else if as_value x = None then Inl (AssignmentValueRequired (as_field x))
                 else if ef_name f \<in> set seen then Inl (AssignmentDuplicate (as_field x))
                 else bind_sum (check_assignments rt (ef_name f # seen) as) (\<lambda>rest. Inr (x # rest))))"

definition validateAssignments ::
  "runtime \<Rightarrow> assignment option list \<Rightarrow> im_assignments_err + assignment list" where
  "validateAssignments rt assignments =
     (if assignments = [] then Inl AssignmentsEmpty else check_assignments rt [] assignments)"

definition assignTaskValue :: "runtime \<Rightarrow> string \<Rightarrow> value \<Rightarrow> task \<Rightarrow> im_assign_err + task" where
  "assignTaskValue rt fieldName v row =
     (if isNullValue (Some v) then
        (if equalName rt fieldName ''description'' then Inr (row\<lparr>t_Description := None\<rparr>)
         else if equalName rt fieldName ''estimate_hours'' then Inr (row\<lparr>t_EstimateHours := None\<rparr>)
         else if equalName rt fieldName ''due_at'' then Inr (row\<lparr>t_DueAt := None\<rparr>)
         else Inl (AssignNotNullable fieldName))
      else if equalName rt fieldName ''project_id'' then
        bind_sum (map_error AssignConversion (stringFromValue (Some v))) (\<lambda>x. Inr (row\<lparr>t_ProjectID := x\<rparr>))
      else if equalName rt fieldName ''title'' then
        bind_sum (map_error AssignConversion (stringFromValue (Some v))) (\<lambda>x. Inr (row\<lparr>t_Title := x\<rparr>))
      else if equalName rt fieldName ''description'' then
        bind_sum (map_error AssignConversion (clobFromValue (Some v))) (\<lambda>x. Inr (row\<lparr>t_Description := Some x\<rparr>))
      else if equalName rt fieldName ''completed'' then
        bind_sum (map_error AssignConversion (booleanFromValue (Some v))) (\<lambda>x. Inr (row\<lparr>t_Completed := x\<rparr>))
      else if equalName rt fieldName ''priority'' then
        bind_sum (map_error AssignConversion (integerFromValue (Some v))) (\<lambda>x. Inr (row\<lparr>t_Priority := x\<rparr>))
      else if equalName rt fieldName ''estimate_hours'' then
        bind_sum (map_error AssignConversion (floatFromValue (Some v))) (\<lambda>x. Inr (row\<lparr>t_EstimateHours := Some x\<rparr>))
      else if equalName rt fieldName ''due_at'' then
        bind_sum (map_error AssignConversion (timestampFromValue (Some v))) (\<lambda>x. Inr (row\<lparr>t_DueAt := Some x\<rparr>))
      else Inl (AssignNotUpdatable fieldName))"

text \<open>The loop over the assignments of one row: every value is computed from the old row.\<close>

fun apply_assignments :: "runtime \<Rightarrow> task \<Rightarrow> assignment list \<Rightarrow> task \<Rightarrow> go_error + task" where
  "apply_assignments rt row [] next_row = Inr next_row"
| "apply_assignments rt row (a # as) next_row =
     bind_sum
       (map_error (\<lambda>e. Status InvalidArgument (InMemoryReason (ImAssignmentValue (as_field a) e)))
         (evaluateExpression rt (taskRow rt row) (as_value a))) (\<lambda>v.
     bind_sum
       (map_error (\<lambda>e. Status InvalidArgument (InMemoryReason (ImAssignmentApply (as_field a) e)))
         (assignTaskValue rt (as_field a) v next_row))
       (apply_assignments rt row as))"

fun update_rows ::
  "runtime \<Rightarrow> nat \<Rightarrow> expression option \<Rightarrow> assignment list \<Rightarrow> nat \<Rightarrow> (string \<times> task) list \<Rightarrow>
   go_error + (string \<times> task) list" where
  "update_rows rt n condition assignments i [] = Inr []"
| "update_rows rt n condition assignments i ((taskID, row) # rows) =
     (case im_context rt n i of
        Some e \<Rightarrow> Inl e
      | None \<Rightarrow>
          bind_sum
            (map_error (\<lambda>e. Status InvalidArgument (InMemoryReason (ImUpdateFilter e)))
              (evaluateFilter rt (taskRow rt row) condition)) (\<lambda>matches.
            if \<not> matches then update_rows rt n condition assignments (Suc i) rows
            else
              bind_sum (apply_assignments rt row assignments row) (\<lambda>next_row.
              bind_sum (update_rows rt n condition assignments (Suc i) rows) (\<lambda>updated.
              Inr ((taskID, next_row) # updated)))))"

definition conn_Update ::
  "runtime \<Rightarrow> nat \<Rightarrow> update_request \<Rightarrow> store \<Rightarrow> im_connection \<Rightarrow> (go_error + update_response) \<times> store" where
  "conn_Update rt n req s c =
     (if ic_closed c then (Inl (Status FailedPrecondition (InMemoryReason ImConnectionClosed)), s)
      else
        (case validateMutableTaskEntity rt (u_entity req) of
           Some e \<Rightarrow> (Inl e, s)
         | None \<Rightarrow>
             (case validateAssignments rt (u_assignments req) of
                Inl e \<Rightarrow> (Inl (Status InvalidArgument (InMemoryReason (ImAssignments e))), s)
              | Inr assignments \<Rightarrow>
                  (case update_rows rt n (u_filter req) assignments 0 (im_range rt n (st_tasks s)) of
                     Inl e \<Rightarrow> (Inl e, s)
                   | Inr updated \<Rightarrow>
                       (Inr \<lparr>u_affected_rows = affectedRows (length updated)\<rparr>,
                        s\<lparr>st_tasks := fold (\<lambda>(taskID, row). AList.update taskID row) updated (st_tasks s)\<rparr>)))))"

section \<open>Delete\<close>

fun deleted_rows ::
  "runtime \<Rightarrow> nat \<Rightarrow> expression option \<Rightarrow> nat \<Rightarrow> (string \<times> task) list \<Rightarrow> go_error + string list" where
  "deleted_rows rt n condition i [] = Inr []"
| "deleted_rows rt n condition i ((taskID, row) # rows) =
     (case im_context rt n i of
        Some e \<Rightarrow> Inl e
      | None \<Rightarrow>
          bind_sum
            (map_error (\<lambda>e. Status InvalidArgument (InMemoryReason (ImDeleteFilter e)))
              (evaluateFilter rt (taskRow rt row) condition)) (\<lambda>matches.
          bind_sum (deleted_rows rt n condition (Suc i) rows) (\<lambda>deleted.
          Inr (if matches then taskID # deleted else deleted))))"

definition conn_Delete ::
  "runtime \<Rightarrow> nat \<Rightarrow> delete_request \<Rightarrow> store \<Rightarrow> im_connection \<Rightarrow> (go_error + delete_response) \<times> store" where
  "conn_Delete rt n req s c =
     (if ic_closed c then (Inl (Status FailedPrecondition (InMemoryReason ImConnectionClosed)), s)
      else
        (case validateMutableTaskEntity rt (d_entity req) of
           Some e \<Rightarrow> (Inl e, s)
         | None \<Rightarrow>
             (case deleted_rows rt n (d_filter req) 0 (im_range rt n (st_tasks s)) of
                Inl e \<Rightarrow> (Inl e, s)
              | Inr deleted \<Rightarrow>
                  (Inr \<lparr>d_affected_rows = affectedRows (length deleted)\<rparr>,
                   s\<lparr>st_tasks := fold AList.delete deleted (st_tasks s)\<rparr>))))"

section \<open>Fresh identifiers\<close>

lemma itoa_inj: "itoa i = itoa j \<longleftrightarrow> i = j"
  by (metis itoa_value of_int_eq_iff)

lemma task_id_inj: "task_id m = task_id n \<longleftrightarrow> m = n"
  by (simp add: task_id_def itoa_inj word_uint_eq_iff)

lemma fresh_task_id_result:
  assumes "fresh_task_id used nextID = Some (i, nextID')"
  shows "\<not> used i \<and> (\<exists>k. i = task_id k)"
proof -
  have "\<not> used (fst y) \<and> (\<exists>k. fst y = task_id k)" if "fresh_task_id used nextID = Some y" for y
    using that by (rule fresh_task_id.raw_induct [rotated]) (fastforce split: if_splits)
  from this [OF assms] show ?thesis by simp
qed

lemma fresh_task_id_returns: "\<not> used (task_id (nextID + word_of_nat k)) \<Longrightarrow> \<exists>r. fresh_task_id used nextID = Some r"
proof (induction k arbitrary: nextID)
  case 0
  then show ?case by (simp add: fresh_task_id.simps)
next
  case (Suc k)
  from Suc.prems have "\<not> used (task_id ((nextID + 1) + word_of_nat k))" by (simp add: algebra_simps)
  from Suc.IH [OF this] show ?case by (subst fresh_task_id.simps) simp
qed

text \<open>With fewer than \<open>2 ^ 64\<close> identifiers in use the search ends.\<close>

lemma fresh_task_id_total:
  assumes "finite A" and "card A < 2 ^ 64"
  shows "\<exists>r. fresh_task_id (\<lambda>i. i \<in> A) nextID = Some r"
proof -
  have "\<not> range task_id \<subseteq> A"
  proof
    assume "range task_id \<subseteq> A"
    from card_mono [OF assms(1) this] have "card (range task_id) < 2 ^ 64" using assms(2) by simp
    moreover have "inj task_id" by (simp add: inj_def task_id_inj)
    then have "card (range task_id) = CARD(64 word)" by (rule card_image)
    ultimately show False by (simp add: card_word)
  qed
  then obtain w where "task_id w \<notin> A" by blast
  moreover have "nextID + word_of_nat (unat (w - nextID)) = w" by simp
  ultimately show ?thesis by (metis fresh_task_id_returns)
qed

text \<open>What becomes of the drafts.\<close>

definition inserted_as :: "task \<Rightarrow> task \<Rightarrow> bool" where
  "inserted_as draft t \<longleftrightarrow>
     t = draft\<lparr>t_ID := t_ID t\<rparr> \<and>
     (if t_ID draft = [] then \<exists>k. t_ID t = task_id k else t_ID t = t_ID draft)"

lemma prepareInsertedTasks_Inr:
  "prepareInsertedTasks existing pend nextID drafts = Some (Inr ts, nextID') \<Longrightarrow>
   list_all2 inserted_as drafts ts \<and> distinct (map t_ID ts) \<and> t_ID ` set ts \<inter> (existing \<union> set pend) = {}"
proof (induction drafts arbitrary: pend nextID ts)
  case (Cons draft drafts)
  let ?id = "if t_ID draft = [] then fresh_task_id (\<lambda>i. i \<in> existing \<or> i \<in> set pend) nextID
             else Some (t_ID draft, nextID)"
  from Cons.prems obtain i n1 where i: "?id = Some (i, n1)" by (cases ?id) auto
  with Cons.prems obtain us where us: "i \<notin> existing" "i \<notin> set pend"
    "prepareInsertedTasks existing (i # pend) n1 drafts = Some (Inr us, nextID')" "ts = draft\<lparr>t_ID := i\<rparr> # us"
    by (auto split: if_splits option.splits sum.splits)
  have "inserted_as draft (draft\<lparr>t_ID := i\<rparr>)"
    using i fresh_task_id_result [of _ nextID i n1] by (auto simp: inserted_as_def split: if_splits)
  with us Cons.IH [OF us(3)] show ?case by auto
qed simp

lemma prepareInsertedTasks_total:
  "finite existing \<Longrightarrow> card existing + length pend + length drafts < 2 ^ 64 \<Longrightarrow>
   \<exists>r. prepareInsertedTasks existing pend nextID drafts = Some r"
proof (induction drafts arbitrary: pend nextID)
  case (Cons draft drafts)
  let ?A = "existing \<union> set pend"
  have "card ?A \<le> card existing + length pend"
    by (rule order_trans [OF card_Un_le]) (simp add: card_length)
  with Cons.prems fresh_task_id_total [of ?A nextID] obtain j n where
    "fresh_task_id (\<lambda>i. i \<in> existing \<or> i \<in> set pend) nextID = Some (j, n)" by auto
  then obtain i n1 where i: "(if t_ID draft = [] then fresh_task_id (\<lambda>i. i \<in> existing \<or> i \<in> set pend) nextID
      else Some (t_ID draft, nextID)) = Some (i, n1)" by (cases "t_ID draft = []") auto
  have "\<exists>r. prepareInsertedTasks existing (i # pend) n1 drafts = Some r"
    using Cons.prems by (intro Cons.IH) simp_all
  with i show ?case by (auto split: sum.splits)
qed simp

section \<open>The store after a mutation\<close>

lemma update_fresh: "k \<notin> fst ` set xs \<Longrightarrow> AList.update k v xs = xs @ [(k, v)]"
  by (induction xs) auto

lemma put_tasks_fresh:
  "distinct (map t_ID ts) \<Longrightarrow> t_ID ` set ts \<inter> fst ` set xs = {} \<Longrightarrow>
   put_tasks ts xs = xs @ map (\<lambda>t. (t_ID t, t)) ts"
proof (induction ts arbitrary: xs)
  case (Cons t ts)
  then have "put_tasks (t # ts) xs = put_tasks ts (xs @ [(t_ID t, t)])"
    by (simp add: put_tasks_def update_fresh)
  also have "\<dots> = (xs @ [(t_ID t, t)]) @ map (\<lambda>t. (t_ID t, t)) ts"
    using Cons.prems by (intro Cons.IH) auto
  finally show ?case by simp
qed (simp add: put_tasks_def)

lemma update_present:
  "distinct (map fst xs) \<Longrightarrow> k \<in> fst ` set xs \<Longrightarrow>
   AList.update k v xs = map (\<lambda>(k', v'). (k', if k' = k then v else v')) xs"
proof (induction xs)
  case (Cons x xs)
  have "map (\<lambda>(k', v'). (k', if k' = k then v else v')) xs = xs" if "k \<notin> fst ` set xs"
    using that by (intro map_idI) (auto simp: rev_image_eqI)
  with Cons show ?case by (cases x) auto
qed simp

lemma fold_update_present:
  "distinct (map fst xs) \<Longrightarrow> distinct (map fst us) \<Longrightarrow> fst ` set us \<subseteq> fst ` set xs \<Longrightarrow>
   fold (\<lambda>(k, v). AList.update k v) us xs =
   map (\<lambda>(k, v). (k, case map_of us k of Some v' \<Rightarrow> v' | None \<Rightarrow> v)) xs"
proof (induction us arbitrary: xs)
  case (Cons u us)
  obtain k v where u: "u = (k, v)" by (cases u)
  let ?ys = "map (\<lambda>(k', v'). (k', if k' = k then v else v')) xs"
  have "AList.update k v xs = ?ys" using Cons.prems u by (intro update_present) auto
  moreover have names: "map fst ?ys = map fst xs" by (simp add: case_prod_beta comp_def)
  have "distinct (map fst ?ys)" unfolding names by (rule Cons.prems(1))
  moreover have "fst ` set ?ys = fst ` set xs" using names by (metis list.set_map)
  then have "fst ` set us \<subseteq> fst ` set ?ys" using Cons.prems by simp
  moreover have "map_of us k = None" using Cons.prems u by (simp add: map_of_eq_None_iff)
  ultimately show ?case
    using Cons.IH [of ?ys] Cons.prems u by (auto split: option.splits)
qed (simp add: case_prod_beta)

section \<open>Returned values\<close>

text \<open>The values of a task by field: what the provider returns of it.\<close>

lemma task_field_names:
  assumes "f \<in> set taskFields"
  shows "ef_name f \<in> set (map fst (task_values t))"
  using assms by (auto simp: taskFields_def field_def task_values_def)

lemma taskFieldByName_Some: "taskFieldByName rt name = Some f \<Longrightarrow> f \<in> set taskFields"
  using fieldByName_Some [of rt task_definition name f] by (simp add: taskFieldByName_eq task_definition_def)

lemma task_definition_in: "task_definition \<in> set entityDefinitions"
  by (simp add: entityDefinitions_def)

lemma task_row_value:
  assumes "f \<in> set taskFields"
  shows "rowValue rt (taskRow rt t) (ef_name f) = Inr (the (map_of (task_values t) (ef_name f)))"
proof -
  have "toLower (im_lower rt) name = name" if "name \<in> set (map fst (task_values t))" for name
  proof -
    have "set (map fst (task_values t)) = ef_name ` set taskFields"
      by (simp add: task_values_def taskFields_def field_def)
    with that lower_names [OF task_definition_in] show ?thesis by (auto simp: task_definition_def)
  qed
  then have vals: "er_values (taskRow rt t) = map_of (task_values t)"
    unfolding taskRow_def by (intro newEntityRow_values) force
  have "toLower (im_lower rt) (ef_name f) = ef_name f"
    using assms lower_names [OF task_definition_in] by (simp add: task_definition_def)
  moreover have "map_of (task_values t) (ef_name f) \<noteq> None"
    using task_field_names [OF assms] by (simp add: map_of_eq_None_iff)
  ultimately show ?thesis by (auto simp: rowValue_def vals)
qed

lemma taskTuple_eq:
  "set fs \<subseteq> set taskFields \<Longrightarrow>
   taskTuple rt t fs = Inr (map (\<lambda>f. Some (the (map_of (task_values t) (ef_name f)))) fs)"
  unfolding taskTuple_def by (rule traverse_total) (auto simp: task_row_value)

definition generated_values :: "task list \<Rightarrow> entity_field list \<Rightarrow> tuple_batch option" where
  "generated_values ts fs =
     (if fs = [] then None
      else Some \<lparr>b_fields = providerFields fs,
                 b_tuples = map (\<lambda>t. Some (map (\<lambda>f. Some (the (map_of (task_values t) (ef_name f)))) fs)) ts\<rparr>)"

lemma insert_reply_eq:
  assumes "set fs \<subseteq> set taskFields"
  shows "insert_reply rt ts fs =
    Inr \<lparr>i_affected_rows = Some (word_of_nat (length ts)), i_generated_values = generated_values ts fs\<rparr>"
proof -
  have "traverse (\<lambda>t. taskTuple rt t fs) ts =
      Inr (map (\<lambda>t. map (\<lambda>f. Some (the (map_of (task_values t) (ef_name f)))) fs) ts)"
    by (rule traverse_total) (rule taskTuple_eq [OF assms])
  then show ?thesis by (simp add: insert_reply_def generated_values_def affectedRows_def comp_def)
qed

lemma resolveTaskFields_Inr:
  assumes "resolveTaskFields rt names = Inr fs"
  shows "set fs \<subseteq> set taskFields"
proof
  fix f assume f: "f \<in> set fs"
  from list_all2_right [OF assms [unfolded resolveTaskFields_def traverse_Inr] f] obtain name where
    "(case taskFieldByName rt name of None \<Rightarrow> Inl name | Some f \<Rightarrow> Inr f) = Inr f" by blast
  then have "taskFieldByName rt name = Some f" by (simp split: option.splits)
  then show "f \<in> set taskFields" by (rule taskFieldByName_Some)
qed

lemma row_fields_canonical:
  "set fs \<subseteq> set taskFields \<Longrightarrow> distinct (map ef_name fs) \<Longrightarrow> ef_name ` set fs \<inter> set seen = {} \<Longrightarrow>
   row_fields rt seen (providerFields fs) = Inr (map ef_name fs)"
proof (induction fs arbitrary: seen)
  case (Cons f fs)
  then have "taskFieldByName rt (ef_name f) = Some f"
    using fieldByName_self [OF task_definition_in, of f rt] by (simp add: taskFieldByName_eq task_definition_def)
  moreover have "ef_name f \<noteq> []" using Cons.prems(1) by (auto simp: taskFields_def field_def)
  moreover have "row_fields rt (ef_name f # seen) (providerFields fs) = Inr (map ef_name fs)"
    using Cons.prems by (intro Cons.IH) auto
  ultimately show ?case using Cons.prems(3) by (simp add: providerFields_def)
qed (simp add: providerFields_def)

section \<open>What an insert does\<close>

definition insert_done ::
  "runtime \<Rightarrow> insert_request \<Rightarrow> store \<Rightarrow> task list \<Rightarrow> insert_response \<Rightarrow> store \<Rightarrow> bool" where
  "insert_done rt req s ts resp s' \<longleftrightarrow>
     (\<exists>drafts fs. parseInsertRows rt (i_rows req) = Inr drafts \<and> list_all2 inserted_as drafts ts \<and>
        resolveTaskFields rt (i_returning_fields req) = Inr fs \<and>
        distinct (map t_ID ts) \<and> t_ID ` set ts \<inter> fst ` set (st_tasks s) = {} \<and>
        st_tasks s' = st_tasks s @ map (\<lambda>t. (t_ID t, t)) ts \<and> st_entities s' = st_entities s \<and>
        resp = \<lparr>i_affected_rows = Some (word_of_nat (length ts)), i_generated_values = generated_values ts fs\<rparr>)"

lemma conn_Insert_cases:
  assumes run: "conn_Insert rt n req s c = Some (r, s')"
  obtains (refused) e where "r = Inl e" and "s' = s"
  | (stored) ts resp where "r = Inr resp" and "insert_done rt req s ts resp s'"
proof (cases "\<exists>e. r = Inl e \<and> s' = s")
  case True
  with refused show ?thesis by blast
next
  case False
  with run obtain drafts fs inserted where steps: "parseInsertRows rt (i_rows req) = Inr drafts"
      "resolveTaskFields rt (i_returning_fields req) = Inr fs" "insert_tasks drafts s = Some (Inr inserted, s')"
    and r: "r = insert_reply rt inserted fs"
    by (auto simp: conn_Insert_def insert_tasks_def split: if_splits option.splits sum.splits prod.splits)
  from steps(3) obtain nextID where prep: "prepareInsertedTasks (fst ` set (st_tasks s)) [] (st_nextID s) drafts = Some (Inr inserted, nextID)"
    and s': "s' = s\<lparr>st_tasks := put_tasks inserted (st_tasks s), st_nextID := nextID\<rparr>"
    by (auto simp: insert_tasks_def split: option.splits sum.splits prod.splits)
  note facts = prepareInsertedTasks_Inr [OF prep]
  then have "put_tasks inserted (st_tasks s) = st_tasks s @ map (\<lambda>t. (t_ID t, t)) inserted"
    by (intro put_tasks_fresh) simp_all
  with steps facts s' r stored show ?thesis
    by (auto simp: insert_done_def insert_reply_eq [OF resolveTaskFields_Inr [OF steps(2)]])
qed

section \<open>What assignments do\<close>

text \<open>\<open>strings.EqualFold\<close> is an equivalence on the strings that have a case folding at all.\<close>

definition names_fold :: "runtime \<Rightarrow> bool" where
  "names_fold rt \<longleftrightarrow>
     (\<forall>s t. equalName rt s t \<longrightarrow> equalName rt t s) \<and>
     (\<forall>s t u. equalName rt s t \<longrightarrow> equalName rt t u \<longrightarrow> equalName rt s u)"

lemma task_names_distinct: "f \<in> set taskFields \<Longrightarrow> g \<in> set taskFields \<Longrightarrow> ef_name f = ef_name g \<longleftrightarrow> f = g"
proof -
  have "distinct (map ef_name taskFields)" by (simp add: taskFields_def field_def)
  then show "f \<in> set taskFields \<Longrightarrow> g \<in> set taskFields \<Longrightarrow> ef_name f = ef_name g \<longleftrightarrow> f = g"
    unfolding distinct_map inj_on_def by blast
qed

lemma task_values_update:
  "task_values (t\<lparr>t_ProjectID := x\<rparr>) = AList.update ''project_id'' (stringValue x) (task_values t)"
  "task_values (t\<lparr>t_Title := x\<rparr>) = AList.update ''title'' (stringValue x) (task_values t)"
  "task_values (t\<lparr>t_Description := Some x\<rparr>) = AList.update ''description'' (clobValue x) (task_values t)"
  "task_values (t\<lparr>t_Description := None\<rparr>) = AList.update ''description'' nullValue (task_values t)"
  "task_values (t\<lparr>t_Completed := b\<rparr>) = AList.update ''completed'' (booleanValue b) (task_values t)"
  "task_values (t\<lparr>t_Priority := i\<rparr>) = AList.update ''priority'' (integerValue i) (task_values t)"
  "task_values (t\<lparr>t_EstimateHours := Some y\<rparr>) = AList.update ''estimate_hours'' (floatValue y) (task_values t)"
  "task_values (t\<lparr>t_EstimateHours := None\<rparr>) = AList.update ''estimate_hours'' nullValue (task_values t)"
  "task_values (t\<lparr>t_DueAt := Some x\<rparr>) = AList.update ''due_at'' (timestampValue x) (task_values t)"
  "task_values (t\<lparr>t_DueAt := None\<rparr>) = AList.update ''due_at'' nullValue (task_values t)"
  by (simp_all add: task_values_def)

lemma assigned_name:
  assumes fold_ok: "names_fold rt" and f: "taskFieldByName rt name = Some f" and g: "g \<in> set taskFields"
  shows "equalName rt name (ef_name g) \<longleftrightarrow> ef_name f = ef_name g"
proof -
  have f': "f \<in> set taskFields" "equalName rt (ef_name f) name"
    using fieldByName_Some [of rt task_definition name f] f by (simp_all add: taskFieldByName_eq task_definition_def)
  have low: "list_all (\<lambda>c. ascii c \<and> ascii_lower c = c) (ef_name h)" if "h \<in> set taskFields" for h
    using lower_name [OF task_definition_in, of h] that by (simp add: task_definition_def)
  have "equalName rt (ef_name f) (ef_name g) \<longleftrightarrow> ef_name f = ef_name g"
    by (rule equalName_lower [OF low [OF f'(1)] low [OF g]])
  moreover have "equalName rt (ef_name f) (ef_name g) \<longleftrightarrow> equalName rt name (ef_name g)"
    using fold_ok f'(2) unfolding names_fold_def by metis
  ultimately show ?thesis by simp
qed

lemma from_value_Inr:
  "stringFromValue (Some v) = Inr x \<longleftrightarrow> v = stringValue x"
  "booleanFromValue (Some v) = Inr b \<longleftrightarrow> v = booleanValue b"
  "integerFromValue (Some v) = Inr i \<longleftrightarrow> v = integerValue i"
  "clobFromValue (Some v) = Inr x \<longleftrightarrow> v = clobValue x"
  "floatFromValue (Some v) = Inr y \<longleftrightarrow> v = floatValue y"
  "timestampFromValue (Some v) = Inr x \<longleftrightarrow> v = timestampValue x"
  by (cases v; auto simp: from_value_defs value_defs split: kind.splits option.splits)+

lemmas from_value_of = from_value_Inr [THEN iffD2, OF refl]

lemma task_values_not_null:
  "\<not> isNullValue (Some (stringValue x))" "\<not> isNullValue (Some (booleanValue b))"
  "\<not> isNullValue (Some (integerValue i))" "\<not> isNullValue (Some (clobValue x))"
  "\<not> isNullValue (Some (floatValue y))" "\<not> isNullValue (Some (timestampValue x))" "isNullValue (Some nullValue)"
  by (simp_all add: isNullValue_def value_defs)

definition stored_as :: "value \<Rightarrow> value" where
  "stored_as v = (if isNullValue (Some v) then nullValue else v)"

lemma assignTaskValue_Inr:
  assumes fold_ok: "names_fold rt" and f: "taskFieldByName rt name = Some f" and id: "ef_name f \<noteq> ''id''"
    and run: "assignTaskValue rt name v t = Inr t'" and g: "g \<in> set taskFields"
  shows "map_of (task_values t') (ef_name g) =
    (if g = f then Some (stored_as v) else map_of (task_values t) (ef_name g))"
proof -
  have names: "equalName rt name n \<longleftrightarrow> ef_name f = n" if "n \<in> ef_name ` set taskFields" for n
    using that by (auto simp only: assigned_name [OF fold_ok f])
  have eqs: "equalName rt name ''project_id'' \<longleftrightarrow> ef_name f = ''project_id''"
    "equalName rt name ''title'' \<longleftrightarrow> ef_name f = ''title''"
    "equalName rt name ''description'' \<longleftrightarrow> ef_name f = ''description''"
    "equalName rt name ''completed'' \<longleftrightarrow> ef_name f = ''completed''"
    "equalName rt name ''priority'' \<longleftrightarrow> ef_name f = ''priority''"
    "equalName rt name ''estimate_hours'' \<longleftrightarrow> ef_name f = ''estimate_hours''"
    "equalName rt name ''due_at'' \<longleftrightarrow> ef_name f = ''due_at''"
    by (rule names, simp add: taskFields_def field_def)+
  have "task_values t' = AList.update (ef_name f) (stored_as v) (task_values t)"
  proof -
    from id taskFieldByName_Some [OF f]
    consider "ef_name f = ''project_id''" | "ef_name f = ''title''" | "ef_name f = ''description''"
      | "ef_name f = ''completed''" | "ef_name f = ''priority''" | "ef_name f = ''estimate_hours''" | "ef_name f = ''due_at''"
      by (auto simp: taskFields_def field_def)
    then show ?thesis
      using run unfolding assignTaskValue_def eqs stored_as_def
      by cases (auto simp: bind_sum_Inr from_value_Inr task_values_update task_values_not_null split: if_splits)
  qed
  with g task_names_distinct [OF taskFieldByName_Some [OF f] g] show ?thesis by (auto simp: update_conv)
qed

definition assigned :: "runtime \<Rightarrow> assignment list \<Rightarrow> task \<Rightarrow> task \<Rightarrow> task \<Rightarrow> bool" where
  "assigned rt as row t t' \<longleftrightarrow>
     (\<forall>g\<in>set taskFields.
        case find (\<lambda>a. taskFieldByName rt (as_field a) = Some g) as of
          None \<Rightarrow> map_of (task_values t') (ef_name g) = map_of (task_values t) (ef_name g)
        | Some a \<Rightarrow>
            \<exists>v. evaluateExpression rt (taskRow rt row) (as_value a) = Inr v \<and>
                map_of (task_values t') (ef_name g) = Some (stored_as v))"

lemma check_assignments_fields:
  "check_assignments rt seen as = Inr xs \<Longrightarrow> as = map Some xs \<and>
   (\<forall>x\<in>set xs. \<exists>f. taskFieldByName rt (as_field x) = Some f \<and> ef_name f \<noteq> ''id'' \<and> ef_name f \<notin> set seen) \<and>
   distinct (map (\<lambda>x. taskFieldByName rt (as_field x)) xs)"
proof (induction as arbitrary: seen xs)
  case (Cons a as)
  then obtain x f rest where "a = Some x" "taskFieldByName rt (as_field x) = Some f" "ef_name f \<noteq> ''id''"
    "ef_name f \<notin> set seen" "check_assignments rt (ef_name f # seen) as = Inr rest" "xs = x # rest"
    by (auto simp: bind_sum_Inr split: option.splits if_splits)
  with Cons.IH [of "ef_name f # seen" rest] show ?case by fastforce
qed simp

lemma apply_assignments_Inr:
  assumes fold_ok: "names_fold rt"
  shows "apply_assignments rt row xs t = Inr t' \<Longrightarrow>
    \<forall>x\<in>set xs. \<exists>f. taskFieldByName rt (as_field x) = Some f \<and> ef_name f \<noteq> ''id'' \<Longrightarrow>
    distinct (map (\<lambda>x. taskFieldByName rt (as_field x)) xs) \<Longrightarrow> assigned rt xs row t t'"
proof (induction xs arbitrary: t)
  case (Cons x xs)
  then obtain f where f: "taskFieldByName rt (as_field x) = Some f" "ef_name f \<noteq> ''id''" by auto
  from Cons.prems(1) obtain v u where v: "evaluateExpression rt (taskRow rt row) (as_value x) = Inr v"
    "assignTaskValue rt (as_field x) v t = Inr u" "apply_assignments rt row xs u = Inr t'"
    by (auto simp: bind_sum_Inr)
  have rest: "assigned rt xs row u t'" using Cons.prems(2,3) by (intro Cons.IH [OF v(3)]) simp_all
  have "find (\<lambda>a. taskFieldByName rt (as_field a) = Some f) xs = None"
    using Cons.prems(3) f(1) by (force simp: find_None_iff)
  with rest f v show ?case
    unfolding assigned_def
    by (auto simp: assignTaskValue_Inr [OF fold_ok f v(2)] taskFieldByName_Some split: option.splits)
qed (simp add: assigned_def)

section \<open>What an update does\<close>

definition selects :: "runtime \<Rightarrow> expression option \<Rightarrow> string \<times> task \<Rightarrow> bool" where
  "selects rt condition entry \<longleftrightarrow> evaluateFilter rt (taskRow rt (snd entry)) condition = Inr True"

lemma update_rows_Inr:
  "update_rows rt n condition as i rows = Inr updated \<Longrightarrow>
   (\<forall>e\<in>set rows. \<exists>b. evaluateFilter rt (taskRow rt (snd e)) condition = Inr b) \<and>
   list_all2 (\<lambda>(i, t) (j, t'). i = j \<and> apply_assignments rt t as t = Inr t') (filter (selects rt condition) rows) updated"
proof (induction rows arbitrary: i updated)
  case (Cons e rows)
  obtain k t where e: "e = (k, t)" by (cases e)
  from Cons.prems e obtain m where m: "evaluateFilter rt (taskRow rt t) condition = Inr m"
    by (auto simp: bind_sum_Inr split: option.splits)
  show ?case
  proof (cases m)
    case True
    with Cons.prems e m obtain t' rest where "apply_assignments rt t as t = Inr t'"
      "update_rows rt n condition as (Suc i) rows = Inr rest" "updated = (k, t') # rest"
      by (auto simp: bind_sum_Inr split: option.splits)
    with Cons.IH [of "Suc i" rest] True m e show ?thesis by (auto simp: selects_def)
  next
    case False
    with Cons.prems e m have "update_rows rt n condition as (Suc i) rows = Inr updated"
      by (auto split: option.splits)
    with Cons.IH [of "Suc i" updated] False m e show ?thesis by (auto simp: selects_def)
  qed
qed simp

lemma range_filter_length:
  assumes "ranges_all rt"
  shows "length (filter P (im_range rt n xs)) = length (filter P xs)"
proof -
  have "mset (filter P (im_range rt n xs)) = mset (filter P xs)" using assms by simp
  then show ?thesis by (rule mset_eq_length)
qed

lemma conn_Update_cases:
  assumes run: "conn_Update rt n req s c = (r, s')" and s: "store_ok rt s" and ranges: "ranges_all rt"
  obtains (refused) e where "r = Inl e" and "s' = s"
  | (stored) as where "validateAssignments rt (u_assignments req) = Inr as"
      and "r = Inr \<lparr>u_affected_rows = Some (word_of_nat (length (filter (selects rt (u_filter req)) (st_tasks s))))\<rparr>"
      and "st_entities s' = st_entities s" and "st_nextID s' = st_nextID s"
      and "list_all2
        (\<lambda>(i, t) (j, t'). i = j \<and>
           (if selects rt (u_filter req) (i, t) then apply_assignments rt t as t = Inr t'
            else evaluateFilter rt (taskRow rt t) (u_filter req) = Inr False \<and> t' = t))
        (st_tasks s) (st_tasks s')"
proof (cases "\<exists>e. r = Inl e \<and> s' = s")
  case True
  with refused show ?thesis by blast
next
  case False
  let ?m = "selects rt (u_filter req)" and ?rows = "im_range rt n (st_tasks s)"
  from False run have opn: "\<not> ic_closed c" by (auto simp: conn_Update_def)
  with False run have ent: "validateMutableTaskEntity rt (u_entity req) = None"
    by (cases "validateMutableTaskEntity rt (u_entity req)") (auto simp: conn_Update_def)
  with False run opn obtain as where as: "validateAssignments rt (u_assignments req) = Inr as"
    by (cases "validateAssignments rt (u_assignments req)") (auto simp: conn_Update_def)
  with False run opn ent obtain updated where up: "update_rows rt n (u_filter req) as 0 ?rows = Inr updated"
    by (cases "update_rows rt n (u_filter req) as 0 ?rows") (auto simp: conn_Update_def)
  have res: "r = Inr \<lparr>u_affected_rows = Some (word_of_nat (length updated))\<rparr>"
      "s' = s\<lparr>st_tasks := fold (\<lambda>(taskID, row). AList.update taskID row) updated (st_tasks s)\<rparr>"
    using run opn ent as up by (simp_all add: conn_Update_def affectedRows_def)
  note facts = update_rows_Inr [OF up]
  have keys: "distinct (map fst (st_tasks s))" using s by (simp add: store_ok_def)
  have "map fst updated = map fst (filter ?m ?rows)"
    using facts by (auto simp: list_all2_conv_all_nth case_prod_beta intro!: nth_equalityI)
  moreover have "distinct (map fst ?rows)" using keys ranges by simp
  ultimately have "distinct (map fst updated)" "set (map fst updated) = set (map fst (filter ?m ?rows))"
    by (simp_all only: distinct_map_filter)
  then have names: "distinct (map fst updated)" "fst ` set updated = fst ` set (filter ?m (st_tasks s))"
    using ranges by simp_all
  then have tasks: "st_tasks s' = map (\<lambda>(k, v). (k, case map_of updated k of Some v' \<Rightarrow> v' | None \<Rightarrow> v)) (st_tasks s)"
    using keys by (auto simp: res(2) intro!: fold_update_present)
  have "length updated = length (filter ?m ?rows)" using facts by (auto dest: list_all2_lengthD)
  also have "\<dots> = length (filter ?m (st_tasks s))"
    by (rule range_filter_length [OF ranges])
  finally have count: "length updated = length (filter ?m (st_tasks s))" .
  have entry: "if ?m (k, t) then \<exists>t'. map_of updated k = Some t' \<and> apply_assignments rt t as t = Inr t'
      else evaluateFilter rt (taskRow rt t) (u_filter req) = Inr False \<and> map_of updated k = None"
    if kt: "(k, t) \<in> set (st_tasks s)" for k t
  proof (cases "?m (k, t)")
    case True
    with kt ranges have "(k, t) \<in> set (filter ?m ?rows)" by simp
    with list_all2_left [OF conjunct2 [OF facts] this] obtain t' where
      "(k, t') \<in> set updated" "apply_assignments rt t as t = Inr t'" by auto
    with names(1) True show ?thesis by auto
  next
    case no: False
    have "k \<notin> fst ` set (filter ?m (st_tasks s))"
      using kt no by (auto dest: eq_key_imp_eq_value [OF keys])
    then have "map_of updated k = None" using names(2) by (simp add: map_of_eq_None_iff)
    moreover have "\<exists>b. evaluateFilter rt (taskRow rt t) (u_filter req) = Inr b"
      using facts kt ranges by force
    ultimately show ?thesis using no by (auto simp: selects_def)
  qed
  show ?thesis
  proof (rule stored [OF as])
    show "list_all2
        (\<lambda>(i, t) (j, t'). i = j \<and>
           (if ?m (i, t) then apply_assignments rt t as t = Inr t'
            else evaluateFilter rt (taskRow rt t) (u_filter req) = Inr False \<and> t' = t))
        (st_tasks s) (st_tasks s')"
      unfolding tasks list_all2_map2 using entry by (intro list_all2_same [THEN iffD2]) (force split: if_splits)
  qed (simp_all add: res count)
qed

section \<open>What a delete does\<close>

lemma deleted_rows_Inr:
  "deleted_rows rt n condition i rows = Inr deleted \<Longrightarrow>
   (\<forall>e\<in>set rows. \<exists>b. evaluateFilter rt (taskRow rt (snd e)) condition = Inr b) \<and>
   deleted = map fst (filter (selects rt condition) rows)"
proof (induction rows arbitrary: i deleted)
  case (Cons e rows)
  obtain k t where e: "e = (k, t)" by (cases e)
  with Cons.prems obtain m rest where "evaluateFilter rt (taskRow rt t) condition = Inr m"
    "deleted_rows rt n condition (Suc i) rows = Inr rest" "deleted = (if m then k # rest else rest)"
    by (auto simp: bind_sum_Inr split: option.splits)
  with Cons.IH [of "Suc i" rest] e show ?case by (auto simp: selects_def)
qed simp

lemma fold_delete: "fold AList.delete ks xs = filter (\<lambda>e. fst e \<notin> set ks) xs"
proof (induction ks arbitrary: xs)
  case (Cons k ks)
  have "fold AList.delete (k # ks) xs = filter (\<lambda>e. fst e \<notin> set ks) (filter (\<lambda>e. k \<noteq> fst e) xs)"
    by (simp add: Cons.IH AList.delete_eq case_prod_beta)
  also have "\<dots> = filter (\<lambda>e. fst e \<notin> set (k # ks)) xs" unfolding filter_filter by (rule filter_cong) auto
  finally show ?case .
qed simp

lemma conn_Delete_cases:
  assumes run: "conn_Delete rt n req s c = (r, s')" and s: "store_ok rt s" and ranges: "ranges_all rt"
  obtains (refused) e where "r = Inl e" and "s' = s"
  | (stored) "\<forall>e\<in>set (st_tasks s). \<exists>b. evaluateFilter rt (taskRow rt (snd e)) (d_filter req) = Inr b"
      and "r = Inr \<lparr>d_affected_rows = Some (word_of_nat (length (filter (selects rt (d_filter req)) (st_tasks s))))\<rparr>"
      and "s' = s\<lparr>st_tasks := filter (\<lambda>e. \<not> selects rt (d_filter req) e) (st_tasks s)\<rparr>"
proof (cases "\<exists>e. r = Inl e \<and> s' = s")
  case True
  with refused show ?thesis by blast
next
  case False
  let ?m = "selects rt (d_filter req)" and ?rows = "im_range rt n (st_tasks s)"
  from False run have opn: "\<not> ic_closed c" by (auto simp: conn_Delete_def)
  with False run have ent: "validateMutableTaskEntity rt (d_entity req) = None"
    by (cases "validateMutableTaskEntity rt (d_entity req)") (auto simp: conn_Delete_def)
  with False run opn obtain deleted where del: "deleted_rows rt n (d_filter req) 0 ?rows = Inr deleted"
    by (cases "deleted_rows rt n (d_filter req) 0 ?rows") (auto simp: conn_Delete_def)
  have res: "r = Inr \<lparr>d_affected_rows = Some (word_of_nat (length deleted))\<rparr>"
      "s' = s\<lparr>st_tasks := fold AList.delete deleted (st_tasks s)\<rparr>"
    using run opn ent del by (simp_all add: conn_Delete_def affectedRows_def)
  from deleted_rows_Inr [OF del] ranges
  have facts: "\<forall>e\<in>set (st_tasks s). \<exists>b. evaluateFilter rt (taskRow rt (snd e)) (d_filter req) = Inr b"
    "deleted = map fst (filter ?m ?rows)" by simp_all
  have "length deleted = length (filter ?m (st_tasks s))"
    unfolding facts(2) by (simp add: range_filter_length [OF ranges])
  moreover have "filter (\<lambda>e. fst e \<notin> set deleted) (st_tasks s) = filter (\<lambda>e. \<not> ?m e) (st_tasks s)"
  proof (rule filter_cong [OF refl])
    fix e assume e: "e \<in> set (st_tasks s)"
    have "e' = e" if "e' \<in> set (st_tasks s)" "fst e' = fst e" for e'
      using that e s by (auto simp: store_ok_def distinct_map inj_on_def)
    with e ranges show "fst e \<notin> set deleted \<longleftrightarrow> \<not> ?m e" unfolding facts(2) by auto
  qed
  ultimately show ?thesis using stored facts(1) res by (simp add: fold_delete)
qed

section \<open>The invariant\<close>

lemma apply_assignments_id: "apply_assignments rt row xs t = Inr t' \<Longrightarrow> t_ID t' = t_ID t"
proof (induction xs arbitrary: t)
  case (Cons x xs)
  then obtain v u where "assignTaskValue rt (as_field x) v t = Inr u" "apply_assignments rt row xs u = Inr t'"
    by (auto simp: bind_sum_Inr)
  moreover from this(1) have "t_ID u = t_ID t"
    by (auto simp: assignTaskValue_def bind_sum_Inr split: if_splits)
  ultimately show ?case using Cons.IH by simp
qed simp

lemma store_ok_kept:
  assumes s: "store_ok rt s" and ranges: "ranges_all rt"
  shows "conn_Insert rt n ins s c = Some (ri, si) \<Longrightarrow> store_ok rt si"
    and "conn_Update rt n upd s c = (ru, su) \<Longrightarrow> store_ok rt su"
    and "conn_Delete rt n del s c = (rd, sd) \<Longrightarrow> store_ok rt sd"
proof -
  show "store_ok rt si" if "conn_Insert rt n ins s c = Some (ri, si)"
    using that
  proof (cases rule: conn_Insert_cases)
    case (stored ts resp)
    then have new: "distinct (map t_ID ts)" "t_ID ` set ts \<inter> fst ` set (st_tasks s) = {}"
      "st_tasks si = st_tasks s @ map (\<lambda>t. (t_ID t, t)) ts" "st_entities si = st_entities s"
      by (auto simp: insert_done_def)
    have "distinct (map fst (st_tasks si))"
      unfolding new(3) using s new(1,2) by (auto simp: store_ok_def comp_def rev_image_eqI)
    with s new show ?thesis by (auto simp: store_ok_def)
  qed (use s in simp)
  show "store_ok rt su" if "conn_Update rt n upd s c = (ru, su)"
    using that s ranges
  proof (cases rule: conn_Update_cases)
    case (stored as)
    from stored(5) have names: "map fst (st_tasks su) = map fst (st_tasks s)"
      by (auto simp: list_all2_conv_all_nth case_prod_beta intro!: nth_equalityI)
    have "t_ID t = k" if kt: "(k, t) \<in> set (st_tasks su)" for k t
    proof -
      from list_all2_right [OF stored(5) kt] obtain t0 where t0: "(k, t0) \<in> set (st_tasks s)"
        "t = t0 \<or> apply_assignments rt t0 as t0 = Inr t" by (auto split: if_splits)
      with s have "t_ID t0 = k" by (auto simp: store_ok_def)
      with t0(2) apply_assignments_id [of rt t0 as t0 t] show ?thesis by auto
    qed
    with s stored(3) names show ?thesis by (auto simp: store_ok_def)
  qed (use s in simp)
  show "store_ok rt sd" if "conn_Delete rt n del s c = (rd, sd)"
    using that s ranges
  proof (cases rule: conn_Delete_cases)
    case stored
    with s show ?thesis by (auto simp: store_ok_def distinct_map_filter)
  qed (use s in simp)
qed

section \<open>When an insert succeeds\<close>

lemma conn_Insert_returns:
  assumes "\<forall>b. i_rows req = Some b \<longrightarrow> length (st_tasks s) + length (b_tuples b) < 2 ^ 64"
  shows "\<exists>r. conn_Insert rt n req s c = Some r"
proof -
  have len: "parse_tuples names i ts = Inr rows \<Longrightarrow> length rows = length ts" for names i ts rows
    by (induction ts arbitrary: i rows) (auto simp: bind_sum_Inr)
  have "\<exists>r. insert_tasks drafts s = Some r" if drafts: "parseInsertRows rt (i_rows req) = Inr drafts" for drafts
  proof -
    from drafts obtain b names where b: "i_rows req = Some b" "parse_tuples names 0 (b_tuples b) = Inr drafts"
      by (auto simp: parseInsertRows_def bind_sum_Inr split: option.splits)
    have "card (fst ` set (st_tasks s)) \<le> length (st_tasks s)"
      by (rule order_trans [OF card_image_le]) (simp_all add: card_length)
    with assms b len [OF b(2)] have "card (fst ` set (st_tasks s)) + length ([] :: string list) + length drafts < 2 ^ 64"
      by simp
    from prepareInsertedTasks_total [OF _ this, of "st_nextID s"] show ?thesis
      by (auto simp: insert_tasks_def split: sum.splits)
  qed
  then show ?thesis
    by (auto simp: conn_Insert_def split: option.splits sum.splits)
qed

lemma prepareInsertedTasks_generated:
  "\<forall>d\<in>set drafts. t_ID d = [] \<Longrightarrow>
   prepareInsertedTasks existing pend nextID drafts = Some (r, nextID') \<Longrightarrow> \<exists>ts. r = Inr ts"
proof (induction drafts arbitrary: pend nextID r)
  case (Cons d drafts)
  then obtain i n1 where i: "fresh_task_id (\<lambda>i. i \<in> existing \<or> i \<in> set pend) nextID = Some (i, n1)"
    by (auto split: option.splits)
  from fresh_task_id_result [OF this] have "i \<notin> existing" "i \<notin> set pend" by simp_all
  with Cons.prems i obtain r' where r': "prepareInsertedTasks existing (i # pend) n1 drafts = Some (r', nextID')"
    "\<And>ts. r' = Inr ts \<Longrightarrow> \<exists>us. r = Inr us"
    by (auto split: option.splits sum.splits)
  with Cons.IH [OF _ r'(1)] Cons.prems(1) show ?case by auto
qed simp

section \<open>Properties\<close>

text \<open>An open connection and a request that adds one task.\<close>

definition open_connection :: im_connection where
  "open_connection = \<lparr>ic_closed = False, ic_lobs = Map.empty\<rparr>"

definition task_entity :: "entity_reference option" where
  "task_entity = Some \<lparr>er_name = ''task'', er_namespace = []\<rparr>"

definition demo_insert :: insert_request where
  "demo_insert =
     \<lparr>i_connection_id = [], i_entity = task_entity,
      i_rows = Some \<lparr>b_fields = [Some \<lparr>f_name = ''TITLE'', f_type = VALUE_TYPE_STRING, f_type_descriptor = None\<rparr>],
                     b_tuples = [Some [Some (stringValue ''Ship'')]]\<rparr>,
      i_returning_fields = [''id''], i_accepted_features = []\<rparr>"

definition demo_task :: task where
  "demo_task = empty_task\<lparr>t_ID := ''task-4'', t_Title := ''Ship''\<rparr>"

lemma demo_insert_run:
  "map_option (\<lambda>(r, s). (r, st_tasks s))
     (conn_Insert demo_runtime 0 demo_insert (newStore demo_runtime) open_connection) =
   Some (Inr \<lparr>i_affected_rows = Some 1, i_generated_values = generated_values [demo_task] [field ''id'' VALUE_TYPE_STRING]\<rparr>,
         initial_tasks @ [(''task-4'', demo_task)])"
  by code_simp

text \<open>
  C6: An insert either fails and leaves the store as it was, or adds one task for every tuple:
  the parsed draft, under its own identifier or a generated one, all identifiers new and
  distinct. Nothing else changes, the count is the number of tuples, and the generated values
  are those of the stored tasks.
\<close>

theorem inserts_exactly:
  assumes "conn_Insert rt n req s c = Some (r, s')"
  shows "case r of
      Inl e \<Rightarrow> s' = s
    | Inr resp \<Rightarrow>
        \<exists>drafts fs ts. parseInsertRows rt (i_rows req) = Inr drafts \<and> list_all2 inserted_as drafts ts \<and>
          resolveTaskFields rt (i_returning_fields req) = Inr fs \<and>
          distinct (map t_ID ts) \<and> t_ID ` set ts \<inter> fst ` set (st_tasks s) = {} \<and>
          st_tasks s' = st_tasks s @ map (\<lambda>t. (t_ID t, t)) ts \<and> st_entities s' = st_entities s \<and>
          i_affected_rows resp = Some (word_of_nat (length ts)) \<and> i_generated_values resp = generated_values ts fs"
  using assms
proof (cases rule: conn_Insert_cases)
  case (stored ts resp)
  then show ?thesis by (auto simp: insert_done_def)
qed simp

theorem inserts_exactly_witness:
  "\<exists>s'. map_option fst (conn_Insert demo_runtime 0 demo_insert (newStore demo_runtime) open_connection) =
       Some (Inr \<lparr>i_affected_rows = Some 1,
                  i_generated_values = generated_values [demo_task] [field ''id'' VALUE_TYPE_STRING]\<rparr>) \<and>
     map_option snd (conn_Insert demo_runtime 0 demo_insert (newStore demo_runtime) open_connection) = Some s' \<and>
     st_tasks s' = initial_tasks @ [(''task-4'', demo_task)] \<and>
     st_entities s' = st_entities (newStore demo_runtime)"
proof -
  obtain r s' where run: "conn_Insert demo_runtime 0 demo_insert (newStore demo_runtime) open_connection = Some (r, s')"
    and rs: "r = Inr \<lparr>i_affected_rows = Some 1, i_generated_values = generated_values [demo_task] [field ''id'' VALUE_TYPE_STRING]\<rparr>"
      "st_tasks s' = initial_tasks @ [(''task-4'', demo_task)]"
    using demo_insert_run by auto
  from inserts_exactly [OF run] rs run show ?thesis by auto
qed

text \<open>
  An insert returns as long as the tasks and the tuples are fewer than the identifiers there
  are, and the search for unused identifiers succeeds: with every identifier left to the
  provider, a request whose rows and returned fields are in order and whose context is not
  cancelled stores them all.
\<close>

theorem insert_returns:
  assumes "\<forall>b. i_rows req = Some b \<longrightarrow> length (st_tasks s) + length (b_tuples b) < 2 ^ 64"
  shows "\<exists>r s'. conn_Insert rt n req s c = Some (r, s') \<and>
    (\<forall>drafts fs. \<not> ic_closed c \<longrightarrow> validateMutableTaskEntity rt (i_entity req) = None \<longrightarrow>
       parseInsertRows rt (i_rows req) = Inr drafts \<longrightarrow> (\<forall>d\<in>set drafts. t_ID d = []) \<longrightarrow>
       resolveTaskFields rt (i_returning_fields req) = Inr fs \<longrightarrow> im_context rt n 0 = None \<longrightarrow>
       (\<exists>resp. r = Inr resp))"
proof -
  obtain r s' where run: "conn_Insert rt n req s c = Some (r, s')"
    using conn_Insert_returns [OF assms, of rt n c] by auto
  have "\<exists>resp. r = Inr resp"
    if ok: "\<not> ic_closed c" "validateMutableTaskEntity rt (i_entity req) = None"
      "parseInsertRows rt (i_rows req) = Inr drafts" "\<forall>d\<in>set drafts. t_ID d = []"
      "resolveTaskFields rt (i_returning_fields req) = Inr fs" "im_context rt n 0 = None" for drafts fs
  proof -
    from run ok obtain r1 nextID where prep:
        "prepareInsertedTasks (fst ` set (st_tasks s)) [] (st_nextID s) drafts = Some (r1, nextID)"
      by (auto simp: conn_Insert_def insert_tasks_def split: option.splits)
    from prepareInsertedTasks_generated [OF ok(4) this] obtain ts where "r1 = Inr ts" by blast
    with run ok prep show ?thesis
      by (auto simp: conn_Insert_def insert_tasks_def insert_reply_eq [OF resolveTaskFields_Inr [OF ok(5)]])
  qed
  with run show ?thesis by blast
qed

theorem insert_returns_witness:
  "\<exists>r s'. conn_Insert demo_runtime 0 demo_insert (newStore demo_runtime) open_connection = Some (r, s') \<and>
     (\<exists>resp. r = Inr resp)"
proof -
  have ok: "\<not> ic_closed open_connection" "validateMutableTaskEntity demo_runtime (i_entity demo_insert) = None"
    "parseInsertRows demo_runtime (i_rows demo_insert) = Inr [empty_task\<lparr>t_Title := ''Ship''\<rparr>]"
    "resolveTaskFields demo_runtime (i_returning_fields demo_insert) = Inr [field ''id'' VALUE_TYPE_STRING]"
    "im_context demo_runtime 0 0 = None"
    by code_simp+
  have ids: "\<forall>d\<in>set [empty_task\<lparr>t_Title := ''Ship''\<rparr>]. t_ID d = []" by (simp add: empty_task_def)
  have few: "\<forall>b. i_rows demo_insert = Some b \<longrightarrow> length (st_tasks (newStore demo_runtime)) + length (b_tuples b) < 2 ^ 64"
    by (simp add: demo_insert_def newStore_def initial_tasks_def)
  obtain r s' where run: "conn_Insert demo_runtime 0 demo_insert (newStore demo_runtime) open_connection = Some (r, s')"
    and success: "\<forall>drafts fs. \<not> ic_closed open_connection \<longrightarrow>
       validateMutableTaskEntity demo_runtime (i_entity demo_insert) = None \<longrightarrow>
       parseInsertRows demo_runtime (i_rows demo_insert) = Inr drafts \<longrightarrow> (\<forall>d\<in>set drafts. t_ID d = []) \<longrightarrow>
       resolveTaskFields demo_runtime (i_returning_fields demo_insert) = Inr fs \<longrightarrow>
       im_context demo_runtime 0 0 = None \<longrightarrow> (\<exists>resp. r = Inr resp)"
    using insert_returns [OF few, of demo_runtime 0 open_connection] by (elim exE conjE) (erule (1) that)
  from success [rule_format, OF ok(1-3) bspec [OF ids] ok(4,5)] run show ?thesis by blast
qed

text \<open>
  Writing tasks as tuples of all their fields and parsing the tuples as rows to insert gives
  the tasks back.
\<close>

theorem task_rows_roundtrip:
  "\<exists>tuples. traverse (\<lambda>t. taskTuple rt t taskFields) ts = Inr tuples \<and>
     parseInsertRows rt (Some \<lparr>b_fields = providerFields taskFields, b_tuples = map Some tuples\<rparr>) = Inr ts"
proof -
  let ?tuple = "\<lambda>t. map (\<lambda>f. Some (the (map_of (task_values t) (ef_name f)))) taskFields"
  have "traverse (\<lambda>t. taskTuple rt t taskFields) ts = Inr (map ?tuple ts)"
    by (rule traverse_total) (rule taskTuple_eq [OF subset_refl])
  moreover have "row_fields rt [] (providerFields taskFields) = Inr (map ef_name taskFields)"
    by (rule row_fields_canonical) (simp_all add: taskFields_def field_def)
  moreover have "parse_tuple (map ef_name taskFields) i (Some (?tuple t)) = Inr t" for i t
    by (cases t)
      (simp add: parse_tuple_def taskFields_def field_def task_values_def row_value_def empty_task_def
        from_value_of task_values_not_null split: option.splits)
  then have "parse_tuples (map ef_name taskFields) i (map Some (map ?tuple ts)) = Inr ts" for i
    by (induction ts arbitrary: i) simp_all
  ultimately show ?thesis by (simp add: parseInsertRows_def)
qed

text \<open>
  C24: An update either fails and leaves the store as it was, or changes exactly the tasks its
  filter selects, whatever the order in which the map is visited: an assigned field has the
  value of its expression on the old task, every other field its old value, and the count is
  the number of selected tasks.
\<close>

theorem updates_exactly:
  assumes "conn_Update rt n req s c = (r, s')" and "store_ok rt s" and "ranges_all rt" and "names_fold rt"
  shows "case r of
      Inl e \<Rightarrow> s' = s
    | Inr resp \<Rightarrow>
        (\<exists>as. u_assignments req = map Some as \<and>
          list_all2
            (\<lambda>(i, t) (j, t'). i = j \<and>
               (if selects rt (u_filter req) (i, t) then assigned rt as t t t'
                else evaluateFilter rt (taskRow rt t) (u_filter req) = Inr False \<and> t' = t))
            (st_tasks s) (st_tasks s')) \<and>
        st_entities s' = st_entities s \<and>
        u_affected_rows resp = Some (word_of_nat (length (filter (selects rt (u_filter req)) (st_tasks s))))"
  using assms(1-3)
proof (cases rule: conn_Update_cases)
  case (stored as)
  from stored(1) have "check_assignments rt [] (u_assignments req) = Inr as"
    by (simp add: validateAssignments_def split: if_splits)
  from check_assignments_fields [OF this] have as: "u_assignments req = map Some as"
    "\<forall>x\<in>set as. \<exists>f. taskFieldByName rt (as_field x) = Some f \<and> ef_name f \<noteq> ''id''"
    "distinct (map (\<lambda>x. taskFieldByName rt (as_field x)) as)" by auto
  have "assigned rt as t t t'" if "apply_assignments rt t as t = Inr t'" for t t'
    using apply_assignments_Inr [OF assms(4) that as(2,3)] .
  then have "list_all2
      (\<lambda>(i, t) (j, t'). i = j \<and>
         (if selects rt (u_filter req) (i, t) then assigned rt as t t t'
          else evaluateFilter rt (taskRow rt t) (u_filter req) = Inr False \<and> t' = t))
      (st_tasks s) (st_tasks s')"
    by (intro list_all2_mono [OF stored(5)]) (auto split: if_splits)
  with stored as(1) show ?thesis by auto
qed simp

text \<open>
  C25: A delete either fails and leaves the store as it was, or removes exactly the tasks its
  filter selects and reports their number.
\<close>

theorem deletes_exactly:
  assumes "conn_Delete rt n req s c = (r, s')" and "store_ok rt s" and "ranges_all rt"
  shows "case r of
      Inl e \<Rightarrow> s' = s
    | Inr resp \<Rightarrow>
        s' = s\<lparr>st_tasks := filter (\<lambda>e. \<not> selects rt (d_filter req) e) (st_tasks s)\<rparr> \<and>
        (\<forall>e\<in>set (st_tasks s). \<exists>b. evaluateFilter rt (taskRow rt (snd e)) (d_filter req) = Inr b) \<and>
        d_affected_rows resp = Some (word_of_nat (length (filter (selects rt (d_filter req)) (st_tasks s))))"
  using assms
proof (cases rule: conn_Delete_cases)
  case stored
  then show ?thesis by simp
qed simp

text \<open>Requests on the completed tasks of the sample data, which is one.\<close>

lemma ascii_fold:
  "equalFold (\<lambda>_ _. False) s t \<longleftrightarrow> list_all ascii s \<and> list_all ascii t \<and> map ascii_upper s = map ascii_upper t"
  by (induction "(\<lambda>_ _. False) :: string \<Rightarrow> string \<Rightarrow> bool" s t rule: equalFold.induct) auto

lemma demo_names_fold: "names_fold demo_runtime"
  by (auto simp: names_fold_def equalName_def demo_runtime_def ascii_fold)

definition demo_update :: update_request where
  "demo_update =
     \<lparr>u_connection_id = [], u_entity = task_entity,
      u_assignments =
        [Some \<lparr>as_field = ''Title'', as_value = Some (ExprField (Some ''project_id''))\<rparr>,
         Some \<lparr>as_field = ''due_at'', as_value = Some (ExprLiteral (Some nullValue) None)\<rparr>],
      u_filter = Some (ExprField (Some ''completed''))\<rparr>"

definition demo_delete :: delete_request where
  "demo_delete =
     \<lparr>d_connection_id = [], d_entity = task_entity, d_filter = Some (ExprField (Some ''completed''))\<rparr>"

lemma demo_update_run:
  "fst (conn_Update demo_runtime 0 demo_update (newStore demo_runtime) open_connection) =
     Inr \<lparr>u_affected_rows = Some 1\<rparr>"
  by code_simp

lemma demo_delete_run:
  "fst (conn_Delete demo_runtime 0 demo_delete (newStore demo_runtime) open_connection) =
     Inr \<lparr>d_affected_rows = Some 1\<rparr>"
  by code_simp

theorem updates_exactly_witness:
  "\<exists>s' as. conn_Update demo_runtime 0 demo_update (newStore demo_runtime) open_connection =
       (Inr \<lparr>u_affected_rows = Some 1\<rparr>, s') \<and>
     map Some as = u_assignments demo_update \<and>
     list_all2
       (\<lambda>(i, t) (j, t'). i = j \<and>
          (if selects demo_runtime (u_filter demo_update) (i, t) then assigned demo_runtime as t t t'
           else evaluateFilter demo_runtime (taskRow demo_runtime t) (u_filter demo_update) = Inr False \<and> t' = t))
       initial_tasks (st_tasks s')"
proof -
  obtain s' where run: "conn_Update demo_runtime 0 demo_update (newStore demo_runtime) open_connection =
      (Inr \<lparr>u_affected_rows = Some 1\<rparr>, s')"
    using demo_update_run by (metis prod.collapse)
  have tasks: "st_tasks (newStore demo_runtime) = initial_tasks" by (simp add: newStore_def)
  note facts = updates_exactly [OF run newStore_ok demo_ranges_all demo_names_fold, unfolded tasks sum.case]
  from conjunct1 [OF facts] obtain as where as: "u_assignments demo_update = map Some as"
    "list_all2
       (\<lambda>(i, t) (j, t'). i = j \<and>
          (if selects demo_runtime (u_filter demo_update) (i, t) then assigned demo_runtime as t t t'
           else evaluateFilter demo_runtime (taskRow demo_runtime t) (u_filter demo_update) = Inr False \<and> t' = t))
       initial_tasks (st_tasks s')" by (elim exE conjE) (erule (1) that)
  show ?thesis by (intro exI [of _ s'] exI [of _ as] conjI run as(2)) (rule as(1) [symmetric])
qed

theorem deletes_exactly_witness:
  "conn_Delete demo_runtime 0 demo_delete (newStore demo_runtime) open_connection =
     (Inr \<lparr>d_affected_rows = Some 1\<rparr>,
      (newStore demo_runtime)\<lparr>st_tasks := filter (\<lambda>e. \<not> selects demo_runtime (d_filter demo_delete) e) initial_tasks\<rparr>)"
proof -
  obtain s' where run: "conn_Delete demo_runtime 0 demo_delete (newStore demo_runtime) open_connection =
      (Inr \<lparr>d_affected_rows = Some 1\<rparr>, s')"
    using demo_delete_run by (metis prod.collapse)
  have "st_tasks (newStore demo_runtime) = initial_tasks" by (simp add: newStore_def)
  with deletes_exactly [OF run newStore_ok demo_ranges_all] run show ?thesis by simp
qed

end
