(* ===== verification/InMemoryResults.thy ===== *)
theory InMemoryResults
  imports InMemoryMutations
begin

text \<open>
  What the queries of the in-memory provider return: the rows of a query without aggregates,
  exactly and in order, and that every query returns at all.
\<close>

section \<open>Rows\<close>

text \<open>The snapshots of two stores with the same tasks, in calls with any number, agree up to order.\<close>

lemma snapshot_mset:
  assumes "ranges_all rt" and "mset (st_tasks s') = mset (st_tasks s)" and "st_entities s' = st_entities s"
  shows "mset (snapshot rt n' s' d) = mset (snapshot rt n s d)"
proof (cases "equalName rt (ed_name d) taskEntityName")
  case True
  have "mset (map (\<lambda>(_, t). taskRow rt t) (im_range rt n' (st_tasks s'))) =
      mset (map (\<lambda>(_, t). taskRow rt t) (im_range rt n (st_tasks s)))"
    unfolding mset_map using assms(1,2) by simp
  with True show ?thesis by (simp add: snapshot_def)
qed (simp add: snapshot_def assms(3))

lemma snapshot_length:
  assumes "ranges_all rt" and "store_ok rt s" and "d \<in> set entityDefinitions"
  shows "length (snapshot rt n s d) \<le> max (length (st_tasks s)) 2"
proof (cases "d = task_definition")
  case True
  with assms show ?thesis using entity_is_task [OF assms(3)] by (simp add: snapshot_def)
next
  case False
  then have snap: "snapshot rt n s d = (case st_entities (newStore rt) (ed_name d) of None \<Rightarrow> [] | Some rows \<Rightarrow> rows)"
    using assms entity_is_task [OF assms(3)] by (simp add: snapshot_def store_ok_def)
  have sizes: "length (projectRows rt) \<le> 2" "length (auditEventRows rt) \<le> 2" "length (typeSampleRows rt) \<le> 2"
    by (simp_all add: projectRows_def auditEventRows_def typeSampleRows_def)
  from False assms(3) have "d = project_definition \<or> d = audit_definition \<or> d = sample_definition"
    by (auto simp: entityDefinitions_def)
  then have "length (snapshot rt n s d) \<le> 2"
    unfolding snap using sizes by (elim disjE) (simp_all add: newStore_entities)
  then show ?thesis by simp
qed

definition page :: "query_request \<Rightarrow> 'r list \<Rightarrow> 'r list" where
  "page q rows =
     (case q_limit q of None \<Rightarrow> id | Some k \<Rightarrow> take (unat k))
       (drop (case q_offset q of None \<Rightarrow> 0 | Some k \<Rightarrow> unat k) rows)"

definition delivered ::
  "runtime \<Rightarrow> nat \<Rightarrow> query_request \<Rightarrow> planned_projection list \<Rightarrow> planned_row list \<Rightarrow> im_connection \<Rightarrow>
   ((go_error + im_stream) \<times> im_connection) option" where
  "delivered rt n q ps rows c =
     map_option (\<lambda>(r, l). (r, c\<lparr>ic_lobs := lo_lobs l\<rparr>))
       (deliver_rows rt n q ps rows \<lparr>lo_lobs = ic_lobs c, lo_draws = 0, lo_clocks = 0\<rparr>)"

text \<open>A query on the tasks of the sample data: the open ones, by descending priority, without the first.\<close>

definition demo_query :: query_request where
  "demo_query =
     \<lparr>q_connection_id = [], q_entity = task_entity,
      q_projections = [Some \<lparr>pr_expression = Some (ExprField (Some ''title'')), pr_output_name = []\<rparr>],
      q_filter = Some (ExprLogical LOGICAL_OPERATOR_NOT [Some (ExprField (Some ''completed''))]),
      q_order_by = [Some \<lparr>ob_expression = Some (ExprField (Some ''priority'')),
        ob_direction = SORT_DIRECTION_DESCENDING, ob_null_ordering = NULL_ORDERING_UNSPECIFIED\<rparr>],
      q_limit = None, q_offset = Some 1, q_batch_size = None, q_accepted_features = [],
      q_group_by = [], q_having = None, q_accept_outcome = False, q_allow_partial_results = False\<rparr>"

text \<open>
  C5: A query without aggregates whose filter and ordering expressions can be evaluated on every
  row and whose ordering values can be compared delivers the rows the filter accepts, ordered
  by the ordering expressions and then by the key, from the offset up to the limit. The
  delivered rows depend on the contents of the store only: another store with the same tasks,
  in a call that visits the map in another order, delivers the same rows.
\<close>

theorem row_queries_exact:
  assumes rt: "ranges_all rt" and s: "store_ok rt s" "length (st_tasks s) < 2 ^ 63"
    and q: "resolveEntity rt (q_entity q) = Inr d" "planProjections rt d (q_projections q) = Inr ps"
      "check_array_feature q ps = None" "\<not> aggregateQuery q"
    and rows: "\<forall>row\<in>set (snapshot rt n s d). row_plannable rt q row"
      "columns_comparable rt (q_order_by q) (selected_order_values rt q (snapshot rt n s d))"
  shows "\<exists>srt. sorted_wrt (row_less rt (q_order_by q) (er_key \<circ> pl_row) pl_orderValues) srt \<and>
    mset (map pl_row srt) =
      mset (filter (\<lambda>row. evaluateFilter rt row (q_filter q) = Inr True) (snapshot rt n s d)) \<and>
    (\<forall>p\<in>set srt. evaluateOrderValues rt (pl_row p) (q_order_by q) = Inr (pl_orderValues p)) \<and>
    (\<forall>n' s' c. undisturbed rt n' \<longrightarrow> \<not> ic_closed c \<longrightarrow>
       mset (st_tasks s') = mset (st_tasks s) \<longrightarrow> st_entities s' = st_entities s \<longrightarrow>
       conn_Query rt n' q s' c = delivered rt n' q ps (page q srt) c)"
proof -
  note d = resolveEntity_Inr [OF q(1)]
  have "length (snapshot rt n s d) < 2 ^ 63"
    using snapshot_length [OF rt s(1) d, of n] s(2) by (auto simp: max_def split: if_splits)
  from row_query_sorted [OF rows(1) snapshot_rows(2) [OF rt s(1) d] rows(2) this, of ps] obtain srt where srt:
    "sorted_wrt (row_less rt (q_order_by q) (er_key \<circ> pl_row) pl_orderValues) srt"
    "mset (map pl_row srt) =
      mset (filter (\<lambda>row. evaluateFilter rt row (q_filter q) = Inr True) (snapshot rt n s d))"
    "\<forall>p\<in>set srt. evaluateOrderValues rt (pl_row p) (q_order_by q) = Inr (pl_orderValues p)"
    and run: "\<forall>n' rows' l. undisturbed rt n' \<longrightarrow> mset rows' = mset (snapshot rt n s d) \<longrightarrow>
       query_rows rt n' q ps rows' l = deliver_rows rt n' q ps (page q srt) l"
    unfolding page_def by blast
  have "conn_Query rt n' q s' c = delivered rt n' q ps (page q srt) c"
    if "undisturbed rt n'" "\<not> ic_closed c" "mset (st_tasks s') = mset (st_tasks s)" "st_entities s' = st_entities s"
    for n' s' c
    using that q run snapshot_mset [OF rt that(3,4), of n' d n]
    by (simp add: conn_Query_def delivered_def Let_def)
  with srt show ?thesis by blast
qed

lemma demo_rows:
  "list_all (\<lambda>(_, t).
     evaluateFilter demo_runtime (taskRow demo_runtime t) (q_filter demo_query) = Inr (\<not> t_Completed t) \<and>
     evaluateOrderValues demo_runtime (taskRow demo_runtime t) (q_order_by demo_query) =
       Inr [integerValue (t_Priority t)]) initial_tasks"
  by code_simp

lemma demo_snapshot:
  "set (snapshot demo_runtime n (newStore demo_runtime) task_definition) =
     (\<lambda>(_, t). taskRow demo_runtime t) ` set initial_tasks"
  using entity_is_task [OF task_definition_in] demo_ranges_all by (simp add: snapshot_def newStore_def)

lemma compare_integers:
  "compareOrderedValues rt ob (integerValue i) (integerValue j) =
     Inr (if direction_of ob = SORT_DIRECTION_DESCENDING then - compareOrdered (of_int i :: rat) (of_int j)
          else compareOrdered (of_int i :: rat) (of_int j))"
  by (simp add: compareOrderedValues_def integerValue_def isNullValue_def compareValues_def isNumericValue_def
      aggregateNumber_def)


lemma integer_columns:
  assumes "\<And>x. x \<in> A \<Longrightarrow> \<exists>i. x = [integerValue i]"
  shows "columns_comparable rt [ob] A"
proof -
  have "all_comparable (compareOrderedValues rt ob) ((\<lambda>x. x ! 0) ` A)"
    unfolding all_comparable_def
  proof (intro ballI)
    fix x y assume "x \<in> (\<lambda>x. x ! 0) ` A" and "y \<in> (\<lambda>x. x ! 0) ` A"
    then obtain i j where "x = integerValue i" "y = integerValue j" by (metis assms imageE nth_Cons_0)
    then show "\<exists>order. compareOrderedValues rt ob x y = Inr order" by (simp add: compare_integers)
  qed
  moreover have "\<forall>x\<in>A. length x = 1" using assms by fastforce
  ultimately show ?thesis by (simp add: columns_comparable_def)
qed

lemma demo_columns:
  "columns_comparable demo_runtime (q_order_by demo_query)
     (selected_order_values demo_runtime demo_query (snapshot demo_runtime 0 (newStore demo_runtime) task_definition))"
proof -
  have "\<exists>i. vs = [integerValue i]"
    if vs: "vs \<in> selected_order_values demo_runtime demo_query (snapshot demo_runtime 0 (newStore demo_runtime) task_definition)" for vs
    using vs demo_rows
    by (fastforce simp: selected_order_values_def demo_snapshot list_all_iff)
  moreover obtain ob where "q_order_by demo_query = [ob]" by (simp add: demo_query_def)
  ultimately show ?thesis by (simp add: integer_columns)
qed

theorem row_queries_exact_witness:
  "\<exists>srt.
     sorted_wrt (row_less demo_runtime (q_order_by demo_query) (er_key \<circ> pl_row) pl_orderValues) srt \<and>
     mset (map pl_row srt) =
       mset (filter (\<lambda>row. evaluateFilter demo_runtime row (q_filter demo_query) = Inr True)
         (snapshot demo_runtime 0 (newStore demo_runtime) task_definition)) \<and>
     conn_Query demo_runtime 0 demo_query (newStore demo_runtime) open_connection =
       delivered demo_runtime 0 demo_query [plan_field (field ''title'' VALUE_TYPE_STRING)] (tl srt) open_connection"
proof -
  have q: "resolveEntity demo_runtime (q_entity demo_query) = Inr task_definition"
    "planProjections demo_runtime task_definition (q_projections demo_query) =
       Inr [plan_field (field ''title'' VALUE_TYPE_STRING)]"
    "check_array_feature demo_query [plan_field (field ''title'' VALUE_TYPE_STRING)] = None"
    "\<not> aggregateQuery demo_query" "\<not> ic_closed open_connection"
    by code_simp+
  have calm: "undisturbed demo_runtime 0" by (simp add: undisturbed_def demo_runtime_def)
  have few: "length (st_tasks (newStore demo_runtime)) < 2 ^ 63" by (simp add: newStore_def initial_tasks_def)
  have rows: "\<forall>row\<in>set (snapshot demo_runtime 0 (newStore demo_runtime) task_definition).
      row_plannable demo_runtime demo_query row"
    using demo_rows by (auto simp: row_plannable_def demo_snapshot list_all_iff)
  have page: "page demo_query = tl" by (rule ext) (simp add: page_def demo_query_def drop_Suc)
  from row_queries_exact [OF demo_ranges_all newStore_ok few q(1-4) rows demo_columns] show ?thesis
    using calm q(5) unfolding page by blast
qed

section \<open>Every query returns\<close>

text \<open>
  \<open>crypto/rand\<close> does not repeat itself for ever: of any set of identifiers smaller than the set of
  all, some later draw is outside, or fails.
\<close>

definition all_lob_ids :: nat where "all_lob_ids = 2 ^ (8 * inMemoryLobIDBytes)"

definition random_varies :: "runtime \<Rightarrow> nat \<Rightarrow> bool" where
  "random_varies rt n \<longleftrightarrow>
     (\<forall>k L. finite L \<longrightarrow> card L < all_lob_ids \<longrightarrow>
        (\<exists>j\<ge>k. \<forall>bs. im_random rt n j = Some bs \<longrightarrow> encodeToString bs \<notin> L))"

lemma fresh_lob_id_ends:
  "\<forall>bs. random (k + d) = Some bs \<longrightarrow> lobs (encodeToString bs) = None \<Longrightarrow>
   \<exists>r. fresh_lob_id random lobs k = Some r"
proof (induction d arbitrary: k)
  case 0
  then show ?case by (subst fresh_lob_id.simps) (auto split: option.splits)
next
  case (Suc d)
  from Suc.IH [of "Suc k"] Suc.prems show ?case by (subst fresh_lob_id.simps) (auto split: option.splits)
qed

text \<open>The room that is left for identifiers.\<close>

definition room :: "nat \<Rightarrow> lob_state \<Rightarrow> bool" where
  "room k l \<longleftrightarrow> finite (dom (lo_lobs l)) \<and> card (dom (lo_lobs l)) + k \<le> all_lob_ids"

lemma newLobValue_returns:
  assumes "random_varies rt n" and "room (Suc k) l"
  shows "\<exists>r l'. newLobValue rt n vt data l = Some (r, l') \<and> room k l'"
proof -
  from assms(2) have fin: "finite (dom (lo_lobs l))" "card (dom (lo_lobs l)) < all_lob_ids"
    by (simp_all add: room_def)
  with assms(1) obtain j where j: "j \<ge> lo_draws l"
    "\<forall>bs. im_random rt n j = Some bs \<longrightarrow> encodeToString bs \<notin> dom (lo_lobs l)"
    unfolding random_varies_def by blast
  then have "\<exists>r. fresh_lob_id (im_random rt n) (lo_lobs l) (lo_draws l) = Some r"
    by (intro fresh_lob_id_ends [of _ _ "j - lo_draws l"]) auto
  then obtain i m where i: "fresh_lob_id (im_random rt n) (lo_lobs l) (lo_draws l) = Some (i, m)" by auto
  have "card (insert x (dom (lo_lobs l))) + k \<le> all_lob_ids" for x
    using fin(1) assms(2) by (simp add: card_insert_if room_def)
  with assms(2) i show ?thesis
    by (cases i) (auto simp: newLobValue_def Let_def room_def)
qed

lemma room_mono: "room k l \<Longrightarrow> j \<le> k \<Longrightarrow> room j l"
  by (simp add: room_def)

lemma outputValue_returns:
  assumes "random_varies rt n" and "room (Suc k) l"
  shows "\<exists>r l'. outputValue rt n accepted v l = Some (r, l') \<and> room k l'"
  using newLobValue_returns [OF assms] room_mono [OF assms(2), of k]
  by (auto simp: outputValue_def Let_def split: kind.splits)

lemma traverse_state_returns:
  assumes step: "\<And>x j l. x \<in> set xs \<Longrightarrow> room (k + j) l \<Longrightarrow> \<exists>r l'. f x l = Some (r, l') \<and> room j l'"
    and "room (k * length xs + j) l"
  shows "\<exists>r l'. traverse_state f xs l = Some (r, l') \<and> room j l'"
  using assms
proof (induction xs arbitrary: l)
  case (Cons x xs)
  from Cons.prems(1) [of x "k * length xs + j" l] Cons.prems(2) obtain r l1 where r: "f x l = Some (r, l1)"
    "room (k * length xs + j) l1" by (auto simp: add.assoc)
  moreover from Cons.IH [OF _ r(2)] Cons.prems(1) obtain r2 l2 where
    "traverse_state f xs l1 = Some (r2, l2)" "room j l2" by auto
  ultimately show ?case using room_mono [OF r(2), of j] by (cases r; cases r2) auto
qed auto

lemma project_tuple_returns:
  assumes "random_varies rt n" and "room (length ps + j) l"
  shows "\<exists>r l'. project_tuple rt n accepted ps evaluate l = Some (r, l') \<and> room j l'"
  unfolding project_tuple_def
proof (rule traverse_state_returns [where k = 1])
  fix p j l assume "room (1 + j) l"
  then have l: "room (Suc j) l" by simp
  show "\<exists>r l'. (case evaluate (pp_expression p) of
      Inl e \<Rightarrow> Some (Inl (Status InvalidArgument (InMemoryReason (ImProjection (f_name (pp_field p)) e))), l)
    | Inr v \<Rightarrow> (case outputValue rt n accepted v l of None \<Rightarrow> None | Some (Inl e, l1) \<Rightarrow> Some (Inl e, l1)
        | Some (Inr x, l1) \<Rightarrow> Some (Inr (Some x), l1))) = Some (r, l') \<and> room j l'"
  proof (cases "evaluate (pp_expression p)")
    case (Inl e)
    with room_mono [OF l, of j] show ?thesis by simp
  next
    case (Inr v)
    with outputValue_returns [OF assms(1) l, of accepted v] show ?thesis by (auto split: sum.splits)
  qed
qed (use assms(2) in simp)

lemma sort_rows_length: "sort_rows rt obs key vals rows = Inr srt \<Longrightarrow> length srt = length rows"
  by (auto simp: sort_rows_def split: prod.splits option.splits)
    (metis fst_conv size_mset sliceStable_mset)

lemma query_rows_returns:
  assumes "random_varies rt n" and "room (length ps * length rows) l"
  shows "\<exists>r. query_rows rt n q ps rows l = Some r"
proof -
  have "\<exists>r. deliver_rows rt n q ps (paginateRows srt (q_offset q) (q_limit q)) l = Some r"
    if srt: "plan_rows rt n q 0 rows = Inr planned" "sortPlannedRows rt planned (q_order_by q) = Inr srt" for planned srt
  proof -
    let ?page = "paginateRows srt (q_offset q) (q_limit q)"
    have "length ?page \<le> length srt" by (auto simp: paginateRows_def Let_def min_le_iff_disj)
    also have "\<dots> = length planned"
      using srt(2) by (auto simp: sortPlannedRows_def dest: sort_rows_length)
    also have "\<dots> \<le> length rows" using plan_rows_Inr [OF srt(1)] by (metis length_filter_le length_map)
    finally have "room (length ps * length ?page + 0) l" by (intro room_mono [OF assms(2)]) simp
    then have "\<exists>r l'. traverse_state
        (\<lambda>r. project_tuple rt n (q_accepted_features q) ps (evaluateExpression rt (pl_row r))) ?page l = Some (r, l') \<and> room 0 l'"
      by (intro traverse_state_returns [where k = "length ps"] project_tuple_returns [OF assms(1)])
    then show ?thesis by (auto simp: deliver_rows_def split: sum.splits)
  qed
  then show ?thesis by (auto simp: query_rows_def split: sum.splits)
qed

lemma plan_groups_returns:
  assumes rnd: "random_varies rt n"
  shows "room (length ps * length gs + j) l \<Longrightarrow>
    \<exists>r l'. plan_groups rt n q ps i gs l = Some (r, l') \<and> room j l'"
proof (induction gs arbitrary: i l)
  case (Cons g gs)
  let ?h = "if q_having q = None then Inr True else evaluateGroupedBooleanExpression rt (ag_rows g) (q_having q)"
  have l: "room (length ps + (length ps * length gs + j)) l" using Cons.prems by (simp add: add.assoc)
  from project_tuple_returns [OF rnd l, of "q_accepted_features q" "evaluateGroupedExpression rt (ag_rows g)"]
  obtain r l1 where r: "project_tuple rt n (q_accepted_features q) ps (evaluateGroupedExpression rt (ag_rows g)) l = Some (r, l1)"
    "room (length ps * length gs + j) l1" by blast
  from Cons.IH [OF r(2), of "Suc i"] Cons.IH [OF room_mono [OF l], of "Suc i"]
  obtain r2 l2 r3 l3 where rest: "plan_groups rt n q ps (Suc i) gs l1 = Some (r2, l2)" "room j l2"
    "plan_groups rt n q ps (Suc i) gs l = Some (r3, l3)" "room j l3" by auto
  have here: "room j l" "room j l1" by (rule room_mono [OF l], simp, rule room_mono [OF r(2)], simp)
  show ?case
  proof (cases "im_context rt n i")
    case None
    show ?thesis
    proof (cases ?h)
      case (Inl e)
      with None here show ?thesis by simp
    next
      case (Inr b)
      with None here r rest show ?thesis
        by (cases b; cases r; cases r2) (auto split: sum.splits)
    qed
  qed (use here in simp)
qed simp

lemma add_to_group_length: "length (add_to_group key row gs) \<le> Suc (length gs)"
  by (induction gs) auto

lemma collect_groups_length:
  "collect_groups rt groupBy gs rows = Inr gs' \<Longrightarrow> length gs' \<le> length gs + length rows"
proof (induction rows arbitrary: gs)
  case (Cons row rows)
  then obtain key where "collect_groups rt groupBy (add_to_group key row gs) rows = Inr gs'"
    by (auto simp: bind_sum_Inr)
  from Cons.IH [OF this] add_to_group_length [of key row gs] show ?case by simp
qed simp

lemma groupAggregateRows_length:
  assumes "groupAggregateRows rt rows groupBy = Inr gs"
  shows "length gs \<le> Suc (length rows)"
proof (cases "groupBy = []")
  case False
  with assms obtain gs' where "collect_groups rt groupBy [] rows = Inr gs'"
    "gs = fst (sliceStable (\<lambda>l r u. (ag_key l < ag_key r, u)) gs' ())"
    by (auto simp: groupAggregateRows_def bind_sum_Inr)
  with collect_groups_length [of rt groupBy "[]" rows gs'] show ?thesis
    by (metis add_0 le_SucI list.size(3) size_mset sliceStable_mset)
qed (use assms in \<open>auto simp: groupAggregateRows_def\<close>)

lemma filter_rows_length: "filter_rows rt n e i rows = Inr rs \<Longrightarrow> length rs \<le> length rows"
  by (induction rows arbitrary: i rs) (auto simp: bind_sum_Inr le_SucI split: option.splits if_splits)

lemma queryAggregates_returns:
  assumes "random_varies rt n" and "room (length ps * Suc (length rows)) l"
  shows "\<exists>r. queryAggregates rt n q ps rows l = Some r"
proof -
  have "\<exists>r l'. plan_groups rt n q ps (length rows) gs l = Some (r, l')"
    if gs: "filter_rows rt n (q_filter q) 0 rows = Inr filtered" "groupAggregateRows rt filtered (q_group_by q) = Inr gs"
    for filtered gs
  proof -
    have "length gs \<le> Suc (length rows)"
      using groupAggregateRows_length [OF gs(2)] filter_rows_length [OF gs(1)] by simp
    then have "length ps * length gs \<le> length ps * Suc (length rows)" by (rule mult_le_mono2)
    then have "room (length ps * length gs + 0) l" by (intro room_mono [OF assms(2)]) simp
    from plan_groups_returns [OF assms(1) this] show ?thesis by blast
  qed
  then show ?thesis by (fastforce simp: queryAggregates_def split: option.splits sum.splits)
qed

text \<open>
  C29: Every query returns, with an error or a stream, when the source of random bytes varies and
  the connection has room for an identifier per value the query can return.
\<close>

theorem queries_return:
  assumes rnd: "random_varies rt n" and lobs: "finite (dom (ic_lobs c))"
    and few: "\<And>d ps. resolveEntity rt (q_entity q) = Inr d \<Longrightarrow> planProjections rt d (q_projections q) = Inr ps \<Longrightarrow>
      card (dom (ic_lobs c)) + length ps * Suc (length (snapshot rt n s d)) \<le> all_lob_ids"
  shows "\<exists>r c'. conn_Query rt n q s c = Some (r, c')"
proof -
  let ?l = "\<lparr>lo_lobs = ic_lobs c, lo_draws = 0, lo_clocks = 0\<rparr>"
  have "\<exists>r. (if aggregateQuery q then queryAggregates rt n q ps (snapshot rt n s d) ?l
          else query_rows rt n q ps (snapshot rt n s d) ?l) = Some r"
    if "resolveEntity rt (q_entity q) = Inr d" "planProjections rt d (q_projections q) = Inr ps" for d ps
  proof -
    have room: "room (length ps * Suc (length (snapshot rt n s d))) ?l"
      using few [OF that] lobs by (simp add: room_def)
    then have "room (length ps * length (snapshot rt n s d)) ?l" by (rule room_mono) simp
    with room queryAggregates_returns [OF rnd] query_rows_returns [OF rnd] show ?thesis by auto
  qed
  then show ?thesis by (fastforce simp: conn_Query_def Let_def split: option.splits sum.splits)
qed

lemma demo_random_varies: "random_varies demo_runtime n"
proof -
  have "\<exists>j\<ge>k. im_random demo_runtime n j = None" for k
    by (intro exI [of _ "max k 200"]) (simp add: demo_runtime_def)
  then show ?thesis unfolding random_varies_def by (metis option.distinct(1))
qed

theorem queries_return_witness:
  "\<exists>r c'. conn_Query demo_runtime 0 demo_query (newStore demo_runtime) open_connection = Some (r, c')"
proof (rule queries_return [OF demo_random_varies])
  show "finite (dom (ic_lobs open_connection))" by (simp add: open_connection_def)
  fix d ps
  assume d: "resolveEntity demo_runtime (q_entity demo_query) = Inr d"
    and ps: "planProjections demo_runtime d (q_projections demo_query) = Inr ps"
  have "length ps = 1" using ps by (auto simp: planProjections_def demo_query_def split: sum.splits)
  moreover have "length (snapshot demo_runtime 0 (newStore demo_runtime) d) \<le> 3"
    using snapshot_length [OF demo_ranges_all newStore_ok resolveEntity_Inr [OF d], of 0]
    by (simp add: newStore_def initial_tasks_def)
  ultimately show "card (dom (ic_lobs open_connection)) +
      length ps * Suc (length (snapshot demo_runtime 0 (newStore demo_runtime) d)) \<le> all_lob_ids"
    by (simp add: open_connection_def all_lob_ids_def inMemoryLobIDBytes_def)
qed

end
