(* ===== verification/InMemoryGroups.thy ===== *)
theory InMemoryGroups
  imports InMemoryResults
begin

text \<open>
  The groups of an aggregate query: they partition the rows by the values of the grouped
  expressions, although the code files them under an encoding of these values, and an
  expression that passed the check of grouped expressions has the same value whichever row
  represents its group.
\<close>

section \<open>Keys\<close>

text \<open>
  Deterministic marshalling gives different values different encodings, and an encoding is a slice.
\<close>

definition marshal_exact :: "runtime \<Rightarrow> value set \<Rightarrow> bool" where
  "marshal_exact rt V \<longleftrightarrow>
     (\<forall>v\<in>V. \<forall>b. im_marshal rt v = Inr b \<longrightarrow> length b < 2 ^ 63) \<and>
     (\<forall>v\<in>V. \<forall>w\<in>V. \<forall>b. im_marshal rt v = Inr b \<longrightarrow> im_marshal rt w = Inr b \<longrightarrow> v = w)"

lemma bigEndian64_length: "length (bigEndian64 n) = 8"
  by (simp add: bigEndian64_def)

lemma bigEndian64_value:
  "foldl (\<lambda>acc c. acc * 256 + of_char c) 0 (bigEndian64 n) = n mod 2 ^ 64"
proof -
  have step: "(n div 256 ^ Suc k) mod 256 ^ j * 256 + n div 256 ^ k mod 256 = n div 256 ^ k mod 256 ^ Suc j" for j k
  proof -
    have "n div 256 ^ Suc k = n div 256 ^ k div 256" unfolding power_Suc2 by (rule div_mult2_eq)
    then show ?thesis using mod_mult2_eq [of "n div 256 ^ k" 256 "256 ^ j"] by simp
  qed
  let ?f = "\<lambda>j. foldl (\<lambda>acc c. acc * 256 + of_char c) 0 (map (\<lambda>i. char_of (n div 256 ^ (7 - i))) [0..<j])"
  have "?f j = n div 256 ^ (8 - j) mod 256 ^ j" if "j \<le> 8" for j
    using that
  proof (induction j)
    case (Suc j)
    then have k: "8 - j = Suc (8 - Suc j)" "7 - j = 8 - Suc j" by simp_all
    have "?f (Suc j) = ?f j * 256 + n div 256 ^ (7 - j) mod 256" by simp
    also have "?f j = n div 256 ^ Suc (8 - Suc j) mod 256 ^ j" unfolding k(1) [symmetric] using Suc by simp
    finally show ?case unfolding k(2) step .
  qed simp
  from this [OF order_refl] have "foldl (\<lambda>acc c. acc * 256 + of_char c) 0 (bigEndian64 n) = n div 256 ^ 0 mod 256 ^ 8"
    unfolding bigEndian64_def diff_self_eq_0 .
  also have "\<dots> = n mod 2 ^ 64" by simp
  finally show ?thesis .
qed

lemma bigEndian64_inj: "m < 2 ^ 64 \<Longrightarrow> n < 2 ^ 64 \<Longrightarrow> bigEndian64 m = bigEndian64 n \<Longrightarrow> m = n"
  by (metis bigEndian64_value mod_less)

text \<open>The key of a list of values determines the list.\<close>

lemma aggregateValuesKey_inj:
  assumes V: "marshal_exact rt V"
  shows "set vs \<subseteq> V \<Longrightarrow> set ws \<subseteq> V \<Longrightarrow> aggregateValuesKey rt vs = Inr k \<Longrightarrow> aggregateValuesKey rt ws = Inr k \<Longrightarrow> vs = ws"
proof (induction vs arbitrary: ws k)
  case Nil
  then show ?case by (cases ws) (auto simp: bind_sum_Inr bigEndian64_def split: sum.splits)
next
  case (Cons v vs)
  from Cons.prems(3) obtain b rest where b: "im_marshal rt v = Inr b" "aggregateValuesKey rt vs = Inr rest"
    "k = bigEndian64 (length b) @ b @ rest" by (auto simp: bind_sum_Inr split: sum.splits)
  then have "k \<noteq> []" by (auto simp: bigEndian64_def)
  with Cons.prems(4) obtain w ws' where ws: "ws = w # ws'" by (cases ws) auto
  with Cons.prems(4) obtain b' rest' where b': "im_marshal rt w = Inr b'" "aggregateValuesKey rt ws' = Inr rest'"
    "k = bigEndian64 (length b') @ b' @ rest'" by (auto simp: bind_sum_Inr split: sum.splits)
  have "bigEndian64 (length b) = bigEndian64 (length b')"
    using b(3) b'(3) bigEndian64_length [of "length b"] bigEndian64_length [of "length b'"] by (metis append_eq_append_conv)
  moreover have in_V: "v \<in> V" "w \<in> V" using Cons.prems(1,2) ws by simp_all
  then have "length b < 2 ^ 63" "length b' < 2 ^ 63"
    using V b(1) b'(1) unfolding marshal_exact_def by blast+
  then have "length b < 2 ^ 64" "length b' < 2 ^ 64" by simp_all
  ultimately have "length b = length b'" by (intro bigEndian64_inj)
  with b(3) b'(3) \<open>bigEndian64 (length b) = bigEndian64 (length b')\<close> have "b = b'" "rest = rest'"
    by (metis append_eq_append_conv)+
  moreover have "v = w" using V in_V b(1) b'(1) \<open>b = b'\<close> unfolding marshal_exact_def by blast
  ultimately show ?case using Cons.IH [of ws' rest] Cons.prems(1,2) b(2) b'(2) ws by simp
qed

section \<open>The partition\<close>

definition groups_of :: "(entity_row \<Rightarrow> im_eval_err + bytes) \<Rightarrow> entity_row list \<Rightarrow> aggregate_group list \<Rightarrow> bool" where
  "groups_of key rows gs \<longleftrightarrow>
     distinct (map ag_key gs) \<and>
     (\<forall>g\<in>set gs. ag_rows g = filter (\<lambda>row. key row = Inr (ag_key g)) rows \<and> ag_rows g \<noteq> []) \<and>
     (\<forall>row\<in>set rows. \<exists>g\<in>set gs. key row = Inr (ag_key g))"

lemma add_to_group_keys:
  "ag_key ` set (add_to_group k row gs) = insert k (ag_key ` set gs)"
  "distinct (map ag_key gs) \<Longrightarrow> distinct (map ag_key (add_to_group k row gs))"
proof -
  show keys: "ag_key ` set (add_to_group k row gs) = insert k (ag_key ` set gs)" for gs
    by (induction gs) auto
  show "distinct (map ag_key gs) \<Longrightarrow> distinct (map ag_key (add_to_group k row gs))"
    by (induction gs) (auto simp: keys)
qed

lemma add_to_group_member:
  assumes "distinct (map ag_key gs)" and "g \<in> set (add_to_group k row gs)"
  shows "g \<in> set gs \<and> ag_key g \<noteq> k \<or>
    (\<exists>g'\<in>set gs. ag_key g' = k \<and> g = g'\<lparr>ag_rows := ag_rows g' @ [row]\<rparr>) \<or>
    k \<notin> ag_key ` set gs \<and> g = \<lparr>ag_key = k, ag_rows = [row]\<rparr>"
  using assms
proof (induction gs)
  case (Cons h gs)
  show ?case
  proof (cases "ag_key h = k")
    case True
    with Cons.prems show ?thesis by (auto simp: image_iff)
  next
    case False
    with Cons show ?thesis by (auto simp: image_iff)
  qed
qed simp

lemma groups_of_add:
  assumes gs: "groups_of key rows gs" and k: "key row = Inr k"
  shows "groups_of key (rows @ [row]) (add_to_group k row gs)"
proof -
  from gs have dist: "distinct (map ag_key gs)" by (simp add: groups_of_def)
  have here: "ag_rows g = filter (\<lambda>r. key r = Inr (ag_key g)) (rows @ [row]) \<and> ag_rows g \<noteq> []"
    if g: "g \<in> set (add_to_group k row gs)" for g
    using add_to_group_member [OF dist g] gs k unfolding groups_of_def
    by (auto simp: filter_empty_conv image_iff) fastforce
  have "\<exists>g\<in>set (add_to_group k row gs). key r = Inr (ag_key g)" if "r \<in> set (rows @ [row])" for r
  proof -
    have "\<exists>k'\<in>insert k (ag_key ` set gs). key r = Inr k'" using that gs k by (auto simp: groups_of_def)
    then show ?thesis unfolding add_to_group_keys(1) [of k row gs, symmetric] by auto
  qed
  with here add_to_group_keys(2) [OF dist] show ?thesis unfolding groups_of_def by blast
qed

lemma collect_groups_of:
  "groups_of (group_key rt groupBy) seen gs \<Longrightarrow> collect_groups rt groupBy gs rows = Inr gs' \<Longrightarrow>
   groups_of (group_key rt groupBy) (seen @ rows) gs'"
proof (induction rows arbitrary: seen gs)
  case (Cons row rows)
  then obtain k where k: "group_key rt groupBy row = Inr k"
    "collect_groups rt groupBy (add_to_group k row gs) rows = Inr gs'" by (auto simp: bind_sum_Inr)
  from Cons.IH [OF groups_of_add [OF Cons.prems(1) k(1)] k(2)] show ?case by simp
qed simp

lemma groups_of_permuted:
  assumes "mset gs' = mset gs" and "groups_of key rows gs"
  shows "groups_of key rows gs'"
proof -
  have "set gs' = set gs" using assms(1) by (rule mset_eq_setD)
  moreover have "mset (map ag_key gs') = mset (map ag_key gs)" unfolding mset_map assms(1) ..
  then have "distinct (map ag_key gs') = distinct (map ag_key gs)" by (rule mset_eq_imp_distinct_iff)
  ultimately show ?thesis using assms(2) unfolding groups_of_def by blast
qed

lemma groupAggregateRows_groups:
  assumes "groupAggregateRows rt rows groupBy = Inr gs" and "groupBy \<noteq> []"
  shows "groups_of (group_key rt groupBy) rows gs \<and> sorted_wrt (\<lambda>a b. ag_key a < ag_key b) gs"
proof -
  let ?sort = "\<lambda>gs. fst (sliceStable (\<lambda>l r u. (ag_key l < ag_key r, u)) gs ())"
  from assms obtain gs' where gs': "collect_groups rt groupBy [] rows = Inr gs'" and gs: "gs = ?sort gs'"
    by (auto simp: groupAggregateRows_def bind_sum_Inr)
  have "groups_of (group_key rt groupBy) ([] @ rows) gs'"
    by (rule collect_groups_of [OF _ gs']) (simp add: groups_of_def)
  then have groups: "groups_of (group_key rt groupBy) rows gs"
    unfolding gs by (intro groups_of_permuted [OF sliceStable_mset]) simp
  have "group_keys.ordered gs" unfolding gs by (rule group_keys.sliceStable_ordered) simp
  then have "sorted (map ag_key gs)" by (simp add: group_keys.ordered_def sorted_map not_less)
  moreover have "distinct (map ag_key gs)" using groups by (simp add: groups_of_def)
  ultimately have "sorted_wrt (<) (map ag_key gs)" by (simp add: strict_sorted_iff)
  then have "sorted_wrt (\<lambda>a b. ag_key a < ag_key b) gs" by (simp add: sorted_wrt_map)
  with groups show ?thesis by simp
qed

definition grouped_values :: "runtime \<Rightarrow> expression option list \<Rightarrow> entity_row \<Rightarrow> im_eval_err + value list" where
  "grouped_values rt groupBy row = traverse (evaluateExpression rt row) groupBy"

definition values_in :: "runtime \<Rightarrow> expression option list \<Rightarrow> entity_row list \<Rightarrow> value set" where
  "values_in rt groupBy rows = {v. \<exists>row\<in>set rows. \<exists>vs. grouped_values rt groupBy row = Inr vs \<and> v \<in> set vs}"

lemma same_key:
  assumes V: "marshal_exact rt (values_in rt groupBy rows)" and rows: "r \<in> set rows" "row \<in> set rows"
    and k: "group_key rt groupBy r = Inr k"
  shows "group_key rt groupBy row = Inr k \<longleftrightarrow> grouped_values rt groupBy row = grouped_values rt groupBy r"
proof
  assume "group_key rt groupBy row = Inr k"
  with k obtain vs ws where vs: "grouped_values rt groupBy row = Inr vs" "aggregateValuesKey rt vs = Inr k"
    and ws: "grouped_values rt groupBy r = Inr ws" "aggregateValuesKey rt ws = Inr k"
    by (auto simp: group_key_def grouped_values_def bind_sum_Inr)
  then have "set vs \<subseteq> values_in rt groupBy rows" "set ws \<subseteq> values_in rt groupBy rows"
    using rows unfolding values_in_def by blast+
  from aggregateValuesKey_inj [OF V this vs(2) ws(2)] vs(1) ws(1)
  show "grouped_values rt groupBy row = grouped_values rt groupBy r" by simp
qed (use k in \<open>simp add: group_key_def grouped_values_def\<close>)

section \<open>Representatives\<close>

definition representative :: "entity_row \<Rightarrow> entity_row list \<Rightarrow> expression_context" where
  "representative row rows = \<lparr>cx_row = Some row, cx_rows = rows, cx_grouped = True\<rparr>"

text \<open>A value an expression has on a row is its value in every group with that representative.\<close>

lemma evaluateBooleanExpression_kept:
  "evaluateBooleanExpression r = Inr b \<Longrightarrow> \<forall>v. r = Inr v \<longrightarrow> r' = Inr v \<Longrightarrow> evaluateBooleanExpression r' = Inr b"
  by (cases r) (simp_all add: evaluateBooleanExpression_def)

lemma decide_kept:
  "decide stop rs = Inr v \<Longrightarrow> list_all2 (\<lambda>r r'. \<forall>v. r = Inr v \<longrightarrow> r' = Inr v) rs rs' \<Longrightarrow> decide stop rs' = Inr v"
proof (induction rs arbitrary: rs')
  case (Cons r rs)
  then obtain r' rest where r': "rs' = r' # rest" "\<forall>v. r = Inr v \<longrightarrow> r' = Inr v"
    "list_all2 (\<lambda>r r'. \<forall>v. r = Inr v \<longrightarrow> r' = Inr v) rs rest" by (auto simp: list_all2_Cons1)
  from Cons.prems(1) obtain b where b: "evaluateBooleanExpression r = Inr b" by (auto simp: bind_sum_Inr)
  then have "evaluateBooleanExpression r' = Inr b" using r'(2) by (rule evaluateBooleanExpression_kept)
  with Cons r' b show ?case by (cases "b = stop") auto
qed simp

lemma evaluateLogical_kept:
  assumes "evaluateLogical operator rs = Inr v" and "list_all2 (\<lambda>r r'. \<forall>v. r = Inr v \<longrightarrow> r' = Inr v) rs rs'"
  shows "evaluateLogical operator rs' = Inr v"
proof -
  have len: "length rs' = length rs" using assms(2) by (simp add: list_all2_lengthD)
  show ?thesis
  proof (cases operator)
    case LOGICAL_OPERATOR_NOT
    with assms(1) obtain r where r: "rs = [r]" by (auto simp: evaluateLogical_def length_Suc_conv split: if_splits)
    with assms(2) obtain r' where r': "rs' = [r']" "\<forall>v. r = Inr v \<longrightarrow> r' = Inr v" by (auto simp: list_all2_Cons1)
    from assms(1) r LOGICAL_OPERATOR_NOT obtain b where b: "evaluateBooleanExpression r = Inr b" "v = booleanValue (\<not> b)"
      by (auto simp: evaluateLogical_def bind_sum_Inr)
    with evaluateBooleanExpression_kept [OF b(1) r'(2)] r' LOGICAL_OPERATOR_NOT show ?thesis
      by (simp add: evaluateLogical_def)
  qed (use assms len in \<open>auto simp: evaluateLogical_def intro: decide_kept split: if_splits\<close>)
qed

lemma evaluate_kept:
  "evaluateExpressionInContext rt (row_context row) e = Inr v \<Longrightarrow>
   evaluateExpressionInContext rt (representative row rows) e = Inr v"
proof (induction rt "row_context row" e arbitrary: v rule: evaluateExpressionInContext.induct)
  case (6 rt operator l r)
  then show ?case by (fastforce simp: evaluateComparison_def bind_sum_Inr split: if_splits)
next
  case (8 rt operator es)
  have "list_all2 (\<lambda>r r'. \<forall>v. r = Inr v \<longrightarrow> r' = Inr v)
      (map (evaluateExpressionInContext rt (row_context row)) es)
      (map (evaluateExpressionInContext rt (representative row rows)) es)"
    using 8(1) by (auto simp: list_all2_map1 list_all2_map2 intro!: list_all2_same [THEN iffD2])
  with 8(2) show ?case by (auto intro: evaluateLogical_kept)
next
  case (10 rt operator e)
  then show ?case by (fastforce simp: evaluateNullPredicate_def bind_sum_Inr)
qed (auto simp: row_context_def representative_def split: option.splits if_splits)

text \<open>\<open>proto.Equal\<close> holds of equal expressions only.\<close>

definition equality_exact :: "runtime \<Rightarrow> bool" where
  "equality_exact rt \<longleftrightarrow> (\<forall>x y. im_equal rt x y \<longrightarrow> x = y)"

lemma first_error_all: "first_error (\<lambda>_. f) i xs = None \<Longrightarrow> x \<in> set xs \<Longrightarrow> f x = None"
  by (simp add: first_error_None_all [where P = "\<lambda>x. f x = None"])

lemma representative_irrelevant:
  "validateGroupedExpression rt groupBy nested e = None \<Longrightarrow> \<not> nested \<Longrightarrow> equality_exact rt \<Longrightarrow>
   \<forall>g\<in>set groupBy. \<exists>v. evaluateExpression rt r1 g = Inr v \<and> evaluateExpression rt r2 g = Inr v \<Longrightarrow>
   evaluateExpressionInContext rt (representative r1 rows) e = evaluateExpressionInContext rt (representative r2 rows) e"
proof (induction rt groupBy nested e rule: validateGroupedExpression.induct)
  case (2 rt groupBy nested e)
  let ?grouped = "list_ex (\<lambda>g. case g of None \<Rightarrow> False | Some x \<Rightarrow> im_equal rt x e) groupBy"
  show ?case
  proof (cases ?grouped)
    case True
    then obtain x where x: "Some x \<in> set groupBy" "im_equal rt x e" by (auto simp: list_ex_iff split: option.splits)
    with 2(11) have "x = e" by (simp add: equality_exact_def)
    with x 2(12) obtain v where "evaluateExpression rt r1 (Some e) = Inr v" "evaluateExpression rt r2 (Some e) = Inr v"
      by blast
    then show ?thesis unfolding evaluateExpression_def by (simp add: evaluate_kept)
  next
    case False
    show ?thesis
    proof (cases e)
      case (ExprField name)
      show ?thesis using 2(9,10) False unfolding ExprField by simp
    next
      case (ExprAggregate f es dst result)
      then show ?thesis by (simp add: representative_def split: list.splits)
    next
      case (ExprComparison operator l r)
      with 2 False show ?thesis by (auto split: option.splits)
    next
      case (ExprLogical operator es)
      with 2 False have "first_error (\<lambda>_. validateGroupedExpression rt groupBy nested) 0 es = None" by simp
      then have "validateGroupedExpression rt groupBy nested x = None" if "x \<in> set es" for x
        using that by (rule first_error_all)
      with 2 False ExprLogical have "evaluateExpressionInContext rt (representative r1 rows) x =
          evaluateExpressionInContext rt (representative r2 rows) x" if "x \<in> set es" for x
        using that by auto
      then have "map (evaluateExpressionInContext rt (representative r1 rows)) es =
          map (evaluateExpressionInContext rt (representative r2 rows)) es" by (intro map_cong) simp_all
      then show ?thesis unfolding ExprLogical evaluateExpressionInContext.simps by (rule arg_cong)
    next
      case (ExprNullPredicate operator x)
      with 2 False show ?thesis by auto
    qed (simp_all add: representative_def)
  qed
qed simp

section \<open>Properties\<close>

text \<open>
  C28: Grouping partitions the filtered rows by the values of the grouped expressions. Every row is
  in exactly one group, and a group has exactly the rows with the values of any of its rows,
  in their order: no two different lists of values are filed under the same key.
\<close>

theorem groups_partition_rows:
  assumes "groupAggregateRows rt rows groupBy = Inr gs" and "groupBy \<noteq> []"
    and "marshal_exact rt (values_in rt groupBy rows)"
  shows "sorted_wrt (\<lambda>a b. ag_key a < ag_key b) gs \<and>
    (\<forall>row\<in>set rows. \<exists>!g. g \<in> set gs \<and> row \<in> set (ag_rows g)) \<and>
    (\<forall>g\<in>set gs. ag_rows g \<noteq> [] \<and>
       (\<forall>r\<in>set (ag_rows g).
          ag_rows g = filter (\<lambda>row. grouped_values rt groupBy row = grouped_values rt groupBy r) rows))"
proof -
  note gs = groupAggregateRows_groups [OF assms(1,2)]
  then have groups: "groups_of (group_key rt groupBy) rows gs" by simp
  have unique: "\<exists>!g. g \<in> set gs \<and> row \<in> set (ag_rows g)" if row: "row \<in> set rows" for row
  proof -
    from groups row obtain g where g: "g \<in> set gs" "group_key rt groupBy row = Inr (ag_key g)"
      unfolding groups_of_def by blast
    have member: "row \<in> set (ag_rows h) \<longleftrightarrow> ag_key h = ag_key g" if "h \<in> set gs" for h
    proof -
      have "ag_rows h = filter (\<lambda>row. group_key rt groupBy row = Inr (ag_key h)) rows"
        using groups that unfolding groups_of_def by blast
      then show ?thesis using row g(2) by auto
    qed
    have "h = g" if "h \<in> set gs" "ag_key h = ag_key g" for h
      using groups that g(1) unfolding groups_of_def distinct_map inj_on_def by blast
    with member g(1) show ?thesis by metis
  qed
  have same: "ag_rows g = filter (\<lambda>row. grouped_values rt groupBy row = grouped_values rt groupBy r) rows"
    if g: "g \<in> set gs" and r: "r \<in> set (ag_rows g)" for g r
  proof -
    have eq: "ag_rows g = filter (\<lambda>row. group_key rt groupBy row = Inr (ag_key g)) rows"
      using groups g unfolding groups_of_def by blast
    with r have r': "r \<in> set rows" "group_key rt groupBy r = Inr (ag_key g)" by auto
    show ?thesis unfolding eq using same_key [OF assms(3) r'(1) _ r'(2)] by (intro filter_cong) simp_all
  qed
  have "\<forall>g\<in>set gs. ag_rows g \<noteq> []" using groups unfolding groups_of_def by blast
  with gs unique same show ?thesis by blast
qed

text \<open>
  An expression that passed the check of grouped expressions has one value per group: it does
  not matter that the code evaluates it with the first row of the group.
\<close>

theorem grouped_values_agree:
  assumes "groupAggregateRows rt rows groupBy = Inr gs" and "groupBy \<noteq> []"
    and "marshal_exact rt (values_in rt groupBy rows)" and "equality_exact rt"
    and "validateGroupedExpression rt groupBy False e = None"
    and "g \<in> set gs" and "r \<in> set (ag_rows g)"
  shows "evaluateGroupedExpression rt (ag_rows g) e =
    evaluateExpressionInContext rt \<lparr>cx_row = Some r, cx_rows = ag_rows g, cx_grouped = True\<rparr> e"
proof -
  from groupAggregateRows_groups [OF assms(1,2)] assms(6)
  have eq: "ag_rows g = filter (\<lambda>row. group_key rt groupBy row = Inr (ag_key g)) rows"
    unfolding groups_of_def by blast
  obtain r1 rest where r1: "ag_rows g = r1 # rest" using assms(7) by (cases "ag_rows g") auto
  have "x \<in> set rows \<and> group_key rt groupBy x = Inr (ag_key g)" if "x \<in> set (ag_rows g)" for x
    using that unfolding eq by simp
  moreover have "r1 \<in> set (ag_rows g)" using r1 by simp
  ultimately have rows: "r1 \<in> set rows" "r \<in> set rows" "group_key rt groupBy r1 = Inr (ag_key g)"
    "group_key rt groupBy r = Inr (ag_key g)" using assms(7) by simp_all
  from same_key [OF assms(3) rows(1,2,3)] rows(4) have same: "grouped_values rt groupBy r = grouped_values rt groupBy r1"
    by simp
  from rows(3) obtain vs where vs: "grouped_values rt groupBy r1 = Inr vs"
    by (auto simp: group_key_def grouped_values_def bind_sum_Inr)
  with same have both: "list_all2 (\<lambda>x v. evaluateExpression rt r1 x = Inr v) groupBy vs"
    "list_all2 (\<lambda>x v. evaluateExpression rt r x = Inr v) groupBy vs"
    unfolding traverse_Inr [symmetric] by (simp_all add: grouped_values_def)
  have "\<exists>v. evaluateExpression rt r1 x = Inr v \<and> evaluateExpression rt r x = Inr v" if x: "x \<in> set groupBy" for x
  proof -
    from x obtain i where "i < length groupBy" "x = groupBy ! i" by (auto simp: in_set_conv_nth)
    with both show ?thesis by (auto simp: list_all2_conv_all_nth)
  qed
  then have "evaluateExpressionInContext rt (representative r1 (ag_rows g)) e =
      evaluateExpressionInContext rt (representative r (ag_rows g)) e"
    using assms(4) by (intro representative_irrelevant [OF assms(5)]) blast+
  moreover have "group_context (ag_rows g) = representative r1 (ag_rows g)"
    by (simp add: group_context_def representative_def r1)
  ultimately show ?thesis by (simp add: evaluateGroupedExpression_def representative_def)
qed

text \<open>The tasks of the sample data by their completion.\<close>

definition demo_group_rows :: "entity_row list" where
  "demo_group_rows = map (\<lambda>(_, t). taskRow demo_runtime t) initial_tasks"

definition by_completed :: "expression option list" where
  "by_completed = [Some (ExprField (Some ''completed''))]"

lemma demo_grouped_values:
  "list_all (\<lambda>row. grouped_values demo_runtime by_completed row \<in> {Inr [booleanValue True], Inr [booleanValue False]})
     demo_group_rows"
  by code_simp

lemma demo_marshal_exact: "marshal_exact demo_runtime (values_in demo_runtime by_completed demo_group_rows)"
proof -
  let ?V = "values_in demo_runtime by_completed demo_group_rows"
  have bools: "v \<in> ?V \<Longrightarrow> \<exists>b. v = booleanValue b" for v
    using demo_grouped_values unfolding values_in_def list_all_iff by fastforce
  have "im_marshal demo_runtime (booleanValue b) = Inr (if b then ''t'' else ''f'')" for b
    by (simp add: demo_runtime_def demo_marshal_def booleanValue_def)
  then have marshal: "\<exists>b. v = booleanValue b \<and> im_marshal demo_runtime v = Inr (if b then ''t'' else ''f'')"
    if "v \<in> ?V" for v using bools [OF that] by blast
  show ?thesis
    unfolding marshal_exact_def
  proof (intro conjI ballI allI impI)
    fix v e assume "v \<in> ?V" and "im_marshal demo_runtime v = Inr e"
    with marshal [of v] show "length e < 2 ^ 63" by (auto split: if_splits)
  next
    fix v w e
    assume "v \<in> ?V" and "w \<in> ?V" and "im_marshal demo_runtime v = Inr e" and "im_marshal demo_runtime w = Inr e"
    with marshal [of v] marshal [of w] show "v = w" by (auto split: if_splits)
  qed
qed

lemma collect_groups_total:
  "\<forall>row\<in>set rows. \<exists>k. group_key rt groupBy row = Inr k \<Longrightarrow> \<exists>gs'. collect_groups rt groupBy gs rows = Inr gs'"
  by (induction rows arbitrary: gs) auto

lemma demo_groups:
  obtains gs where "groupAggregateRows demo_runtime demo_group_rows by_completed = Inr gs" and "by_completed \<noteq> []"
proof -
  have "im_marshal demo_runtime (booleanValue b) = Inr (if b then ''t'' else ''f'')" for b
    by (simp add: demo_runtime_def demo_marshal_def booleanValue_def)
  then have "\<exists>k. group_key demo_runtime by_completed row = Inr k" if "row \<in> set demo_group_rows" for row
    using that demo_grouped_values unfolding list_all_iff
    by (auto simp: group_key_def grouped_values_def dest!: bspec)
  then obtain gs where "collect_groups demo_runtime by_completed [] demo_group_rows = Inr gs"
    using collect_groups_total by blast
  then show ?thesis using that by (simp add: groupAggregateRows_def by_completed_def)
qed

theorem groups_partition_rows_witness:
  "\<exists>gs. groupAggregateRows demo_runtime demo_group_rows by_completed = Inr gs \<and>
     sorted_wrt (\<lambda>a b. ag_key a < ag_key b) gs \<and>
     (\<exists>!g. g \<in> set gs \<and> taskRow demo_runtime (snd (hd initial_tasks)) \<in> set (ag_rows g))"
proof -
  obtain gs where gs: "groupAggregateRows demo_runtime demo_group_rows by_completed = Inr gs" "by_completed \<noteq> []"
    by (rule demo_groups)
  have "taskRow demo_runtime (snd (hd initial_tasks)) \<in> set demo_group_rows"
    by (simp add: demo_group_rows_def initial_tasks_def)
  with groups_partition_rows [OF gs demo_marshal_exact] gs(1) show ?thesis by blast
qed

theorem grouped_values_agree_witness:
  "\<exists>gs g r. groupAggregateRows demo_runtime demo_group_rows by_completed = Inr gs \<and>
     g \<in> set gs \<and> r \<in> set (ag_rows g) \<and>
     evaluateGroupedExpression demo_runtime (ag_rows g) (Some (ExprField (Some ''completed''))) =
       evaluateExpressionInContext demo_runtime \<lparr>cx_row = Some r, cx_rows = ag_rows g, cx_grouped = True\<rparr>
         (Some (ExprField (Some ''completed'')))"
proof -
  obtain gs where gs: "groupAggregateRows demo_runtime demo_group_rows by_completed = Inr gs" "by_completed \<noteq> []"
    by (rule demo_groups)
  have "taskRow demo_runtime (snd (hd initial_tasks)) \<in> set demo_group_rows"
    by (simp add: demo_group_rows_def initial_tasks_def)
  with groupAggregateRows_groups [OF gs] obtain g where g: "g \<in> set gs" "ag_rows g \<noteq> []"
    unfolding groups_of_def by blast
  then obtain r where r: "r \<in> set (ag_rows g)" by (cases "ag_rows g") auto
  have "equality_exact demo_runtime" by (simp add: equality_exact_def demo_runtime_def)
  moreover have "validateGroupedExpression demo_runtime by_completed False (Some (ExprField (Some ''completed''))) = None"
    by (simp add: by_completed_def demo_runtime_def)
  ultimately show ?thesis
    using grouped_values_agree [OF gs demo_marshal_exact _ _ g(1) r] gs(1) g(1) r by blast
qed

end
