(* ===== verification/InMemoryProvider.thy ===== *)
theory InMemoryProvider
  imports InMemoryGroups
begin

text \<open>
  \<open>providers/inmemory/provider.go\<close>, \<open>connection.go\<close> and \<open>semantic.go\<close>: the provider and its
  connections as implementations of the SDK's interfaces. The world has what the objects of
  the provider keep: the shared store, the connections, the open streams, each under the
  number of its creation, and a count of the calls, which is the number under which a call
  asks the runtime. A call that does not return has no answer (\<open>the\<close>); \<open>queries_return\<close> and
  \<open>insert_returns\<close> say when calls return.

  The capabilities are in two parts: what the SDK's server checks, and what only the planner
  of the engine reads. The query logger is not
  modelled. \<open>from_context\<close> is \<open>status.FromContextError\<close> of the gRPC library and \<open>schemaDDL\<close>
  the embedded file.
\<close>

section \<open>The world\<close>

record im_world =
  iw_store :: store
  iw_connections :: "im_connection list"
  iw_streams :: "im_stream list"
  iw_lob_streams :: "im_lob_stream list"
  iw_calls :: nat

definition begin_call :: "im_world \<Rightarrow> im_world" where
  "begin_call w = w\<lparr>iw_calls := Suc (iw_calls w)\<rparr>"

definition set_connection :: "nat \<Rightarrow> im_connection \<Rightarrow> im_world \<Rightarrow> im_world" where
  "set_connection i c w = w\<lparr>iw_connections := (iw_connections w)[i := c]\<rparr>"

section \<open>Streams\<close>

definition in_memory_stream :: "runtime \<Rightarrow> nat \<Rightarrow> im_world result_stream" where
  "in_memory_stream rt j =
     \<lparr>rs_next = (\<lambda>w.
        case stream_Next (im_context rt (iw_calls w) 0) (iw_streams w ! j) of
          (r, st) \<Rightarrow> (r, (begin_call w)\<lparr>iw_streams := (iw_streams w)[j := st]\<rparr>)),
      rs_close = (\<lambda>w.
        case stream_Close (iw_streams w ! j) of
          (e, st) \<Rightarrow> (e, (begin_call w)\<lparr>iw_streams := (iw_streams w)[j := st]\<rparr>)),
      rs_outcome = None\<rparr>"

definition in_memory_lob_stream :: "runtime \<Rightarrow> nat \<Rightarrow> im_world lob_stream" where
  "in_memory_lob_stream rt j =
     \<lparr>ls_next = (\<lambda>w.
        case lob_stream_Next (im_context rt (iw_calls w) 0) (iw_lob_streams w ! j) of
          (r, st) \<Rightarrow> (r, (begin_call w)\<lparr>iw_lob_streams := (iw_lob_streams w)[j := st]\<rparr>)),
      ls_close = (\<lambda>w.
        case lob_stream_Close (iw_lob_streams w ! j) of
          (e, st) \<Rightarrow> (e, (begin_call w)\<lparr>iw_lob_streams := (iw_lob_streams w)[j := st]\<rparr>))\<rparr>"

section \<open>Connections\<close>

definition transactionsUnsupportedError :: go_error where
  "transactionsUnsupportedError = Status Unimplemented (InMemoryReason ImTransactionsUnsupported)"

definition conn_Close :: "im_connection \<Rightarrow> go_error option \<times> im_connection" where
  "conn_Close c = (None, c\<lparr>ic_closed := True, ic_lobs := Map.empty\<rparr>)"

definition conn_Begin :: "go_error option" where "conn_Begin = Some transactionsUnsupportedError"
definition conn_Commit :: "go_error option" where "conn_Commit = Some transactionsUnsupportedError"
definition conn_Rollback :: "go_error option" where "conn_Rollback = Some transactionsUnsupportedError"
definition conn_InTransaction :: "bool \<times> go_error option" where
  "conn_InTransaction = (False, Some transactionsUnsupportedError)"

text \<open>The methods of the connection with number \<open>i\<close> on the world.\<close>

definition run_query ::
  "runtime \<Rightarrow> nat \<Rightarrow> query_request \<Rightarrow> im_world \<Rightarrow> (im_world result_stream option \<times> go_error option) \<times> im_world" where
  "run_query rt i q w =
     (case the (conn_Query rt (iw_calls w) q (iw_store w) (iw_connections w ! i)) of
        (Inl e, c) \<Rightarrow> ((None, Some e), set_connection i c (begin_call w))
      | (Inr st, c) \<Rightarrow>
          ((Some (in_memory_stream rt (length (iw_streams w))), None),
           (set_connection i c (begin_call w))\<lparr>iw_streams := iw_streams w @ [st]\<rparr>))"

definition run_insert ::
  "runtime \<Rightarrow> nat \<Rightarrow> insert_request \<Rightarrow> im_world \<Rightarrow> (insert_response option \<times> go_error option) \<times> im_world" where
  "run_insert rt i req w =
     (case the (conn_Insert rt (iw_calls w) req (iw_store w) (iw_connections w ! i)) of
        (Inl e, s) \<Rightarrow> ((None, Some e), (begin_call w)\<lparr>iw_store := s\<rparr>)
      | (Inr resp, s) \<Rightarrow> ((Some resp, None), (begin_call w)\<lparr>iw_store := s\<rparr>))"

definition run_update ::
  "runtime \<Rightarrow> nat \<Rightarrow> update_request \<Rightarrow> im_world \<Rightarrow> (update_response option \<times> go_error option) \<times> im_world" where
  "run_update rt i req w =
     (case conn_Update rt (iw_calls w) req (iw_store w) (iw_connections w ! i) of
        (Inl e, s) \<Rightarrow> ((None, Some e), (begin_call w)\<lparr>iw_store := s\<rparr>)
      | (Inr resp, s) \<Rightarrow> ((Some resp, None), (begin_call w)\<lparr>iw_store := s\<rparr>))"

definition run_delete ::
  "runtime \<Rightarrow> nat \<Rightarrow> delete_request \<Rightarrow> im_world \<Rightarrow> (delete_response option \<times> go_error option) \<times> im_world" where
  "run_delete rt i req w =
     (case conn_Delete rt (iw_calls w) req (iw_store w) (iw_connections w ! i) of
        (Inl e, s) \<Rightarrow> ((None, Some e), (begin_call w)\<lparr>iw_store := s\<rparr>)
      | (Inr resp, s) \<Rightarrow> ((Some resp, None), (begin_call w)\<lparr>iw_store := s\<rparr>))"

definition run_read_lob ::
  "runtime \<Rightarrow> nat \<Rightarrow> read_lob_request \<Rightarrow> im_world \<Rightarrow> (im_world lob_stream option \<times> go_error option) \<times> im_world" where
  "run_read_lob rt i req w =
     (case conn_ReadLob rt (iw_calls w) req (iw_connections w ! i) of
        (Inl e, c) \<Rightarrow> ((None, Some e), set_connection i c (begin_call w))
      | (Inr st, c) \<Rightarrow>
          ((Some (in_memory_lob_stream rt (length (iw_lob_streams w))), None),
           (set_connection i c (begin_call w))\<lparr>iw_lob_streams := iw_lob_streams w @ [st]\<rparr>))"

definition run_release_lob ::
  "runtime \<Rightarrow> nat \<Rightarrow> release_lob_request \<Rightarrow> im_world \<Rightarrow> go_error option \<times> im_world" where
  "run_release_lob rt i req w =
     (case conn_ReleaseLob rt (iw_calls w) req (iw_connections w ! i) of
        (e, c) \<Rightarrow> (e, set_connection i c (begin_call w)))"

definition in_memory_connection :: "runtime \<Rightarrow> nat \<Rightarrow> im_world connection" where
  "in_memory_connection rt i =
     \<lparr>cn_close = (\<lambda>w. case conn_Close (iw_connections w ! i) of (e, c) \<Rightarrow> (e, set_connection i c (begin_call w))),
      cn_begin = (\<lambda>w. (conn_Begin, begin_call w)),
      cn_commit = (\<lambda>w. (conn_Commit, begin_call w)),
      cn_rollback = (\<lambda>w. (conn_Rollback, begin_call w)),
      cn_in_transaction = (\<lambda>w. (conn_InTransaction, begin_call w)),
      cn_query = run_query rt i,
      cn_insert = run_insert rt i,
      cn_update = run_update rt i,
      cn_delete = run_delete rt i,
      cn_lob = Some \<lparr>lc_read = run_read_lob rt i, lc_release = run_release_lob rt i\<rparr>,
      cn_branches = None\<rparr>"

section \<open>The provider\<close>

text \<open>
  \<open>value_types\<close> are the value types from \<open>VALUE_TYPE_STRING\<close> to \<open>VALUE_TYPE_ARRAY\<close> in the order of
  their numbers, which the protocol package of the engine fixes.
\<close>

definition supportedValueTypes :: "value_type list \<Rightarrow> supported_value_type option list" where
  "supportedValueTypes value_types =
     map (\<lambda>t. Some \<lparr>sv_type = t, sv_input = True, sv_output = True\<rparr>) value_types"

definition provider_Capabilities :: "value_type list \<Rightarrow> capabilities" where
  "provider_Capabilities value_types =
     \<lparr>c_transactions = Some \<lparr>tc_supported = False, tc_recovery = None\<rparr>,
      c_aggregate_functions =
        Some [AGGREGATE_FUNCTION_COUNT_STAR, AGGREGATE_FUNCTION_COUNT, AGGREGATE_FUNCTION_COUNT_BIG,
              AGGREGATE_FUNCTION_MIN, AGGREGATE_FUNCTION_MAX, AGGREGATE_FUNCTION_SUM, AGGREGATE_FUNCTION_AVG],
      c_values =
        Some \<lparr>vc_supported_types = supportedValueTypes value_types,
              vc_features = [ArrayValuesV1, SpatialValuesV1, LobReadV1],
              vc_max_array_dimensions = Some 1,
              vc_max_lob_chunk_bytes = Some (word_of_nat inMemoryMaxLobChunkBytes),
              vc_max_lob_bytes = Some (word_of_nat inMemoryMaxLobBytes),
              vc_lob_reference_retention_seconds = Some (word_of_int (inMemoryLobRetention div 1000000000))\<rparr>\<rparr>"

text \<open>The parts of the capabilities that only the planner of the engine reads.\<close>

datatype default_null_order =
    DEFAULT_NULL_ORDER_UNSPECIFIED | DEFAULT_NULL_ORDER_HIGH | DEFAULT_NULL_ORDER_LOW
  | DEFAULT_NULL_ORDER_FIRST | DEFAULT_NULL_ORDER_LAST | DEFAULT_NULL_ORDER_UNKNOWN
  | DEFAULT_NULL_ORDER_unnamed int

record planner_capabilities =
  pc_requires_criteria :: bool
  pc_distinct :: bool
  pc_group_by :: bool
  pc_having :: bool
  pc_ordering :: bool
  pc_explicit_null_ordering :: bool
  pc_default_null_order :: default_null_order
  pc_limit :: bool
  pc_offset :: bool
  pc_comparison_operators :: "comparison_operator list"
  pc_logical_operators :: "logical_operator list"
  pc_null_predicate_operators :: "null_predicate_operator list"
  pc_insert :: bool
  pc_update :: bool
  pc_delete :: bool
  pc_generated_values :: bool

definition provider_PlannerCapabilities :: planner_capabilities where
  "provider_PlannerCapabilities =
     \<lparr>pc_requires_criteria = False, pc_distinct = True, pc_group_by = True, pc_having = True,
      pc_ordering = True, pc_explicit_null_ordering = True, pc_default_null_order = DEFAULT_NULL_ORDER_LAST,
      pc_limit = True, pc_offset = True,
      pc_comparison_operators =
        [COMPARISON_OPERATOR_EQUAL, COMPARISON_OPERATOR_NOT_EQUAL, COMPARISON_OPERATOR_LESS_THAN,
         COMPARISON_OPERATOR_LESS_THAN_OR_EQUAL, COMPARISON_OPERATOR_GREATER_THAN,
         COMPARISON_OPERATOR_GREATER_THAN_OR_EQUAL],
      pc_logical_operators = [LOGICAL_OPERATOR_AND, LOGICAL_OPERATOR_OR, LOGICAL_OPERATOR_NOT],
      pc_null_predicate_operators = [NULL_PREDICATE_OPERATOR_IS_NULL, NULL_PREDICATE_OPERATOR_IS_NOT_NULL],
      pc_insert = True, pc_update = True, pc_delete = True, pc_generated_values = True\<rparr>"

definition provider_Health :: health_response where
  "provider_Health = \<lparr>h_healthy = True, h_message = ''in-memory provider is ready''\<rparr>"

record im_provider =
  ip_semanticFragment :: "semantic_fragment option"

definition WithSemanticFragment :: "semantic_fragment option \<Rightarrow> im_provider \<Rightarrow> im_provider" where
  "WithSemanticFragment fragment p = p\<lparr>ip_semanticFragment := CloneSemanticFragment fragment\<rparr>"

definition New :: "(im_provider \<Rightarrow> im_provider) option list \<Rightarrow> im_provider" where
  "New options =
     fold (\<lambda>opt p. case opt of None \<Rightarrow> p | Some f \<Rightarrow> f p) options \<lparr>ip_semanticFragment = None\<rparr>"

text \<open>The store of a new provider, before any call.\<close>

definition new_world :: "runtime \<Rightarrow> im_world" where
  "new_world rt =
     \<lparr>iw_store = newStore rt, iw_connections = [], iw_streams = [], iw_lob_streams = [], iw_calls = 0\<rparr>"

definition provider_Open :: "runtime \<Rightarrow> im_world \<Rightarrow> (im_world connection option \<times> go_error option) \<times> im_world" where
  "provider_Open rt w =
     ((Some (in_memory_connection rt (length (iw_connections w))), None),
      (begin_call w)\<lparr>iw_connections := iw_connections w @ [\<lparr>ic_closed = False, ic_lobs = Map.empty\<rparr>]\<rparr>)"

definition provider_SemanticFragment ::
  "runtime \<Rightarrow> (go_error \<Rightarrow> go_error) \<Rightarrow> im_provider \<Rightarrow> im_world \<Rightarrow>
   (semantic_fragment option \<times> go_error option) \<times> im_world" where
  "provider_SemanticFragment rt from_context p w =
     (case im_context rt (iw_calls w) 0 of
        Some e \<Rightarrow> ((None, Some (from_context e)), begin_call w)
      | None \<Rightarrow> ((CloneSemanticFragment (ip_semanticFragment p), None), begin_call w))"

definition in_memory_provider ::
  "runtime \<Rightarrow> value_type list \<Rightarrow> string \<Rightarrow> (go_error \<Rightarrow> go_error) \<Rightarrow> im_provider \<Rightarrow> im_world provider" where
  "in_memory_provider rt value_types schemaDDL from_context p =
     \<lparr>pv_capabilities = (\<lambda>w. ((Some (provider_Capabilities value_types), None), begin_call w)),
      pv_health = (\<lambda>w. ((Some provider_Health, None), begin_call w)),
      pv_open = provider_Open rt,
      pv_schema = Some (\<lambda>w. ((schemaDDL, None), begin_call w)),
      pv_metadata = None,
      pv_semantic = Some (provider_SemanticFragment rt from_context p),
      pv_recovery = None\<rparr>"

section \<open>Capabilities\<close>

text \<open>What the protocol package promises of its numbering.\<close>

definition value_types_numbered :: "value_type list \<Rightarrow> bool" where
  "value_types_numbered ts \<longleftrightarrow>
     distinct ts \<and> (\<forall>t. t \<in> set ts \<longleftrightarrow> t \<noteq> VALUE_TYPE_UNKNOWN \<and> ValueType_known t)"

lemma capabilities_accepted:
  assumes "value_types_numbered ts"
  shows "validateProviderCapabilities (provider_Capabilities ts) = None"
proof -
  let ?v = "the (c_values (provider_Capabilities ts))"
  have v: "vc_supported_types ?v = supportedValueTypes ts" "vc_features ?v = [ArrayValuesV1, SpatialValuesV1, LobReadV1]"
    by (simp_all add: provider_Capabilities_def)
  have limits: "limit_set (vc_max_array_dimensions ?v)" "limit_set (vc_max_lob_chunk_bytes ?v)"
    "limit_set (vc_max_lob_bytes ?v)" "limit_set (vc_lob_reference_retention_seconds ?v)"
    by (simp_all add: provider_Capabilities_def limit_set_def inMemoryMaxLobChunkBytes_def inMemoryMaxLobBytes_def
        inMemoryLobRetention_def)
  have support: "type_support ?v t \<lparr>sv_type = t, sv_input = True, sv_output = True\<rparr>"
    if "t \<noteq> VALUE_TYPE_UNKNOWN" "ValueType_known t" for t
    using that assms by (simp add: type_support_def v supportedValueTypes_def value_types_numbered_def)
  have "canonical f" if "f \<in> set [ArrayValuesV1, SpatialValuesV1, LobReadV1]" for f
  proof -
    have "list_all canonical [ArrayValuesV1, SpatialValuesV1, LobReadV1]" by code_simp
    with that show ?thesis unfolding list_all_iff by blast
  qed
  moreover have "feature_backed ?v f" for f
    unfolding feature_backed_def using limits
    by (intro conjI impI) (auto intro!: exI support simp: ValueType_known_def)
  moreover have "\<forall>s\<in>set (supportedValueTypes ts). supported_ok s"
    using assms by (auto simp: supportedValueTypes_def value_types_numbered_def supported_ok_def)
  moreover have "distinct (map (sv_type \<circ> the) (supportedValueTypes ts))"
    using assms by (simp add: supportedValueTypes_def value_types_numbered_def comp_def)
  ultimately have "value_capabilities_ok ?v" by (simp add: value_capabilities_ok_def v)
  moreover have "aggregates_ok (the (c_aggregate_functions (provider_Capabilities ts)))"
    by (simp add: provider_Capabilities_def aggregates_ok_def AggregateFunction_known_def)
  moreover have "recovery_ok (the (c_transactions (provider_Capabilities ts)))"
    by (simp add: provider_Capabilities_def recovery_ok_def)
  ultimately show ?thesis unfolding validateProviderCapabilities_None capabilities_ok_def by auto
qed

section \<open>Result streams\<close>

function chunks :: "nat \<Rightarrow> 'a list \<Rightarrow> 'a list list" where
  "chunks k xs = (if k = 0 \<or> xs = [] then [] else take k xs # chunks k (drop k xs))"
  by pat_completeness auto
termination by (relation "measure (\<lambda>(k, xs). length xs)") auto

declare chunks.simps [simp del]

lemma chunks_facts:
  assumes "0 < k"
  shows "concat (chunks k xs) = xs" and "ys \<in> set (chunks k xs) \<Longrightarrow> ys \<noteq> [] \<and> length ys \<le> k \<and> set ys \<subseteq> set xs"
proof -
  show "concat (chunks k xs) = xs"
    using assms by (induction k xs rule: chunks.induct) (subst chunks.simps, simp)
  show "ys \<noteq> [] \<and> length ys \<le> k \<and> set ys \<subseteq> set xs" if "ys \<in> set (chunks k xs)"
    using that assms
  proof (induction k xs rule: chunks.induct)
    case (1 k xs)
    then have "xs \<noteq> []" by (auto simp: chunks.simps)
    with 1 have "ys = take k xs \<or> ys \<in> set (chunks k (drop k xs))" by (simp add: chunks.simps [of k xs])
    with 1 \<open>xs \<noteq> []\<close> show ?case by (auto dest: in_set_takeD in_set_dropD)
  qed
qed

text \<open>No context ends a call.\<close>

definition calm :: "runtime \<Rightarrow> bool" where
  "calm rt \<longleftrightarrow> (\<forall>n. undisturbed rt n)"

lemma stream_step:
  assumes "calm rt" and "j < length (iw_streams w)" and "iw_streams w ! j = st" and "\<not> is_closed st"
  shows "rs_next (in_memory_stream rt j) w =
    (let rest = drop (is_index st) (is_tuples st) in
     if rest = [] then ((None, Some EOF), begin_call w)
     else ((Some \<lparr>b_fields = is_fields st, b_tuples = take (is_batchSize st) rest\<rparr>, None),
           (begin_call w)\<lparr>iw_streams := (iw_streams w)[j := st\<lparr>is_index :=
              min (length (is_tuples st)) (is_index st + is_batchSize st)\<rparr>]\<rparr>))"
proof -
  have "im_context rt (iw_calls w) 0 = None" using assms(1) by (simp add: calm_def undisturbed_def)
  moreover have "take (min n b - i) (drop i xs) = take (b - i) (drop i xs)" if "n = length xs" for n b i and xs :: "tuple_msg option list"
    using that by (simp add: min_def)
  ultimately show ?thesis
    using assms(2-4)
    by (auto simp: in_memory_stream_def stream_Next_def Let_def begin_call_def min_def list_update_id
        split: if_splits)
qed

lemma stream_yields:
  assumes "calm rt" and "0 < is_batchSize st" and "\<not> is_closed st"
  shows "j < length (iw_streams w) \<Longrightarrow> iw_streams w ! j = st\<lparr>is_index := i\<rparr> \<Longrightarrow>
    \<exists>w'. yields (in_memory_stream rt j) w
        (map (\<lambda>ts. \<lparr>b_fields = is_fields st, b_tuples = ts\<rparr>) (chunks (is_batchSize st) (drop i (is_tuples st)))) EOF w' \<and>
      iw_store w' = iw_store w \<and> iw_connections w' = iw_connections w"
proof (induction "length (is_tuples st) - i" arbitrary: i w rule: less_induct)
  case less
  let ?st = "st\<lparr>is_index := i\<rparr>" and ?rest = "drop i (is_tuples st)" and ?k = "is_batchSize st"
  have "\<not> is_closed ?st" using assms(3) by simp
  note step = stream_step [OF assms(1) less.prems this]
  show ?case
  proof (cases "?rest = []")
    case True
    with step show ?thesis by (simp add: chunks.simps begin_call_def)
  next
    case False
    let ?i = "min (length (is_tuples st)) (i + ?k)"
    let ?w = "(begin_call w)\<lparr>iw_streams := (iw_streams w)[j := ?st\<lparr>is_index := ?i\<rparr>]\<rparr>"
    have "length (is_tuples st) - ?i < length (is_tuples st) - i" using False assms(2) by auto
    moreover have "j < length (iw_streams ?w)" "iw_streams ?w ! j = st\<lparr>is_index := ?i\<rparr>" using less.prems(1) by simp_all
    ultimately obtain w' where w': "yields (in_memory_stream rt j) ?w
        (map (\<lambda>ts. \<lparr>b_fields = is_fields st, b_tuples = ts\<rparr>) (chunks ?k (drop ?i (is_tuples st)))) EOF w'"
      "iw_store w' = iw_store ?w" "iw_connections w' = iw_connections ?w"
      using less.hyps by blast
    have "drop ?i (is_tuples st) = drop ?k ?rest" by (simp add: min_def add.commute)
    then have "chunks ?k ?rest = take ?k ?rest # chunks ?k (drop ?i (is_tuples st))"
      using False assms(2) by (subst chunks.simps) simp
    with w' step False show ?thesis by (auto simp: begin_call_def)
  qed
qed

lemma chunk_accepted:
  assumes st: "stream_typed accepted ps st"
    and arr: "\<forall>p\<in>set ps. f_type (pp_field p) = VALUE_TYPE_ARRAY \<longrightarrow> ArrayValuesV1 \<in> set accepted"
    and ts: "ts \<noteq> []" "set ts \<subseteq> set (is_tuples st)"
  shows "validateOutputBatchFeatures (Some \<lparr>b_fields = is_fields st, b_tuples = ts\<rparr>) accepted True = None"
proof -
  have each: "\<exists>vs. t = Some vs \<and> list_all2 (column_ok accepted) ps vs" if "t \<in> set ts" for t
    using st ts(2) that unfolding stream_typed_def by blast
  then have "map Some (map the ts) = ts" by (force simp: comp_def intro!: map_idI)
  moreover have "\<forall>t\<in>set (map the ts). list_all2 (column_ok accepted) ps t" using each by fastforce
  ultimately show ?thesis
    using accepted_batch [of "map the ts" accepted ps] arr ts(1) st by (simp add: stream_typed_def)
qed

lemma conn_Query_batch_size:
  assumes "conn_Query rt n q s c = Some (Inr st, c')"
  shows "is_batchSize st = queryBatchSize (q_batch_size q)"
proof -
  have rows: "is_batchSize st = queryBatchSize (q_batch_size q)"
    if "query_rows rt n q ps rows l = Some (Inr st, l')" for ps rows l l'
    using that by (auto simp: query_rows_def deliver_rows_def newResultStream_def split: sum.splits option.splits prod.splits)
  have "is_batchSize st = queryBatchSize (q_batch_size q)"
    if "queryAggregates rt n q ps rows l = Some (Inr st, l')" for ps rows l l'
    using that by (auto simp: queryAggregates_def newResultStream_def split: sum.splits option.splits prod.splits)
  with rows assms show ?thesis
    by (auto simp: conn_Query_def Let_def split: if_splits sum.splits option.splits)
qed

lemma in_memory_query_end:
  "query_end (in_memory_stream rt j) req sent w =
     ((None, sent @ (if q_accept_outcome req then [OutcomeResponse complete_outcome] else [])), w)"
  by (simp add: query_end_def prepareQueryOutcome_def in_memory_stream_def validateQueryOutcome_def complete_outcome_def)

text \<open>The hypotheses on the runtime that the typing of results needs.\<close>

definition runtime_ok :: "runtime \<Rightarrow> bool" where
  "runtime_ok rt \<longleftrightarrow> random_fills rt \<and> clock_runs rt \<and> fold_lower_agree rt \<and> ranges_all rt"

section \<open>Queries through the server\<close>

text \<open>
  C4: The SDK's server over the in-memory provider serves every valid query the provider answers,
  completely: it sends the tuples of the result in order, in batches of the requested size,
  none of which its own validation of types and features rejects, then the outcome if the
  client wants it, and reports no error. The store is not changed.
\<close>

theorem in_memory_queries_served:
  assumes reg: "registry_ok (ss_registry s)" and id: "q_connection_id req \<noteq> []"
    and conn: "connection_at s (q_connection_id req) = Some (in_memory_connection rt i)"
    and rt: "runtime_ok rt" "calm rt" and store: "store_ok rt (iw_store (ss_world s))"
    and req: "q_allow_partial_results req \<longrightarrow> q_accept_outcome req" "validateQueryRequestValues req = None" "query_plain req"
    and send: "\<And>l m. send l m = None"
    and run: "conn_Query rt (iw_calls (ss_world s)) (req\<lparr>q_connection_id := []\<rparr>) (iw_store (ss_world s))
        (iw_connections (ss_world s) ! i) = Some (Inr st, c)"
  shows "\<exists>bs w'. Query send req s =
      Some ((None, map (BatchResponse \<circ> stamp (q_connection_id req)) bs @
               (if q_accept_outcome req then [OutcomeResponse complete_outcome] else [])), s\<lparr>ss_world := w'\<rparr>) \<and>
    concat (map b_tuples bs) = is_tuples st \<and>
    (\<forall>b\<in>set bs. b_fields b = is_fields st \<and> b_tuples b \<noteq> [] \<and> length (b_tuples b) \<le> queryBatchSize (q_batch_size req) \<and>
       validateOutputBatchFeatures (Some b) (q_accepted_features req) True = None) \<and>
    iw_store w' = iw_store (ss_world s)"
proof -
  let ?q = "req\<lparr>q_connection_id := []\<rparr>" and ?w = "ss_world s"
  let ?j = "length (iw_streams ?w)"
  let ?w1 = "(set_connection i c (begin_call ?w))\<lparr>iw_streams := iw_streams ?w @ [st]\<rparr>"
  from rt(1) have ok: "random_fills rt" "clock_runs rt" "fold_lower_agree rt" "ranges_all rt"
    by (simp_all add: runtime_ok_def)
  have q: "validateQueryRequestValues ?q = None" "query_plain ?q"
    using req(2,3) by (simp_all add: validateQueryRequestValues_def query_plain_def)
  from conn_Query_typed [OF ok store q run] obtain ps where st: "stream_typed (q_accepted_features req) ps st"
    and arr: "\<forall>p\<in>set ps. f_type (pp_field p) = VALUE_TYPE_ARRAY \<longrightarrow> ArrayValuesV1 \<in> set (q_accepted_features req)"
    by auto
  then have fresh: "\<not> is_closed st" "0 < is_batchSize st" "st\<lparr>is_index := 0\<rparr> = st" by (auto simp: stream_typed_def)
  have size: "is_batchSize st = queryBatchSize (q_batch_size req)" using conn_Query_batch_size [OF run] by simp
  let ?bs = "map (\<lambda>ts. \<lparr>b_fields = is_fields st, b_tuples = ts\<rparr>) (chunks (is_batchSize st) (is_tuples st))"
  have query: "cn_query (in_memory_connection rt i) ?q ?w = ((Some (in_memory_stream rt ?j), None), ?w1)"
    using run by (simp add: in_memory_connection_def run_query_def)
  obtain w2 where y: "yields (in_memory_stream rt ?j) ?w1 ?bs EOF w2" "iw_store w2 = iw_store ?w1"
    using stream_yields [OF rt(2) fresh(2,1), of ?j ?w1 0] fresh(3) by auto
  have accepted: "\<forall>b\<in>set ?bs. validateOutputBatchFeatures (Some b) (q_accepted_features req) True = None"
    using chunk_accepted [OF st arr] chunks_facts(2) [OF fresh(2), of _ "is_tuples st"] by auto
  have "cn_lob (in_memory_connection rt i) \<noteq> None" by (simp add: in_memory_connection_def)
  with Query_delivers [OF reg id conn req(1,2) query y(1) _ send] accepted
  have "Query send req s = Some ((None, map (BatchResponse \<circ> stamp (q_connection_id req)) ?bs @
      (if q_accept_outcome req then [OutcomeResponse complete_outcome] else [])),
      s\<lparr>ss_world := snd (rs_close (in_memory_stream rt ?j) w2)\<rparr>)"
    by (simp add: in_memory_query_end) (simp add: in_memory_stream_def stream_Close_def)
  moreover have "iw_store (snd (rs_close (in_memory_stream rt ?j) w2)) = iw_store ?w"
    using y(2) by (simp add: in_memory_stream_def stream_Close_def begin_call_def set_connection_def)
  moreover have "concat (map b_tuples ?bs) = is_tuples st"
    using chunks_facts(1) [OF fresh(2)] by (simp add: comp_def)
  moreover have "b_fields b = is_fields st \<and> b_tuples b \<noteq> [] \<and> length (b_tuples b) \<le> queryBatchSize (q_batch_size req)"
    if "b \<in> set ?bs" for b
    using that chunks_facts(2) [OF fresh(2), of _ "is_tuples st"] unfolding size by auto
  ultimately show ?thesis using accepted by blast
qed

lemma upper_lower: "ascii c \<Longrightarrow> ascii_upper (ascii_lower c) = ascii_upper c"
proof -
  assume "ascii c"
  then have "(of_char c :: nat) < 128" by (simp add: ascii_def)
  then have "(of_char (ascii_lower c) :: nat) =
      (if 65 \<le> (of_char c :: nat) \<and> (of_char c :: nat) \<le> 90 then of_char c + 32 else of_char c)"
    by (simp add: ascii_lower_def)
  then have "(of_char (ascii_upper (ascii_lower c)) :: nat) = of_char (ascii_upper c)"
    unfolding ascii_upper_code by auto
  then show ?thesis by simp
qed

lemma demo_fold_lower: "fold_lower_agree demo_runtime"
  unfolding fold_lower_agree_def
proof (intro ballI allI impI)
  fix d f g s
  assume d: "d \<in> set entityDefinitions" and f: "f \<in> set (ed_fields d)" and g: "g \<in> set (ed_fields d)"
    and eq: "equalName demo_runtime (ef_name f) s" and low: "toLower (im_lower demo_runtime) s = ef_name g"
  from eq have s: "list_all ascii s" "map ascii_upper (ef_name f) = map ascii_upper s"
    by (simp_all add: equalName_def demo_runtime_def ascii_fold)
  then have "ef_name g = map ascii_lower s" using low by (simp add: toLower_def)
  then have "map ascii_upper (ef_name g) = map ascii_upper s"
    using s(1) by (auto simp: list_all_iff upper_lower)
  with s(2) have "equalName demo_runtime (ef_name f) (ef_name g)"
    using lower_name [OF d f] lower_name [OF d g]
    by (simp add: equalName_def demo_runtime_def ascii_fold list_all_iff)
  then have same: "ef_name f = ef_name g" using equalName_lower [OF lower_name [OF d f] lower_name [OF d g]] by simp
  have "Some f = fieldByName demo_runtime d (ef_name f)" by (rule fieldByName_self [OF d f, symmetric])
  also have "\<dots> = Some g" unfolding same by (rule fieldByName_self [OF d g])
  finally show "f = g" by (rule option.inject [THEN iffD1])
qed

lemma demo_runtime_ok: "runtime_ok demo_runtime" and demo_calm: "calm demo_runtime"
  by (simp_all add: runtime_ok_def demo_fold_lower demo_ranges_all random_fills_def clock_runs_def calm_def
      undisturbed_def) (simp_all add: demo_runtime_def inMemoryLobIDBytes_def)

text \<open>A server with one connection to a new provider.\<close>

definition demo_server :: "im_world server_state" where
  "demo_server =
     \<lparr>ss_registry = register newConnectionRegistry ''c1'' (in_memory_connection demo_runtime 0),
      ss_world = snd (provider_Open demo_runtime (new_world demo_runtime))\<rparr>"

lemma demo_server_ok: "registry_ok (ss_registry demo_server)"
proof -
  have "registry_ok (register newConnectionRegistry ''c1'' (in_memory_connection demo_runtime 0))"
    by (rule register_ok [OF newConnectionRegistry_ok]) (simp add: newConnectionRegistry_def)
  then show ?thesis by (simp add: demo_server_def)
qed

lemma demo_server_connection:
  "connection_at demo_server ''c1'' = Some (in_memory_connection demo_runtime 0)"
  by (simp add: connection_at_def demo_server_def register_def newConnectionRegistry_def)

text \<open>A query for the names of the projects.\<close>

definition project_query :: query_request where
  "project_query =
     \<lparr>q_connection_id = ''c1'', q_entity = Some \<lparr>er_name = ''Project'', er_namespace = []\<rparr>,
      q_projections = [Some \<lparr>pr_expression = Some (ExprField (Some ''name'')), pr_output_name = []\<rparr>],
      q_filter = None, q_order_by = [], q_limit = None, q_offset = None, q_batch_size = None,
      q_accepted_features = [], q_group_by = [], q_having = None, q_accept_outcome = True,
      q_allow_partial_results = False\<rparr>"

lemma project_rows_run:
  "map_option (map_sum id is_tuples \<circ> fst)
     (query_rows demo_runtime 1 (project_query\<lparr>q_connection_id := []\<rparr>) [plan_field (field ''name'' VALUE_TYPE_STRING)]
        (projectRows demo_runtime) \<lparr>lo_lobs = Map.empty, lo_draws = 0, lo_clocks = 0\<rparr>) =
   Some (Inr [Some [Some (stringValue ''Provider SDK'')], Some [Some (stringValue ''Engine Integration'')]])"
  by code_simp

lemma project_query_run:
  obtains st c where
    "conn_Query demo_runtime 1 (project_query\<lparr>q_connection_id := []\<rparr>) (newStore demo_runtime) open_connection = Some (Inr st, c)"
    and "is_tuples st = [Some [Some (stringValue ''Provider SDK'')], Some [Some (stringValue ''Engine Integration'')]]"
proof -
  let ?q = "project_query\<lparr>q_connection_id := []\<rparr>" and ?ps = "[plan_field (field ''name'' VALUE_TYPE_STRING)]"
  let ?l = "\<lparr>lo_lobs = Map.empty, lo_draws = 0, lo_clocks = 0\<rparr>"
  have q: "resolveEntity demo_runtime (q_entity ?q) = Inr project_definition"
    "planProjections demo_runtime project_definition (q_projections ?q) = Inr ?ps"
    "check_array_feature ?q ?ps = None" "\<not> aggregateQuery ?q"
    by code_simp+
  have "project_definition \<in> set entityDefinitions" by (simp add: entityDefinitions_def)
  from entity_is_task [OF this, of demo_runtime] have "snapshot demo_runtime 1 (newStore demo_runtime) project_definition = projectRows demo_runtime"
    by (simp add: snapshot_def newStore_entities) (simp add: definition_defs entity_names)
  with q have "conn_Query demo_runtime 1 ?q (newStore demo_runtime) open_connection =
      map_option (\<lambda>(r, l). (r, open_connection\<lparr>ic_lobs := lo_lobs l\<rparr>)) (query_rows demo_runtime 1 ?q ?ps (projectRows demo_runtime) ?l)"
    by (simp add: conn_Query_def open_connection_def)
  moreover obtain r l where r: "query_rows demo_runtime 1 ?q ?ps (projectRows demo_runtime) ?l = Some (r, l)"
    "map_sum id is_tuples r = Inr [Some [Some (stringValue ''Provider SDK'')], Some [Some (stringValue ''Engine Integration'')]]"
    using project_rows_run by auto
  ultimately show ?thesis using that by (cases r) auto
qed

theorem in_memory_queries_served_witness:
  "\<exists>bs w'. Query (\<lambda>_ _. None) project_query demo_server =
      Some ((None, map (BatchResponse \<circ> stamp ''c1'') bs @ [OutcomeResponse complete_outcome]), demo_server\<lparr>ss_world := w'\<rparr>) \<and>
    concat (map b_tuples bs) =
      [Some [Some (stringValue ''Provider SDK'')], Some [Some (stringValue ''Engine Integration'')]]"
proof -
  have world: "iw_calls (ss_world demo_server) = 1" "iw_store (ss_world demo_server) = newStore demo_runtime"
    "iw_connections (ss_world demo_server) ! 0 = open_connection"
    by (simp_all add: demo_server_def provider_Open_def new_world_def begin_call_def open_connection_def)
  obtain st c where run: "conn_Query demo_runtime 1 (project_query\<lparr>q_connection_id := []\<rparr>) (newStore demo_runtime) open_connection = Some (Inr st, c)"
    and tuples: "is_tuples st = [Some [Some (stringValue ''Provider SDK'')], Some [Some (stringValue ''Engine Integration'')]]"
    by (rule project_query_run)
  have req: "q_connection_id project_query = ''c1''" "q_accept_outcome project_query"
    "validateQueryRequestValues project_query = None"
    by code_simp+
  have "query_plain project_query" by (auto simp: query_plain_def project_query_def field_expression_ok)
  with in_memory_queries_served [of demo_server project_query demo_runtime 0 "\<lambda>_ _. None" st c]
    demo_server_ok demo_server_connection demo_runtime_ok demo_calm newStore_ok [of demo_runtime] req run world tuples
  show ?thesis by (auto simp: req)
qed

end
