(* ===== verification/InMemoryServing.thy ===== *)
theory InMemoryServing
  imports InMemoryProvider
begin

text \<open>
  The SDK's server over the in-memory provider, beyond queries: the capabilities it serves,
  LOBs from the query that creates them to the bytes a client reads, and the invariant of the
  provider's world over all sequences of calls.
\<close>

section \<open>Capabilities\<close>

text \<open>An operator is advertised exactly when evaluation supports it.\<close>

lemma comparisons_advertised:
  assumes "\<not> isNullValue (Some l)" "\<not> isNullValue (Some r)" "compareValues rt l r = Inr order"
  shows "operator \<in> set (pc_comparison_operators provider_PlannerCapabilities) \<longleftrightarrow>
    (\<exists>b. evaluateComparison rt operator (Inr l) (Inr r) = Inr b)"
  using assms by (cases operator) (simp_all add: provider_PlannerCapabilities_def evaluateComparison_def)

lemma logical_advertised:
  "operator \<in> set (pc_logical_operators provider_PlannerCapabilities) \<longleftrightarrow>
   (\<exists>results b. evaluateLogical operator results = Inr b)"
proof -
  let ?t = "Inr (booleanValue True)"
  have "evaluateLogical LOGICAL_OPERATOR_AND [?t, ?t] = ?t" "evaluateLogical LOGICAL_OPERATOR_OR [?t, ?t] = ?t"
    "evaluateLogical LOGICAL_OPERATOR_NOT [?t] = Inr (booleanValue False)"
    by (simp_all add: evaluateLogical_def evaluateBooleanExpression_def isNullValue_def booleanValue_def)
  moreover have "evaluateLogical LOGICAL_OPERATOR_UNSPECIFIED rs = Inl LogicalOperatorRequired"
    "evaluateLogical (LOGICAL_OPERATOR_unnamed i) rs = Inl LogicalOperatorRequired" for rs i
    by (simp_all add: evaluateLogical_def)
  ultimately show ?thesis
    by (cases operator) (auto simp: provider_PlannerCapabilities_def)
qed

lemma null_predicates_advertised:
  "operator \<in> set (pc_null_predicate_operators provider_PlannerCapabilities) \<longleftrightarrow>
   (\<exists>b. evaluateNullPredicate operator (Inr v) = Inr b)"
  by (cases operator) (simp_all add: provider_PlannerCapabilities_def evaluateNullPredicate_def)

lemma aggregates_advertised:
  "function \<in> set (the (c_aggregate_functions (provider_Capabilities ts))) \<longleftrightarrow>
   (\<exists>arguments b. evaluateAggregate rt 0 function arguments [] False (Some result) = Inr b)"
  if "td_type result = VALUE_TYPE_LONG"
proof -
  have number: "aggregateNumberValue rt 0 (Some result) = Inr (longValue 0)"
    using that by (simp add: aggregateNumberValue_def integral_result_def isInt64_def Let_def)
  have "\<exists>b. evaluateAggregate rt 0 function (if function = AGGREGATE_FUNCTION_COUNT_STAR then 0 else 1) [] False
      (Some result) = Inr b"
    if "function \<in> set (the (c_aggregate_functions (provider_Capabilities ts)))"
    using that number by (auto simp: provider_Capabilities_def evaluateAggregate_def)
  moreover have "\<exists>e. evaluateAggregate rt 0 function arguments [] False (Some result) = Inl e"
    if "function \<notin> set (the (c_aggregate_functions (provider_Capabilities ts)))" for arguments
    using that by (auto simp: provider_Capabilities_def evaluateAggregate_def)
  ultimately show ?thesis by (metis Inl_Inr_False)
qed

text \<open>
  A server over the in-memory provider serves its capabilities: they pass the validation of
  value types, features, aggregates and transactions. They are exact: an operator or aggregate
  function is advertised if and only if the provider evaluates it, comparisons on comparable
  values, aggregates with a result of type LONG.
\<close>

theorem in_memory_capabilities_served:
  assumes "value_types_numbered ts"
  shows "GetCapabilities (in_memory_provider rt ts ddl from_context p) s =
      (Inr (provider_Capabilities ts), s\<lparr>ss_world := begin_call (ss_world s)\<rparr>) \<and>
    (\<forall>operator l r order. \<not> isNullValue (Some l) \<and> \<not> isNullValue (Some r) \<and> compareValues rt l r = Inr order \<longrightarrow>
       (operator \<in> set (pc_comparison_operators provider_PlannerCapabilities)) =
       (\<exists>b. evaluateComparison rt operator (Inr l) (Inr r) = Inr b)) \<and>
    (\<forall>operator. (operator \<in> set (pc_logical_operators provider_PlannerCapabilities)) =
       (\<exists>results b. evaluateLogical operator results = Inr b)) \<and>
    (\<forall>operator v. (operator \<in> set (pc_null_predicate_operators provider_PlannerCapabilities)) =
       (\<exists>b. evaluateNullPredicate operator (Inr v) = Inr b)) \<and>
    (\<forall>function result. td_type result = VALUE_TYPE_LONG \<longrightarrow>
       (function \<in> set (the (c_aggregate_functions (provider_Capabilities ts)))) =
       (\<exists>arguments b. evaluateAggregate rt 0 function arguments [] False (Some result) = Inr b))"
proof -
  have "recovery_manager_of (in_memory_provider rt ts ddl from_context p) w = None" for w
    by (simp add: recovery_manager_of_def in_memory_provider_def)
  then have "GetCapabilities (in_memory_provider rt ts ddl from_context p) s =
      (Inr (provider_Capabilities ts), s\<lparr>ss_world := begin_call (ss_world s)\<rparr>)"
    using capabilities_accepted [OF assms]
    by (simp add: GetCapabilities_def in_memory_provider_def validateTransactionRecoveryImplementation_def)
      (simp add: provider_Capabilities_def)
  then show ?thesis
    by (intro conjI allI impI logical_advertised null_predicates_advertised aggregates_advertised)
      (simp_all add: comparisons_advertised)
qed

definition type_numbering :: "value_type list" where
  "type_numbering =
     [VALUE_TYPE_STRING, VALUE_TYPE_VARBINARY, VALUE_TYPE_CHAR, VALUE_TYPE_BOOLEAN, VALUE_TYPE_BYTE,
      VALUE_TYPE_SHORT, VALUE_TYPE_INTEGER, VALUE_TYPE_LONG, VALUE_TYPE_BIGINTEGER, VALUE_TYPE_FLOAT,
      VALUE_TYPE_DOUBLE, VALUE_TYPE_BIGDECIMAL, VALUE_TYPE_DATE, VALUE_TYPE_TIME, VALUE_TYPE_TIMESTAMP,
      VALUE_TYPE_BLOB, VALUE_TYPE_CLOB, VALUE_TYPE_XML, VALUE_TYPE_GEOMETRY, VALUE_TYPE_GEOGRAPHY,
      VALUE_TYPE_JSON, VALUE_TYPE_ARRAY]"

theorem in_memory_capabilities_served_witness:
  "fst (GetCapabilities (in_memory_provider demo_runtime type_numbering [] id (New [])) demo_server) =
     Inr (provider_Capabilities type_numbering)"
proof -
  have "t \<in> set type_numbering \<longleftrightarrow> t \<noteq> VALUE_TYPE_UNKNOWN \<and> ValueType_known t" for t
    by (cases t) (simp_all add: type_numbering_def ValueType_known_def)
  then have "value_types_numbered type_numbering"
    by (simp add: value_types_numbered_def) (simp add: type_numbering_def)
  from in_memory_capabilities_served [OF this, of demo_runtime] show ?thesis by simp
qed

section \<open>Reading LOBs\<close>

lemma lob_step:
  assumes "calm rt" and "j < length (iw_lob_streams w)" and "iw_lob_streams w ! j = st"
    and "\<not> il_closed st" and "\<not> il_done st"
  shows "ls_next (in_memory_lob_stream rt j) w =
    (let k = min (il_chunkSize st) (length (il_data st)) in
     ((Some \<lparr>rr_offset = il_offset st, rr_data = take k (il_data st), rr_end_of_read = (k = length (il_data st))\<rparr>, None),
      (begin_call w)\<lparr>iw_lob_streams := (iw_lob_streams w)[j :=
         st\<lparr>il_offset := il_offset st + word_of_nat k, il_data := drop k (il_data st),
            il_done := (k = length (il_data st))\<rparr>]\<rparr>))"
proof -
  have "im_context rt (iw_calls w) 0 = None" using assms(1) by (simp add: calm_def undisturbed_def)
  then show ?thesis
    using assms(2-5)
    by (auto simp: in_memory_lob_stream_def lob_stream_Next_def Let_def begin_call_def min_def)
qed

text \<open>The conditions under which the rest of a stream passes the checks of the server.\<close>

definition lob_fits :: "read_lob_request \<Rightarrow> 64 word \<Rightarrow> 64 word \<Rightarrow> im_lob_stream \<Rightarrow> bool" where
  "lob_fits req expected bytesSent st \<longleftrightarrow>
     il_offset st = expected \<and> 0 < il_chunkSize st \<and>
     (rl_max_chunk_bytes req > 0 \<longrightarrow> il_chunkSize st \<le> unat (rl_max_chunk_bytes req)) \<and>
     unat expected + length (il_data st) < 2 ^ 63 \<and>
     unat bytesSent + length (il_data st) < 2 ^ 63 \<and>
     (\<forall>n. rl_length req = Some n \<longrightarrow> unat bytesSent + length (il_data st) \<le> unat n)"

lemma unat_widened: "unat (ucast x :: 64 word) = unat x" for x :: "32 word"
proof -
  have "unat x < 2 ^ LENGTH(32)" by (rule unsigned_less)
  then have "unat x < 2 ^ 64" by simp
  then show ?thesis by (simp add: unsigned_ucast_eq take_bit_nat_eq_self)
qed

lemma lob_chunk_checked:
  assumes fits: "lob_fits req expected bytesSent st" and k: "k = min (il_chunkSize st) (length (il_data st))"
    and r: "r = \<lparr>rr_offset = expected, rr_data = take k (il_data st), rr_end_of_read = (k = length (il_data st))\<rparr>"
  shows "check_chunk req expected bytesSent r = None"
    and "lob_fits req (expected + chunk_size r) (bytesSent + chunk_size r)
      (st\<lparr>il_offset := expected + word_of_nat k, il_data := drop k (il_data st), il_done := d\<rparr>)"
proof -
  have small: "unat expected + length (il_data st) < 2 ^ 63" "unat bytesSent + length (il_data st) < 2 ^ 63"
    using fits by (simp_all add: lob_fits_def)
  have kle: "k \<le> length (il_data st)" "k \<le> il_chunkSize st" by (simp_all add: k)
  then have size: "chunk_size r = word_of_nat k" by (simp add: chunk_size_def r)
  have uk: "unat (word_of_nat k :: 64 word) = k" using kle(1) small by (simp add: unat_of_nat)
  have "k \<noteq> 0" if "k \<noteq> length (il_data st)"
    using that fits by (auto simp: k lob_fits_def min_def split: if_splits)
  moreover have "chunk_size r = 0 \<longleftrightarrow> k = 0"
    using unat_eq_zero [of "word_of_nat k :: 64 word"] uk by (simp only: size)
  ultimately have "\<not> (\<not> rr_end_of_read r \<and> chunk_size r = 0)" by (auto simp: r)
  moreover have "\<not> (rl_max_chunk_bytes req > 0 \<and> chunk_size r > ucast (rl_max_chunk_bytes req))"
    using fits kle(2) uk by (auto simp: lob_fits_def size word_less_nat_alt unat_widened)
  moreover have "\<not> (chunk_size r > n \<or> bytesSent > n - chunk_size r)" if n: "rl_length req = Some n" for n
  proof -
    have le: "unat bytesSent + k \<le> unat n" using fits n kle(1) by (auto simp: lob_fits_def)
    then have "(word_of_nat k :: 64 word) \<le> n" using uk by (simp add: word_le_nat_alt)
    with le uk show ?thesis by (simp add: size word_less_nat_alt unat_sub)
  qed
  moreover have "\<not> chunk_size r > - 1 - expected"
  proof -
    have "unat (- 1 - expected) = 2 ^ 64 - 1 - unat expected"
      by (simp add: unat_sub unsigned_minus_1_eq_mask mask_eq_exp_minus_1)
    then show ?thesis using small kle(1) uk by (simp add: size word_less_nat_alt)
  qed
  ultimately show "check_chunk req expected bytesSent r = None"
    by (auto simp: check_chunk_def r split: option.splits)
  have "unat (expected + word_of_nat k) = unat expected + k" "unat (bytesSent + word_of_nat k) = unat bytesSent + k"
    using small kle(1) uk by (simp_all add: unat_plus_if')
  then show "lob_fits req (expected + chunk_size r) (bytesSent + chunk_size r)
      (st\<lparr>il_offset := expected + word_of_nat k, il_data := drop k (il_data st), il_done := d\<rparr>)"
    using fits kle(1) by (auto simp: lob_fits_def size)
qed

lemma lob_loop_reads:
  assumes calm: "calm rt" and send: "\<And>l m. send l m = None"
  shows "j < length (iw_lob_streams w) \<Longrightarrow> iw_lob_streams w ! j = st \<Longrightarrow> \<not> il_closed st \<Longrightarrow> \<not> il_done st \<Longrightarrow>
    lob_fits req expected bytesSent st \<Longrightarrow>
    \<exists>rs w'. lob_loop (in_memory_lob_stream rt j) req send sent expected bytesSent w = ((None, sent @ rs), w') \<and>
      concat (map rr_data rs) = il_data st \<and> iw_store w' = iw_store w \<and> iw_connections w' = iw_connections w"
proof (induction "length (il_data st)" arbitrary: st w sent expected bytesSent rule: less_induct)
  case less
  define k where "k = min (il_chunkSize st) (length (il_data st))"
  define r where "r = \<lparr>rr_offset = expected, rr_data = take k (il_data st), rr_end_of_read = (k = length (il_data st))\<rparr>"
  let ?st = "st\<lparr>il_offset := expected + word_of_nat k, il_data := drop k (il_data st), il_done := (k = length (il_data st))\<rparr>"
  let ?w = "(begin_call w)\<lparr>iw_lob_streams := (iw_lob_streams w)[j := ?st]\<rparr>"
  have off: "il_offset st = expected" using less.prems(5) by (simp add: lob_fits_def)
  have step: "ls_next (in_memory_lob_stream rt j) w = ((Some r, None), ?w)"
    using lob_step [OF calm less.prems(1-4)] by (simp add: Let_def k_def r_def off)
  note checked = lob_chunk_checked [OF less.prems(5) k_def r_def]
  show ?case
  proof (cases "k = length (il_data st)")
    case True
    with step checked(1) send show ?thesis
      by (subst lob_loop.simps) (auto simp: r_def begin_call_def intro!: exI [of _ "[r]"])
  next
    case False
    then have more: "\<not> rr_end_of_read r" "\<not> il_done ?st" by (simp_all add: r_def)
    have "length (il_data ?st) < length (il_data st)"
      using False less.prems(5) by (auto simp: k_def lob_fits_def min_def split: if_splits)
    moreover have "\<not> il_closed ?st" using less.prems(3) by simp
    moreover have "j < length (iw_lob_streams ?w)" "iw_lob_streams ?w ! j = ?st" using less.prems(1) by simp_all
    ultimately obtain rs w' where rs: "lob_loop (in_memory_lob_stream rt j) req send (sent @ [r])
        (expected + chunk_size r) (bytesSent + chunk_size r) ?w = ((None, (sent @ [r]) @ rs), w')"
      "concat (map rr_data rs) = il_data ?st" "iw_store w' = iw_store ?w" "iw_connections w' = iw_connections ?w"
      using less.hyps [of ?st ?w] checked(2) more(2) by blast
    with step checked(1) send more(1) show ?thesis
      by (subst lob_loop.simps) (auto simp: r_def begin_call_def intro!: exI [of _ "r # rs"])
  qed
qed

lemma conn_ReadLob_data:
  assumes "\<not> ic_closed c" and "im_context rt n 0 = None"
    and "ic_lobs c (rl_lob_id req) = Some l" and "im_clock rt n 0 < lb_expiresAt l"
    and "unat (rl_offset req) \<le> length (lb_data l)" and "length (lb_data l) < 2 ^ 63"
  shows "\<exists>st. conn_ReadLob rt n req c = (Inr st, c) \<and>
    il_data st = (case rl_length req of None \<Rightarrow> id | Some n \<Rightarrow> take (unat n)) (drop (unat (rl_offset req)) (lb_data l)) \<and>
    il_offset st = rl_offset req \<and> \<not> il_closed st \<and> \<not> il_done st \<and> 0 < il_chunkSize st \<and>
    (rl_max_chunk_bytes req > 0 \<longrightarrow> il_chunkSize st \<le> unat (rl_max_chunk_bytes req))"
proof -
  let ?size = "word_of_nat (length (lb_data l)) :: 64 word" and ?off = "rl_offset req"
  let ?last = "case rl_length req of Some len \<Rightarrow> if len < ?size - ?off then ?off + len else ?size | None \<Rightarrow> ?size"
  have us: "unat ?size = length (lb_data l)" using assms(6) by (simp add: unat_of_nat)
  then have le: "?off \<le> ?size" using assms(5) by (simp add: word_le_nat_alt)
  then have diff: "unat (?size - ?off) = length (lb_data l) - unat ?off" by (simp add: unat_sub us)
  have "take (unat ?last - unat ?off) (drop (unat ?off) (lb_data l)) =
      (case rl_length req of None \<Rightarrow> id | Some n \<Rightarrow> take (unat n)) (drop (unat ?off) (lb_data l))"
  proof (cases "rl_length req")
    case (Some len)
    show ?thesis
    proof (cases "len < ?size - ?off")
      case True
      then have "unat len < length (lb_data l) - unat ?off" using diff by (simp add: word_less_nat_alt)
      then have "unat ?off + unat len < length (lb_data l)" by linarith
      then have "unat ?off + unat len < 2 ^ 64" using assms(6) by simp
      then have "unat (?off + len) = unat ?off + unat len" by (simp add: unat_plus_if')
      with Some True show ?thesis by simp
    next
      case False
      then have "length (lb_data l) - unat ?off \<le> unat len" using diff by (simp add: word_less_nat_alt)
      with Some False us show ?thesis by simp
    qed
  qed (simp add: us)
  with assms le show ?thesis
    by (auto simp: conn_ReadLob_def Let_def inMemoryMaxLobChunkBytes_def unat_gt_0 not_less)
qed

text \<open>
  C27: A LOB that a connection holds is read back exactly: the chunks the server sends for a read
  from an offset up to a length are together that part of the bytes, in chunks no larger than
  the client and the provider allow, and the read ends without an error.
\<close>

theorem in_memory_lobs_read_back:
  assumes reg: "registry_ok (ss_registry s)" and id: "rl_connection_id req \<noteq> []" "rl_lob_id req \<noteq> []"
    and conn: "connection_at s (rl_connection_id req) = Some (in_memory_connection rt i)"
    and calm: "calm rt" and send: "\<And>l m. send l m = None"
    and c: "i < length (iw_connections (ss_world s))" "\<not> ic_closed (iw_connections (ss_world s) ! i)"
    and lob: "ic_lobs (iw_connections (ss_world s) ! i) (rl_lob_id req) = Some l"
      "im_clock rt (iw_calls (ss_world s)) 0 < lb_expiresAt l"
    and size: "unat (rl_offset req) \<le> length (lb_data l)" "length (lb_data l) < 2 ^ 63"
  shows "\<exists>rs s'. ReadLob send req s = Some ((None, rs), s') \<and>
    concat (map rr_data rs) =
      (case rl_length req of None \<Rightarrow> id | Some n \<Rightarrow> take (unat n)) (drop (unat (rl_offset req)) (lb_data l)) \<and>
    iw_store (ss_world s') = iw_store (ss_world s) \<and> iw_connections (ss_world s') = iw_connections (ss_world s)"
proof -
  let ?w = "ss_world s" and ?req = "req\<lparr>rl_connection_id := []\<rparr>"
  let ?data = "(case rl_length req of None \<Rightarrow> id | Some n \<Rightarrow> take (unat n)) (drop (unat (rl_offset req)) (lb_data l))"
  have "im_context rt (iw_calls ?w) 0 = None" using calm by (simp add: calm_def undisturbed_def)
  with conn_ReadLob_data [of "iw_connections ?w ! i" rt "iw_calls ?w" ?req l] c(2) lob size obtain st where
    read: "conn_ReadLob rt (iw_calls ?w) ?req (iw_connections ?w ! i) = (Inr st, iw_connections ?w ! i)"
    and st: "il_data st = ?data" "il_offset st = rl_offset req" "\<not> il_closed st" "\<not> il_done st" "0 < il_chunkSize st"
      "rl_max_chunk_bytes req > 0 \<longrightarrow> il_chunkSize st \<le> unat (rl_max_chunk_bytes req)"
    by auto
  let ?j = "length (iw_lob_streams ?w)"
  let ?w1 = "(begin_call ?w)\<lparr>iw_lob_streams := iw_lob_streams ?w @ [st]\<rparr>"
  have lc: "lc_read (the (cn_lob (in_memory_connection rt i))) ?req ?w = ((Some (in_memory_lob_stream rt ?j), None), ?w1)"
    using read c(1) by (simp add: in_memory_connection_def run_read_lob_def set_connection_def begin_call_def)
  have "length ?data \<le> length (lb_data l) - unat (rl_offset req)" by (simp split: option.splits)
  with size have bound: "unat (rl_offset req) + length ?data < 2 ^ 63" "unat (0 :: 64 word) + length ?data < 2 ^ 63" by simp_all
  moreover have "\<forall>n. rl_length req = Some n \<longrightarrow> length ?data \<le> unat n" by auto
  ultimately have "lob_fits req (rl_offset req) 0 st" using st by (simp add: lob_fits_def)
  then obtain rs w2 where rs: "lob_loop (in_memory_lob_stream rt ?j) req send [] (rl_offset req) 0 ?w1 = ((None, rs), w2)"
    "concat (map rr_data rs) = ?data" "iw_store w2 = iw_store ?w1" "iw_connections w2 = iw_connections ?w1"
    using lob_loop_reads [OF calm, of send ?j ?w1 st req "rl_offset req" 0 "[]"] send st
    by (simp del: split_paired_Ex) blast
  have "not_acquired s (rl_connection_id req) = None" using id(1) conn by (simp add: not_acquired_def)
  moreover have "cn_lob (in_memory_connection rt i) \<noteq> None" by (simp add: in_memory_connection_def)
  ultimately have "ReadLob send req s = Some ((fst (ls_close (in_memory_lob_stream rt ?j) w2), rs),
      s\<lparr>ss_world := snd (ls_close (in_memory_lob_stream rt ?j) w2)\<rparr>)"
    unfolding ReadLob_eq [OF reg] using lc conn id(2) rs(1) by auto
  then show ?thesis
    using rs by (auto simp: in_memory_lob_stream_def lob_stream_Close_def begin_call_def)
qed

definition lob_server :: "im_world server_state" where
  "lob_server = demo_server\<lparr>ss_world := set_connection 0
     (open_connection\<lparr>ic_lobs := [''lob'' \<mapsto> \<lparr>lb_data = ''binary'', lb_expiresAt = 1\<rparr>]\<rparr>) (ss_world demo_server)\<rparr>"

definition lob_request :: read_lob_request where
  "lob_request = \<lparr>rl_connection_id = ''c1'', rl_lob_id = ''lob'', rl_offset = 2, rl_length = Some 3,
     rl_max_chunk_bytes = 2\<rparr>"

theorem in_memory_lobs_read_back_witness:
  "\<exists>rs s'. ReadLob (\<lambda>_ _. None) lob_request lob_server = Some ((None, rs), s') \<and> concat (map rr_data rs) = ''nar''"
proof -
  let ?l = "\<lparr>lb_data = ''binary'', lb_expiresAt = 1\<rparr>"
  have req: "rl_connection_id lob_request = ''c1''" "rl_lob_id lob_request = ''lob''" "rl_offset lob_request = 2"
    "rl_length lob_request = Some 3"
    by (simp_all add: lob_request_def)
  have reg: "registry_ok (ss_registry lob_server)" using demo_server_ok by (simp add: lob_server_def)
  have conn: "connection_at lob_server ''c1'' = Some (in_memory_connection demo_runtime 0)"
    using demo_server_connection by (simp add: lob_server_def connection_at_def)
  have "length (iw_connections (ss_world demo_server)) = 1"
    by (simp add: demo_server_def provider_Open_def new_world_def)
  then have world: "0 < length (iw_connections (ss_world lob_server))"
    "\<not> ic_closed (iw_connections (ss_world lob_server) ! 0)"
    "ic_lobs (iw_connections (ss_world lob_server) ! 0) ''lob'' = Some ?l"
    by (simp_all add: lob_server_def set_connection_def open_connection_def)
  have "im_clock demo_runtime (iw_calls (ss_world lob_server)) 0 < lb_expiresAt ?l"
    by (simp add: demo_runtime_def)
  from in_memory_lobs_read_back [OF reg, of lob_request demo_runtime 0 "\<lambda>_ _. None" ?l] conn demo_calm world this
  show ?thesis by (auto simp: req)
qed

end
