(* ===== verification/InMemoryHistory.thy ===== *)
theory InMemoryHistory
  imports InMemoryServing
begin

text \<open>
  Histories of the in-memory provider: the world under any sequence of calls of the provider,
  its connections and its streams, by any number of clients. The calls of one history are in
  the order in which the locks of the provider admit them (\<open>mu\<close> of the store, \<open>mu\<close> of each
  connection and stream). \<open>world_ok\<close> is the invariant of every history.
\<close>

section \<open>Steps\<close>

inductive im_step :: "runtime \<Rightarrow> im_world \<Rightarrow> im_world \<Rightarrow> bool" for rt where
  opens: "im_step rt w (snd (provider_Open rt w))"
| queries: "im_step rt w (snd (cn_query (in_memory_connection rt i) q w))"
    if "i < length (iw_connections w)" "conn_Query rt (iw_calls w) q (iw_store w) (iw_connections w ! i) \<noteq> None"
| inserts: "im_step rt w (snd (cn_insert (in_memory_connection rt i) ins w))"
    if "i < length (iw_connections w)" "conn_Insert rt (iw_calls w) ins (iw_store w) (iw_connections w ! i) \<noteq> None"
| updates: "im_step rt w (snd (cn_update (in_memory_connection rt i) upd w))"
    if "i < length (iw_connections w)"
| deletes: "im_step rt w (snd (cn_delete (in_memory_connection rt i) del w))"
    if "i < length (iw_connections w)"
| reads: "im_step rt w (snd (lc_read (the (cn_lob (in_memory_connection rt i))) req w))"
    if "i < length (iw_connections w)"
| releases: "im_step rt w (snd (lc_release (the (cn_lob (in_memory_connection rt i))) rel w))"
    if "i < length (iw_connections w)"
| closes: "im_step rt w (snd (cn_close (in_memory_connection rt i) w))"
    if "i < length (iw_connections w)"
| begins: "im_step rt w (snd (cn_begin (in_memory_connection rt i) w))"
| commits: "im_step rt w (snd (cn_commit (in_memory_connection rt i) w))"
| rolls_back: "im_step rt w (snd (cn_rollback (in_memory_connection rt i) w))"
| nexts: "im_step rt w (snd (rs_next (in_memory_stream rt j) w))"
    if "j < length (iw_streams w)"
| ends: "im_step rt w (snd (rs_close (in_memory_stream rt j) w))"
    if "j < length (iw_streams w)"
| lob_nexts: "im_step rt w (snd (ls_next (in_memory_lob_stream rt j) w))"
    if "j < length (iw_lob_streams w)"
| lob_ends: "im_step rt w (snd (ls_close (in_memory_lob_stream rt j) w))"
    if "j < length (iw_lob_streams w)"

section \<open>The invariant\<close>

definition lobs_bounded :: "(string \<rightharpoonup> in_memory_lob) \<Rightarrow> bool" where
  "lobs_bounded m \<longleftrightarrow> (\<forall>l\<in>ran m. length (lb_data l) \<le> inMemoryMaxLobBytes)"

definition connection_ok :: "im_connection \<Rightarrow> bool" where
  "connection_ok c \<longleftrightarrow> lobs_bounded (ic_lobs c) \<and> (ic_closed c \<longrightarrow> ic_lobs c = Map.empty)"

definition result_stream_ok :: "im_stream \<Rightarrow> bool" where
  "result_stream_ok st \<longleftrightarrow>
     0 < is_batchSize st \<and> (if is_closed st then is_tuples st = [] else is_index st \<le> length (is_tuples st))"

definition lob_stream_ok :: "im_lob_stream \<Rightarrow> bool" where
  "lob_stream_ok st \<longleftrightarrow>
     0 < il_chunkSize st \<and> il_chunkSize st \<le> inMemoryMaxLobChunkBytes \<and>
     unat (il_offset st) + length (il_data st) \<le> inMemoryMaxLobBytes"

definition world_ok :: "runtime \<Rightarrow> im_world \<Rightarrow> bool" where
  "world_ok rt w \<longleftrightarrow>
     store_ok rt (iw_store w) \<and> list_all connection_ok (iw_connections w) \<and>
     list_all result_stream_ok (iw_streams w) \<and> list_all lob_stream_ok (iw_lob_streams w)"

lemma list_all_update: "list_all P xs \<Longrightarrow> P x \<Longrightarrow> list_all P (xs[i := x])"
  by (auto simp: list_all_iff dest: subsetD [OF set_update_subset_insert])

lemma world_ok_nth:
  assumes "world_ok rt w"
  shows "i < length (iw_connections w) \<Longrightarrow> connection_ok (iw_connections w ! i)"
    and "j < length (iw_streams w) \<Longrightarrow> result_stream_ok (iw_streams w ! j)"
    and "k < length (iw_lob_streams w) \<Longrightarrow> lob_stream_ok (iw_lob_streams w ! k)"
  using assms by (auto simp: world_ok_def list_all_length)

section \<open>The LOBs a query creates\<close>

lemma lobs_bounded_upd:
  "lobs_bounded m \<Longrightarrow> length (lb_data l) \<le> inMemoryMaxLobBytes \<Longrightarrow> lobs_bounded (m(i \<mapsto> l))"
  by (auto simp: lobs_bounded_def ran_def)

lemma newLobValue_bounded:
  "newLobValue rt n vt data l = Some (r, l1) \<Longrightarrow> lobs_bounded (lo_lobs l) \<Longrightarrow> lobs_bounded (lo_lobs l1)"
  by (auto simp: newLobValue_def Let_def not_less intro!: lobs_bounded_upd split: if_splits option.splits)

lemma outputValue_bounded:
  "outputValue rt n accepted v l = Some (r, l1) \<Longrightarrow> lobs_bounded (lo_lobs l) \<Longrightarrow> lobs_bounded (lo_lobs l1)"
  by (auto simp: outputValue_def Let_def split: kind.splits option.splits if_splits elim: newLobValue_bounded)

lemma traverse_state_keeps:
  assumes "traverse_state f xs s = Some (r, s')" and "P s"
    and "\<And>x s r s'. f x s = Some (r, s') \<Longrightarrow> P s \<Longrightarrow> P s'"
  shows "P s'"
  using assms(1,2)
proof (induction xs arbitrary: s r)
  case (Cons x xs)
  then show ?case by (auto split: option.splits prod.splits sum.splits dest: assms(3))
qed simp

lemma project_tuple_bounded:
  assumes "project_tuple rt n accepted ps ev l = Some (r, l1)" and "lobs_bounded (lo_lobs l)"
  shows "lobs_bounded (lo_lobs l1)"
  using assms unfolding project_tuple_def
  by (rule traverse_state_keeps [where P = "\<lambda>l. lobs_bounded (lo_lobs l)"])
    (auto split: sum.splits option.splits elim: outputValue_bounded)

lemma plan_groups_bounded:
  "plan_groups rt n q ps i gs l = Some (r, l1) \<Longrightarrow> lobs_bounded (lo_lobs l) \<Longrightarrow> lobs_bounded (lo_lobs l1)"
proof (induction gs arbitrary: i l r)
  case (Cons g gs)
  show ?case
  proof (cases "im_context rt n i")
    case None
    show ?thesis
    proof (cases "if q_having q = None then Inr True else evaluateGroupedBooleanExpression rt (ag_rows g) (q_having q)")
      case (Inl e)
      with None Cons.prems show ?thesis by simp
    next
      case (Inr b)
      with None Cons show ?thesis
        by (cases b) (auto split: sum.splits option.splits, (blast intro: project_tuple_bounded)+)
    qed
  qed (use Cons.prems in simp)
qed simp

lemma conn_Query_bounded:
  assumes "conn_Query rt n q s c = Some (r, c1)" and "connection_ok c"
  shows "connection_ok c1"
proof -
  have rows: "lobs_bounded (lo_lobs l1)" if "query_rows rt n q ps rows l = Some (r, l1)" "lobs_bounded (lo_lobs l)" for ps rows l l1
  proof -
    have "lobs_bounded (lo_lobs l1)" if "deliver_rows rt n q ps page l = Some (r, l1)" for page
    proof -
      from that obtain r2 where "traverse_state
          (\<lambda>r. project_tuple rt n (q_accepted_features q) ps (evaluateExpression rt (pl_row r))) page l = Some (r2, l1)"
        by (auto simp: deliver_rows_def split: option.splits sum.splits)
      then show ?thesis
        using \<open>lobs_bounded (lo_lobs l)\<close>
        by (rule traverse_state_keeps [where P = "\<lambda>l. lobs_bounded (lo_lobs l)"]) (rule project_tuple_bounded)
    qed
    with that show ?thesis by (auto simp: query_rows_def split: sum.splits)
  qed
  have "lobs_bounded (lo_lobs l1)"
    if "queryAggregates rt n q ps rows l = Some (r, l1)" "lobs_bounded (lo_lobs l)" for ps rows l l1
    using that by (auto simp: queryAggregates_def split: option.splits sum.splits dest: plan_groups_bounded)
  with rows assms show ?thesis
    by (auto simp: conn_Query_def connection_ok_def Let_def split: if_splits sum.splits option.splits)
qed

lemma conn_Query_stream:
  assumes "conn_Query rt n q s c = Some (Inr st, c1)"
  shows "result_stream_ok st"
proof -
  have rows: "result_stream_ok st" if "query_rows rt n q ps rows l = Some (Inr st, l1)" for ps rows l l1
    using that
    by (auto simp: query_rows_def deliver_rows_def newResultStream_def result_stream_ok_def queryBatchSize_pos
        split: option.splits sum.splits)
  have "result_stream_ok st" if "queryAggregates rt n q ps rows l = Some (Inr st, l1)" for ps rows l l1
    using that
    by (auto simp: queryAggregates_def newResultStream_def result_stream_ok_def queryBatchSize_pos
        split: option.splits sum.splits)
  with rows assms show ?thesis
    by (auto simp: conn_Query_def Let_def split: if_splits sum.splits option.splits)
qed

section \<open>Every call keeps the invariant\<close>

lemma begin_call_ok [simp]: "world_ok rt (begin_call w) \<longleftrightarrow> world_ok rt w"
  by (simp add: world_ok_def begin_call_def)

lemma set_connection_ok:
  "world_ok rt w \<Longrightarrow> connection_ok c \<Longrightarrow> world_ok rt (set_connection i c w)"
  by (simp add: world_ok_def set_connection_def list_all_update)

lemma lobs_released:
  "connection_ok c \<Longrightarrow> connection_ok (c\<lparr>ic_lobs := (ic_lobs c)(i := None)\<rparr>)"
  by (auto simp: connection_ok_def lobs_bounded_def ran_def split: if_splits)

lemma conn_ReadLob_ok:
  assumes "conn_ReadLob rt n req c = (r, c1)" and "connection_ok c"
  shows "connection_ok c1" and "r = Inr st \<Longrightarrow> lob_stream_ok st"
proof -
  show "connection_ok c1"
    using assms by (auto simp: conn_ReadLob_def Let_def lobs_released split: if_splits option.splits)
  show "lob_stream_ok st" if r: "r = Inr st"
  proof -
    from assms(1) r obtain l where l: "ic_lobs c (rl_lob_id req) = Some l" "\<not> ic_closed c" "im_context rt n 0 = None"
        "im_clock rt n 0 < lb_expiresAt l" "rl_offset req \<le> word_of_nat (length (lb_data l))"
      by (auto simp: conn_ReadLob_def Let_def not_less split: if_splits option.splits)
    have "length (lb_data l) \<le> inMemoryMaxLobBytes"
      using l(1) assms(2) by (auto simp: connection_ok_def lobs_bounded_def ranI)
    moreover from this have "unat (rl_offset req) \<le> length (lb_data l)"
      using l(5) by (simp add: word_le_nat_alt unat_of_nat inMemoryMaxLobBytes_def)
    moreover have "il_data st = take k (drop (unat (rl_offset req)) (lb_data l)) \<Longrightarrow>
        length (il_data st) \<le> length (lb_data l) - unat (rl_offset req)" for k by simp
    moreover from assms(1) r l have "\<exists>k. il_data st = take k (drop (unat (rl_offset req)) (lb_data l))"
        "il_offset st = rl_offset req" "0 < il_chunkSize st" "il_chunkSize st \<le> inMemoryMaxLobChunkBytes"
      by (auto simp: conn_ReadLob_def Let_def inMemoryMaxLobChunkBytes_def unat_gt_0 split: if_splits)
    ultimately show ?thesis unfolding lob_stream_ok_def by fastforce
  qed
qed

lemma stream_calls_ok:
  "result_stream_ok st \<Longrightarrow> result_stream_ok (snd (stream_Next e st))"
  "result_stream_ok (st) \<Longrightarrow> result_stream_ok (snd (stream_Close st))"
  by (auto simp: stream_Next_def stream_Close_def result_stream_ok_def Let_def split: option.splits)

lemma lob_stream_Next_ok:
  assumes "lob_stream_ok st"
  shows "lob_stream_ok (snd (lob_stream_Next e st))"
proof -
  have ok: "unat (il_offset st) + length (il_data st) \<le> inMemoryMaxLobBytes" using assms by (simp add: lob_stream_ok_def)
  have shift: "unat (il_offset st + word_of_nat k) + (length (il_data st) - k) \<le> inMemoryMaxLobBytes"
    if k: "k \<le> length (il_data st)" for k
  proof -
    from ok k have "unat (word_of_nat k :: 64 word) = k" "unat (il_offset st) + k < 2 ^ 64"
      by (simp_all add: unat_of_nat inMemoryMaxLobBytes_def)
    then have "unat (il_offset st + word_of_nat k) = unat (il_offset st) + k" by (simp add: unat_plus_if')
    with ok k show ?thesis by simp
  qed
  from assms shift [of "length (il_data st)"] shift [of "il_chunkSize st"] show ?thesis
    by (auto simp: lob_stream_Next_def lob_stream_ok_def Let_def split: option.splits)
qed

lemma lob_stream_Close_ok: "lob_stream_ok st \<Longrightarrow> lob_stream_ok (snd (lob_stream_Close st))"
  by (simp add: lob_stream_Close_def lob_stream_ok_def)

lemma im_step_ok:
  assumes "ranges_all rt" and "world_ok rt w" and "im_step rt w w'"
  shows "world_ok rt w'"
  using assms(3)
proof cases
  case opens
  with assms(2) show ?thesis
    by (simp add: provider_Open_def world_ok_def begin_call_def connection_ok_def lobs_bounded_def)
next
  case (queries i q)
  then obtain r c where run: "conn_Query rt (iw_calls w) q (iw_store w) (iw_connections w ! i) = Some (r, c)" by auto
  have "connection_ok c" using conn_Query_bounded [OF run world_ok_nth(1) [OF assms(2) queries(2)]] .
  then have "world_ok rt (set_connection i c (begin_call w))" using assms(2) by (simp add: set_connection_ok)
  then show ?thesis
    using queries(1) run conn_Query_stream
    by (cases r) (auto simp: in_memory_connection_def run_query_def world_ok_def set_connection_def begin_call_def)
next
  case (inserts i ins)
  then obtain r s where run: "conn_Insert rt (iw_calls w) ins (iw_store w) (iw_connections w ! i) = Some (r, s)" by auto
  have "store_ok rt (iw_store w)" using assms(2) by (simp add: world_ok_def)
  from store_ok_kept(1) [OF this assms(1) run] show ?thesis
    using inserts(1) run assms(2)
    by (cases r) (simp_all add: in_memory_connection_def run_insert_def world_ok_def begin_call_def)
next
  case (updates i upd)
  obtain r s where run: "conn_Update rt (iw_calls w) upd (iw_store w) (iw_connections w ! i) = (r, s)" by fastforce
  have "store_ok rt (iw_store w)" using assms(2) by (simp add: world_ok_def)
  from store_ok_kept(2) [OF this assms(1) run] show ?thesis
    using updates(1) run assms(2)
    by (cases r) (simp_all add: in_memory_connection_def run_update_def world_ok_def begin_call_def)
next
  case (deletes i del)
  obtain r s where run: "conn_Delete rt (iw_calls w) del (iw_store w) (iw_connections w ! i) = (r, s)" by fastforce
  have "store_ok rt (iw_store w)" using assms(2) by (simp add: world_ok_def)
  from store_ok_kept(3) [OF this assms(1) run] show ?thesis
    using deletes(1) run assms(2)
    by (cases r) (simp_all add: in_memory_connection_def run_delete_def world_ok_def begin_call_def)
next
  case (reads i req)
  obtain r c where run: "conn_ReadLob rt (iw_calls w) req (iw_connections w ! i) = (r, c)" by fastforce
  note read = conn_ReadLob_ok [OF run world_ok_nth(1) [OF assms(2) reads(2)]]
  then have "world_ok rt (set_connection i c (begin_call w))" using assms(2) by (simp add: set_connection_ok)
  then show ?thesis
    using reads(1) run read(2)
    by (cases r) (auto simp: in_memory_connection_def run_read_lob_def world_ok_def set_connection_def begin_call_def)
next
  case (releases i rel)
  have "connection_ok (snd (conn_ReleaseLob rt (iw_calls w) rel (iw_connections w ! i)))"
    using world_ok_nth(1) [OF assms(2) releases(2)] by (simp add: conn_ReleaseLob_def lobs_released split: option.splits)
  with assms(2) releases(1) show ?thesis
    by (simp add: in_memory_connection_def run_release_lob_def set_connection_ok case_prod_beta)
next
  case (closes i)
  with assms(2) show ?thesis
    by (simp add: in_memory_connection_def conn_Close_def set_connection_ok connection_ok_def lobs_bounded_def)
next
  case (nexts j)
  with assms(2) stream_calls_ok(1) [OF world_ok_nth(2) [OF assms(2) nexts(2)]] show ?thesis
    by (simp add: in_memory_stream_def world_ok_def begin_call_def case_prod_beta list_all_update)
next
  case (ends j)
  with assms(2) stream_calls_ok(2) [OF world_ok_nth(2) [OF assms(2) ends(2)]] show ?thesis
    by (simp add: in_memory_stream_def world_ok_def begin_call_def case_prod_beta list_all_update)
next
  case (lob_nexts j)
  with assms(2) lob_stream_Next_ok [OF world_ok_nth(3) [OF assms(2) lob_nexts(2)]] show ?thesis
    by (simp add: in_memory_lob_stream_def world_ok_def begin_call_def case_prod_beta list_all_update)
next
  case (lob_ends j)
  with assms(2) lob_stream_Close_ok [OF world_ok_nth(3) [OF assms(2) lob_ends(2)]] show ?thesis
    by (simp add: in_memory_lob_stream_def world_ok_def begin_call_def case_prod_beta list_all_update)
qed (use assms(2) in \<open>simp_all add: in_memory_connection_def\<close>)

lemma new_world_ok: "world_ok rt (new_world rt)"
  by (simp add: new_world_def world_ok_def newStore_ok)

interpretation in_memory: transition_invariant
  "\<lambda>w. w = new_world rt \<and> ranges_all rt"
  "\<lambda>w w'. im_step rt w w' \<and> ranges_all rt"
  "world_ok rt" for rt
  by unfold_locales (auto intro: im_step_ok new_world_ok)

text \<open>
  C26: In every state that the in-memory provider reaches, whatever calls its clients make, each
  task is stored under its own identifier and no identifier twice, the other entities are as
  created, a closed connection holds no LOB, no LOB is larger than the advertised maximum, a
  result stream never points beyond its tuples, and a LOB stream never reads beyond that
  maximum, so its offset does not wrap around.
\<close>

theorem in_memory_world_invariant:
  assumes "rtranclp (im_step rt) (new_world rt) w" and "ranges_all rt"
  shows "distinct (map fst (st_tasks (iw_store w))) \<and> (\<forall>(i, t)\<in>set (st_tasks (iw_store w)). t_ID t = i) \<and>
    st_entities (iw_store w) = st_entities (newStore rt) \<and>
    (\<forall>c\<in>set (iw_connections w). ic_closed c \<longrightarrow> ic_lobs c = Map.empty) \<and>
    (\<forall>c\<in>set (iw_connections w). \<forall>l\<in>ran (ic_lobs c). length (lb_data l) \<le> inMemoryMaxLobBytes) \<and>
    (\<forall>st\<in>set (iw_streams w). 0 < is_batchSize st \<and> (is_closed st \<or> is_index st \<le> length (is_tuples st))) \<and>
    (\<forall>st\<in>set (iw_lob_streams w). 0 < il_chunkSize st \<and> il_chunkSize st \<le> inMemoryMaxLobChunkBytes \<and>
       unat (il_offset st) + length (il_data st) \<le> inMemoryMaxLobBytes)"
proof -
  from assms(1) have "rtranclp (\<lambda>w w'. im_step rt w w' \<and> ranges_all rt) (new_world rt) w"
    by (rule rtranclp_mono [THEN predicate2D, rotated]) (use assms(2) in blast)
  from in_memory.reachable_inv [OF this] assms(2) have "world_ok rt w" by blast
  then show ?thesis
    by (auto simp: world_ok_def store_ok_def list_all_iff connection_ok_def lobs_bounded_def
        result_stream_ok_def lob_stream_ok_def split: if_splits)
qed

definition deleted_world :: im_world where
  "deleted_world = snd (cn_delete (in_memory_connection demo_runtime 0) demo_delete
     (snd (provider_Open demo_runtime (new_world demo_runtime))))"

theorem in_memory_world_invariant_witness:
  "rtranclp (im_step demo_runtime) (new_world demo_runtime) deleted_world \<and>
   distinct (map fst (st_tasks (iw_store deleted_world))) \<and>
   length (st_tasks (iw_store deleted_world)) < length (st_tasks (iw_store (new_world demo_runtime)))"
proof -
  let ?w = "snd (provider_Open demo_runtime (new_world demo_runtime))"
  have "im_step demo_runtime (new_world demo_runtime) ?w" by (rule opens)
  moreover have "im_step demo_runtime ?w deleted_world"
    unfolding deleted_world_def by (rule deletes) (simp add: provider_Open_def)
  ultimately have run: "rtranclp (im_step demo_runtime) (new_world demo_runtime) deleted_world"
    by (rule rtranclp.rtrancl_into_rtrancl [OF r_into_rtranclp])
  have "iw_store deleted_world = snd (conn_Delete demo_runtime 1 demo_delete (newStore demo_runtime) open_connection)"
    by (simp add: deleted_world_def in_memory_connection_def run_delete_def provider_Open_def new_world_def
        begin_call_def open_connection_def split: prod.splits sum.splits)
  moreover have "length (st_tasks (snd (conn_Delete demo_runtime 1 demo_delete (newStore demo_runtime) open_connection))) <
      length (st_tasks (newStore demo_runtime))"
    by code_simp
  ultimately have "length (st_tasks (iw_store deleted_world)) < length (st_tasks (iw_store (new_world demo_runtime)))"
    by (simp add: new_world_def)
  with in_memory_world_invariant [OF run demo_ranges_all] run show ?thesis by blast
qed

end
