(* ===== verification/HostTime.thy ===== *)
theory HostTime
  imports Messages "HOL-Library.Monad_Syntax"
begin

text \<open>
  The timestamps of the host provider: what \<open>t.UTC().Format(layout)\<close> writes and which texts
  \<open>time.Parse(layout, s)\<close> accepts, for the layout \<open>2006-01-02T15:04:05.999999999\<close> of
  \<open>hostschema/encode.go\<close>, \<open>hostschema/schema.go\<close> and \<open>query/values.go\<close>. A time is a number of
  nanoseconds since the zero time of Go, the start of the year 1 in UTC.
\<close>

section \<open>The calendar\<close>

definition leap :: "nat \<Rightarrow> bool" where
  "leap y \<longleftrightarrow> y mod 4 = 0 \<and> (y mod 100 \<noteq> 0 \<or> y mod 400 = 0)"

definition days_in_year :: "nat \<Rightarrow> nat" where
  "days_in_year y = (if leap y then 366 else 365)"

definition month_lengths :: "nat \<Rightarrow> nat list" where
  "month_lengths y = [31, if leap y then 29 else 28, 31, 30, 31, 30, 31, 31, 30, 31, 30, 31]"

function year_from :: "nat \<Rightarrow> nat \<Rightarrow> nat \<times> nat" where
  "year_from y d = (if d < days_in_year y then (y, d) else year_from (Suc y) (d - days_in_year y))"
  by auto
termination
  by (relation "measure snd") (auto simp: days_in_year_def split: if_splits)

declare year_from.simps [simp del]

fun month_from :: "nat list \<Rightarrow> nat \<Rightarrow> nat \<Rightarrow> nat \<times> nat" where
  "month_from [] m d = (m, d + 1)"
| "month_from (l # ls) m d = (if d < l then (m, d + 1) else month_from ls (Suc m) (d - l))"

text \<open>Year (from 1 on), month and day of a number of days since the start of the year 1.\<close>

definition civil :: "nat \<Rightarrow> nat \<times> nat \<times> nat" where
  "civil days = (let (y, d) = year_from 1 days; (m, day) = month_from (month_lengths y) 1 d in (y, m, day))"

lemma year_from_bound: "snd (year_from y d) < days_in_year (fst (year_from y d))"
  by (induction y d rule: year_from.induct) (subst (1 2) year_from.simps, auto)

lemma year_from_mono: "y \<le> fst (year_from y d)"
proof (induction y d rule: year_from.induct)
  case (1 y d)
  then show ?case by (subst year_from.simps) auto
qed

lemma month_from_bound:
  "d < sum_list ls \<Longrightarrow> month_from ls m d = (m', day) \<Longrightarrow>
   m \<le> m' \<and> m' - m < length ls \<and> 1 \<le> day \<and> day \<le> ls ! (m' - m)"
proof (induction ls m d rule: month_from.induct)
  case (2 l ls m d)
  show ?case
  proof (cases "d < l")
    case False
    then have ih: "Suc m \<le> m' \<and> m' - Suc m < length ls \<and> 1 \<le> day \<and> day \<le> ls ! (m' - Suc m)"
      using 2 by (intro "2.IH") auto
    then have "m' - m = Suc (m' - Suc m)" by arith
    with ih show ?thesis by simp
  qed (use 2 in auto)
qed simp

lemma month_lengths_sum: "sum_list (month_lengths y) = days_in_year y"
  by (simp add: month_lengths_def days_in_year_def)

lemma civil_valid:
  assumes "civil days = (y, m, d)"
  shows "1 \<le> y \<and> 1 \<le> m \<and> m \<le> 12 \<and> 1 \<le> d \<and> d \<le> month_lengths y ! (m - 1)"
proof -
  obtain r where r: "year_from 1 days = (y, r)" "month_from (month_lengths y) 1 r = (m, d)"
    using assms by (auto simp: civil_def Let_def split: prod.splits)
  have "r < sum_list (month_lengths y)" using year_from_bound [of 1 days] r(1) by (simp add: month_lengths_sum)
  from month_from_bound [OF this r(2)] year_from_mono [of 1 days] r(1) show ?thesis
    by (auto simp: month_lengths_def)
qed

section \<open>Formatting\<close>

definition padded :: "nat \<Rightarrow> nat \<Rightarrow> string" where
  "padded w n = replicate (w - length (decimal n)) (CHR ''0'') @ decimal n"

definition appendYear :: "int \<Rightarrow> string" where
  "appendYear y = (if y < 0 then ''-'' @ padded 4 (nat (- y)) else padded 4 (nat y))"

text \<open>The fraction \<open>.999999999\<close> drops trailing zeros, and the point with them.\<close>

definition trim_zeros :: "string \<Rightarrow> string" where
  "trim_zeros s = rev (dropWhile (\<lambda>c. c = CHR ''0'') (rev s))"

definition fraction :: "nat \<Rightarrow> string" where
  "fraction ns = (if ns = 0 then [] else ''.'' @ trim_zeros (padded 9 ns))"

text \<open>A time before the year 1 is moved forward by whole cycles of 400 years.\<close>

definition cycle_days :: int where "cycle_days = 146097"

definition date_of :: "int \<Rightarrow> int \<times> nat \<times> nat" where
  "date_of days =
     (let k = (if days < 0 then - days div cycle_days + 1 else 0);
          (y, m, d) = civil (nat (days + k * cycle_days))
      in (int y - 400 * k, m, d))"

definition format_timestamp :: "int \<Rightarrow> string" where
  "format_timestamp t =
     (let day_ns = 86400 * 10 ^ 9; ns = nat (t mod day_ns); s = ns div 10 ^ 9;
          (y, m, d) = date_of (t div day_ns)
      in appendYear y @ ''-'' @ padded 2 m @ ''-'' @ padded 2 d @ ''T'' @ padded 2 (s div 3600) @ '':'' @
         padded 2 (s div 60 mod 60) @ '':'' @ padded 2 (s mod 60) @ fraction (ns mod 10 ^ 9))"

section \<open>Parsing\<close>

definition is_digit :: "char \<Rightarrow> bool" where
  "is_digit c \<longleftrightarrow> 48 \<le> (of_char c :: nat) \<and> (of_char c :: nat) < 58"

definition digit_val :: "char \<Rightarrow> nat" where
  "digit_val c = of_char c - 48"

fun getnum :: "bool \<Rightarrow> string \<Rightarrow> (nat \<times> string) option" where
  "getnum fixed [] = None"
| "getnum fixed [a] = (if is_digit a \<and> \<not> fixed then Some (digit_val a, []) else None)"
| "getnum fixed (a # b # r) =
     (if \<not> is_digit a then None
      else if \<not> is_digit b then (if fixed then None else Some (digit_val a, b # r))
      else Some (10 * digit_val a + digit_val b, r))"

definition long_year :: "string \<Rightarrow> (nat \<times> string) option" where
  "long_year s =
     (if length s < 4 \<or> \<not> list_all is_digit (take 4 s) then None else Some (undecimal (take 4 s), drop 4 s))"

fun literal :: "char \<Rightarrow> string \<Rightarrow> string option" where
  "literal c [] = None"
| "literal c (d # s) = (if c = d then Some s else None)"

definition drop_fraction :: "string \<Rightarrow> string" where
  "drop_fraction s =
     (case s of
        p # d # r \<Rightarrow> if (p = CHR ''.'' \<or> p = CHR '','') \<and> is_digit d then dropWhile is_digit (d # r) else s
      | _ \<Rightarrow> s)"

definition parse_timestamp :: "string \<Rightarrow> bool" where
  "parse_timestamp s =
     (case do {
        (year, s) \<leftarrow> long_year s; s \<leftarrow> literal (CHR ''-'') s;
        (month, s) \<leftarrow> getnum True s; s \<leftarrow> literal (CHR ''-'') s;
        (day, s) \<leftarrow> getnum True s; s \<leftarrow> literal (CHR ''T'') s;
        (hour, s) \<leftarrow> getnum False s; s \<leftarrow> literal (CHR '':'') s;
        (minute, s) \<leftarrow> getnum True s; s \<leftarrow> literal (CHR '':'') s;
        (second, s) \<leftarrow> getnum True s;
        Some (1 \<le> month \<and> month \<le> 12 \<and> 1 \<le> day \<and> day \<le> month_lengths year ! (month - 1) \<and>
              hour < 24 \<and> minute < 60 \<and> second < 60 \<and> drop_fraction s = [])
      } of None \<Rightarrow> False | Some ok \<Rightarrow> ok)"

section \<open>What is formatted is accepted\<close>

lemma decimal_two: "10 \<le> n \<Longrightarrow> n < 100 \<Longrightarrow> decimal n = [digit (n div 10), digit (n mod 10)]"
  by (subst decimal.simps) (simp add: decimal.simps [of "n div 10"] less_mult_imp_div_less)

lemma digit_0: "digit 0 = CHR ''0''"
  by code_simp

lemma padded_two: "n < 100 \<Longrightarrow> padded 2 n = [digit (n div 10), digit (n mod 10)]"
proof (cases "n < 10")
  case True
  then show ?thesis by (simp add: padded_def decimal.simps [of n] digit_0)
qed (simp add: padded_def decimal_two)

lemma is_digit_digit [simp]: "n < 10 \<Longrightarrow> is_digit (digit n)"
  by (simp add: is_digit_def of_char_digit)

lemma getnum_padded: "n < 100 \<Longrightarrow> getnum fixed (padded 2 n @ r) = Some (n, r)"
  by (simp add: padded_two digit_val_def of_char_digit)

lemma padded_digits: "list_all is_digit (padded w n)"
  using decimal_digits [of _ n] by (auto simp: padded_def list_all_iff is_digit_def)

lemma undecimal_padded: "undecimal (padded w n) = n"
proof -
  have "foldl (\<lambda>a c. 10 * a + (of_char c - 48)) (0 :: nat) (replicate k (CHR ''0'')) = 0" for k by (induction k) simp_all
  then show ?thesis using undecimal_decimal [of n] by (simp add: padded_def undecimal_def)
qed

lemma length_decimal: "n < 10 ^ Suc k \<Longrightarrow> length (decimal n) \<le> Suc k"
proof (induction k arbitrary: n)
  case (Suc k)
  show ?case
  proof (cases "n < 10")
    case False
    have "n div 10 < 10 ^ Suc k" using Suc.prems by (simp add: less_mult_imp_div_less)
    with Suc.IH False show ?thesis by (subst decimal.simps) simp
  qed (simp add: decimal.simps)
qed (simp add: decimal.simps)

lemma long_year_padded: "y < 10000 \<Longrightarrow> long_year (padded 4 y @ r) = Some (y, r)"
proof -
  assume "y < 10000"
  then have "length (decimal y) \<le> 4" using length_decimal [of y 3] by simp
  then have "length (padded 4 y) = 4" by (simp add: padded_def)
  then show ?thesis using padded_digits [of 4 y] by (simp add: long_year_def undecimal_padded)
qed

lemma drop_fraction_fraction: "drop_fraction (fraction ns) = []"
proof (cases "ns = 0")
  case False
  let ?d = "trim_zeros (padded 9 ns)"
  have digits: "\<forall>c\<in>set ?d. is_digit c"
    using padded_digits [of 9 ns] set_dropWhileD by (fastforce simp: trim_zeros_def list_all_iff)
  have "?d \<noteq> []"
  proof
    assume "?d = []"
    then have "\<forall>c\<in>set (padded 9 ns). c = CHR ''0''" by (simp add: trim_zeros_def dropWhile_eq_Nil_conv)
    then have "padded 9 ns = replicate (length (padded 9 ns)) (CHR ''0'')" by (simp add: replicate_eqI)
    moreover have "undecimal (replicate k (CHR ''0'')) = 0" for k by (induction k) (simp_all add: undecimal_def)
    ultimately have "ns = 0" using undecimal_padded [of 9 ns] by metis
    with False show False by simp
  qed
  then obtain c cs where d: "?d = c # cs" by (cases ?d) auto
  with digits have "dropWhile is_digit (c # cs) = []" by (simp add: dropWhile_eq_Nil_conv)
  with d digits False show ?thesis by (simp add: fraction_def drop_fraction_def)
qed (simp add: fraction_def drop_fraction_def)

lemma leap_cycle: "k \<ge> 0 \<Longrightarrow> 0 \<le> int y - 400 * k \<Longrightarrow> leap (nat (int y - 400 * k)) = leap y"
proof -
  assume "k \<ge> 0" "0 \<le> int y - 400 * k"
  then obtain z where "y = z + 400 * nat k" "nat (int y - 400 * k) = z"
    by (intro that [of "nat (int y - 400 * k)"]) (simp_all add: nat_diff_distrib' zle_diff1_eq)
  moreover have "(z + 400 * n) mod 4 = z mod 4" "(z + 400 * n) mod 100 = z mod 100" "(z + 400 * n) mod 400 = z mod 400" for n
    using mod_mod_cancel [of 4 400 "z + 400 * n"] mod_mod_cancel [of 4 400 z]
      mod_mod_cancel [of 100 400 "z + 400 * n"] mod_mod_cancel [of 100 400 z] by simp_all
  ultimately show ?thesis by (simp add: leap_def)
qed

lemma date_of_valid:
  assumes "date_of days = (y, m, d)"
  shows "\<exists>k z. k \<ge> 0 \<and> y = int z - 400 * k \<and> 1 \<le> m \<and> m \<le> 12 \<and> 1 \<le> d \<and> d \<le> month_lengths z ! (m - 1)"
proof -
  let ?k = "if days < 0 then - days div cycle_days + 1 else 0"
  obtain z where c: "civil (nat (days + ?k * cycle_days)) = (z, m, d)" and y: "y = int z - 400 * ?k"
    using assms unfolding date_of_def Let_def by (auto split: prod.splits)
  have "?k \<ge> 0" by (simp add: cycle_days_def pos_imp_zdiv_nonneg_iff)
  with civil_valid [OF c] y show ?thesis by blast
qed

lemma parse_fields:
  assumes "y < 10000" and "1 \<le> m" "m \<le> 12" "1 \<le> d" "d \<le> month_lengths y ! (m - 1)" "d < 100"
    and "h < 24" "mi < 60" "sec < 60"
  shows "parse_timestamp (padded 4 y @ ''-'' @ padded 2 m @ ''-'' @ padded 2 d @ ''T'' @ padded 2 h @ '':'' @
    padded 2 mi @ '':'' @ padded 2 sec @ fraction ns)"
  using assms drop_fraction_fraction by (simp add: parse_timestamp_def long_year_padded getnum_padded)

text \<open>
  C36: What the provider and its agents write as a timestamp is a timestamp they accept: for every
  instant of the years 0 to 9999, the text that formatting in UTC gives is parsed without
  error, so that a value encoded by an agent is never rejected for its timestamp.
\<close>

theorem formatted_timestamp_parses:
  assumes "date_of (t div (86400 * 10 ^ 9)) = (y, m, d)" and "0 \<le> y" and "y \<le> 9999"
  shows "parse_timestamp (format_timestamp t)"
proof -
  define ns where "ns = nat (t mod (86400 * 10 ^ 9))"
  define s where "s = ns div 10 ^ 9"
  obtain k z where k: "k \<ge> 0" "y = int z - 400 * k"
    and z: "1 \<le> m" "m \<le> 12" "1 \<le> d" "d \<le> month_lengths z ! (m - 1)"
    using date_of_valid [OF assms(1)] by blast
  have "month_lengths (nat y) = month_lengths z"
    using leap_cycle [OF k(1), of z] k(2) assms(2) by (simp add: month_lengths_def)
  then have day: "d \<le> month_lengths (nat y) ! (m - 1)" using z by simp
  have "month_lengths z ! (m - 1) \<le> 31"
    using z(2) by (auto simp: month_lengths_def nth_Cons' split: if_splits)
  then have small: "m < 100" "d < 100" using z by linarith+
  have "t mod (86400 * 10 ^ 9) < 86400 * 10 ^ 9" by (rule pos_mod_bound) simp
  then have "ns < 86400 * 10 ^ 9" unfolding ns_def by (subst nat_less_iff) simp_all
  then have "s < 86400" unfolding s_def by (rule less_mult_imp_div_less)
  then have times: "s div 3600 < 24" "s div 60 mod 60 < 60" "s mod 60 < 60" by (auto intro: less_mult_imp_div_less)
  have year: "appendYear y = padded 4 (nat y)" "nat y < 10000" using assms by (simp_all add: appendYear_def)
  have "format_timestamp t = padded 4 (nat y) @ ''-'' @ padded 2 m @ ''-'' @ padded 2 d @ ''T'' @ padded 2 (s div 3600) @
      '':'' @ padded 2 (s div 60 mod 60) @ '':'' @ padded 2 (s mod 60) @ fraction (ns mod 10 ^ 9)"
    unfolding format_timestamp_def Let_def assms(1) prod.case year ns_def s_def ..
  with parse_fields [OF year(2) z(1-3) day small(2) times] show ?thesis by (simp only:)
qed

theorem formatted_timestamp_parses_witness:
  "date_of (86400 * 10 ^ 9 * 59 div (86400 * 10 ^ 9)) = (1, 3, 1) \<and> parse_timestamp (format_timestamp (86400 * 10 ^ 9 * 59))"
proof -
  have d: "date_of (86400 * 10 ^ 9 * 59 div (86400 * 10 ^ 9)) = (1, 3, 1)" by code_simp
  from formatted_timestamp_parses [OF d] d show ?thesis by simp
qed

end
