(* ===== verification/HostSchema.thy ===== *)
theory HostSchema
  imports HostTime
begin

text \<open>
  The schema of the host provider (\<open>providers/host/internal/hostschema/schema.go\<close>): the tables and
  their columns, the lookups by table name, and the validation of the rows that an agent
  returned. \<open>up\<close> and \<open>low\<close> are the Unicode tables behind \<open>strings.ToUpper\<close> and
  \<open>strings.ToLower\<close>. The native type names and the annotations are texts that only the
  metadata shows and are left out of the column and table records.
\<close>

section \<open>Tables and columns\<close>

datatype gateway_table =
    HOST_TABLE_UNSPECIFIED | HOST_TABLE_FACTS | HOST_TABLE_CPU_INFO | HOST_TABLE_CPU_TIMES
  | HOST_TABLE_MEMORY | HOST_TABLE_FILESYSTEMS | HOST_TABLE_NETWORK_INTERFACES
  | HOST_TABLE_NETWORK_IO | HOST_TABLE_PROCESSES | HOST_TABLE_unnamed int

definition HostTable :: string where "HostTable = ''HOST''"
definition HostFactsTable :: string where "HostFactsTable = ''HOST_FACTS''"
definition CPUInfoTable :: string where "CPUInfoTable = ''CPU_INFO''"
definition CPUTimesTable :: string where "CPUTimesTable = ''CPU_TIMES''"
definition MemoryTable :: string where "MemoryTable = ''MEMORY''"
definition FilesystemsTable :: string where "FilesystemsTable = ''FILESYSTEMS''"
definition NetworkInterfacesTable :: string where "NetworkInterfacesTable = ''NETWORK_INTERFACES''"
definition NetworkIOTable :: string where "NetworkIOTable = ''NETWORK_IO''"
definition ProcessesTable :: string where "ProcessesTable = ''PROCESSES''"

definition NamespaceColumn :: string where "NamespaceColumn = ''namespace''"
definition HostIDColumn :: string where "HostIDColumn = ''host_id''"
definition HostnameColumn :: string where "HostnameColumn = ''hostname''"
definition IdentifierColumn :: string where "IdentifierColumn = ''identifier''"

definition string_descriptor :: type_descriptor where
  "string_descriptor = TypeDescriptor VALUE_TYPE_STRING None None None"

definition stringArrayType :: type_descriptor where
  "stringArrayType = TypeDescriptor VALUE_TYPE_ARRAY (Some string_descriptor) None None"

record host_column =
  co_Name :: string
  co_Type :: value_type
  co_TypeDescriptor :: "type_descriptor option"
  co_Nullable :: bool
  co_Access :: bool
  co_NonNegative :: bool

record table_definition =
  tdn_name :: string
  tdn_columns :: "host_column list"
  tdn_keyColumns :: "string list"
  tdn_gatewayTable :: gateway_table
  tdn_singletonHost :: bool

text \<open>A \<open>Column\<close> literal with its name, type and flags.\<close>

definition plainColumn :: "string \<Rightarrow> value_type \<Rightarrow> bool \<Rightarrow> bool \<Rightarrow> host_column" where
  "plainColumn name t nullable nonNegative =
     \<lparr>co_Name = name, co_Type = t, co_TypeDescriptor = None, co_Nullable = nullable, co_Access = False,
      co_NonNegative = nonNegative\<rparr>"

definition accessColumns :: "host_column list" where
  "accessColumns =
     [(plainColumn NamespaceColumn VALUE_TYPE_STRING False False)\<lparr>co_Access := True\<rparr>,
      (plainColumn HostIDColumn VALUE_TYPE_STRING False False)\<lparr>co_Access := True\<rparr>,
      (plainColumn HostnameColumn VALUE_TYPE_STRING True False)\<lparr>co_Access := True\<rparr>]"

definition withAccessColumns :: "host_column list \<Rightarrow> host_column list" where
  "withAccessColumns columns = accessColumns @ columns"

definition observedAtColumn :: host_column where
  "observedAtColumn = plainColumn ''observed_at'' VALUE_TYPE_TIMESTAMP False False"

definition unsignedColumn :: "string \<Rightarrow> host_column" where
  "unsignedColumn name = plainColumn name VALUE_TYPE_BIGINTEGER False True"

definition nullableUnsignedColumn :: "string \<Rightarrow> host_column" where
  "nullableUnsignedColumn name = (unsignedColumn name)\<lparr>co_Nullable := True\<rparr>"

definition integerColumn :: "string \<Rightarrow> bool \<Rightarrow> host_column" where
  "integerColumn name nonNegative = plainColumn name VALUE_TYPE_INTEGER False nonNegative"

definition nullableIntegerColumn :: "string \<Rightarrow> bool \<Rightarrow> host_column" where
  "nullableIntegerColumn name nonNegative = (integerColumn name nonNegative)\<lparr>co_Nullable := True\<rparr>"

definition longColumn :: "string \<Rightarrow> bool \<Rightarrow> host_column" where
  "longColumn name nonNegative = plainColumn name VALUE_TYPE_LONG False nonNegative"

definition nonNegativeDoubleColumn :: "string \<Rightarrow> host_column" where
  "nonNegativeDoubleColumn name = plainColumn name VALUE_TYPE_DOUBLE False True"

definition nullableDoubleColumn :: "string \<Rightarrow> bool \<Rightarrow> host_column" where
  "nullableDoubleColumn name nonNegative = plainColumn name VALUE_TYPE_DOUBLE True nonNegative"

definition nullableStringColumn :: "string \<Rightarrow> host_column" where
  "nullableStringColumn name = plainColumn name VALUE_TYPE_STRING True False"

definition stringArrayColumn :: "string \<Rightarrow> bool \<Rightarrow> host_column" where
  "stringArrayColumn name nullable =
     (plainColumn name VALUE_TYPE_ARRAY nullable False)\<lparr>co_TypeDescriptor := Some stringArrayType\<rparr>"

definition tableDefinitions :: "table_definition list" where
  "tableDefinitions =
   [\<lparr>tdn_name = HostTable, tdn_columns = withAccessColumns
         [plainColumn ''state'' VALUE_TYPE_STRING False False,
          plainColumn ''enrolled_at'' VALUE_TYPE_TIMESTAMP False False,
          plainColumn ''last_seen_at'' VALUE_TYPE_TIMESTAMP True False],
      tdn_keyColumns = [NamespaceColumn, HostIDColumn], tdn_gatewayTable = HOST_TABLE_UNSPECIFIED, tdn_singletonHost = False\<rparr>,
    \<lparr>tdn_name = HostFactsTable, tdn_columns = withAccessColumns
         [observedAtColumn, plainColumn ''reported_hostname'' VALUE_TYPE_STRING False False,
          plainColumn ''os'' VALUE_TYPE_STRING False False, plainColumn ''platform'' VALUE_TYPE_STRING False False,
          plainColumn ''platform_family'' VALUE_TYPE_STRING False False,
          plainColumn ''platform_version'' VALUE_TYPE_STRING False False,
          plainColumn ''kernel_version'' VALUE_TYPE_STRING False False,
          plainColumn ''kernel_architecture'' VALUE_TYPE_STRING False False,
          plainColumn ''virtualization_system'' VALUE_TYPE_STRING False False,
          plainColumn ''virtualization_role'' VALUE_TYPE_STRING False False,
          plainColumn ''booted_at'' VALUE_TYPE_TIMESTAMP True False, unsignedColumn ''uptime_seconds'',
          unsignedColumn ''process_count''],
      tdn_keyColumns = [NamespaceColumn, HostIDColumn], tdn_gatewayTable = HOST_TABLE_FACTS, tdn_singletonHost = True\<rparr>,
    \<lparr>tdn_name = CPUInfoTable, tdn_columns = withAccessColumns
         [observedAtColumn, integerColumn ''logical_id'' True,
          plainColumn ''vendor_id'' VALUE_TYPE_STRING False False,
          plainColumn ''family'' VALUE_TYPE_STRING False False, plainColumn ''model'' VALUE_TYPE_STRING False False,
          integerColumn ''stepping'' True, plainColumn ''physical_id'' VALUE_TYPE_STRING False False,
          plainColumn ''core_id'' VALUE_TYPE_STRING False False, integerColumn ''core_count'' True,
          plainColumn ''model_name'' VALUE_TYPE_STRING False False, plainColumn ''mhz'' VALUE_TYPE_DOUBLE False True,
          stringArrayColumn ''flags'' False, plainColumn ''microcode'' VALUE_TYPE_STRING False False],
      tdn_keyColumns = [NamespaceColumn, HostIDColumn, ''logical_id''], tdn_gatewayTable = HOST_TABLE_CPU_INFO, tdn_singletonHost = False\<rparr>,
    \<lparr>tdn_name = CPUTimesTable, tdn_columns = withAccessColumns
         [observedAtColumn, plainColumn ''cpu'' VALUE_TYPE_STRING False False,
          nonNegativeDoubleColumn ''user_seconds'', nonNegativeDoubleColumn ''system_seconds'',
          nonNegativeDoubleColumn ''idle_seconds'', nonNegativeDoubleColumn ''nice_seconds'',
          nonNegativeDoubleColumn ''iowait_seconds'', nonNegativeDoubleColumn ''irq_seconds'',
          nonNegativeDoubleColumn ''softirq_seconds'', nonNegativeDoubleColumn ''steal_seconds'',
          nonNegativeDoubleColumn ''guest_seconds'', nonNegativeDoubleColumn ''guest_nice_seconds''],
      tdn_keyColumns = [NamespaceColumn, HostIDColumn, ''cpu''], tdn_gatewayTable = HOST_TABLE_CPU_TIMES, tdn_singletonHost = False\<rparr>,
    \<lparr>tdn_name = MemoryTable, tdn_columns = withAccessColumns
         [observedAtColumn, unsignedColumn ''total_bytes'', unsignedColumn ''available_bytes'',
          unsignedColumn ''used_bytes'', nonNegativeDoubleColumn ''used_percent'', unsignedColumn ''free_bytes'',
          nullableUnsignedColumn ''swap_total_bytes'', nullableUnsignedColumn ''swap_used_bytes'',
          nullableUnsignedColumn ''swap_free_bytes'', nullableDoubleColumn ''swap_used_percent'' True,
          nullableUnsignedColumn ''swap_in_bytes'', nullableUnsignedColumn ''swap_out_bytes''],
      tdn_keyColumns = [NamespaceColumn, HostIDColumn], tdn_gatewayTable = HOST_TABLE_MEMORY, tdn_singletonHost = True\<rparr>,
    \<lparr>tdn_name = FilesystemsTable, tdn_columns = withAccessColumns
         [observedAtColumn, plainColumn ''device'' VALUE_TYPE_STRING False False,
          plainColumn ''mountpoint'' VALUE_TYPE_STRING False False,
          plainColumn ''filesystem_type'' VALUE_TYPE_STRING False False, stringArrayColumn ''options'' False,
          nullableUnsignedColumn ''total_bytes'', nullableUnsignedColumn ''free_bytes'',
          nullableUnsignedColumn ''used_bytes'', nullableDoubleColumn ''used_percent'' True,
          nullableUnsignedColumn ''inodes_total'', nullableUnsignedColumn ''inodes_used'',
          nullableUnsignedColumn ''inodes_free'', nullableDoubleColumn ''inodes_used_percent'' True],
      tdn_keyColumns = [NamespaceColumn, HostIDColumn, ''mountpoint'', ''device''], tdn_gatewayTable = HOST_TABLE_FILESYSTEMS, tdn_singletonHost = False\<rparr>,
    \<lparr>tdn_name = NetworkInterfacesTable, tdn_columns = withAccessColumns
         [observedAtColumn, longColumn ''interface_index'' True, plainColumn ''name'' VALUE_TYPE_STRING False False,
          longColumn ''mtu'' True, plainColumn ''hardware_address'' VALUE_TYPE_STRING False False,
          stringArrayColumn ''flags'' False, stringArrayColumn ''addresses'' False],
      tdn_keyColumns = [NamespaceColumn, HostIDColumn, ''name''], tdn_gatewayTable = HOST_TABLE_NETWORK_INTERFACES, tdn_singletonHost = False\<rparr>,
    \<lparr>tdn_name = NetworkIOTable, tdn_columns = withAccessColumns
         [observedAtColumn, plainColumn ''name'' VALUE_TYPE_STRING False False, unsignedColumn ''bytes_sent'',
          unsignedColumn ''bytes_received'', unsignedColumn ''packets_sent'', unsignedColumn ''packets_received'',
          unsignedColumn ''errors_in'', unsignedColumn ''errors_out'', unsignedColumn ''drops_in'',
          unsignedColumn ''drops_out'', unsignedColumn ''fifo_errors_in'', unsignedColumn ''fifo_errors_out''],
      tdn_keyColumns = [NamespaceColumn, HostIDColumn, ''name''], tdn_gatewayTable = HOST_TABLE_NETWORK_IO, tdn_singletonHost = False\<rparr>,
    \<lparr>tdn_name = ProcessesTable, tdn_columns = withAccessColumns
         [observedAtColumn, integerColumn ''pid'' True, plainColumn ''created_at'' VALUE_TYPE_TIMESTAMP False False,
          nullableIntegerColumn ''parent_pid'' True, nullableStringColumn ''name'',
          nullableStringColumn ''executable'', nullableStringColumn ''command_line'',
          stringArrayColumn ''statuses'' True, nullableStringColumn ''username'',
          nullableStringColumn ''working_directory'', nullableUnsignedColumn ''resident_memory_bytes'',
          nullableUnsignedColumn ''virtual_memory_bytes'', nullableIntegerColumn ''thread_count'' True,
          nullableDoubleColumn ''cpu_user_seconds'' True, nullableDoubleColumn ''cpu_system_seconds'' True],
      tdn_keyColumns = [NamespaceColumn, HostIDColumn, ''pid'', ''created_at''], tdn_gatewayTable = HOST_TABLE_PROCESSES, tdn_singletonHost = False\<rparr>]"

section \<open>Lookups\<close>

type_synonym unicode = "string \<Rightarrow> string"

definition findTable :: "unicode \<Rightarrow> string \<Rightarrow> table_definition option" where
  "findTable up name = List.find (\<lambda>d. tdn_name d = toUpper up (trimSpace name)) tableDefinitions"

definition Columns :: "unicode \<Rightarrow> string \<Rightarrow> host_column list option" where
  "Columns up table = map_option tdn_columns (findTable up table)"

definition agent_table :: "unicode \<Rightarrow> string \<Rightarrow> table_definition option" where
  "agent_table up table =
     (case findTable up table of
        None \<Rightarrow> None
      | Some d \<Rightarrow> if tdn_gatewayTable d = HOST_TABLE_UNSPECIFIED then None else Some d)"

definition LocalColumns :: "unicode \<Rightarrow> string \<Rightarrow> string list option" where
  "LocalColumns up table =
     (case agent_table up table of
        None \<Rightarrow> None
      | Some d \<Rightarrow> Some (map co_Name (filter (\<lambda>c. \<not> co_Access c) (tdn_columns d))))"

definition GatewayTable :: "unicode \<Rightarrow> string \<Rightarrow> gateway_table option" where
  "GatewayTable up table = map_option tdn_gatewayTable (agent_table up table)"

definition TableName :: "gateway_table \<Rightarrow> string option" where
  "TableName t =
     map_option tdn_name
       (List.find (\<lambda>d. tdn_gatewayTable d = t \<and> t \<noteq> HOST_TABLE_UNSPECIFIED) tableDefinitions)"

definition SingletonPerHost :: "unicode \<Rightarrow> string \<Rightarrow> bool" where
  "SingletonPerHost up table = (case findTable up table of None \<Rightarrow> False | Some d \<Rightarrow> tdn_singletonHost d)"

definition RequiresArrayFeature :: "unicode \<Rightarrow> unicode \<Rightarrow> string \<Rightarrow> string list \<Rightarrow> bool" where
  "RequiresArrayFeature up low table columns =
     (case findTable up table of
        None \<Rightarrow> False
      | Some d \<Rightarrow>
          list_ex (\<lambda>c. co_Type c = VALUE_TYPE_ARRAY \<and> toLower low (co_Name c) \<in> set (map (toLower low) columns))
            (tdn_columns d))"

section \<open>Validation of agent rows\<close>

text \<open>\<open>math.IsNaN\<close>, \<open>math.IsInf\<close> and \<open>f < 0\<close> on the bits of a double.\<close>

definition IsNaN :: "64 word \<Rightarrow> bool" where
  "IsNaN f \<longleftrightarrow> take_bit 63 f > 0x7FF0000000000000"

definition IsInf :: "64 word \<Rightarrow> bool" where
  "IsInf f \<longleftrightarrow> take_bit 63 f = 0x7FF0000000000000"

definition negative_double :: "64 word \<Rightarrow> bool" where
  "negative_double f \<longleftrightarrow> bit f 63 \<and> take_bit 63 f \<noteq> 0 \<and> \<not> IsNaN f"

text \<open>\<open>new(big.Int).SetString(s, 10)\<close>: an optional sign and decimal digits.\<close>

definition big_digits :: "string \<Rightarrow> int option" where
  "big_digits s = (if s \<noteq> [] \<and> list_all is_digit s then Some (int (undecimal s)) else None)"

definition big_SetString :: "string \<Rightarrow> int option" where
  "big_SetString s =
     (case s of
        [] \<Rightarrow> None
      | c # r \<Rightarrow>
          if c = CHR ''-'' then map_option uminus (big_digits r)
          else if c = CHR ''+'' then big_digits r
          else big_digits s)"

fun check_elements :: "nat \<Rightarrow> value option list \<Rightarrow> host_value_err option" where
  "check_elements i [] = None"
| "check_elements i (e # es) =
     (case e of
        None \<Rightarrow> Some (HostArrayElementRequired i)
      | Some v \<Rightarrow>
          (case kind_of v of
             StringValue _ \<Rightarrow> check_elements (Suc i) es
           | _ \<Rightarrow> Some (HostArrayElementString i)))"

definition validateStringArray :: "host_column \<Rightarrow> value \<Rightarrow> host_value_err option" where
  "validateStringArray column v =
     (case kind_of v of
        ArrayValue elementType es \<Rightarrow>
          if elementType \<noteq> Option.bind (co_TypeDescriptor column) td_element then Some HostArrayElementType
          else check_elements 0 es
      | _ \<Rightarrow> Some (HostTypeExpected VALUE_TYPE_ARRAY))"

definition is_null_kind :: "('d, 'p) kind \<Rightarrow> bool" where
  "is_null_kind k \<longleftrightarrow> (case k of NullValue _ \<Rightarrow> True | _ \<Rightarrow> False)"

definition validate_integer :: "host_column \<Rightarrow> int \<Rightarrow> host_value_err option" where
  "validate_integer column i = fail_if (co_NonNegative column \<and> i < 0) HostNonNegativeInteger"

definition validate_typed :: "host_column \<Rightarrow> value \<Rightarrow> host_value_err option" where
  "validate_typed column v =
     (let expected = HostTypeExpected (co_Type column) in
      if co_Type column = VALUE_TYPE_STRING then
        (case kind_of v of StringValue _ \<Rightarrow> None | _ \<Rightarrow> Some expected)
      else if co_Type column = VALUE_TYPE_INTEGER then
        (case kind_of v of IntegerValue i \<Rightarrow> validate_integer column i | _ \<Rightarrow> Some expected)
      else if co_Type column = VALUE_TYPE_LONG then
        (case kind_of v of LongValue i \<Rightarrow> validate_integer column i | _ \<Rightarrow> Some expected)
      else if co_Type column = VALUE_TYPE_BIGINTEGER then
        (case kind_of v of
           BigintegerValue s \<Rightarrow>
             (case big_SetString s of
                None \<Rightarrow> Some HostDecimalInteger
              | Some i \<Rightarrow> fail_if (co_NonNegative column \<and> i < 0) HostDecimalInteger)
         | _ \<Rightarrow> Some expected)
      else if co_Type column = VALUE_TYPE_DOUBLE then
        (case kind_of v of
           DoubleValue f \<Rightarrow>
             first_of [fail_if (IsNaN f \<or> IsInf f) HostFiniteNumber,
                       fail_if (co_NonNegative column \<and> negative_double f) HostNonNegativeNumber]
         | _ \<Rightarrow> Some expected)
      else if co_Type column = VALUE_TYPE_TIMESTAMP then
        (case kind_of v of
           TimestampValue s \<Rightarrow> fail_if (\<not> parse_timestamp s) HostTimestamp
         | _ \<Rightarrow> Some expected)
      else if co_Type column = VALUE_TYPE_ARRAY then validateStringArray column v
      else Some (HostTypeUnsupported (co_Type column)))"

definition validate_host_value :: "host_column \<Rightarrow> value option \<Rightarrow> host_value_err option" where
  "validate_host_value column v =
     (case v of
        None \<Rightarrow> Some HostValueRequired
      | Some x \<Rightarrow>
          if kind_of x = KindUnset then Some HostValueRequired
          else if is_null_kind (kind_of x) then fail_if (\<not> co_Nullable column) HostNullNotAllowed
          else validate_typed column x)"

text \<open>The map \<open>definitions\<close> holds the last column of a name.\<close>

definition column_named :: "table_definition \<Rightarrow> string \<Rightarrow> host_column option" where
  "column_named d name = List.find (\<lambda>c. co_Name c = name) (rev (tdn_columns d))"

fun validate_columns ::
  "table_definition \<Rightarrow> string list \<Rightarrow> value option list \<Rightarrow> host_row_err option" where
  "validate_columns d (name # names) (v # vs) =
     (case column_named d name of
        None \<Rightarrow> Some (AgentColumnUnknown (tdn_name d) name)
      | Some c \<Rightarrow>
          if co_Access c \<or> name = IdentifierColumn then Some (AgentColumnUnknown (tdn_name d) name)
          else
            (case validate_host_value c v of
               Some e \<Rightarrow> Some (AgentColumnValue (tdn_name d) name e)
             | None \<Rightarrow> validate_columns d names vs))"
| "validate_columns d _ _ = None"

definition ValidateValues :: "unicode \<Rightarrow> string \<Rightarrow> string list \<Rightarrow> value option list \<Rightarrow> host_row_err option" where
  "ValidateValues up table columns values =
     (case agent_table up table of
        None \<Rightarrow> Some (AgentTableUnknown table)
      | Some d \<Rightarrow>
          if length values \<noteq> length columns
          then Some (HostRowArity (tdn_name d) (length values) (length columns))
          else validate_columns d columns values)"

end
