(* ===== verification/HostRegistry.thy ===== *)
theory HostRegistry
  imports Messages "HOL-Library.AList" "HOL-Library.Char_ord" "HOL-Library.List_Lexorder" "HOL-Library.Product_Lexorder"
begin

text \<open>
  The registry of the host provider (\<open>providers/host/internal/model/host.go\<close>,
  \<open>internal/registry/registry.go\<close>, \<open>internal/registry/memory.go\<close>): durable hosts and the leased
  sessions of their agents.

  A time is a number of nanoseconds since the zero time of Go. The context of a call answers
  each of its checks (\<open>ctx k\<close> at the \<open>k\<close>-th), a source of identifiers each of its draws. A Go
  map that is ranged over is an association list; the results are sorted by distinct keys, so
  the order of the range does not matter.

  \<open>HostFleet\<close> has the abstract state, every host with the history of its sessions, and the
  contract of the interface \<open>Registry\<close> over it; \<open>HostMemory\<close> shows that the registry in memory
  fulfils it.
\<close>

section \<open>Hosts and sessions\<close>

type_synonym go_time = int
type_synonym context_checks = "nat \<Rightarrow> context_err option"

record host_key =
  hk_Namespace :: string
  hk_ID :: string

record host_identity =
  hi_Key :: host_key
  hi_Hostname :: string
  hi_EnrolledAt :: go_time
  hi_Attributes :: "(string \<rightharpoonup> string) option"

record protocol_version =
  pn_Major :: "32 word"
  pn_Minor :: "32 word"

record agent_session =
  se_ID :: string
  se_Host :: host_key
  se_Generation :: "64 word"
  se_AgentVersion :: string
  se_ProtocolVersion :: protocol_version
  se_SchemaVersion :: string
  se_MaxConcurrentScans :: "32 word"
  se_ConnectedAt :: go_time
  se_LastSeenAt :: go_time
  se_ExpiresAt :: go_time
  se_DisconnectedAt :: go_time

definition IsZero :: "go_time \<Rightarrow> bool" where "IsZero t \<longleftrightarrow> t = 0"

definition ActiveAt :: "agent_session \<Rightarrow> go_time \<Rightarrow> bool" where
  "ActiveAt s at =
     (if IsZero (se_ConnectedAt s) \<or> at < se_ConnectedAt s \<or> IsZero (se_ExpiresAt s) \<or> \<not> at < se_ExpiresAt s
      then False
      else IsZero (se_DisconnectedAt s) \<or> at < se_DisconnectedAt s)"

record host_snapshot =
  hs_Identity :: host_identity
  hs_Session :: "agent_session option"

record registration =
  re_Namespace :: string
  re_AgentIdentifier :: string
  re_Hostname :: string
  re_AgentVersion :: string
  re_ProtocolVersion :: protocol_version
  re_SchemaVersion :: string
  re_MaxConcurrentScans :: "32 word"
  re_Attributes :: "(string \<rightharpoonup> string) option"

record session_window =
  sw_ObservedAt :: go_time
  sw_ExpiresAt :: go_time

text \<open>The interface \<open>Registry\<close>, over the state \<open>'s\<close> of an implementation.\<close>

type_synonym id_source = "nat \<Rightarrow> string + string"

record 's registry_ops =
  ro_OpenSession :: "context_checks \<Rightarrow> id_source \<Rightarrow> registration \<Rightarrow> session_window \<Rightarrow> 's \<Rightarrow>
    (registry_err + host_snapshot) \<times> 's"
  ro_RenewSession :: "context_checks \<Rightarrow> string \<Rightarrow> session_window \<Rightarrow> 's \<Rightarrow> (registry_err + host_snapshot) \<times> 's"
  ro_CloseSession :: "context_checks \<Rightarrow> string \<Rightarrow> go_time \<Rightarrow> 's \<Rightarrow> registry_err option \<times> 's"
  ro_ResolveSession :: "context_checks \<Rightarrow> string \<Rightarrow> 's \<Rightarrow> registry_err + host_snapshot"
  ro_SnapshotActive :: "context_checks \<Rightarrow> string \<Rightarrow> go_time \<Rightarrow> 's \<Rightarrow> registry_err + host_snapshot list"
  ro_List :: "context_checks \<Rightarrow> string \<Rightarrow> 's \<Rightarrow> registry_err + host_snapshot list"

section \<open>Validation and helpers\<close>

definition validateRegistration :: "registration \<Rightarrow> registry_err option" where
  "validateRegistration r =
     first_of
      [fail_if (trimSpace (re_Namespace r) = []) FleetNamespaceRequired,
       fail_if (trimSpace (re_Namespace r) \<noteq> re_Namespace r) FleetNamespaceWhitespace,
       fail_if (trimSpace (re_AgentIdentifier r) = []) AgentIdentifierRequired,
       fail_if (trimSpace (re_AgentIdentifier r) \<noteq> re_AgentIdentifier r) AgentIdentifierWhitespace,
       fail_if (trimSpace (re_AgentVersion r) = []) AgentVersionRequired,
       fail_if (pn_Major (re_ProtocolVersion r) = 0) ProtocolMajorRequired,
       fail_if (trimSpace (re_SchemaVersion r) = []) AgentSchemaRequired,
       fail_if (re_MaxConcurrentScans r = 0) MaxConcurrentScansRequired]"

definition validateSessionWindow :: "session_window \<Rightarrow> registry_err option" where
  "validateSessionWindow w =
     first_of
      [fail_if (IsZero (sw_ObservedAt w)) ObservationTimeRequired,
       fail_if (IsZero (sw_ExpiresAt w) \<or> \<not> sw_ExpiresAt w > sw_ObservedAt w) ExpiryMustFollowObservation]"

definition markDisconnected :: "go_time \<Rightarrow> agent_session \<Rightarrow> agent_session" where
  "markDisconnected at s =
     (if IsZero (se_DisconnectedAt s) \<or> at < se_DisconnectedAt s then s\<lparr>se_DisconnectedAt := at\<rparr> else s)"

definition snapshot_key :: "host_snapshot \<Rightarrow> string \<times> string" where
  "snapshot_key s = (hk_Namespace (hi_Key (hs_Identity s)), hk_ID (hi_Key (hs_Identity s)))"

definition sortSnapshots :: "host_snapshot list \<Rightarrow> host_snapshot list" where
  "sortSnapshots snapshots = sort_key snapshot_key snapshots"

definition maxSessionIDAttempts :: nat where "maxSessionIDAttempts = 8"

fun draw_session_id :: "id_source \<Rightarrow> (string \<Rightarrow> bool) \<Rightarrow> nat \<Rightarrow> nat \<Rightarrow> registry_err + string" where
  "draw_session_id ids taken k 0 = Inl SessionIdCollisions"
| "draw_session_id ids taken k (Suc n) =
     (case ids k of
        Inl e \<Rightarrow> Inl (GenerateSessionId e)
      | Inr sessionID \<Rightarrow>
          if trimSpace sessionID = [] then Inl GeneratedSessionIdEmpty
          else if \<not> taken sessionID then Inr sessionID
          else draw_session_id ids taken (Suc k) n)"

definition registration_key :: "registration \<Rightarrow> host_key" where
  "registration_key r = \<lparr>hk_Namespace = re_Namespace r, hk_ID = re_AgentIdentifier r\<rparr>"

definition new_session :: "registration \<Rightarrow> session_window \<Rightarrow> string \<Rightarrow> 64 word \<Rightarrow> agent_session" where
  "new_session r w sessionID generation =
     \<lparr>se_ID = sessionID, se_Host = registration_key r, se_Generation = generation,
      se_AgentVersion = re_AgentVersion r, se_ProtocolVersion = re_ProtocolVersion r,
      se_SchemaVersion = re_SchemaVersion r, se_MaxConcurrentScans = re_MaxConcurrentScans r,
      se_ConnectedAt = sw_ObservedAt w, se_LastSeenAt = sw_ObservedAt w, se_ExpiresAt = sw_ExpiresAt w,
      se_DisconnectedAt = 0\<rparr>"

text \<open>The identity that is stored: enrolled once, with the hostname and attributes of the last registration.\<close>

definition registered_identity :: "registration \<Rightarrow> session_window \<Rightarrow> host_identity option \<Rightarrow> host_identity" where
  "registered_identity r w stored =
     (case stored of
        None \<Rightarrow> \<lparr>hi_Key = registration_key r, hi_Hostname = [], hi_EnrolledAt = sw_ObservedAt w, hi_Attributes = None\<rparr>
      | Some i \<Rightarrow> i)\<lparr>hi_Hostname := re_Hostname r, hi_Attributes := re_Attributes r\<rparr>"

definition check_namespace :: "string \<Rightarrow> registry_err option" where
  "check_namespace namespace =
     fail_if (namespace \<noteq> [] \<and> trimSpace namespace \<noteq> namespace) FleetNamespaceWhitespace"

text \<open>The checks of a renewal, of the session and the identifier that is current for its host.\<close>

definition check_renewal :: "string \<Rightarrow> session_window \<Rightarrow> agent_session \<Rightarrow> string \<Rightarrow> registry_err option" where
  "check_renewal sessionID w s current =
     first_of
      [fail_if (current \<noteq> sessionID \<or> \<not> IsZero (se_DisconnectedAt s)) ErrSessionNotCurrent,
       fail_if (sw_ObservedAt w < se_LastSeenAt s) ObservationMovedBackwards,
       fail_if (\<not> ActiveAt s (sw_ObservedAt w)) ErrSessionExpired,
       fail_if (\<not> sw_ExpiresAt w > se_ExpiresAt s) RenewalMustAdvance]"

definition renewed :: "session_window \<Rightarrow> agent_session \<Rightarrow> agent_session" where
  "renewed w s = s\<lparr>se_LastSeenAt := sw_ObservedAt w, se_ExpiresAt := sw_ExpiresAt w\<rparr>"

section \<open>The registry in memory\<close>

record memory =
  mem_identities :: "(host_key \<times> host_identity) list"
  mem_sessions :: "string \<rightharpoonup> agent_session"
  mem_current :: "(host_key \<times> string) list"
  mem_generations :: "host_key \<rightharpoonup> 64 word"

definition newMemory :: memory where
  "newMemory = \<lparr>mem_identities = [], mem_sessions = Map.empty, mem_current = [], mem_generations = Map.empty\<rparr>"

text \<open>Reading a Go map: an absent key has the zero value.\<close>

definition current_of :: "memory \<Rightarrow> host_key \<Rightarrow> string" where
  "current_of m k = (case map_of (mem_current m) k of None \<Rightarrow> [] | Some i \<Rightarrow> i)"

definition zero_session :: agent_session where
  "zero_session =
     \<lparr>se_ID = [], se_Host = \<lparr>hk_Namespace = [], hk_ID = []\<rparr>, se_Generation = 0, se_AgentVersion = [],
      se_ProtocolVersion = \<lparr>pn_Major = 0, pn_Minor = 0\<rparr>, se_SchemaVersion = [], se_MaxConcurrentScans = 0,
      se_ConnectedAt = 0, se_LastSeenAt = 0, se_ExpiresAt = 0, se_DisconnectedAt = 0\<rparr>"

definition session_of :: "memory \<Rightarrow> string \<Rightarrow> agent_session" where
  "session_of m i = (case mem_sessions m i of None \<Rightarrow> zero_session | Some s \<Rightarrow> s)"

definition generation_of :: "memory \<Rightarrow> host_key \<Rightarrow> 64 word" where
  "generation_of m k = (case mem_generations m k of None \<Rightarrow> 0 | Some g \<Rightarrow> g)"

definition zero_identity :: host_identity where
  "zero_identity =
     \<lparr>hi_Key = \<lparr>hk_Namespace = [], hk_ID = []\<rparr>, hi_Hostname = [], hi_EnrolledAt = 0, hi_Attributes = None\<rparr>"

definition identity_of :: "memory \<Rightarrow> host_key \<Rightarrow> host_identity" where
  "identity_of m k = (case map_of (mem_identities m) k of None \<Rightarrow> zero_identity | Some i \<Rightarrow> i)"

definition mem_OpenSession ::
  "context_checks \<Rightarrow> id_source \<Rightarrow> registration \<Rightarrow> session_window \<Rightarrow> memory \<Rightarrow>
   (registry_err + host_snapshot) \<times> memory" where
  "mem_OpenSession ctx ids r w m =
     (case first_of [map_option RegistryContext (ctx 0), validateRegistration r, validateSessionWindow w] of
        Some e \<Rightarrow> (Inl e, m)
      | None \<Rightarrow>
          (case draw_session_id ids (\<lambda>i. mem_sessions m i \<noteq> None) 0 maxSessionIDAttempts of
             Inl e \<Rightarrow> (Inl e, m)
           | Inr sessionID \<Rightarrow>
               (let key = registration_key r; previousID = current_of m key in
                if previousID \<noteq> [] \<and> sw_ObservedAt w < se_LastSeenAt (session_of m previousID)
                then (Inl ObservationMovedBackwards, m)
                else if generation_of m key = - 1 then (Inl GenerationOverflow, m)
                else
                  (let generation = generation_of m key + 1;
                       sessions = (if previousID \<noteq> []
                                   then (mem_sessions m)(previousID \<mapsto>
                                          markDisconnected (sw_ObservedAt w) (session_of m previousID))
                                   else mem_sessions m);
                       identity = registered_identity r w (map_of (mem_identities m) key);
                       session = new_session r w sessionID generation
                   in (Inr \<lparr>hs_Identity = identity, hs_Session = Some session\<rparr>,
                       \<lparr>mem_identities = AList.update key identity (mem_identities m),
                        mem_sessions = sessions(sessionID \<mapsto> session),
                        mem_current = AList.update key sessionID (mem_current m),
                        mem_generations = (mem_generations m)(key \<mapsto> generation)\<rparr>)))))"

definition mem_RenewSession ::
  "context_checks \<Rightarrow> string \<Rightarrow> session_window \<Rightarrow> memory \<Rightarrow> (registry_err + host_snapshot) \<times> memory" where
  "mem_RenewSession ctx sessionID w m =
     (case first_of [map_option RegistryContext (ctx 0), fail_if (trimSpace sessionID = []) SessionIdRequired,
                     validateSessionWindow w] of
        Some e \<Rightarrow> (Inl e, m)
      | None \<Rightarrow>
          (case mem_sessions m sessionID of
             None \<Rightarrow> (Inl ErrSessionNotFound, m)
           | Some s \<Rightarrow>
               (case check_renewal sessionID w s (current_of m (se_Host s)) of
                  Some e \<Rightarrow> (Inl e, m)
                | None \<Rightarrow>
                    (Inr \<lparr>hs_Identity = identity_of m (se_Host s), hs_Session = Some (renewed w s)\<rparr>,
                     m\<lparr>mem_sessions := (mem_sessions m)(sessionID \<mapsto> renewed w s)\<rparr>))))"

definition mem_CloseSession ::
  "context_checks \<Rightarrow> string \<Rightarrow> go_time \<Rightarrow> memory \<Rightarrow> registry_err option \<times> memory" where
  "mem_CloseSession ctx sessionID at m =
     (case first_of [map_option RegistryContext (ctx 0), fail_if (trimSpace sessionID = []) SessionIdRequired,
                     fail_if (IsZero at) DisconnectTimeRequired] of
        Some e \<Rightarrow> (Some e, m)
      | None \<Rightarrow>
          (case mem_sessions m sessionID of
             None \<Rightarrow> (Some ErrSessionNotFound, m)
           | Some s \<Rightarrow>
               if at < se_ConnectedAt s then (Some DisconnectPrecedesConnection, m)
               else (None, m\<lparr>mem_sessions := (mem_sessions m)(sessionID \<mapsto> markDisconnected at s)\<rparr>)))"

definition mem_ResolveSession :: "context_checks \<Rightarrow> string \<Rightarrow> memory \<Rightarrow> registry_err + host_snapshot" where
  "mem_ResolveSession ctx sessionID m =
     (case ctx 0 of
        Some e \<Rightarrow> Inl (RegistryContext e)
      | None \<Rightarrow>
          (case mem_sessions m sessionID of
             None \<Rightarrow> Inl ErrSessionNotFound
           | Some s \<Rightarrow> Inr \<lparr>hs_Identity = identity_of m (se_Host s), hs_Session = Some s\<rparr>))"

definition mem_SnapshotActive ::
  "context_checks \<Rightarrow> string \<Rightarrow> go_time \<Rightarrow> memory \<Rightarrow> registry_err + host_snapshot list" where
  "mem_SnapshotActive ctx namespace at m =
     (case first_of [map_option RegistryContext (ctx 0), fail_if (IsZero at) SnapshotTimeRequired,
                     check_namespace namespace] of
        Some e \<Rightarrow> Inl e
      | None \<Rightarrow>
          Inr (sortSnapshots
            (List.map_filter
              (\<lambda>(key, sessionID).
                 if namespace \<noteq> [] \<and> hk_Namespace key \<noteq> namespace then None
                 else if \<not> ActiveAt (session_of m sessionID) at then None
                 else Some \<lparr>hs_Identity = identity_of m key, hs_Session = Some (session_of m sessionID)\<rparr>)
              (mem_current m))))"

definition mem_List :: "context_checks \<Rightarrow> string \<Rightarrow> memory \<Rightarrow> registry_err + host_snapshot list" where
  "mem_List ctx namespace m =
     (case first_of [map_option RegistryContext (ctx 0), check_namespace namespace] of
        Some e \<Rightarrow> Inl e
      | None \<Rightarrow>
          Inr (sortSnapshots
            (List.map_filter
              (\<lambda>(key, identity).
                 if namespace \<noteq> [] \<and> hk_Namespace key \<noteq> namespace then None
                 else
                   Some \<lparr>hs_Identity = identity,
                         hs_Session = (if current_of m key \<noteq> [] then Some (session_of m (current_of m key)) else None)\<rparr>)
              (mem_identities m))))"

definition memory_registry :: "memory registry_ops" where
  "memory_registry =
     \<lparr>ro_OpenSession = mem_OpenSession, ro_RenewSession = mem_RenewSession, ro_CloseSession = mem_CloseSession,
      ro_ResolveSession = mem_ResolveSession, ro_SnapshotActive = mem_SnapshotActive, ro_List = mem_List\<rparr>"

end
