(* ===== verification/HostPlan.thy ===== *)
theory HostPlan
  imports HostSchema HostRegistry
begin

text \<open>
  Planning a query of the host provider (\<open>providers/host/internal/query/plan.go\<close>) and the values
  of its rows (\<open>query/values.go\<close>): the projections, and the route, the constraints on namespace,
  host and hostname that the filter gives.

  \<open>filter_holds\<close> is the meaning of a filter that the planner understands: the equality of a
  column with a string, and conjunctions. \<open>route_admits\<close> is the meaning of a route.
\<close>

section \<open>Routes\<close>

record access_route =
  ar_namespace :: "string option"
  ar_hostID :: "string option"
  ar_hostname :: "string option"
  ar_impossible :: bool

definition no_route :: access_route where
  "no_route = \<lparr>ar_namespace = None, ar_hostID = None, ar_hostname = None, ar_impossible = False\<rparr>"

definition unbounded :: "access_route \<Rightarrow> bool" where
  "unbounded r \<longleftrightarrow> ar_namespace r = None \<and> ar_hostID r = None \<and> ar_hostname r = None"

text \<open>The destination and the flag after merging a candidate.\<close>

definition mergeAccessValue :: "string option \<Rightarrow> string option \<Rightarrow> bool \<Rightarrow> string option \<times> bool" where
  "mergeAccessValue destination candidate impossible =
     (if candidate = None \<or> impossible then (destination, impossible)
      else if destination \<noteq> None \<and> destination \<noteq> candidate then (destination, True)
      else (candidate, impossible))"

definition merge_route :: "access_route \<Rightarrow> access_route \<Rightarrow> access_route" where
  "merge_route route part =
     (let (n, i1) = mergeAccessValue (ar_namespace route) (ar_namespace part) (ar_impossible route);
          (h, i2) = mergeAccessValue (ar_hostID route) (ar_hostID part) i1;
          (m, i3) = mergeAccessValue (ar_hostname route) (ar_hostname part) i2
      in \<lparr>ar_namespace = n, ar_hostID = h, ar_hostname = m, ar_impossible = i3\<rparr>)"

definition field_of :: "expression option \<Rightarrow> string option" where
  "field_of e = (case e of Some (ExprField f) \<Rightarrow> f | _ \<Rightarrow> None)"

definition literal_of :: "expression option \<Rightarrow> value option" where
  "literal_of e = (case e of Some (ExprLiteral v _) \<Rightarrow> v | _ \<Rightarrow> None)"

definition fieldStringEquality :: "expression option \<Rightarrow> expression option \<Rightarrow> (string \<times> string) option" where
  "fieldStringEquality fieldExpression literalExpression =
     (case field_of fieldExpression of
        None \<Rightarrow> None
      | Some f \<Rightarrow>
          (case literal_of literalExpression of
             None \<Rightarrow> None
           | Some v \<Rightarrow> (case kind_of v of StringValue s \<Rightarrow> Some (f, s) | _ \<Rightarrow> None)))"

text \<open>The field and the literal of an equality, whichever side they are on.\<close>

definition access_equality :: "expression option \<Rightarrow> expression option \<Rightarrow> (string \<times> string) option" where
  "access_equality l r =
     (case fieldStringEquality l r of Some p \<Rightarrow> Some p | None \<Rightarrow> fieldStringEquality r l)"

definition access_field_route :: "unicode \<Rightarrow> string \<Rightarrow> string \<Rightarrow> host_plan_err + access_route" where
  "access_field_route low field v =
     (if toLower low field = NamespaceColumn then Inr (no_route\<lparr>ar_namespace := Some v\<rparr>)
      else if toLower low field = HostIDColumn then Inr (no_route\<lparr>ar_hostID := Some v\<rparr>)
      else if toLower low field = HostnameColumn then Inr (no_route\<lparr>ar_hostname := Some v\<rparr>)
      else Inl (FilterNotAccess field))"

fun parseAccessFilter :: "unicode \<Rightarrow> expression option \<Rightarrow> host_plan_err + access_route"
  and parse_operands :: "unicode \<Rightarrow> access_route \<Rightarrow> expression option list \<Rightarrow> host_plan_err + access_route" where
  "parseAccessFilter low None = Inr no_route"
| "parseAccessFilter low (Some ExprComparisonNil) = Inl FilterNotEquality"
| "parseAccessFilter low (Some (ExprComparison operator l r)) =
     (if operator \<noteq> COMPARISON_OPERATOR_EQUAL then Inl FilterNotEquality
      else
        (case access_equality l r of
           None \<Rightarrow> Inl FilterNotFieldLiteral
         | Some (field, v) \<Rightarrow> access_field_route low field v))"
| "parseAccessFilter low (Some ExprLogicalNil) = Inl FilterNotConjunction"
| "parseAccessFilter low (Some (ExprLogical operator es)) =
     (if operator \<noteq> LOGICAL_OPERATOR_AND \<or> length es < 2 then Inl FilterNotConjunction
      else parse_operands low no_route es)"
| "parseAccessFilter low (Some _) = Inl FilterUnsupported"
| "parse_operands low route [] = Inr route"
| "parse_operands low route (e # es) =
     (case parseAccessFilter low e of
        Inl err \<Rightarrow> Inl err
      | Inr part \<Rightarrow> parse_operands low (merge_route route part) es)"

section \<open>Plans\<close>

record planned_projection =
  pj_sourceName :: string
  pj_field :: field_msg

record query_plan =
  pl_table :: string
  pl_projections :: "planned_projection list"
  pl_route :: access_route

definition plan_fields :: "query_plan \<Rightarrow> field_msg list" where
  "plan_fields p = map pj_field (pl_projections p)"

definition plan_sourceColumns :: "query_plan \<Rightarrow> string list" where
  "plan_sourceColumns p = map pj_sourceName (pl_projections p)"

definition column_projection :: "host_column \<Rightarrow> string \<Rightarrow> planned_projection" where
  "column_projection c outputName =
     \<lparr>pj_sourceName = co_Name c,
      pj_field = \<lparr>f_name = outputName, f_type = co_Type c, f_type_descriptor = co_TypeDescriptor c\<rparr>\<rparr>"

text \<open>\<open>columnByName\<close>: the last column whose name has the lower case.\<close>

definition columnByName :: "unicode \<Rightarrow> host_column list \<Rightarrow> string \<Rightarrow> host_column option" where
  "columnByName low columns name = List.find (\<lambda>c. toLower low (co_Name c) = name) (rev columns)"

definition plan_projection ::
  "unicode \<Rightarrow> string \<Rightarrow> host_column list \<Rightarrow> nat \<Rightarrow> projection option \<Rightarrow> host_plan_err + planned_projection" where
  "plan_projection low table columns index p =
     (case p of
        None \<Rightarrow> Inl (HostProjectionRequired index)
      | Some pr \<Rightarrow>
          if pr_expression pr = None then Inl (HostProjectionRequired index)
          else
            (case field_of (pr_expression pr) of
               None \<Rightarrow> Inl (HostProjectionNotField index)
             | Some name \<Rightarrow>
                 if trimSpace name = [] then Inl (HostProjectionNotField index)
                 else
                   (case columnByName low columns (toLower low name) of
                      None \<Rightarrow> Inl (HostColumnUnknown table name)
                    | Some c \<Rightarrow>
                        Inr (column_projection c
                          (if trimSpace (pr_output_name pr) = [] then co_Name c else trimSpace (pr_output_name pr))))))"

fun plan_projections ::
  "unicode \<Rightarrow> string \<Rightarrow> host_column list \<Rightarrow> nat \<Rightarrow> projection option list \<Rightarrow> host_plan_err + planned_projection list" where
  "plan_projections low table columns index [] = Inr []"
| "plan_projections low table columns index (p # ps) =
     (case plan_projection low table columns index p of
        Inl e \<Rightarrow> Inl e
      | Inr x \<Rightarrow>
          (case plan_projections low table columns (Suc index) ps of Inl e \<Rightarrow> Inl e | Inr xs \<Rightarrow> Inr (x # xs)))"

definition buildPlan :: "unicode \<Rightarrow> unicode \<Rightarrow> query_request \<Rightarrow> host_plan_err + query_plan" where
  "buildPlan up low request =
     (case q_entity request of
        None \<Rightarrow> Inl HostEntityRequired
      | Some entity \<Rightarrow>
          if trimSpace (er_name entity) = [] then Inl HostEntityRequired
          else if trimSpace (er_namespace entity) \<noteq> [] then Inl HostNamespaceUsed
          else if q_order_by request \<noteq> [] \<or> q_limit request \<noteq> None \<or> q_offset request \<noteq> None \<or>
                  q_group_by request \<noteq> [] \<or> q_having request \<noteq> None then Inl HostNotPushed
          else
            (let table = toUpper up (trimSpace (er_name entity)) in
             case Columns up table of
               None \<Rightarrow> Inl (HostTableUnknown (er_name entity))
             | Some columns \<Rightarrow>
                 (case (if q_projections request = [] then Inr (map (\<lambda>c. column_projection c (co_Name c)) columns)
                        else plan_projections low table columns 0 (q_projections request)) of
                    Inl e \<Rightarrow> Inl e
                  | Inr projections \<Rightarrow>
                      (case parseAccessFilter low (q_filter request) of
                         Inl e \<Rightarrow> Inl e
                       | Inr route \<Rightarrow>
                           Inr \<lparr>pl_table = table, pl_projections = projections, pl_route = route\<rparr>))))"

section \<open>Values\<close>

definition host_string :: "string \<Rightarrow> value" where "host_string s = Value (StringValue s)"
definition host_timestamp :: "go_time \<Rightarrow> value" where "host_timestamp t = Value (TimestampValue (format_timestamp t))"
definition host_null :: "value" where "host_null = Value (NullValue (Some ()))"

definition hostname_value :: "string \<Rightarrow> value" where
  "hostname_value h = (if h \<noteq> [] then host_string h else host_null)"

definition hostValues :: "host_snapshot \<Rightarrow> go_time \<Rightarrow> (string \<rightharpoonup> value)" where
  "hostValues snapshot at =
     (let i = hs_Identity snapshot;
          state = (case hs_Session snapshot of Some s \<Rightarrow> if ActiveAt s at then ''online'' else ''offline'' | None \<Rightarrow> ''offline'');
          lastSeen = (case hs_Session snapshot of
                        Some s \<Rightarrow> if \<not> IsZero (se_LastSeenAt s) then host_timestamp (se_LastSeenAt s) else host_null
                      | None \<Rightarrow> host_null)
      in [NamespaceColumn \<mapsto> host_string (hk_Namespace (hi_Key i)), HostIDColumn \<mapsto> host_string (hk_ID (hi_Key i)),
          HostnameColumn \<mapsto> hostname_value (hi_Hostname i), ''state'' \<mapsto> host_string state,
          ''enrolled_at'' \<mapsto> host_timestamp (hi_EnrolledAt i), ''last_seen_at'' \<mapsto> lastSeen])"

fun set_values :: "(string \<rightharpoonup> value) \<Rightarrow> string list \<Rightarrow> value option list \<Rightarrow> (string \<rightharpoonup> value)" where
  "set_values m (c # cs) (v # vs) = set_values (m(c := v)) cs vs"
| "set_values m _ _ = m"

definition agentValues ::
  "unicode \<Rightarrow> string \<Rightarrow> host_identity \<Rightarrow> string list \<Rightarrow> value option list \<Rightarrow> host_row_err + (string \<rightharpoonup> value)" where
  "agentValues up table target columns row =
     (if length row \<noteq> length columns then Inl (HostRowArity table (length row) (length columns))
      else
        (case ValidateValues up table columns row of
           Some e \<Rightarrow> Inl e
         | None \<Rightarrow>
             Inr (set_values
               [NamespaceColumn \<mapsto> host_string (hk_Namespace (hi_Key target)),
                HostIDColumn \<mapsto> host_string (hk_ID (hi_Key target)),
                HostnameColumn \<mapsto> hostname_value (hi_Hostname target)] columns row)))"

fun project_columns :: "(string \<rightharpoonup> value) \<Rightarrow> string list \<Rightarrow> host_row_err + tuple_msg" where
  "project_columns vs [] = Inr []"
| "project_columns vs (c # cs) =
     (case vs c of
        None \<Rightarrow> Inl (ProjectedValueMissing c)
      | Some v \<Rightarrow> (case project_columns vs cs of Inl e \<Rightarrow> Inl e | Inr t \<Rightarrow> Inr (Some v # t)))"

definition projectValues :: "query_plan \<Rightarrow> (string \<rightharpoonup> value) \<Rightarrow> host_row_err + tuple_msg" where
  "projectValues plan vs = project_columns vs (plan_sourceColumns plan)"

section \<open>What a filter means, and what its route keeps\<close>

text \<open>The value of an access column for a host; a hostname that is not known is null.\<close>

definition access_value :: "unicode \<Rightarrow> host_identity \<Rightarrow> string \<Rightarrow> string option" where
  "access_value low i field =
     (if toLower low field = NamespaceColumn then Some (hk_Namespace (hi_Key i))
      else if toLower low field = HostIDColumn then Some (hk_ID (hi_Key i))
      else if toLower low field = HostnameColumn \<and> hi_Hostname i \<noteq> [] then Some (hi_Hostname i)
      else None)"

fun filter_holds :: "unicode \<Rightarrow> host_identity \<Rightarrow> expression option \<Rightarrow> bool" where
  "filter_holds low i None = True"
| "filter_holds low i (Some (ExprComparison operator l r)) =
     (operator = COMPARISON_OPERATOR_EQUAL \<and>
      (case access_equality l r of None \<Rightarrow> False | Some (field, v) \<Rightarrow> access_value low i field = Some v))"
| "filter_holds low i (Some (ExprLogical operator es)) =
     (operator = LOGICAL_OPERATOR_AND \<and> (\<forall>e\<in>set es. filter_holds low i e))"
| "filter_holds low i (Some _) = False"

definition route_admits :: "access_route \<Rightarrow> host_identity \<Rightarrow> bool" where
  "route_admits r i \<longleftrightarrow>
     \<not> ar_impossible r \<and>
     (ar_namespace r = None \<or> ar_namespace r = Some (hk_Namespace (hi_Key i))) \<and>
     (ar_hostID r = None \<or> ar_hostID r = Some (hk_ID (hi_Key i))) \<and>
     (ar_hostname r = None \<or> ar_hostname r = Some (hi_Hostname i))"

definition comparison_or_nil :: "expression option \<Rightarrow> bool" where
  "comparison_or_nil e \<longleftrightarrow> (case e of None \<Rightarrow> True | Some (ExprComparison _ _ _) \<Rightarrow> True | _ \<Rightarrow> False)"

text \<open>A filter without a conjunction below another one.\<close>

definition flat_filter :: "expression option \<Rightarrow> bool" where
  "flat_filter e \<longleftrightarrow>
     comparison_or_nil e \<or> (case e of Some (ExprLogical _ es) \<Rightarrow> list_all comparison_or_nil es | _ \<Rightarrow> False)"

lemma no_route_admits [simp]: "route_admits no_route i"
  by (simp add: route_admits_def no_route_def)

lemma merge_value_admits:
  assumes "mergeAccessValue d c imp = (d', imp')"
  shows "\<not> imp' \<and> (d' = None \<or> d' = Some x) \<longleftrightarrow> \<not> imp \<and> (d = None \<or> d = Some x) \<and> (c = None \<or> c = Some x)"
  using assms by (cases d; cases c) (auto simp: mergeAccessValue_def split: if_splits)

lemma merge_admits_iff:
  assumes "\<not> ar_impossible b"
  shows "route_admits (merge_route a b) i \<longleftrightarrow> route_admits a i \<and> route_admits b i"
proof -
  obtain n i1 where n: "mergeAccessValue (ar_namespace a) (ar_namespace b) (ar_impossible a) = (n, i1)" by fastforce
  obtain h i2 where h: "mergeAccessValue (ar_hostID a) (ar_hostID b) i1 = (h, i2)" by fastforce
  obtain m i3 where m: "mergeAccessValue (ar_hostname a) (ar_hostname b) i2 = (m, i3)" by fastforce
  have eq: "merge_route a b = \<lparr>ar_namespace = n, ar_hostID = h, ar_hostname = m, ar_impossible = i3\<rparr>"
    by (simp add: merge_route_def n h m)
  have "\<not> i3 \<and> (m = None \<or> m = Some (hi_Hostname i)) \<longleftrightarrow>
    \<not> i2 \<and> (ar_hostname a = None \<or> ar_hostname a = Some (hi_Hostname i)) \<and>
    (ar_hostname b = None \<or> ar_hostname b = Some (hi_Hostname i))" by (rule merge_value_admits [OF m])
  moreover have "\<not> i2 \<and> (h = None \<or> h = Some (hk_ID (hi_Key i))) \<longleftrightarrow>
    \<not> i1 \<and> (ar_hostID a = None \<or> ar_hostID a = Some (hk_ID (hi_Key i))) \<and>
    (ar_hostID b = None \<or> ar_hostID b = Some (hk_ID (hi_Key i)))" by (rule merge_value_admits [OF h])
  moreover have "\<not> i1 \<and> (n = None \<or> n = Some (hk_Namespace (hi_Key i))) \<longleftrightarrow>
    \<not> ar_impossible a \<and> (ar_namespace a = None \<or> ar_namespace a = Some (hk_Namespace (hi_Key i))) \<and>
    (ar_namespace b = None \<or> ar_namespace b = Some (hk_Namespace (hi_Key i)))" by (rule merge_value_admits [OF n])
  ultimately show ?thesis unfolding route_admits_def eq access_route.simps using assms by argo
qed

lemma merge_admits: "route_admits a i \<Longrightarrow> route_admits b i \<Longrightarrow> route_admits (merge_route a b) i"
  using merge_admits_iff [of b a i] by (simp add: route_admits_def)

lemma field_route_complete:
  "access_field_route low field v = Inr r \<Longrightarrow> access_value low i field = Some v \<Longrightarrow> route_admits r i"
  by (auto simp: access_field_route_def access_value_def route_admits_def no_route_def split: if_splits)

lemma access_columns_distinct: "distinct [NamespaceColumn, HostIDColumn, HostnameColumn]"
  by code_simp

lemma field_route_exact:
  assumes "access_field_route low field v = Inr r" and "route_admits r i" and "hi_Hostname i \<noteq> []"
  shows "access_value low i field = Some v"
  using assms access_columns_distinct
  by (auto simp: access_field_route_def access_value_def route_admits_def no_route_def split: if_splits)

lemma field_route_possible: "access_field_route low field v = Inr r \<Longrightarrow> \<not> ar_impossible r"
  by (auto simp: access_field_route_def no_route_def split: if_splits)

lemma route_keeps_matches:
  "parseAccessFilter low e = Inr r \<Longrightarrow> filter_holds low i e \<Longrightarrow> route_admits r i"
  "parse_operands low q es = Inr r \<Longrightarrow> route_admits q i \<Longrightarrow> \<forall>e\<in>set es. filter_holds low i e \<Longrightarrow> route_admits r i"
proof (induction low e and low q es arbitrary: r and r rule: parseAccessFilter_parse_operands.induct)
  case (3 low operator l r')
  then show ?case by (auto split: if_splits option.splits intro: field_route_complete)
next
  case (5 low operator es)
  then show ?case by (simp split: if_splits)
next
  case (8 low route e es)
  then show ?case by (auto split: sum.splits intro: merge_admits)
qed simp_all

lemma comparison_route:
  assumes "comparison_or_nil e" and "parseAccessFilter low e = Inr r"
  shows "\<not> ar_impossible r" and "hi_Hostname i \<noteq> [] \<Longrightarrow> route_admits r i \<Longrightarrow> filter_holds low i e"
proof -
  consider "e = None" | operator l q where "e = Some (ExprComparison operator l q)"
    using assms(1) by (auto simp: comparison_or_nil_def split: option.splits expression.splits)
  then have "\<not> ar_impossible r \<and> (hi_Hostname i \<noteq> [] \<longrightarrow> route_admits r i \<longrightarrow> filter_holds low i e)"
  proof cases
    case 1
    then show ?thesis using assms(2) by (auto simp: no_route_def)
  next
    case (2 operator l q)
    then obtain field v where "operator = COMPARISON_OPERATOR_EQUAL" "access_equality l q = Some (field, v)"
      and r: "access_field_route low field v = Inr r"
      using assms(2) by (auto split: if_splits option.splits)
    then show ?thesis using 2 field_route_possible [OF r] field_route_exact [OF r] by simp
  qed
  then show "\<not> ar_impossible r" and "hi_Hostname i \<noteq> [] \<Longrightarrow> route_admits r i \<Longrightarrow> filter_holds low i e" by simp_all
qed

lemma operands_exact:
  assumes "list_all comparison_or_nil es" and "parse_operands low q es = Inr r" and "hi_Hostname i \<noteq> []" and "route_admits r i"
  shows "route_admits q i \<and> (\<forall>e\<in>set es. filter_holds low i e)"
  using assms
proof (induction es arbitrary: q)
  case (Cons e es)
  then obtain part where part: "parseAccessFilter low e = Inr part" "parse_operands low (merge_route q part) es = Inr r"
    by (auto split: sum.splits)
  with Cons have ih: "route_admits (merge_route q part) i" "\<forall>e\<in>set es. filter_holds low i e" by auto
  have "comparison_or_nil e" using Cons.prems by simp
  note c = comparison_route [OF this part(1)]
  from ih(1) c(1) have "route_admits q i" "route_admits part i" by (simp_all add: merge_admits_iff)
  with c(2) ih Cons.prems show ?case by simp
qed simp

text \<open>
  C21: The route of a filter keeps every host for which the filter holds: whatever filter the planner
  accepts, however its conjunctions are nested, a host whose namespace, identifier and
  hostname satisfy it is admitted by the route, so that planning never loses a row.
\<close>

theorem planning_loses_no_host:
  assumes "parseAccessFilter low e = Inr r" and "filter_holds low i e"
  shows "route_admits r i"
  by (rule route_keeps_matches(1) [OF assms])

text \<open>
  For a filter without nested conjunctions the route is exact: it admits a host with a known
  hostname if and only if the filter holds for it, contradictory equalities included.
\<close>

theorem flat_filter_route_exact:
  assumes "flat_filter e" and "parseAccessFilter low e = Inr r" and "hi_Hostname i \<noteq> []"
  shows "route_admits r i \<longleftrightarrow> filter_holds low i e"
proof
  assume adm: "route_admits r i"
  consider "comparison_or_nil e" | operator es where "e = Some (ExprLogical operator es)" "list_all comparison_or_nil es"
    using assms(1) by (auto simp: flat_filter_def split: option.splits expression.splits)
  then show "filter_holds low i e"
  proof cases
    case 1
    then show ?thesis using comparison_route(2) [OF 1 assms(2)] adm assms(3) by simp
  next
    case (2 operator es)
    then have "operator = LOGICAL_OPERATOR_AND" "parse_operands low no_route es = Inr r"
      using assms(2) by (simp_all split: if_splits)
    with operands_exact [OF 2(2) _ assms(3) adm] 2 show ?thesis by simp
  qed
qed (rule route_keeps_matches(1) [OF assms(2)])

definition field_equals :: "string \<Rightarrow> string \<Rightarrow> expression option" where
  "field_equals f v =
     Some (ExprComparison COMPARISON_OPERATOR_EQUAL (Some (ExprField (Some f)))
       (Some (ExprLiteral (Some (Value (StringValue v))) None)))"

definition conjunction :: "expression option list \<Rightarrow> expression option" where
  "conjunction es = Some (ExprLogical LOGICAL_OPERATOR_AND es)"


definition web_identity :: host_identity where
  "web_identity =
     \<lparr>hi_Key = \<lparr>hk_Namespace = ''n'', hk_ID = ''w''\<rparr>, hi_Hostname = ''web'', hi_EnrolledAt = 5, hi_Attributes = None\<rparr>"

definition web_filter :: "expression option" where
  "web_filter = conjunction [field_equals ''Namespace'' ''n'', field_equals ''hostname'' ''web'']"

definition web_route :: access_route where
  "web_route = \<lparr>ar_namespace = Some ''n'', ar_hostID = None, ar_hostname = Some ''web'', ar_impossible = False\<rparr>"

lemma web_filter_route: "parseAccessFilter id web_filter = Inr web_route"
  by code_simp

theorem planning_loses_no_host_witness:
  "filter_holds id web_identity web_filter \<and> route_admits web_route web_identity"
proof -
  have "filter_holds id web_identity web_filter" by code_simp
  from planning_loses_no_host [OF web_filter_route this] this show ?thesis by simp
qed

theorem flat_filter_route_exact_witness:
  "flat_filter web_filter \<and> (route_admits web_route web_identity \<longleftrightarrow> filter_holds id web_identity web_filter)"
proof -
  have f: "flat_filter web_filter" "hi_Hostname web_identity \<noteq> []" by code_simp+
  from flat_filter_route_exact [OF f(1) web_filter_route f(2)] f(1) show ?thesis by blast
qed

end
