(* ===== verification/HostStream.thy ===== *)
theory HostStream
  imports HostPlan QueryServer
begin

text \<open>
  The result streams of the host provider (\<open>providers/host/internal/query/stream.go\<close>): the scan of
  one target (\<open>scanTarget\<close>), the stream that gathers the targets of a query
  (\<open>distributedStream\<close>) and the one over rows that are known (\<open>staticStream\<close>).

  The workers of a distributed stream send their events over one channel. What a \<open>select\<close> of
  \<open>Next\<close> receives is an input of the model: \<open>recv k\<close> is the answer to the \<open>k\<close>-th wait, an event, the
  closed channel, or one of the two contexts being done. Likewise \<open>scan.Next\<close> answers from a
  list, and a scan whose answers have not ended has no result yet (\<open>None\<close>). \<open>texts\<close> are the texts
  of errors, \<open>psize\<close> is \<open>proto.Size\<close> of a row.
\<close>

section \<open>Events of a target\<close>

record target_event =
  te_tuples :: "tuple_msg list"
  te_warnings :: "query_warning list"
  te_failure :: "query_warning option"

record coordinator_config =
  qc_AllowPartialResults :: bool
  qc_AllowUnboundedFanout :: bool
  qc_ScanTimeout :: int
  qc_PreferredBatchRows :: "32 word"
  qc_MaxConcurrentTargets :: int
  qc_MaxRowsPerTarget :: int
  qc_MaxBytesPerTarget :: int

datatype scan_status =
    SCAN_STATUS_UNSPECIFIED | SCAN_STATUS_SUCCEEDED | SCAN_STATUS_FAILED | SCAN_STATUS_CANCELLED
  | SCAN_STATUS_unnamed int

record scan_diagnostic =
  sd_code :: string
  sd_message :: string
  sd_target :: string
  sd_retryable :: bool

record scan_finished =
  sn_scan_id :: string
  sn_status :: scan_status
  sn_diagnostics :: "scan_diagnostic option list"

record scan_batch =
  sb_scan_id :: string
  sb_batch_index :: "64 word"
  sb_rows :: "tuple_msg option list"

record scan_event =
  ev_Batch :: "scan_batch option"
  ev_Finished :: "scan_finished option"

record error_texts =
  tx_gateway :: "gateway_err \<Rightarrow> string"
  tx_row :: "host_row_err \<Rightarrow> string"
  tx_quote :: "string \<Rightarrow> string"

definition targetName :: "host_key \<Rightarrow> string" where
  "targetName key = hk_Namespace key @ ''/'' @ hk_ID key"

definition diagnosticTarget :: "host_key \<Rightarrow> string \<Rightarrow> string" where
  "diagnosticTarget key local =
     (if trimSpace local \<noteq> [] then targetName key @ ''/'' @ trimSpace local else targetName key)"

definition targetFailure :: "host_key \<Rightarrow> string \<Rightarrow> string \<Rightarrow> bool \<Rightarrow> query_warning" where
  "targetFailure key code message retryable =
     \<lparr>w_code = code,
      w_message = (if trimSpace message = [] then ''host target did not complete the scan'' else trimSpace message),
      w_target = targetName key, w_retryable = retryable, w_role = QUERY_DIAGNOSTIC_ROLE_PARTIAL_RESULT_CAUSE\<rparr>"

definition queryWarning :: "host_key \<Rightarrow> scan_diagnostic option \<Rightarrow> query_diagnostic_role \<Rightarrow> query_warning" where
  "queryWarning key diagnostic role =
     (case diagnostic of
        None \<Rightarrow>
          \<lparr>w_code = [], w_message = ''agent returned an empty diagnostic'', w_target = targetName key,
           w_retryable = False, w_role = role\<rparr>
      | Some d \<Rightarrow>
          \<lparr>w_code = trimSpace (sd_code d),
           w_message = (if trimSpace (sd_message d) = [] then ''agent reported a host scan diagnostic''
                        else trimSpace (sd_message d)),
           w_target = diagnosticTarget key (sd_target d), w_retryable = sd_retryable d, w_role = role\<rparr>)"

definition firstDiagnostic :: "scan_diagnostic option list \<Rightarrow> scan_diagnostic option" where
  "firstDiagnostic ds =
     (case List.find (\<lambda>d. case d of None \<Rightarrow> False | Some x \<Rightarrow> trimSpace (sd_message x) \<noteq> []) ds of
        None \<Rightarrow> None | Some d \<Rightarrow> d)"

definition failureFromCompletion :: "host_key \<Rightarrow> scan_finished \<Rightarrow> query_warning" where
  "failureFromCompletion key finished =
     (case firstDiagnostic (sn_diagnostics finished) of
        Some d \<Rightarrow> queryWarning key (Some d) QUERY_DIAGNOSTIC_ROLE_PARTIAL_RESULT_CAUSE
      | None \<Rightarrow>
          if sn_status finished = SCAN_STATUS_CANCELLED
          then targetFailure key ''HOST_SCAN_CANCELLED'' ''agent cancelled the host scan'' True
          else targetFailure key ''HOST_SCAN_FAILED'' ''agent failed the host scan'' True)"

definition dispatchFailure :: "error_texts \<Rightarrow> host_key \<Rightarrow> gateway_err \<Rightarrow> query_warning" where
  "dispatchFailure texts key err =
     (case err of
        ErrSessionBusy \<Rightarrow> targetFailure key ''HOST_TARGET_BUSY'' (tx_gateway texts err) True
      | ErrSessionClosed \<Rightarrow> targetFailure key ''HOST_TARGET_DISCONNECTED'' (tx_gateway texts err) True
      | _ \<Rightarrow> targetFailure key ''HOST_TARGET_UNAVAILABLE'' (tx_gateway texts err) True)"

definition scanFailure :: "error_texts \<Rightarrow> host_key \<Rightarrow> gateway_err \<Rightarrow> query_warning" where
  "scanFailure texts key err =
     (case err of
        GatewayContext ContextDeadlineExceeded \<Rightarrow>
          targetFailure key ''HOST_SCAN_TIMEOUT'' ''host scan exceeded its deadline'' True
      | ErrSessionClosed \<Rightarrow> targetFailure key ''HOST_TARGET_DISCONNECTED'' (tx_gateway texts err) True
      | ErrScanRetired \<Rightarrow> targetFailure key ''HOST_SCAN_CANCELLED'' (tx_gateway texts err) True
      | _ \<Rightarrow> targetFailure key ''HOST_SCAN_INTERRUPTED'' (tx_gateway texts err) True)"

section \<open>The scan of one target\<close>

definition failed_event :: "query_warning \<Rightarrow> target_event" where
  "failed_event f = \<lparr>te_tuples = [], te_warnings = [], te_failure = Some f\<rparr>"

text \<open>Some failures of the results of an agent.\<close>

definition invalid_result :: "host_key \<Rightarrow> string \<Rightarrow> query_warning" where
  "invalid_result key message = targetFailure key ''INVALID_HOST_RESULT'' message False"

definition limit_exceeded :: "host_key \<Rightarrow> string \<Rightarrow> int \<Rightarrow> query_warning" where
  "limit_exceeded key what limit =
     targetFailure key ''HOST_RESULT_LIMIT_EXCEEDED''
       (''host scan exceeded the per-target '' @ what @ '' limit of '' @
          (if limit < 0 then ''-'' @ decimal (nat (- limit)) else decimal (nat limit))) False"

fun buffer_rows ::
  "coordinator_config \<Rightarrow> (tuple_msg \<Rightarrow> nat) \<Rightarrow> host_key \<Rightarrow> tuple_msg list \<Rightarrow> int \<Rightarrow> tuple_msg option list \<Rightarrow>
   query_warning + tuple_msg list \<times> int" where
  "buffer_rows cfg psize key rows bytes [] = Inr (rows, bytes)"
| "buffer_rows cfg psize key rows bytes (r # rs) =
     (case r of
        None \<Rightarrow> Inl (invalid_result key ''agent returned a nil host row'')
      | Some row \<Rightarrow>
          (let total = bytes + int (psize row) in
           if total > qc_MaxBytesPerTarget cfg then Inl (limit_exceeded key ''byte'' (qc_MaxBytesPerTarget cfg))
           else buffer_rows cfg psize key (rows @ [row]) total rs))"

text \<open>The rows are projected in order; the tuples of the rows before an invalid one stay in the event.\<close>

fun project_rows ::
  "unicode \<Rightarrow> error_texts \<Rightarrow> query_plan \<Rightarrow> host_identity \<Rightarrow> string list \<Rightarrow> tuple_msg list \<Rightarrow>
   tuple_msg list \<times> query_warning option" where
  "project_rows up texts plan target columns [] = ([], None)"
| "project_rows up texts plan target columns (row # rows) =
     (case agentValues up (pl_table plan) target columns row of
        Inl e \<Rightarrow> ([], Some (invalid_result (hi_Key target) (tx_row texts e)))
      | Inr vs \<Rightarrow>
          (case projectValues plan vs of
             Inl e \<Rightarrow> ([], Some (invalid_result (hi_Key target) (tx_row texts e)))
           | Inr t \<Rightarrow>
               (case project_rows up texts plan target columns rows of
                  (ts, failure) \<Rightarrow> (t # ts, failure))))"

definition finished_event ::
  "unicode \<Rightarrow> error_texts \<Rightarrow> query_plan \<Rightarrow> host_identity \<Rightarrow> string list \<Rightarrow> tuple_msg list \<Rightarrow> scan_finished \<Rightarrow> target_event" where
  "finished_event up texts plan target columns rows finished =
     (case sn_status finished of
        SCAN_STATUS_SUCCEEDED \<Rightarrow>
          if SingletonPerHost up (pl_table plan) \<and> length rows \<noteq> 1
          then failed_event (invalid_result (hi_Key target)
                 (''agent returned '' @ decimal (length rows) @ '' '' @ pl_table plan @ '' rows, want 1''))
          else
            (case project_rows up texts plan target columns rows of
               (tuples, Some f) \<Rightarrow> \<lparr>te_tuples = tuples, te_warnings = [], te_failure = Some f\<rparr>
             | (tuples, None) \<Rightarrow>
                 \<lparr>te_tuples = tuples,
                  te_warnings = map (\<lambda>d. queryWarning (hi_Key target) d QUERY_DIAGNOSTIC_ROLE_WARNING)
                                  (sn_diagnostics finished),
                  te_failure = None\<rparr>)
      | SCAN_STATUS_FAILED \<Rightarrow> failed_event (failureFromCompletion (hi_Key target) finished)
      | SCAN_STATUS_CANCELLED \<Rightarrow> failed_event (failureFromCompletion (hi_Key target) finished)
      | _ \<Rightarrow> failed_event (invalid_result (hi_Key target) ''agent returned an unspecified scan status''))"

text \<open>The loop over the answers of the scan, with whether the scan is over; otherwise it is cancelled.\<close>

fun scan_loop ::
  "unicode \<Rightarrow> error_texts \<Rightarrow> (tuple_msg \<Rightarrow> nat) \<Rightarrow> coordinator_config \<Rightarrow> query_plan \<Rightarrow> host_identity \<Rightarrow> string list \<Rightarrow>
   tuple_msg list \<Rightarrow> int \<Rightarrow> (gateway_err + scan_event) list \<Rightarrow> (target_event \<times> bool) option" where
  "scan_loop up texts psize cfg plan target columns rows bytes [] = None"
| "scan_loop up texts psize cfg plan target columns rows bytes (answer # answers) =
     (case answer of
        Inl err \<Rightarrow> Some (failed_event (scanFailure texts (hi_Key target) err), False)
      | Inr ev \<Rightarrow>
          (case ev_Batch ev of
             Some b \<Rightarrow>
               if int (length rows + length (sb_rows b)) > qc_MaxRowsPerTarget cfg
               then Some (failed_event (limit_exceeded (hi_Key target) ''row'' (qc_MaxRowsPerTarget cfg)), False)
               else
                 (case buffer_rows cfg psize (hi_Key target) rows bytes (sb_rows b) of
                    Inl f \<Rightarrow> Some (failed_event f, False)
                  | Inr (rows', bytes') \<Rightarrow>
                      scan_loop up texts psize cfg plan target columns rows' bytes' answers)
           | None \<Rightarrow>
               (case ev_Finished ev of
                  None \<Rightarrow> Some (failed_event (invalid_result (hi_Key target) ''agent returned an empty scan event''), False)
                | Some finished \<Rightarrow> Some (finished_event up texts plan target columns rows finished, True))))"

definition scanTarget ::
  "unicode \<Rightarrow> error_texts \<Rightarrow> (tuple_msg \<Rightarrow> nat) \<Rightarrow> coordinator_config \<Rightarrow> query_plan \<Rightarrow> host_snapshot \<Rightarrow>
   gateway_err option \<Rightarrow> (gateway_err + scan_event) list \<Rightarrow> (target_event \<times> bool) option" where
  "scanTarget up texts psize cfg plan target dispatch answers =
     (case dispatch of
        Some err \<Rightarrow> Some (failed_event (dispatchFailure texts (hi_Key (hs_Identity target)) err), True)
      | None \<Rightarrow>
          (case LocalColumns up (pl_table plan) of
             None \<Rightarrow>
               Some (failed_event (invalid_result (hi_Key (hs_Identity target))
                       (''host table '' @ tx_quote texts (pl_table plan) @ '' has no local scan columns'')), False)
           | Some columns \<Rightarrow> scan_loop up texts psize cfg plan (hs_Identity target) columns [] 0 answers))"

section \<open>The stream over the targets\<close>

datatype selected = SelEvent target_event | SelClosed | SelCaller context_err | SelStream context_err

record distributed =
  ds_fields :: "field_msg list"
  ds_batchSize :: nat
  ds_remaining :: nat
  ds_pending :: "tuple_msg list"
  ds_warnings :: "query_warning list"
  ds_partial :: bool
  ds_outcome :: "query_outcome option"
  ds_terminalErr :: "go_error option"
  ds_closed :: bool
  ds_acceptOutcome :: bool
  ds_allowPartial :: bool
  ds_cancelled :: bool
  ds_waits :: nat
  ds_calls :: nat

definition defaultBatchSize :: nat where "defaultBatchSize = 128"

definition queryBatchSize :: "query_request \<Rightarrow> nat" where
  "queryBatchSize request =
     (case q_batch_size request of
        None \<Rightarrow> defaultBatchSize
      | Some n \<Rightarrow> if n = 0 then defaultBatchSize else unat n)"

definition newDistributedStream :: "query_request \<Rightarrow> query_plan \<Rightarrow> nat \<Rightarrow> distributed" where
  "newDistributedStream request plan targets =
     \<lparr>ds_fields = plan_fields plan, ds_batchSize = queryBatchSize request, ds_remaining = targets, ds_pending = [],
      ds_warnings = [], ds_partial = False, ds_outcome = None, ds_terminalErr = None, ds_closed = False,
      ds_acceptOutcome = q_accept_outcome request, ds_allowPartial = q_allow_partial_results request,
      ds_cancelled = False, ds_waits = 0, ds_calls = 0\<rparr>"

definition warning_key :: "query_warning \<Rightarrow> string \<times> string \<times> string" where
  "warning_key w = (w_target w, w_code w, w_message w)"

definition finishOutcome :: "distributed \<Rightarrow> distributed" where
  "finishOutcome s =
     (if ds_outcome s \<noteq> None then s
      else
        (let warnings = sort_key warning_key (ds_warnings s) in
         s\<lparr>ds_warnings := warnings,
           ds_outcome := Some \<lparr>o_completion = (if ds_partial s then QUERY_COMPLETION_PARTIAL else QUERY_COMPLETION_COMPLETE),
                               o_warnings = map Some warnings\<rparr>\<rparr>))"

text \<open>The stream after an event, with the error that ends the query, if any.\<close>

definition fail_stream :: "go_error \<Rightarrow> distributed \<Rightarrow> distributed" where
  "fail_stream e s = s\<lparr>ds_terminalErr := Some e, ds_cancelled := True\<rparr>"

definition accept_event :: "target_event \<Rightarrow> distributed \<Rightarrow> go_error option \<times> distributed" where
  "accept_event ev s0 =
     (let s = s0\<lparr>ds_remaining := ds_remaining s0 - 1\<rparr> in
      case te_failure ev of
        Some f \<Rightarrow>
          if \<not> ds_allowPartial s
          then (let e = Status Unavailable (HostReason (HostTargetFailed (w_target f) (w_message f))) in
                (Some e, fail_stream e s))
          else
            (let s1 = s\<lparr>ds_partial := True, ds_warnings := ds_warnings s @ [f]\<rparr> in
             if te_warnings ev \<noteq> [] \<and> \<not> ds_acceptOutcome s1
             then (let e = Status FailedPrecondition (HostReason HostWarningsNotAccepted) in (Some e, fail_stream e s1))
             else (None, s1\<lparr>ds_warnings := ds_warnings s1 @ te_warnings ev, ds_pending := ds_pending s1 @ te_tuples ev\<rparr>))
      | None \<Rightarrow>
          if te_warnings ev \<noteq> [] \<and> \<not> ds_acceptOutcome s
          then (let e = Status FailedPrecondition (HostReason HostWarningsNotAccepted) in (Some e, fail_stream e s))
          else (None, s\<lparr>ds_warnings := ds_warnings s @ te_warnings ev, ds_pending := ds_pending s @ te_tuples ev\<rparr>))"

lemma accept_event_remaining: "ds_remaining (snd (accept_event ev s)) = ds_remaining s - 1"
  by (simp add: accept_event_def fail_stream_def Let_def split: option.splits)

function next_loop ::
  "(nat \<Rightarrow> selected) \<Rightarrow> distributed \<Rightarrow> (tuple_batch option \<times> go_error option) \<times> distributed" where
  "next_loop recv s =
     (if ds_pending s \<noteq> [] then
        (let count = min (ds_batchSize s) (length (ds_pending s)) in
         ((Some \<lparr>b_fields = map Some (ds_fields s), b_tuples = map Some (take count (ds_pending s))\<rparr>, None),
          s\<lparr>ds_pending := drop count (ds_pending s)\<rparr>))
      else if ds_remaining s = 0 then ((None, Some EOF), finishOutcome s)
      else
        (let s1 = s\<lparr>ds_waits := Suc (ds_waits s)\<rparr> in
         case recv (ds_waits s) of
           SelCaller e \<Rightarrow> ((None, Some (Plain (HostReason (HostContext e)))), s1)
         | SelStream e \<Rightarrow> ((None, Some (Plain (HostReason (HostContext e)))), s1)
         | SelClosed \<Rightarrow> ((None, Some EOF), finishOutcome (s1\<lparr>ds_remaining := 0\<rparr>))
         | SelEvent ev \<Rightarrow>
             (case accept_event ev s1 of
                (Some e, s2) \<Rightarrow> ((None, Some e), s2)
              | (None, s2) \<Rightarrow> next_loop recv s2)))"
  by auto

termination
proof (relation "measure (ds_remaining \<circ> snd)")
  fix recv s x ev e s2
  assume "\<not> ds_remaining s = 0" and "x = s\<lparr>ds_waits := Suc (ds_waits s)\<rparr>" and "(e, s2) = accept_event ev x"
  moreover from this have "ds_remaining s2 = ds_remaining x - 1" using accept_event_remaining [of ev x] by (metis snd_conv)
  ultimately show "((recv, s2), recv, s) \<in> measure (ds_remaining \<circ> snd)" by simp
qed simp

declare next_loop.simps [simp del]

text \<open>\<open>check k\<close> is what the context of the \<open>k\<close>-th call of \<open>Next\<close> answers.\<close>

definition distributed_Next ::
  "context_checks \<Rightarrow> (nat \<Rightarrow> selected) \<Rightarrow> distributed \<Rightarrow> (tuple_batch option \<times> go_error option) \<times> distributed" where
  "distributed_Next check recv s0 =
     (let s = s0\<lparr>ds_calls := Suc (ds_calls s0)\<rparr> in
      case check (ds_calls s0) of
        Some e \<Rightarrow> ((None, Some (Plain (HostReason (HostContext e)))), s)
      | None \<Rightarrow>
          if ds_closed s then ((None, Some EOF), s)
          else
            (case ds_terminalErr s of
               Some e \<Rightarrow> ((None, Some e), s)
             | None \<Rightarrow> next_loop recv s))"

definition distributed_Close :: "distributed \<Rightarrow> go_error option \<times> distributed" where
  "distributed_Close s = (None, if ds_closed s then s else s\<lparr>ds_closed := True, ds_cancelled := True\<rparr>)"

definition distributedStream :: "context_checks \<Rightarrow> (nat \<Rightarrow> selected) \<Rightarrow> distributed result_stream" where
  "distributedStream check recv =
     \<lparr>rs_next = distributed_Next check recv, rs_close = distributed_Close, rs_outcome = Some (\<lambda>s. (ds_outcome s, s))\<rparr>"

section \<open>The stream over known rows\<close>

record static_stream =
  st_fields :: "field_msg list"
  st_tuples :: "tuple_msg list"
  st_batchSize :: nat
  st_index :: nat
  st_closed :: bool
  st_calls :: nat

definition newStaticStream :: "field_msg list \<Rightarrow> tuple_msg list \<Rightarrow> nat \<Rightarrow> static_stream" where
  "newStaticStream fs tuples batchSize =
     \<lparr>st_fields = fs, st_tuples = tuples, st_batchSize = batchSize, st_index = 0, st_closed = False, st_calls = 0\<rparr>"

definition static_Next ::
  "context_checks \<Rightarrow> static_stream \<Rightarrow> (tuple_batch option \<times> go_error option) \<times> static_stream" where
  "static_Next check s0 =
     (let s = s0\<lparr>st_calls := Suc (st_calls s0)\<rparr> in
      case check (st_calls s0) of
        Some e \<Rightarrow> ((None, Some (Plain (HostReason (HostContext e)))), s)
      | None \<Rightarrow>
          if st_closed s \<or> st_index s \<ge> length (st_tuples s) then ((None, Some EOF), s)
          else
            (let stop = min (st_index s + st_batchSize s) (length (st_tuples s)) in
             ((Some \<lparr>b_fields = map Some (st_fields s),
                     b_tuples = map Some (take (stop - st_index s) (drop (st_index s) (st_tuples s)))\<rparr>, None),
              s\<lparr>st_index := stop\<rparr>)))"

definition complete :: query_outcome where
  "complete = \<lparr>o_completion = QUERY_COMPLETION_COMPLETE, o_warnings = []\<rparr>"

definition static_Close :: "static_stream \<Rightarrow> go_error option \<times> static_stream" where
  "static_Close s = (None, s\<lparr>st_closed := True, st_tuples := []\<rparr>)"

definition staticStream :: "context_checks \<Rightarrow> static_stream result_stream" where
  "staticStream check =
     \<lparr>rs_next = static_Next check, rs_close = static_Close, rs_outcome = Some (\<lambda>s. (Some complete, s))\<rparr>"

section \<open>What the streams deliver\<close>

text \<open>A run of batches with the given fields, none empty and none larger than the batch size.\<close>

definition batches_of :: "field_msg list \<Rightarrow> nat \<Rightarrow> tuple_msg list \<Rightarrow> tuple_batch list \<Rightarrow> bool" where
  "batches_of fs n ts bs \<longleftrightarrow>
     concat (map b_tuples bs) = map Some ts \<and>
     (\<forall>b\<in>set bs. b_fields b = map Some fs \<and> b_tuples b \<noteq> [] \<and> length (b_tuples b) \<le> n)"

lemma batches_of_Nil: "batches_of fs n [] []"
  by (simp add: batches_of_def)

lemma batches_of_subset:
  assumes "batches_of fs n ts bs" and "b \<in> set bs"
  shows "set (b_tuples b) \<subseteq> Some ` set ts"
proof -
  have "set (b_tuples b) \<subseteq> set (concat (map b_tuples bs))" using assms(2) by auto
  also have "\<dots> = Some ` set ts" using assms(1) unfolding batches_of_def by (simp only: set_map)
  finally show ?thesis .
qed

lemma batches_of_append: "batches_of fs n ts bs \<Longrightarrow> batches_of fs n us cs \<Longrightarrow> batches_of fs n (ts @ us) (bs @ cs)"
  by (auto simp: batches_of_def)

lemma batches_of_Cons:
  assumes "ts \<noteq> []" and "n > 0" and "batches_of fs n (drop (min n (length ts)) ts) bs"
  shows "batches_of fs n ts (\<lparr>b_fields = map Some fs, b_tuples = map Some (take (min n (length ts)) ts)\<rparr> # bs)"
  using assms by (auto simp: batches_of_def simp flip: map_append)

lemma static_yields:
  assumes check: "\<And>k. check k = None" and n: "st_batchSize s > 0" and open_stream: "\<not> st_closed s"
  shows "\<exists>bs s'. yields (staticStream check) s bs EOF s' \<and>
    batches_of (st_fields s) (st_batchSize s) (drop (st_index s) (st_tuples s)) bs"
  using n open_stream
proof (induction "length (st_tuples s) - st_index s" arbitrary: s rule: less_induct)
  case less
  show ?case
  proof (cases "st_index s \<ge> length (st_tuples s)")
    case True
    then have "yields (staticStream check) s [] EOF (s\<lparr>st_calls := Suc (st_calls s)\<rparr>)"
      using check less.prems by (simp add: staticStream_def static_Next_def)
    with True show ?thesis by (metis batches_of_Nil drop_all)
  next
    case False
    let ?ts = "drop (st_index s) (st_tuples s)" and ?n = "st_batchSize s"
    let ?stop = "min (st_index s + ?n) (length (st_tuples s))"
    let ?s = "s\<lparr>st_calls := Suc (st_calls s), st_index := ?stop\<rparr>"
    let ?b = "\<lparr>b_fields = map Some (st_fields s), b_tuples = map Some (take (min ?n (length ?ts)) ?ts)\<rparr>"
    have stop: "?stop - st_index s = min ?n (length ?ts)" using False by auto
    have next_batch: "rs_next (staticStream check) s = ((Some ?b, None), ?s)"
      using check less.prems False stop by (simp add: staticStream_def static_Next_def)
    have "length (st_tuples ?s) - st_index ?s < length (st_tuples s) - st_index s" using False less.prems by auto
    from less.hyps [OF this] less.prems obtain bs s' where ih: "yields (staticStream check) ?s bs EOF s'"
      "batches_of (st_fields s) ?n (drop ?stop (st_tuples s)) bs" by auto
    have "drop ?stop (st_tuples s) = drop (min ?n (length ?ts)) ?ts"
      using False stop by (simp add: add.commute min_def)
    with ih(2) False less.prems have "batches_of (st_fields s) ?n ?ts (?b # bs)" by (intro batches_of_Cons) simp_all
    moreover have "yields (staticStream check) s (?b # bs) EOF s'" using next_batch ih(1) by simp
    ultimately show ?thesis by blast
  qed
qed

subsection \<open>Gathering the events\<close>

text \<open>An event that ends a query: a failure of a strict query, or warnings that are not accepted.\<close>

definition fatal :: "bool \<Rightarrow> bool \<Rightarrow> target_event \<Rightarrow> go_error option" where
  "fatal allowPartial acceptOutcome ev =
     (case te_failure ev of
        Some f \<Rightarrow>
          if \<not> allowPartial then Some (Status Unavailable (HostReason (HostTargetFailed (w_target f) (w_message f))))
          else if te_warnings ev \<noteq> [] \<and> \<not> acceptOutcome
          then Some (Status FailedPrecondition (HostReason HostWarningsNotAccepted)) else None
      | None \<Rightarrow>
          if te_warnings ev \<noteq> [] \<and> \<not> acceptOutcome
          then Some (Status FailedPrecondition (HostReason HostWarningsNotAccepted)) else None)"

definition event_warnings :: "target_event \<Rightarrow> query_warning list" where
  "event_warnings ev = (case te_failure ev of None \<Rightarrow> [] | Some f \<Rightarrow> [f]) @ te_warnings ev"

definition live :: "distributed \<Rightarrow> bool" where
  "live s \<longleftrightarrow> \<not> ds_closed s \<and> ds_terminalErr s = None \<and> ds_outcome s = None \<and> ds_batchSize s > 0"

lemma accept_event_good:
  assumes "fatal (ds_allowPartial s) (ds_acceptOutcome s) ev = None"
  shows "accept_event ev s =
    (None, s\<lparr>ds_remaining := ds_remaining s - 1, ds_partial := (ds_partial s \<or> te_failure ev \<noteq> None),
             ds_warnings := ds_warnings s @ event_warnings ev, ds_pending := ds_pending s @ te_tuples ev\<rparr>)"
  using assms by (auto simp: accept_event_def fatal_def event_warnings_def Let_def split: option.splits if_splits)

lemma accept_event_fatal:
  assumes "fatal (ds_allowPartial s) (ds_acceptOutcome s) ev = Some e"
  shows "\<exists>s'. accept_event ev s = (Some e, s') \<and> ds_outcome s' = ds_outcome s \<and> ds_terminalErr s' = Some e"
  using assms by (auto simp: accept_event_def fatal_def fail_stream_def Let_def split: option.splits if_splits)

lemma drain_pending:
  assumes check: "\<And>k. check k = None" and "live s"
  shows "\<exists>bs c. batches_of (ds_fields s) (ds_batchSize s) (ds_pending s) bs \<and>
    (\<forall>cs e s'. yields (distributedStream check recv) (s\<lparr>ds_pending := [], ds_calls := c\<rparr>) cs e s' \<longrightarrow>
       yields (distributedStream check recv) s (bs @ cs) e s')"
  using assms(2)
proof (induction "length (ds_pending s)" arbitrary: s rule: less_induct)
  case less
  show ?case
  proof (cases "ds_pending s = []")
    case True
    then have "s\<lparr>ds_pending := [], ds_calls := ds_calls s\<rparr> = s" by simp
    with True show ?thesis
      by (intro exI [of _ "[]"] exI [of _ "ds_calls s"]) (simp only: batches_of_Nil append_Nil simp_thms)
  next
    case False
    let ?count = "min (ds_batchSize s) (length (ds_pending s))"
    let ?s = "s\<lparr>ds_calls := Suc (ds_calls s), ds_pending := drop ?count (ds_pending s)\<rparr>"
    let ?b = "\<lparr>b_fields = map Some (ds_fields s), b_tuples = map Some (take ?count (ds_pending s))\<rparr>"
    have step: "rs_next (distributedStream check recv) s = ((Some ?b, None), ?s)"
      using check less.prems False
      by (simp add: distributedStream_def distributed_Next_def next_loop.simps live_def Let_def)
    have "length (ds_pending ?s) < length (ds_pending s)" using False less.prems by (simp add: live_def)
    moreover have "live ?s" using less.prems by (simp add: live_def)
    ultimately obtain bs c where ih: "batches_of (ds_fields s) (ds_batchSize s) (drop ?count (ds_pending s)) bs"
      "\<forall>cs e s'. yields (distributedStream check recv) (?s\<lparr>ds_pending := [], ds_calls := c\<rparr>) cs e s' \<longrightarrow>
         yields (distributedStream check recv) ?s (bs @ cs) e s'"
      using less.hyps [of ?s] by auto
    have "batches_of (ds_fields s) (ds_batchSize s) (ds_pending s) (?b # bs)"
      using False less.prems ih(1) by (intro batches_of_Cons) (simp_all add: live_def)
    moreover have "yields (distributedStream check recv) s ((?b # bs) @ cs) e s'"
      if "yields (distributedStream check recv) (s\<lparr>ds_pending := [], ds_calls := c\<rparr>) cs e s'" for cs e s'
      using that ih(2) step by simp
    ultimately show ?thesis by blast
  qed
qed

lemma yields_accept:
  assumes "check (ds_calls s) = None" and "live s" and "ds_pending s = []" and "ds_remaining s > 0"
    and "recv (ds_waits s) = SelEvent ev"
    and acc: "accept_event ev (s\<lparr>ds_waits := Suc (ds_waits s)\<rparr>) = (None, s2)"
  shows "rs_next (distributedStream check recv) s = rs_next (distributedStream check recv) s2"
proof -
  have eq: "accept_event ev (s\<lparr>ds_calls := c, ds_waits := w\<rparr>) =
      apsnd (\<lambda>t. t\<lparr>ds_calls := c\<rparr>) (accept_event ev (s\<lparr>ds_waits := w\<rparr>))" for c w
    by (auto simp: accept_event_def fail_stream_def Let_def split: option.splits)
  have same: "ds_calls s2 = ds_calls s" "ds_closed s2 = ds_closed s" "ds_terminalErr s2 = ds_terminalErr s"
    using acc by (auto simp: accept_event_def fail_stream_def Let_def split: option.splits if_splits)
  have "accept_event ev (s\<lparr>ds_calls := Suc (ds_calls s), ds_waits := Suc (ds_waits s)\<rparr>) =
      (None, s2\<lparr>ds_calls := Suc (ds_calls s)\<rparr>)"
    using eq [of "Suc (ds_waits s)" "Suc (ds_calls s)"] acc by simp
  then have "next_loop recv (s\<lparr>ds_calls := Suc (ds_calls s)\<rparr>) = next_loop recv (s2\<lparr>ds_calls := Suc (ds_calls s)\<rparr>)"
    using assms(3,4,5) by (subst next_loop.simps) (simp add: Let_def)
  with assms(1,2) same show ?thesis by (simp add: distributedStream_def distributed_Next_def live_def Let_def)
qed

text \<open>The stream over a list of events that all arrive.\<close>

lemma gather:
  assumes check: "\<And>k. check k = None"
    and "live s" and "ds_remaining s = length evs" and "\<And>k. k < length evs \<Longrightarrow> recv (ds_waits s + k) = SelEvent (evs ! k)"
    and "\<forall>ev\<in>set evs. fatal (ds_allowPartial s) (ds_acceptOutcome s) ev = None"
  shows "\<exists>bs s'. yields (distributedStream check recv) s bs EOF s' \<and>
    batches_of (ds_fields s) (ds_batchSize s) (ds_pending s @ concat (map te_tuples evs)) bs \<and>
    ds_outcome s' = Some \<lparr>o_completion = (if ds_partial s \<or> (\<exists>ev\<in>set evs. te_failure ev \<noteq> None)
                                         then QUERY_COMPLETION_PARTIAL else QUERY_COMPLETION_COMPLETE),
                          o_warnings = map Some (sort_key warning_key (ds_warnings s @ concat (map event_warnings evs)))\<rparr>"
  using assms(2-5)
proof (induction evs arbitrary: s)
  case Nil
  obtain bs c where bs: "batches_of (ds_fields s) (ds_batchSize s) (ds_pending s) bs"
    and go: "\<And>cs e s'. yields (distributedStream check recv) (s\<lparr>ds_pending := [], ds_calls := c\<rparr>) cs e s' \<Longrightarrow>
       yields (distributedStream check recv) s (bs @ cs) e s'"
    using drain_pending [where check = check and recv = recv, OF check Nil(1)] by blast
  let ?s = "finishOutcome (s\<lparr>ds_pending := [], ds_calls := Suc c\<rparr>)"
  have "yields (distributedStream check recv) (s\<lparr>ds_pending := [], ds_calls := c\<rparr>) [] EOF ?s"
    using Nil check by (simp add: distributedStream_def distributed_Next_def live_def Let_def next_loop.simps)
  from go [OF this] bs Nil show ?case
    by (intro exI [of _ bs] exI [of _ ?s]) (simp add: finishOutcome_def live_def Let_def)
next
  case (Cons ev evs)
  obtain bs c where bs: "batches_of (ds_fields s) (ds_batchSize s) (ds_pending s) bs"
    and go: "\<And>cs e s'. yields (distributedStream check recv) (s\<lparr>ds_pending := [], ds_calls := c\<rparr>) cs e s' \<Longrightarrow>
       yields (distributedStream check recv) s (bs @ cs) e s'"
    using drain_pending [where check = check and recv = recv, OF check Cons.prems(1)] by blast
  let ?s = "s\<lparr>ds_pending := [], ds_calls := c\<rparr>"
  let ?s2 = "?s\<lparr>ds_waits := Suc (ds_waits s), ds_remaining := length evs,
    ds_partial := (ds_partial s \<or> te_failure ev \<noteq> None), ds_warnings := ds_warnings s @ event_warnings ev,
    ds_pending := te_tuples ev\<rparr>"
  have acc: "accept_event ev (?s\<lparr>ds_waits := Suc (ds_waits ?s)\<rparr>) = (None, ?s2)"
    using Cons.prems by (subst accept_event_good) simp_all
  have "rs_next (distributedStream check recv) ?s = rs_next (distributedStream check recv) ?s2"
    using Cons.prems(1,2) Cons.prems(3) [of 0] check by (intro yields_accept [OF _ _ _ _ _ acc]) (simp_all add: live_def)
  then have same: "yields (distributedStream check recv) ?s cs e s' = yields (distributedStream check recv) ?s2 cs e s'" for cs e s'
    by (cases cs) simp_all
  have "live ?s2" "ds_remaining ?s2 = length evs" using Cons.prems by (simp_all add: live_def)
  moreover have "recv (ds_waits ?s2 + k) = SelEvent (evs ! k)" if "k < length evs" for k
    using Cons.prems(3) [of "Suc k"] that by simp
  moreover have "\<forall>ev\<in>set evs. fatal (ds_allowPartial ?s2) (ds_acceptOutcome ?s2) ev = None" using Cons.prems by simp
  ultimately obtain cs s' where ih: "yields (distributedStream check recv) ?s2 cs EOF s'"
    "batches_of (ds_fields s) (ds_batchSize s) (te_tuples ev @ concat (map te_tuples evs)) cs"
    "ds_outcome s' = Some \<lparr>o_completion = (if (ds_partial s \<or> te_failure ev \<noteq> None) \<or> (\<exists>ev\<in>set evs. te_failure ev \<noteq> None)
                                         then QUERY_COMPLETION_PARTIAL else QUERY_COMPLETION_COMPLETE),
        o_warnings = map Some (sort_key warning_key ((ds_warnings s @ event_warnings ev) @ concat (map event_warnings evs)))\<rparr>"
    using Cons.IH [of ?s2] by auto
  have "yields (distributedStream check recv) s (bs @ cs) EOF s'" using go same ih(1) by simp
  with batches_of_append [OF bs ih(2)] ih(3) show ?case by (intro exI [of _ "bs @ cs"] exI [of _ s']) simp
qed

text \<open>The stream when one of the events ends the query.\<close>

lemma gather_fatal:
  assumes check: "\<And>k. check k = None"
    and "live s" and "ds_remaining s > length evs" and "\<And>k. k \<le> length evs \<Longrightarrow> recv (ds_waits s + k) = SelEvent ((evs @ [bad]) ! k)"
    and "\<forall>ev\<in>set evs. fatal (ds_allowPartial s) (ds_acceptOutcome s) ev = None"
    and "fatal (ds_allowPartial s) (ds_acceptOutcome s) bad = Some err"
  shows "\<exists>bs s'. yields (distributedStream check recv) s bs err s' \<and>
    batches_of (ds_fields s) (ds_batchSize s) (ds_pending s @ concat (map te_tuples evs)) bs \<and> ds_outcome s' = None"
  using assms(2-6)
proof (induction evs arbitrary: s)
  case Nil
  obtain bs c where bs: "batches_of (ds_fields s) (ds_batchSize s) (ds_pending s) bs"
    and go: "\<And>cs e s'. yields (distributedStream check recv) (s\<lparr>ds_pending := [], ds_calls := c\<rparr>) cs e s' \<Longrightarrow>
       yields (distributedStream check recv) s (bs @ cs) e s'"
    using drain_pending [where check = check and recv = recv, OF check Nil(1)] by blast
  let ?s = "s\<lparr>ds_pending := [], ds_calls := Suc c\<rparr>"
  obtain s' where "accept_event bad (?s\<lparr>ds_waits := Suc (ds_waits ?s)\<rparr>) = (Some err, s')" "ds_outcome s' = ds_outcome s"
    using accept_event_fatal [of "?s\<lparr>ds_waits := Suc (ds_waits ?s)\<rparr>" bad err] Nil(5) by auto
  moreover from this have "yields (distributedStream check recv) (s\<lparr>ds_pending := [], ds_calls := c\<rparr>) [] err s'"
    using Nil check Nil(3) [of 0]
    by (simp add: distributedStream_def distributed_Next_def live_def Let_def) (simp add: next_loop.simps Let_def)
  ultimately show ?case using go [of "[]" err s'] bs Nil(1) by (intro exI [of _ bs] exI [of _ s']) (simp add: live_def)
next
  case (Cons ev evs)
  obtain bs c where bs: "batches_of (ds_fields s) (ds_batchSize s) (ds_pending s) bs"
    and go: "\<And>cs e s'. yields (distributedStream check recv) (s\<lparr>ds_pending := [], ds_calls := c\<rparr>) cs e s' \<Longrightarrow>
       yields (distributedStream check recv) s (bs @ cs) e s'"
    using drain_pending [where check = check and recv = recv, OF check Cons.prems(1)] by blast
  let ?s = "s\<lparr>ds_pending := [], ds_calls := c\<rparr>"
  let ?s2 = "?s\<lparr>ds_waits := Suc (ds_waits s), ds_remaining := ds_remaining s - 1,
    ds_partial := (ds_partial s \<or> te_failure ev \<noteq> None), ds_warnings := ds_warnings s @ event_warnings ev,
    ds_pending := te_tuples ev\<rparr>"
  have acc: "accept_event ev (?s\<lparr>ds_waits := Suc (ds_waits ?s)\<rparr>) = (None, ?s2)"
    using Cons.prems by (subst accept_event_good) simp_all
  have "rs_next (distributedStream check recv) ?s = rs_next (distributedStream check recv) ?s2"
    using Cons.prems(1,2) Cons.prems(3) [of 0] check by (intro yields_accept [OF _ _ _ _ _ acc]) (simp_all add: live_def)
  then have same: "yields (distributedStream check recv) ?s cs e s' = yields (distributedStream check recv) ?s2 cs e s'" for cs e s'
    by (cases cs) simp_all
  have "live ?s2" "ds_remaining ?s2 > length evs" using Cons.prems by (simp_all add: live_def)
  moreover have "recv (ds_waits ?s2 + k) = SelEvent ((evs @ [bad]) ! k)" if "k \<le> length evs" for k
    using Cons.prems(3) [of "Suc k"] that by simp
  moreover have "\<forall>ev\<in>set evs. fatal (ds_allowPartial ?s2) (ds_acceptOutcome ?s2) ev = None"
    "fatal (ds_allowPartial ?s2) (ds_acceptOutcome ?s2) bad = Some err" using Cons.prems by simp_all
  ultimately obtain cs s' where ih: "yields (distributedStream check recv) ?s2 cs err s'"
    "batches_of (ds_fields s) (ds_batchSize s) (te_tuples ev @ concat (map te_tuples evs)) cs" "ds_outcome s' = None"
    using Cons.IH [of ?s2] by auto
  have "yields (distributedStream check recv) s (bs @ cs) err s'" using go same ih(1) by simp
  with batches_of_append [OF bs ih(2)] ih(3) show ?case by (intro exI [of _ "bs @ cs"] exI [of _ s']) simp
qed

subsection \<open>Properties\<close>

lemma new_stream_live: "queryBatchSize request > 0" "live (newDistributedStream request plan n)"
proof -
  show "queryBatchSize request > 0"
    by (auto simp: queryBatchSize_def defaultBatchSize_def unat_gt_0 split: option.splits)
  then show "live (newDistributedStream request plan n)" by (simp add: live_def newDistributedStream_def)
qed

lemma new_stream_simps [simp]:
  "ds_fields (newDistributedStream request plan n) = plan_fields plan"
  "ds_batchSize (newDistributedStream request plan n) = queryBatchSize request"
  "ds_remaining (newDistributedStream request plan n) = n" "ds_pending (newDistributedStream request plan n) = []"
  "ds_warnings (newDistributedStream request plan n) = []" "\<not> ds_partial (newDistributedStream request plan n)"
  "ds_waits (newDistributedStream request plan n) = 0"
  "ds_acceptOutcome (newDistributedStream request plan n) = q_accept_outcome request"
  "ds_allowPartial (newDistributedStream request plan n) = q_allow_partial_results request"
  by (simp_all add: newDistributedStream_def)

lemma distributed_run:
  assumes "\<forall>k. check k = None" and "\<forall>k<length evs. recv k = SelEvent (evs ! k)"
    and "\<forall>ev\<in>set evs. fatal (q_allow_partial_results request) (q_accept_outcome request) ev = None"
  shows "\<exists>bs s. yields (distributedStream check recv) (newDistributedStream request plan (length evs)) bs EOF s \<and>
    batches_of (plan_fields plan) (queryBatchSize request) (concat (map te_tuples evs)) bs \<and>
    ds_outcome s = Some \<lparr>o_completion = (if \<exists>ev\<in>set evs. te_failure ev \<noteq> None
                                        then QUERY_COMPLETION_PARTIAL else QUERY_COMPLETION_COMPLETE),
                         o_warnings = map Some (sort_key warning_key (concat (map event_warnings evs)))\<rparr>"
  using gather [where s = "newDistributedStream request plan (length evs)" and check = check and recv = recv and evs = evs]
    assms new_stream_live(2) by simp



text \<open>
  When the channel of events is closed while targets are outstanding, which happens only when
  the context of the query was cancelled, \<open>Next\<close> may report the end of the result with the
  outcome COMPLETE although no row of the outstanding targets was delivered.
\<close>

theorem cancelled_query_reported_complete:
  assumes "check 0 = None" and "recv 0 = SelClosed"
  shows "\<exists>s. yields (distributedStream check recv) (newDistributedStream request plan n) [] EOF s \<and>
    ds_outcome s = Some \<lparr>o_completion = QUERY_COMPLETION_COMPLETE, o_warnings = []\<rparr>"
  using assms
  by (auto simp: distributedStream_def distributed_Next_def newDistributedStream_def next_loop.simps finishOutcome_def Let_def)

text \<open>The rows of a target before one that is not valid.\<close>

lemma project_rows_until:
  assumes "project_rows up texts plan target columns good = (ts, None)"
    and "agentValues up (pl_table plan) target columns bad = Inl e"
  shows "project_rows up texts plan target columns (good @ bad # rest) =
    (ts, Some (invalid_result (hi_Key target) (tx_row texts e)))"
  using assms by (induction good arbitrary: ts) (auto split: sum.splits prod.splits)

text \<open>
  C38: The rows of a host that failed are not always dropped: when an agent completes a scan of a
  table with several rows and one row is not valid, the event of the target is a failure that
  still carries the rows before the invalid one, and a query that allows partial results
  delivers them before it reports the target as failed.
\<close>

theorem invalid_row_keeps_earlier_rows:
  assumes "project_rows up texts plan target columns good = (ts, None)"
    and "agentValues up (pl_table plan) target columns bad = Inl e"
    and "sn_status finished = SCAN_STATUS_SUCCEEDED" and "\<not> SingletonPerHost up (pl_table plan)"
    and "\<forall>k. check k = None" and "q_allow_partial_results request"
    and "recv 0 = SelEvent (finished_event up texts plan target columns (good @ bad # rest) finished)"
  shows "\<exists>bs s. yields (distributedStream check recv) (newDistributedStream request plan 1) bs EOF s \<and>
    batches_of (plan_fields plan) (queryBatchSize request) ts bs \<and>
    ds_outcome s = Some \<lparr>o_completion = QUERY_COMPLETION_PARTIAL,
      o_warnings = [Some (invalid_result (hi_Key target) (tx_row texts e))]\<rparr>"
proof -
  let ?f = "invalid_result (hi_Key target) (tx_row texts e)"
  let ?ev = "\<lparr>te_tuples = ts, te_warnings = [], te_failure = Some ?f\<rparr>"
  have "finished_event up texts plan target columns (good @ bad # rest) finished = ?ev"
    using project_rows_until [OF assms(1,2)] assms(3,4) by (simp add: finished_event_def)
  then have recv: "\<forall>k<length [?ev]. recv k = SelEvent ([?ev] ! k)" using assms(7) by simp
  have "\<forall>ev\<in>set [?ev]. fatal (q_allow_partial_results request) (q_accept_outcome request) ev = None"
    using assms(6) by (simp add: fatal_def)
  from distributed_run [OF assms(5) recv this, of plan] show ?thesis by (simp add: event_warnings_def)
qed

section \<open>Witnesses\<close>

definition partial_request :: "bool \<Rightarrow> query_request" where
  "partial_request partial =
     \<lparr>q_connection_id = ''c'', q_entity = Some \<lparr>er_name = ''cpu_times'', er_namespace = []\<rparr>,
      q_projections = [Some \<lparr>pr_expression = Some (ExprField (Some ''HOST_ID'')), pr_output_name = []\<rparr>],
      q_filter = field_equals ''namespace'' ''n'', q_order_by = [], q_limit = None, q_offset = None, q_batch_size = Some 2,
      q_accepted_features = [], q_group_by = [], q_having = None, q_accept_outcome = partial,
      q_allow_partial_results = partial\<rparr>"

definition cpu_plan :: query_plan where
  "cpu_plan =
     \<lparr>pl_table = ''CPU_TIMES'',
      pl_projections =
        [\<lparr>pj_sourceName = ''host_id'',
          pj_field = \<lparr>f_name = ''host_id'', f_type = VALUE_TYPE_STRING, f_type_descriptor = None\<rparr>\<rparr>],
      pl_route = no_route\<lparr>ar_namespace := Some ''n''\<rparr>\<rparr>"

definition rows_event :: target_event where
  "rows_event = \<lparr>te_tuples = replicate 3 [Some (host_string ''w'')], te_warnings = [], te_failure = None\<rparr>"

definition busy_event :: target_event where
  "busy_event =
     failed_event (targetFailure \<lparr>hk_Namespace = ''n'', hk_ID = ''w''\<rparr> ''HOST_TARGET_BUSY'' ''busy'' True)"



definition cpu_row :: "64 word \<Rightarrow> tuple_msg" where
  "cpu_row seconds =
     map Some ([Value (TimestampValue ''0001-01-01T00:00:00''), host_string ''cpu0''] @ replicate 10 (Value (DoubleValue seconds)))"

definition silent_texts :: error_texts where
  "silent_texts = \<lparr>tx_gateway = (\<lambda>_. []), tx_row = (\<lambda>_. ''invalid row''), tx_quote = id\<rparr>"

definition web_target :: host_identity where
  "web_target =
     \<lparr>hi_Key = \<lparr>hk_Namespace = ''n'', hk_ID = ''w''\<rparr>, hi_Hostname = [], hi_EnrolledAt = 1, hi_Attributes = None\<rparr>"

theorem invalid_row_keeps_earlier_rows_witness:
  "\<exists>columns recv bs s. LocalColumns id ''CPU_TIMES'' = Some columns \<and>
    recv 0 = SelEvent (finished_event id silent_texts cpu_plan web_target columns [cpu_row 0, cpu_row (- 1)]
      \<lparr>sn_scan_id = ''s'', sn_status = SCAN_STATUS_SUCCEEDED, sn_diagnostics = []\<rparr>) \<and>
    yields (distributedStream (\<lambda>_. None) recv) (newDistributedStream (partial_request True) cpu_plan 1) bs EOF s \<and>
    batches_of (plan_fields cpu_plan) (queryBatchSize (partial_request True)) [[Some (host_string ''w'')]] bs \<and>
    map_option o_completion (ds_outcome s) = Some QUERY_COMPLETION_PARTIAL"
proof -
  let ?columns = "the (LocalColumns id ''CPU_TIMES'')"
  let ?fin = "\<lparr>sn_scan_id = ''s'', sn_status = SCAN_STATUS_SUCCEEDED, sn_diagnostics = []\<rparr>"
  have columns: "LocalColumns id ''CPU_TIMES'' = Some ?columns" by code_simp
  have good: "project_rows id silent_texts cpu_plan web_target ?columns [cpu_row 0] = ([[Some (host_string ''w'')]], None)"
    by code_simp
  have "length (cpu_row (- 1)) = length ?columns" by code_simp
  moreover have "ValidateValues id (pl_table cpu_plan) ?columns (cpu_row (- 1)) =
      Some (AgentColumnValue ''CPU_TIMES'' ''user_seconds'' HostFiniteNumber)" by code_simp
  ultimately have bad: "agentValues id (pl_table cpu_plan) web_target ?columns (cpu_row (- 1)) =
      Inl (AgentColumnValue ''CPU_TIMES'' ''user_seconds'' HostFiniteNumber)" by (simp only: agentValues_def if_False not_True_eq_False simp_thms option.case)
  have table: "\<not> SingletonPerHost id (pl_table cpu_plan)" by code_simp
  let ?recv = "\<lambda>_ :: nat. SelEvent (finished_event id silent_texts cpu_plan web_target ?columns [cpu_row 0, cpu_row (- 1)] ?fin)"
  have request: "q_allow_partial_results (partial_request True)" by (simp add: partial_request_def)
  have check: "\<forall>k :: nat. (None :: context_err option) = None" by simp
  have recv: "SelEvent (finished_event id silent_texts cpu_plan web_target ?columns [cpu_row 0, cpu_row (- 1)] ?fin) =
      SelEvent (finished_event id silent_texts cpu_plan web_target ?columns ([cpu_row 0] @ [cpu_row (- 1)]) ?fin)"
    by (simp only: append.simps)
  have status: "sn_status ?fin = SCAN_STATUS_SUCCEEDED" by simp
  obtain bs s where
    y: "yields (distributedStream (\<lambda>_. None) ?recv) (newDistributedStream (partial_request True) cpu_plan 1) bs EOF s"
    and bs: "batches_of (plan_fields cpu_plan) (queryBatchSize (partial_request True)) [[Some (host_string ''w'')]] bs"
    and out: "ds_outcome s = Some \<lparr>o_completion = QUERY_COMPLETION_PARTIAL, o_warnings = [Some (invalid_result (hi_Key web_target)
      (tx_row silent_texts (AgentColumnValue ''CPU_TIMES'' ''user_seconds'' HostFiniteNumber)))]\<rparr>"
    using invalid_row_keeps_earlier_rows [where check = "\<lambda>_. None" and recv = ?recv and rest = "[]",
        OF good bad status table check request recv] by (elim exE conjE)
  have "map_option o_completion (ds_outcome s) = Some QUERY_COMPLETION_PARTIAL" by (simp add: out)
  with columns y bs show ?thesis
    by (intro exI [of _ ?columns] exI [of _ ?recv] exI [of _ bs] exI [of _ s]) (simp only: simp_thms)
qed

theorem cancelled_query_reported_complete_witness:
  "\<exists>s. yields (distributedStream (\<lambda>_. None) (\<lambda>_. SelClosed)) (newDistributedStream (partial_request False) cpu_plan 2) [] EOF s \<and>
    ds_outcome s = Some \<lparr>o_completion = QUERY_COMPLETION_COMPLETE, o_warnings = []\<rparr>"
  using cancelled_query_reported_complete [of "\<lambda>_. None" "\<lambda>_. SelClosed" "partial_request False" cpu_plan 2] by simp

end
