(* ===== verification/HostFleet.thy ===== *)
theory HostFleet
  imports HostRegistry "HOL-Library.Sublist"
begin

text \<open>
  The abstract fleet, the contract of a registry over it (\<open>fleet_registry\<close>), what follows from
  the contract for every registry, and the registry in memory as an implementation.

  A fleet has an identity per host and the history of its sessions, newest first. The
  invariant \<open>fleet_ok\<close> says that identifiers are never used twice, that the generations of a
  host count its sessions, and that a session was disconnected before the next one connected.
\<close>

section \<open>Fleets\<close>

record fleet =
  fl_identity :: "host_key \<rightharpoonup> host_identity"
  fl_history :: "host_key \<Rightarrow> agent_session list"

definition disconnected_by :: "agent_session \<Rightarrow> go_time \<Rightarrow> bool" where
  "disconnected_by s t \<longleftrightarrow> se_DisconnectedAt s \<noteq> 0 \<and> se_DisconnectedAt s \<le> t"

fun history_ok :: "host_key \<Rightarrow> agent_session list \<Rightarrow> bool" where
  "history_ok k [] = True"
| "history_ok k (s # ss) \<longleftrightarrow>
     se_Host s = k \<and> trimSpace (se_ID s) \<noteq> [] \<and> se_Generation s = word_of_nat (Suc (length ss)) \<and>
     Suc (length ss) < 2 ^ 64 \<and> se_ConnectedAt s \<noteq> 0 \<and> se_ConnectedAt s \<le> se_LastSeenAt s \<and>
     se_LastSeenAt s < se_ExpiresAt s \<and> se_ExpiresAt s \<noteq> 0 \<and>
     (\<forall>t\<in>set ss. disconnected_by t (se_ConnectedAt s) \<and> se_ID t \<noteq> se_ID s) \<and> history_ok k ss"

definition fleet_ok :: "fleet \<Rightarrow> bool" where
  "fleet_ok f \<longleftrightarrow>
     (\<forall>k. history_ok k (fl_history f k)) \<and>
     (\<forall>k i. fl_identity f k = Some i \<longrightarrow> hi_Key i = k) \<and>
     (\<forall>k. fl_history f k \<noteq> [] \<longrightarrow> fl_identity f k \<noteq> None) \<and>
     (\<forall>k l s t. s \<in> set (fl_history f k) \<longrightarrow> t \<in> set (fl_history f l) \<longrightarrow> se_ID s = se_ID t \<longrightarrow> k = l)"

definition empty_fleet :: fleet where
  "empty_fleet = \<lparr>fl_identity = Map.empty, fl_history = (\<lambda>_. [])\<rparr>"

definition issued :: "fleet \<Rightarrow> string \<Rightarrow> bool" where
  "issued f i \<longleftrightarrow> (\<exists>k. \<exists>s\<in>set (fl_history f k). se_ID s = i)"

definition latest :: "fleet \<Rightarrow> host_key \<Rightarrow> agent_session option" where
  "latest f k = (case fl_history f k of [] \<Rightarrow> None | s # _ \<Rightarrow> Some s)"

definition fleet_snapshot :: "fleet \<Rightarrow> host_key \<Rightarrow> agent_session option \<Rightarrow> host_snapshot" where
  "fleet_snapshot f k s = \<lparr>hs_Identity = the (fl_identity f k), hs_Session = s\<rparr>"

subsection \<open>What the operations do to a fleet\<close>

definition supersede :: "go_time \<Rightarrow> agent_session list \<Rightarrow> agent_session list" where
  "supersede at ss = (case ss of [] \<Rightarrow> [] | s # rest \<Rightarrow> markDisconnected at s # rest)"

definition open_fleet :: "registration \<Rightarrow> session_window \<Rightarrow> string \<Rightarrow> fleet \<Rightarrow> fleet" where
  "open_fleet r w i f =
     (let k = registration_key r; ss = fl_history f k in
      \<lparr>fl_identity = (fl_identity f)(k \<mapsto> registered_identity r w (fl_identity f k)),
       fl_history = (fl_history f)(k := new_session r w i (word_of_nat (Suc (length ss))) # supersede (sw_ObservedAt w) ss)\<rparr>)"

definition change_session :: "host_key \<Rightarrow> string \<Rightarrow> (agent_session \<Rightarrow> agent_session) \<Rightarrow> fleet \<Rightarrow> fleet" where
  "change_session k i g f =
     f\<lparr>fl_history := (fl_history f)(k := map (\<lambda>s. if se_ID s = i then g s else s) (fl_history f k))\<rparr>"

text \<open>When a session may be opened: the identifier is new and no clock ran backwards.\<close>

definition may_open :: "registration \<Rightarrow> session_window \<Rightarrow> string \<Rightarrow> fleet \<Rightarrow> bool" where
  "may_open r w i f \<longleftrightarrow>
     validateRegistration r = None \<and> validateSessionWindow w = None \<and> trimSpace i \<noteq> [] \<and> \<not> issued f i \<and>
     Suc (length (fl_history f (registration_key r))) < 2 ^ 64 \<and>
     (\<forall>s. latest f (registration_key r) = Some s \<longrightarrow> se_LastSeenAt s \<le> sw_ObservedAt w)"

text \<open>When a session may be renewed: it is the latest of its host, connected, and its lease runs.\<close>

definition may_renew :: "string \<Rightarrow> session_window \<Rightarrow> agent_session \<Rightarrow> fleet \<Rightarrow> bool" where
  "may_renew i w s f \<longleftrightarrow>
     validateSessionWindow w = None \<and> latest f (se_Host s) = Some s \<and> se_ID s = i \<and> se_DisconnectedAt s = 0 \<and>
     se_LastSeenAt s \<le> sw_ObservedAt w \<and> ActiveAt s (sw_ObservedAt w) \<and> se_ExpiresAt s < sw_ExpiresAt w"

section \<open>The invariant\<close>

lemma distinct_filter_singleton:
  assumes "distinct xs" and "x \<in> set xs" and "P x" and "\<And>y. y \<in> set xs \<Longrightarrow> P y \<Longrightarrow> y = x"
  shows "filter P xs = [x]"
proof -
  have "set (filter P xs) = {x}" using assms(2,3) by (auto dest: assms(4))
  moreover have "length (filter P xs) = 1" using distinct_card [OF distinct_filter [OF assms(1), of P]] calculation by simp
  ultimately show ?thesis by (cases "filter P xs") simp_all
qed

lemma markDisconnected_simps [simp]:
  "se_ID (markDisconnected at s) = se_ID s" "se_Host (markDisconnected at s) = se_Host s"
  "se_Generation (markDisconnected at s) = se_Generation s" "se_ConnectedAt (markDisconnected at s) = se_ConnectedAt s"
  "se_LastSeenAt (markDisconnected at s) = se_LastSeenAt s" "se_ExpiresAt (markDisconnected at s) = se_ExpiresAt s"
  by (simp_all add: markDisconnected_def)

lemma renewed_simps [simp]:
  "se_ID (renewed w s) = se_ID s" "se_Host (renewed w s) = se_Host s" "se_Generation (renewed w s) = se_Generation s"
  "se_ConnectedAt (renewed w s) = se_ConnectedAt s" "se_LastSeenAt (renewed w s) = sw_ObservedAt w"
  "se_ExpiresAt (renewed w s) = sw_ExpiresAt w" "se_DisconnectedAt (renewed w s) = se_DisconnectedAt s"
  by (simp_all add: renewed_def)

lemma markDisconnected_by: "at \<noteq> 0 \<Longrightarrow> at \<le> t \<Longrightarrow> disconnected_by (markDisconnected at s) t"
  by (auto simp: markDisconnected_def disconnected_by_def IsZero_def)

lemma disconnected_by_mono:
  "disconnected_by s t \<Longrightarrow> at \<noteq> 0 \<Longrightarrow> disconnected_by (markDisconnected at s) t"
  by (auto simp: markDisconnected_def disconnected_by_def IsZero_def)

lemma history_okD:
  assumes "history_ok k ss" and "s \<in> set ss"
  shows "se_Host s = k" and "trimSpace (se_ID s) \<noteq> []" and "se_ConnectedAt s \<noteq> 0"
    and "se_ConnectedAt s \<le> se_LastSeenAt s"
  using assms by (induction ss) auto

lemma history_ok_ids: "history_ok k ss \<Longrightarrow> distinct (map se_ID ss)"
  by (induction ss) auto

lemma supersede_ok:
  assumes "history_ok k ss" and "at \<noteq> 0"
  shows "history_ok k (supersede at ss)"
  using assms by (cases ss) (auto simp: supersede_def)

lemma supersede_facts [simp]:
  "length (supersede at ss) = length ss" "se_ID ` set (supersede at ss) = se_ID ` set ss"
  by (cases ss; simp add: supersede_def)+

lemma opened_history_ok:
  assumes ok: "history_ok k ss" and k: "k = registration_key r" and "trimSpace i \<noteq> []" and "Suc (length ss) < 2 ^ 64"
    and win: "validateSessionWindow w = None" and new: "i \<notin> se_ID ` set ss"
    and last: "\<forall>s. ss \<noteq> [] \<longrightarrow> se_LastSeenAt (hd ss) \<le> sw_ObservedAt w"
  shows "history_ok k (new_session r w i (word_of_nat (Suc (length ss))) # supersede (sw_ObservedAt w) ss)"
proof -
  have at: "sw_ObservedAt w \<noteq> 0" "sw_ObservedAt w < sw_ExpiresAt w" "sw_ExpiresAt w \<noteq> 0"
    using win by (auto simp: validateSessionWindow_def IsZero_def)
  have "disconnected_by t (sw_ObservedAt w)" if "t \<in> set (supersede (sw_ObservedAt w) ss)" for t
  proof (cases ss)
    case (Cons s rest)
    have "disconnected_by u (sw_ObservedAt w)" if "u \<in> set rest" for u
    proof -
      have "disconnected_by u (se_ConnectedAt s)" "se_ConnectedAt s \<le> se_LastSeenAt s" using ok Cons that by auto
      with last Cons show ?thesis by (auto simp: disconnected_by_def)
    qed
    with that Cons at(1) show ?thesis by (auto simp: supersede_def intro: markDisconnected_by)
  qed (use that in \<open>simp add: supersede_def\<close>)
  moreover have "se_ID t \<noteq> i" if "t \<in> set (supersede (sw_ObservedAt w) ss)" for t
    using that new supersede_facts(2) [of "sw_ObservedAt w" ss] by (metis image_eqI)
  ultimately show ?thesis
    using assms at supersede_ok [OF ok at(1)] by (auto simp: new_session_def)
qed

lemma fleet_ok_history: "fleet_ok f \<Longrightarrow> history_ok k (fl_history f k)"
  by (simp add: fleet_ok_def)

lemma open_fleet_ok:
  assumes ok: "fleet_ok f" and may: "may_open r w i f"
  shows "fleet_ok (open_fleet r w i f)"
proof -
  let ?k = "registration_key r" and ?f = "open_fleet r w i f"
  have new: "i \<notin> se_ID ` set (fl_history f k)" for k using may by (auto simp: may_open_def issued_def)
  have "history_ok k (fl_history ?f k)" for k
    using ok may new opened_history_ok [OF fleet_ok_history [OF ok], of ?k r i w]
    by (auto simp: fleet_ok_def may_open_def open_fleet_def Let_def latest_def split: list.splits)
  moreover have ids: "se_ID ` set (fl_history ?f k) = (if k = ?k then {i} else {}) \<union> se_ID ` set (fl_history f k)" for k
    by (simp add: open_fleet_def Let_def new_session_def)
  have "k = l" if s: "s \<in> set (fl_history ?f k)" and t: "t \<in> set (fl_history ?f l)" and eq: "se_ID s = se_ID t" for k l s t
  proof -
    have "se_ID s \<in> se_ID ` set (fl_history ?f k)" "se_ID s \<in> se_ID ` set (fl_history ?f l)"
      using s t eq by (metis image_eqI)+
    then have "(se_ID s = i \<and> k = ?k) \<or> se_ID s \<in> se_ID ` set (fl_history f k)"
      "(se_ID s = i \<and> l = ?k) \<or> se_ID s \<in> se_ID ` set (fl_history f l)"
      unfolding ids by (auto split: if_splits)
    with new ok show ?thesis by (auto simp: fleet_ok_def)
  qed
  moreover have "hi_Key x = k" if "fl_identity ?f k = Some x" for k x
    using that ok
    by (auto simp: open_fleet_def Let_def fleet_ok_def registered_identity_def split: if_splits option.splits)
  moreover have "fl_identity ?f k \<noteq> None" if "fl_history ?f k \<noteq> []" for k
    using that ok by (auto simp: open_fleet_def Let_def fleet_ok_def split: if_splits)
  ultimately show ?thesis unfolding fleet_ok_def by blast
qed

lemma change_history_ok:
  assumes "history_ok k ss"
    and "\<And>s. se_ID (g s) = se_ID s \<and> se_Host (g s) = se_Host s \<and> se_Generation (g s) = se_Generation s \<and>
      se_ConnectedAt (g s) = se_ConnectedAt s"
    and "\<And>s t. disconnected_by s t \<Longrightarrow> disconnected_by (g s) t"
    and "\<And>s. s \<in> set ss \<Longrightarrow> se_ID s = i \<Longrightarrow>
      se_ConnectedAt s \<le> se_LastSeenAt (g s) \<and> se_LastSeenAt (g s) < se_ExpiresAt (g s) \<and> se_ExpiresAt (g s) \<noteq> 0"
  shows "history_ok k (map (\<lambda>s. if se_ID s = i then g s else s) ss)"
  using assms(1,4)
proof (induction ss)
  case (Cons s ss)
  have "history_ok k (map (\<lambda>s. if se_ID s = i then g s else s) ss)"
    using Cons.prems by (intro Cons.IH) auto
  moreover have "disconnected_by t (se_ConnectedAt s) \<and> se_ID t \<noteq> se_ID s"
    if "t \<in> set (map (\<lambda>s. if se_ID s = i then g s else s) ss)" for t
    using that Cons.prems(1) assms(2,3) by (auto split: if_splits)
  ultimately show ?case using Cons.prems assms(2) by (auto simp: image_iff)
qed simp

lemma change_session_ok:
  assumes ok: "fleet_ok f"
    and g: "\<And>s. se_ID (g s) = se_ID s \<and> se_Host (g s) = se_Host s \<and> se_Generation (g s) = se_Generation s \<and>
      se_ConnectedAt (g s) = se_ConnectedAt s"
    and disc: "\<And>s t. disconnected_by s t \<Longrightarrow> disconnected_by (g s) t"
    and times: "\<And>s. s \<in> set (fl_history f k) \<Longrightarrow> se_ID s = i \<Longrightarrow>
      se_ConnectedAt s \<le> se_LastSeenAt (g s) \<and> se_LastSeenAt (g s) < se_ExpiresAt (g s) \<and> se_ExpiresAt (g s) \<noteq> 0"
  shows "fleet_ok (change_session k i g f)"
proof -
  let ?f = "change_session k i g f"
  have hist: "history_ok l (fl_history ?f l)" for l
    using change_history_ok [OF fleet_ok_history [OF ok] g disc times] fleet_ok_history [OF ok]
    by (simp add: change_session_def)
  have "se_ID ` set (fl_history ?f l) = se_ID ` set (fl_history f l)" for l
  proof -
    have "map se_ID (fl_history ?f l) = map se_ID (fl_history f l)" using g by (simp add: change_session_def comp_def)
    then show ?thesis by (metis set_map)
  qed
  then have unique: "l = m" if s: "s \<in> set (fl_history ?f l)" and t: "t \<in> set (fl_history ?f m)" and eq: "se_ID s = se_ID t" for l m s t
  proof -
    have "se_ID s \<in> se_ID ` set (fl_history ?f l)" "se_ID t \<in> se_ID ` set (fl_history ?f m)" using s t by simp_all
    then have "se_ID s \<in> se_ID ` set (fl_history f l)" "se_ID t \<in> se_ID ` set (fl_history f m)"
      by (simp_all only: \<open>\<And>l. se_ID ` set (fl_history ?f l) = se_ID ` set (fl_history f l)\<close>)
    with eq obtain s' t' where "s' \<in> set (fl_history f l)" "t' \<in> set (fl_history f m)" "se_ID s' = se_ID t'" by auto
    with ok show ?thesis unfolding fleet_ok_def by blast
  qed
  have "fl_identity ?f = fl_identity f" "fl_history ?f l \<noteq> [] \<longleftrightarrow> fl_history f l \<noteq> []" for l
    by (simp_all add: change_session_def)
  then show ?thesis using hist ok unique unfolding fleet_ok_def by simp
qed

lemma empty_fleet_ok: "fleet_ok empty_fleet"
  by (simp add: fleet_ok_def empty_fleet_def)

section \<open>Representing a fleet by maps\<close>

definition represents ::
  "(host_key \<rightharpoonup> host_identity) \<Rightarrow> (string \<rightharpoonup> agent_session) \<Rightarrow> (host_key \<rightharpoonup> string) \<Rightarrow> (host_key \<rightharpoonup> 64 word) \<Rightarrow>
   fleet \<Rightarrow> bool" where
  "represents ids sessions current generations f \<longleftrightarrow>
     fleet_ok f \<and> ids = fl_identity f \<and>
     (\<forall>i s. sessions i = Some s \<longleftrightarrow> se_ID s = i \<and> s \<in> set (fl_history f (se_Host s))) \<and>
     (\<forall>k. current k = map_option se_ID (latest f k)) \<and>
     (\<forall>k. generations k = map_option se_Generation (latest f k))"

lemma latest_in: "latest f k = Some s \<Longrightarrow> s \<in> set (fl_history f k)"
  by (auto simp: latest_def split: list.splits)

lemma represents_current:
  assumes "represents ids sessions current generations f"
  shows "current k = Some i \<longleftrightarrow> (\<exists>s. latest f k = Some s \<and> se_ID s = i \<and> sessions i = Some s \<and> se_Host s = k)"
proof -
  have "sessions (se_ID s) = Some s \<and> se_Host s = k" if "latest f k = Some s" for s
    using assms latest_in [OF that] history_okD(1) [OF fleet_ok_history]
    by (auto simp: represents_def)
  with assms show ?thesis by (auto simp: represents_def)
qed

lemma represents_issued:
  "represents ids sessions current generations f \<Longrightarrow> issued f i \<longleftrightarrow> sessions i \<noteq> None"
  unfolding represents_def issued_def by (metis fleet_ok_history history_okD(1) not_None_eq)

lemma represents_generation:
  assumes "represents ids sessions current generations f"
  shows "(case generations k of None \<Rightarrow> 0 | Some g \<Rightarrow> g) = word_of_nat (length (fl_history f k))"
    and "(case generations k of None \<Rightarrow> 0 | Some g \<Rightarrow> g) = - 1 \<longleftrightarrow> \<not> Suc (length (fl_history f k)) < 2 ^ 64"
proof -
  have ok: "history_ok k (fl_history f k)" using assms by (simp add: represents_def fleet_ok_def)
  show eq: "(case generations k of None \<Rightarrow> 0 | Some g \<Rightarrow> g) = word_of_nat (length (fl_history f k))"
    using assms ok by (cases "fl_history f k") (auto simp: represents_def latest_def)
  have len: "length (fl_history f k) < 2 ^ 64" using ok by (cases "fl_history f k") auto
  have "unat (- 1 :: 64 word) = 2 ^ 64 - 1" by (simp add: unsigned_minus_1_eq_mask mask_eq_exp_minus_1)
  moreover have "unat (word_of_nat (length (fl_history f k)) :: 64 word) = length (fl_history f k)"
    using len by (simp add: unat_of_nat)
  ultimately show "(case generations k of None \<Rightarrow> 0 | Some g \<Rightarrow> g) = - 1 \<longleftrightarrow> \<not> Suc (length (fl_history f k)) < 2 ^ 64"
    using len unfolding eq by (subst word_unat_eq_iff) auto
qed

text \<open>The sessions of a fleet, of whatever host.\<close>

definition session_in :: "fleet \<Rightarrow> agent_session \<Rightarrow> bool" where
  "session_in f s \<longleftrightarrow> s \<in> set (fl_history f (se_Host s))"

lemma session_in_host: "fleet_ok f \<Longrightarrow> s \<in> set (fl_history f k) \<longleftrightarrow> session_in f s \<and> se_Host s = k"
  using history_okD(1) [OF fleet_ok_history] unfolding session_in_def by blast

lemma session_in_unique:
  assumes ok: "fleet_ok f" and s: "session_in f s" and t: "session_in f t" and eq: "se_ID s = se_ID t"
  shows "s = t"
proof -
  have "se_Host s = se_Host t" using ok s t eq unfolding fleet_ok_def session_in_def by blast
  with s t have "s \<in> set (fl_history f (se_Host s))" "t \<in> set (fl_history f (se_Host s))"
    by (simp_all add: session_in_def)
  with history_ok_ids [OF fleet_ok_history [OF ok], of "se_Host s"] eq show ?thesis
    by (simp add: distinct_map inj_on_def)
qed

lemma session_in_open:
  assumes ok: "fleet_ok f"
  shows "session_in (open_fleet r w i f) s \<longleftrightarrow>
    s = new_session r w i (word_of_nat (Suc (length (fl_history f (registration_key r))))) \<or>
    (\<exists>p. latest f (registration_key r) = Some p \<and> s = markDisconnected (sw_ObservedAt w) p) \<or>
    (session_in f s \<and> latest f (registration_key r) \<noteq> Some s)"
proof -
  let ?k = "registration_key r"
  have host: "se_Host t = ?k" if "t \<in> set (fl_history f ?k)" for t
    using history_okD(1) [OF fleet_ok_history [OF ok]] that by blast
  have dist: "distinct (fl_history f ?k)" using history_ok_ids [OF fleet_ok_history [OF ok], of ?k] by (simp add: distinct_map)
  show ?thesis
  proof (cases "se_Host s = ?k")
    case True
    then show ?thesis using host dist
      by (cases "fl_history f ?k")
        (auto simp: session_in_def open_fleet_def Let_def supersede_def latest_def new_session_def)
  next
    case False
    then show ?thesis using host latest_in [of f ?k]
      by (auto simp: session_in_def open_fleet_def Let_def new_session_def)
  qed
qed

lemma session_in_change:
  assumes ok: "fleet_ok f" and x: "session_in f x" and k: "k = se_Host x" and i: "i = se_ID x" and g: "se_Host (g x) = se_Host x"
  shows "session_in (change_session k i g f) s \<longleftrightarrow> s = g x \<or> (session_in f s \<and> se_ID s \<noteq> i)"
proof -
  have only: "t = x" if "t \<in> set (fl_history f k)" "se_ID t = i" for t
    using session_in_unique [OF ok _ x] that session_in_host [OF ok] i by blast
  have no: "se_ID t \<noteq> i" if "session_in f t" "se_Host t \<noteq> k" for t
    using session_in_unique [OF ok _ x] that i k by blast
  have xin: "x \<in> set (fl_history f k)" using x k by (simp add: session_in_def)
  show ?thesis
  proof (cases "se_Host s = k")
    case True
    have "s \<in> (\<lambda>s. if se_ID s = i then g s else s) ` set (fl_history f k) \<longleftrightarrow>
      s = g x \<or> (s \<in> set (fl_history f k) \<and> se_ID s \<noteq> i)" (is "?l \<longleftrightarrow> ?r")
    proof
      assume ?l then show ?r using only by (auto split: if_splits)
    next
      assume ?r
      then show ?l
      proof
        assume "s = g x" then show ?l using xin i by (intro image_eqI [of _ _ x]) simp_all
      next
        assume "s \<in> set (fl_history f k) \<and> se_ID s \<noteq> i" then show ?l by (intro image_eqI [of _ _ s]) simp_all
      qed
    qed
    with True show ?thesis by (simp add: session_in_def change_session_def)
  next
    case False
    then show ?thesis using g k no [of s] by (auto simp: session_in_def change_session_def)
  qed
qed

lemma represents_session:
  "represents ids sessions current generations f \<Longrightarrow> sessions i = Some s \<longleftrightarrow> se_ID s = i \<and> session_in f s"
  by (simp add: represents_def session_in_def)

lemma represents_ok: "represents ids sessions current generations f \<Longrightarrow> fleet_ok f"
  by (simp add: represents_def)

lemma latest_open:
  "latest (open_fleet r w i f) k =
    (if k = registration_key r
     then Some (new_session r w i (word_of_nat (Suc (length (fl_history f (registration_key r)))))) else latest f k)"
  by (simp add: latest_def open_fleet_def Let_def)

lemma latest_change:
  "latest (change_session k i g f) l =
    (if l = k then map_option (\<lambda>s. if se_ID s = i then g s else s) (latest f l) else latest f l)"
  by (simp add: latest_def change_session_def split: list.splits)

lemma represents_open:
  assumes rep: "represents ids sessions current generations f" and may: "may_open r w i f"
    and k: "k = registration_key r" and g: "g = word_of_nat (Suc (length (fl_history f k)))"
    and S: "S = (case latest f k of None \<Rightarrow> sessions | Some p \<Rightarrow> sessions(se_ID p \<mapsto> markDisconnected (sw_ObservedAt w) p))"
  shows "represents (ids(k \<mapsto> registered_identity r w (ids k))) (S(i \<mapsto> new_session r w i g)) (current(k \<mapsto> i))
    (generations(k \<mapsto> g)) (open_fleet r w i f)"
proof -
  note ok = represents_ok [OF rep]
  have new: "se_ID s \<noteq> i" if "session_in f s" for s
    using may that unfolding may_open_def issued_def session_in_def by blast
  have lat: "session_in f p" if "latest f k = Some p" for p
    using latest_in [OF that] session_in_host [OF ok] by blast
  have sess: "(S(i \<mapsto> new_session r w i g)) j = Some s \<longleftrightarrow> se_ID s = j \<and> session_in (open_fleet r w i f) s" for j s
  proof (cases "latest f k")
    case None
    then show ?thesis using new k g represents_session [OF rep] by (auto simp: session_in_open [OF ok] S new_session_def)
  next
    case (Some p)
    have old: "se_ID t = se_ID p \<Longrightarrow> session_in f t \<Longrightarrow> t = p" for t using session_in_unique [OF ok _ lat [OF Some]] by blast
    have id: "se_ID (new_session r w i g) = i" by (simp add: new_session_def)
    have opened: "session_in (open_fleet r w i f) s \<longleftrightarrow>
      s = new_session r w i g \<or> s = markDisconnected (sw_ObservedAt w) p \<or> (session_in f s \<and> s \<noteq> p)"
      using Some k g by (auto simp: session_in_open [OF ok])
    consider "j = i" | "j = se_ID p" "j \<noteq> i" | "j \<noteq> i" "j \<noteq> se_ID p" by blast
    then show ?thesis
    proof cases
      case 1
      then show ?thesis using new new [OF lat [OF Some]] id unfolding opened by auto
    next
      case 2
      then show ?thesis using old id Some unfolding opened by (auto simp: S)
    next
      case 3
      then show ?thesis using id Some represents_session [OF rep] unfolding opened by (auto simp: S)
    qed
  qed
  have "ids = fl_identity f" "current = (\<lambda>k. map_option se_ID (latest f k))"
    "generations = (\<lambda>k. map_option se_Generation (latest f k))"
    using rep by (auto simp: represents_def)
  with sess open_fleet_ok [OF ok may] k g show ?thesis
    unfolding represents_def session_in_def latest_open by (simp add: open_fleet_def Let_def new_session_def)
qed

lemma represents_change:
  assumes rep: "represents ids sessions current generations f" and x: "sessions i = Some x"
    and ok': "fleet_ok (change_session (se_Host x) i g f)"
    and g: "\<And>s. se_ID (g s) = se_ID s" "\<And>s. se_Host (g s) = se_Host s" "\<And>s. se_Generation (g s) = se_Generation s"
  shows "represents ids (sessions(i \<mapsto> g x)) current generations (change_session (se_Host x) i g f)"
proof -
  have x': "session_in f x" "se_ID x = i" using represents_session [OF rep] x by simp_all
  have "(sessions(i \<mapsto> g x)) j = Some s \<longleftrightarrow> se_ID s = j \<and> session_in (change_session (se_Host x) i g f) s" for j s
    unfolding session_in_change [OF represents_ok [OF rep] x'(1) refl x'(2) [symmetric], of g, OF g(2)]
    using x' g(1) [of x] represents_session [OF rep, of j s] by (auto split: if_splits)
  moreover have same: "(\<lambda>s. se_ID (if se_ID s = i then g s else s)) = se_ID"
    "(\<lambda>s. se_Generation (if se_ID s = i then g s else s)) = se_Generation" by (simp_all add: fun_eq_iff g)
  have "map_option se_ID (latest (change_session (se_Host x) i g f) k) = map_option se_ID (latest f k)"
    "map_option se_Generation (latest (change_session (se_Host x) i g f) k) = map_option se_Generation (latest f k)" for k
    using same by (simp_all add: latest_change option.map_comp comp_def)
  ultimately show ?thesis using rep ok' unfolding represents_def session_in_def by (simp add: change_session_def)
qed

lemma renew_session_ok:
  assumes ok: "fleet_ok f" and may: "may_renew i w x f"
  shows "fleet_ok (change_session (se_Host x) i (renewed w) f)"
proof (rule change_session_ok [OF ok])
  fix s assume s: "s \<in> set (fl_history f (se_Host x))" "se_ID s = i"
  have "x \<in> set (fl_history f (se_Host x))" "se_ID x = i" using may latest_in by (auto simp: may_renew_def)
  then have "s = x" using s session_in_unique [OF ok] session_in_host [OF ok] by blast
  moreover have "se_ConnectedAt x \<le> se_LastSeenAt x"
    using history_okD(4) [OF fleet_ok_history [OF ok]] \<open>x \<in> _\<close> by blast
  ultimately show "se_ConnectedAt s \<le> se_LastSeenAt (renewed w s) \<and>
      se_LastSeenAt (renewed w s) < se_ExpiresAt (renewed w s) \<and> se_ExpiresAt (renewed w s) \<noteq> 0"
    using may by (auto simp: may_renew_def validateSessionWindow_def IsZero_def)
qed (simp_all add: disconnected_by_def)

lemma history_ok_times:
  "history_ok k ss \<Longrightarrow> s \<in> set ss \<Longrightarrow> se_LastSeenAt s < se_ExpiresAt s \<and> se_ExpiresAt s \<noteq> 0"
  by (induction ss) auto

lemma close_session_ok:
  assumes ok: "fleet_ok f" and at: "at \<noteq> 0"
  shows "fleet_ok (change_session k i (markDisconnected at) f)"
proof (rule change_session_ok [OF ok])
  fix s assume "s \<in> set (fl_history f k)"
  then show "se_ConnectedAt s \<le> se_LastSeenAt (markDisconnected at s) \<and>
      se_LastSeenAt (markDisconnected at s) < se_ExpiresAt (markDisconnected at s) \<and>
      se_ExpiresAt (markDisconnected at s) \<noteq> 0"
    using history_okD(4) [OF fleet_ok_history [OF ok]] history_ok_times [OF fleet_ok_history [OF ok]] by simp
qed (simp_all add: disconnected_by_mono at)

section \<open>How fleets evolve\<close>

inductive fleet_step :: "fleet \<Rightarrow> fleet \<Rightarrow> bool" where
  open_step: "may_open r w i f \<Longrightarrow> fleet_step f (open_fleet r w i f)"
| renew_step: "may_renew i w x f \<Longrightarrow> fleet_step f (change_session (se_Host x) i (renewed w) f)"
| close_step:
    "session_in f x \<Longrightarrow> at \<noteq> 0 \<Longrightarrow> se_ConnectedAt x \<le> at \<Longrightarrow>
     fleet_step f (change_session (se_Host x) (se_ID x) (markDisconnected at) f)"

lemma fleet_step_ok: "fleet_step f f' \<Longrightarrow> fleet_ok f \<Longrightarrow> fleet_ok f'"
  by (induction rule: fleet_step.induct) (auto intro: open_fleet_ok renew_session_ok close_session_ok)

lemma fleet_steps_ok: "fleet_step\<^sup>*\<^sup>* f f' \<Longrightarrow> fleet_ok f \<Longrightarrow> fleet_ok f'"
  by (induction rule: rtranclp_induct) (auto intro: fleet_step_ok)

text \<open>Sessions are only added, in front; none is ever forgotten.\<close>

lemma history_ids_change:
  assumes "\<And>s. se_ID (g s) = se_ID s"
  shows "map se_ID (fl_history (change_session k i g f) l) = map se_ID (fl_history f l)"
  using assms by (simp add: change_session_def comp_def if_distrib [of se_ID])

lemma supersede_ids: "map se_ID (supersede at ss) = map se_ID ss"
  by (cases ss) (simp_all add: supersede_def)

lemma fleet_step_suffix: "fleet_step f f' \<Longrightarrow> suffix (map se_ID (fl_history f k)) (map se_ID (fl_history f' k))"
proof (induction rule: fleet_step.induct)
  case (open_step r w i f)
  then show ?case by (auto simp: open_fleet_def Let_def supersede_ids intro: suffix_ConsI)
qed (simp_all add: history_ids_change)

lemma fleet_steps_suffix:
  "fleet_step\<^sup>*\<^sup>* f f' \<Longrightarrow> suffix (map se_ID (fl_history f k)) (map se_ID (fl_history f' k))"
proof (induction rule: rtranclp_induct)
  case (step g h)
  then show ?case using fleet_step_suffix [of g h k] by (auto simp: suffix_def)
qed simp

text \<open>A session that was superseded stays so.\<close>

definition superseded :: "fleet \<Rightarrow> host_key \<Rightarrow> string \<Rightarrow> bool" where
  "superseded f k i \<longleftrightarrow> i \<in> set (tl (map se_ID (fl_history f k)))"

lemma superseded_steps:
  assumes steps: "fleet_step\<^sup>*\<^sup>* f f'" and old: "superseded f k i"
  shows "superseded f' k i"
proof -
  obtain zs where "map se_ID (fl_history f' k) = zs @ map se_ID (fl_history f k)"
    using fleet_steps_suffix [OF steps] by (auto simp: suffix_def)
  moreover have "i \<in> set (map se_ID (fl_history f k))"
    using old unfolding superseded_def by (cases "map se_ID (fl_history f k)") simp_all
  ultimately show ?thesis using old by (cases zs) (simp_all add: superseded_def)
qed

lemma superseded_not_latest:
  assumes ok: "fleet_ok f" and old: "superseded f k i" and s: "session_in f s" "se_ID s = i"
  shows "se_Host s = k" and "latest f (se_Host s) \<noteq> Some s" and "se_DisconnectedAt s \<noteq> 0"
proof -
  obtain t where t: "t \<in> set (tl (fl_history f k))" "se_ID t = i"
    using old by (auto simp: superseded_def map_tl [symmetric])
  have t_in: "t \<in> set (fl_history f k)" using t(1) by (cases "fl_history f k") simp_all
  have t': "session_in f t" "se_Host t = k" using session_in_host [OF ok] t_in by simp_all
  moreover have "s = t" using session_in_unique [OF ok s(1) t'(1)] s(2) t(2) by simp
  ultimately
  show "se_Host s = k" by simp
  with t \<open>s = t\<close> fleet_ok_history [OF ok, of k]
  show "latest f (se_Host s) \<noteq> Some s" "se_DisconnectedAt s \<noteq> 0"
    by (cases "fl_history f k"; auto simp: latest_def disconnected_by_def)+
qed

text \<open>At any instant a host has at most one active session.\<close>

lemma history_one_active:
  assumes "history_ok k ss" and "s \<in> set ss" and "t \<in> set ss" and "ActiveAt s at" and "ActiveAt t at"
  shows "s = t"
  using assms
proof (induction ss)
  case (Cons x ss)
  have inactive: "\<not> (ActiveAt x at \<and> ActiveAt y at)" if "y \<in> set ss" for y
    using that Cons.prems(1) by (auto simp: ActiveAt_def disconnected_by_def IsZero_def)
  show ?case using Cons inactive by auto
qed simp

lemma one_active:
  assumes ok: "fleet_ok f" and s: "session_in f s" and t: "session_in f t" and host: "se_Host s = se_Host t"
    and act: "ActiveAt s at" "ActiveAt t at"
  shows "s = t"
  using history_one_active [OF fleet_ok_history [OF ok, of "se_Host s"] _ _ act] s t host
  by (simp add: session_in_def)

section \<open>The contract of a registry\<close>

definition in_namespace :: "string \<Rightarrow> host_key \<Rightarrow> bool" where
  "in_namespace namespace k \<longleftrightarrow> namespace = [] \<or> hk_Namespace k = namespace"

text \<open>The texts of a registration, which a store has to keep as they are.\<close>

definition registration_texts :: "registration \<Rightarrow> string set" where
  "registration_texts r =
     {re_Namespace r, re_AgentIdentifier r, re_Hostname r, re_AgentVersion r, re_SchemaVersion r} \<union>
     (case re_Attributes r of None \<Rightarrow> {} | Some a \<Rightarrow> dom a \<union> ran a)"

text \<open>The calls that change a registry, and runs of them.\<close>

datatype registry_call =
  OpenCall context_checks id_source registration session_window
| RenewCall context_checks string session_window
| CloseCall context_checks string go_time

fun call_kept :: "(string \<Rightarrow> bool) \<Rightarrow> registry_call \<Rightarrow> bool" where
  "call_kept keeps (OpenCall ctx ids r w) \<longleftrightarrow>
     (\<forall>x\<in>registration_texts r. keeps x) \<and> (\<forall>n x. ids n = Inr x \<longrightarrow> keeps x)"
| "call_kept keeps _ \<longleftrightarrow> True"

definition apply_call :: "'s registry_ops \<Rightarrow> registry_call \<Rightarrow> 's \<Rightarrow> 's" where
  "apply_call ops c s =
     (case c of
        OpenCall ctx ids r w \<Rightarrow> snd (ro_OpenSession ops ctx ids r w s)
      | RenewCall ctx i w \<Rightarrow> snd (ro_RenewSession ops ctx i w s)
      | CloseCall ctx i at \<Rightarrow> snd (ro_CloseSession ops ctx i at s))"

definition run_registry :: "'s registry_ops \<Rightarrow> registry_call list \<Rightarrow> 's \<Rightarrow> 's" where
  "run_registry ops calls s = fold (apply_call ops) calls s"

text \<open>
  A registry over the states \<open>'s\<close>, which represent fleets: \<open>keeps\<close> are the strings it stores
  unchanged, \<open>ids\<close> the source of identifiers.
\<close>

locale fleet_registry =
  fixes ops :: "'s registry_ops"
    and rep :: "'s \<Rightarrow> fleet \<Rightarrow> bool"
    and keeps :: "string \<Rightarrow> bool"
  assumes rep_ok: "rep s f \<Longrightarrow> fleet_ok f"
    and open_session:
      "\<lbrakk>rep s f; \<forall>x\<in>registration_texts r. keeps x; \<forall>n x. ids n = Inr x \<longrightarrow> keeps x;
        ro_OpenSession ops ctx ids r w s = (Inr snap, s')\<rbrakk> \<Longrightarrow>
       \<exists>i. may_open r w i f \<and> rep s' (open_fleet r w i f) \<and>
         snap = fleet_snapshot (open_fleet r w i f) (registration_key r) (latest (open_fleet r w i f) (registration_key r))"
    and open_error: "\<lbrakk>rep s f; ro_OpenSession ops ctx ids r w s = (Inl e, s')\<rbrakk> \<Longrightarrow> rep s' f"
    and renew_session:
      "\<lbrakk>rep s f; ro_RenewSession ops ctx i w s = (Inr snap, s')\<rbrakk> \<Longrightarrow>
       \<exists>x. may_renew i w x f \<and> rep s' (change_session (se_Host x) i (renewed w) f) \<and>
         snap = fleet_snapshot f (se_Host x) (Some (renewed w x))"
    and renew_error: "\<lbrakk>rep s f; ro_RenewSession ops ctx i w s = (Inl e, s')\<rbrakk> \<Longrightarrow> rep s' f"
    and close_session:
      "\<lbrakk>rep s f; ro_CloseSession ops ctx i at s = (None, s')\<rbrakk> \<Longrightarrow>
       \<exists>x. session_in f x \<and> se_ID x = i \<and> at \<noteq> 0 \<and> se_ConnectedAt x \<le> at \<and>
         rep s' (change_session (se_Host x) i (markDisconnected at) f)"
    and close_error: "\<lbrakk>rep s f; ro_CloseSession ops ctx i at s = (Some e, s')\<rbrakk> \<Longrightarrow> rep s' f"
    and resolve_session:
      "\<lbrakk>rep s f; ro_ResolveSession ops ctx i s = Inr snap\<rbrakk> \<Longrightarrow>
       \<exists>x. session_in f x \<and> se_ID x = i \<and> snap = fleet_snapshot f (se_Host x) (Some x)"
    and snapshot_active:
      "\<lbrakk>rep s f; ro_SnapshotActive ops ctx namespace at s = Inr snaps\<rbrakk> \<Longrightarrow>
       sorted_wrt (<) (map snapshot_key snaps) \<and>
       set snaps = {fleet_snapshot f k (Some x) | k x. latest f k = Some x \<and> in_namespace namespace k \<and> ActiveAt x at}"
    and list_hosts:
      "\<lbrakk>rep s f; ro_List ops ctx namespace s = Inr snaps\<rbrakk> \<Longrightarrow>
       sorted_wrt (<) (map snapshot_key snaps) \<and>
       set snaps = {fleet_snapshot f k (latest f k) | k. fl_identity f k \<noteq> None \<and> in_namespace namespace k}"
begin

lemma call_step:
  assumes "rep s f" and "call_kept keeps c"
  shows "\<exists>f'. rep (apply_call ops c s) f' \<and> fleet_step\<^sup>*\<^sup>* f f'"
proof (cases c)
  case (OpenCall ctx ids r w)
  obtain res s' where o: "ro_OpenSession ops ctx ids r w s = (res, s')" by force
  show ?thesis
  proof (cases res)
    case (Inl e)
    with o have "rep s' f" using open_error [OF assms(1)] by blast
    then show ?thesis using o OpenCall by (auto simp: apply_call_def)
  next
    case (Inr snap)
    with o assms(2) OpenCall obtain i where "may_open r w i f" "rep s' (open_fleet r w i f)"
      using open_session [OF assms(1)] by (metis call_kept.simps(1))
    then show ?thesis using o OpenCall by (auto simp: apply_call_def intro: fleet_step.open_step r_into_rtranclp)
  qed
next
  case (RenewCall ctx i w)
  obtain res s' where o: "ro_RenewSession ops ctx i w s = (res, s')" by force
  show ?thesis
  proof (cases res)
    case (Inl e)
    with o have "rep s' f" using renew_error [OF assms(1)] by blast
    then show ?thesis using o RenewCall by (auto simp: apply_call_def)
  next
    case (Inr snap)
    with o obtain x where "may_renew i w x f" "rep s' (change_session (se_Host x) i (renewed w) f)"
      using renew_session [OF assms(1)] by blast
    then show ?thesis using o RenewCall by (auto simp: apply_call_def intro: fleet_step.renew_step r_into_rtranclp)
  qed
next
  case (CloseCall ctx i at)
  obtain res s' where o: "ro_CloseSession ops ctx i at s = (res, s')" by force
  show ?thesis
  proof (cases res)
    case (Some e)
    with o have "rep s' f" using close_error [OF assms(1)] by blast
    then show ?thesis using o CloseCall by (auto simp: apply_call_def)
  next
    case None
    with o obtain x where "session_in f x" "se_ID x = i" "at \<noteq> 0" "se_ConnectedAt x \<le> at"
      "rep s' (change_session (se_Host x) i (markDisconnected at) f)"
      using close_session [OF assms(1)] by blast
    then show ?thesis using o CloseCall by (auto simp: apply_call_def intro: fleet_step.close_step r_into_rtranclp)
  qed
qed

lemma run_steps:
  "\<lbrakk>rep s f; \<forall>c\<in>set calls. call_kept keeps c\<rbrakk> \<Longrightarrow> \<exists>f'. rep (run_registry ops calls s) f' \<and> fleet_step\<^sup>*\<^sup>* f f'"
proof (induction calls arbitrary: s f)
  case (Cons c calls)
  then obtain g where g: "rep (apply_call ops c s) g" "fleet_step\<^sup>*\<^sup>* f g" using call_step [of s f c] by auto
  with Cons obtain h where "rep (run_registry ops calls (apply_call ops c s)) h" "fleet_step\<^sup>*\<^sup>* g h" by force
  with g show ?case by (auto simp: run_registry_def intro: rtranclp_trans)
qed (auto simp: run_registry_def)

text \<open>A session that was superseded is never renewed again, whatever happens in between.\<close>

lemma superseded_not_renewed:
  assumes rep: "rep s f" and kept: "\<forall>c\<in>set calls. call_kept keeps c" and old: "superseded f k i"
  shows "\<exists>e s'. ro_RenewSession ops ctx i w (run_registry ops calls s) = (Inl e, s')"
proof -
  obtain f' where f': "rep (run_registry ops calls s) f'" "fleet_step\<^sup>*\<^sup>* f f'" using run_steps [OF rep kept] by blast
  obtain res s' where r: "ro_RenewSession ops ctx i w (run_registry ops calls s) = (res, s')" by force
  show ?thesis
  proof (cases res)
    case (Inr snap)
    then obtain x where x: "may_renew i w x f'" using renew_session [OF f'(1)] r by blast
    then have "session_in f' x" "se_ID x = i" "latest f' (se_Host x) = Some x"
      using latest_in by (auto simp: may_renew_def session_in_def)
    with superseded_not_latest(2) [OF rep_ok [OF f'(1)] superseded_steps [OF f'(2) old]] show ?thesis by blast
  qed (use r in auto)
qed

text \<open>Opening a session makes it the latest, and supersedes the sessions before it.\<close>

lemma open_supersedes:
  assumes rep: "rep s f" and kept: "\<forall>x\<in>registration_texts r. keeps x" "\<forall>n x. ids n = Inr x \<longrightarrow> keeps x"
    and o: "ro_OpenSession ops ctx ids r w s = (Inr snap, s')"
    and x: "session_in f x" "se_Host x = registration_key r"
  shows "\<exists>f'. rep s' f' \<and> superseded f' (registration_key r) (se_ID x)"
proof -
  obtain i where i: "may_open r w i f" "rep s' (open_fleet r w i f)" using open_session [OF rep kept o] by blast
  have "superseded (open_fleet r w i f) (registration_key r) (se_ID x)"
    using x by (simp add: superseded_def open_fleet_def Let_def supersede_ids session_in_def)
  with i show ?thesis by blast
qed

text \<open>The roster of the hosts that are active.\<close>

lemma snapshot_of_open:
  assumes rep: "rep s f" and kept: "\<forall>x\<in>registration_texts r. keeps x" "\<forall>n x. ids n = Inr x \<longrightarrow> keeps x"
    and o: "ro_OpenSession ops ctx ids r w s = (Inr snap, s')"
    and a: "ro_SnapshotActive ops ctx' namespace (sw_ObservedAt w) s' = Inr snaps"
    and ns: "in_namespace namespace (registration_key r)"
  shows "filter (\<lambda>h. hi_Key (hs_Identity h) = registration_key r) snaps = [snap]"
proof -
  let ?k = "registration_key r"
  obtain i where i: "may_open r w i f" "rep s' (open_fleet r w i f)"
    and snap: "snap = fleet_snapshot (open_fleet r w i f) ?k (latest (open_fleet r w i f) ?k)"
    using open_session [OF rep kept o] by blast
  let ?f = "open_fleet r w i f"
  obtain n where n: "latest ?f ?k = Some n" "ActiveAt n (sw_ObservedAt w)"
    using i(1) by (auto simp: latest_open new_session_def ActiveAt_def may_open_def validateSessionWindow_def IsZero_def)
  have key: "hi_Key (the (fl_identity ?f k)) = k" if "latest ?f k = Some x" for k x
    using rep_ok [OF i(2)] that by (cases "fl_history ?f k") (auto simp: fleet_ok_def latest_def)
  have sorted: "sorted_wrt (<) (map snapshot_key snaps)"
    and snaps: "set snaps = {fleet_snapshot ?f k (Some x) | k x. latest ?f k = Some x \<and> in_namespace namespace k \<and>
      ActiveAt x (sw_ObservedAt w)}"
    using snapshot_active [OF i(2) a] by blast+
  have "h = snap" if "h \<in> set snaps" "hi_Key (hs_Identity h) = ?k" for h
    using that key n(1) unfolding snaps snap by (auto simp: fleet_snapshot_def)
  moreover have "snap \<in> set snaps" using n ns unfolding snaps snap by auto
  moreover have "hi_Key (hs_Identity snap) = ?k" using key n(1) by (simp add: snap fleet_snapshot_def)
  moreover have "distinct snaps" using sorted by (simp add: strict_sorted_iff distinct_map)
  ultimately show ?thesis by (intro distinct_filter_singleton) blast+
qed

end

end
