(* ===== verification/HostMemory.thy ===== *)
theory HostMemory
  imports HostFleet
begin

text \<open>
  The registry in memory implements the contract of \<open>HostFleet\<close> (interpretation \<open>mem\<close>), and what
  the contract gives for it: its runs simulate fleets, a host never has two active sessions, a
  session that was superseded is never renewed.
\<close>

section \<open>Rosters\<close>

abbreviation snapshot_host :: "host_snapshot \<Rightarrow> host_key" where
  "snapshot_host s \<equiv> hi_Key (hs_Identity s)"

lemma snapshot_key_inj: "snapshot_key s = snapshot_key t \<longleftrightarrow> snapshot_host s = snapshot_host t"
  by (auto simp: snapshot_key_def intro: host_key.equality)

lemma sortSnapshots_strict:
  assumes "distinct (map snapshot_host xs)"
  shows "sorted_wrt (<) (map snapshot_key (sortSnapshots xs)) \<and> set (sortSnapshots xs) = set xs"
proof -
  have "distinct (map snapshot_key xs)"
    using assms by (simp add: distinct_map inj_on_def snapshot_key_inj)
  then have "distinct (map snapshot_key (sort_key snapshot_key xs))" by (simp add: distinct_map)
  then show ?thesis by (simp add: sortSnapshots_def strict_sorted_iff)
qed

lemma map_filter_cong':
  "(\<And>x. x \<in> set xs \<Longrightarrow> g x = h x) \<Longrightarrow> List.map_filter g xs = List.map_filter h xs"
  by (induction xs) (simp_all add: List.map_filter_simps split: option.split)

text \<open>A roster that a loop over the entries of a map collects and sorts.\<close>

lemma map_filter_keys:
  assumes "distinct (map fst al)" and "\<And>k v. (k, v) \<in> set al \<Longrightarrow> h (k, v) = (if Q k then Some (g k) else None)"
  shows "List.map_filter h al = map g (filter Q (map fst al))"
  using assms
proof (induction al)
  case (Cons p al)
  have "List.map_filter h al = map g (filter Q (map fst al))" using Cons by simp
  moreover have "h p = (if Q (fst p) then Some (g (fst p)) else None)" using Cons.prems(2) [of "fst p" "snd p"] by simp
  ultimately show ?case by (simp add: List.map_filter_simps)
qed (simp add: List.map_filter_simps)

lemma roster:
  assumes dist: "distinct (map fst al)"
    and h: "\<And>k v. (k, v) \<in> set al \<Longrightarrow> h (k, v) = (if Q k then Some (g k) else None)"
    and key: "\<And>k v. (k, v) \<in> set al \<Longrightarrow> snapshot_host (g k) = k"
  shows "sorted_wrt (<) (map snapshot_key (sortSnapshots (List.map_filter h al))) \<and>
    set (sortSnapshots (List.map_filter h al)) = {g k | k v. (k, v) \<in> set al \<and> Q k}"
proof -
  have eq: "List.map_filter h al = map g (filter Q (map fst al))" by (rule map_filter_keys) (use dist h in auto)
  have "snapshot_host (g k) = k" if "k \<in> fst ` set al" for k using that key by auto
  then have "map snapshot_host (List.map_filter h al) = filter Q (map fst al)"
    unfolding eq by (auto intro: map_idI)
  with dist have "distinct (map snapshot_host (List.map_filter h al))" by simp
  moreover have "set (List.map_filter h al) = {g k | k v. (k, v) \<in> set al \<and> Q k}" unfolding eq by force
  ultimately show ?thesis using sortSnapshots_strict by metis
qed

section \<open>The state in memory represents a fleet\<close>

definition memory_represents :: "memory \<Rightarrow> fleet \<Rightarrow> bool" where
  "memory_represents m f \<longleftrightarrow>
     represents (map_of (mem_identities m)) (mem_sessions m) (map_of (mem_current m)) (mem_generations m) f \<and>
     distinct (map fst (mem_identities m)) \<and> distinct (map fst (mem_current m))"

lemma newMemory_represents: "memory_represents newMemory empty_fleet"
  by (simp add: memory_represents_def newMemory_def represents_def empty_fleet_ok)
    (simp add: empty_fleet_def latest_def)

lemma memory_current:
  assumes rep: "memory_represents m f"
  shows "current_of m k = (case latest f k of None \<Rightarrow> [] | Some s \<Rightarrow> se_ID s)"
    and "latest f k = Some s \<Longrightarrow> se_ID s \<noteq> []"
    and "latest f k = Some s \<Longrightarrow> session_of m (se_ID s) = s"
    and "latest f k = Some s \<Longrightarrow> mem_sessions m (se_ID s) = Some s"
    and "latest f k = Some s \<Longrightarrow> se_Host s = k"
proof -
  have r: "represents (map_of (mem_identities m)) (mem_sessions m) (map_of (mem_current m)) (mem_generations m) f"
    using rep by (simp add: memory_represents_def)
  then show "current_of m k = (case latest f k of None \<Rightarrow> [] | Some s \<Rightarrow> se_ID s)"
    by (simp add: current_of_def represents_def split: option.splits)
  show s: "mem_sessions m (se_ID s) = Some s" if "latest f k = Some s"
    using represents_session [OF r] session_in_host [OF represents_ok [OF r]] latest_in [OF that] by simp
  show "se_Host s = k" if "latest f k = Some s"
    using session_in_host [OF represents_ok [OF r]] latest_in [OF that] by blast
  show "session_of m (se_ID s) = s" if "latest f k = Some s" using s [OF that] by (simp add: session_of_def)
  show "se_ID s \<noteq> []" if "latest f k = Some s"
    using history_okD(2) [OF fleet_ok_history [OF represents_ok [OF r]] latest_in [OF that]] by auto
qed

lemma draw_fresh:
  "draw_session_id ids taken k n = Inr i \<Longrightarrow> trimSpace i \<noteq> [] \<and> \<not> taken i \<and> (\<exists>j. ids j = Inr i)"
  by (induction ids taken k n rule: draw_session_id.induct) (auto split: sum.splits if_splits)

text \<open>Opening a session, on every branch.\<close>

lemma mem_open_cases:
  assumes rep: "memory_represents m f"
    and valid: "first_of [map_option RegistryContext (ctx 0), validateRegistration r, validateSessionWindow w] = None"
    and i: "draw_session_id ids (\<lambda>i. mem_sessions m i \<noteq> None) 0 maxSessionIDAttempts = Inr i"
  shows "(\<exists>p. latest f (registration_key r) = Some p \<and> sw_ObservedAt w < se_LastSeenAt p \<and>
            mem_OpenSession ctx ids r w m = (Inl ObservationMovedBackwards, m)) \<or>
         (\<not> Suc (length (fl_history f (registration_key r))) < 2 ^ 64 \<and>
            mem_OpenSession ctx ids r w m = (Inl GenerationOverflow, m)) \<or>
         (may_open r w i f \<and>
            (\<exists>m'. mem_OpenSession ctx ids r w m =
               (Inr (fleet_snapshot (open_fleet r w i f) (registration_key r) (latest (open_fleet r w i f) (registration_key r))),
                m') \<and> memory_represents m' (open_fleet r w i f)))"
proof -
  let ?k = "registration_key r" and ?at = "sw_ObservedAt w"
  have r: "represents (map_of (mem_identities m)) (mem_sessions m) (map_of (mem_current m)) (mem_generations m) f"
    using rep by (simp add: memory_represents_def)
  have gen: "generation_of m ?k = word_of_nat (length (fl_history f ?k))"
    "generation_of m ?k = - 1 \<longleftrightarrow> \<not> Suc (length (fl_history f ?k)) < 2 ^ 64"
    using represents_generation [OF r] by (simp_all add: generation_of_def)
  have ids: "map_of (mem_identities m) = fl_identity f" using r by (simp add: represents_def)
  note cur = memory_current [OF rep]
  consider p where "latest f ?k = Some p" "?at < se_LastSeenAt p"
    | "\<forall>p. latest f ?k = Some p \<longrightarrow> \<not> ?at < se_LastSeenAt p" "\<not> Suc (length (fl_history f ?k)) < 2 ^ 64"
    | "\<forall>p. latest f ?k = Some p \<longrightarrow> \<not> ?at < se_LastSeenAt p" "Suc (length (fl_history f ?k)) < 2 ^ 64" by blast
  then show ?thesis
  proof cases
    case (1 p)
    then show ?thesis using valid i cur by (simp add: mem_OpenSession_def Let_def)
  next
    case 2
    then show ?thesis using valid i cur(1,2) cur(3) [of ?k] gen(2)
      by (cases "latest f ?k") (simp_all add: mem_OpenSession_def Let_def)
  next
    case 3
    let ?g = "word_of_nat (Suc (length (fl_history f ?k))) :: 64 word"
    let ?S = "case latest f ?k of None \<Rightarrow> mem_sessions m | Some p \<Rightarrow> (mem_sessions m)(se_ID p \<mapsto> markDisconnected ?at p)"
    let ?id = "registered_identity r w (fl_identity f ?k)"
    let ?m = "\<lparr>mem_identities = AList.update ?k ?id (mem_identities m), mem_sessions = ?S(i \<mapsto> new_session r w i ?g),
        mem_current = AList.update ?k i (mem_current m), mem_generations = (mem_generations m)(?k \<mapsto> ?g)\<rparr>"
    have "validateRegistration r = None" "validateSessionWindow w = None"
      using valid by (auto simp: first_of_None)
    then have may: "may_open r w i f"
      using 3 draw_fresh [OF i] represents_issued [OF r] by (auto simp: may_open_def not_less)
    have g: "generation_of m ?k + 1 = ?g" using gen(1) by simp
    have "mem_OpenSession ctx ids r w m = (Inr \<lparr>hs_Identity = ?id, hs_Session = Some (new_session r w i ?g)\<rparr>, ?m)"
      using 3 valid i cur(1,2) cur(3) [of ?k] gen(2)
      by (cases "latest f ?k") (simp_all add: mem_OpenSession_def Let_def g ids del: of_nat_Suc)
    moreover have "memory_represents ?m (open_fleet r w i f)"
      using represents_open [OF r may refl refl refl] rep
      by (simp add: memory_represents_def distinct_update update_conv' ids del: of_nat_Suc)
    moreover have "\<lparr>hs_Identity = ?id, hs_Session = Some (new_session r w i ?g)\<rparr> =
        fleet_snapshot (open_fleet r w i f) ?k (latest (open_fleet r w i f) ?k)"
      by (simp add: fleet_snapshot_def latest_open) (simp add: open_fleet_def Let_def)
    ultimately show ?thesis using may by auto
  qed
qed

lemma mem_open_error:
  "mem_OpenSession ctx ids r w m = (Inl e, m') \<Longrightarrow> m' = m"
  by (auto simp: mem_OpenSession_def Let_def split: option.splits sum.splits if_splits)

lemma mem_open_session:
  assumes rep: "memory_represents m f" and o: "mem_OpenSession ctx ids r w m = (Inr snap, m')"
  shows "\<exists>i. may_open r w i f \<and> memory_represents m' (open_fleet r w i f) \<and>
    snap = fleet_snapshot (open_fleet r w i f) (registration_key r) (latest (open_fleet r w i f) (registration_key r))"
proof -
  have valid: "first_of [map_option RegistryContext (ctx 0), validateRegistration r, validateSessionWindow w] = None"
    using o by (auto simp: mem_OpenSession_def split: option.splits)
  moreover obtain i where "draw_session_id ids (\<lambda>i. mem_sessions m i \<noteq> None) 0 maxSessionIDAttempts = Inr i"
    using o valid by (auto simp: mem_OpenSession_def split: sum.splits)
  ultimately show ?thesis using mem_open_cases [OF rep] o by fastforce
qed

lemma fleet_identity: "fleet_ok f \<Longrightarrow> session_in f s \<Longrightarrow> fl_identity f (se_Host s) \<noteq> None"
  unfolding fleet_ok_def session_in_def by (metis empty_iff list.set(1))

lemma memory_session:
  assumes rep: "memory_represents m f"
  shows "mem_sessions m i = Some s \<longleftrightarrow> se_ID s = i \<and> session_in f s"
    and "session_in f s \<Longrightarrow> identity_of m (se_Host s) = the (fl_identity f (se_Host s))"
    and "fl_identity f k = Some x \<Longrightarrow> identity_of m k = x"
proof -
  have r: "represents (map_of (mem_identities m)) (mem_sessions m) (map_of (mem_current m)) (mem_generations m) f"
    using rep by (simp add: memory_represents_def)
  then have ids: "map_of (mem_identities m) = fl_identity f" by (simp add: represents_def)
  show "mem_sessions m i = Some s \<longleftrightarrow> se_ID s = i \<and> session_in f s" by (rule represents_session [OF r])
  show "fl_identity f k = Some x \<Longrightarrow> identity_of m k = x" by (simp add: identity_of_def ids)
  assume "session_in f s"
  then have "fl_identity f (se_Host s) \<noteq> None"
    by (rule fleet_identity [OF represents_ok [OF r]])
  then show "identity_of m (se_Host s) = the (fl_identity f (se_Host s))" by (auto simp: identity_of_def ids)
qed

lemma memory_change:
  assumes rep: "memory_represents m f" and x: "mem_sessions m i = Some x"
    and ok: "fleet_ok (change_session (se_Host x) i g f)"
    and g: "\<And>s. se_ID (g s) = se_ID s" "\<And>s. se_Host (g s) = se_Host s" "\<And>s. se_Generation (g s) = se_Generation s"
  shows "memory_represents (m\<lparr>mem_sessions := (mem_sessions m)(i \<mapsto> g x)\<rparr>) (change_session (se_Host x) i g f)"
  using represents_change [OF conjunct1 [OF rep [unfolded memory_represents_def]] x, of g] ok g rep
  unfolding memory_represents_def by simp

lemma check_renewal_iff:
  assumes rep: "memory_represents m f" and x: "mem_sessions m i = Some x" and win: "validateSessionWindow w = None"
    and i: "trimSpace i \<noteq> []"
  shows "check_renewal i w x (current_of m (se_Host x)) = None \<longleftrightarrow> may_renew i w x f"
proof -
  have xin: "se_ID x = i" "session_in f x" using memory_session(1) [OF rep] x by simp_all
  have "i \<noteq> []" using i by auto
  then have "current_of m (se_Host x) = i \<longleftrightarrow> latest f (se_Host x) = Some x"
    using memory_current(1) [OF rep, of "se_Host x"] memory_current(4) [OF rep, of "se_Host x"] x xin
    by (cases "latest f (se_Host x)") (simp, metis option.sel option.simps(5))
  then show ?thesis using win xin by (auto simp: check_renewal_def may_renew_def IsZero_def not_less)
qed

lemma mem_renew_session:
  assumes rep: "memory_represents m f" and o: "mem_RenewSession ctx i w m = (Inr snap, m')"
  shows "\<exists>x. may_renew i w x f \<and> memory_represents m' (change_session (se_Host x) i (renewed w) f) \<and>
    snap = fleet_snapshot f (se_Host x) (Some (renewed w x))"
proof -
  obtain x where x: "mem_sessions m i = Some x" and win: "validateSessionWindow w = None" "trimSpace i \<noteq> []"
    and chk: "check_renewal i w x (current_of m (se_Host x)) = None"
    and res: "snap = \<lparr>hs_Identity = identity_of m (se_Host x), hs_Session = Some (renewed w x)\<rparr>"
      "m' = m\<lparr>mem_sessions := (mem_sessions m)(i \<mapsto> renewed w x)\<rparr>"
    using o by (auto simp: mem_RenewSession_def split: option.splits)
  have may: "may_renew i w x f" using check_renewal_iff [OF rep x win] chk by simp
  have "fleet_ok f" using rep by (simp add: memory_represents_def represents_def)
  from memory_change [OF rep x renew_session_ok [OF this may]]
  have "memory_represents m' (change_session (se_Host x) i (renewed w) f)" unfolding res by simp
  with may res memory_session [OF rep] x show ?thesis by (auto simp: fleet_snapshot_def)
qed

lemma mem_renew_error: "mem_RenewSession ctx i w m = (Inl e, m') \<Longrightarrow> m' = m"
  by (auto simp: mem_RenewSession_def split: option.splits)

lemma mem_close_session:
  assumes rep: "memory_represents m f" and o: "mem_CloseSession ctx i at m = (None, m')"
  shows "\<exists>x. session_in f x \<and> se_ID x = i \<and> at \<noteq> 0 \<and> se_ConnectedAt x \<le> at \<and>
    memory_represents m' (change_session (se_Host x) i (markDisconnected at) f)"
proof -
  obtain x where x: "mem_sessions m i = Some x" "at \<noteq> 0" "se_ConnectedAt x \<le> at"
    and m': "m' = m\<lparr>mem_sessions := (mem_sessions m)(i \<mapsto> markDisconnected at x)\<rparr>"
    using o by (auto simp: mem_CloseSession_def IsZero_def split: option.splits if_splits)
  have "fleet_ok f" using rep by (simp add: memory_represents_def represents_def)
  from memory_change [OF rep x(1) close_session_ok [OF this x(2)]] x memory_session(1) [OF rep]
  show ?thesis unfolding m' by auto
qed

lemma mem_close_error: "mem_CloseSession ctx i at m = (Some e, m') \<Longrightarrow> m' = m"
  by (auto simp: mem_CloseSession_def split: option.splits if_splits)

lemma mem_resolve_session:
  assumes rep: "memory_represents m f" and o: "mem_ResolveSession ctx i m = Inr snap"
  shows "\<exists>x. session_in f x \<and> se_ID x = i \<and> snap = fleet_snapshot f (se_Host x) (Some x)"
  using o memory_session [OF rep] by (auto simp: mem_ResolveSession_def fleet_snapshot_def split: option.splits)

lemma memory_hosts:
  assumes rep: "memory_represents m f"
  shows "latest f k = Some x \<Longrightarrow> hi_Key (identity_of m k) = k \<and> identity_of m k = the (fl_identity f k)"
    and "(k, i) \<in> set (mem_current m) \<longleftrightarrow> (\<exists>x. latest f k = Some x \<and> se_ID x = i)"
    and "(k, y) \<in> set (mem_identities m) \<longleftrightarrow> fl_identity f k = Some y"
    and "fl_identity f k = Some y \<Longrightarrow> hi_Key y = k"
proof -
  have r: "represents (map_of (mem_identities m)) (mem_sessions m) (map_of (mem_current m)) (mem_generations m) f"
    and d: "distinct (map fst (mem_identities m))" "distinct (map fst (mem_current m))"
    using rep by (simp_all add: memory_represents_def)
  show keys: "hi_Key y = k" if "fl_identity f k = Some y" for k y
    using represents_ok [OF r] that by (simp add: fleet_ok_def)
  show "(k, y) \<in> set (mem_identities m) \<longleftrightarrow> fl_identity f k = Some y"
    using d(1) r by (simp add: represents_def flip: map_of_eq_Some_iff)
  show "(k, i) \<in> set (mem_current m) \<longleftrightarrow> (\<exists>x. latest f k = Some x \<and> se_ID x = i)"
  proof -
    have "map_of (mem_current m) k = map_option se_ID (latest f k)" using r by (simp add: represents_def)
    then show ?thesis using map_of_eq_Some_iff [OF d(2), of k i] by (cases "latest f k") auto
  qed
  show "hi_Key (identity_of m k) = k \<and> identity_of m k = the (fl_identity f k)" if x: "latest f k = Some x"
  proof -
    have "fl_identity f k \<noteq> None"
      using fleet_identity [OF represents_ok [OF r], of x] session_in_host [OF represents_ok [OF r], of x k] latest_in [OF x]
      by simp
    then show ?thesis using keys memory_session(3) [OF rep] by force
  qed
qed

lemma mem_snapshot_active:
  assumes rep: "memory_represents m f" and o: "mem_SnapshotActive ctx namespace at m = Inr snaps"
  shows "sorted_wrt (<) (map snapshot_key snaps) \<and>
    set snaps = {fleet_snapshot f k (Some x) | k x. latest f k = Some x \<and> in_namespace namespace k \<and> ActiveAt x at}"
proof -
  let ?h = "\<lambda>(key, sessionID).
     if namespace \<noteq> [] \<and> hk_Namespace key \<noteq> namespace then None
     else if \<not> ActiveAt (session_of m sessionID) at then None
     else Some \<lparr>hs_Identity = identity_of m key, hs_Session = Some (session_of m sessionID)\<rparr>"
  let ?Q = "\<lambda>k. in_namespace namespace k \<and> ActiveAt (the (latest f k)) at"
  have snaps: "snaps = sortSnapshots (List.map_filter ?h (mem_current m))"
    using o by (auto simp: mem_SnapshotActive_def split: option.splits)
  have ent: "\<exists>x. latest f k = Some x \<and> se_ID x = i" if "(k, i) \<in> set (mem_current m)" for k i
    using that memory_hosts(2) [OF rep] by blast
  have "sorted_wrt (<) (map snapshot_key snaps) \<and>
    set snaps = {fleet_snapshot f k (latest f k) | k i. (k, i) \<in> set (mem_current m) \<and> ?Q k}"
    unfolding snaps
  proof (rule roster)
    show "distinct (map fst (mem_current m))" using rep by (simp add: memory_represents_def)
    show "?h (k, i) = (if ?Q k then Some (fleet_snapshot f k (latest f k)) else None)"
      if "(k, i) \<in> set (mem_current m)" for k i
      using ent [OF that] memory_hosts(1) [OF rep, of k] memory_current(3) [OF rep, of k]
      by (auto simp: fleet_snapshot_def in_namespace_def)
    show "snapshot_host (fleet_snapshot f k (latest f k)) = k" if "(k, i) \<in> set (mem_current m)" for k i
      using ent [OF that] memory_hosts(1) [OF rep, of k] by (auto simp: fleet_snapshot_def)
  qed
  moreover have "{fleet_snapshot f k (latest f k) | k i. (k, i) \<in> set (mem_current m) \<and> ?Q k} =
    {fleet_snapshot f k (Some x) | k x. latest f k = Some x \<and> in_namespace namespace k \<and> ActiveAt x at}"
    unfolding memory_hosts(2) [OF rep] by (rule set_eqI) (simp, metis option.sel)
  ultimately show ?thesis by simp
qed

lemma mem_list_hosts:
  assumes rep: "memory_represents m f" and o: "mem_List ctx namespace m = Inr snaps"
  shows "sorted_wrt (<) (map snapshot_key snaps) \<and>
    set snaps = {fleet_snapshot f k (latest f k) | k. fl_identity f k \<noteq> None \<and> in_namespace namespace k}"
proof -
  let ?h = "\<lambda>(key, identity).
     if namespace \<noteq> [] \<and> hk_Namespace key \<noteq> namespace then None
     else Some \<lparr>hs_Identity = identity,
       hs_Session = (if current_of m key \<noteq> [] then Some (session_of m (current_of m key)) else None)\<rparr>"
  have snaps: "snaps = sortSnapshots (List.map_filter ?h (mem_identities m))"
    using o by (auto simp: mem_List_def split: option.splits)
  have "sorted_wrt (<) (map snapshot_key snaps) \<and>
    set snaps = {fleet_snapshot f k (latest f k) | k y. (k, y) \<in> set (mem_identities m) \<and> in_namespace namespace k}"
    unfolding snaps
  proof (rule roster)
    show "distinct (map fst (mem_identities m))" using rep by (simp add: memory_represents_def)
    show "?h (k, y) = (if in_namespace namespace k then Some (fleet_snapshot f k (latest f k)) else None)"
      if "(k, y) \<in> set (mem_identities m)" for k y
      using that memory_hosts(3) [OF rep] memory_current(1-3) [OF rep, of k]
      by (cases "latest f k") (simp_all add: fleet_snapshot_def in_namespace_def)
    show "snapshot_host (fleet_snapshot f k (latest f k)) = k" if "(k, y) \<in> set (mem_identities m)" for k y
      using that memory_hosts(3) [OF rep] memory_hosts(4) [OF rep] by (simp add: fleet_snapshot_def)
  qed
  then show ?thesis unfolding memory_hosts(3) [OF rep] by auto
qed

interpretation mem: fleet_registry memory_registry memory_represents "\<lambda>_. True"
proof
  show "fleet_ok f" if "memory_represents s f" for s f using that by (simp add: memory_represents_def represents_def)
qed (auto simp: memory_registry_def intro: mem_open_session mem_renew_session mem_close_session mem_resolve_session
      dest: mem_open_error mem_renew_error mem_close_error mem_snapshot_active mem_list_hosts)

section \<open>Properties of the registry in memory\<close>

lemma memory_run:
  "\<exists>f. memory_represents (run_registry memory_registry calls newMemory) f \<and> fleet_step\<^sup>*\<^sup>* empty_fleet f"
proof -
  have "call_kept (\<lambda>_. True) c" for c by (cases c) simp_all
  then show ?thesis using mem.run_steps [OF newMemory_represents, of calls] by simp
qed


text \<open>
  C16: After any sequence of calls, two sessions of the same host that are both active at an
  instant are the same session: a host never has two active sessions, so that a query sends
  its work to one agent of a host.
\<close>

theorem one_active_session:
  assumes "m = run_registry memory_registry calls newMemory"
    and "mem_sessions m i = Some s" and "mem_sessions m j = Some t" and "se_Host s = se_Host t"
    and "ActiveAt s at" and "ActiveAt t at"
  shows "i = j"
proof -
  obtain f where f: "memory_represents m f" using memory_run assms(1) by blast
  have s: "session_in f s" "se_ID s = i" and t: "session_in f t" "se_ID t = j"
    using assms(2,3) memory_session(1) [OF f] by simp_all
  have "s = t" by (rule one_active [OF mem.rep_ok [OF f] s(1) t(1) assms(4-6)])
  with s t show ?thesis by simp
qed

text \<open>
  C17: Once a new session of a host has been opened, a session that the host had before is never
  renewed again, whatever calls come in between: the late heartbeat of a replaced agent stream
  is rejected and changes nothing.
\<close>

theorem superseded_never_renewed:
  assumes "m = run_registry memory_registry calls newMemory"
    and "mem_sessions m i = Some s" and "se_Host s = registration_key r"
    and "mem_OpenSession ctx ids r w m = (Inr snap, m1)"
    and "m2 = run_registry memory_registry later m1"
  shows "\<exists>e. mem_RenewSession ctx' i w' m2 = (Inl e, m2)"
proof -
  obtain f where f: "memory_represents m f" using memory_run assms(1) by blast
  have s: "session_in f s" "se_ID s = i" using assms(2) memory_session(1) [OF f] by simp_all
  obtain f1 where f1: "memory_represents m1 f1" "superseded f1 (registration_key r) i"
    using mem.open_supersedes [OF f, of r ids ctx w snap m1 s] assms(3,4) s by (auto simp: memory_registry_def)
  have "call_kept (\<lambda>_. True) c" for c by (cases c) simp_all
  then obtain e m' where "mem_RenewSession ctx' i w' m2 = (Inl e, m')"
    using mem.superseded_not_renewed [OF f1(1) _ f1(2), of later ctx' w'] assms(5) by (auto simp: memory_registry_def)
  then show ?thesis using mem_renew_error by blast
qed

text \<open>
  C30: A late CloseSession of a session that is not current does not affect the roster: the
  active hosts at any instant, with their sessions, are the same before and after it.
\<close>

theorem late_close_harmless:
  assumes "m = run_registry memory_registry calls newMemory"
    and "mem_sessions m i = Some s" and "current_of m (se_Host s) \<noteq> i"
    and "mem_CloseSession ctx i at m = (res, m')"
  shows "mem_SnapshotActive ctx' namespace t m' = mem_SnapshotActive ctx' namespace t m"
proof -
  obtain f where f: "memory_represents m f" using memory_run assms(1) by blast
  have same: "session_of m' j = session_of m j" if "j \<noteq> i" for j
    using assms(4) that by (auto simp: mem_CloseSession_def session_of_def split: option.splits if_splits)
  have other: "j \<noteq> i" if kj: "(k, j) \<in> set (mem_current m)" for k j
  proof -
    obtain x where x: "latest f k = Some x" "se_ID x = j" using kj memory_hosts(2) [OF f] by blast
    have "current_of m (se_Host x) = j" using memory_current(1,5) [OF f] x by simp
    moreover have "mem_sessions m j = Some x" using memory_current(4) [OF f] x by blast
    ultimately show ?thesis using assms(2,3) by auto
  qed
  have cur: "mem_current m' = mem_current m" and "mem_identities m' = mem_identities m"
    using assms(4) by (auto simp: mem_CloseSession_def split: option.splits if_splits)
  then have ids: "identity_of m' = identity_of m" by (simp add: identity_of_def fun_eq_iff)
  let ?h = "\<lambda>m (key, sessionID). if namespace \<noteq> [] \<and> hk_Namespace key \<noteq> namespace then None
         else if \<not> ActiveAt (session_of m sessionID) t then None
         else Some \<lparr>hs_Identity = identity_of m key, hs_Session = Some (session_of m sessionID)\<rparr>"
  have "?h m' p = ?h m p" if "p \<in> set (mem_current m)" for p
  proof (cases p)
    case (Pair k j)
    with that same [OF other, of k j] show ?thesis by (simp add: ids)
  qed
  then have "List.map_filter (?h m') (mem_current m') = List.map_filter (?h m) (mem_current m)"
    unfolding cur by (rule map_filter_cong')
  then show ?thesis unfolding mem_SnapshotActive_def by (simp only:)
qed

text \<open>
  C31: When a session was opened, the roster of its namespace (or of all of them) at the instant of
  the opening has exactly one entry for the host, the snapshot that OpenSession returned: the
  identity with the hostname and attributes of the registration, and the new session.
\<close>

theorem opened_session_in_roster:
  assumes "m = run_registry memory_registry calls newMemory"
    and "mem_OpenSession ctx ids r w m = (Inr snap, m')"
    and "mem_SnapshotActive ctx' namespace (sw_ObservedAt w) m' = Inr snaps"
    and "namespace = [] \<or> namespace = re_Namespace r"
  shows "filter (\<lambda>h. hi_Key (hs_Identity h) = registration_key r) snaps = [snap]"
proof -
  obtain f where f: "memory_represents m f" using memory_run assms(1) by blast
  show ?thesis
    using mem.snapshot_of_open [OF f, of r ids ctx w snap m' ctx' namespace snaps] assms(2-4)
    by (auto simp: memory_registry_def in_namespace_def registration_key_def)
qed

section \<open>Witnesses\<close>

definition web_host :: registration where
  "web_host =
     \<lparr>re_Namespace = ''n'', re_AgentIdentifier = ''w'', re_Hostname = ''web'', re_AgentVersion = ''1'',
      re_ProtocolVersion = \<lparr>pn_Major = 1, pn_Minor = 0\<rparr>, re_SchemaVersion = ''1'', re_MaxConcurrentScans = 4,
      re_Attributes = None\<rparr>"

definition window_at :: "go_time \<Rightarrow> session_window" where
  "window_at t = \<lparr>sw_ObservedAt = t, sw_ExpiresAt = t + 10\<rparr>"

definition open_at :: "string \<Rightarrow> go_time \<Rightarrow> registry_call" where
  "open_at i t = OpenCall (\<lambda>_. None) (\<lambda>_. Inr i) web_host (window_at t)"

definition web_key :: host_key where
  "web_key = \<lparr>hk_Namespace = ''n'', hk_ID = ''w''\<rparr>"

definition web_memory :: memory where
  "web_memory = run_registry memory_registry [open_at ''a'' 5] newMemory"

definition web_session :: "string \<Rightarrow> go_time \<Rightarrow> 64 word \<Rightarrow> go_time \<Rightarrow> agent_session" where
  "web_session i t g d = (new_session web_host (window_at t) i g)\<lparr>se_DisconnectedAt := d\<rparr>"

lemma web_memory_session: "mem_sessions web_memory ''a'' = Some (web_session ''a'' 5 1 0)"
  by code_simp

theorem one_active_session_witness:
  "mem_sessions web_memory ''a'' = Some (web_session ''a'' 5 1 0) \<and> ActiveAt (web_session ''a'' 5 1 0) 6 \<and> ''a'' = (''a'' :: string)"
proof -
  have a: "ActiveAt (web_session ''a'' 5 1 0) 6" by code_simp
  from one_active_session [OF web_memory_def web_memory_session web_memory_session refl a a] a
  show ?thesis by (simp add: web_memory_session)
qed

definition web_reopened :: host_snapshot where
  "web_reopened = projr (fst (mem_OpenSession (\<lambda>_. None) (\<lambda>_. Inr ''b'') web_host (window_at 7) web_memory))"

lemma web_reopened_session: "hs_Session web_reopened = Some (web_session ''b'' 7 2 0)"
  by code_simp

lemma web_open_again:
  "mem_OpenSession (\<lambda>_. None) (\<lambda>_. Inr ''b'') web_host (window_at 7) web_memory =
    (Inr web_reopened, run_registry memory_registry [open_at ''b'' 7] web_memory)"
proof -
  have "\<not> isl (fst (mem_OpenSession (\<lambda>_. None) (\<lambda>_. Inr ''b'') web_host (window_at 7) web_memory))" by code_simp
  then show ?thesis
    by (simp add: run_registry_def apply_call_def open_at_def memory_registry_def prod_eq_iff web_reopened_def)
qed

theorem superseded_never_renewed_witness:
  "\<exists>e. mem_RenewSession (\<lambda>_. None) ''a'' (window_at 8)
      (run_registry memory_registry [open_at ''c'' 8] (run_registry memory_registry [open_at ''b'' 7] web_memory)) =
    (Inl e, run_registry memory_registry [open_at ''c'' 8] (run_registry memory_registry [open_at ''b'' 7] web_memory))"
proof -
  have "se_Host (web_session ''a'' 5 1 0) = registration_key web_host" by (simp add: web_session_def new_session_def)
  from superseded_never_renewed [OF web_memory_def web_memory_session this web_open_again refl] show ?thesis .
qed

theorem late_close_harmless_witness:
  "let m = run_registry memory_registry [open_at ''a'' 5, open_at ''b'' 7] newMemory in
   mem_SnapshotActive (\<lambda>_. None) ''n'' 9 (snd (mem_CloseSession (\<lambda>_. None) ''a'' 8 m)) =
   mem_SnapshotActive (\<lambda>_. None) ''n'' 9 m \<and> current_of m web_key = ''b''"
proof -
  let ?m = "run_registry memory_registry [open_at ''a'' 5, open_at ''b'' 7] newMemory"
  have s: "mem_sessions ?m ''a'' = Some (web_session ''a'' 5 1 7)" by code_simp
  have k: "se_Host (web_session ''a'' 5 1 7) = web_key" by code_simp
  have c: "current_of ?m web_key = ''b''" by code_simp
  then have "current_of ?m (se_Host (web_session ''a'' 5 1 7)) \<noteq> ''a''" unfolding k by simp
  from late_close_harmless [OF refl s this prod.collapse [symmetric]] c show ?thesis by (simp add: Let_def)
qed

theorem opened_session_in_roster_witness:
  "\<exists>snap snaps. mem_SnapshotActive (\<lambda>_. None) ''n'' 7 (run_registry memory_registry [open_at ''b'' 7] web_memory) = Inr snaps \<and>
     hs_Session snap = Some (web_session ''b'' 7 2 0) \<and>
     filter (\<lambda>h. hi_Key (hs_Identity h) = registration_key web_host) snaps = [snap]"
proof -
  let ?m = "run_registry memory_registry [open_at ''b'' 7] web_memory"
  obtain snaps where s: "mem_SnapshotActive (\<lambda>_. None) ''n'' 7 ?m = Inr snaps"
  proof -
    have "isl (mem_SnapshotActive (\<lambda>_. None) ''n'' 7 ?m) = False" by code_simp
    then show ?thesis using that by (cases "mem_SnapshotActive (\<lambda>_. None) ''n'' 7 ?m") auto
  qed
  then have s': "mem_SnapshotActive (\<lambda>_. None) ''n'' (sw_ObservedAt (window_at 7)) ?m = Inr snaps"
    by (simp add: window_at_def)
  have n: "''n'' = [] \<or> ''n'' = re_Namespace web_host" by (simp add: web_host_def)
  from opened_session_in_roster [OF web_memory_def web_open_again s' n] s web_reopened_session show ?thesis by blast
qed

end
