(* ===== verification/HostQuery.thy ===== *)
theory HostQuery
  imports HostStream HostMemory
begin

text \<open>
  The coordinator of the queries of the host provider
  (\<open>providers/host/internal/query/coordinator.go\<close>): the checks of a query, the rows of the table
  \<open>HOST\<close> from the registry, and the targets of a scan of the other tables. \<open>reg\<close> is the registry
  with its state, \<open>now\<close> the clock, \<open>ctx\<close> the checks of the context of the call.
\<close>

section \<open>The coordinator\<close>

definition from_context :: "context_err \<Rightarrow> go_error" where
  "from_context e =
     Status (case e of ContextCanceled \<Rightarrow> Canceled | ContextDeadlineExceeded \<Rightarrow> DeadlineExceeded) (HostReason (HostContext e))"

text \<open>
  The configuration: defaults for what is zero, and the checks of \<open>newCoordinator\<close>. The flags say
  whether the registry, the session directory and the two functions of the runtime are given.
\<close>

datatype coordinator_err =
    QueryRegistryRequired
  | QueryDirectoryRequired
  | ScanTimeoutPositive
  | PreferredBatchRowsLimit
  | ConcurrentTargetsPositive
  | RowLimitPositive
  | ByteLimitPositive
  | RuntimeIntegrationRequired

definition DefaultConfig :: coordinator_config where
  "DefaultConfig =
     \<lparr>qc_AllowPartialResults = False, qc_AllowUnboundedFanout = False, qc_ScanTimeout = 10 * 10 ^ 9,
      qc_PreferredBatchRows = 128, qc_MaxConcurrentTargets = 8, qc_MaxRowsPerTarget = 100000,
      qc_MaxBytesPerTarget = 32 * 2 ^ 20\<rparr>"

definition newCoordinator ::
  "bool \<Rightarrow> bool \<Rightarrow> bool \<Rightarrow> bool \<Rightarrow> coordinator_config \<Rightarrow> coordinator_err + coordinator_config" where
  "newCoordinator fleet sessions now newScanID config =
     (let d = DefaultConfig;
          c = config\<lparr>
            qc_ScanTimeout := if qc_ScanTimeout config = 0 then qc_ScanTimeout d else qc_ScanTimeout config,
            qc_PreferredBatchRows := if qc_PreferredBatchRows config = 0 then qc_PreferredBatchRows d
              else qc_PreferredBatchRows config,
            qc_MaxConcurrentTargets := if qc_MaxConcurrentTargets config = 0 then qc_MaxConcurrentTargets d
              else qc_MaxConcurrentTargets config,
            qc_MaxRowsPerTarget := if qc_MaxRowsPerTarget config = 0 then qc_MaxRowsPerTarget d
              else qc_MaxRowsPerTarget config,
            qc_MaxBytesPerTarget := if qc_MaxBytesPerTarget config = 0 then qc_MaxBytesPerTarget d
              else qc_MaxBytesPerTarget config\<rparr>
      in case first_of
           [fail_if (\<not> fleet) QueryRegistryRequired,
            fail_if (\<not> sessions) QueryDirectoryRequired,
            fail_if (qc_ScanTimeout c < 0) ScanTimeoutPositive,
            fail_if (qc_PreferredBatchRows c > 1024) PreferredBatchRowsLimit,
            fail_if (qc_MaxConcurrentTargets c < 0) ConcurrentTargetsPositive,
            fail_if (qc_MaxRowsPerTarget c < 0) RowLimitPositive,
            fail_if (qc_MaxBytesPerTarget c < 0) ByteLimitPositive,
            fail_if (\<not> now \<or> \<not> newScanID) RuntimeIntegrationRequired] of
           Some e \<Rightarrow> Inl e
         | None \<Rightarrow> Inr c)"

lemma newCoordinator_limits:
  assumes "newCoordinator fleet sessions now newScanID config = Inr c"
  shows "qc_ScanTimeout c > 0" "qc_MaxConcurrentTargets c > 0" "qc_MaxRowsPerTarget c > 0" "qc_MaxBytesPerTarget c > 0"
  using assms by (auto simp: newCoordinator_def DefaultConfig_def Let_def fail_if_def split: if_splits option.splits)

text \<open>The answer of \<open>Query\<close>: an error, a stream over known rows, or one over the targets.\<close>

datatype host_answer =
    HostError go_error
  | HostRows static_stream
  | HostScans "host_snapshot list" distributed

definition route_namespace :: "access_route \<Rightarrow> string" where
  "route_namespace r = (case ar_namespace r of None \<Rightarrow> [] | Some n \<Rightarrow> n)"

text \<open>The tests of the loops over hosts and over targets.\<close>

definition route_selects :: "access_route \<Rightarrow> host_snapshot \<Rightarrow> bool" where
  "route_selects r h \<longleftrightarrow>
     \<not> (ar_hostID r \<noteq> None \<and> ar_hostID r \<noteq> Some (hk_ID (hi_Key (hs_Identity h)))) \<and>
     \<not> (ar_hostname r \<noteq> None \<and> ar_hostname r \<noteq> Some (hi_Hostname (hs_Identity h)))"

fun project_hosts :: "query_plan \<Rightarrow> go_time \<Rightarrow> host_snapshot list \<Rightarrow> host_row_err + tuple_msg list" where
  "project_hosts plan at [] = Inr []"
| "project_hosts plan at (h # hs) =
     (if \<not> route_selects (pl_route plan) h then project_hosts plan at hs
      else
        (case projectValues plan (hostValues h at) of
           Inl e \<Rightarrow> Inl e
         | Inr t \<Rightarrow> (case project_hosts plan at hs of Inl e \<Rightarrow> Inl e | Inr ts \<Rightarrow> Inr (t # ts))))"

definition queryHosts ::
  "'s registry_ops \<Rightarrow> context_checks \<Rightarrow> go_time \<Rightarrow> query_request \<Rightarrow> query_plan \<Rightarrow> 's \<Rightarrow> host_answer" where
  "queryHosts reg ctx now request plan s =
     (if ar_impossible (pl_route plan) then HostRows (newStaticStream (plan_fields plan) [] (queryBatchSize request))
      else
        (case ro_List reg ctx (route_namespace (pl_route plan)) s of
           Inl e \<Rightarrow> HostError (Status Internal (HostReason (HostList e)))
         | Inr hosts \<Rightarrow>
             (case project_hosts plan now hosts of
                Inl e \<Rightarrow> HostError (Status Internal (HostReason (HostProject e)))
              | Inr tuples \<Rightarrow> HostRows (newStaticStream (plan_fields plan) tuples (queryBatchSize request)))))"

definition queryAgents ::
  "coordinator_config \<Rightarrow> 's registry_ops \<Rightarrow> context_checks \<Rightarrow> go_time \<Rightarrow> query_request \<Rightarrow> query_plan \<Rightarrow> 's \<Rightarrow> host_answer" where
  "queryAgents cfg reg ctx now request plan s =
     (let r = pl_route plan in
      if \<not> ar_impossible r \<and> unbounded r \<and> \<not> qc_AllowUnboundedFanout cfg
      then HostError (Status FailedPrecondition (HostReason HostFanoutDisabled))
      else if ar_impossible r then HostScans [] (newDistributedStream request plan 0)
      else
        (case ro_SnapshotActive reg ctx (route_namespace r) now s of
           Inl e \<Rightarrow> HostError (Status Internal (HostReason (HostSnapshot e)))
         | Inr targets \<Rightarrow>
             (let selected_targets = (if ar_hostID r \<noteq> None \<or> ar_hostname r \<noteq> None
                                      then filter (route_selects r) targets else targets)
              in HostScans selected_targets (newDistributedStream request plan (length selected_targets)))))"

definition coordinator_Query ::
  "unicode \<Rightarrow> unicode \<Rightarrow> coordinator_config \<Rightarrow> 's registry_ops \<Rightarrow> context_checks \<Rightarrow> go_time \<Rightarrow> query_request \<Rightarrow> 's \<Rightarrow>
   host_answer" where
  "coordinator_Query up low cfg reg ctx now request s =
     (case ctx 0 of
        Some e \<Rightarrow> HostError (from_context e)
      | None \<Rightarrow>
          (case buildPlan up low request of
             Inl e \<Rightarrow> HostError (Status InvalidArgument (HostReason (HostPlan e)))
           | Inr plan \<Rightarrow>
               if q_allow_partial_results request \<and> \<not> qc_AllowPartialResults cfg
               then HostError (Status FailedPrecondition (HostReason HostPartialDisabled))
               else if RequiresArrayFeature up low (pl_table plan) (plan_sourceColumns plan) \<and>
                       ArrayValuesV1 \<notin> set (q_accepted_features request)
               then HostError (Status FailedPrecondition (HostReason (HostNeedsFeature ArrayValuesV1)))
               else if pl_table plan = HostTable then queryHosts reg (ctx \<circ> Suc) now request plan s
               else if GatewayTable up (pl_table plan) = None
               then HostError (Status NotFound (HostReason (HostTableNotFound (pl_table plan))))
               else queryAgents cfg reg (ctx \<circ> Suc) now request plan s))"

section \<open>The columns of a plan\<close>

definition column_ok :: "host_column \<Rightarrow> bool" where
  "column_ok c \<longleftrightarrow>
     (if co_Type c = VALUE_TYPE_ARRAY then co_TypeDescriptor c = Some stringArrayType
      else co_TypeDescriptor c = None \<and>
        co_Type c \<in> {VALUE_TYPE_STRING, VALUE_TYPE_INTEGER, VALUE_TYPE_LONG, VALUE_TYPE_BIGINTEGER, VALUE_TYPE_DOUBLE,
          VALUE_TYPE_TIMESTAMP})"

definition table_ok :: "table_definition \<Rightarrow> bool" where
  "table_ok d \<longleftrightarrow>
     distinct (map co_Name (tdn_columns d)) \<and> list_all column_ok (tdn_columns d) \<and>
     take 3 (tdn_columns d) = accessColumns \<and> list_all (\<lambda>c. \<not> co_Access c) (drop 3 (tdn_columns d))"

lemma tables_ok: "list_all table_ok tableDefinitions"
  by code_simp

end
