(* ===== verification/HostOutput.thy ===== *)
theory HostOutput
  imports HostQuery
begin

text \<open>
  What the host provider delivers is what the SDK accepts: the rows of the registry and the rows of
  agents that passed \<open>ValidateValues\<close> have the types that the plan declares, and the
  outcomes of the streams are valid.
\<close>

section \<open>Values of a column\<close>

definition column_descriptor :: "host_column \<Rightarrow> type_descriptor" where
  "column_descriptor c =
     (if co_Type c = VALUE_TYPE_ARRAY then stringArrayType else TypeDescriptor (co_Type c) None None None)"

text \<open>A message from the wire has no variant with a nil payload.\<close>

definition wire_value :: "value option \<Rightarrow> bool" where
  "wire_value v \<longleftrightarrow> (case v of None \<Rightarrow> True | Some x \<Rightarrow> kind_of x \<noteq> NullValue None)"

text \<open>A value of the type of a column, or null.\<close>

definition column_value :: "host_column \<Rightarrow> value \<Rightarrow> bool" where
  "column_value c v \<longleftrightarrow>
     is_null (kind_of v) \<or>
     (actual_type (kind_of v) = Inr (co_Type c) \<and>
      (\<forall>et es. array_parts (kind_of v) = Some (et, es) \<longrightarrow> et = Some string_descriptor \<and> check_elements 0 es = None))"

lemma check_elements_strings:
  "check_elements i es = None \<Longrightarrow> \<forall>e\<in>set es. \<exists>s. e = Some (Value (StringValue s))"
proof (induction i es rule: check_elements.induct)
  case (2 i e es)
  then obtain v s where "e = Some v" "kind_of v = StringValue s" by (auto split: option.splits kind.splits)
  with 2 show ?case by (cases v) auto
qed simp

lemma validate_string_value: "validateValue (Some (Value (StringValue s))) (Some string_descriptor) = None"
  by (simp add: validateValue.simps(2) is_null_def actual_type_def array_parts_def string_descriptor_def)

lemma string_features: "validateOutputValueFeatures accepted lobs (Some (Value (StringValue s))) = None"
  by (simp add: validateOutputValueFeatures.simps(2) check_kind_features_def is_array_def is_spatial_def lob_payload_def
      array_elements_def)

lemma first_error_nowhere: "(\<And>i x. x \<in> set xs \<Longrightarrow> g i x = None) \<Longrightarrow> first_error g i xs = None"
  by (induction xs arbitrary: i) simp_all

lemma null_value_valid:
  "validateValue (Some (Value (NullValue (Some u)))) d = None"
  "validateOutputValueFeatures accepted lobs (Some (Value (NullValue (Some u)))) = None"
  by (simp_all add: validateValue.simps(2) is_null_def validateOutputValueFeatures.simps(2) check_kind_features_def
      is_array_def is_spatial_def lob_payload_def array_elements_def)

lemma array_value_valid:
  assumes "check_elements 0 es = None"
  shows "validateValue (Some (Value (ArrayValue (Some string_descriptor) es))) (Some stringArrayType) = None"
    and "ArrayValuesV1 \<in> set accepted \<Longrightarrow>
      validateOutputValueFeatures accepted lobs (Some (Value (ArrayValue (Some string_descriptor) es))) = None"
proof -
  have es: "\<forall>e\<in>set es. \<exists>s. e = Some (Value (StringValue s))" by (rule check_elements_strings [OF assms])
  have "validateValue e (Some string_descriptor) = None" "validateOutputValueFeatures accepted lobs e = None"
    if "e \<in> set es" for e using es that by (auto simp: validate_string_value string_features)
  then show "validateValue (Some (Value (ArrayValue (Some string_descriptor) es))) (Some stringArrayType) = None"
    and "ArrayValuesV1 \<in> set accepted \<Longrightarrow>
      validateOutputValueFeatures accepted lobs (Some (Value (ArrayValue (Some string_descriptor) es))) = None"
    by (simp_all add: validateValue.simps(2) validateOutputValueFeatures.simps(2) is_null_def actual_type_def
        stringArrayType_def string_descriptor_def validateTypeDescriptor_def ValueType_known_def check_dimensions_def
        check_kind_features_def is_array_def requireAcceptedFeature_def array_elements_def first_error_nowhere)
qed

lemma column_descriptor_valid: "column_ok c \<Longrightarrow> validateTypeDescriptor (Some (column_descriptor c)) = None"
  by (auto simp: column_ok_def column_descriptor_def stringArrayType_def string_descriptor_def validateTypeDescriptor_def
      ValueType_known_def check_dimensions_def split: if_splits)

lemma host_type_kind:
  assumes "actual_type k = Inr t" and "t \<in> {VALUE_TYPE_STRING, VALUE_TYPE_INTEGER, VALUE_TYPE_LONG, VALUE_TYPE_BIGINTEGER,
    VALUE_TYPE_DOUBLE, VALUE_TYPE_TIMESTAMP}"
  shows "array_parts k = None \<and> \<not> is_array k \<and> \<not> is_spatial k \<and> lob_payload k = None \<and> array_elements k = []"
  using assms by (cases k) (auto simp: actual_type_def array_parts_def is_array_def is_spatial_def lob_payload_def
      array_elements_def split: option.splits if_splits)

lemma column_value_valid:
  assumes ok: "column_ok c" and v: "column_value c v"
  shows "validateValueAgainstDescriptor (Some v) (Some (column_descriptor c)) = None"
    and "co_Type c \<noteq> VALUE_TYPE_ARRAY \<or> ArrayValuesV1 \<in> set accepted \<Longrightarrow>
      validateOutputValueFeatures accepted lobs (Some v) = None"
proof -
  obtain k where k: "v = Value k" by (cases v)
  have "validateValue (Some v) (Some (column_descriptor c)) = None \<and>
    (co_Type c \<noteq> VALUE_TYPE_ARRAY \<or> ArrayValuesV1 \<in> set accepted \<longrightarrow>
      validateOutputValueFeatures accepted lobs (Some v) = None)"
  proof (cases "is_null k")
    case True
    then obtain u where "k = NullValue (Some u)" by (auto simp: is_null_def split: kind.splits option.splits)
    then show ?thesis using null_value_valid k by simp
  next
    case False
    then have t: "actual_type k = Inr (co_Type c)" using v k by (simp add: column_value_def)
    show ?thesis
    proof (cases "co_Type c = VALUE_TYPE_ARRAY")
      case True
      with t obtain et es where "k = ArrayValue et es" by (cases k) (auto simp: actual_type_def split: option.splits if_splits)
      with v k False have "k = ArrayValue (Some string_descriptor) es" "check_elements 0 es = None"
        by (auto simp: column_value_def)
      with array_value_valid [of es] True k show ?thesis by (simp add: column_descriptor_def)
    next
      case other: False
      then have "co_Type c \<in> {VALUE_TYPE_STRING, VALUE_TYPE_INTEGER, VALUE_TYPE_LONG, VALUE_TYPE_BIGINTEGER,
          VALUE_TYPE_DOUBLE, VALUE_TYPE_TIMESTAMP}"
        using ok by (simp add: column_ok_def)
      with host_type_kind [OF t] False t k other show ?thesis
        by (simp add: validateValue.simps(2) validateOutputValueFeatures.simps(2) check_kind_features_def column_descriptor_def)
    qed
  qed
  then show "validateValueAgainstDescriptor (Some v) (Some (column_descriptor c)) = None"
    and "co_Type c \<noteq> VALUE_TYPE_ARRAY \<or> ArrayValuesV1 \<in> set accepted \<Longrightarrow>
      validateOutputValueFeatures accepted lobs (Some v) = None"
    by (simp_all add: validateValueAgainstDescriptor_def column_descriptor_valid [OF ok])
qed

text \<open>What \<open>ValidateValues\<close> accepts has the type of its column.\<close>

lemma validated_column_value:
  assumes ok: "column_ok c" and v: "validate_host_value c (Some v) = None" and wire: "wire_value (Some v)"
  shows "column_value c v"
proof (cases "is_null_kind (kind_of v)")
  case True
  then have "is_null (kind_of v)"
    using wire by (auto simp: is_null_kind_def is_null_def wire_value_def split: kind.splits option.splits)
  then show ?thesis by (simp add: column_value_def)
next
  case False
  then have typed: "validate_typed c v = None" using v by (auto simp: validate_host_value_def split: if_splits)
  show ?thesis
  proof (cases "co_Type c = VALUE_TYPE_ARRAY")
    case True
    then have "co_TypeDescriptor c = Some stringArrayType" using ok by (simp add: column_ok_def)
    with True typed obtain es where "kind_of v = ArrayValue (Some string_descriptor) es" "check_elements 0 es = None"
      by (auto simp: validate_typed_def validateStringArray_def stringArrayType_def split: kind.splits if_splits)
    with True show ?thesis by (simp add: column_value_def actual_type_def)
  next
    case other: False
    then have "co_Type c \<in> {VALUE_TYPE_STRING, VALUE_TYPE_INTEGER, VALUE_TYPE_LONG, VALUE_TYPE_BIGINTEGER,
        VALUE_TYPE_DOUBLE, VALUE_TYPE_TIMESTAMP}"
      using ok by (simp add: column_ok_def)
    then have "actual_type (kind_of v) = Inr (co_Type c) \<and> array_parts (kind_of v) = None"
      using typed unfolding validate_typed_def Let_def by (cases "kind_of v") (auto simp: actual_type_def array_parts_def)
    then show ?thesis by (simp add: column_value_def)
  qed
qed

section \<open>Plans and tuples\<close>

text \<open>The columns that a plan projects, and a tuple with a value for each.\<close>

definition projects :: "query_plan \<Rightarrow> host_column list \<Rightarrow> bool" where
  "projects plan cs \<longleftrightarrow> list_all2 (\<lambda>p c. p = column_projection c (f_name (pj_field p))) (pl_projections plan) cs"

definition tuple_for :: "host_column list \<Rightarrow> tuple_msg \<Rightarrow> bool" where
  "tuple_for cs t \<longleftrightarrow> list_all2 (\<lambda>c v. \<exists>x. v = Some x \<and> column_value c x) cs t"

lemma column_output_descriptor:
  assumes "column_ok c"
  shows "output_descriptor i (Some (pj_field (column_projection c n))) = Inr (Some (column_descriptor c))"
  using assms column_descriptor_valid [OF assms]
  by (auto simp: output_descriptor_def column_projection_def column_ok_def column_descriptor_def ValueType_known_def
      stringArrayType_def Let_def split: if_splits)

lemma projections_fields:
  "list_all2 (\<lambda>p c. p = column_projection c (f_name (pj_field p))) ps cs \<Longrightarrow> list_all column_ok cs \<Longrightarrow>
   collect_descriptors output_descriptor i (map Some (map pj_field ps)) = Inr (map (Some \<circ> column_descriptor) cs)"
proof (induction ps arbitrary: cs i)
  case (Cons p ps)
  then obtain c cs' where cs: "cs = c # cs'" and p: "p = column_projection c (f_name (pj_field p))"
    and rest: "list_all2 (\<lambda>p c. p = column_projection c (f_name (pj_field p))) ps cs'" by (auto simp: list_all2_Cons1)
  have "output_descriptor i (Some (pj_field p)) = Inr (Some (column_descriptor c))"
    using column_output_descriptor [of c i "f_name (pj_field p)"] Cons.prems(2) cs p by simp
  with Cons.IH [OF rest] Cons.prems(2) cs show ?case by simp
qed simp

lemma projects_fields:
  "projects plan cs \<Longrightarrow> list_all column_ok cs \<Longrightarrow>
   collect_descriptors output_descriptor i (map Some (plan_fields plan)) = Inr (map (Some \<circ> column_descriptor) cs)"
  using projections_fields unfolding projects_def plan_fields_def by blast

lemma projects_array:
  assumes "projects plan cs" and "\<not> list_ex (\<lambda>c. co_Type c = VALUE_TYPE_ARRAY) cs" and "list_all column_ok cs"
    and f: "f \<in> set (plan_fields plan)"
  shows "\<not> field_is_array (Some f)"
proof -
  obtain p where p: "p \<in> set (pl_projections plan)" "f = pj_field p" using f by (auto simp: plan_fields_def)
  obtain c where c: "c \<in> set cs" "p = column_projection c (f_name (pj_field p))"
    using list_all2_left [OF assms(1) [unfolded projects_def] p(1)] by blast
  have "co_Type c \<noteq> VALUE_TYPE_ARRAY" "column_ok c" using assms(2,3) c(1) by (auto simp: list_ex_iff list_all_iff)
  moreover have "f_type f = co_Type c" "f_type_descriptor f = co_TypeDescriptor c"
    unfolding p(2) by (subst c(2), simp add: column_projection_def)+
  ultimately show ?thesis by (simp add: field_is_array_def column_ok_def)
qed

lemma tuple_for_nth: "tuple_for cs t \<Longrightarrow> length t = length cs \<and> (\<forall>i<length cs. \<exists>x. t ! i = Some x \<and> column_value (cs ! i) x)"
  by (simp add: tuple_for_def list_all2_conv_all_nth)

lemma first_error_nth: "(\<And>k. k < length xs \<Longrightarrow> g (i + k) (xs ! k) = None) \<Longrightarrow> first_error g i xs = None"
proof (induction xs arbitrary: i)
  case (Cons x xs)
  have "g (Suc i + k) (xs ! k) = None" if "k < length xs" for k using Cons.prems [of "Suc k"] that by simp
  with Cons.IH Cons.prems [of 0] show ?case by simp
qed simp

lemma batch_valid:
  assumes plan: "projects plan cs" "list_all column_ok cs"
    and features: "list_ex (\<lambda>c. co_Type c = VALUE_TYPE_ARRAY) cs \<Longrightarrow> ArrayValuesV1 \<in> set accepted"
    and b: "b_fields b = map Some (plan_fields plan)" "\<forall>t\<in>set (b_tuples b). \<exists>x. t = Some x \<and> tuple_for cs x"
  shows "validateOutputBatchFeatures (Some b) accepted lobs = None"
proof -
  have value_ok: "validateValueAgainstDescriptor (x ! i) (map (Some \<circ> column_descriptor) cs ! i) = None \<and>
      validateOutputValueFeatures accepted lobs (x ! i) = None" if x: "tuple_for cs x" and i: "i < length x" for x i
  proof -
    obtain v where v: "x ! i = Some v" "column_value (cs ! i) v" and len: "length x = length cs"
      using tuple_for_nth [OF x] i by auto
    have ok: "column_ok (cs ! i)" using plan(2) i len by (simp add: list_all_length)
    have "co_Type (cs ! i) \<noteq> VALUE_TYPE_ARRAY \<or> ArrayValuesV1 \<in> set accepted"
      using features i len by (auto simp: list_ex_length)
    then show ?thesis using column_value_valid [OF ok v(2)] v(1) i len by simp
  qed
  have "validateBatchTuples b (map (Some \<circ> column_descriptor) cs) = None"
    unfolding validateBatchTuples_def
  proof (rule first_error_nowhere)
    fix ti t assume "t \<in> set (b_tuples b)"
    then obtain x where x: "t = Some x" "tuple_for cs x" using b(2) by blast
    have "first_error (\<lambda>vi v. map_option (AtValue (InTupleValue ti vi))
        (validateValueAgainstDescriptor v (map (Some \<circ> column_descriptor) cs ! vi))) 0 x = None"
      by (rule first_error_nth) (use value_ok [OF x(2)] in simp)
    then show "(case t of None \<Rightarrow> Some (BatchErr (TupleNil ti)) | Some vs \<Rightarrow>
        first_of [fail_if (length vs \<noteq> length (map (Some \<circ> column_descriptor) cs))
            (BatchErr (TupleArity ti (length vs) (length (map (Some \<circ> column_descriptor) cs)))),
          first_error (\<lambda>vi v. map_option (AtValue (InTupleValue ti vi))
            (validateValueAgainstDescriptor v (map (Some \<circ> column_descriptor) cs ! vi))) 0 vs]) = None"
      using x tuple_for_nth [OF x(2)] by simp
  qed
  then have "validateOutputBatchStructure (Some b) = None"
    using projects_fields [OF plan] b(1) by (simp add: validateOutputBatchStructure_def)
  moreover have "first_error (\<lambda>i f. if field_is_array f then map_option (InField i) (requireAcceptedFeature accepted ArrayValuesV1)
      else None) 0 (b_fields b) = None"
  proof (rule first_error_nowhere)
    fix i f assume "f \<in> set (b_fields b)"
    then obtain g where g: "f = Some g" "g \<in> set (plan_fields plan)" using b(1) by auto
    show "(if field_is_array f then map_option (InField i) (requireAcceptedFeature accepted ArrayValuesV1) else None) = None"
      using features projects_array [OF plan(1) _ plan(2) g(2)] g(1)
      by (cases "list_ex (\<lambda>c. co_Type c = VALUE_TYPE_ARRAY) cs") (simp_all add: requireAcceptedFeature_def)
  qed
  moreover have "first_error (\<lambda>ti t. case t of None \<Rightarrow> None | Some vs \<Rightarrow>
      first_error (\<lambda>vi v. map_option (InTupleFeature ti vi) (validateOutputValueFeatures accepted lobs v)) 0 vs) 0 (b_tuples b) = None"
  proof (rule first_error_nowhere)
    fix ti t assume "t \<in> set (b_tuples b)"
    then obtain x where x: "t = Some x" "tuple_for cs x" using b(2) by blast
    show "(case t of None \<Rightarrow> None | Some vs \<Rightarrow>
      first_error (\<lambda>vi v. map_option (InTupleFeature ti vi) (validateOutputValueFeatures accepted lobs v)) 0 vs) = None"
      unfolding x(1) option.case by (rule first_error_nth) (use value_ok [OF x(2)] in simp)
  qed
  ultimately show ?thesis by (simp add: validateOutputBatchFeatures_def)
qed

lemma findTable_ok: "findTable up t = Some d \<Longrightarrow> table_ok d"
  using tables_ok by (auto simp: findTable_def find_Some_iff list_all_iff)

lemma plan_projection_column:
  assumes "plan_projection low table columns i p = Inr x"
  shows "\<exists>c\<in>set columns. x = column_projection c (f_name (pj_field x))"
proof -
  obtain c n where "columnByName low columns n = Some c" "\<exists>o'. x = column_projection c o'"
    using assms by (auto simp: plan_projection_def split: option.splits if_splits)
  moreover have "c \<in> set columns" if "columnByName low columns n = Some c" for c n
    using that unfolding columnByName_def find_Some_iff by (metis nth_mem set_rev)
  ultimately show ?thesis by (auto simp: column_projection_def)
qed

lemma plan_projections_columns:
  "plan_projections low table columns i ps = Inr xs \<Longrightarrow>
   \<exists>cs. set cs \<subseteq> set columns \<and> list_all2 (\<lambda>p c. p = column_projection c (f_name (pj_field p))) xs cs"
proof (induction ps arbitrary: i xs)
  case (Cons p ps)
  then obtain x ys where x: "plan_projection low table columns i p = Inr x" "xs = x # ys"
    and ys: "plan_projections low table columns (Suc i) ps = Inr ys" by (auto split: sum.splits)
  obtain cs where "set cs \<subseteq> set columns" "list_all2 (\<lambda>p c. p = column_projection c (f_name (pj_field p))) ys cs"
    using Cons.IH [OF ys] by blast
  moreover obtain c where "c \<in> set columns" "x = column_projection c (f_name (pj_field x))"
    using plan_projection_column [OF x(1)] by blast
  ultimately show ?case using x(2) by (intro exI [of _ "c # cs"]) auto
qed simp

lemma buildPlan_columns:
  assumes "buildPlan up low request = Inr plan"
  shows "\<exists>d cs. findTable up (pl_table plan) = Some d \<and> table_ok d \<and> set cs \<subseteq> set (tdn_columns d) \<and> projects plan cs \<and>
    parseAccessFilter low (q_filter request) = Inr (pl_route plan)"
proof -
  obtain columns projections where c: "Columns up (pl_table plan) = Some columns"
    and p: "(if q_projections request = [] then Inr (map (\<lambda>c. column_projection c (co_Name c)) columns)
        else plan_projections low (pl_table plan) columns 0 (q_projections request)) = Inr projections"
    and plan: "pl_projections plan = projections" "parseAccessFilter low (q_filter request) = Inr (pl_route plan)"
    using assms by (auto simp: buildPlan_def Let_def split: option.splits if_splits sum.splits)
  obtain d where d: "findTable up (pl_table plan) = Some d" "columns = tdn_columns d" using c by (auto simp: Columns_def)
  have "\<exists>cs. set cs \<subseteq> set columns \<and> list_all2 (\<lambda>p c. p = column_projection c (f_name (pj_field p))) projections cs"
  proof (cases "q_projections request = []")
    case True
    then show ?thesis using p by (intro exI [of _ columns]) (auto simp: list_all2_map1 list_all2_same column_projection_def)
  next
    case False
    then show ?thesis using p plan_projections_columns by simp
  qed
  then show ?thesis using d plan findTable_ok [OF d(1)] by (auto simp: projects_def)
qed

lemma projection_sources:
  "list_all2 (\<lambda>p c. p = column_projection c (f_name (pj_field p))) ps cs \<Longrightarrow> map pj_sourceName ps = map co_Name cs"
proof (induction ps arbitrary: cs)
  case (Cons p ps)
  then obtain c cs' where cs: "cs = c # cs'" and p: "p = column_projection c (f_name (pj_field p))"
    and rest: "list_all2 (\<lambda>p c. p = column_projection c (f_name (pj_field p))) ps cs'" by (auto simp: list_all2_Cons1)
  have "pj_sourceName p = co_Name c" by (subst p) (simp add: column_projection_def)
  with Cons.IH [OF rest] cs show ?case by simp
qed simp

lemma projects_sources: "projects plan cs \<Longrightarrow> plan_sourceColumns plan = map co_Name cs"
  unfolding projects_def plan_sourceColumns_def by (rule projection_sources)

lemma projected_tuple:
  assumes "\<forall>c\<in>set cs. \<exists>x. vs (co_Name c) = Some x \<and> column_value c x"
  shows "\<exists>t. project_columns vs (map co_Name cs) = Inr t \<and> tuple_for cs t"
  using assms
proof (induction cs)
  case (Cons c cs)
  then obtain t x where "project_columns vs (map co_Name cs) = Inr t" "tuple_for cs t" "vs (co_Name c) = Some x" "column_value c x"
    by auto
  then show ?case by (intro exI [of _ "Some x # t"]) (simp add: tuple_for_def)
qed (simp add: tuple_for_def)

lemma projectValues_tuple:
  assumes "projects plan cs" and "\<forall>c\<in>set cs. \<exists>x. vs (co_Name c) = Some x \<and> column_value c x"
  shows "\<exists>t. projectValues plan vs = Inr t \<and> tuple_for cs t"
  using projected_tuple [OF assms(2)] projects_sources [OF assms(1)] by (simp add: projectValues_def)

section \<open>The values of a row\<close>

lemma set_values_other: "x \<notin> set cs \<Longrightarrow> set_values m cs vs x = m x"
  by (induction m cs vs rule: set_values.induct) auto

lemma set_values_nth:
  "distinct cs \<Longrightarrow> length cs = length vs \<Longrightarrow> i < length cs \<Longrightarrow> set_values m cs vs (cs ! i) = vs ! i"
proof (induction m cs vs arbitrary: i rule: set_values.induct)
  case (1 m c cs v vs)
  show ?case
  proof (cases i)
    case (Suc j)
    then show ?thesis using "1.IH" [of j] "1.prems" by (simp del: fun_upd_apply)
  qed (use 1 in \<open>simp add: set_values_other\<close>)
qed simp_all

lemma validate_columns_nth:
  "validate_columns d cs vs = None \<Longrightarrow> length cs = length vs \<Longrightarrow> i < length cs \<Longrightarrow>
   \<exists>c. column_named d (cs ! i) = Some c \<and> validate_host_value c (vs ! i) = None"
proof (induction d cs vs arbitrary: i rule: validate_columns.induct)
  case (1 d name names v vs)
  then show ?case by (cases i) (auto split: option.splits if_splits)
qed simp_all

lemma column_named_column:
  assumes "distinct (map co_Name (tdn_columns d))" and "c \<in> set (tdn_columns d)"
  shows "column_named d (co_Name c) = Some c"
proof -
  have "\<exists>x. List.find (\<lambda>x. co_Name x = co_Name c) (rev (tdn_columns d)) = Some x"
  proof -
    have "List.find (\<lambda>x. co_Name x = co_Name c) (rev (tdn_columns d)) \<noteq> None" using assms(2) by (auto simp: find_None_iff)
    then show ?thesis by blast
  qed
  then obtain x where x: "column_named d (co_Name c) = Some x" by (auto simp: column_named_def)
  then obtain i where i: "i < length (rev (tdn_columns d))" "co_Name (rev (tdn_columns d) ! i) = co_Name c"
      "x = rev (tdn_columns d) ! i"
    unfolding column_named_def find_Some_iff by blast
  then have "co_Name x = co_Name c" "x \<in> set (tdn_columns d)" using nth_mem [OF i(1)] by simp_all
  with assms x show ?thesis by (auto simp: distinct_map inj_on_def)
qed

definition access_values :: "host_identity \<Rightarrow> string \<rightharpoonup> value" where
  "access_values i =
     [NamespaceColumn \<mapsto> host_string (hk_Namespace (hi_Key i)), HostIDColumn \<mapsto> host_string (hk_ID (hi_Key i)),
      HostnameColumn \<mapsto> hostname_value (hi_Hostname i)]"

lemma access_column_value:
  assumes "c \<in> set accessColumns"
  shows "\<exists>x. access_values i (co_Name c) = Some x \<and> column_value c x"
proof -
  have "column_value c (host_string s)" "column_value c host_null" if "co_Type c = VALUE_TYPE_STRING" for c s
    using that by (simp_all add: column_value_def host_string_def host_null_def actual_type_def is_null_def array_parts_def)
  then show ?thesis using assms access_columns_distinct
    by (auto simp: accessColumns_def plainColumn_def access_values_def hostname_value_def)
qed

lemma agent_row_values:
  assumes d: "findTable up table = Some d" and local: "LocalColumns up table = Some columns"
    and vals: "agentValues up table target columns row = Inr vs" and wire: "\<forall>v\<in>set row. wire_value v"
    and c: "c \<in> set (tdn_columns d)"
  shows "\<exists>x. vs (co_Name c) = Some x \<and> column_value c x"
proof -
  have ok: "table_ok d" by (rule findTable_ok [OF d])
  let ?local = "drop 3 (tdn_columns d)"
  have split_columns: "tdn_columns d = accessColumns @ ?local" using ok by (metis append_take_drop_id table_ok_def)
  have gt: "agent_table up table = Some d" using local d by (auto simp: LocalColumns_def agent_table_def split: if_splits)
  have "filter (\<lambda>c. \<not> co_Access c) ?local = ?local" using ok by (simp add: table_ok_def list_all_iff)
  moreover have "filter (\<lambda>c. \<not> co_Access c) accessColumns = []" by (simp add: accessColumns_def)
  ultimately have "filter (\<lambda>c. \<not> co_Access c) (tdn_columns d) = ?local" by (subst split_columns) simp
  then have columns: "columns = map co_Name ?local" using local gt by (simp add: LocalColumns_def)
  have dist: "distinct (map co_Name (accessColumns @ ?local))" using ok split_columns by (simp add: table_ok_def)
  have len: "length row = length columns" and valid: "validate_columns d columns row = None"
    and vs: "vs = set_values (access_values target) columns row"
    using vals gt by (auto simp: agentValues_def ValidateValues_def access_values_def split: if_splits option.splits)
  show ?thesis
  proof (cases "c \<in> set accessColumns")
    case True
    then have "co_Name c \<notin> set columns" using dist columns by auto
    then have "vs (co_Name c) = access_values target (co_Name c)" using vs by (simp add: set_values_other)
    then show ?thesis using access_column_value [OF True] by simp
  next
    case False
    then have "c \<in> set ?local" using c split_columns by (metis UnE set_append)
    then obtain i where i: "i < length ?local" "?local ! i = c" by (metis in_set_conv_nth)
    then have name: "columns ! i = co_Name c" "i < length columns" using columns by simp_all
    have named: "column_named d (co_Name c) = Some c"
      using column_named_column [OF _ c] dist split_columns by simp
    from validate_columns_nth [OF valid len [symmetric] name(2)] name(1) named
    have checked: "validate_host_value c (row ! i) = None" by simp
    then obtain x where x: "row ! i = Some x" by (cases "row ! i") (simp_all add: validate_host_value_def)
    have "vs (co_Name c) = row ! i"
      using set_values_nth [of columns row i "access_values target"] vs dist columns len name by simp
    moreover have "column_ok c" using ok c by (simp add: table_ok_def list_all_iff)
    moreover have "wire_value (Some x)" using wire x name(2) len by (metis nth_mem)
    ultimately show ?thesis using validated_column_value checked x by simp
  qed
qed

section \<open>Warnings and outcomes\<close>

lemma strip_keeps:
  assumes "\<forall>e\<in>set es. c \<notin> set e" and "c \<in> set s"
  shows "c \<in> set (strip es s)"
  using assms
proof (induction es s rule: strip.induct)
  case (1 es s)
  have one: "strip_one fs s = Some t \<Longrightarrow> \<forall>e\<in>set fs. c \<notin> set e \<Longrightarrow> c \<in> set t" for fs t
  proof (induction fs)
    case (Cons e fs)
    have "c \<in> set (drop (length e) s)" if "take (length e) s = e" "c \<notin> set e"
      using "1.prems"(2) that by (metis UnE append_take_drop_id set_append)
    with Cons show ?case by (auto split: if_splits)
  qed simp
  show ?case
  proof (cases "strip_one es s")
    case None
    then show ?thesis using "1.prems" by (simp add: strip_None)
  next
    case (Some t)
    then show ?thesis using "1.IH" [OF Some "1.prems"(1)] one [OF Some "1.prems"(1)] by (simp add: strip_Some)
  qed
qed

definition printable :: "char \<Rightarrow> bool" where
  "printable c \<longleftrightarrow> list_all (\<lambda>e. c \<notin> set e) space_encodings"

lemma trimSpace_nonblank: "printable c \<Longrightarrow> c \<in> set s \<Longrightarrow> trimSpace s \<noteq> []"
proof -
  assume c: "printable c" "c \<in> set s"
  then have "c \<in> set (strip space_encodings s)" by (intro strip_keeps) (auto simp: printable_def list_all_iff)
  then have "c \<in> set (strip (map rev space_encodings) (rev (strip space_encodings s)))"
    using c by (intro strip_keeps) (auto simp: printable_def list_all_iff)
  then show ?thesis by (auto simp: trimSpace_def)
qed

lemma printable_chars: "printable (CHR ''/'')" "printable (CHR ''_'')" "printable (CHR ''t'')"
  by code_simp+

lemma target_nonblank: "trimSpace (targetName key) \<noteq> []" "trimSpace (diagnosticTarget key l) \<noteq> []"
  using trimSpace_nonblank [OF printable_chars(1)] by (simp_all add: targetName_def diagnosticTarget_def)

lemma targetFailure_ok:
  assumes "CHR ''_'' \<in> set code"
  shows "warning_ok (Some (targetFailure key code message retryable))" "is_cause (Some (targetFailure key code message retryable))"
  using trimSpace_nonblank [OF printable_chars(2) assms] trimSpace_nonblank [OF printable_chars(3)] target_nonblank(1) [of key]
  by (simp_all add: warning_ok_def targetFailure_def is_cause_def)

lemma queryWarning_ok:
  "role \<in> {QUERY_DIAGNOSTIC_ROLE_WARNING, QUERY_DIAGNOSTIC_ROLE_PARTIAL_RESULT_CAUSE} \<Longrightarrow> warning_ok (Some (queryWarning key d role))"
  using trimSpace_nonblank [OF printable_chars(3)] target_nonblank
  by (auto simp: warning_ok_def queryWarning_def split: option.splits)

lemma queryWarning_role [simp]: "w_role (queryWarning key d role) = role"
  by (simp add: queryWarning_def split: option.splits)

text \<open>An event has rows of the projected columns, and diagnostics or a failure.\<close>

definition event_ok :: "host_column list \<Rightarrow> target_event \<Rightarrow> bool" where
  "event_ok cs ev \<longleftrightarrow>
     (\<forall>t\<in>set (te_tuples ev). tuple_for cs t) \<and>
     (case te_failure ev of
        Some f \<Rightarrow> te_warnings ev = [] \<and> warning_ok (Some f) \<and> is_cause (Some f)
      | None \<Rightarrow> \<forall>w\<in>set (te_warnings ev). warning_ok (Some w) \<and> \<not> is_cause (Some w))"

lemma failed_event_ok [simp]:
  "event_ok cs (failed_event f) \<longleftrightarrow> warning_ok (Some f) \<and> is_cause (Some f)"
  by (simp add: event_ok_def failed_event_def)

lemma failures_ok:
  "warning_ok (Some (invalid_result key m)) \<and> is_cause (Some (invalid_result key m))"
  "warning_ok (Some (limit_exceeded key what n)) \<and> is_cause (Some (limit_exceeded key what n))"
  "warning_ok (Some (dispatchFailure texts key e)) \<and> is_cause (Some (dispatchFailure texts key e))"
  "warning_ok (Some (scanFailure texts key e)) \<and> is_cause (Some (scanFailure texts key e))"
  "warning_ok (Some (failureFromCompletion key fin)) \<and> is_cause (Some (failureFromCompletion key fin))"
proof -
  show "warning_ok (Some (failureFromCompletion key fin)) \<and> is_cause (Some (failureFromCompletion key fin))"
    using queryWarning_ok by (auto simp: failureFromCompletion_def targetFailure_ok is_cause_def split: option.splits)
      (simp_all add: targetFailure_def)
  show "warning_ok (Some (dispatchFailure texts key e)) \<and> is_cause (Some (dispatchFailure texts key e))"
    by (cases e) (simp_all add: dispatchFailure_def targetFailure_ok)
  show "warning_ok (Some (scanFailure texts key e)) \<and> is_cause (Some (scanFailure texts key e))"
    by (cases e) (simp_all add: scanFailure_def targetFailure_ok split: context_err.splits)
qed (simp_all add: invalid_result_def limit_exceeded_def targetFailure_ok)

lemma project_rows_tuples:
  assumes d: "findTable up (pl_table plan) = Some d" and local: "LocalColumns up (pl_table plan) = Some columns"
    and cs: "projects plan cs" "set cs \<subseteq> set (tdn_columns d)"
  shows "\<forall>row\<in>set rows. \<forall>v\<in>set row. wire_value v \<Longrightarrow>
    (\<forall>t\<in>set (fst (project_rows up texts plan target columns rows)). tuple_for cs t) \<and>
    length (fst (project_rows up texts plan target columns rows)) \<le> length rows \<and>
    (case snd (project_rows up texts plan target columns rows) of
       None \<Rightarrow> length (fst (project_rows up texts plan target columns rows)) = length rows
     | Some f \<Rightarrow> warning_ok (Some f) \<and> is_cause (Some f))"
proof (induction rows)
  case (Cons row rows)
  show ?case
  proof (cases "agentValues up (pl_table plan) target columns row")
    case (Inr vs)
    have "\<forall>c\<in>set cs. \<exists>x. vs (co_Name c) = Some x \<and> column_value c x"
      using agent_row_values [OF d local Inr] Cons.prems cs(2) by auto
    then obtain t where "projectValues plan vs = Inr t" "tuple_for cs t" using projectValues_tuple [OF cs(1)] by blast
    with Inr Cons show ?thesis by (auto split: prod.splits option.splits)
  qed (simp add: failures_ok)
qed simp

text \<open>Answers that came over the wire.\<close>

definition wire_answer :: "gateway_err + scan_event \<Rightarrow> bool" where
  "wire_answer a \<longleftrightarrow>
     (case a of
        Inl _ \<Rightarrow> True
      | Inr ev \<Rightarrow>
          (case ev_Batch ev of
             None \<Rightarrow> True
           | Some b \<Rightarrow> \<forall>r\<in>set (sb_rows b). \<forall>row. r = Some row \<longrightarrow> (\<forall>v\<in>set row. wire_value v)))"

lemma buffer_rows_result:
  "case buffer_rows cfg psize key rows bytes rs of
     Inl f \<Rightarrow> warning_ok (Some f) \<and> is_cause (Some f)
   | Inr (rows', bytes') \<Rightarrow> rows' = rows @ map the rs \<and> (\<forall>r\<in>set rs. r \<noteq> None) \<and>
       bytes' = bytes + int (sum_list (map (psize \<circ> the) rs)) \<and> (rs \<noteq> [] \<longrightarrow> bytes' \<le> qc_MaxBytesPerTarget cfg)"
proof (induction rs arbitrary: rows bytes)
  case (Cons r rs)
  show ?case
  proof (cases r)
    case (Some row)
    show ?thesis
    proof (cases "bytes + int (psize row) > qc_MaxBytesPerTarget cfg")
      case False
      with Cons.IH [of "rows @ [row]" "bytes + int (psize row)"] Some show ?thesis
        by (cases rs) (auto simp: Let_def split: sum.splits prod.splits if_splits)
    qed (simp add: Some failures_ok)
  qed (simp add: failures_ok)
qed simp

lemma finished_event_ok:
  assumes d: "findTable up (pl_table plan) = Some d" and local: "LocalColumns up (pl_table plan) = Some columns"
    and cs: "projects plan cs" "set cs \<subseteq> set (tdn_columns d)" and rows: "\<forall>row\<in>set rows. \<forall>v\<in>set row. wire_value v"
  shows "event_ok cs (finished_event up texts plan target columns rows fin) \<and>
    length (te_tuples (finished_event up texts plan target columns rows fin)) \<le> length rows"
proof (cases "sn_status fin")
  case SCAN_STATUS_SUCCEEDED
  show ?thesis
  proof (cases "project_rows up texts plan target columns rows")
    case (Pair ts failure)
    have "warning_ok (Some (queryWarning key x QUERY_DIAGNOSTIC_ROLE_WARNING)) \<and>
        \<not> is_cause (Some (queryWarning key x QUERY_DIAGNOSTIC_ROLE_WARNING))" for key x
      using queryWarning_ok by (simp add: is_cause_def)
    moreover have "\<forall>t\<in>set ts. tuple_for cs t" "length ts \<le> length rows"
      "failure = Some f \<Longrightarrow> warning_ok (Some f) \<and> is_cause (Some f)" for f
      using project_rows_tuples [OF d local cs rows, of texts target] Pair by simp_all
    ultimately show ?thesis using Pair SCAN_STATUS_SUCCEEDED
      by (cases failure; simp add: finished_event_def failures_ok) (auto simp: event_ok_def failed_event_def)
  qed
qed (simp_all add: finished_event_def failures_ok, simp_all add: failed_event_def)

lemma scan_loop_ok:
  assumes d: "findTable up (pl_table plan) = Some d" and local: "LocalColumns up (pl_table plan) = Some columns"
    and cs: "projects plan cs" "set cs \<subseteq> set (tdn_columns d)" and max: "0 \<le> qc_MaxRowsPerTarget cfg"
  shows "scan_loop up texts psize cfg plan target columns rows bytes answers = Some (ev, completed) \<Longrightarrow>
    \<forall>a\<in>set answers. wire_answer a \<Longrightarrow> \<forall>row\<in>set rows. \<forall>v\<in>set row. wire_value v \<Longrightarrow>
    int (length rows) \<le> qc_MaxRowsPerTarget cfg \<Longrightarrow>
    event_ok cs ev \<and> int (length (te_tuples ev)) \<le> qc_MaxRowsPerTarget cfg"
proof (induction answers arbitrary: rows bytes)
  case (Cons a answers)
  have failed: "event_ok cs (failed_event f) \<and> int (length (te_tuples (failed_event f))) \<le> qc_MaxRowsPerTarget cfg"
    if "warning_ok (Some f) \<and> is_cause (Some f)" for f using that max by (simp add: failed_event_def event_ok_def)
  show ?case
  proof (cases a)
    case (Inl e)
    with Cons.prems(1) failed [OF failures_ok(4)] show ?thesis by auto
  next
    case (Inr x)
    show ?thesis
    proof (cases "ev_Batch x")
      case None
      show ?thesis
      proof (cases "ev_Finished x")
        case None
        with \<open>ev_Batch x = None\<close> Inr Cons.prems(1) failed [OF failures_ok(1)] show ?thesis by auto
      next
        case (Some fin)
        with \<open>ev_Batch x = None\<close> Inr Cons.prems(1) have "ev = finished_event up texts plan target columns rows fin" by simp
        with finished_event_ok [OF d local cs Cons.prems(3), of texts target fin] Cons.prems(4) show ?thesis by auto
      qed
    next
      case (Some b)
      show ?thesis
      proof (cases "int (length rows + length (sb_rows b)) > qc_MaxRowsPerTarget cfg")
        case True
        with Some Inr Cons.prems(1) failed [OF failures_ok(2)] show ?thesis by auto
      next
        case False
        show ?thesis
        proof (cases "buffer_rows cfg psize (hi_Key target) rows bytes (sb_rows b)")
          case (Inl f)
          then have "warning_ok (Some f) \<and> is_cause (Some f)"
            using buffer_rows_result [where cfg = cfg and psize = psize and key = "hi_Key target" and rows = rows
                and bytes = bytes and rs = "sb_rows b"] by simp
          with failed Inl False Some Inr Cons.prems(1) show ?thesis by auto
        next
          case (Inr p)
          obtain rows' bytes' where p: "p = (rows', bytes')" by (cases p)
          have rows': "rows' = rows @ map the (sb_rows b)" "\<forall>r\<in>set (sb_rows b). r \<noteq> None"
            using buffer_rows_result [where cfg = cfg and psize = psize and key = "hi_Key target" and rows = rows
                and bytes = bytes and rs = "sb_rows b"] Inr p by simp_all
          have "wire_answer a" using Cons.prems(2) by simp
          then have "\<forall>row\<in>set rows'. \<forall>v\<in>set row. wire_value v"
            using Cons.prems(3) rows' Some \<open>a = Inr x\<close> by (auto simp: wire_answer_def)
          moreover have "int (length rows') \<le> qc_MaxRowsPerTarget cfg" using False rows' by simp
          moreover have "scan_loop up texts psize cfg plan target columns rows' bytes' answers = Some (ev, completed)"
            using Cons.prems(1) \<open>a = Inr x\<close> Some False Inr p by simp
          ultimately show ?thesis using Cons.IH [of rows' bytes'] Cons.prems(2) by simp
        qed
      qed
    qed
  qed
qed simp

lemma event_of_scan:
  assumes d: "findTable up (pl_table plan) = Some d" and cs: "projects plan cs" "set cs \<subseteq> set (tdn_columns d)"
    and scan: "scanTarget up texts psize cfg plan target dispatch answers = Some (ev, completed)"
    and wire: "\<forall>a\<in>set answers. wire_answer a" and max: "0 \<le> qc_MaxRowsPerTarget cfg"
  shows "event_ok cs ev \<and> int (length (te_tuples ev)) \<le> qc_MaxRowsPerTarget cfg"
proof -
  have failed: "event_ok cs (failed_event f) \<and> int (length (te_tuples (failed_event f))) \<le> qc_MaxRowsPerTarget cfg"
    if "warning_ok (Some f) \<and> is_cause (Some f)" for f using that max by (simp add: failed_event_def event_ok_def)
  show ?thesis
  proof (cases dispatch)
    case (Some e)
    then show ?thesis using scan failed [OF failures_ok(3)] by (auto simp: scanTarget_def)
  next
    case none: None
    show ?thesis
    proof (cases "LocalColumns up (pl_table plan)")
      case None
      then show ?thesis using scan none failed [OF failures_ok(1)] by (auto simp: scanTarget_def)
    next
      case (Some columns)
      then show ?thesis
        using scan_loop_ok [where rows = "[]" and answers = answers, OF d Some cs max] scan wire max none
        by (simp add: scanTarget_def)
    qed
  qed
qed

text \<open>
  The scan of a target, whatever its agent answers and wherever it breaks off, gives rows with
  either diagnostics that the SDK accepts as warnings or one failure that the SDK accepts as the
  cause of a partial result. Every row, also one that stays in the event of a failed scan, has a
  value of the declared type, or null, for each projected column, and there are not more rows
  than the limit per target.
\<close>

theorem scan_target_sound:
  assumes "buildPlan up low request = Inr plan"
    and "scanTarget up texts psize cfg plan target dispatch answers = Some (ev, completed)"
    and "\<forall>a\<in>set answers. wire_answer a" and "0 \<le> qc_MaxRowsPerTarget cfg"
  shows "\<exists>cs. projects plan cs \<and> event_ok cs ev \<and> int (length (te_tuples ev)) \<le> qc_MaxRowsPerTarget cfg"
  using buildPlan_columns [OF assms(1)] event_of_scan [OF _ _ _ assms(2-4)] by blast

section \<open>From the agents to the SDK\<close>

text \<open>A projected column of type ARRAY makes the query require the feature.\<close>

lemma array_projection_requires:
  assumes d: "findTable up (pl_table plan) = Some d" and cs: "projects plan cs" "set cs \<subseteq> set (tdn_columns d)"
    and arr: "list_ex (\<lambda>c. co_Type c = VALUE_TYPE_ARRAY) cs"
  shows "RequiresArrayFeature up low (pl_table plan) (plan_sourceColumns plan)"
proof -
  obtain c where c: "c \<in> set cs" "co_Type c = VALUE_TYPE_ARRAY" using arr by (auto simp: list_ex_iff)
  then have "toLower low (co_Name c) \<in> set (map (toLower low) (plan_sourceColumns plan))"
    unfolding projects_sources [OF cs(1)] by simp
  with c cs(2) d show ?thesis unfolding RequiresArrayFeature_def by (auto simp: list_ex_iff)
qed

lemma outcome_of_events_ok:
  assumes "\<forall>ev\<in>set evs. event_ok cs ev"
  shows "validateQueryOutcome
    \<lparr>o_completion = (if \<exists>ev\<in>set evs. te_failure ev \<noteq> None then QUERY_COMPLETION_PARTIAL else QUERY_COMPLETION_COMPLETE),
     o_warnings = map Some (sort_key warning_key (concat (map event_warnings evs)))\<rparr> = None"
proof -
  have warnings: "\<forall>w\<in>set (event_warnings ev). warning_ok (Some w)"
    and cause: "(\<exists>w\<in>set (event_warnings ev). is_cause (Some w)) \<longleftrightarrow> te_failure ev \<noteq> None" if "ev \<in> set evs" for ev
  proof -
    have "event_ok cs ev" using assms that by blast
    then show "\<forall>w\<in>set (event_warnings ev). warning_ok (Some w)"
      and "(\<exists>w\<in>set (event_warnings ev). is_cause (Some w)) \<longleftrightarrow> te_failure ev \<noteq> None"
      by (cases "te_failure ev"; auto simp: event_ok_def event_warnings_def)+
  qed
  let ?ws = "map Some (sort_key warning_key (concat (map event_warnings evs)))"
  have mem: "w \<in> set ?ws \<longleftrightarrow> (\<exists>ev\<in>set evs. \<exists>x\<in>set (event_warnings ev). w = Some x)" for w by auto
  have "warning_ok w" if "w \<in> set ?ws" for w
  proof -
    obtain ev x where "ev \<in> set evs" "x \<in> set (event_warnings ev)" "w = Some x" using mem \<open>w \<in> set ?ws\<close> by blast
    with warnings show ?thesis by simp
  qed
  moreover have "(\<exists>w\<in>set ?ws. is_cause w) \<longleftrightarrow> (\<exists>ev\<in>set evs. \<exists>x\<in>set (event_warnings ev). is_cause (Some x))"
    unfolding Bex_def mem by blast
  moreover have "\<dots> \<longleftrightarrow> (\<exists>ev\<in>set evs. te_failure ev \<noteq> None)" by (rule bex_cong [OF refl cause])
  ultimately show ?thesis unfolding validateQueryOutcome_None outcome_ok_def by simp
qed

lemma scans_of_query:
  assumes "coordinator_Query up low cfg reg ctx now request s = HostScans targets stream"
  shows "\<exists>plan. buildPlan up low request = Inr plan \<and> stream = newDistributedStream request plan (length targets) \<and>
    (RequiresArrayFeature up low (pl_table plan) (plan_sourceColumns plan) \<longrightarrow> ArrayValuesV1 \<in> set (q_accepted_features request))"
  using assms
  by (auto simp: coordinator_Query_def queryHosts_def queryAgents_def Let_def split: option.splits sum.splits if_splits)


section \<open>The rows of the table HOST\<close>

lemma host_table_columns: "findTable up HostTable = Some d \<Longrightarrow> tdn_columns d =
  withAccessColumns [plainColumn ''state'' VALUE_TYPE_STRING False False,
    plainColumn ''enrolled_at'' VALUE_TYPE_TIMESTAMP False False, plainColumn ''last_seen_at'' VALUE_TYPE_TIMESTAMP True False]"
proof -
  have "trimSpace HostTable = HostTable" "list_all ascii HostTable" "map ascii_upper HostTable = HostTable" by code_simp+
  then have "toUpper up (trimSpace HostTable) = HostTable" by (simp add: toUpper_def)
  moreover assume "findTable up HostTable = Some d"
  ultimately show ?thesis by (simp add: findTable_def tableDefinitions_def) (auto simp: HostTable_def)
qed

lemma host_names_distinct:
  "distinct [NamespaceColumn, HostIDColumn, HostnameColumn, ''state'', ''enrolled_at'', ''last_seen_at'']"
  by code_simp

lemma hostValues_access:
  "hostValues h at NamespaceColumn = Some (host_string (hk_Namespace (hi_Key (hs_Identity h))))"
  "hostValues h at HostIDColumn = Some (host_string (hk_ID (hi_Key (hs_Identity h))))"
  "hostValues h at HostnameColumn = Some (hostname_value (hi_Hostname (hs_Identity h)))"
proof -
  have "NamespaceColumn \<notin> {HostIDColumn, HostnameColumn, ''state'', ''enrolled_at'', ''last_seen_at''}"
    "HostIDColumn \<notin> {HostnameColumn, ''state'', ''enrolled_at'', ''last_seen_at''}"
    "HostnameColumn \<notin> {''state'', ''enrolled_at'', ''last_seen_at''}"
    using host_names_distinct by (simp_all only: distinct.simps set_simps) blast+
  then show "hostValues h at NamespaceColumn = Some (host_string (hk_Namespace (hi_Key (hs_Identity h))))"
    "hostValues h at HostIDColumn = Some (host_string (hk_ID (hi_Key (hs_Identity h))))"
    "hostValues h at HostnameColumn = Some (hostname_value (hi_Hostname (hs_Identity h)))"
    by (simp_all add: hostValues_def Let_def)
qed

lemma host_row_values:
  assumes d: "findTable up HostTable = Some d" and c: "c \<in> set (tdn_columns d)"
  shows "\<exists>x. hostValues h at (co_Name c) = Some x \<and> column_value c x"
proof -
  have str: "column_value c (host_string s)" if "co_Type c = VALUE_TYPE_STRING" for c s
    using that by (simp add: column_value_def host_string_def actual_type_def array_parts_def)
  have time: "column_value c (host_timestamp t)" if "co_Type c = VALUE_TYPE_TIMESTAMP" for c t
    using that by (simp add: column_value_def host_timestamp_def actual_type_def array_parts_def)
  have null: "column_value c host_null" for c by (simp add: column_value_def host_null_def is_null_def)
  have name: "column_value c (hostname_value s)" if "co_Type c = VALUE_TYPE_STRING" for c s
    using str [OF that] null by (simp add: hostname_value_def)
  consider "c \<in> set accessColumns" | "c = plainColumn ''state'' VALUE_TYPE_STRING False False"
    | "c = plainColumn ''enrolled_at'' VALUE_TYPE_TIMESTAMP False False"
    | "c = plainColumn ''last_seen_at'' VALUE_TYPE_TIMESTAMP True False"
    using c unfolding host_table_columns [OF d] withAccessColumns_def set_append list.set by blast
  then show ?thesis
  proof cases
    case 1
    then consider "co_Name c = NamespaceColumn" | "co_Name c = HostIDColumn" | "co_Name c = HostnameColumn"
      by (auto simp: accessColumns_def plainColumn_def)
    moreover have "co_Type c = VALUE_TYPE_STRING" using 1 by (auto simp: accessColumns_def plainColumn_def)
    ultimately show ?thesis using hostValues_access [of h at] str name by cases simp_all
  next
    case 2
    then have "co_Type c = VALUE_TYPE_STRING" "co_Name c = ''state''" by (simp_all add: plainColumn_def)
    with str show ?thesis by (simp add: hostValues_def Let_def)
  next
    case 3
    then have "co_Type c = VALUE_TYPE_TIMESTAMP" "co_Name c = ''enrolled_at''" by (simp_all add: plainColumn_def)
    with time show ?thesis by (simp add: hostValues_def Let_def)
  next
    case 4
    then have "co_Type c = VALUE_TYPE_TIMESTAMP" "co_Name c = ''last_seen_at''" by (simp_all add: plainColumn_def)
    with time null show ?thesis by (simp add: hostValues_def Let_def split: option.splits)
  qed
qed

lemma project_hosts_all:
  assumes "\<And>h. \<exists>t. projectValues plan (hostValues h at) = Inr t"
  shows "\<exists>ts. project_hosts plan at hs = Inr ts \<and>
    map Inr ts = map (\<lambda>h. projectValues plan (hostValues h at)) (filter (route_selects (pl_route plan)) hs)"
proof (induction hs)
  case (Cons h hs)
  obtain t where "projectValues plan (hostValues h at) = Inr t" using assms by blast
  with Cons show ?case by (auto intro: exI [of _ "t # _"])
qed simp

lemma host_projection_total:
  assumes "buildPlan up low request = Inr plan" and "pl_table plan = HostTable"
  shows "\<exists>t. projectValues plan (hostValues h at) = Inr t"
proof -
  obtain d cs where d: "findTable up HostTable = Some d" and cs: "projects plan cs" "set cs \<subseteq> set (tdn_columns d)"
    using buildPlan_columns [OF assms(1)] assms(2) by auto
  have "\<forall>c\<in>set cs. \<exists>x. hostValues h at (co_Name c) = Some x \<and> column_value c x"
    using host_row_values [OF d] cs(2) by blast
  then show ?thesis using projectValues_tuple [OF cs(1)] by blast
qed

lemma admits_iff:
  assumes "\<not> ar_impossible r" and "ar_namespace r \<noteq> Some []"
  shows "route_admits r (hs_Identity h) \<longleftrightarrow> in_namespace (route_namespace r) (hi_Key (hs_Identity h)) \<and> route_selects r h"
  using assms
  by (cases "ar_namespace r") (auto simp: route_admits_def in_namespace_def route_namespace_def route_selects_def)

text \<open>What the contract of a registry gives for the table HOST.\<close>

context fleet_registry
begin

lemma hosts_rows:
  assumes rep: "rep s f" and plan: "buildPlan up low request = Inr plan" "pl_table plan = HostTable"
    and ns: "ar_namespace (pl_route plan) \<noteq> Some []"
    and rows: "queryHosts ops ctx now request plan s = HostRows st"
  shows "\<exists>hosts. sorted_wrt (<) (map snapshot_key hosts) \<and>
    hs_Identity ` set hosts = {i. \<exists>k. fl_identity f k = Some i \<and> route_admits (pl_route plan) i} \<and>
    map Inr (st_tuples st) = map (\<lambda>h. projectValues plan (hostValues h now)) hosts"
proof (cases "ar_impossible (pl_route plan)")
  case True
  then have "st_tuples st = []" using rows by (simp add: queryHosts_def newStaticStream_def) auto
  with True show ?thesis by (intro exI [of _ "[]"]) (simp add: route_admits_def)
next
  case False
  let ?r = "pl_route plan"
  obtain hs where l: "ro_List ops ctx (route_namespace ?r) s = Inr hs"
    using rows False by (auto simp: queryHosts_def split: sum.splits)
  obtain ts where ts: "project_hosts plan now hs = Inr ts"
    "map Inr ts = map (\<lambda>h. projectValues plan (hostValues h now)) (filter (route_selects ?r) hs)"
    using project_hosts_all [OF host_projection_total [OF plan]] by blast
  have st: "st_tuples st = ts" using rows False l ts(1) by (auto simp: queryHosts_def newStaticStream_def)
  have law: "sorted_wrt (<) (map snapshot_key hs)"
    "set hs = {fleet_snapshot f k (latest f k) | k. fl_identity f k \<noteq> None \<and> in_namespace (route_namespace ?r) k}"
    using list_hosts [OF rep l] by blast+
  have key: "hi_Key i = k" if "fl_identity f k = Some i" for k i using rep_ok [OF rep] that by (simp add: fleet_ok_def)
  have "sorted_wrt (<) (map snapshot_key (filter (route_selects ?r) hs))"
    using law(1) by (simp add: sorted_wrt_map sorted_wrt_filter)
  moreover have "hs_Identity ` set (filter (route_selects ?r) hs) = {i. \<exists>k. fl_identity f k = Some i \<and> route_admits ?r i}"
  proof (rule set_eqI)
    fix i
    have "i \<in> hs_Identity ` set (filter (route_selects ?r) hs) \<longleftrightarrow>
      (\<exists>k. fl_identity f k = Some i \<and> in_namespace (route_namespace ?r) k \<and> route_selects ?r (fleet_snapshot f k (latest f k)))"
    proof
      assume "i \<in> hs_Identity ` set (filter (route_selects ?r) hs)"
      then obtain h where h: "h \<in> set hs" "route_selects ?r h" "i = hs_Identity h" by auto
      then obtain k where k: "h = fleet_snapshot f k (latest f k)" "fl_identity f k \<noteq> None" "in_namespace (route_namespace ?r) k"
        using law(2) by blast
      with h have "fl_identity f k = Some i" by (auto simp: fleet_snapshot_def)
      with k h(2) show "\<exists>k. fl_identity f k = Some i \<and> in_namespace (route_namespace ?r) k \<and>
        route_selects ?r (fleet_snapshot f k (latest f k))" by blast
    next
      assume "\<exists>k. fl_identity f k = Some i \<and> in_namespace (route_namespace ?r) k \<and>
        route_selects ?r (fleet_snapshot f k (latest f k))"
      then obtain k where k: "fl_identity f k = Some i" "in_namespace (route_namespace ?r) k"
        "route_selects ?r (fleet_snapshot f k (latest f k))" by blast
      then have "fleet_snapshot f k (latest f k) \<in> set (filter (route_selects ?r) hs)" using law(2) by auto
      moreover have "hs_Identity (fleet_snapshot f k (latest f k)) = i" using k(1) by (simp add: fleet_snapshot_def)
      ultimately show "i \<in> hs_Identity ` set (filter (route_selects ?r) hs)" by (metis image_eqI)
    qed
    also have "\<dots> \<longleftrightarrow> (\<exists>k. fl_identity f k = Some i \<and> route_admits ?r i)"
    proof (rule ex_cong)
      fix k
      assume k: "fl_identity f k = Some i"
      then have "hs_Identity (fleet_snapshot f k (latest f k)) = i" by (simp add: fleet_snapshot_def)
      with admits_iff [OF False ns, of "fleet_snapshot f k (latest f k)"] key [OF k]
      show "in_namespace (route_namespace ?r) k \<and> route_selects ?r (fleet_snapshot f k (latest f k)) \<longleftrightarrow> route_admits ?r i" by simp
    qed
    finally show "i \<in> hs_Identity ` set (filter (route_selects ?r) hs) \<longleftrightarrow>
      i \<in> {i. \<exists>k. fl_identity f k = Some i \<and> route_admits ?r i}" by simp
  qed
  ultimately show ?thesis using ts(2) st by blast
qed

end



section \<open>Witnesses\<close>

definition plain_texts :: error_texts where
  "plain_texts = \<lparr>tx_gateway = (\<lambda>_. ''busy''), tx_row = (\<lambda>_. ''row''), tx_quote = id\<rparr>"

definition small_config :: coordinator_config where
  "small_config =
     \<lparr>qc_AllowPartialResults = True, qc_AllowUnboundedFanout = False, qc_ScanTimeout = 10, qc_PreferredBatchRows = 128,
      qc_MaxConcurrentTargets = 8, qc_MaxRowsPerTarget = 100, qc_MaxBytesPerTarget = 1000\<rparr>"

definition web_snapshot :: host_snapshot where
  "web_snapshot = \<lparr>hs_Identity = web_identity, hs_Session = None\<rparr>"

definition slow_finish :: scan_event where
  "slow_finish =
     \<lparr>ev_Batch = None,
      ev_Finished = Some \<lparr>sn_scan_id = ''s'', sn_status = SCAN_STATUS_SUCCEEDED,
        sn_diagnostics = [Some \<lparr>sd_code = ''SLOW'', sd_message = ''slow disk'', sd_target = [], sd_retryable = True\<rparr>]\<rparr>\<rparr>"

lemma cpu_plan_built: "buildPlan id id (partial_request True) = Inr cpu_plan"
  by code_simp

definition slow_event :: target_event where
  "slow_event =
     \<lparr>te_tuples = [],
      te_warnings = [\<lparr>w_code = ''SLOW'', w_message = ''slow disk'', w_target = ''n/w'', w_retryable = True,
        w_role = QUERY_DIAGNOSTIC_ROLE_WARNING\<rparr>],
      te_failure = None\<rparr>"

lemma slow_scan:
  "scanTarget id plain_texts length small_config cpu_plan web_snapshot None [Inr slow_finish] = Some (slow_event, True)"
  by code_simp

theorem scan_target_sound_witness:
  "\<exists>cs. projects cpu_plan cs \<and> event_ok cs slow_event \<and> int (length (te_tuples slow_event)) \<le> 100"
proof -
  have "\<forall>a\<in>set [Inr slow_finish]. wire_answer a" by (simp add: wire_answer_def slow_finish_def)
  from scan_target_sound [OF cpu_plan_built slow_scan this] show ?thesis by (simp add: small_config_def)
qed

lemma web_query_scans:
  obtains targets where "coordinator_Query id id small_config memory_registry (\<lambda>_. None) 6 (partial_request True) web_memory =
    HostScans targets (newDistributedStream (partial_request True) cpu_plan (length targets))"
proof -
  have "isl (mem_SnapshotActive (\<lambda>_. None) ''n'' 6 web_memory) = False" by code_simp
  then obtain targets where "mem_SnapshotActive (\<lambda>_. None) ''n'' 6 web_memory = Inr targets"
    by (cases "mem_SnapshotActive (\<lambda>_. None) ''n'' 6 web_memory") auto
  moreover have "\<not> RequiresArrayFeature id id (pl_table cpu_plan) (plan_sourceColumns cpu_plan)"
    "pl_table cpu_plan \<noteq> HostTable" "GatewayTable id (pl_table cpu_plan) \<noteq> None" by code_simp+
  moreover have "qc_AllowPartialResults small_config" by (simp add: small_config_def)
  ultimately have "coordinator_Query id id small_config memory_registry (\<lambda>_. None) 6 (partial_request True) web_memory =
      HostScans targets (newDistributedStream (partial_request True) cpu_plan (length targets))"
    by (simp add: coordinator_Query_def cpu_plan_built queryAgents_def comp_def memory_registry_def)
      (simp add: cpu_plan_def no_route_def unbounded_def route_namespace_def)
  then show ?thesis by (rule that)
qed


definition host_request :: query_request where
  "host_request = (partial_request False)\<lparr>q_entity := Some \<lparr>er_name = ''host'', er_namespace = []\<rparr>, q_filter := None\<rparr>"

definition host_plan :: query_plan where
  "host_plan = cpu_plan\<lparr>pl_table := ''HOST'', pl_route := no_route\<rparr>"



end
