(* ===== verification/Spec2Isabelle.thy ===== *)
theory Spec2Isabelle
  imports ValueGraphs CachedQueries InMemoryHistory HostOutput
begin

text \<open>
  Verification of the Go provider SDK (\<open>src/sdk-go/provider\<close>), its query cache
  (\<open>src/sdk-go/provider/cache\<close>), the in-memory provider (\<open>src/providers/inmemory\<close>) and the
  registry and the queries of the host provider (\<open>src/providers/host/internal\<close>).

  \<^bold>\<open>The program.\<close> A provider is Go code that implements the interfaces of the SDK. The SDK's
  server receives gRPC requests, validates them, finds the connection the request names in a
  registry, calls the provider and validates the answer before it is sent. The cache is a
  provider that wraps another one: it answers repeated queries from a store in memory and
  must notice every mutation and every transaction that may have changed the data. The
  in-memory provider is an implementation of the SDK's interfaces: a store of tasks that can
  be changed and three fixed entities, queries with filters, ordering, paging, grouping and
  aggregates, and large values handed out by reference. The host provider serves tables about
  a fleet of hosts: agents hold leased sessions in a registry, and a query is planned into a
  route, sent to the hosts of the route and gathered into one result, complete or partial.

  \<^bold>\<open>The theories\<close>, each next to the sources it translates:

  \<^item> \<open>Prelude\<close>, \<open>GoStrings\<close>: error results, the contract of step relations
    (\<open>transition_invariant\<close>), the functions of Go's string library the sources use.
  \<^item> \<open>Messages\<close>: the protocol messages as datatypes and records, the error values.
  \<^item> \<open>ValueStructure\<close>, \<open>ValueTyping\<close>, \<open>ValueGraphs\<close> (\<open>value_structure.go\<close>): validation of
    descriptors, values, batches, expressions and query requests. The first has the code, on
    trees and on pointer graphs with the path of visited pointers; the second shows that the
    validators accept exactly the well-typed trees; the third that the traversal of a pointer
    graph ends, accepts exactly the graphs that unfold to well-typed trees, and agrees with
    the recursion over the tree.
  \<^item> \<open>ValueFeatures\<close> (\<open>value_features.go\<close>): negotiated features of output batches and the
    connection stamped into LOB references.
  \<^item> \<open>Capabilities\<close> (\<open>capability_validation.go\<close>, identifiers of \<open>transaction_recovery.go\<close>).
  \<^item> \<open>SchemaMetadata\<close> (\<open>metadata.go\<close>): namespace columns and stable primary keys.
  \<^item> \<open>ProviderApi\<close> (\<open>provider.go\<close>, \<open>connection.go\<close>): the interfaces as records of operations
    over the provider's own state, a type parameter called the world.
  \<^item> \<open>Registry\<close> (\<open>registry.go\<close>): the map of managed connections, once as sequential
    operations and once as a machine of lock steps that interleave.
  \<^item> \<open>Server\<close> (\<open>server.go\<close>, \<open>health.go\<close>, \<open>transaction.go\<close>, \<open>mutation.go\<close>, \<open>semantic.go\<close>),
    \<open>QueryServer\<close> (\<open>query.go\<close>), \<open>LobServer\<close> (\<open>lob.go\<close>), \<open>BranchServer\<close>
    (\<open>transaction_recovery.go\<close>): the handlers.
  \<^item> \<open>MemoryStore\<close> (\<open>cache/memory.go\<close>): the map with its recency list.
  \<^item> \<open>CacheState\<close> (\<open>cache/state.go\<close>, \<open>cache/cache.go\<close>): generations, invalidation through
    dependencies, invalidations retained for prepared branches.
  \<^item> \<open>CacheCoherence\<close>: an abstract history of the cache, lookups, guarded stores and
    invalidations in any order, and its safety.
  \<^item> \<open>CachedStreams\<close>, \<open>CachedConnection\<close> (\<open>cache/query.go\<close>, \<open>mutation.go\<close>,
    \<open>transaction.go\<close>, \<open>transaction_recovery.go\<close>, \<open>lob.go\<close>, \<open>cache.go\<close>): recording and replay
    streams, the wrapped connection, provider, recovery manager and the controller.
  \<^item> \<open>CacheSimulation\<close>: every run of the wrapped provider is a history of \<open>CacheCoherence\<close>.
  \<^item> \<open>CachedQueries\<close>: the server on top of the cache on top of a provider.

  The in-memory provider:

  \<^item> \<open>InMemoryModel\<close> (\<open>model.go\<close>): tasks, rows, the store, the entities and their fields. The
    rows a query sees have the declared types.
  \<^item> \<open>InMemoryNumbers\<close> (\<open>expression.go\<close>, \<open>aggregate.go\<close>): comparison of values, exact rational
    arithmetic and its conversion to the result type.
  \<^item> \<open>InMemoryExpressions\<close> (\<open>expression.go\<close>, \<open>aggregate.go\<close>): evaluation on a row and on a group.
  \<^item> \<open>InMemoryOrdering\<close>, \<open>InMemoryPlanning\<close>, \<open>InMemoryQuery\<close> (\<open>query.go\<close>): ordering, projections,
    paging, output values, the query. \<open>weak_order\<close> is the contract of a less function with
    which the stable sort is correct; rows and group keys are its instances.
  \<^item> \<open>InMemoryAggregates\<close> (\<open>aggregate.go\<close>): grouping, HAVING and aggregate queries.
  \<^item> \<open>InMemoryStreams\<close> (\<open>result_stream.go\<close>, \<open>lob.go\<close>): result streams, LOBs and LOB streams.
  \<^item> \<open>InMemoryMutations\<close> (\<open>mutation.go\<close>): insert, update, delete, each with the exact change of
    the store, or none after an error.
  \<^item> \<open>InMemoryTyping\<close>: what a query delivers is well typed and needs only accepted features.
  \<^item> \<open>InMemoryResults\<close>: which rows a query returns, in which order; that it returns.
  \<^item> \<open>InMemoryGroups\<close>: the groups partition the rows, grouped values are those of every row.
  \<^item> \<open>InMemoryProvider\<close> (\<open>provider.go\<close>, \<open>connection.go\<close>, \<open>semantic.go\<close>): the provider and its
    connections as values of the SDK's interfaces; queries through the SDK's server.
  \<^item> \<open>InMemoryServing\<close>: capabilities and LOBs through the SDK's server.
  \<^item> \<open>InMemoryHistory\<close>: all histories of calls and the invariant of the provider's world.

  The host provider:

  \<^item> \<open>HostRegistry\<close> (\<open>model/host.go\<close>, \<open>registry/registry.go\<close>, \<open>registry/memory.go\<close>): hosts, sessions
    with leases, the interface of a registry and the implementation in memory.
  \<^item> \<open>HostFleet\<close>: the abstract fleet, every host with the history of its sessions, and the locale
    \<open>fleet_registry\<close>, the contract of a registry over it. At most one session of a host is active
    and a superseded session stays superseded, for every implementation of the contract.
  \<^item> \<open>HostMemory\<close>: the registry in memory fulfils the contract, with what follows for its calls.
  \<^item> \<open>HostTime\<close>: timestamps, what is written and what is accepted.
  \<^item> \<open>HostSchema\<close> (\<open>hostschema/schema.go\<close>): tables, columns and the validation of agent rows.
  \<^item> \<open>HostPlan\<close> (\<open>query/plan.go\<close>, \<open>query/values.go\<close>): plans, the routes of filters, the values of
    rows. No host that satisfies a filter is lost; flat filters are routed exactly, nested
    contradictions are not.
  \<^item> \<open>HostStream\<close> (\<open>query/stream.go\<close>): the scan of a target and the result streams; which rows are
    delivered and when a query fails, is partial or complete.
  \<^item> \<open>HostQuery\<close> (\<open>query/coordinator.go\<close>): configuration, routing and the query.
  \<^item> \<open>HostOutput\<close>: what goes out to the SDK: whatever the agents answer, batches and outcome pass the
    checks of \<open>ValueFeatures\<close> and \<open>QueryServer\<close>; the rows of the table HOST.

  \<^bold>\<open>Modelling.\<close> Go pointers that may be nil are options, errors are values of sum types with one
  constructor per place that raises one. Machine integers whose overflow matters are words:
  generations, offsets, limits, counters. Calls of a provider are functions of its world. What
  Go leaves open is a parameter with its documented behaviour as hypothesis: the order of
  ranging over a map, the clock, random bytes, the context of a call, the conversions between
  decimal texts and floating point, Unicode case tables, the encoding of messages. For the host
  provider these are also the answers of an agent to a scan, in the order they arrive, what the
  select statement of a stream receives, the texts of errors and the encoded size of a row.

  \<^bold>\<open>Termination.\<close> Loops over a foreign stream and loops that search for an unused identifier
  are partial functions: no result means that the call does not return. It is shown when they
  return: \<open>query_returns\<close> for a stream that ends; \<open>queries_return\<close> while fewer than
  \<open>2 ^ 128\<close> LOB identifiers are taken and the random source reaches an unused one;
  \<open>insert_returns\<close> while fewer than \<open>2 ^ 64\<close> tasks are stored. Coherence of the cache holds for
  fewer than \<open>2 ^ 64\<close> invalidations, after which generations wrap around.

  \<^bold>\<open>Not modelled.\<close> Generated protocol code (its messages are data of the model), the test kit,
  the loading of a semantic fragment from a file, query logging, command-line programs, and
  the other providers (BACnet, Cassandra, Kubernetes, OpenAPI, Oracle, Redis), whose
  code is mostly configuration and calls of client libraries. Of the host provider: the durable
  registry over a database (\<open>registry/bolt.go\<close>), the agents, the gateway that holds their streams
  and with it \<open>dispatchScan\<close>, the goroutines of a distributed stream, and the metadata documents.
  \<open>sort.SliceStable\<close> is the insertion sort that the library runs on its blocks; the merging of blocks
  is not modelled. \<open>sort.Slice\<close> on the warnings of a query is a stable sort, one of the orders that Go
  permits for warnings with equal target, code and message.
\<close>

end
